(* ===== verification/Kernel_Prelude.thy ===== *)
theory Kernel_Prelude
  imports Main "HOL-Library.Word"
begin

unbundle bit_operations_syntax

text \<open>
  Shared vocabulary of the development: the machine integers of the Rust sources, the outcome
  of a kernel routine (it returns, it panics, or it spins for ever), and the generic facts on
  lists, words and outcomes that the component theories use.

  The kernel is built with \<^verbatim>\<open>cargo build --release\<close> (\<^verbatim>\<open>src/kernel/build.zig\<close>), so unsigned
  arithmetic wraps; \<open>n word\<close> has exactly that arithmetic. Array indices are still checked in
  a release build: an index out of range is \<open>Panic\<close>.
\<close>

section \<open>Machine integers\<close>

type_synonym u8 = "8 word"
type_synonym u16 = "16 word"
type_synonym u32 = "32 word"
type_synonym u64 = "64 word"
type_synonym i64 = int

section \<open>Outcomes\<close>

text \<open>
  \<open>Done x\<close>: the routine returns \<open>x\<close>. \<open>Panic\<close>: it ends in the panic handler. \<open>Hang\<close>: it
  spins on a lock that its own execution path holds, or one of its loops never ends, so it never returns.
\<close>

datatype 'a run = Done 'a | Panic | Hang

fun bind_run :: "'a run \<Rightarrow> ('a \<Rightarrow> 'b run) \<Rightarrow> 'b run" where
  "bind_run (Done x) f = f x"
| "bind_run Panic f = Panic"
| "bind_run Hang f = Hang"

fun is_done :: "'a run \<Rightarrow> bool" where
  "is_done (Done x) = True"
| "is_done Panic = False"
| "is_done Hang = False"

named_theorems run_simps

lemma bind_run_Done_iff [run_simps]:
  "bind_run m f = Done y \<longleftrightarrow> (\<exists>x. m = Done x \<and> f x = Done y)"
  by (cases m) auto

lemma bind_run_Panic_iff:
  "bind_run m f = Panic \<longleftrightarrow> m = Panic \<or> (\<exists>x. m = Done x \<and> f x = Panic)"
  by (cases m) auto

lemma bind_run_Hang_iff:
  "bind_run m f = Hang \<longleftrightarrow> m = Hang \<or> (\<exists>x. m = Done x \<and> f x = Hang)"
  by (cases m) auto

lemma is_done_iff: "is_done m \<longleftrightarrow> (\<exists>x. m = Done x)"
  by (cases m) auto

lemma is_done_bind: "is_done (bind_run m f) \<longleftrightarrow> (\<exists>x. m = Done x \<and> is_done (f x))"
  by (cases m) auto

text \<open>A loop given as a partial function: without a value it never ends.\<close>

definition loop_run :: "'a run option \<Rightarrow> 'a run" where
  "loop_run r = (case r of None \<Rightarrow> Hang | Some x \<Rightarrow> x)"

section \<open>Checked array access\<close>

text \<open>Rust's \<open>a[i]\<close> and \<open>a[i] = x\<close>: an index outside the array panics.\<close>

definition arr_get :: "'a list \<Rightarrow> nat \<Rightarrow> 'a run" where
  "arr_get xs i = (if i < length xs then Done (xs ! i) else Panic)"

definition arr_set :: "'a list \<Rightarrow> nat \<Rightarrow> 'a \<Rightarrow> 'a list run" where
  "arr_set xs i x = (if i < length xs then Done (xs[i := x]) else Panic)"

lemma arr_get_in [simp]: "i < length xs \<Longrightarrow> arr_get xs i = Done (xs ! i)"
  by (simp add: arr_get_def)

lemma arr_get_Done: "arr_get xs i = Done x \<longleftrightarrow> i < length xs \<and> x = xs ! i"
  by (auto simp: arr_get_def)

lemma arr_set_in [simp]: "i < length xs \<Longrightarrow> arr_set xs i x = Done (xs[i := x])"
  by (simp add: arr_set_def)

lemma arr_set_Done: "arr_set xs i x = Done ys \<longleftrightarrow> i < length xs \<and> ys = xs[i := x]"
  by (auto simp: arr_set_def)

section \<open>Bit masks\<close>

text \<open>\<open>1 << n\<close> on a \<open>u64\<close>, for a shift amount below 64.\<close>

definition bit_at :: "nat \<Rightarrow> u64" where
  "bit_at n = push_bit n 1"

definition has_any :: "u64 \<Rightarrow> u64 \<Rightarrow> bool" where
  "has_any w f \<longleftrightarrow> w AND f \<noteq> 0"

lemma has_any_iff: "has_any w f \<longleftrightarrow> (\<exists>n < 64. bit w n \<and> bit f n)"
proof
  assume "has_any w f"
  then obtain n where "bit (w AND f) n"
    unfolding has_any_def using bit_eqI [of "w AND f" 0] by auto
  then show "\<exists>n < 64. bit w n \<and> bit f n"
    using bit_imp_le_length [of w n] by (auto simp: bit_and_iff)
next
  assume "\<exists>n < 64. bit w n \<and> bit f n"
  then obtain n where "bit (w AND f) n" by (auto simp: bit_and_iff)
  then show "has_any w f" unfolding has_any_def by (metis bit_0_eq bot_apply bot_bool_def)
qed

lemma bit_bit_at [simp]: "bit (bit_at n) m \<longleftrightarrow> m = n \<and> n < 64"
  by (auto simp: bit_at_def bit_simps)

lemma has_any_bit_at [simp]: "has_any w (bit_at n) \<longleftrightarrow> bit w n"
  using bit_imp_le_length [of w n] by (auto simp: has_any_iff)

section \<open>Word bounds\<close>

lemma unat_u64_less: "unat (v :: u64) < 18446744073709551616"
  using unsigned_less [of v, where ?'a = nat] by simp

lemma unat_u32_less: "unat (v :: u32) < 4294967296"
  using unsigned_less [of v, where ?'a = nat] by simp

lemma unat_u16_less: "unat (v :: u16) < 65536"
  using unsigned_less [of v, where ?'a = nat] by simp

lemma unat_u8_less: "unat (v :: u8) < 256"
  using unsigned_less [of v, where ?'a = nat] by simp

section \<open>Positions in a ring\<close>

lemma mod_inj_window:
  fixes a b m :: nat
  assumes "a \<le> b" "b - a < m" "a mod m = b mod m"
  shows "a = b"
proof -
  have "m dvd b - a" using mod_eq_dvd_iff_nat [OF assms(1), of m] assms(3) by simp
  with assms(1,2) show ?thesis by (auto dest: dvd_imp_le)
qed

lemma mod_distinct_window:
  fixes k j m n :: nat
  assumes "k < m" "k < n" "j < m" "j < n" "k \<noteq> j"
  shows "(n - 1 - k) mod m \<noteq> (n - 1 - j) mod m"
proof -
  have *: "(n - 1 - b) mod m \<noteq> (n - 1 - a) mod m" if "a < b" "b < m" "b < n" for a b
  proof
    assume eq: "(n - 1 - b) mod m = (n - 1 - a) mod m"
    have "n - 1 - b = n - 1 - a"
    proof (rule mod_inj_window [OF _ _ eq])
      show "n - 1 - b \<le> n - 1 - a" using that by linarith
      show "n - 1 - a - (n - 1 - b) < m" using that by linarith
    qed
    with that show False by linarith
  qed
  from assms show ?thesis by (metis * linorder_neqE_nat)
qed

section \<open>Lists\<close>

lemma list_update_append_last [simp]: "(xs @ [x])[length xs := y] = xs @ [y]"
  by simp

lemma nth_list_update_if:
  "i < length xs \<Longrightarrow> (xs[i := x]) ! j = (if j = i then x else xs ! j)"
  by simp

end
