(* ===== verification/Debug_Fmt.thy ===== *)
theory Debug_Fmt
  imports Kernel_Prelude
begin

text \<open>
  The number formatters of the kernel (\<^verbatim>\<open>debug.rs\<close>: \<open>num_str\<close>, \<open>hex_str\<close>; \<^verbatim>\<open>mm/pmm.rs\<close>:
  \<open>pnum_serial\<close>; \<^verbatim>\<open>allocator/mod.rs\<close>: \<open>serial_usize\<close>) and of user space
  (\<^verbatim>\<open>userspace/src/main.rs\<close>: \<open>num_to_str\<close>). Each fills a fixed buffer from the right and returns
  the filled part; a byte of the buffer is a \<open>char\<close>. All decimal formatters are proved equal to
  one reference function, whose result reads back as the number.
\<close>

section \<open>Reference: decimal and hexadecimal digits\<close>

definition digit_char :: "nat \<Rightarrow> char" where
  "digit_char d = char_of (48 + d)"

fun dec_digits :: "nat \<Rightarrow> string" where
  "dec_digits v = (if v < 10 then [digit_char v] else dec_digits (v div 10) @ [digit_char (v mod 10)])"

declare dec_digits.simps [simp del]

definition char_digit :: "char \<Rightarrow> nat" where
  "char_digit c = of_char c - 48"

definition parse_dec :: "string \<Rightarrow> nat" where
  "parse_dec s = foldl (\<lambda>n c. 10 * n + char_digit c) 0 s"

lemma char_digit_digit_char: "d < 10 \<Longrightarrow> char_digit (digit_char d) = d"
  by (simp add: char_digit_def digit_char_def of_char_of)

lemma parse_dec_digits: "parse_dec (dec_digits v) = v"
proof (induction v rule: dec_digits.induct)
  case (1 v)
  show ?case
  proof (cases "v < 10")
    case True
    then show ?thesis
      by (subst dec_digits.simps) (simp add: parse_dec_def char_digit_digit_char)
  next
    case False
    with 1 show ?thesis
      by (subst dec_digits.simps) (simp add: parse_dec_def char_digit_digit_char)
  qed
qed

lemma dec_digits_nonempty [simp]: "dec_digits v \<noteq> []"
  by (subst dec_digits.simps) simp

lemma length_dec_digits_bound: "v < 10 ^ k \<Longrightarrow> 0 < k \<Longrightarrow> length (dec_digits v) \<le> k"
proof (induction k arbitrary: v)
  case 0
  then show ?case by simp
next
  case (Suc k)
  show ?case
  proof (cases "v < 10")
    case True
    then show ?thesis by (subst dec_digits.simps) simp
  next
    case False
    with Suc.prems have "v div 10 < 10 ^ k" "0 < k"
      by (auto simp: less_mult_imp_div_less mult.commute intro: gr0I)
    from Suc.IH [OF this] False show ?thesis by (subst dec_digits.simps) simp
  qed
qed

lemma length_dec_digits_u64: "length (dec_digits (unat (v :: u64))) \<le> 20"
proof (rule length_dec_digits_bound)
  show "unat v < 10 ^ 20" using unat_u64_less [of v] by simp
qed simp

section \<open>The loop that fills a buffer from the right\<close>

text \<open>
  \<open>while v > 0 { buf[i] = b'0' + v % 10; v /= 10; if i == 0 { break } else { i -= 1 } }\<close>:
  the state is the number left, the buffer and the next position.
\<close>

function num_loop :: "u64 \<Rightarrow> string \<Rightarrow> nat \<Rightarrow> string \<times> nat" where
  "num_loop v buf i =
     (if v = 0 then (buf, i)
      else let buf' = buf[i := digit_char (unat (v mod 10))]
           in if i = 0 then (buf', i) else num_loop (v div 10) buf' (i - 1))"
  by pat_completeness auto
termination
  by (relation "measure (\<lambda>(v, buf, i). i)") auto

declare num_loop.simps [simp del]

text \<open>\<open>debug::num_str\<close>: the text is \<open>buf[i + 1..]\<close> of a 24-byte buffer.\<close>

definition num_str :: "u64 \<Rightarrow> string" where
  "num_str v =
     (if v = 0 then drop 23 ((replicate 24 CHR 0x00)[23 := CHR ''0''])
      else let (buf, i) = num_loop v (replicate 24 CHR 0x00) 23 in drop (i + 1) buf)"

text \<open>\<open>pmm::pnum_serial\<close>: the same loop; the characters are sent one by one.\<close>

definition pnum_serial :: "u64 \<Rightarrow> string" where
  "pnum_serial v =
     (if v = 0 then ''0''
      else let (buf, i) = num_loop v (replicate 24 CHR 0x00) 23 in drop (i + 1) buf)"

text \<open>
  \<open>allocator::serial_usize\<close> and \<open>num_to_str\<close> of the user program: the index is decremented before the store, so
  the text is \<open>buf[i..]\<close> of a 20-byte buffer.
\<close>

function pre_loop :: "u64 \<Rightarrow> string \<Rightarrow> nat \<Rightarrow> string \<times> nat" where
  "pre_loop v buf i =
     (if v = 0 \<or> i = 0 then (buf, i)
      else pre_loop (v div 10) (buf[i - 1 := digit_char (unat (v mod 10))]) (i - 1))"
  by pat_completeness auto
termination
  by (relation "measure (\<lambda>(v, buf, i). i)") auto

declare pre_loop.simps [simp del]

definition serial_usize :: "u64 \<Rightarrow> string" where
  "serial_usize v =
     (if v = 0 then ''0''
      else let (buf, i) = pre_loop v (replicate 20 CHR 0x00) 20 in drop i buf)"

definition num_to_str :: "u64 \<Rightarrow> string" where
  "num_to_str v =
     (if v = 0 then drop 19 (replicate 20 CHR ''0'')
      else let (buf, i) = pre_loop v (replicate 20 CHR ''0'') 20 in drop i buf)"

text \<open>
  \<open>debug::hex_str\<close>: sixteen digits after the prefix, filled from index 17 down to 2.
\<close>

definition hex_digit :: "nat \<Rightarrow> char" where
  "hex_digit d = ''0123456789ABCDEF'' ! d"

fun hex_loop :: "u64 \<Rightarrow> nat list \<Rightarrow> string \<Rightarrow> string" where
  "hex_loop v [] buf = buf"
| "hex_loop v (i # is) buf =
     hex_loop (drop_bit 4 v) is (buf[i := hex_digit (unat (v AND 15))])"

definition hex_str :: "u64 \<Rightarrow> string" where
  "hex_str v = hex_loop v (rev [2..<18]) ((replicate 18 CHR 0x00)[0 := CHR ''0'', 1 := CHR ''x''])"

section \<open>The decimal formatters agree with the reference\<close>

lemma unat_div10 [simp]: "unat ((v :: u64) div 10) = unat v div 10"
  by (simp add: unat_div)

lemma unat_mod10 [simp]: "unat ((v :: u64) mod 10) = unat v mod 10"
  by (simp add: unat_mod)

lemma drop_update_at: "i < length xs \<Longrightarrow> drop i (xs[i := x]) = x # drop (Suc i) xs"
  by (simp add: Cons_nth_drop_Suc [symmetric])

lemma u64_div10_zero: "(v :: u64) div 10 = 0 \<longleftrightarrow> unat v < 10"
  by (simp add: word_unat_eq_iff div_eq_0_iff)

lemma num_loop_digits:
  assumes "v \<noteq> 0" "length (dec_digits (unat v)) \<le> i" "i < length buf"
  shows "case num_loop v buf i of (buf', j) \<Rightarrow>
           drop (Suc j) buf' = dec_digits (unat v) @ drop (Suc i) buf"
  using assms
proof (induction v buf i rule: num_loop.induct)
  case (1 v buf i)
  let ?buf = "buf[i := digit_char (unat (v mod 10))]"
  from 1(3) have i: "i \<noteq> 0" by (metis dec_digits_nonempty le_zero_eq length_0_conv)
  have step: "num_loop v buf i = num_loop (v div 10) ?buf (i - 1)"
    using 1(2) i by (subst num_loop.simps) (simp add: Let_def)
  have tail: "drop i ?buf = digit_char (unat v mod 10) # drop (Suc i) buf"
    using 1(4) by (simp add: drop_update_at)
  show ?case
  proof (cases "unat v < 10")
    case True
    then have "v div 10 = 0" by (simp add: u64_div10_zero)
    then have "num_loop v buf i = (?buf, i - 1)"
      using step by (simp add: num_loop.simps)
    with True i tail show ?thesis by (simp add: dec_digits.simps)
  next
    case False
    then have d: "dec_digits (unat v) = dec_digits (unat (v div 10)) @ [digit_char (unat v mod 10)]"
      by (subst dec_digits.simps) simp
    have nz: "v div 10 \<noteq> 0" using False by (simp add: u64_div10_zero)
    have len: "length (dec_digits (unat (v div 10))) \<le> i - 1" using 1(3) d by simp
    have "case num_loop (v div 10) ?buf (i - 1) of (buf', j) \<Rightarrow>
           drop (Suc j) buf' = dec_digits (unat (v div 10)) @ drop (Suc (i - 1)) ?buf"
      by (rule "1.IH") (use 1 i nz len in auto)
    with step d i tail show ?thesis by (auto split: prod.splits)
  qed
qed

lemma pre_loop_digits:
  assumes "v \<noteq> 0" "length (dec_digits (unat v)) \<le> i" "i \<le> length buf"
  shows "case pre_loop v buf i of (buf', j) \<Rightarrow>
           drop j buf' = dec_digits (unat v) @ drop i buf"
  using assms
proof (induction v buf i rule: pre_loop.induct)
  case (1 v buf i)
  let ?buf = "buf[i - 1 := digit_char (unat (v mod 10))]"
  from 1(3) have i: "i \<noteq> 0" by (metis dec_digits_nonempty le_zero_eq length_0_conv)
  have step: "pre_loop v buf i = pre_loop (v div 10) ?buf (i - 1)"
    using 1(2) i by (subst pre_loop.simps) simp
  have tail: "drop (i - 1) ?buf = digit_char (unat v mod 10) # drop i buf"
    using 1(4) i by (simp add: drop_update_at)
  show ?case
  proof (cases "unat v < 10")
    case True
    then have "v div 10 = 0" by (simp add: u64_div10_zero)
    then have "pre_loop v buf i = (?buf, i - 1)"
      using step by (simp add: pre_loop.simps)
    with True i tail show ?thesis by (simp add: dec_digits.simps)
  next
    case False
    then have d: "dec_digits (unat v) = dec_digits (unat (v div 10)) @ [digit_char (unat v mod 10)]"
      by (subst dec_digits.simps) simp
    have nz: "v div 10 \<noteq> 0" using False by (simp add: u64_div10_zero)
    have len: "length (dec_digits (unat (v div 10))) \<le> i - 1" using 1(3) d by simp
    have "case pre_loop (v div 10) ?buf (i - 1) of (buf', j) \<Rightarrow>
           drop j buf' = dec_digits (unat (v div 10)) @ drop (i - 1) ?buf"
      by (rule "1.IH") (use 1 i nz len in auto)
    with step d i tail show ?thesis by (auto split: prod.splits)
  qed
qed

lemma dec_digits_0: "dec_digits 0 = ''0''"
  by code_simp

lemma num_str_digits: "num_str v = dec_digits (unat v)"
proof (cases "v = 0")
  case True
  then show ?thesis by (simp add: num_str_def dec_digits_0 drop_update_at)
next
  case False
  moreover have "length (dec_digits (unat v)) \<le> 23" using length_dec_digits_u64 [of v] by simp
  ultimately show ?thesis
    using num_loop_digits [of v 23 "replicate 24 CHR 0x00"]
    by (auto simp: num_str_def split: prod.splits)
qed

lemma pnum_serial_digits: "pnum_serial v = dec_digits (unat v)"
  using num_str_digits [of v] by (auto simp: pnum_serial_def num_str_def dec_digits_0)

lemma serial_usize_digits: "serial_usize v = dec_digits (unat v)"
proof (cases "v = 0")
  case True
  then show ?thesis by (simp add: serial_usize_def dec_digits_0)
next
  case False
  then show ?thesis
    using pre_loop_digits [of v 20 "replicate 20 CHR 0x00"] length_dec_digits_u64 [of v]
    by (auto simp: serial_usize_def split: prod.splits)
qed

lemma num_to_str_digits: "num_to_str v = dec_digits (unat v)"
proof (cases "v = 0")
  case True
  then show ?thesis by (simp add: num_to_str_def dec_digits_0)
next
  case False
  then show ?thesis
    using pre_loop_digits [of v 20 "replicate 20 CHR ''0''"] length_dec_digits_u64 [of v]
    by (auto simp: num_to_str_def split: prod.splits)
qed

section \<open>Hexadecimal output reads back\<close>

definition hex_value :: "char \<Rightarrow> nat" where
  "hex_value c = length (takeWhile (\<lambda>d. d \<noteq> c) ''0123456789ABCDEF'')"

definition parse_hex :: "string \<Rightarrow> nat" where
  "parse_hex s = foldl (\<lambda>n c. 16 * n + hex_value c) 0 s"

fun hex_digits :: "nat \<Rightarrow> u64 \<Rightarrow> string" where
  "hex_digits 0 v = []"
| "hex_digits (Suc n) v = hex_digits n (drop_bit 4 v) @ [hex_digit (unat (v AND 15))]"

lemma length_hex_digits [simp]: "length (hex_digits n v) = n"
  by (induction n arbitrary: v) auto

lemma hex_value_hex_digit: "d < 16 \<Longrightarrow> hex_value (hex_digit d) = d"
proof -
  have "\<forall>d \<in> set [0..<16]. hex_value (hex_digit d) = d" by code_simp
  then show "d < 16 \<Longrightarrow> hex_value (hex_digit d) = d" by simp
qed

lemma unat_and_15: "unat ((v :: u64) AND 15) = unat v mod 16"
proof -
  have "v AND 15 = take_bit 4 v" by (simp add: take_bit_eq_mask mask_eq_exp_minus_1)
  then show ?thesis by (simp add: unsigned_take_bit_eq take_bit_eq_mod unat_mod)
qed

lemma unat_drop_bit_4: "unat (drop_bit 4 (v :: u64)) = unat v div 16"
  by (simp add: drop_bit_eq_div unat_div)

lemma parse_hex_digits: "parse_hex (hex_digits n v) = unat v mod 16 ^ n"
proof (induction n arbitrary: v)
  case 0
  then show ?case by (simp add: parse_hex_def)
next
  case (Suc n)
  have "parse_hex (hex_digits (Suc n) v) =
        16 * parse_hex (hex_digits n (drop_bit 4 v)) + unat v mod 16"
    by (simp add: parse_hex_def hex_value_hex_digit unat_and_15)
  also have "\<dots> = 16 * (unat v div 16 mod 16 ^ n) + unat v mod 16"
    by (simp add: Suc.IH unat_drop_bit_4)
  also have "\<dots> = unat v mod 16 ^ Suc n" by (simp add: mod_mult2_eq)
  finally show ?case .
qed

lemma hex_loop_digits:
  "a + n \<le> length buf \<Longrightarrow>
   hex_loop v (rev [a..<a + n]) buf = take a buf @ hex_digits n v @ drop (a + n) buf"
proof (induction n arbitrary: v buf)
  case 0
  then show ?case by simp
next
  case (Suc n)
  let ?b = "buf[a + n := hex_digit (unat (v AND 15))]"
  have "hex_loop v (rev [a..<a + Suc n]) buf = hex_loop (drop_bit 4 v) (rev [a..<a + n]) ?b"
    by simp
  also have "\<dots> = take a ?b @ hex_digits n (drop_bit 4 v) @ drop (a + n) ?b"
    using Suc.prems by (intro Suc.IH) simp
  finally show ?case using Suc.prems by (simp add: drop_update_at)
qed

lemma hex_str_digits: "hex_str v = ''0x'' @ hex_digits 16 v"
proof -
  let ?buf = "(replicate 18 CHR 0x00)[0 := CHR ''0'', 1 := CHR ''x'']"
  have pre: "take 2 ?buf = ''0x''" by code_simp
  have "hex_loop v (rev [2..<2 + 16]) ?buf = take 2 ?buf @ hex_digits 16 v @ drop (2 + 16) ?buf"
    by (rule hex_loop_digits) simp
  then have "hex_loop v (rev [2..<18]) ?buf = ''0x'' @ hex_digits 16 v"
    unfolding pre by simp
  then show ?thesis unfolding hex_str_def .
qed

section \<open>Properties\<close>

text \<open>
  Every decimal formatter of the kernel and of the user program writes the same text, the decimal digits of its
  argument without leading zeros.
\<close>

theorem decimal_formatters_agree:
  "num_str v = dec_digits (unat v) \<and> pnum_serial v = num_str v \<and>
   serial_usize v = num_str v \<and> num_to_str v = num_str v"
  by (simp add: num_str_digits pnum_serial_digits serial_usize_digits num_to_str_digits)

text \<open>
  What the formatters print reads back as the number: decimal text through \<open>parse_dec\<close>,
  and the sixteen digits after \<open>0x\<close> through \<open>parse_hex\<close>.
\<close>

theorem printed_numbers_read_back:
  "parse_dec (num_str v) = unat v \<and> take 2 (hex_str v) = ''0x'' \<and>
   parse_hex (drop 2 (hex_str v)) = unat v \<and> length (hex_str v) = 18"
  using unat_u64_less [of v]
  by (simp add: num_str_digits parse_dec_digits hex_str_digits parse_hex_digits)

end
