(* ===== verification/Spin_Lock.thy ===== *)
theory Spin_Lock
  imports Kernel_Prelude
begin

text \<open>
  The spin lock of \<^verbatim>\<open>sync.rs\<close>. The machine has one processor (\<^verbatim>\<open>-smp 1\<close>) and system calls run
  through interrupt gates with interrupts masked, so the model executes one kernel path at a
  time: while that path waits nobody else can release the lock, and \<open>lock\<close> on a lock that is
  already held spins for ever. The state of a lock is the value of its atomic flag.
\<close>

type_synonym spinlock = bool

definition spinlock_new :: spinlock where
  "spinlock_new = False"

text \<open>\<open>locked.swap(true)\<close>: the old value, and the flag afterwards.\<close>

definition lock_swap :: "spinlock \<Rightarrow> bool \<times> spinlock" where
  "lock_swap l = (l, True)"

text \<open>
  \<open>while swap(true) { while load() { spin } }\<close>: the first swap either finds the flag clear and the loop
  ends, or leaves it set with nobody to clear it.
\<close>

definition lock :: "spinlock \<Rightarrow> spinlock run" where
  "lock l = (case lock_swap l of (old, l') \<Rightarrow> if old then Hang else Done l')"

definition unlock :: "spinlock \<Rightarrow> spinlock" where
  "unlock l = False"

definition is_locked :: "spinlock \<Rightarrow> bool" where
  "is_locked l = l"

lemma lock_free [simp]: "lock False = Done True"
  by (simp add: lock_def lock_swap_def)

lemma lock_held [simp]: "lock True = Hang"
  by (simp add: lock_def lock_swap_def)

lemma lock_Done_iff [run_simps]: "lock l = Done l' \<longleftrightarrow> \<not> l \<and> l'"
  by (cases l) auto

lemma unlock_simp [simp]: "unlock l = False"
  by (simp add: unlock_def)

end
