(* ===== verification/Console.thy ===== *)
theory Console
  imports Debug_Fmt Spin_Lock
begin

text \<open>
  The text console (\<^verbatim>\<open>debug.rs\<close>): the VGA text buffer of 25 rows of 80 cells, the cursor, and printing under \<open>VGA_LOCK\<close>.
  The buffer is a list of 2000 cells; the invariant shows that every write of the code is inside it. A character is
  given by its code.
\<close>

section \<open>State\<close>

record vga =
  vg_cells :: "u16 list"
  vg_x :: nat
  vg_y :: nat
  vg_col :: u8
  vg_lock :: spinlock
  vg_cursor :: nat

abbreviation VGA_W :: nat where "VGA_W \<equiv> 80"
abbreviation VGA_H :: nat where "VGA_H \<equiv> 25"

definition LGREEN :: u8 where "LGREEN = 0x0A"
definition LCYAN :: u8 where "LCYAN = 0x0B"
definition LRED :: u8 where "LRED = 0x0C"
definition YELLOW :: u8 where "YELLOW = 0x0E"
definition WHITE :: u8 where "WHITE = 0x0F"
definition DGREY :: u8 where "DGREY = 0x08"

definition attr :: "u8 \<Rightarrow> u8 \<Rightarrow> u8" where
  "attr fg bg = push_bit 4 bg OR (fg AND 0xF)"

text \<open>\<open>((VCOLOR as u16) << 8) | c\<close> with the low byte of \<open>c\<close>.\<close>

definition cell :: "u8 \<Rightarrow> u16 \<Rightarrow> u16" where
  "cell color c = push_bit 8 (ucast color) OR (c AND 0xFF)"

section \<open>Operations\<close>

text \<open>The cursor registers receive the low two bytes of the position.\<close>

definition cursor_hw :: "vga \<Rightarrow> vga" where
  "cursor_hw s = s\<lparr>vg_cursor := (vg_y s * VGA_W + vg_x s) mod 65536\<rparr>"

definition cls :: "vga \<Rightarrow> vga" where
  "cls s = cursor_hw (s\<lparr>vg_cells := map (\<lambda>_. cell (vg_col s) 0x20) [0..<VGA_W * VGA_H] @ drop (VGA_W * VGA_H) (vg_cells s),
                        vg_x := 0, vg_y := 0\<rparr>)"

definition scroll :: "vga \<Rightarrow> vga" where
  "scroll s =
     (let c1 = fold (\<lambda>i c. c[i := c ! (i + VGA_W)]) [0..<(VGA_H - 1) * VGA_W] (vg_cells s);
          c2 = fold (\<lambda>i c. c[(VGA_H - 1) * VGA_W + i := cell (vg_col s) 0x20]) [0..<VGA_W] c1
      in s\<lparr>vg_cells := c2, vg_y := VGA_H - 1\<rparr>)"

definition set_cell :: "u16 \<Rightarrow> vga \<Rightarrow> vga" where
  "set_cell w s = s\<lparr>vg_cells := (vg_cells s)[vg_y s * VGA_W + vg_x s := w]\<rparr>"

definition putc :: "u16 \<Rightarrow> vga \<Rightarrow> vga" where
  "putc c s =
     (let s1 = (if c = 0x0A then s\<lparr>vg_x := 0, vg_y := vg_y s + 1\<rparr>
                else if c = 0x0D then s\<lparr>vg_x := 0\<rparr>
                else if c = 0x09 then s\<lparr>vg_x := (vg_x s + 8) div 8 * 8\<rparr>
                else if c = 0x08
                then if vg_x s > 0 then (let s' = s\<lparr>vg_x := vg_x s - 1\<rparr> in set_cell (cell (vg_col s) 0x20) s') else s
                else (set_cell (cell (vg_col s) c) s)\<lparr>vg_x := vg_x s + 1\<rparr>);
          s2 = (if vg_x s1 \<ge> VGA_W then s1\<lparr>vg_x := 0, vg_y := vg_y s1 + 1\<rparr> else s1);
          s3 = (if vg_y s2 \<ge> VGA_H then scroll s2 else s2)
      in cursor_hw s3)"

definition print_raw :: "u16 list \<Rightarrow> vga \<Rightarrow> vga" where
  "print_raw cs s = fold putc cs s"

definition print :: "u16 list \<Rightarrow> vga \<Rightarrow> vga run" where
  "print cs s = bind_run (lock (vg_lock s)) (\<lambda>l. Done ((print_raw cs (s\<lparr>vg_lock := l\<rparr>))\<lparr>vg_lock := unlock l\<rparr>))"

definition printc :: "u16 list \<Rightarrow> u8 \<Rightarrow> vga \<Rightarrow> vga run" where
  "printc cs color s =
     bind_run (lock (vg_lock s)) (\<lambda>l.
       let prev = vg_col s; s1 = print_raw cs (s\<lparr>vg_lock := l, vg_col := color\<rparr>)
       in Done (s1\<lparr>vg_col := prev, vg_lock := unlock l\<rparr>))"

definition set_col :: "u8 \<Rightarrow> vga \<Rightarrow> vga" where
  "set_col c s = s\<lparr>vg_col := c\<rparr>"

text \<open>A Rust string as its character codes.\<close>

definition chars :: "string \<Rightarrow> u16 list" where
  "chars cs = map (\<lambda>c. of_nat (of_char c)) cs"

definition log_ok :: "u16 list \<Rightarrow> bool \<Rightarrow> vga \<Rightarrow> vga run" where
  "log_ok label ok s =
     (let prev = vg_col s in
      bind_run (print (chars ''  '') (set_col WHITE s)) (\<lambda>s.
      bind_run (print label s) (\<lambda>s.
      let n = length label + 2; s = fold (\<lambda>_. putc 0x2E) [n..<60] (set_col DGREY s); s = putc 0x5B (set_col WHITE s)
      in bind_run (if ok then print (chars '' OK '') (set_col LGREEN s) else print (chars ''ERR!'') (set_col LRED s)) (\<lambda>s.
         Done (set_col prev (putc 0x0A (putc 0x5D (set_col WHITE s))))))))"

section \<open>The screen stays in its bounds\<close>

definition vga_ok :: "vga \<Rightarrow> bool" where
  "vga_ok s \<longleftrightarrow> length (vg_cells s) = 2000 \<and> vg_x s < VGA_W \<and> vg_y s < VGA_H"

lemma fold_update_length: "(\<And>i c. length (f i c) = length c) \<Longrightarrow> length (fold f is c) = length c"
  by (induction "is" arbitrary: c) auto

lemma scroll_frame [simp]:
  "vg_x (scroll s) = vg_x s" "vg_y (scroll s) = 24" "vg_col (scroll s) = vg_col s" "vg_lock (scroll s) = vg_lock s"
  "length (vg_cells (scroll s)) = length (vg_cells s)"
  by (simp_all add: scroll_def Let_def fold_update_length del: upt_rec_numeral)

lemma set_cell_frame [simp]:
  "vg_x (set_cell w s) = vg_x s" "vg_y (set_cell w s) = vg_y s" "vg_col (set_cell w s) = vg_col s"
  "vg_lock (set_cell w s) = vg_lock s" "length (vg_cells (set_cell w s)) = length (vg_cells s)"
  by (simp_all add: set_cell_def)

lemma cursor_hw_frame [simp]:
  "vg_x (cursor_hw s) = vg_x s" "vg_y (cursor_hw s) = vg_y s" "vg_col (cursor_hw s) = vg_col s"
  "vg_lock (cursor_hw s) = vg_lock s" "vg_cells (cursor_hw s) = vg_cells s"
  by (simp_all add: cursor_hw_def)

lemma putc_frame [simp]: "vg_col (putc c s) = vg_col s" "vg_lock (putc c s) = vg_lock s"
  by (simp_all add: putc_def Let_def)

lemma tab_stop: "x < 80 \<Longrightarrow> (x + 8) div 8 * 8 \<le> (80 :: nat)"
  using div_le_mono [of "x + 8" 87 8] by simp

lemma putc_ok: "vga_ok s \<Longrightarrow> vga_ok (putc c s)"
  using tab_stop [of "vg_x s"] by (auto simp: vga_ok_def putc_def Let_def)

lemma print_raw_ok: "vga_ok s \<Longrightarrow> vga_ok (print_raw cs s)"
  unfolding print_raw_def by (induction cs arbitrary: s) (simp_all add: putc_ok)

lemma print_raw_frame [simp]: "vg_col (print_raw cs s) = vg_col s" "vg_lock (print_raw cs s) = vg_lock s"
  unfolding print_raw_def by (induction cs arbitrary: s) simp_all

section \<open>The screen as rows\<close>

text \<open>The abstract screen: its rows, the cursor and the colour.\<close>

record screen =
  sr_rows :: "u16 list list"
  sr_x :: nat
  sr_y :: nat
  sr_col :: u8

definition row :: "u16 list \<Rightarrow> nat \<Rightarrow> u16 list" where
  "row cells y = map (\<lambda>x. cells ! (y * 80 + x)) [0..<80]"

definition screen_of :: "vga \<Rightarrow> screen" where
  "screen_of s = \<lparr>sr_rows = map (row (vg_cells s)) [0..<25], sr_x = vg_x s, sr_y = vg_y s, sr_col = vg_col s\<rparr>"

definition sr_put :: "u16 \<Rightarrow> screen \<Rightarrow> screen" where
  "sr_put w r = r\<lparr>sr_rows := (sr_rows r)[sr_y r := (sr_rows r ! sr_y r)[sr_x r := w]]\<rparr>"

text \<open>To the next row; below the last one all rows move up and a blank row appears.\<close>

definition sr_newline :: "screen \<Rightarrow> screen" where
  "sr_newline r =
     (if sr_y r < 24 then r\<lparr>sr_x := 0, sr_y := sr_y r + 1\<rparr>
      else r\<lparr>sr_x := 0, sr_rows := tl (sr_rows r) @ [replicate 80 (cell (sr_col r) 0x20)]\<rparr>)"

definition sr_advance :: "nat \<Rightarrow> screen \<Rightarrow> screen" where
  "sr_advance x r = (if x < 80 then r\<lparr>sr_x := x\<rparr> else sr_newline r)"

definition sr_putc :: "u16 \<Rightarrow> screen \<Rightarrow> screen" where
  "sr_putc c r =
     (if c = 0x0A then sr_newline r else if c = 0x0D then r\<lparr>sr_x := 0\<rparr>
      else if c = 0x09 then sr_advance ((sr_x r + 8) div 8 * 8) r
      else if c = 0x08 then (if sr_x r > 0 then sr_put (cell (sr_col r) 0x20) (r\<lparr>sr_x := sr_x r - 1\<rparr>) else r)
      else sr_advance (sr_x r + 1) (sr_put (cell (sr_col r) c) r))"

lemma rows_update:
  assumes "length cs = 2000" "x < 80" "y < 25"
  shows "map (row (cs[y * 80 + x := w])) [0..<25] = (map (row cs) [0..<25])[y := (row cs y)[x := w]]"
proof (rule nth_equalityI)
  fix i assume "i < length (map (row (cs[y * 80 + x := w])) [0..<25])"
  then have i: "i < 25" by simp
  have "row (cs[y * 80 + x := w]) i = (if i = y then (row cs y)[x := w] else row cs i)"
  proof (rule nth_equalityI)
    fix j assume "j < length (row (cs[y * 80 + x := w]) i)"
    then have j: "j < 80" by (simp add: row_def)
    have n: "cs[y * 80 + x := w] ! (i * 80 + j) = (if i = y \<and> j = x then w else cs ! (i * 80 + j))"
    proof (cases "i = y \<and> j = x")
      case True
      with assms show ?thesis by simp
    next
      case False
      have "y * 80 + x \<noteq> i * 80 + j"
      proof
        assume "y * 80 + x = i * 80 + j"
        then have "(y * 80 + x) div 80 = (i * 80 + j) div 80" "(y * 80 + x) mod 80 = (i * 80 + j) mod 80" by simp_all
        with False assms(2) j show False by simp
      qed
      with False show ?thesis by auto
    qed
    show "row (cs[y * 80 + x := w]) i ! j = (if i = y then (row cs y)[x := w] else row cs i) ! j"
      using n j by (simp add: row_def nth_list_update)
  qed (simp add: row_def)
  then show "map (row (cs[y * 80 + x := w])) [0..<25] ! i = (map (row cs) [0..<25])[y := (row cs y)[x := w]] ! i"
    using i assms(3) by (simp add: nth_list_update)
qed simp

lemma copy_up:
  assumes "length cs = 2000" "n \<le> 1920"
  shows "j < 2000 \<Longrightarrow> fold (\<lambda>i c. c[i := c ! (i + 80)]) [0..<n] cs ! j = (if j < n then cs ! (j + 80) else cs ! j)"
  using assms(2)
proof (induction n arbitrary: j)
  case (Suc n)
  let ?c = "fold (\<lambda>i c. c[i := c ! (i + 80)]) [0..<n] cs"
  have l: "length ?c = 2000" using assms(1) by (simp add: fold_update_length)
  have "?c ! (n + 80) = cs ! (n + 80)" using Suc.IH [of "n + 80"] Suc.prems by simp
  then show ?case using Suc l by (simp add: nth_list_update less_Suc_eq)
qed simp

lemma fill_row:
  assumes "length cs = 2000" "n \<le> 80"
  shows "j < 2000 \<Longrightarrow> fold (\<lambda>i c. c[1920 + i := w]) [0..<n] cs ! j = (if 1920 \<le> j \<and> j < 1920 + n then w else cs ! j)"
  using assms(2)
proof (induction n arbitrary: j)
  case (Suc n)
  have l: "length (fold (\<lambda>i c. c[1920 + i := w]) [0..<n] cs) = 2000" using assms(1) by (simp add: fold_update_length)
  show ?case using Suc l by (auto simp: nth_list_update less_Suc_eq)
qed auto

lemma scroll_cells:
  assumes "length (vg_cells s) = 2000" "j < 2000"
  shows "vg_cells (scroll s) ! j = (if j < 1920 then vg_cells s ! (j + 80) else cell (vg_col s) 0x20)"
proof -
  let ?c1 = "fold (\<lambda>i c. c[i := c ! (i + 80)]) [0..<1920] (vg_cells s)"
  have l: "length ?c1 = 2000" using assms(1) by (simp add: fold_update_length del: upt_rec_numeral)
  have "vg_cells (scroll s) = fold (\<lambda>i c. c[1920 + i := cell (vg_col s) 0x20]) [0..<80] ?c1"
    by (simp add: scroll_def Let_def del: upt_rec_numeral)
  then show ?thesis using fill_row [OF l order_refl assms(2)] copy_up [OF assms(1) order_refl assms(2)] assms(2) by auto
qed

lemma nth_rolled: "length xs = 25 \<Longrightarrow> y < 25 \<Longrightarrow> (tl xs @ [r]) ! y = (if y < 24 then xs ! Suc y else r)"
  by (cases xs) (auto simp: nth_append less_Suc_eq)

lemma rows_scroll:
  assumes "length (vg_cells s) = 2000"
  shows "map (row (vg_cells (scroll s))) [0..<25] =
    tl (map (row (vg_cells s)) [0..<25]) @ [replicate 80 (cell (vg_col s) 0x20)]"
proof (rule nth_equalityI)
  fix y assume "y < length (map (row (vg_cells (scroll s))) [0..<25])"
  then have y: "y < 25" by simp
  have "row (vg_cells (scroll s)) y = (if y < 24 then row (vg_cells s) (Suc y) else replicate 80 (cell (vg_col s) 0x20))"
  proof (rule nth_equalityI)
    fix x assume "x < length (row (vg_cells (scroll s)) y)"
    then have x: "x < 80" by (simp add: row_def)
    have i: "y * 80 + x < 2000" using x y by simp
    have lt: "y * 80 + x < 1920 \<longleftrightarrow> y < 24" using x y by (intro iffI) linarith+
    show "row (vg_cells (scroll s)) y ! x =
        (if y < 24 then row (vg_cells s) (Suc y) else replicate 80 (cell (vg_col s) 0x20)) ! x"
      using scroll_cells [OF assms i] lt x by (simp add: row_def algebra_simps del: upt_rec_numeral)
  qed (simp add: row_def)
  moreover have "(tl (map (row (vg_cells s)) [0..<25]) @ [replicate 80 (cell (vg_col s) 0x20)]) ! y =
      (if y < 24 then row (vg_cells s) (Suc y) else replicate 80 (cell (vg_col s) 0x20))"
    using y nth_rolled [of "map (row (vg_cells s)) [0..<25]" y] by (simp del: upt_rec_numeral)
  ultimately show "map (row (vg_cells (scroll s))) [0..<25] ! y =
      (tl (map (row (vg_cells s)) [0..<25]) @ [replicate 80 (cell (vg_col s) 0x20)]) ! y"
    using y by (simp del: upt_rec_numeral)
qed (simp del: upt_rec_numeral)

section \<open>Properties\<close>

text \<open>
  The cursor stays on the screen. From a cursor inside the 25 by 80 buffer, whatever is printed, cleared or logged, the
  cursor is inside again, so that no write of the console leaves the text buffer; printing holds the lock only while it
  runs and restores the colour.
\<close>

theorem console_stays_on_screen:
  assumes "vga_ok s" "\<not> vg_lock s"
  shows "vga_ok (putc c s) \<and> vga_ok (cls s) \<and>
    (\<exists>s'. print cs s = Done s' \<and> vga_ok s' \<and> \<not> vg_lock s' \<and> vg_col s' = vg_col s) \<and>
    (\<exists>s'. printc cs color s = Done s' \<and> vga_ok s' \<and> \<not> vg_lock s' \<and> vg_col s' = vg_col s) \<and>
    (\<exists>s'. log_ok cs ok s = Done s' \<and> vga_ok s' \<and> \<not> vg_lock s' \<and> vg_col s' = vg_col s)"
proof -
  have pr: "\<exists>s'. print cs s = Done s' \<and> vga_ok s' \<and> \<not> vg_lock s' \<and> vg_col s' = vg_col s" if "vga_ok s" "\<not> vg_lock s" for cs s
    using that print_raw_ok [of "s\<lparr>vg_lock := True\<rparr>" cs] by (simp add: print_def vga_ok_def)
  have sc: "vga_ok (set_col c s) = vga_ok s" "vg_lock (set_col c s) = vg_lock s" for c s by (simp_all add: set_col_def vga_ok_def)
  have dots: "vga_ok (fold (\<lambda>_. putc 0x2E) is s) \<and> vg_lock (fold (\<lambda>_. putc 0x2E) is s) = vg_lock s" if "vga_ok s" for s and "is" :: "nat list"
    using that by (induction "is" arbitrary: s) (simp_all add: putc_ok)
  have "\<exists>s'. log_ok cs ok s = Done s' \<and> vga_ok s' \<and> \<not> vg_lock s' \<and> vg_col s' = vg_col s"
  proof -
    obtain s1 where s1: "print (chars ''  '') (set_col WHITE s) = Done s1" "vga_ok s1" "\<not> vg_lock s1"
      using pr [of "set_col WHITE s"] assms sc by metis
    obtain s2 where s2: "print cs s1 = Done s2" "vga_ok s2" "\<not> vg_lock s2" using pr [OF s1(2,3)] by blast
    define s3 where "s3 = putc 0x5B (set_col WHITE (fold (\<lambda>_. putc 0x2E) [length cs + 2..<60] (set_col DGREY s2)))"
    have s3: "vga_ok s3" "\<not> vg_lock s3" using dots [of "set_col DGREY s2"] s2(2,3) by (simp_all add: s3_def sc putc_ok)
    obtain s4 where s4: "(if ok then print (chars '' OK '') (set_col LGREEN s3) else print (chars ''ERR!'') (set_col LRED s3)) = Done s4"
      "vga_ok s4" "\<not> vg_lock s4" using pr [of "set_col LGREEN s3"] pr [of "set_col LRED s3"] s3 sc by (cases ok) (simp_all, metis+)
    have "log_ok cs ok s = Done (set_col (vg_col s) (putc 0x0A (putc 0x5D (set_col WHITE s4))))"
      by (simp only: log_ok_def Let_def s1(1) s2(1) s4(1) bind_run.simps s3_def [symmetric])
    then show ?thesis using s4(2,3) by (simp add: sc putc_ok) (simp add: set_col_def)
  qed
  moreover have "vga_ok (cls s)" using assms(1) by (simp add: cls_def vga_ok_def del: upt_rec_numeral)
  moreover have "vga_ok (s\<lparr>vg_lock := True, vg_col := color\<rparr>)" using assms(1) by (simp add: vga_ok_def)
  from print_raw_ok [OF this, of cs] assms(2)
  have "\<exists>s'. printc cs color s = Done s' \<and> vga_ok s' \<and> \<not> vg_lock s' \<and> vg_col s' = vg_col s"
    by (simp add: printc_def Let_def vga_ok_def)
  ultimately show ?thesis using putc_ok [OF assms(1)] pr [OF assms] by blast
qed

definition vga_boot :: vga where
  "vga_boot = cls \<lparr>vg_cells = replicate 2000 0, vg_x = 0, vg_y = 0, vg_col = WHITE, vg_lock = spinlock_new, vg_cursor = 0\<rparr>"

lemma vga_boot_ok: "vga_ok vga_boot" "\<not> vg_lock vga_boot"
  by (simp_all add: vga_boot_def cls_def vga_ok_def spinlock_new_def del: upt_rec_numeral)

theorem console_stays_on_screen_witness:
  "\<exists>s'. print (chars ''Hello'') vga_boot = Done s' \<and> vga_ok s' \<and> \<not> vg_lock s'"
  using console_stays_on_screen [OF vga_boot_ok, of 0 "chars ''Hello''" 0 True] by blast

text \<open>
  C38: writing a character to the text buffer refines writing it to a screen of 25 rows: the same row and column change, a
  tab advances to the next multiple of 8, a full row continues on the next, and below the last row all rows move up and
  a blank row in the current colour appears.
\<close>

theorem putc_refines_screen:
  assumes "vga_ok s"
  shows "screen_of (putc c s) = sr_putc c (screen_of s)"
proof -
  have len: "length (vg_cells s) = 2000" and b: "vg_x s < 80" "vg_y s < 25" using assms by (auto simp: vga_ok_def)
  have put: "screen_of (set_cell w t) = sr_put w (screen_of t)" if "length (vg_cells t) = 2000" "vg_x t < 80" "vg_y t < 25" for w t
    using rows_update [OF that] that by (simp add: screen_of_def set_cell_def sr_put_def del: upt_rec_numeral)
  define fin where "fin t = (let s2 = (if vg_x t \<ge> 80 then t\<lparr>vg_x := 0, vg_y := vg_y t + 1\<rparr> else t);
      s3 = (if vg_y s2 \<ge> 25 then scroll s2 else s2) in cursor_hw s3)" for t
  have cur: "screen_of (cursor_hw t) = screen_of t" for t by (simp add: screen_of_def del: upt_rec_numeral)
  have nl: "screen_of (cursor_hw (if vg_y t + 1 \<ge> 25 then scroll (t\<lparr>vg_x := 0, vg_y := vg_y t + 1\<rparr>) else t\<lparr>vg_x := 0, vg_y := vg_y t + 1\<rparr>))
      = sr_newline (screen_of t)" if "length (vg_cells t) = 2000" "vg_y t < 25" for t
  proof -
    have sc: "vg_cells (t\<lparr>vg_x := 0, vg_y := n\<rparr>) = vg_cells t" for n by simp
    show ?thesis unfolding cur
      using rows_scroll [of "t\<lparr>vg_x := 0, vg_y := vg_y t + 1\<rparr>"] that
      by (auto simp: screen_of_def sr_newline_def simp del: upt_rec_numeral)
  qed
  have fx: "screen_of (fin (t\<lparr>vg_x := x\<rparr>)) = sr_advance x (screen_of t)" if "length (vg_cells t) = 2000" "vg_y t < 25" for t x
  proof (cases "x < 80")
    case True
    then show ?thesis using that cur by (simp add: fin_def sr_advance_def Let_def) (simp add: screen_of_def del: upt_rec_numeral)
  next
    case False
    have "fin (t\<lparr>vg_x := x\<rparr>) = cursor_hw (if vg_y t + 1 \<ge> 25 then scroll (t\<lparr>vg_x := 0, vg_y := vg_y t + 1\<rparr>) else t\<lparr>vg_x := 0, vg_y := vg_y t + 1\<rparr>)"
      using False by (simp add: fin_def Let_def)
    then show ?thesis using nl [OF that] False by (simp add: sr_advance_def)
  qed
  have p: "putc c s = fin (if c = 0x0A then s\<lparr>vg_x := 0, vg_y := vg_y s + 1\<rparr> else if c = 0x0D then s\<lparr>vg_x := 0\<rparr>
      else if c = 0x09 then s\<lparr>vg_x := (vg_x s + 8) div 8 * 8\<rparr>
      else if c = 0x08 then if vg_x s > 0 then set_cell (cell (vg_col s) 0x20) (s\<lparr>vg_x := vg_x s - 1\<rparr>) else s
      else (set_cell (cell (vg_col s) c) s)\<lparr>vg_x := vg_x s + 1\<rparr>)" (is "_ = fin ?t")
    unfolding putc_def fin_def Let_def ..
  have scx: "sr_x (screen_of s) = vg_x s" "sr_col (screen_of s) = vg_col s" by (simp_all add: screen_of_def)
  have fin0: "fin t = cursor_hw t" if "vg_x t < 80" "vg_y t < 25" for t using that by (simp add: fin_def Let_def)
  consider "c = 0x0A" | "c = 0x0D" | "c = 0x09" | "c = 0x08" | "c \<noteq> 0x0A" "c \<noteq> 0x0D" "c \<noteq> 0x09" "c \<noteq> 0x08" by blast
  then show ?thesis
  proof cases
    case 1
    have "fin (s\<lparr>vg_x := 0, vg_y := vg_y s + 1\<rparr>) = cursor_hw (if vg_y s + 1 \<ge> 25 then scroll (s\<lparr>vg_x := 0, vg_y := vg_y s + 1\<rparr>) else s\<lparr>vg_x := 0, vg_y := vg_y s + 1\<rparr>)"
      by (simp add: fin_def Let_def)
    then show ?thesis unfolding p using 1 nl [OF len b(2)] by (simp add: sr_putc_def)
  next
    case 2
    then show ?thesis unfolding p using b fin0 cur by (simp add: sr_putc_def) (simp add: screen_of_def del: upt_rec_numeral)
  next
    case 3
    then show ?thesis unfolding p using fx [OF len b(2)] by (simp add: sr_putc_def scx)
  next
    case 4
    show ?thesis
    proof (cases "vg_x s > 0")
      case True
      have "screen_of (set_cell (cell (vg_col s) 0x20) (s\<lparr>vg_x := vg_x s - 1\<rparr>)) =
          sr_put (cell (vg_col s) 0x20) (screen_of (s\<lparr>vg_x := vg_x s - 1\<rparr>))" using put len b by simp
      moreover have "screen_of (s\<lparr>vg_x := vg_x s - 1\<rparr>) = (screen_of s)\<lparr>sr_x := vg_x s - 1\<rparr>"
        by (simp add: screen_of_def del: upt_rec_numeral)
      ultimately show ?thesis unfolding p using 4 True b fin0 cur by (simp add: sr_putc_def scx)
    next
      case False
      then show ?thesis unfolding p using 4 b fin0 cur by (simp add: sr_putc_def scx)
    qed
  next
    case 5
    have "screen_of (fin ((set_cell (cell (vg_col s) c) s)\<lparr>vg_x := vg_x s + 1\<rparr>)) =
        sr_advance (vg_x s + 1) (screen_of (set_cell (cell (vg_col s) c) s))" using fx len b(2) by simp
    then show ?thesis unfolding p using 5 put [OF len b] by (simp add: sr_putc_def scx)
  qed
qed

theorem putc_refines_screen_witness: "screen_of (putc 0x41 vga_boot) = sr_putc 0x41 (screen_of vga_boot)"
  by (rule putc_refines_screen [OF vga_boot_ok(1)])

end
