(* ===== verification/Policy_Log.thy ===== *)
theory Policy_Log
  imports Debug_Fmt
begin

text \<open>
  The policy violation log (\<^verbatim>\<open>root_policy/audit.rs\<close>): a ring of 256 entries with a write position
  and a saturating count. Text sent to the serial port is a \<open>string\<close> the operation returns.
  The log refines a plain history of violations: the ring always holds the most recent 256.
\<close>

section \<open>Data\<close>

datatype violation_kind =
  VkNone | SyscallDenied | ThreadRevoked | ThreadDenied | RingCapDenied | KernelSpawnDenied
| IoDenied | PhysMapDenied | IrqDenied | MemLimitExceeded | PolicyAdminDenied

fun as_str :: "violation_kind \<Rightarrow> string" where
  "as_str VkNone = ''none''"
| "as_str SyscallDenied = ''syscall_denied''"
| "as_str ThreadRevoked = ''thread_revoked''"
| "as_str ThreadDenied = ''thread_denied''"
| "as_str RingCapDenied = ''ring_cap_denied''"
| "as_str KernelSpawnDenied = ''kernel_spawn_denied''"
| "as_str IoDenied = ''io_denied''"
| "as_str PhysMapDenied = ''phys_map_denied''"
| "as_str IrqDenied = ''irq_denied''"
| "as_str MemLimitExceeded = ''mem_limit_exceeded''"
| "as_str PolicyAdminDenied = ''policy_admin_denied''"

record log_entry =
  le_tick :: u64
  le_kind :: violation_kind
  le_ring :: u8
  le_tid :: u32
  le_detail :: u64

definition log_entry_empty :: log_entry where
  "log_entry_empty = \<lparr>le_tick = 0, le_kind = VkNone, le_ring = 0, le_tid = 0, le_detail = 0\<rparr>"

abbreviation MAX_LOG_ENTRIES :: nat where "MAX_LOG_ENTRIES \<equiv> 256"

record policy_log =
  pl_entries :: "log_entry list"
  pl_head :: nat
  pl_total :: u32

definition policy_log_new :: policy_log where
  "policy_log_new = \<lparr>pl_entries = replicate MAX_LOG_ENTRIES log_entry_empty, pl_head = 0, pl_total = 0\<rparr>"

section \<open>Operations\<close>

text \<open>\<open>PolicyLog::record\<close>: the new log (with \<open>tick\<close> the value of \<open>perm::TICK\<close>) and the line it prints.\<close>

definition record_entry :: "u64 \<Rightarrow> policy_log \<Rightarrow> violation_kind \<Rightarrow> u8 \<Rightarrow> u32 \<Rightarrow> u64 \<Rightarrow> policy_log run" where
  "record_entry tick l kind ring tid detail =
     bind_run (arr_set (pl_entries l) (pl_head l)
        \<lparr>le_tick = tick, le_kind = kind, le_ring = ring, le_tid = tid, le_detail = detail\<rparr>)
      (\<lambda>es. Done (l\<lparr>pl_entries := es,
                    pl_head := (pl_head l + 1) mod MAX_LOG_ENTRIES,
                    pl_total := (if pl_total l < 0xFFFFFFFF then pl_total l + 1 else pl_total l)\<rparr>))"

definition record_line :: "violation_kind \<Rightarrow> u8 \<Rightarrow> u32 \<Rightarrow> u64 \<Rightarrow> string" where
  "record_line kind ring tid detail =
     ''[POLICY] '' @ as_str kind @ '' ring='' @ num_str (ucast ring) @ '' tid='' @ num_str (ucast tid)
     @ '' detail='' @ hex_str detail @ [CHR 0x0A]"

definition total_violations :: "policy_log \<Rightarrow> u32" where
  "total_violations l = pl_total l"

text \<open>
  \<open>dump_recent\<close>: the entries the loop visits, newest first (slots of kind \<open>None\<close> are skipped),
  and the text printed.
\<close>

definition dump_count :: "policy_log \<Rightarrow> nat \<Rightarrow> nat" where
  "dump_count l n = min (min n (unat (pl_total l))) MAX_LOG_ENTRIES"

definition dump_entries :: "policy_log \<Rightarrow> nat \<Rightarrow> log_entry list" where
  "dump_entries l n =
     filter (\<lambda>e. le_kind e \<noteq> VkNone)
       (map (\<lambda>i. pl_entries l ! ((pl_head l + MAX_LOG_ENTRIES - 1 - i) mod MAX_LOG_ENTRIES)) [0..<dump_count l n])"

definition entry_line :: "log_entry \<Rightarrow> string" where
  "entry_line e =
     ''  ['' @ num_str (le_tick e) @ ''] '' @ as_str (le_kind e) @ '' ring='' @ num_str (ucast (le_ring e))
     @ '' tid='' @ num_str (ucast (le_tid e)) @ '' detail='' @ hex_str (le_detail e) @ [CHR 0x0A]"

definition dump_recent :: "policy_log \<Rightarrow> nat \<Rightarrow> string" where
  "dump_recent l n =
     ''[POLICY] === recent violations ==='' @ [CHR 0x0A]
     @ concat (map entry_line (dump_entries l n))
     @ ''[POLICY] total='' @ num_str (ucast (pl_total l)) @ [CHR 0x0A]"

definition clear_log :: "policy_log \<Rightarrow> policy_log" where
  "clear_log l = l\<lparr>pl_entries := map (\<lambda>_. log_entry_empty) (pl_entries l), pl_head := 0, pl_total := 0\<rparr>"

section \<open>Refinement to a history of violations\<close>

text \<open>
  \<open>log_of h l\<close>: \<open>l\<close> is the log after the violations \<open>h\<close> (oldest first) since it was created or
  cleared. The \<open>k\<close>-th violation from the end sits \<open>k\<close> slots before the write position.
\<close>

definition log_of :: "log_entry list \<Rightarrow> policy_log \<Rightarrow> bool" where
  "log_of h l \<longleftrightarrow>
     length (pl_entries l) = MAX_LOG_ENTRIES \<and>
     pl_head l = length h mod MAX_LOG_ENTRIES \<and>
     unat (pl_total l) = min (length h) 4294967295 \<and>
     (\<forall>k < min (length h) MAX_LOG_ENTRIES.
        pl_entries l ! ((length h - 1 - k) mod MAX_LOG_ENTRIES) = h ! (length h - 1 - k))"

lemma log_of_new: "log_of [] policy_log_new"
  by (simp add: log_of_def policy_log_new_def)

lemma log_of_clear: "length (pl_entries l) = MAX_LOG_ENTRIES \<Longrightarrow> log_of [] (clear_log l)"
  by (simp add: log_of_def clear_log_def)

lemma total_step:
  assumes "unat (t :: u32) = min n 4294967295"
  shows "unat (if t < 0xFFFFFFFF then t + 1 else t) = min (Suc n) 4294967295"
proof (cases "t < 0xFFFFFFFF")
  case True
  then have "unat t < 4294967295" by (simp add: word_less_nat_alt)
  with assms True show ?thesis by (simp add: unat_word_ariths)
next
  case False
  then have "4294967295 \<le> unat t" by (simp add: word_less_nat_alt)
  with assms False show ?thesis by simp
qed

lemma record_log_of:
  assumes "log_of h l"
  shows "\<exists>l'. record_entry tick l kind ring tid detail = Done l' \<and>
              log_of (h @ [\<lparr>le_tick = tick, le_kind = kind, le_ring = ring, le_tid = tid, le_detail = detail\<rparr>]) l'"
proof -
  let ?e = "\<lparr>le_tick = tick, le_kind = kind, le_ring = ring, le_tid = tid, le_detail = detail\<rparr>"
  let ?l = "l\<lparr>pl_entries := (pl_entries l)[pl_head l := ?e], pl_head := (pl_head l + 1) mod MAX_LOG_ENTRIES,
              pl_total := (if pl_total l < 0xFFFFFFFF then pl_total l + 1 else pl_total l)\<rparr>"
  have len: "length (pl_entries l) = 256" and hd: "pl_head l = length h mod 256"
    and tot: "unat (pl_total l) = min (length h) 4294967295"
    and ent: "\<And>k. k < length h \<Longrightarrow> k < 256 \<Longrightarrow>
               pl_entries l ! ((length h - 1 - k) mod 256) = h ! (length h - 1 - k)"
    using assms by (auto simp: log_of_def)
  have "pl_head l < 256" using hd by simp
  then have rec: "record_entry tick l kind ring tid detail = Done ?l"
    by (simp add: record_entry_def len)
  have entries: "pl_entries ?l ! ((length h - k) mod 256) = (h @ [?e]) ! (length h - k)"
    if k: "k < Suc (length h)" "k < 256" for k
  proof (cases k)
    case 0
    then show ?thesis using len hd by simp
  next
    case (Suc j)
    have "(length h - Suc j) mod 256 \<noteq> length h mod 256"
      using mod_distinct_window [of "Suc j" 256 "Suc (length h)" 0] k Suc by simp
    then have "pl_entries ?l ! ((length h - Suc j) mod 256) = pl_entries l ! ((length h - 1 - j) mod 256)"
      using hd by simp
    also have "\<dots> = h ! (length h - 1 - j)" using k Suc by (intro ent) auto
    also have "\<dots> = (h @ [?e]) ! (length h - Suc j)" using k Suc by (simp add: nth_append)
    finally show ?thesis using Suc by simp
  qed
  have "log_of (h @ [?e]) ?l"
    unfolding log_of_def using len hd total_step [OF tot] entries
    by (simp add: mod_Suc_eq del: nth_append_length)
  with rec show ?thesis by blast
qed

lemma dump_entries_log_of:
  assumes "log_of h l" "\<And>e. e \<in> set h \<Longrightarrow> le_kind e \<noteq> VkNone"
  shows "dump_entries l n = take n (take MAX_LOG_ENTRIES (rev h))"
proof -
  have len: "length (pl_entries l) = 256" and hd: "pl_head l = length h mod 256"
    and tot: "unat (pl_total l) = min (length h) 4294967295"
    and ent: "\<And>k. k < length h \<Longrightarrow> k < 256 \<Longrightarrow>
               pl_entries l ! ((length h - 1 - k) mod 256) = h ! (length h - 1 - k)"
    using assms by (auto simp: log_of_def)
  have cnt: "dump_count l n = min n (min (length h) 256)"
    using tot by (simp add: dump_count_def)
  have slot: "(pl_head l + 256 - 1 - i) mod 256 = (length h - 1 - i) mod 256"
    if "i < length h" "i < 256" for i
  proof -
    have "pl_head l + 256 - 1 - i = length h mod 256 + (255 - i)" using hd that by simp
    also have "\<dots> mod 256 = (length h + (255 - i)) mod 256" by (rule mod_add_left_eq)
    also have "length h + (255 - i) = (length h - 1 - i) + 256" using that by simp
    finally show ?thesis by simp
  qed
  have "map (\<lambda>i. pl_entries l ! ((pl_head l + 256 - 1 - i) mod 256)) [0..<dump_count l n]
      = map (\<lambda>i. rev h ! i) [0..<min n (min (length h) 256)]"
    unfolding cnt using ent slot by (auto simp: rev_nth)
  also have "\<dots> = take (min n 256) (rev h)"
    by (rule nth_equalityI) auto
  finally have "dump_entries l n = filter (\<lambda>e. le_kind e \<noteq> VkNone) (take (min n 256) (rev h))"
    by (simp add: dump_entries_def)
  also have "\<dots> = take (min n 256) (rev h)"
    using assms(2) by (auto intro!: filter_True dest: in_set_takeD)
  finally show ?thesis by (simp add: min.commute)
qed

section \<open>Properties\<close>

definition record_all :: "log_entry list \<Rightarrow> policy_log \<Rightarrow> policy_log run" where
  "record_all es l =
     fold (\<lambda>e m. bind_run m (\<lambda>l. record_entry (le_tick e) l (le_kind e) (le_ring e) (le_tid e) (le_detail e)))
       es (Done l)"

lemma record_all_log_of:
  "log_of h l \<Longrightarrow> \<exists>l'. record_all es l = Done l' \<and> log_of (h @ es) l'"
proof (induction es arbitrary: h l)
  case Nil
  then show ?case by (simp add: record_all_def)
next
  case (Cons e es)
  from record_log_of [OF Cons.prems, of "le_tick e" "le_kind e" "le_ring e" "le_tid e" "le_detail e"]
  obtain l1 where l1: "record_entry (le_tick e) l (le_kind e) (le_ring e) (le_tid e) (le_detail e) = Done l1"
    "log_of (h @ [e]) l1" by (cases e) auto
  from Cons.IH [OF l1(2)] l1(1) show ?case by (simp add: record_all_def)
qed

text \<open>
  The violation log never fails and never forgets a recent violation. After any sequence
  of records, \<open>dump_recent n\<close> reports the last \<open>n\<close> violations, newest first, up to the last 256, and the
  total counts all of them until it saturates at \<open>u32::MAX\<close>.
\<close>

theorem audit_log_keeps_recent:
  assumes "\<forall>e \<in> set es. le_kind e \<noteq> VkNone"
  shows "\<exists>l. record_all es policy_log_new = Done l \<and>
             dump_entries l n = take n (take MAX_LOG_ENTRIES (rev es)) \<and>
             unat (total_violations l) = min (length es) 4294967295"
proof -
  from record_all_log_of [OF log_of_new, of es] obtain l where
    "record_all es policy_log_new = Done l" "log_of es l" by auto
  moreover from this dump_entries_log_of [of es l n] assms
  have "dump_entries l n = take n (take MAX_LOG_ENTRIES (rev es))" by blast
  ultimately show ?thesis by (auto simp: total_violations_def log_of_def)
qed

theorem audit_log_keeps_recent_witness:
  "\<exists>l. record_all (replicate 300 \<lparr>le_tick = 1, le_kind = IoDenied, le_ring = 3, le_tid = 2, le_detail = 96\<rparr>)
         policy_log_new = Done l \<and> length (dump_entries l 400) = 256 \<and> total_violations l = 300"
proof -
  let ?es = "replicate 300 \<lparr>le_tick = 1, le_kind = IoDenied, le_ring = 3, le_tid = 2, le_detail = 96\<rparr>"
  obtain l where l: "record_all ?es policy_log_new = Done l"
    "dump_entries l 400 = take 400 (take MAX_LOG_ENTRIES (rev ?es))"
    "unat (total_violations l) = min (length ?es) 4294967295"
    using audit_log_keeps_recent [of ?es 400] by auto
  have "length (dump_entries l 400) = 256"
    unfolding l(2) length_take length_rev length_replicate by simp
  moreover have "total_violations l = 300"
    using l(3) unfolding length_replicate by (simp add: word_unat_eq_iff)
  ultimately show ?thesis using l(1) by blast
qed

end
