(* ===== verification/Syscall_Abi.thy ===== *)
theory Syscall_Abi
  imports Kernel_Prelude
begin

text \<open>
  The system call numbers and error codes shared by the kernel (\<^verbatim>\<open>syscall_api.rs\<close>, modules \<open>nr\<close> and
  \<open>err\<close>) and by the user library (\<^verbatim>\<open>libcosinus/src/lib.rs\<close>). Results are \<open>i64\<close>, modelled as
  \<open>int\<close>; the trap frame receives them as \<open>ret as u64\<close>.
\<close>

datatype syscall =
  EXIT | WRITE | READ | YIELD | SPAWN | SLEEP | MEM_ALLOC | MEM_FREE
| IPC_SEND | IPC_RECV | IPC_POLL | THREAD_ID | TIME | DEBUG_PRINT | GET_FB_INFO

fun nr :: "syscall \<Rightarrow> u64" where
  "nr EXIT = 0"
| "nr WRITE = 1"
| "nr READ = 2"
| "nr YIELD = 3"
| "nr SPAWN = 4"
| "nr SLEEP = 5"
| "nr MEM_ALLOC = 6"
| "nr MEM_FREE = 7"
| "nr IPC_SEND = 8"
| "nr IPC_RECV = 9"
| "nr IPC_POLL = 10"
| "nr THREAD_ID = 11"
| "nr TIME = 12"
| "nr DEBUG_PRINT = 13"
| "nr GET_FB_INFO = 14"

text \<open>The dispatcher's \<open>match\<close> on the number in \<open>rax\<close>; \<open>None\<close> is the \<open>_\<close> arm.\<close>

definition syscall_of :: "u64 \<Rightarrow> syscall option" where
  "syscall_of n =
     (if n = 0 then Some EXIT else if n = 1 then Some WRITE else if n = 2 then Some READ
      else if n = 3 then Some YIELD else if n = 4 then Some SPAWN else if n = 5 then Some SLEEP
      else if n = 6 then Some MEM_ALLOC else if n = 7 then Some MEM_FREE else if n = 8 then Some IPC_SEND
      else if n = 9 then Some IPC_RECV else if n = 10 then Some IPC_POLL else if n = 11 then Some THREAD_ID
      else if n = 12 then Some TIME else if n = 13 then Some DEBUG_PRINT
      else if n = 14 then Some GET_FB_INFO else None)"

lemma syscall_of_nr [simp]: "syscall_of (nr c) = Some c"
  by (cases c) (simp_all add: syscall_of_def)

lemma syscall_of_Some: "syscall_of n = Some c \<Longrightarrow> n = nr c"
  by (auto simp: syscall_of_def split: if_splits)

lemma syscall_of_None: "15 \<le> n \<Longrightarrow> syscall_of n = None"
  by (cases "syscall_of n") (auto dest!: syscall_of_Some simp: word_le_nat_alt split: syscall.splits,
      case_tac a, simp_all)

lemma nr_less_15: "nr c < 15"
  by (cases c) simp_all

datatype err = ERR_OK | INVAL | NOMEM | NOSLOT | FAULT | AGAIN | NOSYS | PERM

fun err_code :: "err \<Rightarrow> i64" where
  "err_code ERR_OK = 0"
| "err_code INVAL = -1"
| "err_code NOMEM = -2"
| "err_code NOSLOT = -3"
| "err_code FAULT = -4"
| "err_code AGAIN = -5"
| "err_code NOSYS = -6"
| "err_code PERM = -7"

text \<open>\<open>ret as u64\<close>, stored in \<open>rax\<close>, and the reading of \<open>rax\<close> as \<open>i64\<close> in user space.\<close>

definition ret_word :: "i64 \<Rightarrow> u64" where
  "ret_word r = word_of_int r"

definition as_i64 :: "u64 \<Rightarrow> i64" where
  "as_i64 w = sint w"

lemma as_i64_ret_word:
  assumes "- (2 ^ 63) \<le> r" "r < 2 ^ 63"
  shows "as_i64 (ret_word r) = r"
  unfolding as_i64_def ret_word_def using assms
  by (simp add: sint_sbintrunc' signed_take_bit_int_eq_self_iff)

end
