(* ===== verification/Ring_Policy.thy ===== *)
theory Ring_Policy
  imports Syscall_Abi
begin

text \<open>
  Per-ring capabilities (\<^verbatim>\<open>root_policy/policy.rs\<close>): one record per privilege level with a flag word, a
  mask of permitted system calls, four booleans that cache single flags, and two limits. Rings 0
  and 3 are the kernel and user programs; ring 1 is the driver layer and ring 2 is reserved.
\<close>

section \<open>Capability flags\<close>

definition IO_ACCESS :: u64 where "IO_ACCESS = bit_at 0"
definition PHYS_MAP :: u64 where "PHYS_MAP = bit_at 1"
definition IRQ_CONTROL :: u64 where "IRQ_CONTROL = bit_at 2"
definition RAW_DISK :: u64 where "RAW_DISK = bit_at 4"
definition MMIO_MAP :: u64 where "MMIO_MAP = bit_at 5"
definition DEBUG_SERIAL :: u64 where "DEBUG_SERIAL = bit_at 6"
definition FRAMEBUFFER :: u64 where "FRAMEBUFFER = bit_at 7"

definition CAP_ALL :: u64 where "CAP_ALL = NOT 0"
definition CAP_NONE :: u64 where "CAP_NONE = 0"

definition DEVSPACE_DEFAULT :: u64 where
  "DEVSPACE_DEFAULT = IO_ACCESS OR MMIO_MAP OR FRAMEBUFFER OR DEBUG_SERIAL OR RAW_DISK"

definition USERSPACE_DEFAULT :: u64 where
  "USERSPACE_DEFAULT = DEBUG_SERIAL"

section \<open>The capability record\<close>

record ring_caps =
  rc_ring :: u8
  rc_cap_flags :: u64
  rc_syscall_mask :: u64
  rc_can_io :: bool
  rc_can_phys_map :: bool
  rc_can_irq :: bool
  rc_can_raw_disk :: bool
  rc_max_threads :: u8
  rc_max_mem_pages :: u32

definition ring_caps_new :: "u8 \<Rightarrow> u64 \<Rightarrow> u64 \<Rightarrow> u8 \<Rightarrow> u32 \<Rightarrow> ring_caps" where
  "ring_caps_new ring cap_flags syscall_mask max_threads max_mem_pages =
     \<lparr>rc_ring = ring, rc_cap_flags = cap_flags, rc_syscall_mask = syscall_mask,
      rc_can_io = has_any cap_flags IO_ACCESS,
      rc_can_phys_map = has_any cap_flags PHYS_MAP,
      rc_can_irq = has_any cap_flags IRQ_CONTROL,
      rc_can_raw_disk = has_any cap_flags RAW_DISK,
      rc_max_threads = max_threads, rc_max_mem_pages = max_mem_pages\<rparr>"

definition rc_allows_syscall :: "ring_caps \<Rightarrow> u64 \<Rightarrow> bool" where
  "rc_allows_syscall r n = (if n \<ge> 64 then True else has_any (rc_syscall_mask r) (bit_at (unat n)))"

definition rc_has_cap :: "ring_caps \<Rightarrow> u64 \<Rightarrow> bool" where
  "rc_has_cap r flag = has_any (rc_cap_flags r) flag"

definition rc_allows_mem_alloc :: "ring_caps \<Rightarrow> u32 \<Rightarrow> bool" where
  "rc_allows_mem_alloc r pages \<longleftrightarrow> pages \<le> rc_max_mem_pages r"

text \<open>A mask is the bitwise or of \<open>1 << nr\<close> over the permitted calls.\<close>

definition mask_of :: "syscall list \<Rightarrow> u64" where
  "mask_of cs = fold (\<lambda>c m. m OR bit_at (unat (nr c))) cs 0"

definition ring1_calls :: "syscall list" where
  "ring1_calls = [EXIT, WRITE, READ, YIELD, SPAWN, SLEEP, MEM_ALLOC, MEM_FREE,
                  IPC_SEND, IPC_RECV, IPC_POLL, THREAD_ID, TIME]"

definition ring3_calls :: "syscall list" where
  "ring3_calls = [EXIT, WRITE, READ, YIELD, SLEEP, MEM_ALLOC, MEM_FREE,
                  IPC_SEND, IPC_RECV, IPC_POLL, THREAD_ID, TIME, DEBUG_PRINT]"

definition RING1_MASK :: u64 where "RING1_MASK = mask_of ring1_calls"
definition RING3_MASK :: u64 where "RING3_MASK = mask_of ring3_calls"

text \<open>The initial value of the global table \<open>RING_CAPS\<close>, indexed by ring.\<close>

definition RING_CAPS_init :: "ring_caps list" where
  "RING_CAPS_init =
     [ring_caps_new 0 CAP_ALL (NOT 0) 255 4096,
      ring_caps_new 1 DEVSPACE_DEFAULT RING1_MASK 16 256,
      ring_caps_new 2 CAP_NONE 0 0 0,
      ring_caps_new 3 USERSPACE_DEFAULT RING3_MASK 8 128]"

section \<open>Changes at run time\<close>

definition rc_refresh :: "ring_caps \<Rightarrow> ring_caps" where
  "rc_refresh r = r\<lparr>rc_can_io := has_any (rc_cap_flags r) IO_ACCESS,
                    rc_can_phys_map := has_any (rc_cap_flags r) PHYS_MAP,
                    rc_can_irq := has_any (rc_cap_flags r) IRQ_CONTROL,
                    rc_can_raw_disk := has_any (rc_cap_flags r) RAW_DISK\<rparr>"

definition ring_grant_cap :: "ring_caps list \<Rightarrow> u8 \<Rightarrow> u64 \<Rightarrow> ring_caps list" where
  "ring_grant_cap t ring flag =
     (if ring < 4
      then t[unat ring := rc_refresh ((t ! unat ring)\<lparr>rc_cap_flags := rc_cap_flags (t ! unat ring) OR flag\<rparr>)]
      else t)"

definition ring_revoke_cap :: "ring_caps list \<Rightarrow> u8 \<Rightarrow> u64 \<Rightarrow> ring_caps list" where
  "ring_revoke_cap t ring flag =
     (if ring < 4
      then t[unat ring := rc_refresh ((t ! unat ring)\<lparr>rc_cap_flags := rc_cap_flags (t ! unat ring) AND NOT flag\<rparr>)]
      else t)"

definition ring_set_max_mem :: "ring_caps list \<Rightarrow> u8 \<Rightarrow> u32 \<Rightarrow> ring_caps list" where
  "ring_set_max_mem t ring pages =
     (if ring < 4 then t[unat ring := (t ! unat ring)\<lparr>rc_max_mem_pages := pages\<rparr>] else t)"

definition ring_caps_of :: "ring_caps list \<Rightarrow> u8 \<Rightarrow> ring_caps option" where
  "ring_caps_of t ring = (if ring < 4 then Some (t ! unat ring) else None)"

section \<open>The table's invariant\<close>

text \<open>Four entries, and in each the cached booleans agree with the flag word.\<close>

definition caps_cached :: "ring_caps \<Rightarrow> bool" where
  "caps_cached r \<longleftrightarrow>
     rc_can_io r = rc_has_cap r IO_ACCESS \<and> rc_can_phys_map r = rc_has_cap r PHYS_MAP \<and>
     rc_can_irq r = rc_has_cap r IRQ_CONTROL \<and> rc_can_raw_disk r = rc_has_cap r RAW_DISK"

definition ring_table_inv :: "ring_caps list \<Rightarrow> bool" where
  "ring_table_inv t \<longleftrightarrow> length t = 4 \<and> (\<forall>r \<in> set t. caps_cached r)"

lemma caps_cached_new: "caps_cached (ring_caps_new ring flags calls thr pages)"
  by (simp add: caps_cached_def ring_caps_new_def rc_has_cap_def)

lemma caps_cached_refresh [simp]: "caps_cached (rc_refresh r)"
  by (simp add: caps_cached_def rc_refresh_def rc_has_cap_def)

lemma ring_table_inv_init: "ring_table_inv RING_CAPS_init"
  by (simp add: ring_table_inv_def RING_CAPS_init_def caps_cached_new)

lemma unat_ring_less: "(ring :: u8) < 4 \<Longrightarrow> unat ring < 4"
  by (simp add: word_less_nat_alt)

lemma ring_table_inv_update:
  assumes "ring_table_inv t" "caps_cached r"
  shows "ring_table_inv (t[i := r])"
  using assms set_update_subset_insert [of t i r] by (auto simp: ring_table_inv_def)

lemma ring_table_inv_nth: "ring_table_inv t \<Longrightarrow> i < 4 \<Longrightarrow> caps_cached (t ! i)"
  by (simp add: ring_table_inv_def)

lemma ring_table_inv_grant: "ring_table_inv t \<Longrightarrow> ring_table_inv (ring_grant_cap t ring flag)"
  by (simp add: ring_grant_cap_def ring_table_inv_update)

lemma ring_table_inv_revoke: "ring_table_inv t \<Longrightarrow> ring_table_inv (ring_revoke_cap t ring flag)"
  by (simp add: ring_revoke_cap_def ring_table_inv_update)

lemma caps_cached_max_mem [simp]: "caps_cached (r\<lparr>rc_max_mem_pages := p\<rparr>) = caps_cached r"
  by (simp add: caps_cached_def rc_has_cap_def)

lemma ring_table_inv_max_mem: "ring_table_inv t \<Longrightarrow> ring_table_inv (ring_set_max_mem t ring pages)"
  by (simp add: ring_set_max_mem_def ring_table_inv_update ring_table_inv_nth unat_ring_less)

section \<open>Masks\<close>

lemma bit_fold_or:
  "bit (fold (\<lambda>c m. m OR bit_at (unat (nr c))) cs m0) n \<longleftrightarrow>
   bit m0 n \<or> (\<exists>c \<in> set cs. unat (nr c) = n)"
proof (induction cs arbitrary: m0)
  case Nil
  then show ?case by simp
next
  case (Cons c cs)
  have "unat (nr c) < 64" by (cases c) simp_all
  with Cons show ?case by (auto simp: bit_or_iff)
qed

lemma bit_mask_of: "bit (mask_of cs) n \<longleftrightarrow> (\<exists>c \<in> set cs. unat (nr c) = n)"
  by (simp add: mask_of_def bit_fold_or)

lemma mask_of_allows: "bit (mask_of cs) (unat n) \<longleftrightarrow> (\<exists>c \<in> set cs. nr c = n)"
  by (auto simp: bit_mask_of word_unat_eq_iff)

lemma nr_inj: "nr c = nr d \<longleftrightarrow> c = d"
  by (metis option.inject syscall_of_nr)

lemma mask_of_allows_nr: "bit (mask_of cs) (unat (nr c)) \<longleftrightarrow> c \<in> set cs"
  by (auto simp: mask_of_allows nr_inj)

end
