(* ===== verification/Thread_Cap.thy ===== *)
theory Thread_Cap
  imports Ring_Policy
begin

text \<open>
  Per-thread capability tokens (\<^verbatim>\<open>root_policy/thread_cap.rs\<close>): a flag word with a revocation bit, a
  list of at most 16 denied system calls kept in the first \<open>deny_count\<close> slots of an array, the
  ring the thread was spawned at and a memory limit. The deny list refines a set of numbers.
\<close>

section \<open>Flags and tokens\<close>

definition ELEVATED_IPC :: u64 where "ELEVATED_IPC = bit_at 0"
definition ELEVATED_MEM :: u64 where "ELEVATED_MEM = bit_at 1"
definition TRUST_SPAWN :: u64 where "TRUST_SPAWN = bit_at 2"
definition REVOKED :: u64 where "REVOKED = bit_at 63"
definition DEFAULT_KERNEL :: u64 where "DEFAULT_KERNEL = ELEVATED_IPC OR ELEVATED_MEM OR TRUST_SPAWN"
definition DEFAULT_USER :: u64 where "DEFAULT_USER = TRUST_SPAWN"
definition DEFAULT_DEV :: u64 where "DEFAULT_DEV = ELEVATED_IPC OR TRUST_SPAWN"

abbreviation MAX_CAP_THREADS :: nat where "MAX_CAP_THREADS \<equiv> 64"
abbreviation MAX_DENY_LIST :: nat where "MAX_DENY_LIST \<equiv> 16"

record thread_cap =
  tc_flags :: u64
  tc_deny_list :: "u64 list"
  tc_deny_count :: u8
  tc_owner_ring :: u8
  tc_max_mem_pages :: u32

definition cap_new_empty :: thread_cap where
  "cap_new_empty = \<lparr>tc_flags = 0, tc_deny_list = replicate MAX_DENY_LIST (NOT 0), tc_deny_count = 0,
                    tc_owner_ring = 3, tc_max_mem_pages = 0\<rparr>"

definition cap_new_kernel :: thread_cap where
  "cap_new_kernel = \<lparr>tc_flags = DEFAULT_KERNEL, tc_deny_list = replicate MAX_DENY_LIST (NOT 0), tc_deny_count = 0,
                     tc_owner_ring = 0, tc_max_mem_pages = 0\<rparr>"

definition cap_new_user :: thread_cap where
  "cap_new_user = \<lparr>tc_flags = DEFAULT_USER, tc_deny_list = replicate MAX_DENY_LIST (NOT 0), tc_deny_count = 0,
                   tc_owner_ring = 3, tc_max_mem_pages = 128\<rparr>"

definition cap_new_devspace :: thread_cap where
  "cap_new_devspace = \<lparr>tc_flags = DEFAULT_DEV, tc_deny_list = replicate MAX_DENY_LIST (NOT 0), tc_deny_count = 0,
                       tc_owner_ring = 1, tc_max_mem_pages = 256\<rparr>"

section \<open>Operations on a token\<close>

definition is_revoked :: "thread_cap \<Rightarrow> bool" where
  "is_revoked c = has_any (tc_flags c) REVOKED"

definition tc_has :: "thread_cap \<Rightarrow> u64 \<Rightarrow> bool" where
  "tc_has c flag = has_any (tc_flags c) flag"

text \<open>The loops over \<open>0..deny_count\<close> read the array in index order.\<close>

definition denies :: "thread_cap \<Rightarrow> u64 \<Rightarrow> bool" where
  "denies c n =
     (if tc_deny_count c = 0 then False
      else list_ex (\<lambda>i. tc_deny_list c ! i = n) [0..<unat (tc_deny_count c)])"

definition tc_grant :: "thread_cap \<Rightarrow> u64 \<Rightarrow> thread_cap" where
  "tc_grant c flag = (if is_revoked c then c else c\<lparr>tc_flags := tc_flags c OR flag\<rparr>)"

definition tc_revoke :: "thread_cap \<Rightarrow> u64 \<Rightarrow> thread_cap" where
  "tc_revoke c flag = c\<lparr>tc_flags := tc_flags c AND NOT flag\<rparr>"

definition revoke_all :: "thread_cap \<Rightarrow> thread_cap" where
  "revoke_all c = c\<lparr>tc_flags := REVOKED, tc_deny_count := of_nat MAX_DENY_LIST,
                    tc_deny_list := fold (\<lambda>i xs. xs[i := of_nat i]) [0..<MAX_DENY_LIST] (tc_deny_list c)\<rparr>"

definition add_deny :: "thread_cap \<Rightarrow> u64 \<Rightarrow> thread_cap" where
  "add_deny c n =
     (if unat (tc_deny_count c) \<ge> MAX_DENY_LIST then c
      else if list_ex (\<lambda>i. tc_deny_list c ! i = n) [0..<unat (tc_deny_count c)] then c
      else c\<lparr>tc_deny_list := (tc_deny_list c)[unat (tc_deny_count c) := n],
             tc_deny_count := tc_deny_count c + 1\<rparr>)"

definition remove_deny :: "thread_cap \<Rightarrow> u64 \<Rightarrow> thread_cap" where
  "remove_deny c n =
     (let found = (case List.find (\<lambda>i. tc_deny_list c ! i = n) [0..<unat (tc_deny_count c)] of
                     Some i \<Rightarrow> i | None \<Rightarrow> MAX_DENY_LIST)
      in if found < MAX_DENY_LIST \<and> tc_deny_count c > 0
         then let last = unat (tc_deny_count c) - 1
              in c\<lparr>tc_deny_list := ((tc_deny_list c)[found := tc_deny_list c ! last])[last := NOT 0],
                   tc_deny_count := tc_deny_count c - 1\<rparr>
         else c)"

definition tc_allows_mem_alloc :: "thread_cap \<Rightarrow> u32 \<Rightarrow> bool" where
  "tc_allows_mem_alloc c pages = (if tc_max_mem_pages c = 0 then True else pages \<le> tc_max_mem_pages c)"

definition set_mem_limit :: "thread_cap \<Rightarrow> u32 \<Rightarrow> thread_cap" where
  "set_mem_limit c pages = c\<lparr>tc_max_mem_pages := pages\<rparr>"

section \<open>The global table\<close>

definition init_cap_table :: "thread_cap list \<Rightarrow> thread_cap list" where
  "init_cap_table t =
     fold (\<lambda>i t. t[i := cap_new_empty]) [3..<MAX_CAP_THREADS]
       (((t[0 := cap_new_kernel])[1 := cap_new_kernel])[2 := cap_new_user])"

definition init_thread_cap :: "thread_cap list \<Rightarrow> nat \<Rightarrow> u8 \<Rightarrow> thread_cap list" where
  "init_thread_cap t tid ring =
     (if tid \<ge> MAX_CAP_THREADS then t
      else t[tid := (if ring = 0 then cap_new_kernel else if ring = 1 then cap_new_devspace
                     else if ring = 3 then cap_new_user else cap_new_empty)])"

definition clear_thread_cap :: "thread_cap list \<Rightarrow> nat \<Rightarrow> thread_cap list" where
  "clear_thread_cap t tid = (if tid \<ge> MAX_CAP_THREADS then t else t[tid := cap_new_empty])"

definition mem_limit :: "thread_cap list \<Rightarrow> ring_caps list \<Rightarrow> nat \<Rightarrow> u8 \<Rightarrow> u32 run" where
  "mem_limit t rings tid ring =
     (if tid \<ge> MAX_CAP_THREADS then Done 0
      else bind_run (arr_get t tid) (\<lambda>c.
           bind_run (arr_get rings (unat ring)) (\<lambda>r.
             Done (if tc_max_mem_pages c = 0 then rc_max_mem_pages r
                   else min (tc_max_mem_pages c) (rc_max_mem_pages r)))))"

section \<open>The deny list refines a set\<close>

definition cap_inv :: "thread_cap \<Rightarrow> bool" where
  "cap_inv c \<longleftrightarrow> length (tc_deny_list c) = MAX_DENY_LIST \<and> unat (tc_deny_count c) \<le> MAX_DENY_LIST \<and>
                  distinct (take (unat (tc_deny_count c)) (tc_deny_list c))"

definition denied :: "thread_cap \<Rightarrow> u64 set" where
  "denied c = set (take (unat (tc_deny_count c)) (tc_deny_list c))"

lemma in_set_take_nth: "k \<le> length xs \<Longrightarrow> x \<in> set (take k xs) \<longleftrightarrow> (\<exists>i < k. xs ! i = x)"
  by (auto simp: in_set_conv_nth)

lemma denies_iff: "cap_inv c \<Longrightarrow> denies c n \<longleftrightarrow> n \<in> denied c"
  by (auto simp: denies_def denied_def cap_inv_def in_set_take_nth list_ex_iff word_gt_0 unat_gt_0)

lemma cap_inv_new [simp]:
  "cap_inv cap_new_empty" "cap_inv cap_new_kernel" "cap_inv cap_new_user" "cap_inv cap_new_devspace"
  by (simp_all add: cap_inv_def cap_new_empty_def cap_new_kernel_def cap_new_user_def cap_new_devspace_def)

lemma denied_new [simp]:
  "denied cap_new_empty = {}" "denied cap_new_kernel = {}" "denied cap_new_user = {}"
  "denied cap_new_devspace = {}"
  by (simp_all add: denied_def cap_new_empty_def cap_new_kernel_def cap_new_user_def cap_new_devspace_def)

lemma cap_inv_flags [simp]: "cap_inv (c\<lparr>tc_flags := f\<rparr>) = cap_inv c" "denied (c\<lparr>tc_flags := f\<rparr>) = denied c"
  by (simp_all add: cap_inv_def denied_def)

lemma tc_grant_keeps [simp]: "cap_inv (tc_grant c f) = cap_inv c" "denied (tc_grant c f) = denied c"
  by (simp_all add: tc_grant_def)

lemma tc_revoke_keeps [simp]: "cap_inv (tc_revoke c f) = cap_inv c" "denied (tc_revoke c f) = denied c"
  by (simp_all add: tc_revoke_def)

lemma fold_list_update_index:
  "n \<le> length xs \<Longrightarrow> fold (\<lambda>i xs. xs[i := g i]) [0..<n] xs = map g [0..<n] @ drop n xs"
proof (induction n)
  case 0
  then show ?case by simp
next
  case (Suc n)
  then have "drop n xs = xs ! n # drop (Suc n) xs" by (simp add: Cons_nth_drop_Suc)
  with Suc show ?case by (simp add: list_update_append)
qed

lemma revoke_all_list:
  "length (tc_deny_list c) = MAX_DENY_LIST \<Longrightarrow> tc_deny_list (revoke_all c) = map of_nat [0..<MAX_DENY_LIST]"
  by (simp add: revoke_all_def fold_list_update_index del: upt_rec_numeral)

lemma revoke_all_inv: "cap_inv c \<Longrightarrow> cap_inv (revoke_all c)"
proof -
  assume c: "cap_inv c"
  have "distinct (map (of_nat :: nat \<Rightarrow> u64) [0..<16])" by code_simp
  with c show ?thesis by (simp add: cap_inv_def revoke_all_list) (simp add: revoke_all_def)
qed

lemma revoke_all_denied: "cap_inv c \<Longrightarrow> denied (revoke_all c) = of_nat ` {..<16}"
proof -
  assume "cap_inv c"
  then have "take (unat (tc_deny_count (revoke_all c))) (tc_deny_list (revoke_all c)) = map of_nat [0..<16]"
    by (simp add: revoke_all_list cap_inv_def del: upt_rec_numeral) (simp add: revoke_all_def)
  then show ?thesis unfolding denied_def by (simp only: set_map set_upt lessThan_atLeast0)
qed

lemma add_deny_props:
  assumes "cap_inv c"
  shows "cap_inv (add_deny c n)"
    and "denied (add_deny c n) = (if unat (tc_deny_count c) < MAX_DENY_LIST then insert n (denied c) else denied c)"
proof -
  let ?k = "unat (tc_deny_count c)"
  have len: "length (tc_deny_list c) = 16" and k: "?k \<le> 16" and d: "distinct (take ?k (tc_deny_list c))"
    using assms by (auto simp: cap_inv_def)
  have dup: "list_ex (\<lambda>i. tc_deny_list c ! i = n) [0..<?k] \<longleftrightarrow> n \<in> denied c"
    using len k by (auto simp: denied_def in_set_take_nth list_ex_iff)
  have "cap_inv (add_deny c n) \<and>
    denied (add_deny c n) = (if ?k < 16 then insert n (denied c) else denied c)"
  proof (cases "16 \<le> ?k \<or> n \<in> denied c")
    case True
    then have "add_deny c n = c" by (auto simp: add_deny_def dup)
    with True assms show ?thesis by auto
  next
    case False
    then have u: "unat (tc_deny_count c + 1) = Suc ?k" by (simp add: unat_word_ariths)
    have t: "take (Suc ?k) ((tc_deny_list c)[?k := n]) = take ?k (tc_deny_list c) @ [n]"
      using False len by (simp add: take_Suc_conv_app_nth)
    have a: "add_deny c n = c\<lparr>tc_deny_list := (tc_deny_list c)[?k := n], tc_deny_count := tc_deny_count c + 1\<rparr>"
      using False by (simp add: add_deny_def dup)
    have "cap_inv (add_deny c n)"
      using False len d by (simp add: a cap_inv_def u t) (simp add: denied_def)
    moreover have "denied (add_deny c n) = insert n (denied c)"
      by (simp add: a u t denied_def)
    ultimately show ?thesis using False by simp
  qed
  then show "cap_inv (add_deny c n)"
    and "denied (add_deny c n) = (if ?k < 16 then insert n (denied c) else denied c)" by blast+
qed

lemma swap_remove_take:
  assumes "i < k" "k \<le> length xs" "distinct (take k xs)"
  shows "distinct (take (k - 1) (xs[i := xs ! (k - 1), k - 1 := z]))"
    and "set (take (k - 1) (xs[i := xs ! (k - 1), k - 1 := z])) = set (take k xs) - {xs ! i}"
proof -
  let ?t = "take (k - 1) (xs[i := xs ! (k - 1), k - 1 := z])"
  obtain m where k: "k = Suc m" using assms(1) by (cases k) auto
  have split: "take k xs = take m xs @ [xs ! m]" using assms(2) by (simp add: k take_Suc_conv_app_nth)
  have t: "?t = (take m xs)[i := xs ! m]" by (simp add: k take_update_swap list_update_beyond)
  have dm: "distinct (take m xs)" "xs ! m \<notin> set (take m xs)" using assms(3) unfolding split by auto
  show "distinct ?t" unfolding t using dm by (simp add: distinct_list_update)
  show "set ?t = set (take k xs) - {xs ! i}"
  proof (cases "i < m")
    case True
    then have "set ((take m xs)[i := xs ! m]) = insert (xs ! m) (set (take m xs) - {take m xs ! i})"
      using assms(2) dm by (intro set_update_distinct) (auto simp: k)
    moreover have "xs ! i \<in> set (take m xs)" using True assms(2) by (auto simp: in_set_take_nth k)
    ultimately show ?thesis unfolding t split using True dm by auto
  next
    case False
    then have "i = m" using assms(1) k by simp
    then show ?thesis unfolding t split using dm by (simp add: list_update_beyond)
  qed
qed

lemma remove_deny_props:
  assumes "cap_inv c"
  shows "cap_inv (remove_deny c n)" and "denied (remove_deny c n) = denied c - {n}"
proof -
  let ?k = "unat (tc_deny_count c)"
  have len: "length (tc_deny_list c) = 16" and k: "?k \<le> 16" and d: "distinct (take ?k (tc_deny_list c))"
    using assms by (auto simp: cap_inv_def)
  have "cap_inv (remove_deny c n) \<and> denied (remove_deny c n) = denied c - {n}"
  proof (cases "List.find (\<lambda>i. tc_deny_list c ! i = n) [0..<?k]")
    case None
    then have "n \<notin> denied c" using len k by (auto simp: find_None_iff denied_def in_set_take_nth)
    moreover have "remove_deny c n = c" using None by (simp add: remove_deny_def)
    ultimately show ?thesis using assms by auto
  next
    case (Some i)
    then have i: "i < ?k" "tc_deny_list c ! i = n" by (auto simp: find_Some_iff)
    then have pos: "tc_deny_count c > 0" by (metis not_less0 unsigned_0 word_gt_0)
    have u: "unat (tc_deny_count c - 1) = ?k - 1" using unat_minus_one [of "tc_deny_count c"] pos by (simp add: word_gt_0)
    have r: "remove_deny c n =
        c\<lparr>tc_deny_list := (tc_deny_list c)[i := tc_deny_list c ! (?k - 1), ?k - 1 := NOT 0],
          tc_deny_count := tc_deny_count c - 1\<rparr>"
      using Some i k pos by (simp add: remove_deny_def Let_def)
    note sw = swap_remove_take [OF i(1) _ d, of "NOT 0"]
    have "cap_inv (remove_deny c n)" using sw(1) len k by (simp add: r cap_inv_def u)
    moreover have "denied (remove_deny c n) = denied c - {n}"
      using sw(2) len k i(2) by (simp add: r denied_def u)
    ultimately show ?thesis by blast
  qed
  then show "cap_inv (remove_deny c n)" and "denied (remove_deny c n) = denied c - {n}" by blast+
qed

section \<open>Revocation\<close>

lemma is_revoked_iff: "is_revoked c \<longleftrightarrow> bit (tc_flags c) 63"
  by (simp add: is_revoked_def REVOKED_def)

lemma is_revoked_revoke_all [simp]: "is_revoked (revoke_all c)"
  by (simp add: is_revoked_iff revoke_all_def REVOKED_def)

lemma revoked_grant: "is_revoked c \<Longrightarrow> tc_grant c f = c"
  by (simp add: tc_grant_def)

lemma revoked_add_deny [simp]: "is_revoked (add_deny c n) = is_revoked c"
  by (simp add: is_revoked_def add_deny_def)

lemma revoked_remove_deny [simp]: "is_revoked (remove_deny c n) = is_revoked c"
  by (simp add: is_revoked_def remove_deny_def Let_def)

lemma revoked_set_mem_limit [simp]: "is_revoked (set_mem_limit c p) = is_revoked c"
  by (simp add: is_revoked_def set_mem_limit_def)

lemma revoke_lifts_revocation: "is_revoked (tc_revoke c f) \<longleftrightarrow> is_revoked c \<and> \<not> bit f 63"
  by (auto simp: is_revoked_iff tc_revoke_def bit_and_iff bit_not_iff)

section \<open>Properties\<close>

text \<open>
  The deny list of a token is a set of at most 16 call numbers. \<open>denies\<close> is membership,
  \<open>add_deny\<close> inserts (and, when 16 numbers are denied already, does nothing), \<open>remove_deny\<close> removes, whatever order the
  array has; grants and revocations of flags leave the set alone, and \<open>revoke_all\<close> denies the numbers 0 to 15.
\<close>

theorem deny_list_is_a_set:
  assumes "cap_inv c"
  shows "(denies c n \<longleftrightarrow> n \<in> denied c) \<and>
         denied (add_deny c n) = (if card (denied c) < MAX_DENY_LIST then insert n (denied c) else denied c) \<and>
         denied (remove_deny c n) = denied c - {n} \<and>
         denied (tc_grant c f) = denied c \<and> denied (tc_revoke c f) = denied c \<and>
         denied (revoke_all c) = of_nat ` {..<MAX_DENY_LIST} \<and> card (denied c) \<le> MAX_DENY_LIST \<and>
         cap_inv (add_deny c n) \<and> cap_inv (remove_deny c n) \<and> cap_inv (revoke_all c)"
proof -
  have "card (denied c) = unat (tc_deny_count c)" "unat (tc_deny_count c) \<le> 16"
    using assms by (auto simp: denied_def cap_inv_def distinct_card)
  with assms show ?thesis
    by (simp add: denies_iff add_deny_props remove_deny_props revoke_all_denied revoke_all_inv)
qed

theorem deny_list_is_a_set_witness:
  "denied (add_deny cap_new_user 4) = {4} \<and> \<not> denies (remove_deny (add_deny cap_new_user 4) 4) 4"
  using deny_list_is_a_set [of cap_new_user 4]
    deny_list_is_a_set [of "add_deny cap_new_user 4" 4]
    deny_list_is_a_set [of "remove_deny (add_deny cap_new_user 4) 4" 4]
  by simp

end
