(* ===== verification/Policy_Gate.thy ===== *)
theory Policy_Gate
  imports Policy_Log Thread_Cap
begin

text \<open>
  The policy gate (\<^verbatim>\<open>root_policy/mod.rs\<close>): the check in front of every system call, the gates of
  single resources, and the management of capability tokens. The state gathers the statics the
  gate uses; \<open>tick\<close> is \<open>perm::TICK\<close> and \<open>cur\<close> is \<open>threading::CUR\<close>, read by the code at the call.
\<close>

section \<open>State and results\<close>

record policy_state =
  ps_log :: policy_log
  ps_active :: bool
  ps_rings :: "ring_caps list"
  ps_caps :: "thread_cap list"
  ps_serial :: string

type_synonym 'a outcome = "(err + 'a) \<times> policy_state"

text \<open>The values the statics have before \<open>init\<close>.\<close>

definition policy_boot :: policy_state where
  "policy_boot = \<lparr>ps_log = policy_log_new, ps_active = False, ps_rings = RING_CAPS_init,
                  ps_caps = replicate MAX_CAP_THREADS cap_new_empty, ps_serial = ''''\<rparr>"

definition init_ring_caps :: "ring_caps list \<Rightarrow> ring_caps list" where
  "init_ring_caps t = t"

text \<open>\<open>init\<close> also prints a line on the screen (\<open>log_ok\<close>), which touches none of this state.\<close>

definition policy_init :: "policy_state \<Rightarrow> policy_state" where
  "policy_init s = s\<lparr>ps_log := policy_log_new, ps_active := True,
                     ps_rings := init_ring_caps (ps_rings s), ps_caps := init_cap_table (ps_caps s)\<rparr>"

definition ring_syscall_mask :: "u8 \<Rightarrow> u64" where
  "ring_syscall_mask ring =
     (if ring = 0 then NOT 0 else if ring = 1 then mask_of ring1_calls
      else if ring = 3 then mask_of ring3_calls else 0)"

text \<open>\<open>(cs & 3) as u8\<close>: the privilege level of the caller.\<close>

definition cpl :: "u64 \<Rightarrow> u8" where
  "cpl cs = ucast (cs AND 3)"

text \<open>\<open>POLICY_LOG.record(..); return Err(err::PERM)\<close>.\<close>

definition deny :: "u64 \<Rightarrow> nat \<Rightarrow> policy_state \<Rightarrow> violation_kind \<Rightarrow> u8 \<Rightarrow> u64 \<Rightarrow> unit outcome run" where
  "deny tick cur s kind ring detail =
     bind_run (record_entry tick (ps_log s) kind ring (of_nat cur) detail) (\<lambda>l.
       Done (Inl PERM, s\<lparr>ps_log := l, ps_serial := ps_serial s @ record_line kind ring (of_nat cur) detail\<rparr>))"

section \<open>The gates\<close>

definition check_syscall :: "u64 \<Rightarrow> nat \<Rightarrow> policy_state \<Rightarrow> u64 \<Rightarrow> u64 \<Rightarrow> unit outcome run" where
  "check_syscall tick cur s syscall_nr cs =
     (if \<not> ps_active s then Done (Inr (), s)
      else let ring = cpl cs in
        if syscall_nr < 64 \<and> \<not> has_any (ring_syscall_mask ring) (bit_at (unat syscall_nr))
        then deny tick cur s SyscallDenied ring syscall_nr
        else bind_run (arr_get (ps_caps s) cur) (\<lambda>cap.
          if is_revoked cap then deny tick cur s ThreadRevoked ring syscall_nr
          else if denies cap syscall_nr then deny tick cur s ThreadDenied ring syscall_nr
          else bind_run (arr_get (ps_rings s) (unat ring)) (\<lambda>ring_cap.
            if \<not> rc_allows_syscall ring_cap syscall_nr then deny tick cur s RingCapDenied ring syscall_nr
            else Done (Inr (), s))))"

definition check_spawn_kernel :: "u64 \<Rightarrow> nat \<Rightarrow> policy_state \<Rightarrow> u64 \<Rightarrow> unit outcome run" where
  "check_spawn_kernel tick cur s cs =
     (if cpl cs \<noteq> 0 then deny tick cur s KernelSpawnDenied (cpl cs) 0 else Done (Inr (), s))"

definition check_io_access :: "u64 \<Rightarrow> nat \<Rightarrow> policy_state \<Rightarrow> u64 \<Rightarrow> u16 \<Rightarrow> unit outcome run" where
  "check_io_access tick cur s cs port =
     bind_run (arr_get (ps_rings s) (unat (cpl cs))) (\<lambda>ring_cap.
       if \<not> rc_can_io ring_cap then deny tick cur s IoDenied (cpl cs) (ucast port) else Done (Inr (), s))"

definition check_phys_map :: "u64 \<Rightarrow> nat \<Rightarrow> policy_state \<Rightarrow> u64 \<Rightarrow> u64 \<Rightarrow> unit outcome run" where
  "check_phys_map tick cur s cs phys =
     bind_run (arr_get (ps_rings s) (unat (cpl cs))) (\<lambda>ring_cap.
       if \<not> rc_can_phys_map ring_cap then deny tick cur s PhysMapDenied (cpl cs) phys else Done (Inr (), s))"

definition check_irq_control :: "u64 \<Rightarrow> nat \<Rightarrow> policy_state \<Rightarrow> u64 \<Rightarrow> unit outcome run" where
  "check_irq_control tick cur s cs =
     (if cpl cs \<noteq> 0 then deny tick cur s IrqDenied (cpl cs) 0 else Done (Inr (), s))"

section \<open>Token management\<close>

definition on_cap :: "policy_state \<Rightarrow> nat \<Rightarrow> (thread_cap \<Rightarrow> thread_cap) \<Rightarrow> policy_state" where
  "on_cap s tid f =
     (if tid < MAX_CAP_THREADS then s\<lparr>ps_caps := (ps_caps s)[tid := f (ps_caps s ! tid)]\<rparr> else s)"

definition grant_cap :: "policy_state \<Rightarrow> nat \<Rightarrow> u64 \<Rightarrow> policy_state" where
  "grant_cap s tid flag = on_cap s tid (\<lambda>c. tc_grant c flag)"

definition revoke_cap :: "policy_state \<Rightarrow> nat \<Rightarrow> u64 \<Rightarrow> policy_state" where
  "revoke_cap s tid flag = on_cap s tid (\<lambda>c. tc_revoke c flag)"

definition revoke_thread :: "policy_state \<Rightarrow> nat \<Rightarrow> policy_state" where
  "revoke_thread s tid = on_cap s tid revoke_all"

definition deny_syscall :: "policy_state \<Rightarrow> nat \<Rightarrow> u64 \<Rightarrow> policy_state" where
  "deny_syscall s tid n = on_cap s tid (\<lambda>c. add_deny c n)"

definition violation_count :: "policy_state \<Rightarrow> u32" where
  "violation_count s = total_violations (ps_log s)"

definition policy_dump_recent :: "policy_state \<Rightarrow> nat \<Rightarrow> policy_state" where
  "policy_dump_recent s n = s\<lparr>ps_serial := ps_serial s @ dump_recent (ps_log s) n\<rparr>"

section \<open>Invariant\<close>

text \<open>
  The statics keep their array sizes, the ring records their cached booleans and the tokens
  their deny lists; the log stands for the history \<open>h\<close>.
\<close>

definition policy_inv :: "log_entry list \<Rightarrow> policy_state \<Rightarrow> bool" where
  "policy_inv h s \<longleftrightarrow>
     log_of h (ps_log s) \<and> ring_table_inv (ps_rings s) \<and>
     length (ps_caps s) = MAX_CAP_THREADS \<and> (\<forall>c \<in> set (ps_caps s). cap_inv c)"

lemma policy_inv_lengths:
  "policy_inv h s \<Longrightarrow> length (ps_caps s) = 64" "policy_inv h s \<Longrightarrow> length (ps_rings s) = 4"
  by (auto simp: policy_inv_def ring_table_inv_def)

lemma policy_inv_cap: "policy_inv h s \<Longrightarrow> tid < 64 \<Longrightarrow> cap_inv (ps_caps s ! tid)"
  by (simp add: policy_inv_def)

lemma cpl_less_4: "unat (cpl cs) < 4"
proof -
  have "cs AND 3 = take_bit 2 cs" by (simp add: take_bit_eq_mask mask_eq_exp_minus_1)
  then have "unat (cs AND 3) = take_bit 2 (unat cs)" by (simp only: unsigned_take_bit_eq)
  then have "unat (cs AND 3) < 4" by (simp add: take_bit_eq_mod)
  then show ?thesis by (simp add: cpl_def unsigned_ucast_eq take_bit_eq_mod)
qed

lemma set_update_inv:
  "\<forall>c \<in> set xs. P c \<Longrightarrow> (i < length xs \<Longrightarrow> P x) \<Longrightarrow> \<forall>c \<in> set (xs[i := x]). P c"
proof
  fix c
  assume a: "\<forall>c \<in> set xs. P c" "i < length xs \<Longrightarrow> P x" and c: "c \<in> set (xs[i := x])"
  show "P c"
  proof (cases "i < length xs")
    case True
    with c a set_update_subset_insert [of xs i x] show ?thesis by blast
  next
    case False
    with c a show ?thesis by (simp add: list_update_beyond)
  qed
qed

lemma policy_inv_boot: "policy_inv [] policy_boot"
  by (simp add: policy_inv_def policy_boot_def log_of_new ring_table_inv_init)

lemma length_fold_update [simp]: "length (fold (\<lambda>i t. t[i := x]) is t) = length t"
  by (induction "is" arbitrary: t) simp_all

lemma fold_update_inv:
  assumes "\<forall>c \<in> set t. P c" "P x"
  shows "\<forall>c \<in> set (fold (\<lambda>i t. t[i := x]) is t). P c"
  using assms(1)
proof (induction "is" arbitrary: t)
  case (Cons i "is")
  from Cons.IH [OF set_update_inv [OF Cons.prems assms(2), of i]] show ?case
    unfolding fold_simps .
qed (simp only: fold_simps)

lemma init_cap_table_inv:
  assumes "\<forall>c \<in> set t. cap_inv c"
  shows "length (init_cap_table t) = length t \<and> (\<forall>c \<in> set (init_cap_table t). cap_inv c)"
proof -
  let ?t = "((t[0 := cap_new_kernel])[1 := cap_new_kernel])[2 := cap_new_user]"
  have "\<forall>c \<in> set ?t. cap_inv c"
    by (intro set_update_inv assms cap_inv_new)
  from fold_update_inv [OF this cap_inv_new(1), of "[3..<MAX_CAP_THREADS]"]
  show ?thesis unfolding init_cap_table_def length_fold_update length_list_update by blast
qed

lemma policy_inv_init: "policy_inv h s \<Longrightarrow> policy_inv [] (policy_init s)"
  using init_cap_table_inv [of "ps_caps s"]
  by (simp add: policy_inv_def policy_init_def init_ring_caps_def log_of_new)

lemma policy_inv_on_cap:
  assumes s: "policy_inv h s" and f: "\<And>c. cap_inv c \<Longrightarrow> cap_inv (f c)"
  shows "policy_inv h (on_cap s tid f)"
proof (cases "tid < MAX_CAP_THREADS")
  case True
  have "\<forall>c \<in> set ((ps_caps s)[tid := f (ps_caps s ! tid)]). cap_inv c"
    by (rule set_update_inv) (use s True f [OF policy_inv_cap [OF s True]] in \<open>auto simp: policy_inv_def\<close>)
  with s True show ?thesis by (simp add: policy_inv_def on_cap_def)
next
  case False
  with s show ?thesis by (simp add: on_cap_def)
qed

lemma cap_inv_set_mem_limit [simp]: "cap_inv (set_mem_limit c p) = cap_inv c"
  by (simp add: cap_inv_def set_mem_limit_def)

lemma policy_inv_management:
  assumes "policy_inv h s"
  shows "policy_inv h (grant_cap s tid flag)" "policy_inv h (revoke_cap s tid flag)"
    "policy_inv h (revoke_thread s tid)" "policy_inv h (deny_syscall s tid n)"
  by (simp_all add: grant_cap_def revoke_cap_def revoke_thread_def deny_syscall_def
      policy_inv_on_cap [OF assms] revoke_all_inv add_deny_props(1))

lemma deny_inv:
  assumes "policy_inv h s"
  shows "\<exists>s'. deny tick cur s kind ring detail = Done (Inl PERM, s') \<and>
    policy_inv (h @ [\<lparr>le_tick = tick, le_kind = kind, le_ring = ring, le_tid = of_nat cur, le_detail = detail\<rparr>]) s' \<and>
    ps_caps s' = ps_caps s \<and> ps_rings s' = ps_rings s \<and> ps_active s' = ps_active s \<and>
    ps_serial s' = ps_serial s @ record_line kind ring (of_nat cur) detail"
proof -
  from assms have "log_of h (ps_log s)" by (simp add: policy_inv_def)
  from record_log_of [OF this] obtain l where
    "record_entry tick (ps_log s) kind ring (of_nat cur) detail = Done l"
    "log_of (h @ [\<lparr>le_tick = tick, le_kind = kind, le_ring = ring, le_tid = of_nat cur, le_detail = detail\<rparr>]) l"
    by blast
  with assms show ?thesis by (simp add: deny_def policy_inv_def)
qed

lemma deny_not_Inr [simp]: "deny tick cur s kind ring detail \<noteq> Done (Inr x, s')"
  by (simp add: deny_def bind_run_Done_iff)

section \<open>What the gate decides\<close>

text \<open>
  The decision as a value: the kind of violation the gate reports, or \<open>None\<close> to let the call
  through. The order of the tests is the order of the violations in the log.
\<close>

definition verdict :: "policy_state \<Rightarrow> nat \<Rightarrow> u8 \<Rightarrow> u64 \<Rightarrow> violation_kind option" where
  "verdict s cur ring n =
     (if \<not> ps_active s then None
      else if n < 64 \<and> \<not> bit (ring_syscall_mask ring) (unat n) then Some SyscallDenied
      else if is_revoked (ps_caps s ! cur) then Some ThreadRevoked
      else if n \<in> denied (ps_caps s ! cur) then Some ThreadDenied
      else if n < 64 \<and> \<not> bit (rc_syscall_mask (ps_rings s ! unat ring)) (unat n) then Some RingCapDenied
      else None)"

lemma rc_allows_syscall_iff: "rc_allows_syscall r n \<longleftrightarrow> n < 64 \<longrightarrow> bit (rc_syscall_mask r) (unat n)"
  by (auto simp: rc_allows_syscall_def)

lemma check_syscall_verdict:
  assumes "policy_inv h s" "cur < MAX_CAP_THREADS"
  shows "check_syscall tick cur s n cs =
    (case verdict s cur (cpl cs) n of
       None \<Rightarrow> Done (Inr (), s) | Some k \<Rightarrow> deny tick cur s k (cpl cs) n)"
  using policy_inv_lengths [OF assms(1)] assms(2) cpl_less_4 [of cs] policy_inv_cap [OF assms]
  by (simp add: check_syscall_def verdict_def Let_def denies_iff rc_allows_syscall_iff)

lemma verdict_never_None_kind: "verdict s cur ring n = Some k \<Longrightarrow> k \<noteq> VkNone"
  by (auto simp: verdict_def split: if_splits)

section \<open>Sequences of administrative operations\<close>

datatype admin = Grant nat u64 | Revoke nat u64 | Revoke_Thread nat | Deny nat u64

fun admin_step :: "admin \<Rightarrow> policy_state \<Rightarrow> policy_state" where
  "admin_step (Grant tid flag) s = grant_cap s tid flag"
| "admin_step (Revoke tid flag) s = revoke_cap s tid flag"
| "admin_step (Revoke_Thread tid) s = revoke_thread s tid"
| "admin_step (Deny tid n) s = deny_syscall s tid n"

text \<open>Operations other than a \<open>revoke_cap\<close> of the revocation bit itself.\<close>

fun keeps_revocation :: "admin \<Rightarrow> bool" where
  "keeps_revocation (Revoke tid flag) \<longleftrightarrow> \<not> bit flag 63"
| "keeps_revocation _ \<longleftrightarrow> True"

definition revoked_in :: "policy_state \<Rightarrow> nat \<Rightarrow> bool" where
  "revoked_in s tid \<longleftrightarrow> is_revoked (ps_caps s ! tid)"

lemma admin_step_inv: "policy_inv h s \<Longrightarrow> policy_inv h (admin_step a s)"
  by (cases a) (simp_all add: policy_inv_management)

lemma on_cap_active [simp]: "ps_active (on_cap s tid f) = ps_active s"
  by (simp add: on_cap_def)

lemma admin_step_active [simp]: "ps_active (admin_step a s) = ps_active s"
  by (cases a) (simp_all add: grant_cap_def revoke_cap_def revoke_thread_def deny_syscall_def)

lemma on_cap_revoked:
  assumes "revoked_in s tid" "length (ps_caps s) = 64" "\<And>c. is_revoked c \<Longrightarrow> is_revoked (f c)"
  shows "revoked_in (on_cap s t f) tid"
  using assms by (auto simp: revoked_in_def on_cap_def nth_list_update)

lemma admin_step_revoked:
  assumes "revoked_in s tid" "length (ps_caps s) = 64" "keeps_revocation a"
  shows "revoked_in (admin_step a s) tid"
  using assms
  by (cases a) (auto simp: grant_cap_def revoke_cap_def revoke_thread_def deny_syscall_def
      revoked_grant revoke_lifts_revocation intro!: on_cap_revoked)

lemma admin_steps_revoked:
  assumes "policy_inv h s" "revoked_in s tid" "\<forall>a \<in> set as. keeps_revocation a"
  shows "policy_inv h (fold admin_step as s) \<and> revoked_in (fold admin_step as s) tid \<and>
         ps_active (fold admin_step as s) = ps_active s"
  using assms
proof (induction as arbitrary: s)
  case Nil
  then show ?case by simp
next
  case (Cons a as)
  have "policy_inv h (admin_step a s)" using Cons.prems(1) by (rule admin_step_inv)
  moreover have "revoked_in (admin_step a s) tid"
    using Cons.prems policy_inv_lengths(1) [OF Cons.prems(1)] by (simp add: admin_step_revoked)
  ultimately show ?case using Cons by simp
qed

lemma verdict_revoked:
  "ps_active s \<Longrightarrow> revoked_in s cur \<Longrightarrow> \<exists>k. verdict s cur ring n = Some k"
  by (simp add: verdict_def revoked_in_def)

lemma revoke_thread_revoked:
  "tid < 64 \<Longrightarrow> length (ps_caps s) = 64 \<Longrightarrow> revoked_in (revoke_thread s tid) tid"
  by (simp add: revoked_in_def revoke_thread_def on_cap_def)

lemma nth_fold_update:
  "i < length t \<Longrightarrow> fold (\<lambda>i t. t[i := x]) is t ! i = (if i \<in> set is then x else t ! i)"
  by (induction "is" arbitrary: t) (auto simp: nth_list_update)

lemma init_cap_table_nth:
  assumes "length t = 64" "i < 64"
  shows "init_cap_table t ! i =
    (if i = 0 \<or> i = 1 then cap_new_kernel else if i = 2 then cap_new_user else cap_new_empty)"
  using assms by (auto simp: init_cap_table_def nth_fold_update nth_list_update simp del: upt_rec_numeral)

lemma not_revoked_new [simp]:
  "\<not> is_revoked cap_new_empty" "\<not> is_revoked cap_new_kernel" "\<not> is_revoked cap_new_user"
  by (simp_all add: is_revoked_iff cap_new_empty_def cap_new_kernel_def cap_new_user_def
      DEFAULT_KERNEL_def DEFAULT_USER_def ELEVATED_IPC_def ELEVATED_MEM_def TRUST_SPAWN_def bit_or_iff)

lemma cpl_cases:
  obtains "cpl cs = 0" | "cpl cs = 1" | "cpl cs = 2" | "cpl cs = 3"
proof -
  have "unat (cpl cs) = 0 \<or> unat (cpl cs) = 1 \<or> unat (cpl cs) = 2 \<or> unat (cpl cs) = 3"
    using cpl_less_4 [of cs] by linarith
  then have "cpl cs = 0 \<or> cpl cs = 1 \<or> cpl cs = 2 \<or> cpl cs = 3" by (simp add: word_unat_eq_iff)
  with that show thesis by blast
qed

lemma nr_less_64 [simp]: "nr c < 64"
  using nr_less_15 [of c] by (simp add: word_less_nat_alt)

lemma ring_masks_nr:
  "bit (ring_syscall_mask 0) (unat (nr c))"
  "bit (ring_syscall_mask 1) (unat (nr c)) \<longleftrightarrow> c \<in> set ring1_calls"
  "\<not> bit (ring_syscall_mask 2) k"
  "bit (ring_syscall_mask 3) (unat (nr c)) \<longleftrightarrow> c \<in> set ring3_calls"
  using nr_less_15 [of c]
  by (simp_all add: ring_syscall_mask_def mask_of_allows_nr bit_not_iff word_less_nat_alt)

lemma RING_CAPS_masks:
  "rc_syscall_mask (RING_CAPS_init ! 0) = ring_syscall_mask 0"
  "rc_syscall_mask (RING_CAPS_init ! 1) = ring_syscall_mask 1"
  "rc_syscall_mask (RING_CAPS_init ! 3) = ring_syscall_mask 3"
  by (simp_all add: RING_CAPS_init_def ring_caps_new_def ring_syscall_mask_def RING1_MASK_def RING3_MASK_def
      numeral_3_eq_3)

section \<open>Properties\<close>

text \<open>
  C5: the gate lets a system call of a running thread through, and then changes nothing, exactly
  when the policy is inactive or the ring masks permit the number (numbers from 64 on are not
  masked), the thread is not revoked and the number is not on its deny list. Every other call
  returns \<open>PERM\<close> and appends exactly one entry, with the caller's ring, thread and
  call number, to the violation history; tokens and ring records stay as they were.
\<close>

theorem gate_decision:
  assumes "policy_inv h s" "cur < MAX_CAP_THREADS"
  shows "check_syscall tick cur s n cs = Done (Inr (), s) \<and>
           (ps_active s \<longrightarrow>
             (n < 64 \<longrightarrow> bit (ring_syscall_mask (cpl cs)) (unat n) \<and>
                       bit (rc_syscall_mask (ps_rings s ! unat (cpl cs))) (unat n)) \<and>
             \<not> is_revoked (ps_caps s ! cur) \<and> n \<notin> denied (ps_caps s ! cur))
       \<or> (\<exists>k s'. check_syscall tick cur s n cs = Done (Inl PERM, s') \<and> ps_active s \<and>
             (n < 64 \<and> \<not> bit (ring_syscall_mask (cpl cs)) (unat n) \<or>
              n < 64 \<and> \<not> bit (rc_syscall_mask (ps_rings s ! unat (cpl cs))) (unat n) \<or>
              is_revoked (ps_caps s ! cur) \<or> n \<in> denied (ps_caps s ! cur)) \<and>
             policy_inv (h @ [\<lparr>le_tick = tick, le_kind = k, le_ring = cpl cs,
                               le_tid = of_nat cur, le_detail = n\<rparr>]) s' \<and>
             ps_caps s' = ps_caps s \<and> ps_rings s' = ps_rings s \<and> ps_active s' = ps_active s)"
proof (cases "verdict s cur (cpl cs) n")
  case None
  then have "check_syscall tick cur s n cs = Done (Inr (), s)"
    by (simp add: check_syscall_verdict [OF assms])
  with None show ?thesis by (auto simp: verdict_def split: if_splits)
next
  case (Some k)
  then have "check_syscall tick cur s n cs = deny tick cur s k (cpl cs) n"
    by (simp add: check_syscall_verdict [OF assms])
  with Some deny_inv [OF assms(1), of tick cur k "cpl cs" n] show ?thesis
    by (fastforce simp: verdict_def split: if_splits)
qed

theorem gate_decision_witness:
  "check_syscall 5 3 (policy_init policy_boot) 4 3 =
     deny 5 3 (policy_init policy_boot) SyscallDenied 3 4 \<and>
   (\<exists>k s'. check_syscall 5 3 (policy_init policy_boot) 4 3 = Done (Inl PERM, s') \<and>
      policy_inv [\<lparr>le_tick = 5, le_kind = k, le_ring = cpl 3, le_tid = 3, le_detail = 4\<rparr>] s')"
proof -
  let ?s = "policy_init policy_boot"
  have inv: "policy_inv [] ?s" by (rule policy_inv_init [OF policy_inv_boot])
  have cpl: "cpl 3 = 3" by code_simp
  have "verdict ?s 3 3 4 = Some SyscallDenied"
    using ring_masks_nr(4) [of SPAWN] by (simp add: verdict_def policy_init_def ring3_calls_def)
  then have "check_syscall 5 3 ?s 4 3 = deny 5 3 ?s SyscallDenied 3 4"
    using check_syscall_verdict [OF inv, of 3 5 4 3] by (simp add: cpl)
  then show ?thesis
    using gate_decision [OF inv, of 3 5 4 3] deny_inv [OF inv, of 5 3 SyscallDenied 3 4] by auto
qed

text \<open>
  Right after \<open>init\<close>, whatever thread runs, a defined system call passes the gate
  from ring 0 always, from ring 1 and ring 3 exactly when it is on that ring's list, and from
  ring 2 never. \<open>GET_FB_INFO\<close> is on neither list: only the kernel itself can
  issue it, although the user library offers it to programs.
\<close>

theorem initial_policy:
  assumes "cur < MAX_CAP_THREADS"
  shows "check_syscall tick cur (policy_init policy_boot) (nr c) cs = Done (Inr (), policy_init policy_boot) \<longleftrightarrow>
         cpl cs = 0 \<or> cpl cs = 1 \<and> c \<in> set ring1_calls \<or> cpl cs = 3 \<and> c \<in> set ring3_calls"
proof -
  let ?s = "policy_init policy_boot"
  have inv: "policy_inv [] ?s" by (rule policy_inv_init [OF policy_inv_boot])
  have cap: "\<not> is_revoked (ps_caps ?s ! cur)" "denied (ps_caps ?s ! cur) = {}"
    using assms by (auto simp: policy_init_def policy_boot_def init_cap_table_nth)
  have rings: "ps_rings ?s = RING_CAPS_init" and act: "ps_active ?s"
    by (simp_all add: policy_init_def policy_boot_def init_ring_caps_def)
  have "verdict ?s cur (cpl cs) (nr c) = None \<longleftrightarrow>
        cpl cs = 0 \<or> cpl cs = 1 \<and> c \<in> set ring1_calls \<or> cpl cs = 3 \<and> c \<in> set ring3_calls"
    using RING_CAPS_masks
    by (cases rule: cpl_cases [of cs]) (simp_all add: verdict_def cap rings act ring_masks_nr)
  then show ?thesis by (auto simp: check_syscall_verdict [OF inv assms] split: option.splits)
qed

theorem initial_policy_witness:
  "check_syscall 0 2 (policy_init policy_boot) (nr GET_FB_INFO) 3 \<noteq> Done (Inr (), policy_init policy_boot) \<and>
   check_syscall 0 2 (policy_init policy_boot) (nr WRITE) 3 = Done (Inr (), policy_init policy_boot)"
proof -
  have "cpl 3 = 3" by code_simp
  then show ?thesis
    using initial_policy [of 2 0 GET_FB_INFO 3] initial_policy [of 2 0 WRITE 3]
    by (simp add: ring3_calls_def del: nr.simps)
qed

text \<open>
  C28: a revoked thread stays shut out. After \<open>revoke_thread\<close>, any sequence of grants, revocations
  and denials that never names the revocation bit itself leaves every system call of the thread, from every ring
  and with every number, refused with \<open>PERM\<close>.
\<close>

theorem revoked_thread_refused:
  assumes "policy_inv h s" "ps_active s" "tid < MAX_CAP_THREADS" "\<forall>a \<in> set as. keeps_revocation a"
  shows "\<exists>s'. check_syscall tick tid (fold admin_step as (revoke_thread s tid)) n cs = Done (Inl PERM, s')"
proof -
  let ?r = "revoke_thread s tid"
  have inv: "policy_inv h ?r" using assms(1) by (rule policy_inv_management)
  have "revoked_in ?r tid" using assms(3) policy_inv_lengths(1) [OF assms(1)] by (rule revoke_thread_revoked)
  from admin_steps_revoked [OF inv this assms(4)]
  have inv': "policy_inv h (fold admin_step as ?r)" and rev: "revoked_in (fold admin_step as ?r) tid"
    and act: "ps_active (fold admin_step as ?r)"
    using assms(2) by (auto simp: revoke_thread_def)
  from verdict_revoked [OF act rev] obtain k where "verdict (fold admin_step as ?r) tid (cpl cs) n = Some k" ..
  with deny_inv [OF inv', of tick tid k "cpl cs" n] show ?thesis
    by (auto simp: check_syscall_verdict [OF inv' assms(3)])
qed

theorem revoked_thread_refused_witness:
  "\<exists>s'. check_syscall 9 5 (fold admin_step [Grant 5 3, Revoke 5 1, Deny 5 2]
          (revoke_thread (policy_init policy_boot) 5)) 1 0 = Done (Inl PERM, s')"
  by (rule revoked_thread_refused [OF policy_inv_init [OF policy_inv_boot]])
    (simp_all add: policy_init_def bit_1_iff)

text \<open>
  The resource gates follow the flag words. A port access (a physical mapping) of ring
  \<open>r\<close> is permitted exactly when the ring's flag word has \<open>IO_ACCESS\<close> (\<open>PHYS_MAP\<close>); granting the flag to the
  ring opens the gate and revoking it closes it, whatever was granted or revoked before.
\<close>

theorem resource_gates_follow_flags:
  assumes "policy_inv h s"
  shows "(check_io_access tick cur s cs port = Done (Inr (), s) \<longleftrightarrow>
            rc_has_cap (ps_rings s ! unat (cpl cs)) IO_ACCESS) \<and>
         (check_phys_map tick cur s cs phys = Done (Inr (), s) \<longleftrightarrow>
            rc_has_cap (ps_rings s ! unat (cpl cs)) PHYS_MAP) \<and>
         rc_can_io (ring_grant_cap (ps_rings s) (cpl cs) IO_ACCESS ! unat (cpl cs)) \<and>
         \<not> rc_can_io (ring_revoke_cap (ps_rings s) (cpl cs) IO_ACCESS ! unat (cpl cs))"
proof -
  let ?r = "ps_rings s ! unat (cpl cs)"
  have len: "length (ps_rings s) = 4" using assms by (rule policy_inv_lengths)
  have ring: "cpl cs < 4" using cpl_less_4 [of cs] by (simp add: word_less_nat_alt)
  have cached: "caps_cached ?r"
    using assms cpl_less_4 [of cs] by (simp add: policy_inv_def ring_table_inv_nth)
  show ?thesis
    using len ring cached cpl_less_4 [of cs]
    by (simp add: check_io_access_def check_phys_map_def caps_cached_def rc_has_cap_def
        ring_grant_cap_def ring_revoke_cap_def rc_refresh_def IO_ACCESS_def bit_or_iff bit_and_iff bit_not_iff)
qed

theorem resource_gates_follow_flags_witness:
  "check_io_access 0 4 (policy_init policy_boot) 1 0x3F8 = Done (Inr (), policy_init policy_boot) \<and>
   check_io_access 0 4 (policy_init policy_boot) 3 0x3F8 \<noteq> Done (Inr (), policy_init policy_boot)"
proof -
  have inv: "policy_inv [] (policy_init policy_boot)" by (rule policy_inv_init [OF policy_inv_boot])
  have cpl: "cpl 1 = 1" "cpl 3 = 3" by code_simp+
  have caps: "rc_has_cap (RING_CAPS_init ! 1) IO_ACCESS" "\<not> rc_has_cap (RING_CAPS_init ! 3) IO_ACCESS"
    by (simp_all add: RING_CAPS_init_def ring_caps_new_def rc_has_cap_def IO_ACCESS_def DEVSPACE_DEFAULT_def
        USERSPACE_DEFAULT_def DEBUG_SERIAL_def MMIO_MAP_def FRAMEBUFFER_def RAW_DISK_def bit_or_iff numeral_3_eq_3)
  have rings: "ps_rings (policy_init policy_boot) = RING_CAPS_init"
    by (simp add: policy_init_def policy_boot_def init_ring_caps_def)
  show ?thesis
    using resource_gates_follow_flags [OF inv, of 0 4 1 "0x3F8" 0]
      resource_gates_follow_flags [OF inv, of 0 4 3 "0x3F8" 0] caps
    by (simp add: cpl rings)
qed

end
