(* ===== verification/Fifo_Ring.thy ===== *)
theory Fifo_Ring
  imports Kernel_Prelude
begin

text \<open>
  Bounded first-in first-out buffers. The kernel has two ring buffers that keep one slot free
  (\<^verbatim>\<open>MsgQueue\<close> of \<^verbatim>\<open>ipc.rs\<close>, the keyboard buffer of \<^verbatim>\<open>input.rs\<close>): a write index, a read index, and equal
  indices mean empty. This theory has the index arithmetic they share and the contract their
  clients rely on, as a locale: what goes in comes out once, in order, and a full buffer refuses.
\<close>

section \<open>Index arithmetic of a ring\<close>

definition ring_len :: "nat \<Rightarrow> nat \<Rightarrow> nat \<Rightarrow> nat" where
  "ring_len n h t = (h + n - t) mod n"

definition ring_contents :: "'a list \<Rightarrow> nat \<Rightarrow> nat \<Rightarrow> 'a list" where
  "ring_contents buf h t =
     map (\<lambda>i. buf ! ((t + i) mod length buf)) [0..<ring_len (length buf) h t]"

definition ring_ok :: "'a list \<Rightarrow> nat \<Rightarrow> nat \<Rightarrow> bool" where
  "ring_ok buf h t \<longleftrightarrow> h < length buf \<and> t < length buf"

lemma length_ring_contents [simp]: "length (ring_contents buf h t) = ring_len (length buf) h t"
  by (simp add: ring_contents_def)

lemma ring_len_cases:
  assumes "h < n" "t < n"
  shows "ring_len n h t = (if t \<le> h then h - t else h + n - t)"
proof (cases "t \<le> h")
  case True
  then have e: "h + n - t = (h - t) + n" by simp
  have "(h - t + n) mod n = h - t" using assms by (subst mod_add_self2) simp
  with True show ?thesis unfolding ring_len_def e by simp
next
  case False
  with assms show ?thesis by (simp add: ring_len_def)
qed

lemma ring_len_less: "h < n \<Longrightarrow> ring_len n h t < n"
  by (simp add: ring_len_def)

lemma ring_len_0: "h < n \<Longrightarrow> t < n \<Longrightarrow> ring_len n h t = 0 \<longleftrightarrow> h = t"
  by (auto simp: ring_len_cases)

lemma ring_empty: "ring_ok buf h t \<Longrightarrow> ring_contents buf h t = [] \<longleftrightarrow> h = t"
  unfolding length_0_conv [symmetric] length_ring_contents by (simp add: ring_ok_def ring_len_0)

lemma Suc_mod_cases: "h < n \<Longrightarrow> Suc h mod n = (if Suc h = n then 0 else Suc h)"
  by simp

lemma ring_full_iff:
  "ring_ok buf h t \<Longrightarrow>
   Suc h mod length buf = t \<longleftrightarrow> Suc (length (ring_contents buf h t)) = length buf"
  by (auto simp: ring_ok_def ring_len_cases Suc_mod_cases)

lemma ring_put:
  assumes ok: "ring_ok buf h t" and room: "Suc h mod length buf \<noteq> t"
  shows "ring_contents (buf[h := x]) (Suc h mod length buf) t = ring_contents buf h t @ [x]"
    and "ring_ok (buf[h := x]) (Suc h mod length buf) t"
proof -
  let ?n = "length buf" and ?k = "ring_len (length buf) h t"
  have b: "h < ?n" "t < ?n" "0 < ?n" using ok by (auto simp: ring_ok_def)
  have len: "ring_len ?n (Suc h mod ?n) t = Suc ?k"
    using b room ring_len_cases [of h ?n t] ring_len_cases [of "Suc h mod ?n" ?n t]
    by (auto simp: Suc_mod_cases split: if_splits)
  have last: "(t + ?k) mod ?n = h"
    using b by (auto simp: ring_len_cases)
  have other: "(t + i) mod ?n \<noteq> h" if "i < ?k" for i
  proof
    assume "(t + i) mod ?n = h"
    then have "(t + i) mod ?n = (t + ?k) mod ?n" using last by simp
    moreover have "t + ?k - (t + i) < ?n" using ring_len_less [OF b(1), of t] by simp
    ultimately have "t + i = t + ?k" using that mod_inj_window [where a = "t + i" and b = "t + ?k" and m = ?n] by simp
    with that show False by simp
  qed
  have upd: "buf[h := x] ! ((t + i) mod ?n) = buf ! ((t + i) mod ?n)" if "i < ?k" for i
    using other [OF that] by simp
  show "ring_contents (buf[h := x]) (Suc h mod ?n) t = ring_contents buf h t @ [x]"
    using b len last upd by (simp add: ring_contents_def)
  show "ring_ok (buf[h := x]) (Suc h mod ?n) t" using b by (simp add: ring_ok_def)
qed

lemma ring_get:
  assumes ok: "ring_ok buf h t" and some: "h \<noteq> t"
  shows "ring_contents buf h t = buf ! t # ring_contents buf h (Suc t mod length buf)"
    and "ring_ok buf h (Suc t mod length buf)"
proof -
  let ?n = "length buf"
  have b: "h < ?n" "t < ?n" "0 < ?n" using ok by (auto simp: ring_ok_def)
  have len: "ring_len ?n h t = Suc (ring_len ?n h (Suc t mod ?n))"
    using b some ring_len_cases [of h ?n t] ring_len_cases [of h ?n "Suc t mod ?n"]
    by (auto simp: Suc_mod_cases split: if_splits)
  have shift: "(t + Suc i) mod ?n = (Suc t mod ?n + i) mod ?n" for i
    by (simp add: mod_add_left_eq)
  show "ring_contents buf h t = buf ! t # ring_contents buf h (Suc t mod ?n)"
    using b unfolding ring_contents_def len upt_conv_Cons [OF zero_less_Suc] list.map map_Suc_upt [symmetric]
    by (simp add: shift del: map_Suc_upt upt_Suc add_Suc_right)
  show "ring_ok buf h (Suc t mod ?n)" using b by (auto simp: ring_ok_def intro!: mod_less_divisor)
qed

section \<open>The contract\<close>

text \<open>
  A client's trace: \<open>Some m\<close> sends \<open>m\<close>, \<open>None\<close> receives. The result is the list of accepted
  messages (as stored), the list of received messages, and the buffer.
\<close>

fun fifo_trace :: "('m \<Rightarrow> 'm) \<Rightarrow> ('m \<Rightarrow> 'q \<Rightarrow> (bool \<times> 'q) run) \<Rightarrow> ('q \<Rightarrow> ('m option \<times> 'q) run) \<Rightarrow>
    'm option list \<Rightarrow> 'q \<Rightarrow> ('m list \<times> 'm list \<times> 'q) run" where
  "fifo_trace norm put get [] q = Done ([], [], q)"
| "fifo_trace norm put get (Some m # es) q =
     bind_run (put m q) (\<lambda>(acc, q1). bind_run (fifo_trace norm put get es q1) (\<lambda>(ins, outs, q2).
       Done ((if acc then norm m # ins else ins), outs, q2)))"
| "fifo_trace norm put get (None # es) q =
     bind_run (get q) (\<lambda>(r, q1). bind_run (fifo_trace norm put get es q1) (\<lambda>(ins, outs, q2).
       Done (ins, (case r of None \<Rightarrow> outs | Some m \<Rightarrow> m # outs), q2)))"

text \<open>
  \<open>put\<close> reports whether it accepted the message; the stored form of a message is \<open>norm m\<close>. \<open>get\<close>
  returns the oldest stored message, if there is one.
\<close>

locale bounded_fifo =
  fixes ok :: "'q \<Rightarrow> bool"
    and contents :: "'q \<Rightarrow> 'm list"
    and norm :: "'m \<Rightarrow> 'm"
    and cap :: nat
    and fresh :: 'q
    and put :: "'m \<Rightarrow> 'q \<Rightarrow> (bool \<times> 'q) run"
    and get :: "'q \<Rightarrow> ('m option \<times> 'q) run"
  assumes fresh_ok: "ok fresh" and fresh_contents: "contents fresh = []"
    and put_room: "ok q \<Longrightarrow> length (contents q) < cap \<Longrightarrow>
           \<exists>q'. put m q = Done (True, q') \<and> ok q' \<and> contents q' = contents q @ [norm m]"
    and put_full: "ok q \<Longrightarrow> cap \<le> length (contents q) \<Longrightarrow> put m q = Done (False, q)"
    and get_empty: "ok q \<Longrightarrow> contents q = [] \<Longrightarrow> get q = Done (None, q)"
    and get_some: "ok q \<Longrightarrow> contents q = m # ms \<Longrightarrow>
           \<exists>q'. get q = Done (Some m, q') \<and> ok q' \<and> contents q' = ms"
begin

text \<open>Messages are neither lost, duplicated nor reordered.\<close>

lemma trace_fifo:
  "ok q \<Longrightarrow> \<exists>ins outs q'. fifo_trace norm put get es q = Done (ins, outs, q') \<and> ok q' \<and>
     outs @ contents q' = contents q @ ins"
proof (induction es arbitrary: q)
  case Nil
  then show ?case by simp
next
  case (Cons e es)
  show ?case
  proof (cases e)
    case (Some m)
    show ?thesis
    proof (cases "length (contents q) < cap")
      case True
      from put_room [OF Cons.prems True] obtain q1
        where q1: "put m q = Done (True, q1)" "ok q1" "contents q1 = contents q @ [norm m]" by blast
      with Cons.IH [OF q1(2)] Some show ?thesis by auto
    next
      case False
      then have "put m q = Done (False, q)" using Cons.prems put_full by simp
      with Cons.IH [OF Cons.prems] Some show ?thesis by auto
    qed
  next
    case None
    show ?thesis
    proof (cases "contents q")
      case Nil
      then have "get q = Done (None, q)" using Cons.prems get_empty by simp
      with Cons.IH [OF Cons.prems] None show ?thesis by auto
    next
      case c: (Cons m ms)
      from get_some [OF Cons.prems c] obtain q1
        where q1: "get q = Done (Some m, q1)" "ok q1" "contents q1 = ms" by blast
      with Cons.IH [OF q1(2)] c None show ?thesis by auto
    qed
  qed
qed

lemma put_bound:
  assumes "ok q" "length (contents q) \<le> cap" "put m q = Done (b, q')"
  shows "ok q'" "length (contents q') \<le> cap" "b \<longleftrightarrow> length (contents q) < cap"
  using assms put_room [OF assms(1), of m] put_full [OF assms(1), of m]
  by (cases "length (contents q) < cap"; auto)+

end

end
