(* ===== verification/Msg_Queue.thy ===== *)
theory Msg_Queue
  imports Fifo_Ring Spin_Lock
begin

text \<open>
  The per-thread message queue of \<^verbatim>\<open>ipc.rs\<close>: \<open>MsgQueue\<close>, a ring of 16 message slots behind a spin lock, which
  provides the bounded FIFO contract with 15 places.
\<close>

section \<open>Messages and queues\<close>

abbreviation IPC_QUEUE_DEPTH :: nat where "IPC_QUEUE_DEPTH \<equiv> 16"

record ipc_msg =
  im_from :: u32
  im_to :: u32
  im_tag :: u32
  im_pad :: u32
  im_data :: "u64 list"
  im_ptr :: u64
  im_len :: u32
  im_pad2 :: u32

definition zero_msg :: ipc_msg where
  "zero_msg = \<lparr>im_from = 0, im_to = 0, im_tag = 0, im_pad = 0, im_data = replicate 4 0,
               im_ptr = 0, im_len = 0, im_pad2 = 0\<rparr>"

record msg_queue =
  mq_msgs :: "ipc_msg list"
  mq_head :: nat
  mq_tail :: nat
  mq_lock :: spinlock

definition msg_queue_new :: msg_queue where
  "msg_queue_new = \<lparr>mq_msgs = replicate IPC_QUEUE_DEPTH zero_msg, mq_head = 0, mq_tail = 0, mq_lock = spinlock_new\<rparr>"

definition mq_len :: "msg_queue \<Rightarrow> nat" where
  "mq_len q = (mq_head q + IPC_QUEUE_DEPTH - mq_tail q) mod IPC_QUEUE_DEPTH"

definition mq_is_empty :: "msg_queue \<Rightarrow> bool" where
  "mq_is_empty q \<longleftrightarrow> mq_head q = mq_tail q"

definition mq_is_full :: "msg_queue \<Rightarrow> bool" where
  "mq_is_full q \<longleftrightarrow> (mq_head q + 1) mod IPC_QUEUE_DEPTH = mq_tail q"

text \<open>The copy both operations make, field by field: the padding words become zero.\<close>

definition copy_msg :: "ipc_msg \<Rightarrow> ipc_msg" where
  "copy_msg m = m\<lparr>im_pad := 0, im_pad2 := 0\<rparr>"

definition mq_push :: "ipc_msg \<Rightarrow> msg_queue \<Rightarrow> (bool \<times> msg_queue) run" where
  "mq_push msg q =
     (if mq_is_full q then Done (False, q)
      else bind_run (arr_set (mq_msgs q) (mq_head q) (copy_msg msg)) (\<lambda>ms.
        Done (True, q\<lparr>mq_msgs := ms, mq_head := (mq_head q + 1) mod IPC_QUEUE_DEPTH\<rparr>)))"

text \<open>\<open>pop\<close> writes through \<open>dst\<close>; the model returns the message written, if any.\<close>

definition mq_pop :: "msg_queue \<Rightarrow> (ipc_msg option \<times> msg_queue) run" where
  "mq_pop q =
     (if mq_is_empty q then Done (None, q)
      else bind_run (arr_get (mq_msgs q) (mq_tail q)) (\<lambda>src.
        Done (Some (copy_msg src), q\<lparr>mq_tail := (mq_tail q + 1) mod IPC_QUEUE_DEPTH\<rparr>)))"

section \<open>The queue provides the contract\<close>

definition mq_contents :: "msg_queue \<Rightarrow> ipc_msg list" where
  "mq_contents q = ring_contents (mq_msgs q) (mq_head q) (mq_tail q)"

definition mq_ok :: "msg_queue \<Rightarrow> bool" where
  "mq_ok q \<longleftrightarrow> length (mq_msgs q) = IPC_QUEUE_DEPTH \<and> ring_ok (mq_msgs q) (mq_head q) (mq_tail q) \<and>
             (\<forall>m \<in> set (mq_msgs q). copy_msg m = m)"

lemma copy_msg_idem [simp]: "copy_msg (copy_msg m) = copy_msg m"
  by (simp add: copy_msg_def)

lemma copy_zero_msg [simp]: "copy_msg zero_msg = zero_msg"
  by (simp add: copy_msg_def zero_msg_def)

lemma mq_new: "mq_ok msg_queue_new \<and> mq_contents msg_queue_new = []"
  by (simp add: mq_ok_def mq_contents_def msg_queue_new_def ring_ok_def ring_contents_def ring_len_def)

lemma mq_len_contents: "mq_ok q \<Longrightarrow> mq_len q = length (mq_contents q)"
  by (simp add: mq_len_def mq_contents_def ring_len_def mq_ok_def)

lemma mq_is_full_iff: "mq_ok q \<Longrightarrow> mq_is_full q \<longleftrightarrow> 15 \<le> length (mq_contents q)"
  using ring_full_iff [of "mq_msgs q" "mq_head q" "mq_tail q"]
    ring_len_less [of "mq_head q" 16 "mq_tail q"]
  by (auto simp: mq_ok_def mq_is_full_def mq_contents_def ring_ok_def)

lemma mq_is_empty_iff: "mq_ok q \<Longrightarrow> mq_is_empty q \<longleftrightarrow> mq_contents q = []"
  by (simp add: mq_ok_def mq_is_empty_def mq_contents_def ring_empty)

lemma mq_push_room:
  assumes "mq_ok q" "\<not> mq_is_full q"
  shows "\<exists>q'. mq_push m q = Done (True, q') \<and> mq_ok q' \<and> mq_contents q' = mq_contents q @ [copy_msg m] \<and>
              mq_lock q' = mq_lock q"
proof -
  have len: "length (mq_msgs q) = 16" and rok: "ring_ok (mq_msgs q) (mq_head q) (mq_tail q)"
    and room: "Suc (mq_head q) mod length (mq_msgs q) \<noteq> mq_tail q"
    using assms by (auto simp: mq_ok_def mq_is_full_def)
  have h: "mq_head q < 16" using rok len by (simp add: ring_ok_def)
  let ?q = "q\<lparr>mq_msgs := (mq_msgs q)[mq_head q := copy_msg m], mq_head := (mq_head q + 1) mod IPC_QUEUE_DEPTH\<rparr>"
  have "mq_push m q = Done (True, ?q)" using assms(2) h len by (simp add: mq_push_def)
  moreover have "mq_contents ?q = mq_contents q @ [copy_msg m]"
    using ring_put(1) [OF rok room, of "copy_msg m"] len by (simp add: mq_contents_def)
  moreover have "mq_ok ?q"
    using ring_put(2) [OF rok room, of "copy_msg m"] len assms(1) set_update_subset_insert
    by (fastforce simp: mq_ok_def)
  ultimately show ?thesis by auto
qed

lemma mq_pop_some:
  assumes "mq_ok q" "mq_contents q = m # ms"
  shows "\<exists>q'. mq_pop q = Done (Some m, q') \<and> mq_ok q' \<and> mq_contents q' = ms \<and> mq_lock q' = mq_lock q"
proof -
  have len: "length (mq_msgs q) = 16" and rok: "ring_ok (mq_msgs q) (mq_head q) (mq_tail q)"
    and c: "\<And>m. m \<in> set (mq_msgs q) \<Longrightarrow> copy_msg m = m"
    using assms by (auto simp: mq_ok_def)
  have ne: "\<not> mq_is_empty q" using assms by (simp add: mq_is_empty_iff)
  then have ht: "mq_head q \<noteq> mq_tail q" by (simp add: mq_is_empty_def)
  have t: "mq_tail q < 16" using rok len by (simp add: ring_ok_def)
  let ?q = "q\<lparr>mq_tail := (mq_tail q + 1) mod IPC_QUEUE_DEPTH\<rparr>"
  have "mq_contents q = mq_msgs q ! mq_tail q # mq_contents ?q"
    using ring_get(1) [OF rok ht] len by (simp add: mq_contents_def)
  moreover have "mq_pop q = Done (Some (mq_msgs q ! mq_tail q), ?q)"
    using ne t len c by (simp add: mq_pop_def)
  moreover have "mq_ok ?q" using ring_get(2) [OF rok ht] len assms(1) by (simp add: mq_ok_def)
  ultimately show ?thesis using assms(2) by auto
qed

interpretation mq: bounded_fifo mq_ok mq_contents copy_msg 15 msg_queue_new mq_push mq_pop
proof unfold_locales
  show "mq_ok msg_queue_new" "mq_contents msg_queue_new = []" using mq_new by auto
next
  fix q m assume "mq_ok q" "length (mq_contents q) < 15"
  then show "\<exists>q'. mq_push m q = Done (True, q') \<and> mq_ok q' \<and> mq_contents q' = mq_contents q @ [copy_msg m]"
    using mq_push_room [of q m] by (auto simp: mq_is_full_iff)
next
  fix q m assume "mq_ok q" "15 \<le> length (mq_contents q)"
  then show "mq_push m q = Done (False, q)" by (simp add: mq_push_def mq_is_full_iff)
next
  fix q assume "mq_ok q" "mq_contents q = []"
  then show "mq_pop q = Done (None, q)" by (simp add: mq_pop_def mq_is_empty_iff)
next
  fix q m ms assume "mq_ok q" "mq_contents q = m # ms"
  then show "\<exists>q'. mq_pop q = Done (Some m, q') \<and> mq_ok q' \<and> mq_contents q' = ms"
    using mq_pop_some by blast
qed

section \<open>Properties\<close>

text \<open>
  C20: a message queue is a FIFO of at most 15 messages. Whatever mixture of sends and receives it sees, no operation
  panics, the messages received followed by those still queued are exactly the accepted messages in the order
  they were sent (with the padding words cleared), and a send is refused only when 15 messages wait.
\<close>

theorem ipc_queue_fifo:
  "\<exists>ins outs q. fifo_trace copy_msg mq_push mq_pop es msg_queue_new = Done (ins, outs, q) \<and>
     outs @ mq_contents q = ins \<and> mq_len q = length (mq_contents q) \<and> mq_len q \<le> 15 \<and>
     (mq_push m q = Done (False, q)) = (mq_len q = 15)"
proof -
  from mq.trace_fifo [OF mq.fresh_ok, of es] obtain ins outs q
    where q: "fifo_trace copy_msg mq_push mq_pop es msg_queue_new = Done (ins, outs, q)" "mq_ok q"
      "outs @ mq_contents q = ins" using mq.fresh_contents by auto
  have "length (mq_contents q) < 16"
    using q(2) ring_len_less [of "mq_head q" 16 "mq_tail q"]
    by (simp add: mq_contents_def mq_ok_def ring_ok_def)
  moreover have "(mq_push m q = Done (False, q)) = (15 \<le> length (mq_contents q))"
    using mq.put_room [OF q(2), of m] mq.put_full [OF q(2), of m]
    by (cases "length (mq_contents q) < 15") auto
  ultimately show ?thesis using q mq_len_contents [OF q(2)] by auto
qed

end
