(* ===== verification/Keyboard.thy ===== *)
theory Keyboard
  imports Fifo_Ring "HOL-Library.Sublist"
begin

text \<open>
  The keyboard driver of \<^verbatim>\<open>input.rs\<close>: the translation of scan codes (set 1), the modifier flags, and the ring of
  64 characters that the interrupt handler fills and \<open>kb_pop\<close> of \<^verbatim>\<open>perm.rs\<close> drains. A character is its
  code as a byte (\<open>c as char\<close>); the byte read from port \<open>0x60\<close> is the argument of the handler.
\<close>

section \<open>Scan code tables\<close>

definition SC1_NORM :: "u8 list" where
  "SC1_NORM =
     [0, 0x1B,
      0x31, 0x32, 0x33, 0x34, 0x35, 0x36, 0x37, 0x38, 0x39, 0x30, 0x2D, 0x3D, 0x08,
      0x09,
      0x71, 0x77, 0x65, 0x72, 0x74, 0x79, 0x75, 0x69, 0x6F, 0x70, 0x5B, 0x5D, 0x0A,
      0,
      0x61, 0x73, 0x64, 0x66, 0x67, 0x68, 0x6A, 0x6B, 0x6C, 0x3B, 0x27, 0x60,
      0, 0x5C,
      0x7A, 0x78, 0x63, 0x76, 0x62, 0x6E, 0x6D, 0x2C, 0x2E, 0x2F,
      0, 0x2A, 0, 0x20, 0]"

definition SC1_SHFT :: "u8 list" where
  "SC1_SHFT =
     [0, 0x1B,
      0x21, 0x40, 0x23, 0x24, 0x25, 0x5E, 0x26, 0x2A, 0x28, 0x29, 0x5F, 0x2B, 0x08,
      0x09,
      0x51, 0x57, 0x45, 0x52, 0x54, 0x59, 0x55, 0x49, 0x4F, 0x50, 0x7B, 0x7D, 0x0A,
      0,
      0x41, 0x53, 0x44, 0x46, 0x47, 0x48, 0x4A, 0x4B, 0x4C, 0x3A, 0x22, 0x7E,
      0, 0x7C,
      0x5A, 0x58, 0x43, 0x56, 0x42, 0x4E, 0x4D, 0x3C, 0x3E, 0x3F,
      0, 0x2A, 0, 0x20, 0]"

section \<open>State and ring buffer\<close>

abbreviation KB_BUF :: nat where "KB_BUF \<equiv> 64"

record kbd =
  kb_shift :: bool
  kb_ctrl :: bool
  kb_data :: "u8 list"
  kb_head :: nat
  kb_tail :: nat

definition kbd_boot :: kbd where
  "kbd_boot = \<lparr>kb_shift = False, kb_ctrl = False, kb_data = replicate KB_BUF 0, kb_head = 0, kb_tail = 0\<rparr>"

definition kb_push :: "u8 \<Rightarrow> kbd \<Rightarrow> kbd run" where
  "kb_push c k =
     (let nxt = (kb_head k + 1) mod KB_BUF in
      if nxt \<noteq> kb_tail k
      then bind_run (arr_set (kb_data k) (kb_head k) c) (\<lambda>d. Done (k\<lparr>kb_data := d, kb_head := nxt\<rparr>))
      else Done k)"

definition input_poll :: "kbd \<Rightarrow> (u8 option \<times> kbd) run" where
  "input_poll k =
     (if kb_head k = kb_tail k then Done (None, k)
      else bind_run (arr_get (kb_data k) (kb_tail k)) (\<lambda>c.
        Done (Some c, k\<lparr>kb_tail := (kb_tail k + 1) mod KB_BUF\<rparr>)))"

definition input_push :: "u8 \<Rightarrow> kbd \<Rightarrow> kbd run" where
  "input_push c k = kb_push c k"

definition kb_pop :: "kbd \<Rightarrow> (u8 option \<times> kbd) run" where
  "kb_pop k = input_poll k"

section \<open>The interrupt handler\<close>

definition kbd_irq :: "u8 \<Rightarrow> kbd \<Rightarrow> kbd run" where
  "kbd_irq sc k =
     (if sc = 0x2A \<or> sc = 0x36 then Done (k\<lparr>kb_shift := True\<rparr>)
      else if sc = 0xAA \<or> sc = 0xB6 then Done (k\<lparr>kb_shift := False\<rparr>)
      else if sc = 0x1D then Done (k\<lparr>kb_ctrl := True\<rparr>)
      else if sc = 0x9D then Done (k\<lparr>kb_ctrl := False\<rparr>)
      else if sc AND 0x80 \<noteq> 0 then Done k
      else if unat sc \<ge> length SC1_NORM then Done k
      else bind_run (arr_get (if kb_shift k then SC1_SHFT else SC1_NORM) (unat sc)) (\<lambda>base.
        if kb_ctrl k \<and> base \<ge> 0x61 \<and> base \<le> 0x7A then kb_push (base - 0x61 + 1) k
        else if kb_ctrl k \<and> base \<ge> 0x41 \<and> base \<le> 0x5A then kb_push (base - 0x41 + 1) k
        else if base \<noteq> 0 then kb_push base k
        else Done k))"

section \<open>The ring provides the contract\<close>

definition kb_contents :: "kbd \<Rightarrow> u8 list" where
  "kb_contents k = ring_contents (kb_data k) (kb_head k) (kb_tail k)"

definition kb_ok :: "kbd \<Rightarrow> bool" where
  "kb_ok k \<longleftrightarrow> length (kb_data k) = KB_BUF \<and> ring_ok (kb_data k) (kb_head k) (kb_tail k)"

text \<open>\<open>kb_push\<close> with the answer the contract asks for: whether the character was stored.\<close>

definition kb_put :: "u8 \<Rightarrow> kbd \<Rightarrow> (bool \<times> kbd) run" where
  "kb_put c k = bind_run (kb_push c k) (\<lambda>k'. Done ((kb_head k + 1) mod KB_BUF \<noteq> kb_tail k, k'))"

lemma kb_boot_ok: "kb_ok kbd_boot \<and> kb_contents kbd_boot = []"
  by (simp add: kb_ok_def kb_contents_def kbd_boot_def ring_ok_def ring_contents_def ring_len_def)

lemma kb_full_iff:
  "kb_ok k \<Longrightarrow> (kb_head k + 1) mod KB_BUF = kb_tail k \<longleftrightarrow> 63 \<le> length (kb_contents k)"
  using ring_full_iff [of "kb_data k" "kb_head k" "kb_tail k"] ring_len_less [of "kb_head k" 64 "kb_tail k"]
  by (auto simp: kb_ok_def kb_contents_def ring_ok_def)

lemma kb_push_room:
  assumes "kb_ok k" "length (kb_contents k) < 63"
  shows "\<exists>k'. kb_push c k = Done k' \<and> kb_ok k' \<and> kb_contents k' = kb_contents k @ [c] \<and>
              kb_shift k' = kb_shift k \<and> kb_ctrl k' = kb_ctrl k"
proof -
  have len: "length (kb_data k) = 64" and rok: "ring_ok (kb_data k) (kb_head k) (kb_tail k)"
    using assms by (auto simp: kb_ok_def)
  have room: "Suc (kb_head k) mod length (kb_data k) \<noteq> kb_tail k"
    using kb_full_iff [OF assms(1)] assms(2) len by simp
  have h: "kb_head k < 64" using rok len by (simp add: ring_ok_def)
  show ?thesis
    using ring_put [OF rok room, of c] room len h by (simp add: kb_push_def kb_ok_def kb_contents_def)
qed

lemma kb_push_full: "kb_ok k \<Longrightarrow> 63 \<le> length (kb_contents k) \<Longrightarrow> kb_push c k = Done k"
  using kb_full_iff [of k] by (simp add: kb_push_def)

lemma kb_push_ok:
  assumes "kb_ok k"
  shows "\<exists>k'. kb_push c k = Done k' \<and> kb_ok k' \<and>
     kb_contents k' = (if length (kb_contents k) < 63 then kb_contents k @ [c] else kb_contents k) \<and>
     kb_shift k' = kb_shift k \<and> kb_ctrl k' = kb_ctrl k"
  using kb_push_room [OF assms] kb_push_full [OF assms] assms
  by (cases "length (kb_contents k) < 63") auto

lemma input_poll_some:
  assumes "kb_ok k" "kb_contents k = c # cs"
  shows "\<exists>k'. input_poll k = Done (Some c, k') \<and> kb_ok k' \<and> kb_contents k' = cs"
proof -
  have len: "length (kb_data k) = 64" and rok: "ring_ok (kb_data k) (kb_head k) (kb_tail k)"
    using assms by (auto simp: kb_ok_def)
  have ht: "kb_head k \<noteq> kb_tail k" using ring_empty [OF rok] assms(2) by (simp add: kb_contents_def)
  have t: "kb_tail k < 64" using rok len by (simp add: ring_ok_def)
  show ?thesis using ring_get [OF rok ht] ht t len assms(2)
    by (simp add: input_poll_def kb_ok_def kb_contents_def)
qed

lemma input_poll_empty: "kb_ok k \<Longrightarrow> kb_contents k = [] \<Longrightarrow> input_poll k = Done (None, k)"
  using ring_empty [of "kb_data k" "kb_head k" "kb_tail k"]
  by (simp add: kb_ok_def kb_contents_def input_poll_def)

interpretation kb: bounded_fifo kb_ok kb_contents id 63 kbd_boot kb_put input_poll
proof unfold_locales
  show "kb_ok kbd_boot" "kb_contents kbd_boot = []" using kb_boot_ok by auto
next
  fix k c assume "kb_ok k" "length (kb_contents k) < 63"
  with kb_push_room [of k c] kb_full_iff [of k]
  show "\<exists>k'. kb_put c k = Done (True, k') \<and> kb_ok k' \<and> kb_contents k' = kb_contents k @ [id c]"
    by (auto simp: kb_put_def)
next
  fix k c assume "kb_ok k" "63 \<le> length (kb_contents k)"
  then show "kb_put c k = Done (False, k)" using kb_full_iff [of k] kb_push_full [of k c] by (simp add: kb_put_def)
next
  fix k assume "kb_ok k" "kb_contents k = []"
  then show "input_poll k = Done (None, k)" by (rule input_poll_empty)
next
  fix k c cs assume "kb_ok k" "kb_contents k = c # cs"
  then show "\<exists>k'. input_poll k = Done (Some c, k') \<and> kb_ok k' \<and> kb_contents k' = cs" by (rule input_poll_some)
qed

section \<open>What a key press produces\<close>

text \<open>The character of a scan code under the modifiers, as a partial function; \<open>None\<close> produces nothing.\<close>

definition key_char :: "bool \<Rightarrow> bool \<Rightarrow> u8 \<Rightarrow> u8 option" where
  "key_char shift ctrl sc =
     (if sc \<in> {0x2A, 0x36, 0x1D} \<or> 59 \<le> sc then None
      else let base = (if shift then SC1_SHFT else SC1_NORM) ! unat sc in
        if base = 0 then None
        else if ctrl \<and> (0x61 \<le> base \<and> base \<le> 0x7A \<or> 0x41 \<le> base \<and> base \<le> 0x5A) then Some (base AND 0x1F)
        else Some base)"

lemma length_tables [simp]: "length SC1_NORM = 59" "length SC1_SHFT = 59"
  by (simp_all add: SC1_NORM_def SC1_SHFT_def)

lemma table_ctrl_codes:
  "\<forall>i < 59. let b = SC1_NORM ! i in 0x61 \<le> b \<and> b \<le> 0x7A \<longrightarrow> b - 0x61 + 1 = b AND 0x1F"
  "\<forall>i < 59. let b = SC1_SHFT ! i in 0x41 \<le> b \<and> b \<le> 0x5A \<longrightarrow> b - 0x41 + 1 = b AND 0x1F"
  "\<forall>i < 59. \<not> (0x41 \<le> SC1_NORM ! i \<and> SC1_NORM ! i \<le> 0x5A)"
  "\<forall>i < 59. \<not> (0x61 \<le> SC1_SHFT ! i \<and> SC1_SHFT ! i \<le> 0x7A)"
  by code_simp+

lemma table_codes:
  assumes "unat sc < 59"
  shows "0x61 \<le> SC1_NORM ! unat sc \<Longrightarrow> SC1_NORM ! unat sc \<le> 0x7A \<Longrightarrow>
      SC1_NORM ! unat sc - 0x61 + 1 = SC1_NORM ! unat sc AND 0x1F"
    and "0x41 \<le> SC1_SHFT ! unat sc \<Longrightarrow> SC1_SHFT ! unat sc \<le> 0x5A \<Longrightarrow>
      SC1_SHFT ! unat sc - 0x41 + 1 = SC1_SHFT ! unat sc AND 0x1F"
    and "\<not> (0x41 \<le> SC1_NORM ! unat sc \<and> SC1_NORM ! unat sc \<le> 0x5A)"
    and "\<not> (0x61 \<le> SC1_SHFT ! unat sc \<and> SC1_SHFT ! unat sc \<le> 0x7A)"
  using assms table_ctrl_codes by (auto simp only: Let_def)

text \<open>The modifier flags after a scan code.\<close>

definition mod_shift :: "u8 \<Rightarrow> bool \<Rightarrow> bool" where
  "mod_shift sc b = (if sc \<in> {0x2A, 0x36} then True else if sc \<in> {0xAA, 0xB6} then False else b)"

definition mod_ctrl :: "u8 \<Rightarrow> bool \<Rightarrow> bool" where
  "mod_ctrl sc b = (if sc = 0x1D then True else if sc = 0x9D then False else b)"

lemma break_code: "sc AND 0x80 \<noteq> (0 :: u8) \<Longrightarrow> 59 \<le> sc"
proof -
  have "\<forall>i \<in> set [0..<59]. (of_nat i :: u8) AND 0x80 = 0" by code_simp
  then have "unat sc < 59 \<Longrightarrow> (of_nat (unat sc) :: u8) AND 0x80 = 0"
    by (auto simp del: of_nat_unat upt_rec_numeral)
  then have "unat sc < 59 \<Longrightarrow> sc AND 0x80 = 0" by simp
  then show "sc AND 0x80 \<noteq> 0 \<Longrightarrow> 59 \<le> sc" by (auto simp: word_le_nat_alt intro: leI)
qed

lemma kbd_irq_plain:
  assumes "sc \<notin> {0x2A, 0x36, 0xAA, 0xB6, 0x1D, 0x9D}"
  shows "kbd_irq sc k = (case key_char (kb_shift k) (kb_ctrl k) sc of None \<Rightarrow> Done k | Some c \<Rightarrow> kb_push c k)"
proof (cases "59 \<le> sc")
  case True
  then have "59 \<le> unat sc" by (simp add: word_le_nat_alt)
  with True assms show ?thesis by (simp add: kbd_irq_def key_char_def)
next
  case False
  then have i: "unat sc < 59" by (simp add: word_le_nat_alt)
  have a: "sc AND 0x80 = 0" using break_code [of sc] False by blast
  show ?thesis
    using table_codes [OF i] i a False assms by (auto simp: kbd_irq_def key_char_def Let_def)
qed

lemma kbd_irq_modifier:
  assumes "sc \<in> {0x2A, 0x36, 0xAA, 0xB6, 0x1D, 0x9D}"
  shows "kbd_irq sc k = Done (k\<lparr>kb_shift := mod_shift sc (kb_shift k), kb_ctrl := mod_ctrl sc (kb_ctrl k)\<rparr>)"
    "key_char s c sc = None"
  using assms by (auto simp: kbd_irq_def mod_shift_def mod_ctrl_def key_char_def)

lemma kbd_irq_effect:
  assumes "kb_ok k"
  shows "\<exists>k'. kbd_irq sc k = Done k' \<and> kb_ok k' \<and>
    kb_shift k' = mod_shift sc (kb_shift k) \<and> kb_ctrl k' = mod_ctrl sc (kb_ctrl k) \<and>
    kb_contents k' = (case key_char (kb_shift k) (kb_ctrl k) sc of
       None \<Rightarrow> kb_contents k
     | Some c \<Rightarrow> if length (kb_contents k) < 63 then kb_contents k @ [c] else kb_contents k)"
proof (cases "sc \<in> {0x2A, 0x36, 0xAA, 0xB6, 0x1D, 0x9D}")
  case True
  from assms show ?thesis
    by (auto simp: kbd_irq_modifier [OF True] kb_ok_def kb_contents_def)
next
  case False
  then have m: "mod_shift sc b = b" "mod_ctrl sc b = b" for b by (auto simp: mod_shift_def mod_ctrl_def)
  show ?thesis
  proof (cases "key_char (kb_shift k) (kb_ctrl k) sc")
    case None
    with assms show ?thesis by (simp add: kbd_irq_plain [OF False] m)
  next
    case (Some c)
    with kb_push_ok [OF assms, of c] show ?thesis by (auto simp: kbd_irq_plain [OF False] m)
  qed
qed

section \<open>Sessions\<close>

text \<open>Interrupts with their scan codes, and reads by the kernel; the result lists the characters read.\<close>

datatype kbd_event = Scan u8 | Read_Char

fun kbd_session :: "kbd_event list \<Rightarrow> kbd \<Rightarrow> (u8 list \<times> kbd) run" where
  "kbd_session [] k = Done ([], k)"
| "kbd_session (Scan sc # es) k = bind_run (kbd_irq sc k) (kbd_session es)"
| "kbd_session (Read_Char # es) k =
     bind_run (kb_pop k) (\<lambda>(c, k1). bind_run (kbd_session es k1) (\<lambda>(cs, k2).
       Done ((case c of None \<Rightarrow> cs | Some c \<Rightarrow> c # cs), k2)))"

text \<open>The text the keystrokes mean, from a state of the modifiers.\<close>

fun typed :: "bool \<Rightarrow> bool \<Rightarrow> kbd_event list \<Rightarrow> u8 list" where
  "typed shift ctrl [] = []"
| "typed shift ctrl (Read_Char # es) = typed shift ctrl es"
| "typed shift ctrl (Scan sc # es) =
     (case key_char shift ctrl sc of None \<Rightarrow> [] | Some c \<Rightarrow> [c]) @ typed (mod_shift sc shift) (mod_ctrl sc ctrl) es"

lemma subseq_prefix_append: "subseq ys zs \<Longrightarrow> subseq (xs @ ys) (xs @ zs)"
  by (simp add: list_emb_append_mono)

lemma keep_or_drop:
  assumes "ys = (case r of None \<Rightarrow> xs | Some c \<Rightarrow> if room then xs @ [c] else xs)"
  shows "subseq (ys @ zs) (xs @ (case r of None \<Rightarrow> [] | Some c \<Rightarrow> [c]) @ zs)"
proof (cases r)
  case None
  with assms show ?thesis by simp
next
  case (Some c)
  have "subseq zs (c # zs)" by (simp add: subseq_Cons')
  then have "subseq (xs @ zs) (xs @ c # zs)" by (rule subseq_prefix_append)
  with assms Some show ?thesis by (cases room) simp_all
qed

lemma kbd_session_text:
  "kb_ok k \<Longrightarrow> \<exists>cs k'. kbd_session es k = Done (cs, k') \<and> kb_ok k' \<and>
     subseq (cs @ kb_contents k') (kb_contents k @ typed (kb_shift k) (kb_ctrl k) es) \<and>
     (length (kb_contents k) + length (typed (kb_shift k) (kb_ctrl k) es) \<le> 63 \<longrightarrow>
        cs @ kb_contents k' = kb_contents k @ typed (kb_shift k) (kb_ctrl k) es)"
proof (induction es arbitrary: k)
  case Nil
  then show ?case by simp
next
  case (Cons e es)
  show ?case
  proof (cases e)
    case (Scan sc)
    from kbd_irq_effect [OF Cons.prems, of sc] obtain k1 where k1: "kbd_irq sc k = Done k1" "kb_ok k1"
      "kb_shift k1 = mod_shift sc (kb_shift k)" "kb_ctrl k1 = mod_ctrl sc (kb_ctrl k)"
      "kb_contents k1 = (case key_char (kb_shift k) (kb_ctrl k) sc of
         None \<Rightarrow> kb_contents k
       | Some c \<Rightarrow> if length (kb_contents k) < 63 then kb_contents k @ [c] else kb_contents k)" by blast
    let ?rest = "typed (kb_shift k1) (kb_ctrl k1) es"
    from Cons.IH [OF k1(2)] obtain cs k' where r: "kbd_session es k1 = Done (cs, k')" "kb_ok k'"
      "subseq (cs @ kb_contents k') (kb_contents k1 @ ?rest)"
      "length (kb_contents k1) + length ?rest \<le> 63 \<longrightarrow> cs @ kb_contents k' = kb_contents k1 @ ?rest" by blast
    let ?new = "case key_char (kb_shift k) (kb_ctrl k) sc of None \<Rightarrow> [] | Some c \<Rightarrow> [c]"
    have t: "typed (kb_shift k) (kb_ctrl k) (e # es) = ?new @ ?rest" by (simp add: Scan k1(3,4))
    have sub: "subseq (kb_contents k1 @ ?rest) (kb_contents k @ typed (kb_shift k) (kb_ctrl k) (e # es))"
      unfolding t by (rule keep_or_drop [OF k1(5)])
    have eq: "length (kb_contents k) + length (typed (kb_shift k) (kb_ctrl k) (e # es)) \<le> 63 \<longrightarrow>
        kb_contents k1 @ ?rest = kb_contents k @ typed (kb_shift k) (kb_ctrl k) (e # es)"
      unfolding t k1(5) by (cases "key_char (kb_shift k) (kb_ctrl k) sc") simp_all
    have len: "length (kb_contents k) + length (typed (kb_shift k) (kb_ctrl k) (e # es)) \<le> 63 \<longrightarrow>
        length (kb_contents k1) + length ?rest \<le> 63"
      using eq by (metis length_append)
    have "kbd_session (e # es) k = Done (cs, k')" using r(1) k1(1) Scan by simp
    with r(2) subseq_order.trans [OF r(3) sub] show ?thesis using r(4) eq len by metis
  next
    case Read_Char
    show ?thesis
    proof (cases "kb_contents k")
      case Nil
      from Cons.IH [OF Cons.prems] show ?thesis
        using Read_Char input_poll_empty [OF Cons.prems Nil] by (auto simp: kb_pop_def)
    next
      case c: (Cons c cs)
      from input_poll_some [OF Cons.prems c] obtain k1 where
        k1: "input_poll k = Done (Some c, k1)" "kb_ok k1" "kb_contents k1 = cs" by blast
      have "kb_shift k1 = kb_shift k" "kb_ctrl k1 = kb_ctrl k"
        using k1(1) by (auto simp: input_poll_def run_simps split: if_splits)
      with Cons.IH [OF k1(2)] k1 c Read_Char show ?thesis by (auto simp: kb_pop_def)
    qed
  qed
qed

section \<open>Properties\<close>

text \<open>
  C40: typing is delivered faithfully. For any interleaving of keyboard interrupts and reads after boot,
  no step panics, and the characters read followed by those still buffered form a subsequence of the text that the keystrokes
  mean under shift and control; while at most 63 characters are typed nothing is dropped.
\<close>

theorem keyboard_text_delivered:
  "\<exists>cs k'. kbd_session es kbd_boot = Done (cs, k') \<and>
     subseq (cs @ kb_contents k') (typed False False es) \<and>
     (length (typed False False es) > 63 \<or> cs @ kb_contents k' = typed False False es)"
proof -
  have "kb_shift kbd_boot = False" "kb_ctrl kbd_boot = False" by (simp_all add: kbd_boot_def)
  with kbd_session_text [of kbd_boot es] kb_boot_ok show ?thesis by fastforce
qed

end
