(* ===== verification/Scheduler.thy ===== *)
theory Scheduler
  imports Debug_Fmt Spin_Lock
begin

text \<open>
  The thread table and the scheduler (\<^verbatim>\<open>threading.rs\<close>), the timer interrupt (\<^verbatim>\<open>perm.rs\<close>) and the direct start of the
  user program (\<^verbatim>\<open>userspace_loader.rs\<close>). The assembly routines a context switch ends in
  (\<open>thread_switch\<close>, \<open>enter_userspace\<close>) are not functions that return: \<open>schedule\<close> reports as a value of type
  \<open>control\<close> where execution continues.
\<close>

section \<open>Thread table\<close>

datatype ts = Run | Ready | Block | Dead

record thread =
  th_wake_tick :: u64
  th_id :: u32
  th_state :: ts
  th_prio :: u8
  th_krsp :: u64
  th_ktop :: u64
  th_utop :: u64
  th_cr3 :: u64
  th_name :: "u8 list"
  th_ticks :: u64
  th_sig_handlers :: "u64 list"
  th_sig_pending :: u64
  th_cwd :: "u8 list"

abbreviation MAX_THREADS :: nat where "MAX_THREADS \<equiv> 64"

definition thread_new :: thread where
  "thread_new = \<lparr>th_wake_tick = 0, th_id = 0, th_state = Dead, th_prio = 10, th_krsp = 0, th_ktop = 0,
                 th_utop = 0, th_cr3 = 0, th_name = replicate 16 0, th_ticks = 0,
                 th_sig_handlers = replicate 32 0, th_sig_pending = 0,
                 th_cwd = (replicate 256 0)[0 := 0x2F]\<rparr>"

definition name_str :: "thread \<Rightarrow> u8 list" where
  "name_str t = takeWhile (\<lambda>b. b \<noteq> 0) (th_name t)"

definition set_name :: "u8 list \<Rightarrow> thread \<Rightarrow> thread" where
  "set_name b t = t\<lparr>th_name := fold (\<lambda>j n. n[j := b ! j]) [0..<min 15 (length b)] (th_name t)\<rparr>"

text \<open>
  The statics the scheduler uses: the thread table, \<open>CUR\<close>, \<open>NTHREADS\<close>, \<open>SCHED_LOCK\<close>, \<open>perm::TICK\<close>,
  \<open>TSS.rsp0\<close>, the processor's \<open>cr3\<close>, and what was sent to the serial port.
\<close>

record sched =
  sc_threads :: "thread list"
  sc_cur :: nat
  sc_nthreads :: u64
  sc_lock :: spinlock
  sc_tick :: u64
  sc_rsp0 :: u64
  sc_cr3 :: u64
  sc_serial :: string

text \<open>
  Values fixed before the scheduler runs: the kernel's page table root, the address of the
  interrupt stack (link time), and the entry point, stack and address space of the loaded user program.
\<close>

record sched_env =
  ev_kp4 :: u64
  ev_irq_stack :: u64
  ev_us_entry :: u64
  ev_us_stack :: u64
  ev_us_cr3 :: u64

definition irq_stack_top :: "sched_env \<Rightarrow> u64" where
  "irq_stack_top e = (ev_irq_stack e + 0x4000) AND NOT 0xF"

definition sched_boot :: sched where
  "sched_boot = \<lparr>sc_threads = replicate MAX_THREADS thread_new, sc_cur = 0, sc_nthreads = 0, sc_lock = spinlock_new,
                 sc_tick = 0, sc_rsp0 = 0, sc_cr3 = 0, sc_serial = ''''\<rparr>"

section \<open>The scheduler\<close>

datatype control = Resume | Switch_To nat u64 | Enter_User u64 u64 u64

definition wake :: "u64 \<Rightarrow> thread \<Rightarrow> thread" where
  "wake tick t =
     (if th_state t = Block \<and> th_wake_tick t \<noteq> 0 \<and> tick \<ge> th_wake_tick t
      then t\<lparr>th_wake_tick := 0, th_state := Ready\<rparr> else t)"

text \<open>\<open>for _ in 0..MAX_THREADS { next = (next + 1) % MAX_THREADS; if Ready { break } }\<close>, with the number of rounds left.\<close>

fun pick_loop :: "thread list \<Rightarrow> nat \<Rightarrow> nat \<Rightarrow> nat" where
  "pick_loop ths 0 nxt = nxt"
| "pick_loop ths (Suc n) nxt =
     (let nxt' = (nxt + 1) mod MAX_THREADS in
      if th_state (ths ! nxt') = Ready then nxt' else pick_loop ths n nxt')"

abbreviation upd_thread :: "nat \<Rightarrow> (thread \<Rightarrow> thread) \<Rightarrow> thread list \<Rightarrow> thread list" where
  "upd_thread i f ths \<equiv> ths[i := f (ths ! i)]"

definition sched_line :: "nat \<Rightarrow> nat \<Rightarrow> u64 \<Rightarrow> string" where
  "sched_line cur nxt krsp =
     ''[SCHED] cur='' @ hex_str (of_nat cur) @ '' next='' @ hex_str (of_nat nxt)
     @ '' new_krsp='' @ hex_str krsp @ [CHR 0x0A]"

text \<open>The table after the choice: the running thread becomes ready, the chosen one runs.\<close>

definition make_current :: "nat \<Rightarrow> nat \<Rightarrow> thread list \<Rightarrow> thread list" where
  "make_current cur nxt ths =
     (let ths1 = (if th_state (ths ! cur) = Run then upd_thread cur (th_state_update (\<lambda>_. Ready)) ths else ths)
      in upd_thread nxt (\<lambda>t. t\<lparr>th_state := Run, th_ticks := th_ticks t + 1\<rparr>) ths1)"

definition schedule :: "sched_env \<Rightarrow> sched \<Rightarrow> (control \<times> sched) run" where
  "schedule e s =
     (if sc_lock s then Done (Resume, s\<lparr>sc_lock := True\<rparr>)
      else let ths = map (wake (sc_tick s)) (sc_threads s); cur = sc_cur s; nxt = pick_loop ths MAX_THREADS cur in
        bind_run (arr_get ths cur) (\<lambda>tc.
          if nxt = cur \<and> th_state tc = Run
          then Done (Resume, s\<lparr>sc_threads := ths, sc_lock := False\<rparr>)
          else let ths' = make_current cur nxt ths; t = ths' ! nxt; user = th_cr3 t \<noteq> 0 \<and> th_cr3 t \<noteq> ev_kp4 e;
                   rsp0 = (if th_cr3 t = ev_kp4 e \<or> th_cr3 t = 0 then th_ktop t else irq_stack_top e);
                   cr3 = (if th_cr3 t \<noteq> 0 \<and> th_cr3 t \<noteq> sc_cr3 s then th_cr3 t else sc_cr3 s);
                   s' = s\<lparr>sc_threads := ths', sc_cur := nxt, sc_lock := False, sc_rsp0 := rsp0, sc_cr3 := cr3,
                          sc_serial := sc_serial s @ sched_line cur nxt (th_krsp t)\<rparr>
               in if user
                  then Done (Enter_User (ev_us_entry e) (ev_us_stack e) (th_cr3 t),
                             s'\<lparr>sc_cr3 := th_cr3 t, sc_serial := sc_serial s' @ ''[SCHED] -> userspace'' @ [CHR 0x0A]\<rparr>)
                  else Done (Switch_To cur (th_krsp t), s')))"

definition thread_yield :: "sched_env \<Rightarrow> sched \<Rightarrow> (control \<times> sched) run" where
  "thread_yield e s = schedule e s"

definition handle_timer :: "sched_env \<Rightarrow> sched \<Rightarrow> (control \<times> sched) run" where
  "handle_timer e s = schedule e (s\<lparr>sc_tick := sc_tick s + 1\<rparr>)"

text \<open>The boot-time choice: \<open>(best, best_prio)\<close> over all slots; \<open>usize::MAX\<close> is \<open>None\<close>.\<close>

fun best_loop :: "thread list \<Rightarrow> nat list \<Rightarrow> nat option \<Rightarrow> u8 \<Rightarrow> nat option" where
  "best_loop ths [] best prio = best"
| "best_loop ths (i # is) best prio =
     (if th_state (ths ! i) = Ready \<and> th_prio (ths ! i) \<le> prio
      then best_loop ths is (Some i) (th_prio (ths ! i)) else best_loop ths is best prio)"

definition jump_to_scheduler :: "sched \<Rightarrow> u64 \<times> sched" where
  "jump_to_scheduler s =
     (let ths = sc_threads s;
          best = (case best_loop ths [0..<MAX_THREADS] None (NOT 0) of None \<Rightarrow> 0 | Some b \<Rightarrow> b);
          ths' = upd_thread best (\<lambda>t. t\<lparr>th_state := Run, th_ticks := th_ticks t + 1\<rparr>) ths; t = ths' ! best
      in (th_krsp t, s\<lparr>sc_threads := ths', sc_cur := best, sc_rsp0 := th_ktop t,
                       sc_cr3 := (if th_cr3 t \<noteq> 0 then th_cr3 t else sc_cr3 s),
                       sc_serial := sc_serial s @ ''[BOOT] -> #'' @ num_str (of_nat best) @ [CHR 0x0A]\<rparr>))"

text \<open>
  \<open>sched_init\<close> after its \<open>spawn_k\<close> returned \<open>tid\<close>, and \<open>run_userspace_direct\<close>, whose result is the control transfer
  it ends with.
\<close>

definition sched_init_from :: "int \<Rightarrow> sched \<Rightarrow> sched" where
  "sched_init_from tid s =
     (if tid \<ge> 0
      then s\<lparr>sc_threads := upd_thread (nat tid) (th_state_update (\<lambda>_. Run)) (sc_threads s), sc_cur := nat tid,
             sc_rsp0 := th_ktop (sc_threads s ! nat tid)\<rparr>
      else s)"

definition run_userspace_direct :: "sched_env \<Rightarrow> bool \<Rightarrow> sched \<Rightarrow> (control \<times> sched) run" where
  "run_userspace_direct e us_ready s =
     (if \<not> us_ready then Panic
      else Done (Enter_User (ev_us_entry e) (ev_us_stack e) (ev_us_cr3 e),
        s\<lparr>sc_threads := upd_thread 2 (\<lambda>t. t\<lparr>th_state := Run, th_cr3 := ev_us_cr3 e, th_ktop := irq_stack_top e,
               th_prio := 5, th_id := 2, th_name := [0x75, 0x73, 0x65, 0x72, 0x73, 0x70, 0x61, 0x63, 0x65, 0]
                                                     @ drop 10 (th_name t)\<rparr>) (sc_threads s),
          sc_cur := 2, sc_rsp0 := irq_stack_top e,
          sc_serial := sc_serial s @ ''[US] run_userspace_direct'' @ [CHR 0x0A]
            @ ''[US] irq_stack_top='' @ hex_str (irq_stack_top e) @ [CHR 0x0A]
            @ ''[US] slot=2 cr3='' @ hex_str (ev_us_cr3 e) @ [CHR 0x0A] @ ''[US] enter_userspace'' @ [CHR 0x0A]\<rparr>))"

text \<open>The part of \<open>sys_exit\<close> that marks the caller; the scheduler runs next.\<close>

definition exit_current :: "sched_env \<Rightarrow> sched \<Rightarrow> (control \<times> sched) run" where
  "exit_current e s =
     bind_run (arr_set (sc_threads s) (sc_cur s) ((sc_threads s ! sc_cur s)\<lparr>th_state := Dead\<rparr>)) (\<lambda>ths.
       schedule e (s\<lparr>sc_threads := ths, sc_nthreads := sc_nthreads s - 1\<rparr>))"

section \<open>The choice\<close>

definition state_of :: "sched \<Rightarrow> nat \<Rightarrow> ts" where
  "state_of s i = th_state (sc_threads s ! i)"

text \<open>The slot \<open>k\<close> places after \<open>cur\<close> in cyclic order.\<close>

definition slot_after :: "nat \<Rightarrow> nat \<Rightarrow> nat" where
  "slot_after cur k = (cur + k) mod MAX_THREADS"

lemma pick_loop_none:
  "\<forall>k. 1 \<le> k \<and> k \<le> n \<longrightarrow> th_state (ths ! slot_after cur k) \<noteq> Ready \<Longrightarrow> pick_loop ths n cur = slot_after cur n \<or> n = 0"
proof (induction n arbitrary: cur)
  case 0
  then show ?case by simp
next
  case (Suc n)
  have sh: "slot_after ((cur + 1) mod 64) k = slot_after cur (Suc k)" for k
    by (simp add: slot_after_def mod_add_left_eq)
  have nr: "th_state (ths ! ((cur + 1) mod 64)) \<noteq> Ready" using Suc.prems [rule_format, of 1] by (simp add: slot_after_def)
  have "\<forall>k. 1 \<le> k \<and> k \<le> n \<longrightarrow> th_state (ths ! slot_after ((cur + 1) mod 64) k) \<noteq> Ready"
    using Suc.prems unfolding sh by simp
  from Suc.IH [OF this] show ?case using nr sh by (cases "n = 0") (auto simp: Let_def slot_after_def)
qed

lemma pick_loop_first:
  assumes "1 \<le> k" "k \<le> n" "th_state (ths ! slot_after cur k) = Ready"
    "\<And>j. 1 \<le> j \<Longrightarrow> j < k \<Longrightarrow> th_state (ths ! slot_after cur j) \<noteq> Ready"
  shows "pick_loop ths n cur = slot_after cur k"
  using assms
proof (induction n arbitrary: cur k)
  case 0
  then show ?case by simp
next
  case (Suc n)
  have sh: "slot_after ((cur + 1) mod 64) k = slot_after cur (Suc k)" for k
    by (simp add: slot_after_def mod_add_left_eq)
  show ?case
  proof (cases "k = 1")
    case True
    with Suc.prems(3) show ?thesis by (simp add: slot_after_def Let_def)
  next
    case False
    then obtain k' where k': "k = Suc k'" "1 \<le> k'" using Suc.prems(1) by (cases k) auto
    have nr: "th_state (ths ! ((cur + 1) mod 64)) \<noteq> Ready"
      using Suc.prems(4) [of 1] False Suc.prems(1) by (simp add: slot_after_def)
    have "pick_loop ths n ((cur + 1) mod 64) = slot_after ((cur + 1) mod 64) k'"
    proof (rule Suc.IH)
      show "1 \<le> k'" "k' \<le> n" using Suc.prems k' by auto
      show "th_state (ths ! slot_after ((cur + 1) mod 64) k') = Ready"
        unfolding sh using Suc.prems(3) k'(1) by simp
      show "th_state (ths ! slot_after ((cur + 1) mod 64) j) \<noteq> Ready" if "1 \<le> j" "j < k'" for j
        unfolding sh using Suc.prems(4) [of "Suc j"] that k'(1) by simp
    qed
    with nr k' sh show ?thesis by (simp add: Let_def)
  qed
qed

lemma slot_after_64 [simp]: "cur < 64 \<Longrightarrow> slot_after cur 64 = cur"
  by (simp add: slot_after_def)

lemma slot_after_less [simp]: "slot_after cur k < 64"
  by (simp add: slot_after_def)

lemma pick_cases:
  assumes "cur < 64"
  obtains (found) k where "1 \<le> k" "k \<le> 64" "pick_loop ths 64 cur = slot_after cur k"
      "th_state (ths ! slot_after cur k) = Ready"
      "\<And>j. 1 \<le> j \<Longrightarrow> j < k \<Longrightarrow> th_state (ths ! slot_after cur j) \<noteq> Ready"
  | (none) "pick_loop ths 64 cur = cur" "\<And>j. 1 \<le> j \<Longrightarrow> j \<le> 64 \<Longrightarrow> th_state (ths ! slot_after cur j) \<noteq> Ready"
proof (cases "\<exists>k. 1 \<le> k \<and> k \<le> 64 \<and> th_state (ths ! slot_after cur k) = Ready")
  case True
  define k where "k = (LEAST k. 1 \<le> k \<and> k \<le> 64 \<and> th_state (ths ! slot_after cur k) = Ready)"
  from LeastI_ex [OF True] have k: "1 \<le> k" "k \<le> 64" "th_state (ths ! slot_after cur k) = Ready"
    unfolding k_def by auto
  have least: "th_state (ths ! slot_after cur j) \<noteq> Ready" if "1 \<le> j" "j < k" for j
    using not_less_Least [of j "\<lambda>k. 1 \<le> k \<and> k \<le> 64 \<and> th_state (ths ! slot_after cur k) = Ready"] that k
    unfolding k_def by auto
  from found [OF k(1,2) pick_loop_first [OF k least] k(3) least] show thesis .
next
  case False
  then have "pick_loop ths 64 cur = cur" using pick_loop_none [of 64 ths cur] assms by auto
  with False none show thesis by blast
qed

section \<open>One call of the scheduler\<close>

definition sched_ok :: "sched \<Rightarrow> bool" where
  "sched_ok s \<longleftrightarrow> length (sc_threads s) = MAX_THREADS \<and> sc_cur s < MAX_THREADS \<and> \<not> sc_lock s"

definition woken :: "sched \<Rightarrow> thread list" where
  "woken s = map (wake (sc_tick s)) (sc_threads s)"

lemma wake_not_Run [simp]: "th_state (wake tick t) = Run \<longleftrightarrow> th_state t = Run"
  by (simp add: wake_def)

lemma wake_Ready: "th_state t = Ready \<Longrightarrow> wake tick t = t"
  by (simp add: wake_def)

lemma make_current_states:
  assumes "length ths = 64" "cur < 64" "nxt < 64" "i < 64"
  shows "th_state (make_current cur nxt ths ! i) =
     (if i = nxt then Run else if i = cur \<and> th_state (ths ! cur) = Run then Ready else th_state (ths ! i))"
    and "length (make_current cur nxt ths) = 64"
  using assms by (auto simp: make_current_def Let_def nth_list_update)

text \<open>Everything about one call, for a table whose lock is free.\<close>

lemma schedule_result:
  assumes "sched_ok s"
  shows "\<exists>c s'. schedule e s = Done (c, s') \<and> sched_ok s' \<and> sc_nthreads s' = sc_nthreads s \<and>
      sc_tick s' = sc_tick s \<and> sc_cur s' = pick_loop (woken s) 64 (sc_cur s) \<and>
      (\<forall>i < 64. state_of s' i =
         (if i = sc_cur s' then Run
          else if i = sc_cur s \<and> state_of s (sc_cur s) = Run then Ready else th_state (woken s ! i))) \<and>
      (c = Resume \<longleftrightarrow> sc_cur s' = sc_cur s \<and> state_of s (sc_cur s) = Run) \<and>
      (\<forall>entry stack cr3. c = Enter_User entry stack cr3 \<longrightarrow> entry = ev_us_entry e \<and> stack = ev_us_stack e \<and>
           cr3 = th_cr3 (sc_threads s' ! sc_cur s') \<and> sc_rsp0 s' = irq_stack_top e)"
proof -
  let ?ths = "woken s" and ?cur = "sc_cur s"
  let ?n = "pick_loop ?ths 64 ?cur"
  have len: "length ?ths = 64" and cur: "?cur < 64" and lk: "sc_lock s = False"
    using assms by (auto simp: sched_ok_def woken_def)
  have n: "?n < 64" using cur by (rule pick_cases [of _ ?ths]) (use cur in auto)
  have st: "th_state (?ths ! ?cur) = Run \<longleftrightarrow> state_of s ?cur = Run"
    using cur assms by (simp add: woken_def state_of_def sched_ok_def)
  have get: "arr_get (map (wake (sc_tick s)) (sc_threads s)) ?cur = Done (?ths ! ?cur)"
    using len cur by (simp add: woken_def)
  note mc = make_current_states [OF len cur n]
  show ?thesis
  proof (cases "?n = ?cur \<and> state_of s ?cur = Run")
    case True
    then have "schedule e s = Done (Resume, s\<lparr>sc_threads := ?ths, sc_lock := False\<rparr>)"
      using lk get st by (simp add: schedule_def Let_def woken_def [symmetric])
    moreover have "state_of s' i = (if i = ?cur then Run else th_state (?ths ! i))"
      if "s' = s\<lparr>sc_threads := ?ths, sc_lock := False\<rparr>" "i < 64" for s' i
      using True st that by (auto simp: state_of_def)
    ultimately show ?thesis using True len cur by (auto simp: sched_ok_def)
  next
    case False
    let ?t = "make_current ?cur ?n ?ths ! ?n"
    have "\<exists>c s'. schedule e s = Done (c, s') \<and> c \<noteq> Resume \<and> sc_threads s' = make_current ?cur ?n ?ths \<and>
        sc_cur s' = ?n \<and> \<not> sc_lock s' \<and> sc_nthreads s' = sc_nthreads s \<and> sc_tick s' = sc_tick s \<and>
        (\<forall>entry stack cr3. c = Enter_User entry stack cr3 \<longrightarrow> entry = ev_us_entry e \<and> stack = ev_us_stack e \<and>
           cr3 = th_cr3 ?t \<and> sc_rsp0 s' = irq_stack_top e)"
      using lk get st False
      by (cases "th_cr3 ?t \<noteq> 0 \<and> th_cr3 ?t \<noteq> ev_kp4 e") (auto simp: schedule_def Let_def woken_def [symmetric])
    then obtain c s' where s': "schedule e s = Done (c, s')" "c \<noteq> Resume"
      "sc_threads s' = make_current ?cur ?n ?ths" "sc_cur s' = ?n" "\<not> sc_lock s'" "sc_nthreads s' = sc_nthreads s"
      "sc_tick s' = sc_tick s"
      "\<forall>entry stack cr3. c = Enter_User entry stack cr3 \<longrightarrow> entry = ev_us_entry e \<and> stack = ev_us_stack e \<and>
           cr3 = th_cr3 ?t \<and> sc_rsp0 s' = irq_stack_top e" by blast
    have "sched_ok s'" using s' n mc(2) cur by (simp add: sched_ok_def)
    moreover have "\<forall>i < 64. state_of s' i =
         (if i = sc_cur s' then Run else if i = ?cur \<and> state_of s ?cur = Run then Ready else th_state (?ths ! i))"
      using s' mc(1) st by (simp add: state_of_def)
    ultimately show ?thesis using s' False by auto
  qed
qed

lemma woken_state: "i < 64 \<Longrightarrow> sched_ok s \<Longrightarrow> th_state (woken s ! i) =
   (if state_of s i = Block \<and> th_wake_tick (sc_threads s ! i) \<noteq> 0 \<and> sc_tick s \<ge> th_wake_tick (sc_threads s ! i)
    then Ready else state_of s i)"
  by (simp add: woken_def state_of_def sched_ok_def wake_def)

lemma woken_Ready: "i < 64 \<Longrightarrow> sched_ok s \<Longrightarrow> state_of s i = Ready \<Longrightarrow> th_state (woken s ! i) = Ready"
  by (simp add: woken_state)

section \<open>Waiting time of a ready thread\<close>

definition dist :: "nat \<Rightarrow> nat \<Rightarrow> nat" where
  "dist cur i = (i + 63 - cur) mod 64 + 1"

lemma dist_bounds: "1 \<le> dist cur i" "dist cur i \<le> 64"
  by (simp_all add: dist_def Suc_leI)

lemma dist_cases: "cur < 64 \<Longrightarrow> i < 64 \<Longrightarrow> dist cur i = (if cur < i then i - cur else i + 64 - cur)"
proof -
  assume b: "cur < 64" "i < 64"
  show ?thesis
  proof (cases "cur < i")
    case True
    then have e: "i + 63 - cur = (i - cur - 1) + 64" using b by simp
    have "(i - cur - 1 + 64) mod 64 = i - cur - 1" using b by (subst mod_add_self2) simp
    with True show ?thesis unfolding dist_def e by simp
  next
    case False
    with b show ?thesis by (simp add: dist_def)
  qed
qed

lemma slot_after_dist: "cur < 64 \<Longrightarrow> i < 64 \<Longrightarrow> slot_after cur (dist cur i) = i"
  by (simp add: slot_after_def dist_cases)

lemma dist_shrinks:
  assumes "cur < 64" "i < 64" "1 \<le> k" "k < dist cur i"
  shows "dist (slot_after cur k) i < dist cur i"
proof -
  note d = dist_cases [OF assms(1,2)] and d' = dist_cases [OF slot_after_less [of cur k] assms(2)]
  show ?thesis
  proof (cases "cur + k < 64")
    case True
    then have "slot_after cur k = cur + k" by (simp add: slot_after_def)
    with assms d show ?thesis unfolding d d' by (cases "cur < i"; simp; arith)
  next
    case False
    then have ge: "i \<le> cur" using assms d by (cases "cur < i") simp_all
    have "k < 64" using assms ge d by simp
    then have "slot_after cur k = cur + k - 64" using False assms(1) by (simp add: slot_after_def mod_if)
    moreover have "cur + k - 64 < i" using assms ge d False by simp
    ultimately show ?thesis using assms ge False unfolding d d' by simp
  qed
qed

lemma schedule_progress:
  assumes "sched_ok s" "i < 64" "state_of s i = Ready" "schedule e s = Done (c, s')" "sc_cur s' \<noteq> i"
  shows "dist (sc_cur s') i < dist (sc_cur s) i"
proof -
  have cur: "sc_cur s < 64" using assms(1) by (simp add: sched_ok_def)
  have nxt: "sc_cur s' = pick_loop (woken s) 64 (sc_cur s)"
    using schedule_result [OF assms(1), of e] assms(4) by auto
  have r: "th_state (woken s ! slot_after (sc_cur s) (dist (sc_cur s) i)) = Ready"
    using woken_Ready [OF assms(2,1,3)] slot_after_dist [OF cur assms(2)] by simp
  from cur show ?thesis
  proof (cases rule: pick_cases [of _ "woken s"])
    case (found k)
    have "\<not> dist (sc_cur s) i < k" using found(5) [OF dist_bounds(1) [of "sc_cur s" i]] r by blast
    moreover have "k \<noteq> dist (sc_cur s) i"
      using found(3) nxt assms(5) slot_after_dist [OF cur assms(2)] by auto
    ultimately have "k < dist (sc_cur s) i" by simp
    from dist_shrinks [OF cur assms(2) found(1) this] show ?thesis using found(3) nxt by simp
  next
    case none
    with r dist_bounds [of "sc_cur s" i] show ?thesis by blast
  qed
qed

section \<open>Steps of the running system\<close>

text \<open>
  What kernel paths do to the table: a timer interrupt or a yield schedules, \<open>sys_exit\<close> marks the caller dead and
  schedules, \<open>sys_sleep\<close> and a blocking \<open>sys_ipc_recv\<close> block the caller and schedule, a message makes a
  blocked thread ready, and a spawn turns a dead slot into a ready one.
\<close>

definition set_state :: "nat \<Rightarrow> ts \<Rightarrow> sched \<Rightarrow> sched" where
  "set_state i st s = s\<lparr>sc_threads := upd_thread i (th_state_update (\<lambda>_. st)) (sc_threads s)\<rparr>"

inductive sched_step :: "sched_env \<Rightarrow> sched \<Rightarrow> sched \<Rightarrow> bool" for e where
  timer: "handle_timer e s = Done (c, s') \<Longrightarrow> sched_step e s s'"
| yields: "thread_yield e s = Done (c, s') \<Longrightarrow> sched_step e s s'"
| exits: "exit_current e s = Done (c, s') \<Longrightarrow> sched_step e s s'"
| sleeps: "thread_yield e (set_state (sc_cur s) Block
      (s\<lparr>sc_threads := upd_thread (sc_cur s) (th_wake_tick_update (\<lambda>_. w)) (sc_threads s)\<rparr>)) = Done (c, s') \<Longrightarrow>
    sched_step e s s'"
| messaged: "i < 64 \<Longrightarrow> state_of s i = Block \<Longrightarrow> sched_step e s (set_state i Ready s)"
| spawned: "i < 64 \<Longrightarrow> state_of s i = Dead \<Longrightarrow> th_state t = Ready \<Longrightarrow>
    sched_step e s (s\<lparr>sc_threads := (sc_threads s)[i := t], sc_nthreads := sc_nthreads s + 1\<rparr>)"

inductive sched_reach :: "sched_env \<Rightarrow> sched \<Rightarrow> sched \<Rightarrow> bool" for e s0 where
  start: "sched_reach e s0 s0"
| step: "sched_reach e s0 s \<Longrightarrow> sched_step e s s' \<Longrightarrow> sched_reach e s0 s'"

lemma state_of_set_state:
  "i < length (sc_threads s) \<Longrightarrow> state_of (set_state i st s) j = (if j = i then st else state_of s j)"
  by (simp add: state_of_def set_state_def nth_list_update)

lemma sched_ok_set_state [simp]: "sched_ok (set_state i st s) = sched_ok s"
  by (simp add: sched_ok_def set_state_def)

lemma set_state_simps [simp]:
  "sc_cur (set_state i st s) = sc_cur s" "sc_lock (set_state i st s) = sc_lock s"
  "sc_tick (set_state i st s) = sc_tick s" "length (sc_threads (set_state i st s)) = length (sc_threads s)"
  by (simp_all add: set_state_def)

lemma sched_boot_ok: "sched_ok sched_boot" "sc_cur sched_boot = 0"
  by (simp_all add: sched_ok_def sched_boot_def spinlock_new_def)

lemma state_of_boot: "i < 64 \<Longrightarrow> state_of sched_boot i = Dead"
  by (simp add: state_of_def sched_boot_def thread_new_def)

text \<open>A slot other than the current one that is marked running is never chosen.\<close>

definition stuck :: "nat \<Rightarrow> sched \<Rightarrow> bool" where
  "stuck i s \<longleftrightarrow> sched_ok s \<and> i < 64 \<and> sc_cur s \<noteq> i \<and> state_of s i = Run"

lemma schedule_stuck:
  assumes "sched_ok s" "i < 64" "sc_cur s \<noteq> i" "state_of s i = Run" "schedule e s = Done (c, s')"
  shows "stuck i s'"
proof -
  from schedule_result [OF assms(1), of e] assms(5) have r: "sched_ok s'"
    "sc_cur s' = pick_loop (woken s) 64 (sc_cur s)"
    "state_of s' i = (if i = sc_cur s' then Run
          else if i = sc_cur s \<and> state_of s (sc_cur s) = Run then Ready else th_state (woken s ! i))"
    using assms(2) by auto
  have w: "th_state (woken s ! i) = Run" using assms(1,2,4) by (simp add: woken_state)
  have "sc_cur s < 64" using assms(1) by (simp add: sched_ok_def)
  then have "sc_cur s' \<noteq> i" unfolding r(2)
    by (cases rule: pick_cases [of _ "woken s"]) (use w assms(3) in auto)
  with r w assms(2,3) show ?thesis by (simp add: stuck_def)
qed

lemma step_stuck:
  assumes "sched_step e s s'" "stuck i s"
  shows "stuck i s'"
proof -
  from assms(2) have s: "sched_ok s" "i < 64" "sc_cur s \<noteq> i" "state_of s i = Run" by (auto simp: stuck_def)
  have len: "length (sc_threads s) = 64" "sc_cur s < 64" using s(1) by (auto simp: sched_ok_def)
  from assms(1) show ?thesis
  proof cases
    case (timer c)
    then show ?thesis
      using schedule_stuck [of "s\<lparr>sc_tick := sc_tick s + 1\<rparr>" i e c s'] s
      by (simp add: handle_timer_def sched_ok_def state_of_def)
  next
    case (yields c)
    then show ?thesis using schedule_stuck s by (simp add: thread_yield_def)
  next
    case (exits c)
    then show ?thesis
      using schedule_stuck [of "s\<lparr>sc_threads := (sc_threads s)[sc_cur s := (sc_threads s ! sc_cur s)\<lparr>th_state := Dead\<rparr>],
          sc_nthreads := sc_nthreads s - 1\<rparr>" i e c s'] s len
      by (simp add: exit_current_def sched_ok_def state_of_def)
  next
    case (sleeps w c)
    then show ?thesis
      using schedule_stuck [of "set_state (sc_cur s) Block
          (s\<lparr>sc_threads := upd_thread (sc_cur s) (th_wake_tick_update (\<lambda>_. w)) (sc_threads s)\<rparr>)" i e c s'] s len
      by (simp add: thread_yield_def sched_ok_def state_of_def set_state_def)
  next
    case (messaged j)
    with s len show ?thesis by (auto simp: stuck_def state_of_set_state)
  next
    case (spawned j t)
    with s len show ?thesis by (auto simp: stuck_def sched_ok_def state_of_def nth_list_update)
  qed
qed

lemma reach_stuck: "sched_reach e s0 s \<Longrightarrow> stuck i s0 \<Longrightarrow> stuck i s"
  by (induction rule: sched_reach.induct) (auto intro: step_stuck)

section \<open>Properties\<close>



text \<open>
  C36: no starvation. Follow the calls of the scheduler, with arbitrary changes of the table between two calls
  as long as the current slot stays the same: a thread that stays ready until it is chosen is chosen by one of the first 64 calls.
\<close>

theorem ready_thread_scheduled:
  assumes "\<forall>n. sched_ok (s n) \<and> schedule e (s n) = Done (c n, r n) \<and> sc_cur (s (Suc n)) = sc_cur (r n)"
    "i < MAX_THREADS" "\<forall>n. (\<forall>m < n. sc_cur (r m) \<noteq> i) \<longrightarrow> state_of (s n) i = Ready"
  shows "\<exists>n < MAX_THREADS. sc_cur (r n) = i"
proof (rule ccontr)
  assume no: "\<not> (\<exists>n < MAX_THREADS. sc_cur (r n) = i)"
  have "dist (sc_cur (s n)) i + n \<le> dist (sc_cur (s 0)) i" if "n \<le> 64" for n
    using that
  proof (induction n)
    case 0
    then show ?case by simp
  next
    case (Suc n)
    then have "state_of (s n) i = Ready" using no assms(3) by (metis Suc_le_lessD less_trans)
    moreover have "sc_cur (r n) \<noteq> i" using no Suc.prems by auto
    ultimately have "dist (sc_cur (r n)) i < dist (sc_cur (s n)) i"
      using schedule_progress assms(1,2) by blast
    with Suc assms(1) show ?case by simp
  qed
  from this [of 64] dist_bounds [of "sc_cur (s 0)" i] dist_bounds [of "sc_cur (s 64)" i] show False by simp
qed

text \<open>The scheduler's idle slot and a second thread that always sleep-yields, as a concrete run.\<close>

definition demo_env :: sched_env where
  "demo_env = \<lparr>ev_kp4 = 4096, ev_irq_stack = 8192, ev_us_entry = 0x400000, ev_us_stack = 64, ev_us_cr3 = 0x5000\<rparr>"

definition result_of :: "sched_env \<Rightarrow> sched \<Rightarrow> control \<times> sched" where
  "result_of e s = (case schedule e s of Done x \<Rightarrow> x | _ \<Rightarrow> (Resume, s))"

primrec demo_run :: "nat \<Rightarrow> sched" where
  "demo_run 0 = set_state 1 Ready (set_state 0 Run sched_boot)"
| "demo_run (Suc n) = snd (result_of demo_env (demo_run n))"

lemma demo_run_ok: "sched_ok (demo_run n)"
proof (induction n)
  case 0
  show ?case by (simp add: sched_boot_ok)
next
  case (Suc n)
  from schedule_result [OF Suc, of demo_env] show ?case by (auto simp: result_of_def)
qed

lemma demo_run_done:
  "schedule demo_env (demo_run n) = Done (fst (result_of demo_env (demo_run n)), demo_run (Suc n))"
  using schedule_result [OF demo_run_ok [of n], of demo_env] by (auto simp: result_of_def)

lemma demo_run_ready: "(\<forall>m < n. sc_cur (demo_run (Suc m)) \<noteq> 1) \<Longrightarrow> state_of (demo_run n) 1 = Ready"
proof (induction n)
  case 0
  have l: "length (sc_threads sched_boot) = 64" using sched_boot_ok by (simp add: sched_ok_def)
  then show ?case by (simp add: state_of_set_state)
next
  case (Suc n)
  then have r: "state_of (demo_run n) 1 = Ready" and ne: "sc_cur (demo_run (Suc n)) \<noteq> 1" by auto
  from schedule_result [OF demo_run_ok [of n], of demo_env] demo_run_done [of n]
  have "state_of (demo_run (Suc n)) 1 = (if 1 = sc_cur (demo_run n) \<and> state_of (demo_run n) (sc_cur (demo_run n)) = Run
      then Ready else th_state (woken (demo_run n) ! 1))" using ne by auto
  with woken_Ready [OF _ demo_run_ok r] show ?case by simp
qed

theorem ready_thread_scheduled_witness: "\<exists>n < 64. sc_cur (demo_run (Suc n)) = 1"
  by (rule ready_thread_scheduled
      [of demo_run demo_env "\<lambda>n. fst (result_of demo_env (demo_run n))" "\<lambda>n. demo_run (Suc n)" 1])
    (use demo_run_ok demo_run_done demo_run_ready in auto)

text \<open>
  After the direct start of the user program the idle thread is lost. \<open>run_userspace_direct\<close> makes slot 2
  current but leaves the idle thread, which \<open>sched_init\<close> made current, in state \<open>Run\<close>: in every state
  reachable from there, by any sequence of timer interrupts, yields, exits, sleeps, messages and spawns, slot 0 is
  still marked running and is never the current thread.
\<close>

theorem idle_thread_lost:
  assumes "sched_ok s0" "run_userspace_direct e True (sched_init_from 0 s0) = Done (c, s1)"
    "sched_reach e s1 s"
  shows "sc_cur s \<noteq> 0 \<and> state_of s 0 = Run"
proof -
  have "stuck 0 s1" using assms(1,2)
    by (auto simp: run_userspace_direct_def sched_init_from_def stuck_def sched_ok_def state_of_def)
  from reach_stuck [OF assms(3) this] show ?thesis by (simp add: stuck_def)
qed

theorem idle_thread_lost_witness:
  "\<exists>c s1 s2. run_userspace_direct demo_env True (sched_init_from 0 sched_boot) = Done (c, s1) \<and>
     handle_timer demo_env s1 = Done s2 \<and> sc_cur (snd s2) \<noteq> 0 \<and> state_of (snd s2) 0 = Run"
proof -
  obtain c s1 where r: "run_userspace_direct demo_env True (sched_init_from 0 sched_boot) = Done (c, s1)"
    by (auto simp: run_userspace_direct_def)
  then have "sched_ok (s1\<lparr>sc_tick := sc_tick s1 + 1\<rparr>)"
    by (auto simp: run_userspace_direct_def sched_init_from_def sched_ok_def sched_boot_def spinlock_new_def)
  from schedule_result [OF this, of demo_env] obtain c' s2 where t: "handle_timer demo_env s1 = Done (c', s2)"
    by (auto simp: handle_timer_def)
  from idle_thread_lost [OF sched_boot_ok(1) r sched_reach.step [OF sched_reach.start sched_step.timer [OF t]]] r t
  show ?thesis by auto
qed

end
