(* ===== verification/Page_Source.thy ===== *)
theory Page_Source
  imports Kernel_Prelude
begin

text \<open>
  The contract of an allocator of unit-size blocks, as the code that maps pages relies on it: allocation takes any
  available page out, panics when there is none, and release puts a page back.
\<close>

fun grab :: "('s \<Rightarrow> ('p \<times> 's) run) \<Rightarrow> nat \<Rightarrow> 's \<Rightarrow> ('p list \<times> 's) run" where
  "grab get 0 s = Done ([], s)"
| "grab get (Suc n) s = bind_run (get s) (\<lambda>(p, s1). bind_run (grab get n s1) (\<lambda>(ps, s2). Done (p # ps, s2)))"

fun give_back :: "('p \<Rightarrow> 's \<Rightarrow> 's run) \<Rightarrow> 'p list \<Rightarrow> 's \<Rightarrow> 's run" where
  "give_back put [] s = Done s"
| "give_back put (p # ps) s = bind_run (put p s) (give_back put ps)"

locale page_source =
  fixes ok :: "'s \<Rightarrow> bool"
    and pages :: "'s \<Rightarrow> 'p set"
    and avail :: "'s \<Rightarrow> 'p set"
    and get :: "'s \<Rightarrow> ('p \<times> 's) run"
    and put :: "'p \<Rightarrow> 's \<Rightarrow> 's run"
  assumes finite_avail: "ok s \<Longrightarrow> finite (avail s)" and avail_pages: "ok s \<Longrightarrow> avail s \<subseteq> pages s"
    and get_some: "ok s \<Longrightarrow> avail s \<noteq> {} \<Longrightarrow>
          \<exists>p s'. get s = Done (p, s') \<and> p \<in> avail s \<and> avail s' = avail s - {p} \<and> pages s' = pages s \<and> ok s'"
    and get_none: "ok s \<Longrightarrow> avail s = {} \<Longrightarrow> get s = Panic"
    and put_page: "ok s \<Longrightarrow> p \<in> pages s \<Longrightarrow>
          \<exists>s'. put p s = Done s' \<and> avail s' = insert p (avail s) \<and> pages s' = pages s \<and> ok s'"
begin

lemma grab_enough:
  "ok s \<Longrightarrow> n \<le> card (avail s) \<Longrightarrow>
   \<exists>ps s'. grab get n s = Done (ps, s') \<and> length ps = n \<and> distinct ps \<and> set ps \<subseteq> avail s \<and>
     avail s' = avail s - set ps \<and> pages s' = pages s \<and> ok s'"
proof (induction n arbitrary: s)
  case 0
  then show ?case by simp
next
  case (Suc n)
  then have "avail s \<noteq> {}" by auto
  from get_some [OF Suc.prems(1) this] obtain p s1
    where p: "get s = Done (p, s1)" "p \<in> avail s" "avail s1 = avail s - {p}" "pages s1 = pages s" "ok s1" by blast
  have "n \<le> card (avail s1)"
    using Suc.prems p finite_avail [OF Suc.prems(1)] by (simp add: card_Diff_singleton)
  from Suc.IH [OF p(5) this] obtain ps s2 where ps: "grab get n s1 = Done (ps, s2)" "length ps = n" "distinct ps"
    "set ps \<subseteq> avail s1" "avail s2 = avail s1 - set ps" "pages s2 = pages s1" "ok s2" by blast
  show ?case
    by (rule exI [of _ "p # ps"], rule exI [of _ s2]) (use p ps in auto)
qed

lemma grab_too_many: "ok s \<Longrightarrow> card (avail s) < n \<Longrightarrow> grab get n s = Panic"
proof (induction n arbitrary: s)
  case 0
  then show ?case by simp
next
  case (Suc n)
  show ?case
  proof (cases "avail s = {}")
    case True
    with get_none Suc.prems show ?thesis by simp
  next
    case False
    from get_some [OF Suc.prems(1) this] obtain p s1
      where p: "get s = Done (p, s1)" "p \<in> avail s" "avail s1 = avail s - {p}" "ok s1" by blast
    have "0 < card (avail s)" using False finite_avail [OF Suc.prems(1)] by (simp add: card_gt_0_iff)
    then have "card (avail s1) < n"
      using Suc.prems p finite_avail [OF Suc.prems(1)] by (simp add: card_Diff_singleton)
    with Suc.IH [OF p(4)] p(1) show ?thesis by simp
  qed
qed

lemma give_back_all:
  "ok s \<Longrightarrow> set ps \<subseteq> pages s \<Longrightarrow>
   \<exists>s'. give_back put ps s = Done s' \<and> avail s' = avail s \<union> set ps \<and> pages s' = pages s \<and> ok s'"
proof (induction ps arbitrary: s)
  case Nil
  then show ?case by simp
next
  case (Cons p ps)
  from put_page [OF Cons.prems(1), of p] Cons.prems(2) obtain s1
    where s1: "put p s = Done s1" "avail s1 = insert p (avail s)" "pages s1 = pages s" "ok s1" by auto
  from Cons.IH [OF s1(4)] Cons.prems(2) s1 show ?case by auto
qed

lemma grab_give_back:
  assumes "ok s" "n \<le> card (avail s)"
  shows "\<exists>ps s1 s2. grab get n s = Done (ps, s1) \<and> give_back put ps s1 = Done s2 \<and> avail s2 = avail s"
proof -
  from grab_enough [OF assms] obtain ps s1 where g: "grab get n s = Done (ps, s1)" "set ps \<subseteq> avail s"
    "avail s1 = avail s - set ps" "pages s1 = pages s" "ok s1" by blast
  moreover from this have "set ps \<subseteq> pages s1" using avail_pages [OF assms(1)] by auto
  ultimately show ?thesis using give_back_all [of s1 ps] by auto
qed

end

end
