(* ===== verification/Pmm.thy ===== *)
theory Pmm
  imports Debug_Fmt Spin_Lock Page_Source
begin

text \<open>
  The physical memory manager (\<^verbatim>\<open>mm/pmm.rs\<close>) and the frame reference counts (\<^verbatim>\<open>mm/frame.rs\<close>): a bitmap with one bit
  per 4 KB frame, a search hint, an atomic count of free frames, and one 16-bit counter per frame. The two modules
  call each other, so they share a theory. The bitmap refines the set of free frames.
\<close>

section \<open>State\<close>

definition PAGE_SIZE :: u64 where "PAGE_SIZE = 0x1000"
definition HUGE_SIZE :: u64 where "HUGE_SIZE = 0x200000"
abbreviation MAX_FRAMES :: nat where "MAX_FRAMES \<equiv> 65536"
abbreviation BM_WORDS :: nat where "BM_WORDS \<equiv> 1024"

text \<open>
  The bitmap and the counters are arrays of 1024 and 65536 entries, indexed only below these sizes; the model has a
  function for each. \<open>pm_mem\<close> is physical memory, one 64-bit word per 8-byte aligned address (the kernel
  reaches physical memory through an identity mapping).
\<close>

record pmm =
  pm_lock :: spinlock
  pm_base :: u64
  pm_size :: u64
  pm_bm :: "nat \<Rightarrow> u64"
  pm_hint :: nat
  pm_free :: u64
  pm_refs :: "nat \<Rightarrow> u16"
  pm_mem :: "u64 \<Rightarrow> u64"

definition pm_total :: "pmm \<Rightarrow> nat" where
  "pm_total m = unat (pm_size m div PAGE_SIZE)"

section \<open>Helpers\<close>

definition fi :: "pmm \<Rightarrow> u64 \<Rightarrow> nat" where
  "fi m p = unat ((p - pm_base m) div PAGE_SIZE)"

definition fp :: "pmm \<Rightarrow> nat \<Rightarrow> u64" where
  "fp m i = pm_base m + of_nat i * PAGE_SIZE"

definition is_free :: "pmm \<Rightarrow> nat \<Rightarrow> bool" where
  "is_free m i \<longleftrightarrow> pm_bm m (i div 64) AND bit_at (i mod 64) = 0"

definition mark_used :: "nat \<Rightarrow> pmm \<Rightarrow> pmm" where
  "mark_used i m =
     (if is_free m i
      then m\<lparr>pm_bm := (pm_bm m)(i div 64 := pm_bm m (i div 64) OR bit_at (i mod 64)), pm_free := pm_free m - 1\<rparr>
      else m)"

definition mark_free :: "nat \<Rightarrow> pmm \<Rightarrow> pmm" where
  "mark_free i m =
     (if \<not> is_free m i
      then m\<lparr>pm_bm := (pm_bm m)(i div 64 := pm_bm m (i div 64) AND NOT (bit_at (i mod 64))), pm_free := pm_free m + 1,
             pm_hint := (if i div 64 < pm_hint m then i div 64 else pm_hint m)\<rparr>
      else m)"

section \<open>Reference counts\<close>

definition frame_ref :: "pmm \<Rightarrow> u64 \<Rightarrow> u16" where
  "frame_ref m phys = (if fi m phys \<ge> MAX_FRAMES then 0 else pm_refs m (fi m phys))"

definition frame_init :: "u64 \<Rightarrow> pmm \<Rightarrow> pmm" where
  "frame_init phys m = (if fi m phys \<ge> MAX_FRAMES then m else m\<lparr>pm_refs := (pm_refs m)(fi m phys := 1)\<rparr>)"

text \<open>\<open>fetch_add(1)\<close> wraps to 0 at the maximum and is then overwritten with the maximum.\<close>

definition frame_inc :: "u64 \<Rightarrow> pmm \<Rightarrow> pmm" where
  "frame_inc phys m =
     (let i = fi m phys in
      if i \<ge> MAX_FRAMES then m
      else let prev = pm_refs m i; m' = m\<lparr>pm_refs := (pm_refs m)(i := prev + 1)\<rparr> in
        if prev = 0xFFFF then m'\<lparr>pm_refs := (pm_refs m')(i := 0xFFFF)\<rparr> else m')"

definition frame_shared :: "pmm \<Rightarrow> u64 \<Rightarrow> bool" where
  "frame_shared m phys \<longleftrightarrow> frame_ref m phys > 1"

section \<open>Initialisation\<close>

definition saturating_sub :: "nat \<Rightarrow> nat \<Rightarrow> nat" where
  "saturating_sub a b = a - b"

definition mm_init :: "u64 \<Rightarrow> u64 \<Rightarrow> pmm \<Rightarrow> pmm" where
  "mm_init base sz m =
     (let m1 = m\<lparr>pm_base := base, pm_size := sz, pm_bm := (\<lambda>_. 0)\<rparr>;
          m2 = mark_used 0 m1;
          total = unat (sz div PAGE_SIZE);
          m3 = m2\<lparr>pm_free := of_nat (saturating_sub total 1), pm_hint := 0\<rparr>
      in fold (\<lambda>i m. frame_init (fp m i) m) [1..<min total MAX_FRAMES] m3)"

section \<open>Allocation\<close>

text \<open>The inner loop over the bits of a word, and the loops over words of both passes.\<close>

definition scan_bits :: "pmm \<Rightarrow> nat \<Rightarrow> nat option" where
  "scan_bits m w =
     List.find (\<lambda>idx. \<not> idx \<ge> MAX_FRAMES \<and> \<not> idx \<ge> pm_total m \<and> is_free m idx) (map (\<lambda>b. w * 64 + b) [0..<64])"

fun scan_words :: "pmm \<Rightarrow> nat list \<Rightarrow> nat option" where
  "scan_words m [] = None"
| "scan_words m (w # ws) =
     (if pm_bm m w = NOT 0 then scan_words m ws
      else case scan_bits m w of Some idx \<Rightarrow> Some idx | None \<Rightarrow> scan_words m ws)"

definition mm_alloc_nolock :: "pmm \<Rightarrow> (u64 \<times> pmm) run" where
  "mm_alloc_nolock m =
     (case scan_words m ([pm_hint m..<BM_WORDS] @ [0..<pm_hint m]) of
        Some idx \<Rightarrow> let m' = (mark_used idx m)\<lparr>pm_hint := idx div 64\<rparr>
                    in Done (fp m' idx, frame_init (fp m' idx) m')
      | None \<Rightarrow> Panic)"

definition mm_alloc :: "pmm \<Rightarrow> (u64 \<times> pmm) run" where
  "mm_alloc m =
     bind_run (lock (pm_lock m)) (\<lambda>l.
     bind_run (mm_alloc_nolock (m\<lparr>pm_lock := l\<rparr>)) (\<lambda>(p, m').
       Done (p, m'\<lparr>pm_lock := unlock (pm_lock m')\<rparr>)))"

text \<open>\<open>write_bytes(p, 0, PAGE_SIZE)\<close> on the word-addressed memory.\<close>

definition zero_page :: "u64 \<Rightarrow> pmm \<Rightarrow> pmm" where
  "zero_page p m = m\<lparr>pm_mem := (\<lambda>a. if a - p < PAGE_SIZE then 0 else pm_mem m a)\<rparr>"

definition mm_alloc_zeroed :: "pmm \<Rightarrow> (u64 \<times> pmm) run" where
  "mm_alloc_zeroed m = bind_run (mm_alloc m) (\<lambda>(p, m'). Done (p, if p \<noteq> 0 then zero_page p m' else m'))"

definition take_run :: "nat \<Rightarrow> pmm \<Rightarrow> pmm" where
  "take_run i m = fold (\<lambda>j m. frame_init (fp m (i + j)) (mark_used (i + j) m)) [0..<512] m"

text \<open>The search for 512 free frames, from frame \<open>i\<close> on.\<close>

function huge_scan :: "pmm \<Rightarrow> nat \<Rightarrow> nat option" where
  "huge_scan m i =
     (if i + 512 \<le> min (pm_total m) MAX_FRAMES
      then if i mod 512 \<noteq> 0 then huge_scan m ((i + 511) div 512 * 512)
           else if \<forall>w \<in> set [0..<8]. pm_bm m (i div 64 + w) = 0 then Some i
           else huge_scan m (i + 512)
      else None)"
  by pat_completeness simp
termination
proof (relation "measure (\<lambda>(m, i). 65537 - i)", goal_cases)
  case 1
  show ?case by simp
next
  case (2 m i)
  have "i \<le> (i + 511) div 512 * 512"
    using div_mult_mod_eq [of "i + 511" 512] mod_less_divisor [of 512 "i + 511"] by linarith
  moreover have "i \<noteq> (i + 511) div 512 * 512" using 2(2) by (metis mod_mult_self2_is_0)
  ultimately have "i < (i + 511) div 512 * 512" by linarith
  moreover have "i < 65537" using 2(1) by simp
  ultimately show ?case by (simp only: in_measure prod.case diff_less_mono2)
next
  case (3 m i)
  have "i < i + 512" "i < 65537" using 3(1) by simp_all
  then show ?case by (simp only: in_measure prod.case diff_less_mono2)
qed

declare huge_scan.simps [simp del]

definition mm_alloc_huge :: "pmm \<Rightarrow> (u64 \<times> pmm) run" where
  "mm_alloc_huge m =
     bind_run (lock (pm_lock m)) (\<lambda>l.
       let m1 = m\<lparr>pm_lock := l\<rparr> in
       case huge_scan m1 512 of
         Some i \<Rightarrow> let m2 = take_run i m1 in Done (fp m2 i, m2\<lparr>pm_lock := unlock (pm_lock m2)\<rparr>)
       | None \<Rightarrow> Done (0, m1\<lparr>pm_lock := unlock (pm_lock m1)\<rparr>))"

section \<open>Release\<close>

definition mm_free_nolock :: "u64 \<Rightarrow> pmm \<Rightarrow> pmm" where
  "mm_free_nolock p m =
     (if p < pm_base m then m
      else let i = fi m p in if i \<ge> MAX_FRAMES \<or> i \<ge> pm_total m then m else mark_free i m)"

definition mm_free_phys :: "u64 \<Rightarrow> pmm \<Rightarrow> pmm run" where
  "mm_free_phys p m =
     bind_run (lock (pm_lock m)) (\<lambda>l.
       let m' = mm_free_nolock p (m\<lparr>pm_lock := l\<rparr>) in Done (m'\<lparr>pm_lock := unlock (pm_lock m')\<rparr>))"

definition mm_free_huge :: "u64 \<Rightarrow> pmm \<Rightarrow> pmm run" where
  "mm_free_huge p m =
     (if p mod HUGE_SIZE \<noteq> 0 then Done m
      else bind_run (lock (pm_lock m)) (\<lambda>l.
        let m' = fold (\<lambda>j. mm_free_nolock (p + of_nat j * PAGE_SIZE)) [0..<512] (m\<lparr>pm_lock := l\<rparr>)
        in Done (m'\<lparr>pm_lock := unlock (pm_lock m')\<rparr>)))"

text \<open>\<open>frame_dec\<close>: whether the frame was freed. It takes the manager's lock to free.\<close>

definition frame_dec :: "u64 \<Rightarrow> pmm \<Rightarrow> (bool \<times> pmm) run" where
  "frame_dec phys m =
     (let i = fi m phys in
      if i \<ge> MAX_FRAMES then Done (False, m)
      else if pm_refs m i = 0xFFFF then Done (False, m)
      else let prev = pm_refs m i; m' = m\<lparr>pm_refs := (pm_refs m)(i := prev - 1)\<rparr> in
        if prev = 1 then bind_run (mm_free_phys phys m') (\<lambda>m''. Done (True, m''))
        else Done (False, m'))"

definition copy_page :: "u64 \<Rightarrow> u64 \<Rightarrow> pmm \<Rightarrow> pmm" where
  "copy_page src dst m = m\<lparr>pm_mem := (\<lambda>a. if a - dst < PAGE_SIZE then pm_mem m (src + (a - dst)) else pm_mem m a)\<rparr>"

definition frame_cow_copy :: "u64 \<Rightarrow> pmm \<Rightarrow> (u64 \<times> pmm) run" where
  "frame_cow_copy old_phys m =
     bind_run (mm_alloc m) (\<lambda>(new_phys, m1).
       if new_phys = 0 then Done (0, m1)
       else bind_run (frame_dec old_phys (frame_init new_phys (copy_page old_phys new_phys m1))) (\<lambda>(_, m2).
         Done (new_phys, m2)))"

definition frame_cow_inplace :: "u64 \<Rightarrow> u64" where
  "frame_cow_inplace phys = phys"

section \<open>Statistics\<close>

definition mm_free_kb :: "pmm \<Rightarrow> u64" where
  "mm_free_kb m = pm_free m * PAGE_SIZE div 1024"

definition mm_used_kb :: "pmm \<Rightarrow> u64" where
  "mm_used_kb m =
     (let total = pm_size m div PAGE_SIZE in (if pm_free m \<le> total then total - pm_free m else 0) * PAGE_SIZE div 1024)"

definition mm_total_kb :: "pmm \<Rightarrow> u64" where
  "mm_total_kb m = pm_size m div PAGE_SIZE * PAGE_SIZE div 1024"

definition mm_free_pages :: "pmm \<Rightarrow> u64" where
  "mm_free_pages m = pm_free m"

text \<open>
  The report, as the text on the serial port and the text on the screen: \<open>pnum_serial\<close> sends a zero to the serial port but
  writes the digits of any other number with \<open>putc_raw\<close>, which is the screen.
\<close>

definition pnum_out :: "u64 \<Rightarrow> string \<times> string" where
  "pnum_out v = (if v = 0 then (''0'', []) else ([], pnum_serial v))"

definition mm_dump_stats :: "pmm \<Rightarrow> string \<times> string" where
  "mm_dump_stats m =
     (let f = pnum_out (mm_free_kb m); u = pnum_out (mm_used_kb m); t = pnum_out (mm_total_kb m) in
      (''[PMM] free='' @ fst f @ '' KB used='' @ fst u @ '' KB total='' @ fst t @ '' KB'' @ [CHR 0x0A],
       snd f @ snd u @ snd t))"

section \<open>The set of free frames\<close>

definition managed :: "pmm \<Rightarrow> nat set" where
  "managed m = {..<min (pm_total m) MAX_FRAMES}"

definition free_set :: "pmm \<Rightarrow> nat set" where
  "free_set m = {i \<in> managed m. is_free m i}"

text \<open>
  The hint is a word index, the count of free frames is right, and the managed frames have addresses that do not wrap around.
\<close>

definition pmm_inv :: "pmm \<Rightarrow> bool" where
  "pmm_inv m \<longleftrightarrow> pm_hint m < BM_WORDS \<and> pm_total m \<le> MAX_FRAMES \<and> unat (pm_free m) = card (free_set m) \<and>
                unat (pm_base m) + pm_total m * 4096 \<le> 2 ^ 64"

lemma finite_managed [simp]: "finite (managed m)" "finite (free_set m)"
  by (simp_all add: managed_def free_set_def)

lemma is_free_bit: "is_free m i \<longleftrightarrow> \<not> bit (pm_bm m (i div 64)) (i mod 64)"
  using has_any_bit_at [of "pm_bm m (i div 64)" "i mod 64"] unfolding is_free_def has_any_def by blast

lemma div_mod_64_eq: "i div 64 = j div 64 \<Longrightarrow> i mod 64 = j mod 64 \<Longrightarrow> i = (j :: nat)"
  by (metis div_mult_mod_eq)

lemma is_free_mark_used: "is_free (mark_used i m) j \<longleftrightarrow> j \<noteq> i \<and> is_free m j"
  by (auto simp: mark_used_def is_free_bit bit_or_iff dest: div_mod_64_eq)

lemma is_free_mark_free: "is_free (mark_free i m) j \<longleftrightarrow> j = i \<or> is_free m j"
  by (auto simp: mark_free_def is_free_bit bit_and_iff bit_not_iff dest: div_mod_64_eq)

lemma mark_simps [simp]:
  "pm_lock (mark_used i m) = pm_lock m" "pm_lock (mark_free i m) = pm_lock m"
  "pm_base (mark_used i m) = pm_base m" "pm_base (mark_free i m) = pm_base m"
  "pm_size (mark_used i m) = pm_size m" "pm_size (mark_free i m) = pm_size m"
  "pm_refs (mark_used i m) = pm_refs m" "pm_refs (mark_free i m) = pm_refs m"
  "pm_mem (mark_used i m) = pm_mem m" "pm_mem (mark_free i m) = pm_mem m"
  "pm_hint (mark_used i m) = pm_hint m"
  by (simp_all add: mark_used_def mark_free_def)

lemma frame_init_simps [simp]:
  "pm_lock (frame_init p m) = pm_lock m" "pm_base (frame_init p m) = pm_base m"
  "pm_size (frame_init p m) = pm_size m" "pm_bm (frame_init p m) = pm_bm m"
  "pm_hint (frame_init p m) = pm_hint m" "pm_free (frame_init p m) = pm_free m"
  "pm_mem (frame_init p m) = pm_mem m" "is_free (frame_init p m) i = is_free m i"
  by (simp_all add: frame_init_def is_free_def)

lemma pm_total_simps [simp]:
  "pm_total (mark_used i m) = pm_total m" "pm_total (mark_free i m) = pm_total m"
  "pm_total (frame_init p m) = pm_total m" "pm_total (m\<lparr>pm_lock := l\<rparr>) = pm_total m"
  "pm_total (m\<lparr>pm_hint := h\<rparr>) = pm_total m" "pm_total (m\<lparr>pm_refs := r\<rparr>) = pm_total m"
  "pm_total (m\<lparr>pm_mem := x\<rparr>) = pm_total m"
  by (simp_all add: pm_total_def)

lemma free_set_simps [simp]:
  "free_set (mark_used i m) = free_set m - {i}"
  "free_set (frame_init p m) = free_set m" "free_set (m\<lparr>pm_lock := l\<rparr>) = free_set m"
  "free_set (m\<lparr>pm_hint := h\<rparr>) = free_set m" "free_set (m\<lparr>pm_refs := r\<rparr>) = free_set m"
  "free_set (m\<lparr>pm_mem := x\<rparr>) = free_set m"
  by (auto simp: free_set_def managed_def is_free_mark_used) (auto simp: is_free_def)

lemma free_set_mark_free: "i \<in> managed m \<Longrightarrow> free_set (mark_free i m) = insert i (free_set m)"
  by (auto simp: free_set_def managed_def is_free_mark_free)

lemma card_free_less: "card (free_set m) \<le> 65536"
  using card_mono [of "{..<65536}" "free_set m"] by (auto simp: free_set_def managed_def)

lemma mark_used_inv: "pmm_inv m \<Longrightarrow> i \<in> managed m \<Longrightarrow> pmm_inv (mark_used i m)"
proof -
  assume inv: "pmm_inv m" and i: "i \<in> managed m"
  show ?thesis
  proof (cases "is_free m i")
    case True
    then have "i \<in> free_set m" using i by (simp add: free_set_def)
    then have c: "card (free_set m) = Suc (card (free_set m - {i}))"
      by (simp only: card_Suc_Diff1 finite_managed)
    with inv have "unat (pm_free m) = Suc (card (free_set m - {i}))" by (simp add: pmm_inv_def)
    then have "unat (pm_free m - 1) = card (free_set m - {i})"
      using unat_minus_one [of "pm_free m"] by (cases "pm_free m = 0") simp_all
    moreover have "pm_free (mark_used i m) = pm_free m - 1" using True by (simp add: mark_used_def)
    ultimately show ?thesis using inv by (simp add: pmm_inv_def)
  next
    case False
    then have "mark_used i m = m" by (simp add: mark_used_def)
    with inv show ?thesis by simp
  qed
qed

lemma mark_free_inv: "pmm_inv m \<Longrightarrow> i \<in> managed m \<Longrightarrow> pmm_inv (mark_free i m)"
proof -
  assume inv: "pmm_inv m" and i: "i \<in> managed m"
  show ?thesis
  proof (cases "is_free m i")
    case True
    then have "mark_free i m = m" by (simp add: mark_free_def)
    with inv show ?thesis by simp
  next
    case False
    then have n: "i \<notin> free_set m" by (simp add: free_set_def)
    have "unat (pm_free m + 1) = Suc (card (free_set m))"
      using inv card_free_less [of m] by (simp add: pmm_inv_def unat_word_ariths)
    moreover have "pm_free (mark_free i m) = pm_free m + 1" "pm_hint (mark_free i m) \<le> pm_hint m"
      using False by (simp_all add: mark_free_def)
    ultimately show ?thesis using inv n i by (simp add: pmm_inv_def free_set_mark_free)
  qed
qed

lemma pmm_inv_simps [simp]:
  "pmm_inv (frame_init p m) = pmm_inv m" "pmm_inv (m\<lparr>pm_lock := l\<rparr>) = pmm_inv m"
  "pmm_inv (m\<lparr>pm_refs := r\<rparr>) = pmm_inv m" "pmm_inv (m\<lparr>pm_mem := x\<rparr>) = pmm_inv m"
  by (simp_all add: pmm_inv_def)

section \<open>Addresses of frames\<close>

lemma unat_PAGE_SIZE [simp]: "unat PAGE_SIZE = 4096"
  by (simp add: PAGE_SIZE_def)

lemma fi_fp: "i < 2 ^ 52 \<Longrightarrow> fi m (fp m i) = i"
proof -
  assume "i < 2 ^ 52"
  then have "unat (of_nat i * PAGE_SIZE) = i * 4096"
    by (simp add: unat_word_ariths unat_of_nat PAGE_SIZE_def)
  then show ?thesis by (simp add: fi_def fp_def unat_div)
qed

lemma fi_fp_managed: "pmm_inv m \<Longrightarrow> i < pm_total m \<Longrightarrow> fi m (fp m i) = i"
  by (rule fi_fp) (simp add: pmm_inv_def)

lemma unat_fp: "pmm_inv m \<Longrightarrow> i < pm_total m \<Longrightarrow> unat (fp m i) = unat (pm_base m) + i * 4096"
proof -
  assume "pmm_inv m" "i < pm_total m"
  then have i: "i < 65536" and b: "unat (pm_base m) + i * 4096 < 2 ^ 64" by (auto simp: pmm_inv_def)
  have "unat (of_nat i * PAGE_SIZE) = i * 4096"
    using i by (simp add: unat_word_ariths unat_of_nat PAGE_SIZE_def)
  with b show ?thesis by (simp add: fp_def unat_word_ariths)
qed

lemma fp_inj: "pmm_inv m \<Longrightarrow> i < pm_total m \<Longrightarrow> j < pm_total m \<Longrightarrow> fp m i = fp m j \<longleftrightarrow> i = j"
  by (metis fi_fp_managed)

lemma fp_simps [simp]:
  "fp (mark_used i m) = fp m" "fp (mark_free i m) = fp m" "fp (frame_init p m) = fp m"
  "fp (m\<lparr>pm_lock := l\<rparr>) = fp m" "fp (m\<lparr>pm_hint := h\<rparr>) = fp m" "fp (m\<lparr>pm_refs := r\<rparr>) = fp m"
  "fp (m\<lparr>pm_mem := x\<rparr>) = fp m"
  by (auto simp: fp_def)

lemma fi_simps [simp]:
  "fi (mark_used i m) = fi m" "fi (mark_free i m) = fi m" "fi (frame_init p m) = fi m"
  "fi (m\<lparr>pm_lock := l\<rparr>) = fi m" "fi (m\<lparr>pm_hint := h\<rparr>) = fi m" "fi (m\<lparr>pm_refs := r\<rparr>) = fi m"
  "fi (m\<lparr>pm_mem := x\<rparr>) = fi m"
  by (auto simp: fi_def)

section \<open>Allocation takes a free frame\<close>

lemma find_SomeD: "List.find P xs = Some x \<Longrightarrow> x \<in> set xs \<and> P x"
  by (induction xs) (auto split: if_splits)

lemma scan_bits_Some: "scan_bits m w = Some i \<Longrightarrow> i \<in> free_set m \<and> i div 64 = w"
  by (auto simp: scan_bits_def free_set_def managed_def dest!: find_SomeD)

lemma scan_bits_None: "scan_bits m w = None \<Longrightarrow> i div 64 = w \<Longrightarrow> i \<notin> free_set m"
proof -
  assume n: "scan_bits m w = None" and i: "i div 64 = w"
  have "i = w * 64 + i mod 64" using i div_mult_mod_eq [of i 64] by simp
  then have "i \<in> (\<lambda>b. w * 64 + b) ` {0..<64}" by (intro image_eqI [of _ _ "i mod 64"]) simp_all
  with n show ?thesis by (auto simp: scan_bits_def find_None_iff free_set_def managed_def)
qed

lemma full_word: "pm_bm m w = - 1 \<Longrightarrow> i div 64 = w \<Longrightarrow> i \<notin> free_set m"
  by (auto simp: free_set_def is_free_bit bit_not_iff)

lemma scan_words_Some: "scan_words m ws = Some i \<Longrightarrow> i \<in> free_set m \<and> i div 64 \<in> set ws"
  by (induction ws) (auto split: if_splits option.splits dest: scan_bits_Some)

lemma scan_words_None: "scan_words m ws = None \<Longrightarrow> i div 64 \<in> set ws \<Longrightarrow> i \<notin> free_set m"
  by (induction ws) (auto split: if_splits option.splits dest: scan_bits_None full_word)

lemma free_word: "i \<in> free_set m \<Longrightarrow> i div 64 < 1024"
  by (auto simp: free_set_def managed_def)

lemma free_managed: "i \<in> free_set m \<Longrightarrow> i \<in> managed m" "i \<in> free_set m \<Longrightarrow> i < pm_total m"
  by (auto simp: free_set_def managed_def)

definition frame_taken :: "nat \<Rightarrow> pmm \<Rightarrow> pmm \<Rightarrow> bool" where
  "frame_taken i m m' \<longleftrightarrow>
     i \<in> free_set m \<and> free_set m' = free_set m - {i} \<and> pm_refs m' = (pm_refs m)(i := 1) \<and> pmm_inv m' \<and>
     pm_lock m' = pm_lock m \<and> pm_base m' = pm_base m \<and> pm_size m' = pm_size m \<and> pm_mem m' = pm_mem m"

lemma frame_taken_simps:
  assumes "frame_taken i m m'"
  shows "pm_total m' = pm_total m" "fp m' = fp m" "fi m' = fi m" "managed m' = managed m"
proof -
  have e: "pm_base m' = pm_base m" "pm_size m' = pm_size m" using assms by (simp_all add: frame_taken_def)
  then show t: "pm_total m' = pm_total m" by (simp add: pm_total_def)
  from e show "fp m' = fp m" "fi m' = fi m" by (simp_all add: fun_eq_iff fp_def fi_def)
  from t show "managed m' = managed m" by (simp add: managed_def)
qed

lemma mm_alloc_nolock_result:
  assumes inv: "pmm_inv m"
  shows "(free_set m = {} \<and> mm_alloc_nolock m = Panic) \<or>
         (\<exists>i m'. mm_alloc_nolock m = Done (fp m i, m') \<and> frame_taken i m m')"
proof (cases "scan_words m ([pm_hint m..<BM_WORDS] @ [0..<pm_hint m])")
  case None
  have "i \<notin> free_set m" for i
  proof
    assume i: "i \<in> free_set m"
    then have "i div 64 \<in> set ([pm_hint m..<BM_WORDS] @ [0..<pm_hint m])" using free_word [OF i] by auto
    from scan_words_None [OF None this] i show False by blast
  qed
  with None show ?thesis by (auto simp: mm_alloc_nolock_def)
next
  case (Some i)
  from scan_words_Some [OF Some] have i: "i \<in> free_set m" by blast
  let ?m = "frame_init (fp m i) ((mark_used i m)\<lparr>pm_hint := i div 64\<rparr>)"
  have "mm_alloc_nolock m = Done (fp m i, ?m)" using Some by (simp add: mm_alloc_nolock_def Let_def)
  moreover have "pmm_inv ?m"
    using mark_used_inv [OF inv free_managed(1) [OF i]] free_word [OF i] by (simp add: pmm_inv_def)
  moreover have "i < 65536" using i by (auto simp: free_set_def managed_def)
  ultimately show ?thesis using i fi_fp_managed [OF inv free_managed(2) [OF i]]
    by (intro disjI2 exI [of _ i] exI [of _ ?m]) (simp add: frame_taken_def frame_init_def)
qed

lemma mm_alloc_locked: "pm_lock m \<Longrightarrow> mm_alloc m = Hang"
  by (simp add: mm_alloc_def)

lemma pmm_lock_same [simp]: "\<not> pm_lock m \<Longrightarrow> m\<lparr>pm_lock := False\<rparr> = m"
  by simp

lemma mm_alloc_result:
  assumes "pmm_inv m" "\<not> pm_lock m"
  shows "(free_set m = {} \<and> mm_alloc m = Panic) \<or>
         (\<exists>i m'. mm_alloc m = Done (fp m i, m') \<and> frame_taken i m m')"
proof -
  have l: "lock (pm_lock m) = Done True" using assms(2) by simp
  have "pmm_inv (m\<lparr>pm_lock := True\<rparr>)" using assms(1) by simp
  from mm_alloc_nolock_result [OF this] show ?thesis
  proof (elim disjE exE conjE)
    assume "free_set (m\<lparr>pm_lock := True\<rparr>) = {}" "mm_alloc_nolock (m\<lparr>pm_lock := True\<rparr>) = Panic"
    with l show ?thesis by (simp add: mm_alloc_def)
  next
    fix i m' assume a: "mm_alloc_nolock (m\<lparr>pm_lock := True\<rparr>) = Done (fp (m\<lparr>pm_lock := True\<rparr>) i, m')"
      and t: "frame_taken i (m\<lparr>pm_lock := True\<rparr>) m'"
    from a l have "mm_alloc m = Done (fp m i, m'\<lparr>pm_lock := False\<rparr>)" by (simp add: mm_alloc_def)
    moreover have "frame_taken i m (m'\<lparr>pm_lock := False\<rparr>)" using t assms(2) by (simp add: frame_taken_def)
    ultimately show ?thesis by blast
  qed
qed

section \<open>Release\<close>

lemma mm_free_nolock_frame:
  assumes "pmm_inv m" "i \<in> managed m"
  shows "mm_free_nolock (fp m i) m = mark_free i m"
proof -
  have i: "i < pm_total m" "i < 65536" using assms(2) by (auto simp: managed_def)
  have "\<not> fp m i < pm_base m" using unat_fp [OF assms(1) i(1)] by (simp add: word_less_nat_alt)
  with i fi_fp_managed [OF assms(1) i(1)] show ?thesis by (simp add: mm_free_nolock_def Let_def)
qed

lemma mm_free_nolock_cases:
  "mm_free_nolock p m = m \<or> (fi m p \<in> managed m \<and> mm_free_nolock p m = mark_free (fi m p) m)"
  by (auto simp: mm_free_nolock_def Let_def managed_def)

lemma mm_free_nolock_inv: "pmm_inv m \<Longrightarrow> pmm_inv (mm_free_nolock p m)"
  using mm_free_nolock_cases [of p m] mark_free_inv [of m "fi m p"] by auto

lemma mm_free_nolock_simps [simp]:
  "pm_lock (mm_free_nolock p m) = pm_lock m" "pm_base (mm_free_nolock p m) = pm_base m"
  "pm_size (mm_free_nolock p m) = pm_size m" "pm_refs (mm_free_nolock p m) = pm_refs m"
  "pm_mem (mm_free_nolock p m) = pm_mem m"
  using mm_free_nolock_cases [of p m] by auto

lemma mm_free_phys_result:
  "\<not> pm_lock m \<Longrightarrow> mm_free_phys p m = Done (mm_free_nolock p m)"
proof -
  assume l: "\<not> pm_lock m"
  have "(mm_free_nolock p (m\<lparr>pm_lock := True\<rparr>))\<lparr>pm_lock := False\<rparr> = mm_free_nolock p m"
    using l by (auto simp: mm_free_nolock_def mark_free_def is_free_def pm_total_def fi_def Let_def)
  with l show ?thesis by (simp add: mm_free_phys_def Let_def)
qed

lemma mm_free_phys_locked: "pm_lock m \<Longrightarrow> mm_free_phys p m = Hang"
  by (simp add: mm_free_phys_def)

lemma managed_simps [simp]:
  "managed (mark_free i m) = managed m" "managed (mark_used i m) = managed m"
  "managed (m\<lparr>pm_lock := l\<rparr>) = managed m"
  by (simp_all add: managed_def)

section \<open>The manager provides the page contract\<close>

definition frame_pages :: "pmm \<Rightarrow> u64 set" where
  "frame_pages m = fp m ` managed m"

definition frame_avail :: "pmm \<Rightarrow> u64 set" where
  "frame_avail m = fp m ` free_set m"

definition pmm_idle :: "pmm \<Rightarrow> bool" where
  "pmm_idle m \<longleftrightarrow> pmm_inv m \<and> \<not> pm_lock m"

definition free_nolock :: "u64 \<Rightarrow> pmm \<Rightarrow> pmm run" where
  "free_nolock p m = Done (mm_free_nolock p m)"

lemma frame_taken_avail:
  assumes "pmm_inv m" "frame_taken i m m'"
  shows "fp m i \<in> frame_avail m" "frame_avail m' = frame_avail m - {fp m i}" "frame_pages m' = frame_pages m"
proof -
  have i: "i \<in> free_set m" and f: "free_set m' = free_set m - {i}" using assms(2) by (auto simp: frame_taken_def)
  have "inj_on (fp m) (free_set m)"
    by (rule inj_onI) (use fp_inj [OF assms(1)] free_managed(2) in blast)
  then show "frame_avail m' = frame_avail m - {fp m i}"
    using i f frame_taken_simps(2) [OF assms(2)]
    by (simp add: frame_avail_def inj_on_image_set_diff [of _ "free_set m"])
  show "fp m i \<in> frame_avail m" using i by (simp add: frame_avail_def)
  show "frame_pages m' = frame_pages m" using frame_taken_simps [OF assms(2)] by (simp add: frame_pages_def)
qed

lemma free_frame_avail:
  assumes "pmm_inv m" "p \<in> frame_pages m"
  shows "frame_avail (mm_free_nolock p m) = insert p (frame_avail m)"
    "frame_pages (mm_free_nolock p m) = frame_pages m" "pmm_inv (mm_free_nolock p m)"
proof -
  from assms(2) obtain i where i: "p = fp m i" "i \<in> managed m" by (auto simp: frame_pages_def)
  show "frame_avail (mm_free_nolock p m) = insert p (frame_avail m)"
    "frame_pages (mm_free_nolock p m) = frame_pages m"
    using i by (simp_all add: mm_free_nolock_frame [OF assms(1) i(2)] frame_avail_def frame_pages_def free_set_mark_free)
  show "pmm_inv (mm_free_nolock p m)" using assms(1) by (rule mm_free_nolock_inv)
qed

lemma frame_avail_subset: "frame_avail m \<subseteq> frame_pages m" "finite (frame_avail m)"
  by (auto simp: frame_avail_def frame_pages_def free_set_def)

lemma card_frame_avail: "pmm_inv m \<Longrightarrow> card (frame_avail m) = card (free_set m)"
  unfolding frame_avail_def
  by (rule card_image) (metis inj_onI fp_inj free_managed(2))

interpretation raw: page_source pmm_inv frame_pages frame_avail mm_alloc_nolock free_nolock
proof unfold_locales
  fix m assume m: "pmm_inv m"
  show "finite (frame_avail m)" "frame_avail m \<subseteq> frame_pages m" by (rule frame_avail_subset)+
  show "frame_avail m \<noteq> {} \<Longrightarrow> \<exists>p m'. mm_alloc_nolock m = Done (p, m') \<and> p \<in> frame_avail m \<and>
      frame_avail m' = frame_avail m - {p} \<and> frame_pages m' = frame_pages m \<and> pmm_inv m'"
    using mm_alloc_nolock_result [OF m] frame_taken_avail [OF m]
    by (auto simp: frame_avail_def frame_taken_def)
  show "frame_avail m = {} \<Longrightarrow> mm_alloc_nolock m = Panic"
    using mm_alloc_nolock_result [OF m] by (auto simp: frame_avail_def frame_taken_def)
  show "p \<in> frame_pages m \<Longrightarrow> \<exists>m'. free_nolock p m = Done m' \<and> frame_avail m' = insert p (frame_avail m) \<and>
      frame_pages m' = frame_pages m \<and> pmm_inv m'" for p
    using free_frame_avail [OF m] by (simp add: free_nolock_def)
qed

interpretation pool: page_source pmm_idle frame_pages frame_avail mm_alloc mm_free_phys
proof unfold_locales
  fix m assume m: "pmm_idle m"
  then have inv: "pmm_inv m" and l: "\<not> pm_lock m" by (auto simp: pmm_idle_def)
  show "finite (frame_avail m)" "frame_avail m \<subseteq> frame_pages m" by (rule frame_avail_subset)+
  show "frame_avail m \<noteq> {} \<Longrightarrow> \<exists>p m'. mm_alloc m = Done (p, m') \<and> p \<in> frame_avail m \<and>
      frame_avail m' = frame_avail m - {p} \<and> frame_pages m' = frame_pages m \<and> pmm_idle m'"
    using mm_alloc_result [OF inv l] frame_taken_avail [OF inv] l
    by (auto simp: frame_avail_def frame_taken_def pmm_idle_def)
  show "frame_avail m = {} \<Longrightarrow> mm_alloc m = Panic"
    using mm_alloc_result [OF inv l] by (auto simp: frame_avail_def frame_taken_def)
  show "p \<in> frame_pages m \<Longrightarrow> \<exists>m'. mm_free_phys p m = Done m' \<and> frame_avail m' = insert p (frame_avail m) \<and>
      frame_pages m' = frame_pages m \<and> pmm_idle m'" for p
    using free_frame_avail [OF inv] mm_free_phys_result [OF l] l by (simp add: pmm_idle_def)
qed

section \<open>Initial state\<close>

lemma fold_frame_init [simp]:
  "free_set (fold (\<lambda>i m. frame_init (fp m i) m) is m) = free_set m"
  "pm_lock (fold (\<lambda>i m. frame_init (fp m i) m) is m) = pm_lock m"
  "pm_hint (fold (\<lambda>i m. frame_init (fp m i) m) is m) = pm_hint m"
  "pm_free (fold (\<lambda>i m. frame_init (fp m i) m) is m) = pm_free m"
  "pm_base (fold (\<lambda>i m. frame_init (fp m i) m) is m) = pm_base m"
  "pm_size (fold (\<lambda>i m. frame_init (fp m i) m) is m) = pm_size m"
  "pm_total (fold (\<lambda>i m. frame_init (fp m i) m) is m) = pm_total m"
  by (induction "is" arbitrary: m) simp_all

lemma mm_init_state:
  assumes "unat (sz div PAGE_SIZE) \<le> MAX_FRAMES" "0 < unat (sz div PAGE_SIZE)"
    "unat base + unat (sz div PAGE_SIZE) * 4096 \<le> 2 ^ 64" "\<not> pm_lock m"
  shows "free_set (mm_init base sz m) = {1..<unat (sz div PAGE_SIZE)}" "pmm_idle (mm_init base sz m)"
    "pm_base (mm_init base sz m) = base" "pm_total (mm_init base sz m) = unat (sz div PAGE_SIZE)"
proof -
  let ?t = "unat (sz div PAGE_SIZE)"
  let ?m1 = "m\<lparr>pm_base := base, pm_size := sz, pm_bm := (\<lambda>_. 0)\<rparr>"
  let ?m3 = "(mark_used 0 ?m1)\<lparr>pm_free := of_nat (?t - 1), pm_hint := 0\<rparr>"
  have mi: "mm_init base sz m = fold (\<lambda>i m. frame_init (fp m i) m) [1..<min ?t MAX_FRAMES] ?m3"
    by (simp add: mm_init_def Let_def saturating_sub_def)
  have "is_free ?m1 i" for i by (simp add: is_free_bit)
  then have m1: "free_set ?m1 = {..<?t}" using assms(1) by (auto simp: free_set_def managed_def pm_total_def)
  have "free_set ?m3 = free_set (mark_used 0 ?m1)" by (simp add: free_set_def managed_def pm_total_def is_free_def)
  also have "\<dots> = {..<?t} - {0}" by (simp only: free_set_simps m1)
  also have "\<dots> = {1..<?t}" by auto
  finally have m3: "free_set ?m3 = {1..<?t}" .
  show f: "free_set (mm_init base sz m) = {1..<?t}" unfolding mi fold_frame_init by (rule m3)
  have t3: "pm_total ?m3 = ?t" by (simp add: pm_total_def)
  show "pm_base (mm_init base sz m) = base" unfolding mi by simp
  show t: "pm_total (mm_init base sz m) = ?t" unfolding mi using t3 by simp
  have "unat (pm_free (mm_init base sz m)) = ?t - 1" unfolding mi using assms(1) by (simp add: unat_of_nat)
  with assms f t show "pmm_idle (mm_init base sz m)"
    unfolding pmm_idle_def pmm_inv_def by (simp add: mi)
qed

text \<open>The kernel's own call, \<open>mm_init(0x0100_0000, 0x0F00_0000)\<close>.\<close>

definition pmm_boot :: pmm where
  "pmm_boot = mm_init 0x1000000 0xF000000
     \<lparr>pm_lock = spinlock_new, pm_base = 0, pm_size = 0, pm_bm = (\<lambda>_. 0), pm_hint = 0, pm_free = 0,
      pm_refs = (\<lambda>_. 0), pm_mem = (\<lambda>_. 0)\<rparr>"

lemma pmm_boot_state:
  "pmm_idle pmm_boot" "free_set pmm_boot = {1..<61440}" "pm_base pmm_boot = 0x1000000" "pm_total pmm_boot = 61440"
proof -
  have t: "unat ((0xF000000 :: u64) div PAGE_SIZE) = 61440" by (simp add: PAGE_SIZE_def)
  let ?m = "\<lparr>pm_lock = spinlock_new, pm_base = 0, pm_size = 0, pm_bm = (\<lambda>_. 0), pm_hint = 0, pm_free = 0,
      pm_refs = (\<lambda>_. 0), pm_mem = (\<lambda>_. 0)\<rparr>"
  have "\<not> pm_lock ?m" by (simp add: spinlock_new_def)
  note i = mm_init_state [of "0xF000000" "0x1000000", OF _ _ _ this, unfolded t]
  show "pmm_idle pmm_boot" "free_set pmm_boot = {1..<61440}" "pm_base pmm_boot = 0x1000000" "pm_total pmm_boot = 61440"
    unfolding pmm_boot_def using i by simp_all
qed

section \<open>Huge pages\<close>

lemma word_zero_free: "pm_bm m w = 0 \<Longrightarrow> i div 64 = w \<Longrightarrow> is_free m i"
  by (auto simp: is_free_bit)

lemma huge_scan_Some:
  "huge_scan m i = Some j \<Longrightarrow> 512 dvd i \<Longrightarrow> i \<le> j \<and> 512 dvd j \<and> j + 512 \<le> min (pm_total m) MAX_FRAMES \<and>
     {j..<j + 512} \<subseteq> free_set m"
proof (induction m i rule: huge_scan.induct)
  case (1 m i)
  show ?case
  proof (cases "\<forall>w \<in> set [0..<8]. pm_bm m (i div 64 + w) = 0")
    case True
    then have w: "\<And>w. w < 8 \<Longrightarrow> pm_bm m (i div 64 + w) = 0" by auto
    from 1(3,4) True have j: "j = i" "i + 512 \<le> min (pm_total m) MAX_FRAMES"
      by (subst (asm) huge_scan.simps, simp split: if_splits)+
    have "k \<in> free_set m" if "k \<in> {i..<i + 512}" for k
    proof -
      obtain q where q: "i = 512 * q" using 1(4) by (auto elim: dvdE)
      have "k div 64 = i div 64 + (k - i) div 64"
      proof -
        have "k = (k - i) + 64 * (8 * q)" using that q by simp
        then have "k div 64 = ((k - i) + 64 * (8 * q)) div 64" by simp
        also have "\<dots> = (k - i) div 64 + 8 * q" by simp
        also have "8 * q = i div 64" using q by simp
        finally show ?thesis by simp
      qed
      moreover have "(k - i) div 64 < 8" using that by auto
      ultimately have "is_free m k" using w word_zero_free by metis
      with that j show ?thesis by (auto simp: free_set_def managed_def)
    qed
    with j 1(4) show ?thesis by auto
  next
    case False
    have lim: "i + 512 \<le> min (pm_total m) MAX_FRAMES" and m: "i mod 512 = 0"
      using 1(3,4) by (subst (asm) huge_scan.simps, simp split: if_splits)+
    then have "huge_scan m (i + 512) = Some j"
      using 1(3) False by (subst (asm) huge_scan.simps, simp split: if_splits)
    from 1(2) [OF lim _ False this] m 1(4) show ?thesis by simp
  qed
qed

lemma take_run_free_set:
  "free_set (take_run i m) = free_set m - {i..<i + 512}" "pm_base (take_run i m) = pm_base m"
  "pm_total (take_run i m) = pm_total m" "pm_lock (take_run i m) = pm_lock m"
proof -
  have "free_set (fold (\<lambda>j m. frame_init (fp m (i + j)) (mark_used (i + j) m)) js m) = free_set m - (\<lambda>j. i + j) ` set js \<and>
      pm_base (fold (\<lambda>j m. frame_init (fp m (i + j)) (mark_used (i + j) m)) js m) = pm_base m \<and>
      pm_total (fold (\<lambda>j m. frame_init (fp m (i + j)) (mark_used (i + j) m)) js m) = pm_total m \<and>
      pm_lock (fold (\<lambda>j m. frame_init (fp m (i + j)) (mark_used (i + j) m)) js m) = pm_lock m" for js
  proof (induction js arbitrary: m)
    case Nil
    show ?case by simp
  next
    case (Cons j js)
    show ?case unfolding fold_simps using Cons by auto
  qed
  from this [of "[0..<512]"] show "free_set (take_run i m) = free_set m - {i..<i + 512}"
    "pm_base (take_run i m) = pm_base m" "pm_total (take_run i m) = pm_total m" "pm_lock (take_run i m) = pm_lock m"
    unfolding take_run_def by (simp_all add: image_add_atLeastLessThan add.commute)
qed

lemma take_run_inv: "pmm_inv m \<Longrightarrow> i + 512 \<le> min (pm_total m) MAX_FRAMES \<Longrightarrow> pmm_inv (take_run i m)"
proof -
  assume m: "pmm_inv m" "i + 512 \<le> min (pm_total m) MAX_FRAMES"
  have "pmm_inv (fold (\<lambda>j m. frame_init (fp m (i + j)) (mark_used (i + j) m)) js m)"
    if "\<forall>j \<in> set js. i + j \<in> managed m" "pmm_inv m" for js m
    using that
  proof (induction js arbitrary: m)
    case Nil
    then show ?case by simp
  next
    case (Cons j js)
    have "pmm_inv (mark_used (i + j) m)" using Cons.prems by (intro mark_used_inv) auto
    moreover have "\<forall>k \<in> set js. i + k \<in> managed (frame_init (fp (mark_used (i + j) m) (i + j)) (mark_used (i + j) m))"
      using Cons.prems by (simp add: managed_def)
    ultimately show ?case unfolding fold_simps by (intro Cons.IH) simp_all
  qed
  with m show ?thesis unfolding take_run_def by (auto simp: managed_def)
qed

section \<open>Properties\<close>

text \<open>
  C3: the physical memory manager hands out distinct frames. From any state with the lock free, \<open>n\<close> calls of \<open>mm_alloc\<close> return
  \<open>n\<close> different free frames and remove exactly these from the free set, or the kernel panics because fewer
  than \<open>n\<close> frames are free; freeing the frames again restores the free set, and the free counter is always the number of free frames.
\<close>

theorem frames_are_distinct:
  assumes "pmm_idle m"
  shows "unat (mm_free_pages m) = card (frame_avail m) \<and>
    (if n \<le> card (frame_avail m)
     then \<exists>ps m1 m2. grab mm_alloc n m = Done (ps, m1) \<and> length ps = n \<and> distinct ps \<and> set ps \<subseteq> frame_avail m \<and>
            frame_avail m1 = frame_avail m - set ps \<and> unat (mm_free_pages m1) = card (frame_avail m) - n \<and>
            give_back mm_free_phys ps m1 = Done m2 \<and> frame_avail m2 = frame_avail m
     else grab mm_alloc n m = Panic)"
proof -
  have count: "unat (mm_free_pages m) = card (frame_avail m)" if "pmm_idle m" for m
    using that card_frame_avail [of m] by (simp add: pmm_idle_def pmm_inv_def mm_free_pages_def)
  show ?thesis
  proof (cases "n \<le> card (frame_avail m)")
    case True
    from pool.grab_enough [OF assms this] obtain ps m1 where g: "grab mm_alloc n m = Done (ps, m1)" "length ps = n"
      "distinct ps" "set ps \<subseteq> frame_avail m" "frame_avail m1 = frame_avail m - set ps" "pmm_idle m1"
      "frame_pages m1 = frame_pages m" by blast
    have "card (frame_avail m - set ps) = card (frame_avail m) - n"
      using g(2-4) by (simp add: card_Diff_subset distinct_card)
    moreover obtain m2 where "give_back mm_free_phys ps m1 = Done m2" "frame_avail m2 = frame_avail m"
      using pool.grab_give_back [OF assms True] g(1) by auto
    ultimately show ?thesis using True g count [OF assms] count [OF g(6)] by auto
  next
    case False
    with pool.grab_too_many [OF assms, of n] count [OF assms] show ?thesis by auto
  qed
qed

theorem frames_are_distinct_witness:
  "\<exists>ps m. grab mm_alloc 61439 pmm_boot = Done (ps, m) \<and> distinct ps \<and> mm_free_pages m = 0"
proof -
  have c: "card (frame_avail pmm_boot) = 61439"
    using card_frame_avail [of pmm_boot] pmm_boot_state by (simp add: pmm_idle_def)
  from frames_are_distinct [OF pmm_boot_state(1), of 61439] c obtain ps m where
    "grab mm_alloc 61439 pmm_boot = Done (ps, m)" "distinct ps" "unat (mm_free_pages m) = 0" by auto
  then show ?thesis by (auto simp: word_unat_eq_iff)
qed

text \<open>
  A huge page is 512 consecutive free frames starting at a multiple of 512 and never among the first 512; taking
  it removes exactly these frames, and when there is no such block the result is 0 and nothing changes. The lock is free
  again in both cases.
\<close>

theorem huge_page_is_contiguous:
  assumes "pmm_idle m"
  shows "(\<exists>i m'. mm_alloc_huge m = Done (fp m i, m') \<and> pmm_idle m' \<and> 512 dvd i \<and> 512 \<le> i \<and>
            {i..<i + 512} \<subseteq> free_set m \<and> free_set m' = free_set m - {i..<i + 512}) \<or>
         mm_alloc_huge m = Done (0, m)"
proof -
  have inv: "pmm_inv m" and l: "\<not> pm_lock m" using assms by (auto simp: pmm_idle_def)
  let ?m = "m\<lparr>pm_lock := True\<rparr>"
  show ?thesis
  proof (cases "huge_scan ?m 512")
    case None
    with l show ?thesis by (simp add: mm_alloc_huge_def Let_def)
  next
    case (Some i)
    from huge_scan_Some [OF Some] have i: "512 \<le> i" "512 dvd i" "i + 512 \<le> min (pm_total m) MAX_FRAMES"
      "{i..<i + 512} \<subseteq> free_set m" by auto
    have "pmm_inv (take_run i ?m)" using inv i(3) by (intro take_run_inv) simp_all
    moreover have "fp (take_run i ?m) = fp m" by (simp add: fun_eq_iff fp_def take_run_free_set)
    ultimately show ?thesis using Some l i
      by (intro disjI1 exI [of _ i] exI [of _ "(take_run i ?m)\<lparr>pm_lock := False\<rparr>"])
        (simp add: mm_alloc_huge_def Let_def pmm_idle_def take_run_free_set)
  qed
qed

theorem huge_page_is_contiguous_witness:
  "\<exists>p m. mm_alloc_huge pmm_boot = Done (p, m) \<and> free_set m \<subseteq> free_set pmm_boot"
  using huge_page_is_contiguous [OF pmm_boot_state(1)] by auto

text \<open>
  The reference count of a frame. For a managed frame, \<open>frame_dec\<close> on a count of 1 frees the frame, on a count from 2 to
  65534 decrements, and never touches the pinned count 65535, which \<open>frame_inc\<close> reaches by saturation. Freeing
  takes the manager's lock: called while that lock is held, the release of the last reference spins for ever.
\<close>

theorem frame_refcount_lifecycle:
  assumes "pmm_inv m" "i \<in> managed m"
  shows "frame_ref (frame_inc (fp m i) m) (fp m i) =
           (if frame_ref m (fp m i) = 0xFFFF then 0xFFFF else frame_ref m (fp m i) + 1) \<and>
         (frame_ref m (fp m i) = 1 \<longrightarrow>
            (if pm_lock m then frame_dec (fp m i) m = Hang
             else \<exists>m'. frame_dec (fp m i) m = Done (True, m') \<and> frame_ref m' (fp m i) = 0 \<and>
                    free_set m' = insert i (free_set m))) \<and>
         (1 < frame_ref m (fp m i) \<and> frame_ref m (fp m i) \<noteq> 0xFFFF \<longrightarrow>
            (\<exists>m'. frame_dec (fp m i) m = Done (False, m') \<and> frame_ref m' (fp m i) = frame_ref m (fp m i) - 1 \<and>
                    free_set m' = free_set m)) \<and>
         (frame_ref m (fp m i) = 0xFFFF \<longrightarrow> frame_dec (fp m i) m = Done (False, m))"
proof -
  have i: "i < pm_total m" "i < 65536" using assms(2) by (auto simp: managed_def)
  note fi = fi_fp_managed [OF assms(1) i(1)]
  have ref: "frame_ref m' (fp m i) = pm_refs m' i" if "fi m' = fi m" for m'
    using i fi that by (simp add: frame_ref_def)
  let ?m = "m\<lparr>pm_refs := (pm_refs m)(i := pm_refs m i - 1)\<rparr>"
  have dec: "frame_dec (fp m i) m =
      (if pm_refs m i = 0xFFFF then Done (False, m)
       else if pm_refs m i = 1 then bind_run (mm_free_phys (fp m i) ?m) (\<lambda>m''. Done (True, m'')) else Done (False, ?m))"
    using i fi by (simp add: frame_dec_def Let_def)
  have free: "mm_free_nolock (fp m i) ?m = mark_free i ?m" "free_set (mark_free i ?m) = insert i (free_set m)"
    using mm_free_nolock_frame [of ?m i] assms free_set_mark_free [of i ?m] by (simp_all add: managed_def)
  have "frame_inc (fp m i) m = m\<lparr>pm_refs := (pm_refs m)(i := if pm_refs m i = 0xFFFF then 0xFFFF else pm_refs m i + 1)\<rparr>"
    using i fi by (simp add: frame_inc_def Let_def)
  moreover have "pm_lock m \<Longrightarrow> mm_free_phys (fp m i) ?m = Hang" by (simp add: mm_free_phys_locked)
  moreover have "\<not> pm_lock m \<Longrightarrow> mm_free_phys (fp m i) ?m = Done (mark_free i ?m)"
    using mm_free_phys_result [of ?m "fp m i"] free by simp
  ultimately show ?thesis using free by (auto simp: dec ref)
qed

theorem frame_refcount_lifecycle_witness:
  "frame_ref (frame_inc (fp pmm_boot 5) pmm_boot) (fp pmm_boot 5) =
     (if frame_ref pmm_boot (fp pmm_boot 5) = 0xFFFF then 0xFFFF else frame_ref pmm_boot (fp pmm_boot 5) + 1)"
  using frame_refcount_lifecycle [of pmm_boot 5] pmm_boot_state by (simp add: pmm_idle_def managed_def)

end
