(* ===== verification/Page_Table.thy ===== *)
theory Page_Table
  imports Pmm
begin

text \<open>
  Page table entries and page walks (\<^verbatim>\<open>mm/vmm.rs\<close>, the part that only reads): entry bits, the table indices of an
  address, the translation \<open>virt_to_phys\<close> and the user access checks \<open>valid_user\<close> and \<open>valid_buf\<close>. A table is a
  4 KB page of physical memory; entry \<open>i\<close> of the table at \<open>t\<close> is the word at \<open>t + 8 * i\<close>. The translation buffer of
  the processor is not modelled.
\<close>

section \<open>Entries\<close>

definition PTE_P :: u64 where "PTE_P = bit_at 0"
definition PTE_W :: u64 where "PTE_W = bit_at 1"
definition PTE_U :: u64 where "PTE_U = bit_at 2"
definition PTE_PS :: u64 where "PTE_PS = bit_at 7"
definition PTE_COW :: u64 where "PTE_COW = bit_at 9"
definition PTE_ADDR :: u64 where "PTE_ADDR = 0x000FFFFFFFFFF000"
definition HUGE_MASK :: u64 where "HUGE_MASK = 0x000FFFFFFFE00000"

definition pte_make :: "u64 \<Rightarrow> u64 \<Rightarrow> u64" where
  "pte_make p f = (p AND PTE_ADDR) OR f OR PTE_P"

definition pte_present :: "u64 \<Rightarrow> bool" where "pte_present e = has_any e PTE_P"
definition pte_user :: "u64 \<Rightarrow> bool" where "pte_user e = has_any e PTE_U"
definition pte_writable :: "u64 \<Rightarrow> bool" where "pte_writable e = has_any e PTE_W"
definition pte_huge :: "u64 \<Rightarrow> bool" where "pte_huge e = has_any e PTE_PS"
definition pte_cow :: "u64 \<Rightarrow> bool" where "pte_cow e = has_any e PTE_COW"
definition pte_addr :: "u64 \<Rightarrow> u64" where "pte_addr e = e AND PTE_ADDR"

definition entry_addr :: "u64 \<Rightarrow> nat \<Rightarrow> u64" where
  "entry_addr t i = t + of_nat i * 8"

definition pte :: "pmm \<Rightarrow> u64 \<Rightarrow> nat \<Rightarrow> u64" where
  "pte m t i = pm_mem m (entry_addr t i)"

definition set_pte :: "u64 \<Rightarrow> nat \<Rightarrow> u64 \<Rightarrow> pmm \<Rightarrow> pmm" where
  "set_pte t i e m = m\<lparr>pm_mem := (pm_mem m)(entry_addr t i := e)\<rparr>"

text \<open>\<open>(v >> s) & 0x1FF\<close> as an array index.\<close>

definition pidx :: "nat \<Rightarrow> u64 \<Rightarrow> nat" where
  "pidx s v = unat (drop_bit s v AND 0x1FF)"

section \<open>Walks\<close>

text \<open>One step of \<open>walk!\<close>: \<open>Inl r\<close> returns \<open>r\<close>, \<open>Inr t\<close> goes on in table \<open>t\<close>.\<close>

definition walk_step :: "pmm \<Rightarrow> u64 \<Rightarrow> nat \<Rightarrow> u64 \<Rightarrow> u64 option + u64" where
  "walk_step m tab i v =
     (let e = pte m tab i in
      if \<not> pte_present e then Inl None
      else if pte_huge e then Inl (Some ((e AND HUGE_MASK) OR (v AND (HUGE_SIZE - 1))))
      else Inr (pte_addr e))"

definition virt_to_phys :: "pmm \<Rightarrow> u64 \<Rightarrow> u64 \<Rightarrow> u64 option" where
  "virt_to_phys m p4 v =
     (if p4 = 0 then None
      else case walk_step m p4 (pidx 39 v) v of Inl r \<Rightarrow> r | Inr p3 \<Rightarrow>
           case walk_step m p3 (pidx 30 v) v of Inl r \<Rightarrow> r | Inr p2 \<Rightarrow>
           case walk_step m p2 (pidx 21 v) v of Inl r \<Rightarrow> r | Inr p1 \<Rightarrow>
           let e = pte m p1 (pidx 12 v) in
           if \<not> pte_present e then None else Some (pte_addr e OR (v AND 0xFFF)))"

definition chk_step :: "pmm \<Rightarrow> u64 \<Rightarrow> nat \<Rightarrow> bool + u64" where
  "chk_step m p i =
     (let e = pte m p i in
      if \<not> pte_present e \<or> \<not> pte_user e then Inl False else if pte_huge e then Inl True else Inr (pte_addr e))"

definition valid_user :: "pmm \<Rightarrow> u64 \<Rightarrow> u64 \<Rightarrow> bool" where
  "valid_user m p4 v =
     (if p4 = 0 then False
      else case chk_step m p4 (pidx 39 v) of Inl r \<Rightarrow> r | Inr p3 \<Rightarrow>
           case chk_step m p3 (pidx 30 v) of Inl r \<Rightarrow> r | Inr p2 \<Rightarrow>
           case chk_step m p2 (pidx 21 v) of Inl r \<Rightarrow> r | Inr p1 \<Rightarrow>
           let e = pte m p1 (pidx 12 v) in pte_present e \<and> pte_user e)"

text \<open>
  The loop of \<open>valid_buf\<close>. The page address wraps around at the end of the address space, so the loop may run for
  ever (\<open>None\<close>) when every page is accessible.
\<close>

partial_function (option) buf_loop :: "pmm \<Rightarrow> u64 \<Rightarrow> u64 \<Rightarrow> u64 \<Rightarrow> bool option" where
  "buf_loop m p4 lim pg =
     (if pg < lim then if \<not> valid_user m p4 pg then Some False else buf_loop m p4 lim (pg + PAGE_SIZE)
      else Some True)"

declare buf_loop.simps [code]

definition page_of :: "u64 \<Rightarrow> u64" where
  "page_of a = a AND NOT (PAGE_SIZE - 1)"

definition valid_buf :: "pmm \<Rightarrow> u64 \<Rightarrow> u64 \<Rightarrow> u64 \<Rightarrow> bool option" where
  "valid_buf m p4 ptr len = (if len = 0 then Some True else buf_loop m p4 (ptr + len) (page_of ptr))"

section \<open>Bits of entries\<close>

lemma bit_PTE_ADDR: "bit PTE_ADDR n \<longleftrightarrow> 12 \<le> n \<and> n < 52"
proof -
  have e: "PTE_ADDR = push_bit 12 (mask 40)" by (simp add: PTE_ADDR_def mask_eq_exp_minus_1 push_bit_eq_mult)
  show ?thesis unfolding e by (auto simp: bit_simps)
qed

lemma bit_HUGE_MASK: "bit HUGE_MASK n \<longleftrightarrow> 21 \<le> n \<and> n < 52"
proof -
  have e: "HUGE_MASK = push_bit 21 (mask 31)" by (simp add: HUGE_MASK_def mask_eq_exp_minus_1 push_bit_eq_mult)
  show ?thesis unfolding e by (auto simp: bit_simps)
qed

lemmas pte_bits = bit_or_iff bit_and_iff bit_not_iff bit_PTE_ADDR bit_HUGE_MASK
  PTE_P_def PTE_W_def PTE_U_def PTE_PS_def PTE_COW_def

lemma pte_test_bits:
  "pte_present e = bit e 0" "pte_user e = bit e 2" "pte_writable e = bit e 1" "pte_huge e = bit e 7" "pte_cow e = bit e 9"
  by (simp_all add: pte_present_def pte_user_def pte_writable_def pte_huge_def pte_cow_def
      PTE_P_def PTE_W_def PTE_U_def PTE_PS_def PTE_COW_def)

lemma pte_present_make [simp]: "pte_present (pte_make p f)"
  by (simp add: pte_test_bits pte_make_def pte_bits)

lemma pte_make_bits:
  "pte_user (pte_make p f) = bit f 2" "pte_huge (pte_make p f) = bit f 7" "pte_writable (pte_make p f) = bit f 1"
  by (simp_all add: pte_test_bits pte_make_def pte_bits)

definition flags_only :: "u64 \<Rightarrow> bool" where
  "flags_only f \<longleftrightarrow> f AND PTE_ADDR = 0"

lemma flags_only_bit: "flags_only f \<Longrightarrow> 12 \<le> n \<Longrightarrow> n < 52 \<Longrightarrow> \<not> bit f n"
  unfolding flags_only_def by (metis bit_0_eq bit_and_iff bit_PTE_ADDR bot_apply bot_bool_def)

lemma pte_addr_make: "flags_only f \<Longrightarrow> pte_addr (pte_make p f) = p AND PTE_ADDR"
  by (rule bit_eqI) (auto simp: pte_addr_def pte_make_def pte_bits dest: flags_only_bit)

lemma zero_entry [simp]: "\<not> pte_present 0"
  by (simp add: pte_test_bits)

section \<open>Pages and entries in memory\<close>

definition aligned :: "u64 \<Rightarrow> bool" where
  "aligned t \<longleftrightarrow> unat t mod 4096 = 0"

lemma aligned_low_bits: "aligned t \<longleftrightarrow> take_bit 12 t = 0"
proof -
  have "take_bit 12 t = 0 \<longleftrightarrow> unat (take_bit 12 t) = 0" by (simp add: word_unat_eq_iff)
  also have "\<dots> \<longleftrightarrow> take_bit 12 (unat t) = 0" by (simp only: unsigned_take_bit_eq)
  finally show ?thesis by (simp add: aligned_def take_bit_eq_mod)
qed

lemma aligned_bit: "aligned t \<Longrightarrow> n < 12 \<Longrightarrow> \<not> bit t n"
  unfolding aligned_low_bits by (metis bit_0_eq bit_take_bit_iff bot_apply bot_bool_def)

lemma aligned_and_addr [simp]: "aligned (e AND PTE_ADDR)"
  unfolding aligned_low_bits by (rule bit_eqI) (auto simp: bit_simps bit_PTE_ADDR)

lemma aligned_pte_addr [simp]: "aligned (pte_addr e)"
  by (simp add: pte_addr_def)

lemma addr_mask_id: "aligned p \<Longrightarrow> unat p < 2 ^ 52 \<Longrightarrow> p AND PTE_ADDR = p"
proof (rule bit_eqI)
  fix n assume a: "aligned p" "unat p < 2 ^ 52"
  have "take_bit 52 (unat p) = unat p" using a(2) by (simp add: take_bit_nat_eq_self_iff)
  then have "take_bit 52 p = p" by (metis unsigned_take_bit_eq word_unat_eq_iff)
  then have "\<not> bit p n" if "52 \<le> n" using that by (metis bit_take_bit_iff not_le)
  then show "bit (p AND PTE_ADDR) n = bit p n" using aligned_bit [OF a(1)]
    by (auto simp: bit_and_iff bit_PTE_ADDR intro: leI)
qed

lemma unat_entry_addr: "aligned t \<Longrightarrow> i < 512 \<Longrightarrow> unat (entry_addr t i) = unat t + i * 8"
proof -
  assume t: "aligned t" and i: "i < 512"
  obtain q where q: "unat t = 4096 * q" using t by (metis aligned_def mod_0_imp_dvd dvdE)
  have "unat t < 2 ^ 64" using unat_u64_less [of t] by simp
  then have "q < 2 ^ 52" using q by simp
  then have "unat t + i * 8 < 2 ^ 64" using i q by simp
  moreover have "unat (of_nat i * 8 :: u64) = i * 8" using i by (simp add: unat_word_ariths unat_of_nat)
  ultimately show ?thesis by (simp add: entry_addr_def unat_word_ariths)
qed

lemma entry_addr_inj:
  assumes "aligned t" "aligned t'" "i < 512" "i' < 512"
  shows "entry_addr t i = entry_addr t' i' \<longleftrightarrow> t = t' \<and> i = i'"
proof
  assume "entry_addr t i = entry_addr t' i'"
  then have e: "unat t + i * 8 = unat t' + i' * 8" using assms by (metis unat_entry_addr)
  obtain q q' where q: "unat t = 4096 * q" "unat t' = 4096 * q'"
    using assms(1,2) by (metis aligned_def mod_0_imp_dvd dvdE)
  have "(4096 * q + i * 8) div 4096 = q" "(4096 * q' + i' * 8) div 4096 = q'" using assms(3,4) by simp_all
  then have "q = q'" using e q by metis
  with e q show "t = t' \<and> i = i'" by (simp add: word_unat_eq_iff)
qed simp

lemma pte_set_pte:
  "aligned t \<Longrightarrow> aligned t' \<Longrightarrow> i < 512 \<Longrightarrow> i' < 512 \<Longrightarrow>
   pte (set_pte t i e m) t' i' = (if t' = t \<and> i' = i then e else pte m t' i')"
  by (auto simp: pte_def set_pte_def entry_addr_inj)

lemma entry_in_page:
  assumes "aligned t" "aligned p" "i < 512"
  shows "entry_addr t i - p < PAGE_SIZE \<longleftrightarrow> t = p"
proof
  assume "t = p"
  moreover have "unat (of_nat i * 8 :: u64) = i * 8" using assms(3) by (simp add: unat_word_ariths unat_of_nat)
  ultimately show "entry_addr t i - p < PAGE_SIZE" using assms(3) by (simp add: entry_addr_def word_less_nat_alt)
next
  assume a: "entry_addr t i - p < PAGE_SIZE"
  obtain q q' where q: "unat t = 4096 * q" "unat p = 4096 * q'"
    using assms(1,2) by (metis aligned_def mod_0_imp_dvd dvdE)
  let ?e = "entry_addr t i"
  have ue: "unat ?e = 4096 * q + i * 8" using unat_entry_addr [OF assms(1,3)] q by simp
  have qs: "q < 2 ^ 52" "q' < 2 ^ 52" using unat_u64_less [of t] unat_u64_less [of p] q by simp_all
  show "t = p"
  proof (cases "p \<le> ?e")
    case True
    then have "unat (?e - p) = 4096 * q + i * 8 - 4096 * q'" by (simp add: unat_sub ue q)
    with a have "4096 * q + i * 8 - 4096 * q' < 4096" by (simp add: word_less_nat_alt)
    moreover have "4096 * q' \<le> 4096 * q + i * 8" using True ue q by (simp add: word_le_nat_alt)
    ultimately have "q' \<le> q \<and> q \<le> q'" using assms(3) by linarith
    then have "q = q'" by simp
    with q show ?thesis by (simp add: word_unat_eq_iff)
  next
    case False
    then have lt: "unat ?e < unat p" by (simp add: word_le_nat_alt)
    have "unat (?e - p) = unat ?e + 2 ^ 64 - unat p"
      using lt unat_u64_less [of p] by (simp add: unat_sub_if_size word_size)
    with a have "unat ?e + 2 ^ 64 - unat p < 4096" by (simp add: word_less_nat_alt)
    with ue q qs assms(3) lt show ?thesis by simp
  qed
qed

lemma pte_zero_page: "aligned t \<Longrightarrow> aligned p \<Longrightarrow> i < 512 \<Longrightarrow> pte (zero_page p m) t i = (if t = p then 0 else pte m t i)"
  by (simp add: pte_def zero_page_def entry_in_page)

lemma pidx_less [simp]: "pidx s v < 512"
proof -
  have "drop_bit s v AND 0x1FF = take_bit 9 (drop_bit s v)" by (simp add: take_bit_eq_mask mask_eq_exp_minus_1)
  then have "pidx s v = take_bit 9 (unat (drop_bit s v))" by (simp only: pidx_def unsigned_take_bit_eq)
  then show ?thesis by (simp add: take_bit_eq_mod)
qed

lemma set_pte_simps [simp]:
  "pm_lock (set_pte t i e m) = pm_lock m" "pm_base (set_pte t i e m) = pm_base m"
  "pm_size (set_pte t i e m) = pm_size m" "pm_refs (set_pte t i e m) = pm_refs m" "pm_bm (set_pte t i e m) = pm_bm m"
  "pmm_inv (set_pte t i e m) = pmm_inv m" "free_set (set_pte t i e m) = free_set m"
  "pm_total (set_pte t i e m) = pm_total m" "fp (set_pte t i e m) = fp m"
  by (simp_all add: set_pte_def)

lemma zero_page_simps [simp]:
  "pm_lock (zero_page p m) = pm_lock m" "pm_base (zero_page p m) = pm_base m"
  "pm_size (zero_page p m) = pm_size m" "pm_refs (zero_page p m) = pm_refs m"
  "pmm_inv (zero_page p m) = pmm_inv m" "free_set (zero_page p m) = free_set m"
  "pm_total (zero_page p m) = pm_total m" "fp (zero_page p m) = fp m"
  by (simp_all add: zero_page_def)

lemma frame_avail_simps [simp]:
  "frame_avail (set_pte t i e m) = frame_avail m" "frame_avail (zero_page p m) = frame_avail m"
  "frame_avail (m\<lparr>pm_lock := l\<rparr>) = frame_avail m"
  by (simp_all add: frame_avail_def)

section \<open>Buffers\<close>

text \<open>A buffer check that does not wrap around accepts exactly the buffers all of whose pages are accessible.\<close>

lemma buf_loop_pages:
  assumes "unat pg + 4096 * n < 2 ^ 64" "unat lim \<le> unat pg + 4096 * n" "n = 0 \<or> unat pg + 4096 * (n - 1) < unat lim"
  shows "buf_loop m p4 lim pg = Some (\<forall>k < n. valid_user m p4 (pg + of_nat k * PAGE_SIZE))"
  using assms
proof (induction n arbitrary: pg)
  case 0
  then have "\<not> pg < lim" by (simp add: word_less_nat_alt)
  then show ?case by (subst buf_loop.simps) simp
next
  case (Suc n)
  have up: "unat (pg + PAGE_SIZE) = unat pg + 4096" using Suc.prems(1) by (simp add: unat_word_ariths)
  have lt: "pg < lim" using Suc.prems(3) by (simp add: word_less_nat_alt)
  have IH: "buf_loop m p4 lim (pg + PAGE_SIZE) = Some (\<forall>k < n. valid_user m p4 (pg + PAGE_SIZE + of_nat k * PAGE_SIZE))"
    by (rule Suc.IH) (use Suc.prems up in \<open>auto\<close>)
  have sh: "pg + PAGE_SIZE + of_nat k * PAGE_SIZE = pg + of_nat (Suc k) * PAGE_SIZE" for k :: nat
    by (simp add: algebra_simps)
  have all: "(\<forall>k < Suc n. valid_user m p4 (pg + of_nat k * PAGE_SIZE)) \<longleftrightarrow>
      valid_user m p4 pg \<and> (\<forall>k < n. valid_user m p4 (pg + of_nat (Suc k) * PAGE_SIZE))"
    unfolding All_less_Suc2 by simp
  show ?case unfolding all by (subst buf_loop.simps) (simp add: lt IH sh)
qed

lemma page_of_props:
  "unat (page_of a) \<le> unat a" "unat a < unat (page_of a) + 4096" "aligned (page_of a)"
proof -
  have m: "PAGE_SIZE - 1 = mask 12" by (simp add: PAGE_SIZE_def mask_eq_exp_minus_1)
  have e: "page_of a = push_bit 12 (drop_bit 12 a)"
    unfolding page_of_def m by (rule bit_eqI) (auto simp: bit_simps)
  have "unat (page_of a) = 4096 * (unat a div 4096)"
  proof -
    have "unat a div 4096 * 4096 < 2 ^ 64" using unat_u64_less [of a] by simp
    then show ?thesis unfolding e
      by (simp add: push_bit_eq_mult drop_bit_eq_div unat_word_ariths unat_div)
  qed
  then show "unat (page_of a) \<le> unat a" "unat a < unat (page_of a) + 4096" "aligned (page_of a)"
    using mod_less_divisor [of 4096 "unat a"] div_mult_mod_eq [of "unat a" 4096] by (simp_all add: aligned_def)
qed

end
