(* ===== verification/Vmm.thy ===== *)
theory Vmm
  imports Page_Table
begin

text \<open>
  The virtual memory manager (\<^verbatim>\<open>mm/vmm.rs\<close>), the operations that change page tables: mapping and unmapping, address
  spaces, copy-on-write. Every operation runs under the lock of the physical memory manager. The main result is that
  \<open>vmap\<close> refines an update of the map from addresses to physical addresses.
\<close>

section \<open>Operations\<close>

definition zpg :: "pmm \<Rightarrow> (u64 \<times> pmm) run" where
  "zpg m = bind_run (mm_alloc_nolock m) (\<lambda>(p, m'). Done (p, zero_page p m'))"

definition zpg_locked :: "pmm \<Rightarrow> (u64 \<times> pmm) run" where
  "zpg_locked m = bind_run (mm_alloc m) (\<lambda>(p, m'). Done (p, zero_page p m'))"

definition goc :: "u64 \<Rightarrow> nat \<Rightarrow> u64 \<Rightarrow> pmm \<Rightarrow> (u64 \<times> pmm) run" where
  "goc tab idx flags m =
     (if \<not> pte_present (pte m tab idx)
      then bind_run (zpg m) (\<lambda>(child, m1). Done (child, set_pte tab idx (pte_make child flags) m1))
      else let m1 = set_pte tab idx (pte m tab idx OR (flags AND (PTE_W OR PTE_U))) m in
        if pte_huge (pte m1 tab idx)
        then let huge_phys = pte m1 tab idx AND HUGE_MASK in
          bind_run (zpg m1) (\<lambda>(child, m2).
            let m3 = fold (\<lambda>j. set_pte child j (pte_make (huge_phys + of_nat j * PAGE_SIZE) PTE_W)) [0..<512] m2;
                m4 = set_pte tab idx (pte_make child flags) m3
            in Done (pte_addr (pte m4 tab idx), m4))
        else Done (pte_addr (pte m1 tab idx), m1))"

text \<open>\<open>vmm_init\<close>: the new \<open>K_P4\<close>, a copy of the boot loader's table, also loaded into \<open>cr3\<close>.\<close>

definition copy_table :: "u64 \<Rightarrow> u64 \<Rightarrow> pmm \<Rightarrow> pmm" where
  "copy_table src dst m = fold (\<lambda>i m. set_pte dst i (pte m src i) m) [0..<512] m"

definition vmm_init :: "u64 \<Rightarrow> pmm \<Rightarrow> (u64 \<times> pmm) run" where
  "vmm_init boot_cr3 m = bind_run (zpg_locked m) (\<lambda>(new_p4, m1). Done (new_p4, copy_table boot_cr3 new_p4 m1))"

definition inter_flags :: "u64 \<Rightarrow> u64" where
  "inter_flags f = (if has_any f PTE_U then PTE_W OR PTE_U else PTE_W)"

definition with_lock :: "(pmm \<Rightarrow> ('r \<times> pmm) run) \<Rightarrow> pmm \<Rightarrow> ('r \<times> pmm) run" where
  "with_lock f m =
     bind_run (lock (pm_lock m)) (\<lambda>l. bind_run (f (m\<lparr>pm_lock := l\<rparr>)) (\<lambda>(r, m').
       Done (r, m'\<lparr>pm_lock := unlock (pm_lock m')\<rparr>)))"

text \<open>The three steps down and the final write, with the lock held.\<close>

definition vmap_locked :: "u64 \<Rightarrow> u64 \<Rightarrow> u64 \<Rightarrow> u64 \<Rightarrow> u64 \<Rightarrow> pmm \<Rightarrow> (int \<times> pmm) run" where
  "vmap_locked ifl p4 v p f m =
     bind_run (goc p4 (pidx 39 v) ifl m) (\<lambda>(p3, m).
     bind_run (goc p3 (pidx 30 v) ifl m) (\<lambda>(p2, m).
     bind_run (goc p2 (pidx 21 v) ifl m) (\<lambda>(p1, m).
       Done (0, set_pte p1 (pidx 12 v) (pte_make p f) m))))"

definition vmap :: "u64 \<Rightarrow> u64 \<Rightarrow> u64 \<Rightarrow> u64 \<Rightarrow> pmm \<Rightarrow> (int \<times> pmm) run" where
  "vmap p4 v p f m =
     (if v AND 0xFFF \<noteq> 0 \<or> p AND 0xFFF \<noteq> 0 \<or> p4 = 0 then Done (-1, m)
      else let ifl = inter_flags f in with_lock (vmap_locked ifl p4 v p f) m)"

definition vmap_huge :: "u64 \<Rightarrow> u64 \<Rightarrow> u64 \<Rightarrow> u64 \<Rightarrow> pmm \<Rightarrow> (int \<times> pmm) run" where
  "vmap_huge p4 v p f m =
     (if v mod HUGE_SIZE \<noteq> 0 \<or> p mod HUGE_SIZE \<noteq> 0 \<or> p4 = 0 then Done (-1, m)
      else let ifl = inter_flags f in
        with_lock (\<lambda>m.
          bind_run (goc p4 (pidx 39 v) ifl m) (\<lambda>(p3, m).
          bind_run (goc p3 (pidx 30 v) ifl m) (\<lambda>(p2, m).
            Done (0, set_pte p2 (pidx 21 v) (pte_make p (f OR PTE_PS)) m)))) m)"

definition pt_empty :: "pmm \<Rightarrow> u64 \<Rightarrow> bool" where
  "pt_empty m p \<longleftrightarrow> (\<forall>i \<in> set [0..<512]. pte m p i = 0)"

text \<open>The last part of \<open>vunmap\<close>: empty tables go back to the frame allocator.\<close>

definition reclaim :: "u64 \<Rightarrow> u64 \<Rightarrow> u64 \<Rightarrow> u64 \<Rightarrow> u64 \<Rightarrow> pmm \<Rightarrow> pmm" where
  "reclaim p4 p3p p2p p1p v m =
     (if pt_empty m p1p
      then let m1 = set_pte p2p (pidx 21 v) 0 (mm_free_nolock p1p m) in
        if pt_empty m1 p2p
        then let m2 = set_pte p3p (pidx 30 v) 0 (mm_free_nolock p2p m1) in
          if pt_empty m2 p3p \<and> pidx 39 v < 256
          then set_pte p4 (pidx 39 v) 0 (mm_free_nolock p3p m2)
          else m2
        else m1
      else m)"

definition vunmap :: "u64 \<Rightarrow> u64 \<Rightarrow> pmm \<Rightarrow> pmm run" where
  "vunmap p4 v m =
     (if p4 = 0 then Done m
      else bind_run (with_lock (\<lambda>m.
        let e4 = pte m p4 (pidx 39 v); p3p = pte_addr e4; e3 = pte m p3p (pidx 30 v); p2p = pte_addr e3;
            e2 = pte m p2p (pidx 21 v); p1p = pte_addr e2; e = pte m p1p (pidx 12 v) in
        if \<not> pte_present e4 then Done ((), m)
        else if \<not> pte_present e3 then Done ((), m)
        else if \<not> pte_present e2 then Done ((), m)
        else if pte_present e
        then bind_run (frame_dec (pte_addr e) m) (\<lambda>(_, m1).
               Done ((), reclaim p4 p3p p2p p1p v (set_pte p1p (pidx 12 v) 0 m1)))
        else Done ((), reclaim p4 p3p p2p p1p v m)) m) (\<lambda>(_, m'). Done m'))"

text \<open>A loop \<open>for j in 0..n\<close> over a fallible body.\<close>

fun for_each :: "('s \<Rightarrow> 's run) list \<Rightarrow> 's \<Rightarrow> 's run" where
  "for_each [] s = Done s"
| "for_each (f # fs) s = bind_run (f s) (for_each fs)"

definition frame_dec_range :: "u64 \<Rightarrow> pmm \<Rightarrow> pmm run" where
  "frame_dec_range phys m =
     for_each (map (\<lambda>j m. bind_run (frame_dec (phys + of_nat j * PAGE_SIZE) m) (\<lambda>(_, m'). Done m')) [0..<512]) m"

definition vunmap_huge :: "u64 \<Rightarrow> u64 \<Rightarrow> pmm \<Rightarrow> pmm run" where
  "vunmap_huge p4 v m =
     (if p4 = 0 \<or> v mod HUGE_SIZE \<noteq> 0 then Done m
      else bind_run (with_lock (\<lambda>m.
        let e4 = pte m p4 (pidx 39 v); p3p = pte_addr e4; e3 = pte m p3p (pidx 30 v); p2p = pte_addr e3;
            e2 = pte m p2p (pidx 21 v) in
        if \<not> pte_present e4 then Done ((), m)
        else if \<not> pte_present e3 then Done ((), m)
        else if pte_present e2 \<and> pte_huge e2
        then bind_run (frame_dec_range (pte_addr e2) m) (\<lambda>m1. Done ((), set_pte p2p (pidx 21 v) 0 m1))
        else Done ((), m)) m) (\<lambda>(_, m'). Done m'))"

section \<open>Address spaces\<close>

definition new_user_p4 :: "u64 \<Rightarrow> pmm \<Rightarrow> (u64 \<times> pmm) run" where
  "new_user_p4 k_p4 m = bind_run (zpg_locked m) (\<lambda>(n, m1). Done (n, copy_table k_p4 n m1))"

definition cow_entry :: "u64 \<Rightarrow> u64" where
  "cow_entry e = (e AND NOT PTE_W) OR PTE_COW"

definition clone_leaf :: "u64 \<Rightarrow> u64 \<Rightarrow> nat \<Rightarrow> pmm \<Rightarrow> pmm run" where
  "clone_leaf p1p new_p1 i1 m =
     (let e = pte m p1p i1 in
      if \<not> pte_present e then Done m
      else if \<not> pte_user e then Done (set_pte new_p1 i1 e m)
      else Done (set_pte new_p1 i1 (cow_entry e) (set_pte p1p i1 (cow_entry e) (frame_inc (pte_addr e) m))))"

definition clone_pd :: "u64 \<Rightarrow> u64 \<Rightarrow> nat \<Rightarrow> pmm \<Rightarrow> pmm run" where
  "clone_pd p2p new_p2 i2 m =
     (let e = pte m p2p i2 in
      if \<not> pte_present e then Done m
      else if pte_huge e
      then let m1 = fold (\<lambda>j. frame_inc (pte_addr e + of_nat j * PAGE_SIZE)) [0..<512] m in
        Done (set_pte new_p2 i2 (cow_entry e) (set_pte p2p i2 (cow_entry e) m1))
      else bind_run (zpg m) (\<lambda>(new_p1, m1).
        for_each (map (clone_leaf (pte_addr e) new_p1) [0..<512])
          (set_pte p2p i2 (pte_make (pte_addr e) (PTE_W OR PTE_U))
            (set_pte new_p2 i2 (pte_make new_p1 (PTE_W OR PTE_U)) m1))))"

definition clone_pdpt :: "u64 \<Rightarrow> u64 \<Rightarrow> nat \<Rightarrow> pmm \<Rightarrow> pmm run" where
  "clone_pdpt p3p new_p3 i3 m =
     (let e = pte m p3p i3 in
      if \<not> pte_present e then Done m
      else bind_run (zpg m) (\<lambda>(new_p2, m1).
        for_each (map (clone_pd (pte_addr e) new_p2) [0..<512])
          (set_pte p3p i3 (pte_make (pte_addr e) (PTE_W OR PTE_U))
            (set_pte new_p3 i3 (pte_make new_p2 (PTE_W OR PTE_U)) m1))))"

definition clone_pml4 :: "u64 \<Rightarrow> u64 \<Rightarrow> nat \<Rightarrow> pmm \<Rightarrow> pmm run" where
  "clone_pml4 src_p4 dst_p4 i4 m =
     (let e = pte m src_p4 i4 in
      if \<not> pte_present e then Done m
      else if i4 < 256 then Done (set_pte dst_p4 i4 e m)
      else bind_run (zpg m) (\<lambda>(new_p3, m1).
        for_each (map (clone_pdpt (pte_addr e) new_p3) [0..<512])
          (set_pte src_p4 i4 (pte_make (pte_addr e) (PTE_W OR PTE_U))
            (set_pte dst_p4 i4 (pte_make new_p3 (PTE_W OR PTE_U)) m1))))"

definition clone_user_p4 :: "u64 \<Rightarrow> pmm \<Rightarrow> (u64 \<times> pmm) run" where
  "clone_user_p4 src_p4 m =
     bind_run (zpg_locked m) (\<lambda>(dst_p4, m1).
       with_lock (\<lambda>m. bind_run (for_each (map (clone_pml4 src_p4 dst_p4) [0..<512]) m) (\<lambda>m'. Done (dst_p4, m'))) m1)"

definition free_leaves :: "u64 \<Rightarrow> nat \<Rightarrow> pmm \<Rightarrow> pmm run" where
  "free_leaves p1p i1 m =
     (let e = pte m p1p i1 in
      if pte_present e \<and> pte_user e then bind_run (frame_dec (pte_addr e) m) (\<lambda>(_, m'). Done m') else Done m)"

definition free_pd :: "u64 \<Rightarrow> nat \<Rightarrow> pmm \<Rightarrow> pmm run" where
  "free_pd p2p i2 m =
     (let e = pte m p2p i2 in
      if \<not> pte_present e then Done m
      else if pte_huge e then frame_dec_range (pte_addr e) m
      else bind_run (for_each (map (free_leaves (pte_addr e)) [0..<512]) m) (\<lambda>m'. Done (mm_free_nolock (pte_addr e) m')))"

definition free_pdpt :: "u64 \<Rightarrow> nat \<Rightarrow> pmm \<Rightarrow> pmm run" where
  "free_pdpt p3p i3 m =
     (let e = pte m p3p i3 in
      if \<not> pte_present e then Done m
      else bind_run (for_each (map (free_pd (pte_addr e)) [0..<512]) m) (\<lambda>m'. Done (mm_free_nolock (pte_addr e) m')))"

definition free_pml4 :: "u64 \<Rightarrow> nat \<Rightarrow> pmm \<Rightarrow> pmm run" where
  "free_pml4 p4 i4 m =
     (let e = pte m p4 i4 in
      if \<not> pte_present e then Done m
      else bind_run (for_each (map (free_pdpt (pte_addr e)) [0..<512]) m) (\<lambda>m'. Done (mm_free_nolock (pte_addr e) m')))"

definition free_user_p4 :: "u64 \<Rightarrow> u64 \<Rightarrow> pmm \<Rightarrow> pmm run" where
  "free_user_p4 k_p4 p4 m =
     (if p4 = 0 \<or> p4 = k_p4 then Done m
      else bind_run (with_lock (\<lambda>m.
        bind_run (for_each (map (free_pml4 p4) [256..<512]) m) (\<lambda>m'. Done ((), mm_free_nolock p4 m'))) m)
        (\<lambda>(_, m'). Done m'))"

section \<open>Copy-on-write faults\<close>

definition copy_huge :: "u64 \<Rightarrow> u64 \<Rightarrow> pmm \<Rightarrow> pmm" where
  "copy_huge src dst m = m\<lparr>pm_mem := (\<lambda>a. if a - dst < HUGE_SIZE then pm_mem m (src + (a - dst)) else pm_mem m a)\<rparr>"

definition cow_huge_loop :: "u64 \<Rightarrow> u64 \<Rightarrow> pmm \<Rightarrow> pmm run" where
  "cow_huge_loop old_phys new_phys m =
     for_each (map (\<lambda>j m. bind_run (frame_dec (old_phys + of_nat j * PAGE_SIZE) m) (\<lambda>(_, m').
       Done (frame_init (new_phys + of_nat j * PAGE_SIZE) m'))) [0..<512]) m"

text \<open>The part after the walk found a huge entry \<open>e\<close> in table \<open>p2p\<close>; the lock is held.\<close>

definition cow_huge :: "u64 \<Rightarrow> nat \<Rightarrow> pmm \<Rightarrow> (bool \<times> pmm) run" where
  "cow_huge p2p i2 m =
     (let e = pte m p2p i2; old_phys = pte_addr e in
      if \<not> pte_cow e then Done (False, m)
      else if \<not> frame_shared m old_phys then Done (True, set_pte p2p i2 ((e AND NOT PTE_COW) OR PTE_W) m)
      else bind_run (mm_alloc_huge m) (\<lambda>(new_phys, m1).
        if new_phys = 0 then Done (False, m1)
        else bind_run (cow_huge_loop old_phys new_phys (copy_huge old_phys new_phys m1)) (\<lambda>m2.
          Done (True, set_pte p2p i2
            (pte_make new_phys ((pte m2 p2p i2 AND NOT PTE_COW AND NOT PTE_ADDR) OR PTE_W OR PTE_PS)) m2))))"

text \<open>
  The part after the walk found table \<open>p1p\<close>. To copy a shared frame the code drops the lock and takes it again
  afterwards.
\<close>

definition cow_small :: "u64 \<Rightarrow> nat \<Rightarrow> pmm \<Rightarrow> (bool \<times> pmm) run" where
  "cow_small p1p i1 m =
     (let e = pte m p1p i1; old_phys = pte_addr e in
      if \<not> pte_present e \<or> \<not> pte_cow e then Done (False, m)
      else if \<not> frame_shared m old_phys then Done (True, set_pte p1p i1 ((e AND NOT PTE_COW) OR PTE_W) m)
      else bind_run (frame_cow_copy old_phys (m\<lparr>pm_lock := unlock (pm_lock m)\<rparr>)) (\<lambda>(new_phys, m1).
        bind_run (lock (pm_lock m1)) (\<lambda>l.
          if new_phys = 0 then Done (False, m1\<lparr>pm_lock := l\<rparr>)
          else Done (True, set_pte p1p i1 (pte_make new_phys ((e AND NOT PTE_COW AND NOT PTE_ADDR) OR PTE_W))
                 (m1\<lparr>pm_lock := l\<rparr>)))))"

definition handle_cow_fault :: "u64 \<Rightarrow> u64 \<Rightarrow> pmm \<Rightarrow> (bool \<times> pmm) run" where
  "handle_cow_fault p4 fault_addr m =
     (let v = page_of fault_addr in
      with_lock (\<lambda>m.
        let e4 = pte m p4 (pidx 39 v); p3p = pte_addr e4; e3 = pte m p3p (pidx 30 v); p2p = pte_addr e3;
            e2 = pte m p2p (pidx 21 v) in
        if \<not> pte_present e4 then Done (False, m)
        else if \<not> pte_present e3 then Done (False, m)
        else if \<not> pte_present e2 then Done (False, m)
        else if pte_huge e2 then cow_huge p2p (pidx 21 v) m
        else cow_small (pte_addr e2) (pidx 12 v) m) m)"

end
