(* ===== verification/Vmm_Map.thy ===== *)
theory Vmm_Map
  imports Vmm
begin

text \<open>
  What the page tables mean. \<open>table_at m p4 k v\<close> is the table that the walk of \<open>v\<close> reaches after \<open>k\<close> steps. Under the
  well-formedness of the table tree (tables are aligned, distinct for distinct index prefixes, and none is a free
  frame) creating a missing table and splitting a huge page leave the translation of every address unchanged, and
  \<open>vmap\<close> changes the translation of exactly one page.
\<close>

section \<open>The table tree\<close>

definition lvl :: "nat \<Rightarrow> u64 \<Rightarrow> nat" where
  "lvl k v = pidx (39 - 9 * k) v"

lemma lvl_simps [simp]: "lvl 0 v = pidx 39 v" "lvl (Suc 0) v = pidx 30 v" "lvl 2 v = pidx 21 v" "lvl 3 v = pidx 12 v"
  "lvl (Suc (Suc 0)) v = pidx 21 v" "lvl (Suc (Suc (Suc 0))) v = pidx 12 v"
  by (simp_all add: lvl_def)

lemma lvl_less [simp]: "lvl k v < 512"
  by (simp add: lvl_def)

definition next_table :: "pmm \<Rightarrow> u64 \<Rightarrow> nat \<Rightarrow> u64 option" where
  "next_table m t i = (let e = pte m t i in if pte_present e \<and> \<not> pte_huge e then Some (pte_addr e) else None)"

fun table_at :: "pmm \<Rightarrow> u64 \<Rightarrow> nat \<Rightarrow> u64 \<Rightarrow> u64 option" where
  "table_at m p4 0 v = Some p4"
| "table_at m p4 (Suc k) v = (case table_at m p4 k v of None \<Rightarrow> None | Some t \<Rightarrow> next_table m t (lvl k v))"

text \<open>The two addresses have the same first \<open>k\<close> table indices.\<close>

definition same_upto :: "nat \<Rightarrow> u64 \<Rightarrow> u64 \<Rightarrow> bool" where
  "same_upto k u v \<longleftrightarrow> (\<forall>j < k. lvl j u = lvl j v)"

definition same_page :: "u64 \<Rightarrow> u64 \<Rightarrow> bool" where
  "same_page u v \<longleftrightarrow> same_upto 4 u v"

lemma same_upto_Suc: "same_upto (Suc k) u v \<longleftrightarrow> same_upto k u v \<and> lvl k u = lvl k v"
  by (auto simp: same_upto_def less_Suc_eq)

lemma same_upto_mono: "same_upto k u v \<Longrightarrow> j \<le> k \<Longrightarrow> same_upto j u v"
  by (auto simp: same_upto_def)

lemma same_upto_refl [simp]: "same_upto k v v"
  by (simp add: same_upto_def)

definition tables_ok :: "pmm \<Rightarrow> u64 \<Rightarrow> bool" where
  "tables_ok m p4 \<longleftrightarrow> p4 \<noteq> 0 \<and>
     (\<forall>k \<le> 3. \<forall>v t. table_at m p4 k v = Some t \<longrightarrow> aligned t \<and> t \<notin> frame_avail m) \<and>
     (\<forall>k \<le> 3. \<forall>k' \<le> 3. \<forall>v v' t. table_at m p4 k v = Some t \<and> table_at m p4 k' v' = Some t \<longrightarrow>
        k = k' \<and> same_upto k v v') \<and>
     (\<forall>k \<le> 1. \<forall>v t. table_at m p4 k v = Some t \<longrightarrow>
        \<not> (pte_present (pte m t (lvl k v)) \<and> pte_huge (pte m t (lvl k v))))"

lemma tables_okD:
  assumes "tables_ok m p4"
  shows "p4 \<noteq> 0"
    and "k \<le> 3 \<Longrightarrow> table_at m p4 k v = Some t \<Longrightarrow> aligned t"
    and "k \<le> 3 \<Longrightarrow> table_at m p4 k v = Some t \<Longrightarrow> t \<notin> frame_avail m"
    and "k \<le> 3 \<Longrightarrow> k' \<le> 3 \<Longrightarrow> table_at m p4 k v = Some t \<Longrightarrow> table_at m p4 k' v' = Some t \<Longrightarrow>
           k = k' \<and> same_upto k v v'"
    and "k \<le> 1 \<Longrightarrow> table_at m p4 k v = Some t \<Longrightarrow> pte_present (pte m t (lvl k v)) \<Longrightarrow> \<not> pte_huge (pte m t (lvl k v))"
  using assms unfolding tables_ok_def by metis+

lemma table_at_prefix: "same_upto k u v \<Longrightarrow> table_at m p4 k u = table_at m p4 k v"
  by (induction k) (auto simp: same_upto_Suc split: option.split)

lemma table_at_None_mono: "table_at m p4 k v = None \<Longrightarrow> k \<le> j \<Longrightarrow> table_at m p4 j v = None"
  by (induction j) (auto simp: le_Suc_eq)

section \<open>Translation through the tree\<close>

text \<open>The leaf of the walk: the last table or the directory entry of a huge page.\<close>

lemma virt_to_phys_table:
  assumes ok: "tables_ok m p4"
  shows "virt_to_phys m p4 v =
    (case table_at m p4 2 v of None \<Rightarrow> None
     | Some p2 \<Rightarrow> let e = pte m p2 (lvl 2 v) in
        if \<not> pte_present e then None
        else if pte_huge e then Some ((e AND HUGE_MASK) OR (v AND (HUGE_SIZE - 1)))
        else let e1 = pte m (pte_addr e) (lvl 3 v) in
          if \<not> pte_present e1 then None else Some (pte_addr e1 OR (v AND 0xFFF)))"
proof -
  have p4: "p4 \<noteq> 0" using tables_okD(1) [OF ok] .
  have e4: "pte_present (pte m p4 (pidx 39 v)) \<Longrightarrow> \<not> pte_huge (pte m p4 (pidx 39 v))"
    using tables_okD(5) [OF ok, of 0 v p4] by simp
  show ?thesis
  proof (cases "pte_present (pte m p4 (pidx 39 v))")
    case False
    then show ?thesis using p4
      by (simp add: virt_to_phys_def walk_step_def next_table_def numeral_2_eq_2)
  next
    case True
    let ?p3 = "pte_addr (pte m p4 (pidx 39 v))"
    have t1: "table_at m p4 1 v = Some ?p3" using True e4 by (simp add: next_table_def)
    have e3: "pte_present (pte m ?p3 (pidx 30 v)) \<Longrightarrow> \<not> pte_huge (pte m ?p3 (pidx 30 v))"
      using tables_okD(5) [OF ok, of 1 v ?p3] t1 by simp
    show ?thesis using p4 True e4 e3
      by (simp add: virt_to_phys_def walk_step_def next_table_def numeral_2_eq_2 Let_def)
  qed
qed

section \<open>Changing one entry\<close>

lemma next_table_set_pte:
  "aligned t \<Longrightarrow> aligned t' \<Longrightarrow> i < 512 \<Longrightarrow> i' < 512 \<Longrightarrow>
   next_table (set_pte t i e m) t' i' =
     (if t' = t \<and> i' = i then (if pte_present e \<and> \<not> pte_huge e then Some (pte_addr e) else None) else next_table m t' i')"
  by (simp add: next_table_def pte_set_pte)

text \<open>
  Two memories that agree on every entry of every table of the tree have the same tree; \<open>agree m m' p4\<close> says so.
\<close>

definition agree :: "pmm \<Rightarrow> pmm \<Rightarrow> u64 \<Rightarrow> bool" where
  "agree m m' p4 \<longleftrightarrow> (\<forall>k \<le> 3. \<forall>v t. table_at m p4 k v = Some t \<longrightarrow> (\<forall>i < 512. pte m' t i = pte m t i))"

lemma agreeD: "agree m m' p4 \<Longrightarrow> table_at m p4 k v = Some t \<Longrightarrow> k \<le> 3 \<Longrightarrow> i < 512 \<Longrightarrow> pte m' t i = pte m t i"
  by (simp add: agree_def)

lemma agree_table_at: "agree m m' p4 \<Longrightarrow> k \<le> 4 \<Longrightarrow> table_at m' p4 k v = table_at m p4 k v"
proof (induction k)
  case 0
  then show ?case by simp
next
  case (Suc k)
  then have IH: "table_at m' p4 k v = table_at m p4 k v" by simp
  show ?case
  proof (cases "table_at m p4 k v")
    case None
    with IH show ?thesis by simp
  next
    case (Some t)
    with Suc.prems have "pte m' t (lvl k v) = pte m t (lvl k v)" by (simp add: agree_def)
    with Some IH show ?thesis by (simp add: next_table_def)
  qed
qed

lemma agree_tables_ok:
  assumes "tables_ok m p4" "agree m m' p4" "frame_avail m' \<subseteq> frame_avail m"
  shows "tables_ok m' p4"
proof -
  have t: "table_at m' p4 k v = table_at m p4 k v" if "k \<le> 3" for k v
    using agree_table_at [OF assms(2), of k v] that by simp
  have e: "pte m' t (lvl k v) = pte m t (lvl k v)" if "k \<le> 3" "table_at m p4 k v = Some t" for k v t
    using assms(2) that by (simp add: agree_def)
  note ok = tables_okD [OF assms(1)]
  show ?thesis unfolding tables_ok_def
  proof (intro conjI allI impI)
    show "p4 \<noteq> 0" by (rule ok(1))
  next
    fix k v tt assume "k \<le> 3" "table_at m' p4 k v = Some tt"
    then show "aligned tt" "tt \<notin> frame_avail m'" using ok(2,3) [of k v tt] t assms(3) by auto
  next
    fix k k' v v' tt assume "k \<le> 3" "k' \<le> 3" "table_at m' p4 k v = Some tt \<and> table_at m' p4 k' v' = Some tt"
    then show "k = k'" "same_upto k v v'" using ok(4) [of k k' v tt v'] t by auto
  next
    fix k v tt assume a: "k \<le> 1" "table_at m' p4 k v = Some tt"
    then have k: "k \<le> 3" and tt: "table_at m p4 k v = Some tt" using t [of k v] by auto
    show "\<not> (pte_present (pte m' tt (lvl k v)) \<and> pte_huge (pte m' tt (lvl k v)))"
      unfolding e [OF k tt] using ok(5) [OF a(1) tt] by blast
  qed
qed

lemma virt_to_phys_agree:
  assumes ok: "tables_ok m p4" "tables_ok m' p4" and ag: "agree m m' p4"
  shows "virt_to_phys m' p4 v = virt_to_phys m p4 v"
proof (cases "table_at m p4 2 v")
  case None
  then show ?thesis
    using agree_table_at [OF ag, of 2 v] by (simp add: virt_to_phys_table [OF ok(1)] virt_to_phys_table [OF ok(2)])
next
  case (Some p2)
  have e: "pte m' p2 (lvl 2 v) = pte m p2 (lvl 2 v)" by (rule agreeD [OF ag Some]) simp_all
  have e1: "pte m' (pte_addr (pte m p2 (lvl 2 v))) (lvl 3 v) = pte m (pte_addr (pte m p2 (lvl 2 v))) (lvl 3 v)"
    if "pte_present (pte m p2 (lvl 2 v))" "\<not> pte_huge (pte m p2 (lvl 2 v))"
  proof -
    have "table_at m p4 3 v = Some (pte_addr (pte m p2 (lvl 2 v)))"
      using Some that by (simp add: numeral_3_eq_3 numeral_2_eq_2 next_table_def)
    from agreeD [OF ag this] show ?thesis by simp
  qed
  show ?thesis
    using Some e e1 agree_table_at [OF ag, of 2 v]
    by (simp add: virt_to_phys_table [OF ok(1)] virt_to_phys_table [OF ok(2)] Let_def)
qed

text \<open>Taking and filling a free frame touches no table.\<close>

definition only_page :: "u64 \<Rightarrow> pmm \<Rightarrow> pmm \<Rightarrow> bool" where
  "only_page p m m' \<longleftrightarrow> (\<forall>t i. aligned t \<and> i < 512 \<and> t \<noteq> p \<longrightarrow> pte m' t i = pte m t i)"

lemma only_pageD: "only_page p m m' \<Longrightarrow> aligned t \<Longrightarrow> i < 512 \<Longrightarrow> t \<noteq> p \<Longrightarrow> pte m' t i = pte m t i"
  by (simp add: only_page_def)

lemma fresh_agree:
  assumes "tables_ok m p4" "only_page p m m'" "p \<in> frame_avail m"
  shows "agree m m' p4"
  unfolding agree_def
proof (intro allI impI)
  fix k v t i assume a: "k \<le> 3" "table_at m p4 k v = Some t" "i < (512 :: nat)"
  have "aligned t" "t \<noteq> p" using tables_okD(2,3) [OF assms(1) a(1,2)] assms(3) by auto
  with a(3) assms(2) show "pte m' t i = pte m t i" by (simp add: only_page_def)
qed

text \<open>A tree in which the entry of \<open>w\<close> at level \<open>k\<close> is replaced.\<close>

lemma table_at_set_pte:
  assumes ok: "tables_ok m p4" and k: "k \<le> 3" and t: "table_at m p4 k w = Some t"
  shows "j \<le> k \<Longrightarrow> table_at (set_pte t (lvl k w) e m) p4 j v = table_at m p4 j v"
    and "\<not> same_upto (Suc k) v w \<Longrightarrow> j \<le> 4 \<Longrightarrow> table_at (set_pte t (lvl k w) e m) p4 j v = table_at m p4 j v"
    and "same_upto (Suc k) v w \<Longrightarrow> table_at (set_pte t (lvl k w) e m) p4 (Suc k) v =
           (if pte_present e \<and> \<not> pte_huge e then Some (pte_addr e) else None)"
proof -
  let ?m = "set_pte t (lvl k w) e m"
  have al: "aligned t" using tables_okD(2) [OF ok k t] .
  have step: "next_table ?m u (lvl j v) = next_table m u (lvl j v)"
    if "table_at m p4 j v = Some u" "j \<le> 3" "j \<noteq> k \<or> \<not> same_upto (Suc k) v w" for j u v
  proof -
    have au: "aligned u" using tables_okD(2) [OF ok that(2,1)] .
    have "\<not> (u = t \<and> lvl j v = lvl k w)"
    proof
      assume "u = t \<and> lvl j v = lvl k w"
      then have "j = k \<and> same_upto k v w" "lvl j v = lvl k w"
        using tables_okD(4) [OF ok that(2) k that(1)] t by auto
      with that(3) show False by (auto simp: same_upto_Suc)
    qed
    then show ?thesis unfolding next_table_set_pte [OF al au lvl_less lvl_less] by (rule if_not_P)
  qed
  show low: "j \<le> k \<Longrightarrow> table_at ?m p4 j v = table_at m p4 j v" for j v
  proof (induction j)
    case (Suc j)
    then show ?case using step [of j v] k by (auto split: option.split)
  qed simp
  show "\<not> same_upto (Suc k) v w \<Longrightarrow> j \<le> 4 \<Longrightarrow> table_at ?m p4 j v = table_at m p4 j v"
  proof (induction j)
    case (Suc j)
    then show ?case using step [of j v] by (auto split: option.split)
  qed simp
  show "same_upto (Suc k) v w \<Longrightarrow> table_at ?m p4 (Suc k) v =
           (if pte_present e \<and> \<not> pte_huge e then Some (pte_addr e) else None)"
    using low [of k v] table_at_prefix [of k v w m p4] t
    by (simp add: same_upto_Suc next_table_set_pte [OF al al])
qed

lemma pte_set_other:
  assumes ok: "tables_ok m p4" and k: "k \<le> 3" and t: "table_at m p4 k w = Some t"
    and u: "j \<le> 3" "table_at m p4 j v = Some u" "j \<noteq> k \<or> \<not> same_upto (Suc k) v w"
  shows "pte (set_pte t (lvl k w) e m) u (lvl j v) = pte m u (lvl j v)"
proof -
  have "\<not> (u = t \<and> lvl j v = lvl k w)"
    using tables_okD(4) [OF ok u(1) k u(2), of w] t u(3) by (auto simp: same_upto_Suc)
  then show ?thesis
    unfolding pte_set_pte [OF tables_okD(2) [OF ok k t] tables_okD(2) [OF ok u(1,2)] lvl_less lvl_less]
    by (rule if_not_P)
qed

section \<open>Installing a fresh table\<close>

definition installs :: "pmm \<Rightarrow> u64 \<Rightarrow> nat \<Rightarrow> u64 \<Rightarrow> u64 \<Rightarrow> u64 \<Rightarrow> u64 \<Rightarrow> bool" where
  "installs m p4 k w t c e \<longleftrightarrow>
     tables_ok m p4 \<and> k \<le> 2 \<and> table_at m p4 k w = Some t \<and> next_table m t (lvl k w) = None \<and>
     aligned c \<and> c \<notin> frame_avail m \<and> (\<forall>j \<le> 3. \<forall>v. table_at m p4 j v \<noteq> Some c) \<and>
     pte_present e \<and> \<not> pte_huge e \<and> pte_addr e = c \<and> (k < 2 \<longrightarrow> (\<forall>i < 512. pte m c i = 0))"

lemma installsD:
  assumes "installs m p4 k w t c e"
  shows "tables_ok m p4" "k \<le> 2" "k \<le> 3" "Suc k \<le> 3" "table_at m p4 k w = Some t" "next_table m t (lvl k w) = None"
    "aligned c" "c \<notin> frame_avail m" "j \<le> 3 \<Longrightarrow> table_at m p4 j v \<noteq> Some c"
    "pte_present e" "\<not> pte_huge e" "pte_addr e = c" "k < 2 \<Longrightarrow> i < 512 \<Longrightarrow> pte m c i = 0"
    "aligned t" "t \<noteq> c"
proof -
  show ok: "tables_ok m p4" and k: "k \<le> 3" and t: "table_at m p4 k w = Some t"
    and f: "\<And>j v. j \<le> 3 \<Longrightarrow> table_at m p4 j v \<noteq> Some c"
    using assms by (auto simp: installs_def)
  show "aligned t" "t \<noteq> c" using tables_okD(2) [OF ok k t] f [OF k, of w] t by auto
qed (use assms in \<open>auto simp: installs_def\<close>)

abbreviation inst :: "nat \<Rightarrow> u64 \<Rightarrow> u64 \<Rightarrow> u64 \<Rightarrow> pmm \<Rightarrow> pmm" where
  "inst k w t e m \<equiv> set_pte t (lvl k w) e m"

lemma inst_child_entries:
  assumes "installs m p4 k w t c e" "i < 512"
  shows "pte (inst k w t e m) c i = pte m c i"
  using installsD [OF assms(1)] assms(2) by (simp add: pte_set_pte)

lemma inst_entry: "aligned t \<Longrightarrow> pte (inst k w t e m) t (lvl k w) = e"
  by (simp add: pte_set_pte)

lemma inst_tree:
  assumes i: "installs m p4 k w t c e" and j: "j \<le> 3"
  shows "table_at (inst k w t e m) p4 j v =
   (if same_upto (Suc k) v w \<and> j = Suc k then Some c
    else if same_upto (Suc k) v w \<and> Suc k < j then None else table_at m p4 j v)"
proof -
  note d = installsD [OF i]
  note s = table_at_set_pte [OF d(1,3,5), where e = e and v = v]
  consider "\<not> same_upto (Suc k) v w" | "same_upto (Suc k) v w" "j \<le> k" | "same_upto (Suc k) v w" "j = Suc k"
    | "same_upto (Suc k) v w" "Suc k < j" by linarith
  then show ?thesis
  proof cases
    case 4
    have kk: "k < 2" using 4(2) j by simp
    have "table_at (inst k w t e m) p4 (Suc k) v = Some c" using s(3) 4(1) d(10-12) by simp
    then have "table_at (inst k w t e m) p4 (Suc (Suc k)) v = None"
      using inst_child_entries [OF i lvl_less] d(13) [OF kk lvl_less] by (simp add: next_table_def)
    from table_at_None_mono [OF this, of j] 4 show ?thesis by simp
  qed (use s j d(10-12) in auto)
qed

lemma inst_tables_ok:
  assumes i: "installs m p4 k w t c e"
  shows "tables_ok (inst k w t e m) p4"
proof -
  let ?m = "inst k w t e m"
  note d = installsD [OF i]
  note okm = tables_okD [OF d(1)]
  note tree = inst_tree [OF i]
  have old: "table_at m p4 j v = Some u" if "j \<le> 3" "table_at ?m p4 j v = Some u" "u \<noteq> c" for j v u
    using that tree [of j v] by (auto split: if_splits)
  have new: "j = Suc k \<and> same_upto (Suc k) v w" if "j \<le> 3" "table_at ?m p4 j v = Some c" for j v
    using that tree [of j v] d(9) [of j v] by (auto split: if_splits)
  show ?thesis unfolding tables_ok_def
  proof (intro conjI allI impI)
    show "p4 \<noteq> 0" by (rule okm(1))
  next
    fix j v u assume a: "j \<le> 3" "table_at ?m p4 j v = Some u"
    then show "aligned u" "u \<notin> frame_avail ?m"
      using okm(2,3) [OF a(1)] old [OF a] d(7,8) by (cases "u = c"; auto)+
  next
    fix j j' v v' u
    assume a: "j \<le> 3" "j' \<le> 3" "table_at ?m p4 j v = Some u \<and> table_at ?m p4 j' v' = Some u"
    have "j = j' \<and> same_upto j v v'"
    proof (cases "u = c")
      case True
      with new [of j v] new [of j' v'] a show ?thesis by (auto simp: same_upto_def)
    next
      case False
      with a old have "table_at m p4 j v = Some u" "table_at m p4 j' v' = Some u" by blast+
      with okm(4) [OF a(1,2)] show ?thesis by blast
    qed
    then show "j = j'" "same_upto j v v'" by auto
  next
    fix j v u assume a: "j \<le> 1" "table_at ?m p4 j v = Some u"
    have j3: "j \<le> 3" using a(1) by simp
    show "\<not> (pte_present (pte ?m u (lvl j v)) \<and> pte_huge (pte ?m u (lvl j v)))"
    proof (cases "u = c")
      case True
      with new [OF j3] a have "j = Suc k" by blast
      then have "pte ?m u (lvl j v) = 0"
        using True a inst_child_entries [OF i lvl_less, of j v] d(13) [of "lvl j v"] by simp
      then show ?thesis by simp
    next
      case False
      with old [OF j3 a(2)] have u: "table_at m p4 j v = Some u" by blast
      show ?thesis
      proof (cases "j = k \<and> same_upto (Suc k) v w")
        case True
        then have "u = t" "lvl j v = lvl k w"
          using u d(5) table_at_prefix [of k v w m p4] by (auto simp: same_upto_Suc)
        then show ?thesis using inst_entry [OF d(14)] d(11) by metis
      next
        case False
        with pte_set_other [OF d(1,3,5) j3 u, of e] okm(5) [OF a(1) u] show ?thesis by auto
      qed
    qed
  qed
qed

lemma inst_new_table: "installs m p4 k w t c e \<Longrightarrow> table_at (inst k w t e m) p4 (Suc k) w = Some c"
  using inst_tree [of m p4 k w t c e "Suc k" w] installsD(4) by simp

text \<open>Translation of addresses that do not use the replaced entry.\<close>

lemma virt_set_other:
  assumes ok: "tables_ok m p4" "tables_ok (inst k w t e m) p4" and k: "k \<le> 3" and t: "table_at m p4 k w = Some t"
    and n: "\<not> same_upto (Suc k) v w"
  shows "virt_to_phys (inst k w t e m) p4 v = virt_to_phys m p4 v"
proof -
  let ?m = "inst k w t e m"
  have same: "table_at ?m p4 2 v = table_at m p4 2 v"
    using table_at_set_pte(2) [OF ok(1) k t n, of 2] by simp
  have ent: "pte ?m u (lvl j v) = pte m u (lvl j v)" if "j \<le> 3" "table_at m p4 j v = Some u" for j u
    using pte_set_other [OF ok(1) k t that] n by blast
  show ?thesis
  proof (cases "table_at m p4 2 v")
    case None
    then show ?thesis using same by (simp add: virt_to_phys_table [OF ok(1)] virt_to_phys_table [OF ok(2)])
  next
    case (Some p2)
    have e2: "pte ?m p2 (lvl 2 v) = pte m p2 (lvl 2 v)" by (rule ent [OF _ Some]) simp
    have e1: "pte ?m (pte_addr (pte m p2 (lvl 2 v))) (lvl 3 v) = pte m (pte_addr (pte m p2 (lvl 2 v))) (lvl 3 v)"
      if "pte_present (pte m p2 (lvl 2 v))" "\<not> pte_huge (pte m p2 (lvl 2 v))"
      by (rule ent) (use Some that in \<open>simp_all add: numeral_3_eq_3 numeral_2_eq_2 next_table_def\<close>)
    show ?thesis using Some same e2 e1
      by (simp add: virt_to_phys_table [OF ok(1)] virt_to_phys_table [OF ok(2)] Let_def)
  qed
qed

text \<open>Translation through the new table: above the last level nothing is mapped, as before.\<close>

lemma inst_virt_upper:
  assumes i: "installs m p4 k w t c e" and k: "k < 2" and s: "same_upto (Suc k) v w"
  shows "virt_to_phys (inst k w t e m) p4 v = virt_to_phys m p4 v"
proof -
  note d = installsD [OF i]
  have "table_at m p4 (Suc k) v = table_at m p4 (Suc k) w" using s by (rule table_at_prefix)
  also have "\<dots> = None" using d(5,6) by simp
  finally have "table_at m p4 2 v = None" using k by (intro table_at_None_mono [of m p4 "Suc k" v 2]) auto
  then have a: "virt_to_phys m p4 v = None" by (simp add: virt_to_phys_table [OF d(1)])
  have "table_at (inst k w t e m) p4 2 v = None \<or>
      (table_at (inst k w t e m) p4 2 v = Some c \<and> pte (inst k w t e m) c (lvl 2 v) = 0)"
    using inst_tree [OF i, of 2 v] s k inst_child_entries [OF i lvl_less, of 2 v] d(13) [OF k lvl_less, of 2 v] by auto
  then have "virt_to_phys (inst k w t e m) p4 v = None" by (auto simp: virt_to_phys_table [OF inst_tables_ok [OF i]])
  with a show ?thesis by simp
qed

text \<open>Translation through a new last-level table.\<close>

definition leaf_phys :: "u64 \<Rightarrow> u64 \<Rightarrow> u64 option" where
  "leaf_phys e v = (if \<not> pte_present e then None else Some (pte_addr e OR (v AND 0xFFF)))"

lemma inst_virt_leaf:
  assumes i: "installs m p4 2 w t c e" and s: "same_upto 3 v w"
  shows "virt_to_phys (inst 2 w t e m) p4 v = leaf_phys (pte m c (lvl 3 v)) v"
proof -
  let ?m = "inst 2 w t e m"
  note d = installsD [OF i]
  have l: "lvl 2 v = lvl 2 w" using s [unfolded same_upto_def, rule_format, of 2] by simp
  have "table_at m p4 2 v = Some t"
    using table_at_prefix [of 2 v w m p4] same_upto_mono [OF s, of 2] d(5) by simp
  moreover have "table_at ?m p4 2 v = table_at m p4 2 v" using inst_tree [OF i, of 2 v] by auto
  moreover have "pte ?m t (lvl 2 v) = e" unfolding l using inst_entry [OF d(14)] .
  moreover have "pte ?m c (lvl 3 v) = pte m c (lvl 3 v)" using inst_child_entries [OF i lvl_less] .
  ultimately show ?thesis using d(10-12)
    unfolding virt_to_phys_table [OF inst_tables_ok [OF i]] by (simp add: Let_def leaf_phys_def)
qed

section \<open>Updating flags of an entry\<close>

text \<open>An entry keeps its meaning when it keeps its present and size bits and its address.\<close>

definition same_target :: "u64 \<Rightarrow> u64 \<Rightarrow> bool" where
  "same_target e e' \<longleftrightarrow> pte_present e' = pte_present e \<and> pte_huge e' = pte_huge e \<and> pte_addr e' = pte_addr e \<and>
     e' AND HUGE_MASK = e AND HUGE_MASK"

lemma flag_update:
  assumes ok: "tables_ok m p4" and k: "k \<le> 2" and t: "table_at m p4 k w = Some t"
    and e: "same_target (pte m t (lvl k w)) e"
  shows "tables_ok (inst k w t e m) p4"
    and "j \<le> 3 \<Longrightarrow> table_at (inst k w t e m) p4 j v = table_at m p4 j v"
    and "virt_to_phys (inst k w t e m) p4 v = virt_to_phys m p4 v"
proof -
  let ?m = "inst k w t e m"
  have k3: "k \<le> 3" using k by simp
  have al: "aligned t" using tables_okD(2) [OF ok k3 t] .
  note s = table_at_set_pte [OF ok k3 t, where e = e]
  have at: "table_at m p4 k v = Some t \<and> lvl k v = lvl k w" if "same_upto (Suc k) v w" for v
    using that table_at_prefix [of k v w m p4] t by (simp add: same_upto_Suc)
  have ent: "pte ?m u (lvl j v) = (if j = k \<and> same_upto (Suc k) v w then e else pte m u (lvl j v))"
    if "j \<le> 3" "table_at m p4 j v = Some u" for j v u
  proof (cases "j = k \<and> same_upto (Suc k) v w")
    case True
    then have "u = t" "lvl j v = lvl k w" using at [of v] that by auto
    with True inst_entry [OF al] show ?thesis by simp
  next
    case False
    with pte_set_other [OF ok k3 t that, of e] show ?thesis by auto
  qed
  have old: "same_target (pte m u (lvl j v)) e" if "j = k" "same_upto (Suc k) v w" "table_at m p4 j v = Some u" for j v u
    using at [OF that(2)] that e by simp
  have tree: "table_at ?m p4 j v = table_at m p4 j v" if "j \<le> 4" for j v
    using that
  proof (induction j)
    case (Suc j)
    then have IH: "table_at ?m p4 j v = table_at m p4 j v" by simp
    show ?case
    proof (cases "table_at m p4 j v")
      case None
      with IH show ?thesis by simp
    next
      case (Some u)
      have "next_table ?m u (lvl j v) = next_table m u (lvl j v)"
        using ent [OF _ Some] Suc.prems old [OF _ _ Some] by (auto simp: next_table_def same_target_def Let_def)
      with IH Some show ?thesis by simp
    qed
  qed simp
  show "j \<le> 3 \<Longrightarrow> table_at ?m p4 j v = table_at m p4 j v" using tree [of j v] by simp
  show ok': "tables_ok ?m p4" unfolding tables_ok_def
  proof (intro conjI allI impI)
    show "p4 \<noteq> 0" using tables_okD(1) [OF ok] .
  next
    fix j v u assume "j \<le> 3" "table_at ?m p4 j v = Some u"
    then show "aligned u" "u \<notin> frame_avail ?m" using tables_okD(2,3) [OF ok, of j v u] tree [of j v] by auto
  next
    fix j j' v v' u assume "j \<le> 3" "j' \<le> 3" "table_at ?m p4 j v = Some u \<and> table_at ?m p4 j' v' = Some u"
    then show "j = j'" "same_upto j v v'" using tables_okD(4) [OF ok, of j j' v u v'] tree [of j v] tree [of j' v'] by auto
  next
    fix j v u assume a: "j \<le> 1" "table_at ?m p4 j v = Some u"
    then have j: "j \<le> 3" and u: "table_at m p4 j v = Some u" using tree [of j v] by auto
    show "\<not> (pte_present (pte ?m u (lvl j v)) \<and> pte_huge (pte ?m u (lvl j v)))"
      using ent [OF j u] old [OF _ _ u] tables_okD(5) [OF ok a(1) u] by (auto simp: same_target_def)
  qed
  show "virt_to_phys ?m p4 v = virt_to_phys m p4 v"
  proof (cases "table_at m p4 2 v")
    case None
    then show ?thesis using tree [of 2 v] by (simp add: virt_to_phys_table [OF ok] virt_to_phys_table [OF ok'])
  next
    case (Some p2)
    have e2: "pte_present (pte ?m p2 (lvl 2 v)) = pte_present (pte m p2 (lvl 2 v))"
      "pte_huge (pte ?m p2 (lvl 2 v)) = pte_huge (pte m p2 (lvl 2 v))"
      "pte_addr (pte ?m p2 (lvl 2 v)) = pte_addr (pte m p2 (lvl 2 v))"
      "pte ?m p2 (lvl 2 v) AND HUGE_MASK = pte m p2 (lvl 2 v) AND HUGE_MASK"
      using ent [OF _ Some] old [OF _ _ Some] by (auto simp: same_target_def)
    have e1: "pte ?m (pte_addr (pte m p2 (lvl 2 v))) (lvl 3 v) = pte m (pte_addr (pte m p2 (lvl 2 v))) (lvl 3 v)"
      if "pte_present (pte m p2 (lvl 2 v))" "\<not> pte_huge (pte m p2 (lvl 2 v))"
    proof -
      have "table_at m p4 3 v = Some (pte_addr (pte m p2 (lvl 2 v)))"
        using Some that by (simp add: numeral_3_eq_3 numeral_2_eq_2 next_table_def)
      from ent [OF _ this] k show ?thesis by simp
    qed
    show ?thesis using Some tree [of 2 v] e2 e1
      by (simp add: virt_to_phys_table [OF ok] virt_to_phys_table [OF ok'] Let_def)
  qed
qed

section \<open>Getting or creating a table\<close>

definition phys_ok :: "pmm \<Rightarrow> bool" where
  "phys_ok m \<longleftrightarrow> pmm_inv m \<and> aligned (pm_base m) \<and> unat (pm_base m) + pm_total m * 4096 \<le> 2 ^ 52"

definition vmm_ok :: "pmm \<Rightarrow> u64 \<Rightarrow> bool" where
  "vmm_ok m p4 \<longleftrightarrow> phys_ok m \<and> tables_ok m p4"

lemma aligned_fp: "phys_ok m \<Longrightarrow> i < pm_total m \<Longrightarrow> aligned (fp m i) \<and> fp m i AND PTE_ADDR = fp m i"
proof -
  assume m: "phys_ok m" and i: "i < pm_total m"
  then have u: "unat (fp m i) = unat (pm_base m) + i * 4096" by (intro unat_fp) (auto simp: phys_ok_def)
  have "aligned (fp m i)" using m u by (simp add: phys_ok_def aligned_def)
  moreover have "unat (fp m i) < 2 ^ 52" using m u i by (simp add: phys_ok_def)
  ultimately show ?thesis using addr_mask_id by blast
qed

text \<open>What a memory operation keeps: the lock, the frame set it has left, and physical well-formedness.\<close>

definition mem_step :: "u64 set \<Rightarrow> pmm \<Rightarrow> pmm \<Rightarrow> bool" where
  "mem_step A m m' \<longleftrightarrow> phys_ok m' \<and> pm_lock m' = pm_lock m \<and> frame_avail m' = frame_avail m - A \<and>
     pm_base m' = pm_base m \<and> pm_total m' = pm_total m \<and> (\<forall>i. pm_refs m i = 1 \<longrightarrow> pm_refs m' i = 1)"

lemma mem_step_set_pte: "phys_ok m \<Longrightarrow> mem_step {} m (set_pte t i e m)"
  by (simp add: mem_step_def phys_ok_def)

lemma mem_step_trans: "mem_step A m m1 \<Longrightarrow> mem_step B m1 m2 \<Longrightarrow> mem_step (A \<union> B) m m2"
  by (auto simp: mem_step_def)

lemma zpg_result:
  assumes m: "phys_ok m"
  shows "(frame_avail m = {} \<and> zpg m = Panic) \<or>
    (\<exists>c m1. zpg m = Done (c, m1) \<and> c \<in> frame_avail m \<and> mem_step {c} m m1 \<and> aligned c \<and> c AND PTE_ADDR = c \<and>
       only_page c m m1 \<and> (\<forall>i < 512. pte m1 c i = 0))"
proof -
  have inv: "pmm_inv m" using m by (simp add: phys_ok_def)
  from mm_alloc_nolock_result [OF inv] show ?thesis
  proof (elim disjE exE conjE)
    assume "free_set m = {}" "mm_alloc_nolock m = Panic"
    then show ?thesis by (simp add: zpg_def frame_avail_def)
  next
    fix i m' assume a: "mm_alloc_nolock m = Done (fp m i, m')" and t: "frame_taken i m m'"
    have i: "i < pm_total m" using t by (auto simp: frame_taken_def free_set_def managed_def)
    note al = aligned_fp [OF m i]
    note av = frame_taken_avail [OF inv t]
    have mem: "pm_mem m' = pm_mem m" using t by (simp add: frame_taken_def)
    have ph: "phys_ok m'" "pm_lock m' = pm_lock m" "pm_base m' = pm_base m" "pm_total m' = pm_total m"
      "\<forall>i. pm_refs m i = 1 \<longrightarrow> pm_refs m' i = 1"
      using t m frame_taken_simps(1) [OF t] by (auto simp: frame_taken_def phys_ok_def)
    let ?m1 = "zero_page (fp m i) m'"
    have "zpg m = Done (fp m i, ?m1)" using a by (simp add: zpg_def)
    moreover have "mem_step {fp m i} m ?m1" using ph av by (simp add: mem_step_def phys_ok_def)
    moreover have "only_page (fp m i) m ?m1"
      using al mem by (auto simp: only_page_def pte_zero_page) (simp add: pte_def)
    moreover have "\<forall>j < 512. pte ?m1 (fp m i) j = 0" using al by (simp add: pte_zero_page)
    ultimately show ?thesis using al av(1) by blast
  qed
qed

lemma fill_table:
  assumes "aligned c" "n \<le> 512"
  shows "aligned t \<Longrightarrow> i < 512 \<Longrightarrow>
    pte (fold (\<lambda>j. set_pte c j (g j)) [0..<n] m) t i = (if t = c \<and> i < n then g i else pte m t i)"
  using assms(2)
proof (induction n arbitrary: i)
  case (Suc n)
  then show ?case using assms(1) by (auto simp: pte_set_pte less_Suc_eq)
qed simp

lemma fold_set_pte_step: "phys_ok m \<Longrightarrow> mem_step {} m (fold (\<lambda>j. set_pte c j (g j)) js m)"
proof (induction js arbitrary: m)
  case Nil
  then show ?case by (simp add: mem_step_def)
next
  case (Cons j js)
  have s: "mem_step {} m (set_pte c j (g j) m)" using Cons.prems by (rule mem_step_set_pte)
  then have "phys_ok (set_pte c j (g j) m)" by (simp add: mem_step_def)
  from mem_step_trans [OF s Cons.IH [OF this]] show ?case by simp
qed

lemma fresh_tables:
  assumes ok: "tables_ok m p4" and op: "only_page c m m1" and c: "c \<in> frame_avail m"
    and av: "frame_avail m1 = frame_avail m - {c}"
  shows "tables_ok m1 p4" "k \<le> 3 \<Longrightarrow> table_at m1 p4 k v = table_at m p4 k v"
    "virt_to_phys m1 p4 v = virt_to_phys m p4 v" "k \<le> 3 \<Longrightarrow> table_at m1 p4 k v \<noteq> Some c" "c \<notin> frame_avail m1"
proof -
  note ag = fresh_agree [OF ok op c]
  show ok1: "tables_ok m1 p4" using agree_tables_ok [OF ok ag] av by auto
  show t: "k \<le> 3 \<Longrightarrow> table_at m1 p4 k v = table_at m p4 k v" using agree_table_at [OF ag, of k v] by simp
  show "virt_to_phys m1 p4 v = virt_to_phys m p4 v" using virt_to_phys_agree [OF ok ok1 ag] .
  show "k \<le> 3 \<Longrightarrow> table_at m1 p4 k v \<noteq> Some c" using t tables_okD(3) [OF ok, of k v c] c by auto
  show "c \<notin> frame_avail m1" using av by simp
qed

lemma table_flags: "flags_only PTE_W" "flags_only (PTE_W OR PTE_U)" "\<not> bit PTE_W 7" "\<not> bit (PTE_W OR PTE_U) 7"
  by (simp_all add: flags_only_def PTE_W_def PTE_U_def PTE_ADDR_def bit_at_def bit_or_iff bit_simps)

lemma inter_flags_cases: "inter_flags f = PTE_W \<or> inter_flags f = PTE_W OR PTE_U"
  by (simp add: inter_flags_def)

lemma inter_flags_ok: "flags_only (inter_flags f)" "\<not> bit (inter_flags f) 7"
  using inter_flags_cases [of f] table_flags by auto

lemma or_flags_same_target: "same_target e (e OR (f AND (PTE_W OR PTE_U)))"
proof -
  have b: "bit (e OR (f AND (PTE_W OR PTE_U))) n = bit e n" if "n \<noteq> 1" "n \<noteq> 2" for n
    using that by (auto simp: bit_or_iff bit_and_iff PTE_W_def PTE_U_def)
  show ?thesis unfolding same_target_def pte_test_bits pte_addr_def using b
    by (intro conjI bit_eqI) (auto simp: bit_and_iff bit_PTE_ADDR bit_HUGE_MASK)
qed

text \<open>The address bits of a page inside a huge page.\<close>

lemma split_huge_phys:
  "pte_addr (pte_make ((e AND HUGE_MASK) + of_nat (pidx 12 v) * PAGE_SIZE) PTE_W) OR (v AND 0xFFF) =
   (e AND HUGE_MASK) OR (v AND (HUGE_SIZE - 1))"
proof -
  let ?o = "of_nat (pidx 12 v) * PAGE_SIZE"
  have "drop_bit 12 v AND 0x1FF = take_bit 9 (drop_bit 12 v)" by (simp add: take_bit_eq_mask mask_eq_exp_minus_1)
  then have "of_nat (pidx 12 v) = take_bit 9 (drop_bit 12 v)" by (simp add: pidx_def)
  then have o: "?o = push_bit 12 (take_bit 9 (drop_bit 12 v))" by (simp add: PAGE_SIZE_def push_bit_eq_mult)
  have bo: "bit ?o n \<longleftrightarrow> 12 \<le> n \<and> n < 21 \<and> bit v n" for n
    unfolding o using bit_imp_le_length [of v n] by (auto simp: bit_simps)
  have sum: "(e AND HUGE_MASK) + ?o = (e AND HUGE_MASK) OR ?o"
    by (rule disjunctive_add) (auto simp: bit_and_iff bit_HUGE_MASK bo)
  have m1: "(0xFFF :: u64) = mask 12" and m2: "HUGE_SIZE - 1 = mask 21"
    by (simp_all add: HUGE_SIZE_def mask_eq_exp_minus_1)
  have fl: "flags_only PTE_W" by (rule table_flags)
  show ?thesis unfolding pte_addr_make [OF fl] sum m1 m2
    by (rule bit_eqI) (auto simp: bit_simps bit_PTE_ADDR bit_HUGE_MASK bo)
qed

lemma goc_result:
  assumes m: "vmm_ok m p4" and k: "k \<le> 2" and t: "table_at m p4 k w = Some tab" and f: "flags_only fl" "\<not> bit fl 7"
  shows "(frame_avail m = {} \<and> goc tab (lvl k w) fl m = Panic) \<or>
    (\<exists>c m'. goc tab (lvl k w) fl m = Done (c, m') \<and> vmm_ok m' p4 \<and> table_at m' p4 (Suc k) w = Some c \<and>
       (\<forall>v. virt_to_phys m' p4 v = virt_to_phys m p4 v) \<and> (\<exists>A. mem_step A m m' \<and> finite A \<and> card A \<le> 1))"
proof -
  have ph: "phys_ok m" and ok: "tables_ok m p4" using m by (auto simp: vmm_ok_def)
  have k3: "k \<le> 3" using k by simp
  have al: "aligned tab" using tables_okD(2) [OF ok k3 t] .
  let ?i = "lvl k w" and ?e = "pte m tab (lvl k w)"
  have mk: "pte_present (pte_make c fl)" "\<not> pte_huge (pte_make c fl)" "c AND PTE_ADDR = c \<Longrightarrow> pte_addr (pte_make c fl) = c"
    for c using f by (simp_all add: pte_make_bits pte_addr_make)
  show ?thesis
  proof (cases "pte_present ?e")
    case False
    from zpg_result [OF ph] show ?thesis
    proof (elim disjE exE conjE)
      assume "frame_avail m = {}" "zpg m = Panic"
      with False show ?thesis by (simp add: goc_def)
    next
      fix c m1 assume z: "zpg m = Done (c, m1)" "c \<in> frame_avail m" "mem_step {c} m m1" "aligned c" "c AND PTE_ADDR = c"
        "only_page c m m1" "\<forall>i < 512. pte m1 c i = 0"
      have av: "frame_avail m1 = frame_avail m - {c}" using z(3) by (simp add: mem_step_def)
      note fr = fresh_tables [OF ok z(6,2) av]
      have t1: "table_at m1 p4 k w = Some tab" using fr(2) [OF k3] t by simp
      have ne: "tab \<noteq> c" using fr(4) [OF k3, of w] t1 by auto
      have "pte m1 tab ?i = ?e" using z(6) al ne by (simp add: only_page_def)
      then have cl: "next_table m1 tab ?i = None" using False by (simp add: next_table_def)
      have inst: "installs m1 p4 k w tab c (pte_make c fl)"
        unfolding installs_def using fr k t1 cl z mk by auto
      let ?m = "inst k w tab (pte_make c fl) m1"
      have g: "goc tab ?i fl m = Done (c, ?m)" using False z(1) by (simp add: goc_def)
      have v: "virt_to_phys ?m p4 v = virt_to_phys m p4 v" for v
      proof (cases "same_upto (Suc k) v w")
        case s: True
        show ?thesis
        proof (cases "k < 2")
          case True
          from inst_virt_upper [OF inst this s] fr(3) show ?thesis by simp
        next
          case False
          with k have k2: "k = 2" by simp
          have l: "lvl 2 v = lvl 2 w" using s unfolding same_upto_Suc k2 by blast
          have "virt_to_phys ?m p4 v = leaf_phys (pte m1 c (lvl 3 v)) v"
            using inst_virt_leaf [OF inst [unfolded k2]] s k2 by (simp add: numeral_3_eq_3)
          also have "\<dots> = None" using z(7) lvl_less [of 3 v] by (simp add: leaf_phys_def)
          also have "virt_to_phys m p4 v = None"
            using table_at_prefix [OF same_upto_mono [OF s, of 2]] t k2 False \<open>\<not> pte_present ?e\<close> l
            by (simp add: virt_to_phys_table [OF ok])
          finally show ?thesis ..
        qed
      next
        case False
        from virt_set_other [OF fr(1) inst_tables_ok [OF inst] k3 t1 False] fr(3) show ?thesis by simp
      qed
      have "mem_step {c} m ?m"
        using mem_step_trans [OF z(3) mem_step_set_pte] z(3) by (simp add: mem_step_def)
      moreover from this have "vmm_ok ?m p4" using inst_tables_ok [OF inst] by (simp add: vmm_ok_def mem_step_def)
      ultimately show ?thesis using g inst_new_table [OF inst] v
        by (intro disjI2 exI [of _ c] exI [of _ ?m] conjI allI exI [of _ "{c}"]) simp_all
    qed
  next
    case True
    let ?e1 = "?e OR (fl AND (PTE_W OR PTE_U))"
    let ?m1 = "inst k w tab ?e1 m"
    have st: "same_target ?e ?e1" by (rule or_flags_same_target)
    note fu = flag_update [OF ok k t st]
    have e1: "pte ?m1 tab ?i = ?e1" using inst_entry [OF al] .
    have s1: "mem_step {} m ?m1" using ph by (rule mem_step_set_pte)
    have ph1: "phys_ok ?m1" using s1 by (simp add: mem_step_def)
    show ?thesis
    proof (cases "pte_huge ?e1")
      case False
      have g: "goc tab ?i fl m = Done (pte_addr ?e1, ?m1)"
        using True False by (simp add: goc_def Let_def e1)
      have "table_at ?m1 p4 k w = Some tab" using fu(2) [OF k3] t by simp
      then have "table_at ?m1 p4 (Suc k) w = Some (pte_addr ?e1)"
        using True False st e1 by (simp add: next_table_def same_target_def)
      with g fu(1,3) s1 ph1 show ?thesis
        by (intro disjI2 exI [of _ "pte_addr ?e1"] exI [of _ ?m1] conjI allI exI [of _ "{}"]) (simp_all add: vmm_ok_def)
    next
      case huge: True
      have k2: "k = 2"
      proof (rule ccontr)
        assume "k \<noteq> 2"
        then have "k \<le> 1" using k by simp
        from tables_okD(5) [OF ok this t True] st huge show False by (simp add: same_target_def)
      qed
      have t1: "table_at ?m1 p4 k w = Some tab" using fu(2) [OF k3] t by simp
      from zpg_result [OF ph1] show ?thesis
      proof (elim disjE exE conjE)
        assume "frame_avail ?m1 = {}" "zpg ?m1 = Panic"
        with True huge e1 show ?thesis by (simp add: goc_def Let_def)
      next
        fix c m2 assume z: "zpg ?m1 = Done (c, m2)" "c \<in> frame_avail ?m1" "mem_step {c} ?m1 m2" "aligned c"
          "c AND PTE_ADDR = c" "only_page c ?m1 m2"
        let ?g = "\<lambda>j. pte_make ((?e1 AND HUGE_MASK) + of_nat j * PAGE_SIZE) PTE_W"
        define m3 where "m3 = fold (\<lambda>j. set_pte c j (?g j)) [0..<512] m2"
        have ph2: "phys_ok m2" using z(3) by (simp add: mem_step_def)
        have s3: "mem_step {c} ?m1 m3" unfolding m3_def
          using mem_step_trans [OF z(3) fold_set_pte_step [OF ph2, of c ?g "[0..<512]"]] by (simp only: Un_empty_right)
        note fill = fill_table [OF z(4) order_refl, where g = ?g and m = m2, folded m3_def]
        have op3: "only_page c ?m1 m3" unfolding only_page_def
        proof (intro allI impI, elim conjE)
          fix u i assume u: "aligned u" "i < (512 :: nat)" "u \<noteq> c"
          have "pte m3 u i = pte m2 u i" unfolding fill [OF u(1,2)] using u(3) by simp
          with only_pageD [OF z(6) u] show "pte m3 u i = pte ?m1 u i" by simp
        qed
        have av: "frame_avail m3 = frame_avail ?m1 - {c}" using s3 unfolding mem_step_def by blast
        note fr = fresh_tables [OF fu(1) op3 z(2) av]
        have t3: "table_at m3 p4 k w = Some tab" using fr(2) [OF k3] t1 by metis
        have ne: "tab \<noteq> c" using fr(4) [OF k3, of w] t3 by metis
        have e3: "pte m3 tab ?i = ?e1" by (rule trans [OF only_pageD [OF op3 al lvl_less ne] e1])
        have cl: "next_table m3 tab ?i = None" using huge e3 unfolding next_table_def Let_def by simp
        have inst: "installs m3 p4 k w tab c (pte_make c fl)"
          unfolding installs_def using fr(1,4,5) k k2 t3 cl z(4) mk(1,2) mk(3) [OF z(5)] by blast
        let ?m = "inst k w tab (pte_make c fl) m3"
        have "pte ?m tab ?i = pte_make c fl" using inst_entry [OF al] .
        then have g: "goc tab ?i fl m = Done (c, ?m)"
          using True huge z(1) mk(3) [OF z(5)] by (simp add: goc_def Let_def e1 m3_def del: upt_rec_numeral)
        have v: "virt_to_phys ?m p4 v = virt_to_phys m p4 v" for v
        proof (cases "same_upto (Suc k) v w")
          case s: True
          have l: "lvl 2 v = lvl 2 w" using s unfolding same_upto_Suc k2 by blast
          have s3': "same_upto 3 v w" using s k2 by (simp add: numeral_3_eq_3 numeral_2_eq_2)
          have "virt_to_phys ?m p4 v = leaf_phys (pte m3 c (lvl 3 v)) v"
            using inst_virt_leaf [OF inst [unfolded k2] s3'] unfolding k2 .
          also have "pte m3 c (lvl 3 v) = ?g (lvl 3 v)" unfolding fill [OF z(4) lvl_less] using lvl_less [of 3 v] by simp
          also have "leaf_phys (?g (lvl 3 v)) v = Some ((?e1 AND HUGE_MASK) OR (v AND (HUGE_SIZE - 1)))"
            using split_huge_phys [of ?e1 v] by (simp add: leaf_phys_def)
          also have "\<dots> = virt_to_phys m p4 v"
          proof -
            have "table_at m p4 2 v = Some tab"
              using table_at_prefix [OF same_upto_mono [OF s, of 2]] t k2 by simp
            moreover have "pte_huge ?e" "?e1 AND HUGE_MASK = ?e AND HUGE_MASK" using st huge by (auto simp: same_target_def)
            ultimately show ?thesis using True l k2 by (simp add: virt_to_phys_table [OF ok])
          qed
          finally show ?thesis .
        next
          case False
          from virt_set_other [OF fr(1) inst_tables_ok [OF inst] k3 t3 False] show ?thesis unfolding fr(3) fu(3) .
        qed
        have ph3: "phys_ok m3" using s3 unfolding mem_step_def by blast
        have "mem_step {c} m ?m"
          using mem_step_trans [OF mem_step_trans [OF s1 s3] mem_step_set_pte [OF ph3]]
          by (simp only: Un_empty_left Un_empty_right)
        moreover from this have "vmm_ok ?m p4" using inst_tables_ok [OF inst] unfolding vmm_ok_def mem_step_def by blast
        ultimately show ?thesis using g inst_new_table [OF inst] v
          by (intro disjI2 exI [of _ c] exI [of _ ?m] conjI allI exI [of _ "{c}"]) (blast | simp)+
      qed
    qed
  qed
qed

section \<open>Mapping a page\<close>

lemma pte_lock [simp]: "pte (m\<lparr>pm_lock := l\<rparr>) t i = pte m t i"
  by (simp add: pte_def)

lemma table_at_lock [simp]: "table_at (m\<lparr>pm_lock := l\<rparr>) p4 k v = table_at m p4 k v"
  by (induction k) (auto simp: next_table_def split: option.split)

lemma tables_ok_lock [simp]: "tables_ok (m\<lparr>pm_lock := l\<rparr>) p4 = tables_ok m p4"
  by (simp add: tables_ok_def)

lemma phys_ok_lock [simp]: "phys_ok (m\<lparr>pm_lock := l\<rparr>) = phys_ok m"
  by (simp add: phys_ok_def)

lemma vmm_ok_lock [simp]: "vmm_ok (m\<lparr>pm_lock := l\<rparr>) p4 = vmm_ok m p4"
  by (simp add: vmm_ok_def)

lemma walk_step_lock [simp]: "walk_step (m\<lparr>pm_lock := l\<rparr>) t i v = walk_step m t i v"
  by (simp add: walk_step_def)

lemma virt_to_phys_lock [simp]: "virt_to_phys (m\<lparr>pm_lock := l\<rparr>) p4 v = virt_to_phys m p4 v"
  by (simp add: virt_to_phys_def Let_def cong: sum.case_cong)

lemma leaf_write:
  assumes ok: "tables_ok m p4" and t: "table_at m p4 3 v = Some p1"
  shows "tables_ok (inst 3 v p1 e m) p4"
    and "virt_to_phys (inst 3 v p1 e m) p4 u = (if same_page u v then leaf_phys e u else virt_to_phys m p4 u)"
proof -
  let ?m = "inst 3 v p1 e m"
  have k: "(3 :: nat) \<le> 3" by simp
  have al: "aligned p1" using tables_okD(2) [OF ok k t] .
  have tree: "table_at ?m p4 j w = table_at m p4 j w" if "j \<le> 3" for j w
    using table_at_set_pte(1) [OF ok k t that] .
  have ent: "pte ?m x (lvl j w) = pte m x (lvl j w)" if "j \<le> 2" "table_at m p4 j w = Some x" for j w x
    using pte_set_other [OF ok k t _ that(2)] that(1) by simp
  show ok': "tables_ok ?m p4" unfolding tables_ok_def
  proof (intro conjI allI impI)
    show "p4 \<noteq> 0" using tables_okD(1) [OF ok] .
  next
    fix j w x assume "j \<le> 3" "table_at ?m p4 j w = Some x"
    then show "aligned x" "x \<notin> frame_avail ?m" using tables_okD(2,3) [OF ok, of j w x] tree [of j w] by auto
  next
    fix j j' w w' x assume "j \<le> 3" "j' \<le> 3" "table_at ?m p4 j w = Some x \<and> table_at ?m p4 j' w' = Some x"
    then have x: "table_at m p4 j w = Some x" "table_at m p4 j' w' = Some x" using tree [of j w] tree [of j' w'] by simp_all
    show "j = j'" "same_upto j w w'"
      using tables_okD(4) [OF ok \<open>j \<le> 3\<close> \<open>j' \<le> 3\<close> x] by blast+
  next
    fix j w x assume a: "j \<le> 1" "table_at ?m p4 j w = Some x"
    then have x: "table_at m p4 j w = Some x" using tree [of j w] by simp
    show "\<not> (pte_present (pte ?m x (lvl j w)) \<and> pte_huge (pte ?m x (lvl j w)))"
      using ent [OF _ x] a(1) tables_okD(5) [OF ok a(1) x] by auto
  qed
  show "virt_to_phys ?m p4 u = (if same_page u v then leaf_phys e u else virt_to_phys m p4 u)"
  proof (cases "same_page u v")
    case True
    then have s: "same_upto 4 u v" by (simp add: same_page_def)
    then have l: "lvl 3 u = lvl 3 v" by (simp only: same_upto_def)
    have "table_at m p4 3 u = Some p1" using table_at_prefix [OF same_upto_mono [OF s, of 3]] t by simp
    then obtain p2 where p2: "table_at m p4 2 u = Some p2" "pte_present (pte m p2 (lvl 2 u))"
      "\<not> pte_huge (pte m p2 (lvl 2 u))" "pte_addr (pte m p2 (lvl 2 u)) = p1"
      by (auto simp: numeral_3_eq_3 numeral_2_eq_2 next_table_def Let_def split: option.splits if_splits)
    have "pte ?m p1 (lvl 3 u) = e" unfolding l by (rule inst_entry [OF al])
    then show ?thesis using True p2 tree [of 2 u] ent [OF _ p2(1)]
      unfolding virt_to_phys_table [OF ok'] by (simp add: leaf_phys_def Let_def)
  next
    case False
    then have "\<not> same_upto (Suc 3) u v" by (simp add: same_page_def)
    from virt_set_other [OF ok ok' k t this] False show ?thesis by simp
  qed
qed

lemma goc_steps:
  assumes m: "vmm_ok m p4" and k: "k \<le> 2" and t: "table_at m p4 k w = Some tab" and f: "flags_only fl" "\<not> bit fl 7"
    and g: "goc tab (lvl k w) fl m = Done (c, m')"
  shows "vmm_ok m' p4" "table_at m' p4 (Suc k) w = Some c" "virt_to_phys m' p4 v = virt_to_phys m p4 v"
    "\<exists>A. mem_step A m m' \<and> finite A \<and> card A \<le> 1"
  using goc_result [OF m k t f] g by auto

lemma goc_panic:
  assumes m: "vmm_ok m p4" and k: "k \<le> 2" and t: "table_at m p4 k w = Some tab" and f: "flags_only fl" "\<not> bit fl 7"
  shows "goc tab (lvl k w) fl m = Panic \<Longrightarrow> frame_avail m = {}" "goc tab (lvl k w) fl m \<noteq> Hang"
  using goc_result [OF m k t f] by auto

text \<open>The four steps of \<open>vmap\<close> with the lock held.\<close>

lemma map_steps:
  assumes m: "vmm_ok m p4" and f: "flags_only f" "p AND PTE_ADDR = p"
  shows "(card (frame_avail m) < 3 \<and> vmap_locked (inter_flags f) p4 v p f m = Panic) \<or>
    (\<exists>m' A. vmap_locked (inter_flags f) p4 v p f m = Done (0, m') \<and> vmm_ok m' p4 \<and> mem_step A m m' \<and> finite A \<and> card A \<le> 3 \<and>
       table_at m' p4 3 v \<noteq> None \<and> (\<forall>t. table_at m' p4 3 v = Some t \<longrightarrow> pte m' t (pidx 12 v) = pte_make p f) \<and>
       (\<forall>u. virt_to_phys m' p4 u = (if same_page u v then Some (p OR (u AND 0xFFF)) else virt_to_phys m p4 u)))"
proof -
  note fl = inter_flags_ok [of f]
  have av: "card (frame_avail m1) \<ge> card (frame_avail m) - card A" "finite (frame_avail m1)"
    if "mem_step A m m1" "finite A" for m m1 A
  proof -
    have "card (frame_avail m) - card A \<le> card (frame_avail m - A)" using that(2) by (rule diff_card_le_card_Diff)
    with that show "card (frame_avail m1) \<ge> card (frame_avail m) - card A" by (simp add: mem_step_def)
    show "finite (frame_avail m1)" by (rule frame_avail_subset)
  qed
  have l0: "pidx 39 v = lvl 0 v" "pidx 30 v = lvl 1 v" "pidx 21 v = lvl 2 v" "pidx 12 v = lvl 3 v" by simp_all
  have t0: "table_at m p4 0 v = Some p4" by simp
  have nil: "card (frame_avail m1) = 0" if "frame_avail m1 = {}" for m1 using that by simp
  show ?thesis
  proof (cases "goc p4 (lvl 0 v) (inter_flags f) m")
    case Panic
    then have "vmap_locked (inter_flags f) p4 v p f m = Panic" by (simp add: vmap_locked_def)
    with goc_panic(1) [OF m _ t0 fl Panic] show ?thesis by simp
  next
    case Hang
    with goc_panic(2) [OF m _ t0 fl] show ?thesis by simp
  next
    case (Done r1)
    obtain p3 m1 where r1: "r1 = (p3, m1)" by (cases r1)
    note g1 = goc_steps [OF m _ t0 fl Done [unfolded r1]]
    have o1: "vmm_ok m1 p4" and t1: "table_at m1 p4 1 v = Some p3" using g1(1,2) by simp_all
    from g1(4) obtain A1 where A1: "mem_step A1 m m1" "finite A1" "card A1 \<le> 1" by auto
    show ?thesis
    proof (cases "goc p3 (lvl 1 v) (inter_flags f) m1")
      case p: Panic
      then have "vmap_locked (inter_flags f) p4 v p f m = Panic" using Done r1 by (simp add: vmap_locked_def)
      moreover have "card (frame_avail m) < 3"
        using nil [OF goc_panic(1) [OF o1 _ t1 fl p]] av(1) [OF A1(1,2)] A1(3) by simp
      ultimately show ?thesis by simp
    next
      case Hang
      with goc_panic(2) [OF o1 _ t1 fl] show ?thesis by simp
    next
      case d2: (Done r2)
      obtain p2 m2 where r2: "r2 = (p2, m2)" by (cases r2)
      note g2 = goc_steps [OF o1 _ t1 fl d2 [unfolded r2]]
      have o2: "vmm_ok m2 p4" and t2: "table_at m2 p4 2 v = Some p2" using g2(1,2) by (simp_all add: numeral_2_eq_2)
      from g2(4) obtain A2 where A2: "mem_step A2 m1 m2" "finite A2" "card A2 \<le> 1" by auto
      show ?thesis
      proof (cases "goc p2 (lvl 2 v) (inter_flags f) m2")
        case p: Panic
        then have "vmap_locked (inter_flags f) p4 v p f m = Panic" using Done r1 d2 r2 by (simp add: vmap_locked_def)
        moreover have "card (frame_avail m) < 3"
          using nil [OF goc_panic(1) [OF o2 _ t2 fl p]] av(1) [OF A1(1,2)] av(1) [OF A2(1,2)] A1(3) A2(3) by simp
        ultimately show ?thesis by simp
      next
        case Hang
        with goc_panic(2) [OF o2 _ t2 fl] show ?thesis by simp
      next
        case d3: (Done r3)
        obtain p1 m3 where r3: "r3 = (p1, m3)" by (cases r3)
        note g3 = goc_steps [OF o2 _ t2 fl d3 [unfolded r3]]
        have o3: "vmm_ok m3 p4" and t3: "table_at m3 p4 3 v = Some p1" using g3(1,2) by (simp_all add: numeral_3_eq_3 numeral_2_eq_2)
        from g3(4) obtain A3 where A3: "mem_step A3 m2 m3" "finite A3" "card A3 \<le> 1" by auto
        let ?m = "inst 3 v p1 (pte_make p f) m3"
        have body: "vmap_locked (inter_flags f) p4 v p f m = Done (0, ?m)" using Done r1 d2 r2 d3 r3 by (simp add: vmap_locked_def)
        have ok3: "tables_ok m3 p4" and ph3: "phys_ok m3" using o3 by (auto simp: vmm_ok_def)
        note lw = leaf_write [OF ok3 t3, of "pte_make p f"]
        have al: "aligned p1" using tables_okD(2) [OF ok3 _ t3] by simp
        have st: "mem_step (A1 \<union> A2 \<union> A3) m ?m"
          using mem_step_trans [OF mem_step_trans [OF mem_step_trans [OF A1(1) A2(1)] A3(1)] mem_step_set_pte [OF ph3]] by simp
        then have ok: "vmm_ok ?m p4" using lw(1) by (simp add: vmm_ok_def mem_step_def)
        have ca: "finite (A1 \<union> A2 \<union> A3)" "card (A1 \<union> A2 \<union> A3) \<le> 3"
          using card_Un_le [of "A1 \<union> A2" A3] card_Un_le [of A1 A2] A1(2,3) A2(2,3) A3(2,3) by (simp, linarith)
        have t: "table_at ?m p4 3 v = Some p1" using table_at_set_pte(1) [OF ok3 _ t3] t3 by simp
        have e: "pte ?m p1 (pidx 12 v) = pte_make p f" using inst_entry [OF al, of 3 v "pte_make p f" m3] by simp
        then have t': "\<forall>t. table_at ?m p4 3 v = Some t \<longrightarrow> pte ?m t (pidx 12 v) = pte_make p f" unfolding t by blast
        have lp: "leaf_phys (pte_make p f) u = Some (p OR (u AND 0xFFF))" for u
          using f by (simp add: leaf_phys_def pte_addr_make)
        have "virt_to_phys ?m p4 u = (if same_page u v then Some (p OR (u AND 0xFFF)) else virt_to_phys m p4 u)" for u
          using g1(3) [of u] g2(3) [of u] g3(3) [of u] unfolding lw(2) lp by simp
        then show ?thesis using body ok st ca t t' by blast
      qed
    qed
  qed
qed

lemma vmap_result:
  assumes m: "vmm_ok m p4" "\<not> pm_lock m" and a: "v AND 0xFFF = 0" "p AND 0xFFF = 0" "flags_only f" "p AND PTE_ADDR = p"
  shows "(card (frame_avail m) < 3 \<and> vmap p4 v p f m = Panic) \<or>
    (\<exists>m' A. vmap p4 v p f m = Done (0, m') \<and> vmm_ok m' p4 \<and> mem_step A m m' \<and> finite A \<and> card A \<le> 3 \<and>
       table_at m' p4 3 v \<noteq> None \<and> (\<forall>t. table_at m' p4 3 v = Some t \<longrightarrow> pte m' t (pidx 12 v) = pte_make p f) \<and>
       (\<forall>u. virt_to_phys m' p4 u = (if same_page u v then Some (p OR (u AND 0xFFF)) else virt_to_phys m p4 u)))"
proof -
  have p4: "p4 \<noteq> 0" using m(1) tables_okD(1) by (auto simp: vmm_ok_def)
  let ?m = "m\<lparr>pm_lock := True\<rparr>"
  have m1: "vmm_ok ?m p4" using m by simp
  have l: "pm_lock m = False" using m(2) by simp
  have v: "vmap p4 v p f m = bind_run (vmap_locked (inter_flags f) p4 v p f ?m) (\<lambda>(r, m'). Done (r, m'\<lparr>pm_lock := False\<rparr>))"
    using p4 a l by (simp add: vmap_def with_lock_def Let_def)
  from map_steps [OF m1 a(3,4), of v] show ?thesis
  proof (elim disjE exE conjE)
    assume "card (frame_avail ?m) < 3" "vmap_locked (inter_flags f) p4 v p f ?m = Panic"
    then show ?thesis by (simp add: v)
  next
    fix m' A
    assume b: "vmap_locked (inter_flags f) p4 v p f ?m = Done (0, m')"
      and r: "vmm_ok m' p4" "mem_step A ?m m'" "finite A" "card A \<le> 3" "table_at m' p4 3 v \<noteq> None"
        "\<forall>t. table_at m' p4 3 v = Some t \<longrightarrow> pte m' t (pidx 12 v) = pte_make p f"
        "\<forall>u. virt_to_phys m' p4 u = (if same_page u v then Some (p OR (u AND 0xFFF)) else virt_to_phys ?m p4 u)"
    have "vmap p4 v p f m = Done (0, m'\<lparr>pm_lock := False\<rparr>)" using b by (simp add: v)
    moreover have "mem_step A m (m'\<lparr>pm_lock := False\<rparr>)" using r(2) l by (simp add: mem_step_def)
    ultimately show ?thesis using r(1,3-7)
      by (intro disjI2 exI [of _ "m'\<lparr>pm_lock := False\<rparr>"] exI [of _ A] conjI) simp_all
  qed
qed

end
