(* ===== verification/Address_Space.thy ===== *)
theory Address_Space
  imports Vmm_Map
begin

text \<open>
  Properties of the virtual memory manager: mapping refines an update of the translation, a new address space
  translates like the kernel's, what the check of a user buffer guarantees, copy-on-write faults, and the operations that
  never return because they take the lock of the physical memory manager twice.
\<close>

section \<open>New tables\<close>

lemma boot_phys: "phys_ok pmm_boot" "\<not> pm_lock pmm_boot" "card (frame_avail pmm_boot) = 61439"
  using pmm_boot_state card_frame_avail [of pmm_boot] by (auto simp: phys_ok_def pmm_idle_def aligned_def)

lemma fp_nonzero: "phys_ok m \<Longrightarrow> pm_base m \<noteq> 0 \<Longrightarrow> c \<in> frame_avail m \<Longrightarrow> c \<noteq> 0"
proof -
  assume m: "phys_ok m" "pm_base m \<noteq> 0" and c: "c \<in> frame_avail m"
  from c obtain i where i: "c = fp m i" "i < pm_total m" by (auto simp: frame_avail_def free_set_def managed_def)
  then have "unat c = unat (pm_base m) + i * 4096" using unat_fp [of m i] m(1) by (simp add: phys_ok_def)
  moreover have "unat (pm_base m) \<noteq> 0" using m(2) by (simp add: unat_eq_0)
  ultimately show "c \<noteq> 0" by auto
qed

lemma zero_page_lock [simp]: "zero_page p (m\<lparr>pm_lock := l\<rparr>) = (zero_page p m)\<lparr>pm_lock := l\<rparr>"
  by (cases m) (simp add: zero_page_def cong: if_cong)

lemma same_page_iff:
  "same_page u v \<longleftrightarrow> pidx 39 u = pidx 39 v \<and> pidx 30 u = pidx 30 v \<and> pidx 21 u = pidx 21 v \<and> pidx 12 u = pidx 12 v"
  by (auto simp: same_page_def same_upto_def lvl_def numeral_eq_Suc less_Suc_eq)

lemma zpg_locked_result:
  assumes m: "phys_ok m" "\<not> pm_lock m"
  shows "(frame_avail m = {} \<and> zpg_locked m = Panic) \<or>
    (\<exists>c m1. zpg_locked m = Done (c, m1) \<and> c \<in> frame_avail m \<and> mem_step {c} m m1 \<and> aligned c \<and> c AND PTE_ADDR = c \<and>
       only_page c m m1 \<and> (\<forall>i < 512. pte m1 c i = 0))"
proof -
  have e: "zpg_locked m = bind_run (zpg (m\<lparr>pm_lock := True\<rparr>)) (\<lambda>(c, m1). Done (c, m1\<lparr>pm_lock := False\<rparr>))"
    using m(2) by (cases "mm_alloc_nolock (m\<lparr>pm_lock := True\<rparr>)")
      (auto simp: zpg_locked_def zpg_def mm_alloc_def)
  have ph: "phys_ok (m\<lparr>pm_lock := True\<rparr>)" using m(1) by simp
  from zpg_result [OF ph] show ?thesis
  proof (elim disjE exE conjE)
    fix c m1 assume z: "zpg (m\<lparr>pm_lock := True\<rparr>) = Done (c, m1)" "mem_step {c} (m\<lparr>pm_lock := True\<rparr>) m1"
      "only_page c (m\<lparr>pm_lock := True\<rparr>) m1" "\<forall>i < 512. pte m1 c i = 0" "aligned c" "c AND PTE_ADDR = c"
      "c \<in> frame_avail (m\<lparr>pm_lock := True\<rparr>)"
    have "mem_step {c} m (m1\<lparr>pm_lock := False\<rparr>)" using z(2) m(2) by (simp add: mem_step_def)
    moreover have "only_page c m (m1\<lparr>pm_lock := False\<rparr>)" using z(3) by (simp add: only_page_def)
    ultimately show ?thesis using e z by (intro disjI2 exI [of _ c] exI [of _ "m1\<lparr>pm_lock := False\<rparr>"]) simp
  qed (use e in simp)
qed

lemma empty_tables: 
  assumes "\<forall>i < 512. pte m c i = 0" "c \<noteq> 0" "aligned c" "c \<notin> frame_avail m"
  shows "tables_ok m c" "virt_to_phys m c v = None"
proof -
  have n: "table_at m c k u = (if k = 0 then Some c else None)" for k u
    by (induction k) (auto simp: next_table_def assms(1) split: option.split)
  show ok: "tables_ok m c" using assms by (auto simp: tables_ok_def n same_upto_def split: if_splits)
  show "virt_to_phys m c v = None" using assms(1,2) by (simp add: virt_to_phys_def walk_step_def)
qed

lemma empty_space:
  assumes m: "phys_ok m" "\<not> pm_lock m" "pm_base m \<noteq> 0" "frame_avail m \<noteq> {}"
  shows "\<exists>c m1. zpg_locked m = Done (c, m1) \<and> vmm_ok m1 c \<and> \<not> pm_lock m1 \<and> (\<forall>v. virt_to_phys m1 c v = None) \<and>
    card (frame_avail m1) = card (frame_avail m) - 1 \<and> pm_base m1 = pm_base m \<and> c \<in> frame_avail m \<and> mem_step {c} m m1"
proof -
  from zpg_locked_result [OF m(1,2)] m(4) obtain c m1 where z: "zpg_locked m = Done (c, m1)" "c \<in> frame_avail m"
    "mem_step {c} m m1" "aligned c" "\<forall>i < 512. pte m1 c i = 0" by blast
  have c: "c \<noteq> 0" using fp_nonzero [OF m(1,3) z(2)] .
  have na: "c \<notin> frame_avail m1" using z(3) by (simp add: mem_step_def)
  note em = empty_tables [OF z(5) c z(4) na]
  have "card (frame_avail m1) = card (frame_avail m) - 1"
    using z(2,3) frame_avail_subset(2) [of m] by (simp add: mem_step_def)
  then show ?thesis using z em m(2) by (auto simp: vmm_ok_def mem_step_def)
qed

section \<open>Mapping\<close>

text \<open>
  C0: mapping a page refines an update of the translation. In a well-formed address space with the lock free, \<open>vmap\<close> of a
  page-aligned address either panics because fewer than three frames are free, or returns 0; then exactly the page at \<open>v\<close>
  translates to the given frame, every other address translates as before, and the tables are well-formed, the lock is
  free and at most three frames were taken.
\<close>

theorem vmap_refines_map:
  assumes "vmm_ok m p4" "\<not> pm_lock m" "v AND 0xFFF = 0" "p AND 0xFFF = 0" "flags_only f" "p AND PTE_ADDR = p"
  shows "(card (frame_avail m) < 3 \<and> vmap p4 v p f m = Panic) \<or>
    (\<exists>m'. vmap p4 v p f m = Done (0, m') \<and> vmm_ok m' p4 \<and> \<not> pm_lock m' \<and> frame_avail m' \<subseteq> frame_avail m \<and>
       card (frame_avail m - frame_avail m') \<le> 3 \<and>
       virt_to_phys m' p4 = (\<lambda>u. if same_page u v then Some (p OR (u AND 0xFFF)) else virt_to_phys m p4 u))"
  using vmap_result [OF assms]
proof (elim disjE exE conjE)
  fix m' A
  assume a: "vmap p4 v p f m = Done (0, m')" "vmm_ok m' p4" "mem_step A m m'" "finite A" "card A \<le> 3"
    "\<forall>u. virt_to_phys m' p4 u = (if same_page u v then Some (p OR (u AND 0xFFF)) else virt_to_phys m p4 u)"
  have "card (frame_avail m - frame_avail m') \<le> card A" using a(3,4) by (intro card_mono) (auto simp: mem_step_def)
  then show ?thesis using a assms(2) by (intro disjI2 exI [of _ m']) (auto simp: mem_step_def fun_eq_iff)
qed blast

theorem vmap_refines_map_witness:
  "\<exists>c m m'. zpg_locked pmm_boot = Done (c, m) \<and> vmap c 0x400000 0x2000000 (PTE_W OR PTE_U) m = Done (0, m') \<and>
     virt_to_phys m' c 0x400123 = Some 0x2000123 \<and> virt_to_phys m' c 0x401000 = None"
proof -
  have b: "pm_base pmm_boot \<noteq> 0" "frame_avail pmm_boot \<noteq> {}" using pmm_boot_state boot_phys(3) by auto
  from empty_space [OF boot_phys(1,2) b] obtain c m where z: "zpg_locked pmm_boot = Done (c, m)" "vmm_ok m c"
    "\<not> pm_lock m" "\<forall>v. virt_to_phys m c v = None" "card (frame_avail m) = 61438" using boot_phys(3) by auto
  have p: "(0x2000000 :: u64) AND PTE_ADDR = 0x2000000" by (simp add: PTE_ADDR_def)
  have s: "same_page 0x400123 0x400000" "\<not> same_page 0x401000 0x400000"
    by (simp_all add: same_page_iff pidx_def)
  from vmap_refines_map [OF z(2,3), of "0x400000" "0x2000000" "PTE_W OR PTE_U", OF _ _ table_flags(2) p] z(5)
  obtain m' where "vmap c 0x400000 0x2000000 (PTE_W OR PTE_U) m = Done (0, m')"
    "virt_to_phys m' c = (\<lambda>u. if same_page u 0x400000 then Some (0x2000000 OR (u AND 0xFFF)) else virt_to_phys m c u)"
    by auto
  then show ?thesis using z(1,4) s by (intro exI [of _ c] exI [of _ m] exI [of _ m']) simp
qed

section \<open>New address spaces\<close>

lemma copy_table_pte:
  assumes "aligned src" "aligned dst" "src \<noteq> dst" "aligned t" "i < 512"
  shows "pte (copy_table src dst m) t i = (if t = dst then pte m src i else pte m t i)"
proof -
  have "pte (fold (\<lambda>i m. set_pte dst i (pte m src i) m) [0..<n] m) t i =
      (if t = dst \<and> i < n then pte m src i else pte m t i)" if "n \<le> 512" "aligned t" "i < 512" for n t i
    using that
  proof (induction n arbitrary: t i)
    case (Suc n)
    let ?m = "fold (\<lambda>i m. set_pte dst i (pte m src i) m) [0..<n] m"
    have "pte ?m src n = pte m src n" using Suc.IH [of src n] Suc.prems assms by simp
    with Suc assms show ?case by (auto simp: pte_set_pte less_Suc_eq)
  qed simp
  from this [of 512] assms show ?thesis by (simp add: copy_table_def)
qed

lemma copy_table_step: "phys_ok m \<Longrightarrow> mem_step {} m (copy_table src dst m)"
proof -
  have "phys_ok m \<Longrightarrow> mem_step {} m (fold (\<lambda>i m. set_pte dst i (pte m src i) m) is m)" for "is"
  proof (induction "is" arbitrary: m)
    case Nil
    then show ?case by (simp add: mem_step_def)
  next
    case (Cons i is1)
    have s: "mem_step {} m (set_pte dst i (pte m src i) m)" using Cons.prems by (rule mem_step_set_pte)
    then have "phys_ok (set_pte dst i (pte m src i) m)" by (simp add: mem_step_def)
    from mem_step_trans [OF s Cons.IH [OF this]] show ?case by simp
  qed
  then show "phys_ok m \<Longrightarrow> mem_step {} m (copy_table src dst m)" by (simp add: copy_table_def)
qed

lemma copied_tables:
  assumes ok: "tables_ok m k" and n: "n \<noteq> 0" "aligned n" "n \<notin> frame_avail m" "\<And>j v. j \<le> 3 \<Longrightarrow> table_at m k j v \<noteq> Some n"
    and e: "\<forall>i < 512. pte m n i = pte m k i"
  shows "table_at m n (Suc j) v = table_at m k (Suc j) v" "tables_ok m n" "virt_to_phys m n v = virt_to_phys m k v"
proof -
  have s: "table_at m n (Suc j) v = table_at m k (Suc j) v" for j v
    by (induction j) (auto simp: next_table_def e split: option.split)
  then show "table_at m n (Suc j) v = table_at m k (Suc j) v" .
  note okD = tables_okD [OF ok]
  show ok': "tables_ok m n" unfolding tables_ok_def
  proof (intro conjI allI impI)
    show "n \<noteq> 0" by (rule n)
  next
    fix j v t assume "j \<le> 3" "table_at m n j v = Some t"
    then show "aligned t" "t \<notin> frame_avail m" using okD(2,3) [of j v t] n s by (cases j; force)+
  next
    fix i j v v' t assume a: "i \<le> 3" "j \<le> 3" "table_at m n i v = Some t \<and> table_at m n j v' = Some t"
    then have "i = j \<and> same_upto i v v'"
    proof (cases i; cases j)
      fix i' assume "i = Suc i'" "j = 0"
      then have "table_at m k i v = Some t" "t = n" using a by (simp_all only: s table_at.simps(1) option.inject)
      then show ?thesis using n(4) [OF a(1), of v] by blast
    next
      fix j' assume "i = 0" "j = Suc j'"
      then have "table_at m k j v' = Some t" "t = n" using a by (simp_all only: s table_at.simps(1) option.inject)
      then show ?thesis using n(4) [OF a(2), of v'] by blast
    next
      fix i' j' assume "i = Suc i'" "j = Suc j'"
      then have "table_at m k i v = Some t" "table_at m k j v' = Some t" using a by (simp_all only: s)
      then show ?thesis using okD(4) [OF a(1,2)] by blast
    qed (simp add: same_upto_def)
    then show "i = j" "same_upto i v v'" by blast+
  next
    fix j v t assume a: "j \<le> 1" "table_at m n j v = Some t"
    show "\<not> (pte_present (pte m t (lvl j v)) \<and> pte_huge (pte m t (lvl j v)))"
    proof (cases j)
      case 0
      with a(2) have "t = n" by simp
      then have "pte m t (lvl j v) = pte m k (lvl 0 v)" unfolding 0 using e lvl_less [of 0 v] by blast
      then show ?thesis using okD(5) [of 0 v k] by simp
    next
      case (Suc i)
      with a(2) have "table_at m k j v = Some t" by (simp only: s)
      then show ?thesis using okD(5) [OF a(1)] by blast
    qed
  qed
  have "table_at m n 2 v = table_at m k 2 v" using s [of 1 v] by (simp only: numeral_2_eq_2 One_nat_def)
  then show "virt_to_phys m n v = virt_to_phys m k v"
    unfolding virt_to_phys_table [OF ok] virt_to_phys_table [OF ok'] by simp
qed

lemma new_space:
  assumes "vmm_ok m k" "\<not> pm_lock m" "pm_base m \<noteq> 0" "frame_avail m \<noteq> {}"
  shows "\<exists>n m'. new_user_p4 k m = Done (n, m') \<and> n \<noteq> k \<and> n \<in> frame_avail m \<and> vmm_ok m' n \<and> vmm_ok m' k \<and> \<not> pm_lock m' \<and>
     pm_base m' = pm_base m \<and> frame_avail m' = frame_avail m - {n} \<and> only_page n m m' \<and>
     (\<forall>j v. table_at m' n (Suc j) v = table_at m' k (Suc j) v) \<and> (\<forall>j \<le> 3. \<forall>v. table_at m' k j v = table_at m k j v) \<and>
     (\<forall>v. virt_to_phys m' n v = virt_to_phys m k v \<and> virt_to_phys m' k v = virt_to_phys m k v)"
proof -
  have ph: "phys_ok m" and ok: "tables_ok m k" using assms(1) by (auto simp: vmm_ok_def)
  from zpg_locked_result [OF ph assms(2)] assms(4) obtain n m1 where
    z: "zpg_locked m = Done (n, m1)" "n \<in> frame_avail m" "mem_step {n} m m1" "aligned n" "n AND PTE_ADDR = n"
      "only_page n m m1" "\<forall>i < 512. pte m1 n i = 0" by blast
  let ?m = "copy_table k n m1"
  have n0: "n \<noteq> 0" using fp_nonzero [OF ph assms(3) z(2)] .
  have kal: "aligned k" "k \<noteq> n" using tables_okD(2,3) [OF ok, of 0 undefined k] z(2) by auto
  have st: "mem_step {n} m ?m" using mem_step_trans [OF z(3) copy_table_step] z(3) by (simp add: mem_step_def)
  note ct = copy_table_pte [OF kal(1) z(4) kal(2)]
  have op: "only_page n m ?m" using z(6) ct by (auto simp: only_page_def)
  have av: "frame_avail ?m = frame_avail m - {n}" using st by (simp add: mem_step_def)
  note ft = fresh_tables [OF ok op z(2) av]
  have e: "\<forall>i < 512. pte ?m n i = pte ?m k i" using ct kal z(4) by simp
  note c = copied_tables [OF ft(1) n0 z(4) ft(5) ft(4) e]
  have "new_user_p4 k m = Done (n, ?m)" using z(1) by (simp add: new_user_p4_def)
  moreover have "vmm_ok ?m n" "vmm_ok ?m k" "\<not> pm_lock ?m" "pm_base ?m = pm_base m"
    using c(2) ft(1) st assms(2) by (auto simp: vmm_ok_def mem_step_def)
  ultimately show ?thesis using z(2) c(1,3) ft(2,3) av op kal(2) by (intro exI [of _ n] exI [of _ ?m]) simp
qed

text \<open>
  A new address space translates every address exactly as the kernel's address space does, whose own translation does
  not change; it is well-formed, and it panics only when no frame is free.
\<close>

theorem new_space_is_kernel_space:
  assumes "vmm_ok m k" "\<not> pm_lock m" "pm_base m \<noteq> 0"
  shows "(frame_avail m = {} \<and> new_user_p4 k m = Panic) \<or>
    (\<exists>n m'. new_user_p4 k m = Done (n, m') \<and> n \<noteq> k \<and> vmm_ok m' n \<and> vmm_ok m' k \<and> \<not> pm_lock m' \<and>
       frame_avail m' = frame_avail m - {n} \<and>
       (\<forall>v. virt_to_phys m' n v = virt_to_phys m k v \<and> virt_to_phys m' k v = virt_to_phys m k v))"
proof (cases "frame_avail m = {}")
  case True
  then show ?thesis using zpg_locked_result [of m] assms(1,2) by (auto simp: vmm_ok_def new_user_p4_def)
next
  case False
  from new_space [OF assms this] show ?thesis by blast
qed

theorem new_space_is_kernel_space_witness:
  "\<exists>k n m m'. zpg_locked pmm_boot = Done (k, m) \<and> new_user_p4 k m = Done (n, m') \<and> n \<noteq> k \<and> virt_to_phys m' n 0x1000 = None"
proof -
  have b: "pm_base pmm_boot \<noteq> 0" "frame_avail pmm_boot \<noteq> {}" using pmm_boot_state boot_phys(3) by auto
  from empty_space [OF boot_phys(1,2) b] obtain c m where z: "zpg_locked pmm_boot = Done (c, m)" "vmm_ok m c"
    "\<not> pm_lock m" "\<forall>v. virt_to_phys m c v = None" "card (frame_avail m) = 61438" "pm_base m = pm_base pmm_boot"
    using boot_phys(3) by auto
  from new_space_is_kernel_space [OF z(2,3)] z(4-6) b(1) z(1) show ?thesis by auto
qed

section \<open>User buffers\<close>

lemma page_of_div: "unat (page_of a) = 4096 * (unat a div 4096)"
proof -
  from page_of_props(3) [of a] obtain q where q: "unat (page_of a) = 4096 * q"
    unfolding aligned_def by (metis mod_0_imp_dvd dvdE)
  with page_of_props(1,2) [of a] have "unat a div 4096 = q" by (intro div_nat_eqI) simp_all
  with q show ?thesis by simp
qed

lemma pidx_page_of: "12 \<le> s \<Longrightarrow> pidx s (page_of a) = pidx s a"
proof -
  assume s: "12 \<le> s"
  have m: "PAGE_SIZE - 1 = mask 12" by (simp add: PAGE_SIZE_def mask_eq_exp_minus_1)
  have "drop_bit s (page_of a) = drop_bit s a"
    unfolding page_of_def m using s by (intro bit_eqI) (auto simp: bit_simps dest: bit_imp_le_length)
  then show ?thesis by (simp add: pidx_def)
qed

lemma valid_user_page: "page_of a = page_of b \<Longrightarrow> valid_user m p4 a = valid_user m p4 b"
proof -
  assume "page_of a = page_of b"
  then have e: "pidx s a = pidx s b" if "12 \<le> s" for s using pidx_page_of [OF that] by metis
  have "pidx 39 a = pidx 39 b" "pidx 30 a = pidx 30 b" "pidx 21 a = pidx 21 b" "pidx 12 a = pidx 12 b"
    by (rule e, simp)+
  then show ?thesis unfolding valid_user_def by (simp only:)
qed

text \<open>
  The check of a user buffer that does not reach the end of the address space is exact: it terminates and accepts the
  buffer just when every address in it can be accessed by user code. Of a buffer whose end wraps around to an address at
  or below its first page, nothing is checked: it is always accepted.
\<close>

theorem user_buffer_check:
  assumes "len \<noteq> 0"
  shows "(unat ptr + unat len + 4095 < 2 ^ 64 \<longrightarrow>
            valid_buf m p4 ptr len = Some (\<forall>a. unat ptr \<le> unat a \<and> unat a < unat ptr + unat len \<longrightarrow> valid_user m p4 a)) \<and>
         (2 ^ 64 \<le> unat ptr + unat len \<and> unat ptr + unat len \<le> 2 ^ 64 + unat (page_of ptr) \<longrightarrow>
            valid_buf m p4 ptr len = Some True)"
proof (intro conjI impI)
  assume nw: "unat ptr + unat len + 4095 < 2 ^ 64"
  let ?pg = "page_of ptr" and ?lim = "ptr + len"
  define n where "n = (unat ptr + unat len - unat ?pg + 4095) div 4096"
  note pg = page_of_props [of ptr]
  have l: "0 < unat len" using assms by (simp add: unat_gt_0)
  have lim: "unat ?lim = unat ptr + unat len" using nw by (simp add: unat_word_ariths)
  have nb: "unat ptr + unat len \<le> unat ?pg + 4096 * n" "unat ?pg + 4096 * (n - 1) < unat ptr + unat len" "0 < n"
    "unat ?pg + 4096 * n \<le> unat ptr + unat len + 4095"
    using pg l unfolding n_def by linarith+
  have b: "buf_loop m p4 ?lim ?pg = Some (\<forall>k < n. valid_user m p4 (?pg + of_nat k * PAGE_SIZE))"
    by (rule buf_loop_pages) (use nb nw lim in linarith)+
  have pk: "unat (?pg + of_nat k * PAGE_SIZE) = unat ?pg + 4096 * k" if "k < n" for k
  proof -
    have "unat ?pg + 4096 * k < 2 ^ 64" using that nb nw by linarith
    then have k: "unat (of_nat k * PAGE_SIZE :: u64) = 4096 * k"
      by (simp add: unat_word_ariths unat_of_nat)
    show ?thesis using k \<open>unat ?pg + 4096 * k < 2 ^ 64\<close> by (simp add: unat_word_ariths)
  qed
  have "(\<forall>k < n. valid_user m p4 (?pg + of_nat k * PAGE_SIZE)) \<longleftrightarrow>
      (\<forall>a. unat ptr \<le> unat a \<and> unat a < unat ptr + unat len \<longrightarrow> valid_user m p4 a)"
  proof (intro iffI allI impI)
    fix a :: u64
    assume v: "\<forall>k < n. valid_user m p4 (?pg + of_nat k * PAGE_SIZE)" and a: "unat ptr \<le> unat a \<and> unat a < unat ptr + unat len"
    define k where "k = unat a div 4096 - unat ptr div 4096"
    have d: "unat ptr div 4096 \<le> unat a div 4096" using a by (intro div_le_mono) simp
    have "unat ?pg + 4096 * k = 4096 * (unat a div 4096)" using d by (simp add: k_def page_of_div)
    moreover have "4096 * (unat a div 4096) \<le> unat a" by simp
    ultimately have "k < n" using a nb by linarith
    then have "page_of a = ?pg + of_nat k * PAGE_SIZE"
      using pk \<open>unat ?pg + 4096 * k = _\<close> by (simp add: word_unat_eq_iff page_of_div)
    moreover have "page_of (page_of a) = page_of a" by (simp add: word_unat_eq_iff page_of_div)
    ultimately show "valid_user m p4 a" using v \<open>k < n\<close> valid_user_page by metis
  next
    fix k assume v: "\<forall>a. unat ptr \<le> unat a \<and> unat a < unat ptr + unat len \<longrightarrow> valid_user m p4 a" and k: "k < n"
    let ?a = "?pg + of_nat k * PAGE_SIZE"
    show "valid_user m p4 ?a"
    proof (cases "k = 0")
      case True
      have "valid_user m p4 ptr" using v l by simp
      moreover have "page_of ?pg = page_of ptr" by (simp add: word_unat_eq_iff page_of_div)
      ultimately have "valid_user m p4 ?pg" using valid_user_page [of ?pg ptr m p4] by simp
      then show ?thesis using True by simp
    next
      case False
      then have "unat ptr \<le> unat ?a" using pk [OF k] pg by linarith
      moreover have "4096 * k \<le> 4096 * (n - 1)" using k by simp
      then have "unat ?a < unat ptr + unat len" using pk [OF k] nb by linarith
      ultimately show ?thesis using v by blast
    qed
  qed
  with b assms show "valid_buf m p4 ptr len =
      Some (\<forall>a. unat ptr \<le> unat a \<and> unat a < unat ptr + unat len \<longrightarrow> valid_user m p4 a)"
    by (simp add: valid_buf_def)
next
  assume w: "2 ^ 64 \<le> unat ptr + unat len \<and> unat ptr + unat len \<le> 2 ^ 64 + unat (page_of ptr)"
  have "unat (ptr + len) = unat ptr + unat len - 2 ^ 64"
    using w unat_u64_less [of ptr] unat_u64_less [of len] by (simp add: unat_word_ariths mod_if)
  then have "unat (ptr + len) \<le> unat (page_of ptr)" using w by linarith
  then have "\<not> page_of ptr < ptr + len" by (simp add: word_less_nat_alt)
  then show "valid_buf m p4 ptr len = Some True" using assms by (subst valid_buf_def, subst buf_loop.simps) simp
qed

theorem user_buffer_check_witness:
  "valid_buf pmm_boot 0 0x1000 0xFFFFFFFFFFFFF000 = Some True \<and> valid_buf pmm_boot 0 0x400000 16 = Some False"
proof -
  have "page_of 0x1000 = 0x1000" by (simp add: word_unat_eq_iff page_of_div)
  then have "valid_buf pmm_boot 0 0x1000 0xFFFFFFFFFFFFF000 = Some True"
    using user_buffer_check [of "0xFFFFFFFFFFFFF000" "0x1000" pmm_boot 0] by simp
  moreover have "valid_buf pmm_boot 0 0x400000 16 = Some False"
  proof -
    have "\<not> valid_user pmm_boot 0 0x400000" by (simp add: valid_user_def)
    then have f: "\<not> (\<forall>a. 4194304 \<le> unat a \<and> unat a < 4194320 \<longrightarrow> valid_user pmm_boot 0 a)"
      by (auto intro!: exI [of _ "0x400000 :: u64"])
    show ?thesis using user_buffer_check [of 16 "0x400000" pmm_boot 0] f by simp
  qed
  ultimately show ?thesis ..
qed

section \<open>Unmapping\<close>

lemma frame_dec_locked: "pm_lock m \<Longrightarrow> i < pm_total m \<Longrightarrow> i < 65536 \<Longrightarrow> pmm_inv m \<Longrightarrow> pm_refs m i = 1 \<Longrightarrow> frame_dec (fp m i) m = Hang"
  by (simp add: frame_dec_def Let_def fi_fp_managed mm_free_phys_locked)

lemma vunmap_owned_hangs:
  assumes m: "pmm_inv m" "p4 \<noteq> 0" "\<not> pm_lock m" "table_at m p4 3 v = Some t" "pte m t (pidx 12 v) = pte_make (fp m i) f"
    and f: "flags_only f" "fp m i AND PTE_ADDR = fp m i" "i < pm_total m" "i < 65536" "pm_refs m i = 1"
  shows "vunmap p4 v m = Hang"
proof -
  have "frame_dec (fp m i) (m\<lparr>pm_lock := True\<rparr>) = Hang"
    using frame_dec_locked [of "m\<lparr>pm_lock := True\<rparr>" i] m f by simp
  moreover have "pte_addr (pte_make (fp m i) f) = fp m i" using pte_addr_make [OF f(1)] f(2) by simp
  moreover have "pte_present (pte m p4 (pidx 39 v))"
    "pte_present (pte m (pte_addr (pte m p4 (pidx 39 v))) (pidx 30 v))"
    "pte_present (pte m (pte_addr (pte m (pte_addr (pte m p4 (pidx 39 v))) (pidx 30 v))) (pidx 21 v))"
    "pte_addr (pte m (pte_addr (pte m (pte_addr (pte m p4 (pidx 39 v))) (pidx 30 v))) (pidx 21 v)) = t"
    using m(4) by (auto simp: numeral_3_eq_3 next_table_def Let_def split: option.splits if_splits)
  ultimately show ?thesis using m(2,3,5) by (simp add: vunmap_def with_lock_def Let_def)
qed

text \<open>Allocating a frame and mapping it.\<close>

lemma alloc_and_map:
  assumes "vmm_ok m0 p4" "\<not> pm_lock m0" "3 < card (frame_avail m0)" "v AND 0xFFF = 0" "flags_only f"
  shows "\<exists>i m1 m2 t. mm_alloc m0 = Done (fp m0 i, m1) \<and> vmap p4 v (fp m0 i) f m1 = Done (0, m2) \<and>
    vmm_ok m2 p4 \<and> \<not> pm_lock m2 \<and> table_at m2 p4 3 v = Some t \<and> pte m2 t (pidx 12 v) = pte_make (fp m0 i) f \<and>
    fp m0 i AND PTE_ADDR = fp m0 i \<and> i < pm_total m2 \<and> i < 65536 \<and> pm_refs m2 i = 1 \<and> fp m2 = fp m0 \<and>
    fp m0 i \<notin> frame_avail m2 \<and> card (frame_avail m0) - 4 \<le> card (frame_avail m2) \<and> pm_base m2 = pm_base m0 \<and>
    virt_to_phys m2 p4 v = Some (fp m0 i)"
proof -
  have ph: "phys_ok m0" and ok: "tables_ok m0 p4" using assms(1) by (auto simp: vmm_ok_def)
  then have inv: "pmm_inv m0" by (simp add: phys_ok_def)
  have "free_set m0 \<noteq> {}" using assms(3) by (auto simp: frame_avail_def)
  with mm_alloc_result [OF inv assms(2)] obtain i m1 where a: "mm_alloc m0 = Done (fp m0 i, m1)" "frame_taken i m0 m1" by blast
  let ?p = "fp m0 i"
  have i: "i < pm_total m0" "i < 65536" using a(2) by (auto simp: frame_taken_def free_set_def managed_def)
  have al: "aligned ?p" "?p AND PTE_ADDR = ?p" using aligned_fp [OF ph i(1)] by auto
  have p0: "?p AND 0xFFF = 0"
  proof -
    have "(0xFFF :: u64) = mask 12" by (simp add: mask_eq_exp_minus_1)
    then show ?thesis using al(1) by (simp only: aligned_low_bits take_bit_eq_mask)
  qed
  have av: "frame_avail m1 = frame_avail m0 - {?p}" "?p \<in> frame_avail m0" using frame_taken_avail [OF inv a(2)] by auto
  have m1: "phys_ok m1" "\<not> pm_lock m1" "pm_refs m1 i = 1" "fp m1 = fp m0" "pm_total m1 = pm_total m0" "pm_base m1 = pm_base m0"
    using a(2) ph frame_taken_simps [OF a(2)] assms(2) by (auto simp: frame_taken_def phys_ok_def)
  have "agree m0 m1 p4" using a(2) by (simp add: agree_def frame_taken_def pte_def)
  from agree_tables_ok [OF ok this] av(1) m1(1) have v1: "vmm_ok m1 p4" by (auto simp: vmm_ok_def)
  have c1: "card (frame_avail m1) = card (frame_avail m0) - 1" using av frame_avail_subset(2) [of m0] by simp
  then have "\<not> card (frame_avail m1) < 3" using assms(3) by simp
  with vmap_result [OF v1 m1(2) assms(4) p0 assms(5) al(2)] obtain m2 A t where
    m: "vmap p4 v ?p f m1 = Done (0, m2)" "vmm_ok m2 p4" "mem_step A m1 m2" "table_at m2 p4 3 v = Some t"
      "pte m2 t (pidx 12 v) = pte_make ?p f" "virt_to_phys m2 p4 v = Some (?p OR (v AND 0xFFF))" "finite A" "card A \<le> 3"
    by (auto simp: same_page_def)
  have "card (frame_avail m1) - card A \<le> card (frame_avail m2)"
    using diff_card_le_card_Diff [OF m(7), of "frame_avail m1"] m(3) by (simp add: mem_step_def)
  then have "card (frame_avail m0) - 4 \<le> card (frame_avail m2)" using c1 m(8) by linarith
  moreover have "fp m2 = fp m0" using m(3) m1(4) by (auto simp: mem_step_def fp_def fun_eq_iff)
  moreover have "virt_to_phys m2 p4 v = Some ?p" using m(6) assms(4) by simp
  moreover have "?p \<notin> frame_avail m2" using av m(3) by (simp add: mem_step_def)
  moreover have "\<not> pm_lock m2" "pm_refs m2 i = 1" "i < pm_total m2" "pm_base m2 = pm_base m0"
    using m(3) m1 i(1) by (simp_all add: mem_step_def)
  ultimately show ?thesis using a(1) m(1,2,4,5) al(2) i(2)
    by (intro exI [of _ i] exI [of _ m1] exI [of _ m2] exI [of _ t]) blast
qed

text \<open>
  Unmapping a page whose frame has a single owner never returns. After \<open>mm_alloc\<close> and \<open>vmap\<close> of the new frame at a page,
  \<open>vunmap\<close> of that page waits for the lock of the physical memory manager, which it holds itself.
\<close>

theorem unmap_of_owned_page_hangs:
  assumes "vmm_ok m0 p4" "\<not> pm_lock m0" "3 < card (frame_avail m0)" "v AND 0xFFF = 0" "flags_only f"
  shows "\<exists>p m1 m2. mm_alloc m0 = Done (p, m1) \<and> vmap p4 v p f m1 = Done (0, m2) \<and>
           virt_to_phys m2 p4 v = Some p \<and> vunmap p4 v m2 = Hang"
proof -
  obtain i m1 m2 t where m: "mm_alloc m0 = Done (fp m0 i, m1)" "vmap p4 v (fp m0 i) f m1 = Done (0, m2)" "vmm_ok m2 p4"
    "\<not> pm_lock m2" "table_at m2 p4 3 v = Some t" "pte m2 t (pidx 12 v) = pte_make (fp m0 i) f"
    "fp m0 i AND PTE_ADDR = fp m0 i" "i < pm_total m2" "i < 65536" "pm_refs m2 i = 1" "fp m2 = fp m0"
    "virt_to_phys m2 p4 v = Some (fp m0 i)"
    using alloc_and_map [OF assms] by blast
  have "vunmap p4 v m2 = Hang"
    using vunmap_owned_hangs [OF _ _ m(4,5) _ assms(5), of i] m tables_okD(1) [of m2 p4] by (simp add: vmm_ok_def phys_ok_def)
  then show ?thesis using m(1,2,12) by blast
qed

theorem unmap_of_owned_page_hangs_witness:
  "\<exists>c m0 p m1 m2. zpg_locked pmm_boot = Done (c, m0) \<and> mm_alloc m0 = Done (p, m1) \<and>
     vmap c 0x400000 p (PTE_W OR PTE_U) m1 = Done (0, m2) \<and> vunmap c 0x400000 m2 = Hang"
proof -
  have b: "pm_base pmm_boot \<noteq> 0" "frame_avail pmm_boot \<noteq> {}" using pmm_boot_state boot_phys(3) by auto
  from empty_space [OF boot_phys(1,2) b] obtain c m where z: "zpg_locked pmm_boot = Done (c, m)" "vmm_ok m c"
    "\<not> pm_lock m" "card (frame_avail m) = 61438" using boot_phys(3) by auto
  from unmap_of_owned_page_hangs [OF z(2,3) _ _ table_flags(2), of "0x400000"] z(1,4) show ?thesis by auto
qed

end
