(* ===== verification/Vmm_Grow.thy ===== *)
theory Vmm_Grow
  imports Vmm_Map
begin

text \<open>
  What \<open>vmap\<close> writes: only tables of the address space and frames that were free. A page that is neither keeps its
  contents, and every table of the tree afterwards was one before or was a free frame.
\<close>

definition grows :: "u64 \<Rightarrow> pmm \<Rightarrow> pmm \<Rightarrow> bool" where
  "grows p4 m m' \<longleftrightarrow> frame_avail m' \<subseteq> frame_avail m \<and>
     (\<forall>j \<le> 3. \<forall>u q. table_at m' p4 j u = Some q \<longrightarrow> q \<in> frame_avail m \<or> table_at m p4 j u = Some q) \<and>
     (\<forall>t i. aligned t \<and> i < 512 \<and> t \<notin> frame_avail m \<and> (\<forall>j \<le> 3. \<forall>u. table_at m p4 j u \<noteq> Some t) \<longrightarrow> pte m' t i = pte m t i)"

lemma growsD:
  assumes "grows p4 m m'"
  shows "frame_avail m' \<subseteq> frame_avail m"
    and "j \<le> 3 \<Longrightarrow> table_at m' p4 j u = Some q \<Longrightarrow> q \<in> frame_avail m \<or> table_at m p4 j u = Some q"
    and "aligned t \<Longrightarrow> i < 512 \<Longrightarrow> t \<notin> frame_avail m \<Longrightarrow> \<forall>j \<le> 3. \<forall>u. table_at m p4 j u \<noteq> Some t \<Longrightarrow> pte m' t i = pte m t i"
  using assms unfolding grows_def by blast+

lemma grows_trans:
  assumes a: "grows p4 m m1" and b: "grows p4 m1 m2"
  shows "grows p4 m m2"
  unfolding grows_def
proof (intro conjI allI impI, goal_cases)
  case 1
  show ?case using growsD(1) [OF a] growsD(1) [OF b] by blast
next
  case (2 j u q)
  show ?case using growsD(2) [OF b 2] growsD(1) [OF a] growsD(2) [OF a 2(1)] by blast
next
  case (3 t i)
  then have t: "aligned t" "i < 512" "t \<notin> frame_avail m" "\<forall>j \<le> 3. \<forall>u. table_at m p4 j u \<noteq> Some t" by blast+
  then have n: "t \<notin> frame_avail m1" "\<forall>j \<le> 3. \<forall>u. table_at m1 p4 j u \<noteq> Some t"
    using growsD(1,2) [OF a] by blast+
  show ?case unfolding growsD(3) [OF b t(1,2) n] by (rule growsD(3) [OF a t])
qed

text \<open>The steps of \<open>goc\<close> change the entry of the parent and free frames only.\<close>

definition goc_shape :: "u64 \<Rightarrow> u64 \<Rightarrow> pmm \<Rightarrow> pmm \<Rightarrow> bool" where
  "goc_shape p4 tab m m' \<longleftrightarrow>
     (\<forall>t i. aligned t \<and> i < 512 \<and> t \<noteq> tab \<and> t \<notin> frame_avail m \<longrightarrow> pte m' t i = pte m t i) \<and>
     (\<forall>t i q. aligned t \<and> i < 512 \<and> t \<notin> frame_avail m \<and> next_table m' t i = Some q \<longrightarrow>
        next_table m t i = Some q \<or> q \<in> frame_avail m) \<and>
     (\<forall>j \<le> 2. \<forall>u t. table_at m' p4 j u = Some t \<and> t \<in> frame_avail m \<longrightarrow> next_table m' t (lvl j u) = None)"

lemma shape_grows:
  assumes ok': "tables_ok m' p4" and s: "goc_shape p4 tab m m'" and av: "frame_avail m' \<subseteq> frame_avail m"
    and tab: "k \<le> 3" "table_at m p4 k w = Some tab" and p4: "p4 \<notin> frame_avail m"
  shows "grows p4 m m'"
proof -
  have tree: "q \<in> frame_avail m \<or> table_at m p4 j u = Some q" if "j \<le> 3" "table_at m' p4 j u = Some q" for j u q
    using that
  proof (induction j arbitrary: q)
    case (Suc j)
    from Suc.prems(2) obtain t where t: "table_at m' p4 j u = Some t" "next_table m' t (lvl j u) = Some q"
      by (auto split: option.splits)
    have j: "j \<le> 2" "j \<le> 3" using Suc.prems(1) by simp_all
    have "t \<notin> frame_avail m" using s j(1) t unfolding goc_shape_def by fastforce
    moreover from this have "table_at m p4 j u = Some t" using Suc.IH [OF j(2) t(1)] by blast
    moreover have "aligned t" using tables_okD(2) [OF ok' j(2) t(1)] .
    moreover have "next_table m t (lvl j u) = Some q \<or> q \<in> frame_avail m"
      using s calculation t(2) lvl_less [of j u] unfolding goc_shape_def by blast
    ultimately show ?case by auto
  qed simp
  show ?thesis unfolding grows_def
  proof (intro conjI allI impI)
    fix t and i :: nat assume a: "aligned t \<and> i < 512 \<and> t \<notin> frame_avail m \<and> (\<forall>j \<le> 3. \<forall>u. table_at m p4 j u \<noteq> Some t)"
    then have "t \<noteq> tab" using tab by blast
    with a s show "pte m' t i = pte m t i" unfolding goc_shape_def by blast
  qed (use av tree in blast)+
qed

lemma inst_next:
  assumes "aligned t" "aligned tab" "i < 512"
  shows "t \<noteq> tab \<or> i \<noteq> lvl k w \<Longrightarrow> next_table (inst k w tab e m) t i = next_table m t i"
    "t \<noteq> tab \<Longrightarrow> pte (inst k w tab e m) t i = pte m t i"
  using assms by (auto simp: next_table_set_pte pte_set_pte)

lemma goc_grows:
  assumes m: "vmm_ok m p4" and k: "k \<le> 2" and t: "table_at m p4 k w = Some tab" and f: "flags_only fl" "\<not> bit fl 7"
    and g: "goc tab (lvl k w) fl m = Done (c, m')"
  shows "grows p4 m m'"
proof -
  have ph: "phys_ok m" and ok: "tables_ok m p4" using m by (auto simp: vmm_ok_def)
  have k3: "k \<le> 3" using k by simp
  note gs = goc_steps [OF m k t f g]
  have ok': "tables_ok m' p4" using gs(1) by (simp add: vmm_ok_def)
  have al: "aligned tab" and na: "tab \<notin> frame_avail m" using tables_okD(2,3) [OF ok k3 t] by blast+
  have p4: "p4 \<notin> frame_avail m" using tables_okD(3) [OF ok, of 0 w p4] by simp
  have tm: "t \<notin> frame_avail m'" if "j \<le> 2" "table_at m' p4 j u = Some t" for j u t
    using tables_okD(3) [OF ok' _ that(2)] that(1) by simp
  let ?i = "lvl k w" and ?e = "pte m tab (lvl k w)"
  have mk: "pte_addr (pte_make c fl) = c" if "c AND PTE_ADDR = c" for c using f that by (simp add: pte_addr_make)
  show ?thesis
  proof (cases "pte_present ?e")
    case False
    from zpg_result [OF ph] g False obtain m1 where z: "zpg m = Done (c, m1)" "c \<in> frame_avail m" "mem_step {c} m m1"
      "aligned c" "c AND PTE_ADDR = c" "only_page c m m1" "\<forall>i < 512. pte m1 c i = 0"
      and m': "m' = inst k w tab (pte_make c fl) m1" by (auto simp: goc_def)
    have av: "frame_avail m' = frame_avail m - {c}" using z(3) m' by (simp add: mem_step_def)
    have tc: "tab \<noteq> c" using na z(2) by blast
    have same: "pte m1 t i = pte m t i" if "aligned t" "i < 512" "t \<notin> frame_avail m" for t i
      using only_pageD [OF z(6) that(1,2)] that(3) z(2) by blast
    have "goc_shape p4 tab m m'" unfolding goc_shape_def
    proof (intro conjI allI impI; elim conjE)
      fix t i assume a: "aligned t" "i < (512 :: nat)" "t \<noteq> tab" "t \<notin> frame_avail m"
      show "pte m' t i = pte m t i" unfolding m' inst_next(2) [OF a(1) al a(2,3)] by (rule same [OF a(1,2,4)])
    next
      fix t i q assume a: "aligned t" "i < (512 :: nat)" "t \<notin> frame_avail m" "next_table m' t i = Some q"
      show "next_table m t i = Some q \<or> q \<in> frame_avail m"
      proof (cases "t \<noteq> tab \<or> i \<noteq> ?i")
        case True
        then have "next_table m1 t i = Some q" using a(4) inst_next(1) [OF a(1) al a(2) True] unfolding m' by simp
        then show ?thesis using same [OF a(1,2,3)] by (simp add: next_table_def)
      next
        case False
        then have "q = c" using a(4) mk [OF z(5)] unfolding m' next_table_set_pte [OF al a(1) lvl_less a(2)]
          by (simp split: if_splits)
        then show ?thesis using z(2) by blast
      qed
    next
      fix j u t assume a: "j \<le> 2" "table_at m' p4 j u = Some t" "t \<in> frame_avail m"
      then have "t = c" using tm [OF a(1,2)] av by blast
      then have "pte m' t (lvl j u) = 0"
        using z(7) inst_next(2) [OF z(4) al lvl_less] tc unfolding m' by (metis lvl_less)
      then show "next_table m' t (lvl j u) = None" by (simp add: next_table_def)
    qed
    from shape_grows [OF ok' this _ k3 t p4] av show ?thesis by blast
  next
    case True
    let ?e1 = "?e OR (fl AND (PTE_W OR PTE_U))"
    let ?m1 = "inst k w tab ?e1 m"
    have st: "same_target ?e ?e1" by (rule or_flags_same_target)
    have e1: "pte ?m1 tab ?i = ?e1" using inst_entry [OF al] .
    have n1: "next_table ?m1 t i = next_table m t i" if a: "aligned t" "i < 512" for t i
    proof (cases "t \<noteq> tab \<or> i \<noteq> ?i")
      case True
      then show ?thesis by (rule inst_next(1) [OF a(1) al a(2)])
    next
      case False
      then show ?thesis using st e1 by (simp add: next_table_def same_target_def Let_def)
    qed
    show ?thesis
    proof (cases "pte_huge ?e1")
      case False
      have m': "m' = ?m1" using g True False by (simp add: goc_def Let_def e1)
      have av: "frame_avail m' = frame_avail m" using m' by simp
      have "goc_shape p4 tab m m'" unfolding goc_shape_def
      proof (intro conjI allI impI; elim conjE)
        fix t i assume a: "aligned t" "i < (512 :: nat)" "t \<noteq> tab" "t \<notin> frame_avail m"
        show "pte m' t i = pte m t i" unfolding m' by (rule inst_next(2) [OF a(1) al a(2,3)])
      next
        fix t i q assume a: "aligned t" "i < (512 :: nat)" "t \<notin> frame_avail m" "next_table m' t i = Some q"
        then show "next_table m t i = Some q \<or> q \<in> frame_avail m" unfolding m' n1 [OF a(1,2)] by blast
      next
        fix j u t assume a: "j \<le> 2" "table_at m' p4 j u = Some t" "t \<in> frame_avail m"
        with tm [OF a(1,2)] av show "next_table m' t (lvl j u) = None" by blast
      qed
      from shape_grows [OF ok' this _ k3 t p4] av show ?thesis by blast
    next
      case huge: True
      have k2: "k = 2"
      proof (rule ccontr)
        assume "k \<noteq> 2"
        then have "k \<le> 1" using k by simp
        from tables_okD(5) [OF ok this t True] st huge show False by (simp add: same_target_def)
      qed
      have ph1: "phys_ok ?m1" using mem_step_set_pte [OF ph] by (simp add: mem_step_def)
      let ?g = "\<lambda>j. pte_make ((?e1 AND HUGE_MASK) + of_nat j * PAGE_SIZE) PTE_W"
      obtain c' m2 where z: "zpg ?m1 = Done (c', m2)" "c' \<in> frame_avail ?m1" "mem_step {c'} ?m1 m2" "aligned c'"
        "c' AND PTE_ADDR = c'" "only_page c' ?m1 m2"
        using zpg_result [OF ph1] g True huge by (auto simp: goc_def Let_def e1)
      define m3 where "m3 = fold (\<lambda>j. set_pte c' j (?g j)) [0..<512] m2"
      have inst_e: "pte (inst k w tab (pte_make c' fl) m3) tab ?i = pte_make c' fl" using inst_entry [OF al] .
      have "goc tab ?i fl m = Done (c', inst k w tab (pte_make c' fl) m3)"
        using True huge z(1) mk [OF z(5)] inst_e by (simp add: goc_def Let_def e1 m3_def del: upt_rec_numeral)
      then have m': "m' = inst k w tab (pte_make c' fl) m3" "c = c'" using g by simp_all
      have ph2: "phys_ok m2" using z(3) by (simp add: mem_step_def)
      have s3: "mem_step {c'} ?m1 m3" unfolding m3_def
        using mem_step_trans [OF z(3) fold_set_pte_step [OF ph2, of c' ?g "[0..<512]"]] by (simp only: Un_empty_right)
      note fill = fill_table [OF z(4) order_refl, where g = ?g and m = m2, folded m3_def]
      have av: "frame_avail m' = frame_avail m - {c'}" using s3 m' by (simp add: mem_step_def)
      have c: "c' \<in> frame_avail m" using z(2) by simp
      have same: "pte m3 t i = pte ?m1 t i" if "aligned t" "i < 512" "t \<notin> frame_avail m" for t i
      proof -
        have "t \<noteq> c'" using that(3) c by blast
        then show ?thesis unfolding fill [OF that(1,2)] using only_pageD [OF z(6) that(1,2)] by simp
      qed
      have "goc_shape p4 tab m m'" unfolding goc_shape_def
      proof (intro conjI allI impI; elim conjE)
        fix t i assume a: "aligned t" "i < (512 :: nat)" "t \<noteq> tab" "t \<notin> frame_avail m"
        show "pte m' t i = pte m t i"
          unfolding m'(1) inst_next(2) [OF a(1) al a(2,3)] same [OF a(1,2,4)] ..
      next
        fix t i q assume a: "aligned t" "i < (512 :: nat)" "t \<notin> frame_avail m" "next_table m' t i = Some q"
        show "next_table m t i = Some q \<or> q \<in> frame_avail m"
        proof (cases "t \<noteq> tab \<or> i \<noteq> ?i")
          case True
          then have "next_table m3 t i = Some q" using a(4) inst_next(1) [OF a(1) al a(2) True] unfolding m' by simp
          then have "next_table ?m1 t i = Some q" using same [OF a(1,2,3)] by (simp add: next_table_def)
          then show ?thesis using n1 [OF a(1,2)] by simp
        next
          case False
          then have "q = c'" using a(4) mk [OF z(5)] unfolding m' next_table_set_pte [OF al a(1) lvl_less a(2)]
            by (simp split: if_splits)
          then show ?thesis using c by blast
        qed
      next
        fix j u t assume a: "j \<le> 2" "table_at m' p4 j u = Some t" "t \<in> frame_avail m"
        then have "t = c'" using tm [OF a(1,2)] av by blast
        then have "j = Suc k" using tables_okD(4) [OF ok' _ _ a(2)] gs(2) a(1) k2 m'(2) by force
        then show "next_table m' t (lvl j u) = None" using a(1) k2 by simp
      qed
      from shape_grows [OF ok' this _ k3 t p4] av show ?thesis by blast
    qed
  qed
qed

lemma grows_lock [simp]:
  "grows p4 (m\<lparr>pm_lock := l\<rparr>) m' = grows p4 m m'" "grows p4 m (m'\<lparr>pm_lock := l\<rparr>) = grows p4 m m'"
  by (simp_all add: grows_def)

lemma leaf_grows:
  assumes "tables_ok m p4" "table_at m p4 3 v = Some t"
  shows "grows p4 m (inst 3 v t e m)"
  unfolding grows_def
proof (intro conjI allI impI, goal_cases)
  case (2 j u q)
  then show ?case using table_at_set_pte(1) [OF assms(1) order_refl assms(2)] by metis
next
  case (3 x i)
  then have x: "aligned x" "i < 512" "x \<noteq> t" using assms(2) by auto
  have "aligned t" using tables_okD(2) [OF assms(1) order_refl assms(2)] .
  from inst_next(2) [OF x(1) this x(2,3)] show ?case .
qed simp

lemma vmap_locked_grows:
  assumes m: "vmm_ok m p4" and d: "vmap_locked (inter_flags f) p4 v p f m = Done (r, m')"
  shows "grows p4 m m'"
proof -
  note fl = inter_flags_ok [of f]
  have l0: "pidx 39 v = lvl 0 v" "pidx 30 v = lvl 1 v" "pidx 21 v = lvl 2 v" "pidx 12 v = lvl 3 v" by simp_all
  from d obtain p3 m1 p2 m2 p1 m3 where
    g: "goc p4 (lvl 0 v) (inter_flags f) m = Done (p3, m1)" "goc p3 (lvl 1 v) (inter_flags f) m1 = Done (p2, m2)"
      "goc p2 (lvl 2 v) (inter_flags f) m2 = Done (p1, m3)" "m' = inst 3 v p1 (pte_make p f) m3"
    unfolding vmap_locked_def l0 by (auto simp: bind_run_Done_iff split: prod.splits)
  have t0: "table_at m p4 0 v = Some p4" by simp
  note s1 = goc_steps [OF m _ t0 fl g(1)] and w1 = goc_grows [OF m _ t0 fl g(1)]
  have t1: "table_at m1 p4 1 v = Some p3" using s1(2) by simp
  note o1 = s1(1) [OF zero_le]
  note s2 = goc_steps [OF o1 _ t1 fl g(2)] and w2 = goc_grows [OF o1 _ t1 fl g(2)]
  have t2: "table_at m2 p4 2 v = Some p2" using s2(2) by (simp add: numeral_2_eq_2)
  have o2: "vmm_ok m2 p4" using s2(1) by simp
  note s3 = goc_steps [OF o2 order_refl t2 fl g(3)] and w3 = goc_grows [OF o2 order_refl t2 fl g(3)]
  have t3: "table_at m3 p4 3 v = Some p1" using s3(2) by (simp add: numeral_3_eq_3 numeral_2_eq_2)
  have "tables_ok m3 p4" using s3(1) by (simp add: vmm_ok_def)
  note w4 = leaf_grows [OF this t3, of "pte_make p f"]
  have "grows p4 m m1" "grows p4 m1 m2" using w1 w2 by simp_all
  from grows_trans [OF grows_trans [OF grows_trans [OF this] w3] w4] show ?thesis unfolding g(4) .
qed

lemma vmap_grows:
  assumes "vmm_ok m p4" "vmap p4 v p f m = Done (r, m')"
  shows "grows p4 m m'"
proof (cases "v AND 0xFFF \<noteq> 0 \<or> p AND 0xFFF \<noteq> 0 \<or> p4 = 0")
  case True
  then have "m' = m" using assms(2) by (auto simp: vmap_def)
  then show ?thesis by (simp add: grows_def)
next
  case False
  then obtain m1 where m1: "vmap_locked (inter_flags f) p4 v p f (m\<lparr>pm_lock := True\<rparr>) = Done (r, m1)" "m' = m1\<lparr>pm_lock := False\<rparr>"
    using assms(2) by (auto simp: vmap_def with_lock_def Let_def bind_run_Done_iff lock_Done_iff split: prod.splits)
  have "vmm_ok (m\<lparr>pm_lock := True\<rparr>) p4" using assms(1) by simp
  from vmap_locked_grows [OF this m1(1)] show ?thesis using m1(2) by simp
qed

end
