(* ===== verification/Page_Loop.thy ===== *)
theory Page_Loop
  imports Address_Space Vmm_Grow
begin

text \<open>
  The contract of one iteration of the loops that back a range of pages with frames (kernel stacks, eager mappings,
  the memory calls), as a locale, what such a loop does to an address space, and the three iterations the code has.
\<close>

section \<open>Running a loop over pages\<close>

definition page_seq :: "u64 \<Rightarrow> nat \<Rightarrow> u64 list" where
  "page_seq b n = map (\<lambda>i. b + of_nat i * PAGE_SIZE) [0..<n]"

fun run_pages :: "(u64 \<Rightarrow> pmm \<Rightarrow> pmm run) \<Rightarrow> u64 list \<Rightarrow> pmm \<Rightarrow> pmm run" where
  "run_pages step [] m = Done m"
| "run_pages step (v # vs) m = bind_run (step v m) (run_pages step vs)"

text \<open>The address space and the frame pool are fit for \<open>n\<close> more pages.\<close>

definition room :: "nat \<Rightarrow> u64 \<Rightarrow> pmm \<Rightarrow> bool" where
  "room n p4 m \<longleftrightarrow> vmm_ok m p4 \<and> \<not> pm_lock m \<and> pm_base m \<noteq> 0 \<and> 4 * n \<le> card (frame_avail m)"

lemma room_mono: "room n p4 m \<Longrightarrow> k \<le> n \<Longrightarrow> room k p4 m"
  by (auto simp: room_def)

text \<open>A frame in private use: allocated, and no page table.\<close>

definition data_frame :: "u64 \<Rightarrow> u64 \<Rightarrow> pmm \<Rightarrow> bool" where
  "data_frame p4 f m \<longleftrightarrow> aligned f \<and> f \<notin> frame_avail m \<and> (\<forall>j \<le> 3. \<forall>u. table_at m p4 j u \<noteq> Some f)"

lemma data_frame_grows: "grows p4 m m' \<Longrightarrow> data_frame p4 f m \<Longrightarrow> data_frame p4 f m'"
  unfolding data_frame_def using growsD(1,2) by blast

lemma data_frame_same: "grows p4 m m' \<Longrightarrow> data_frame p4 f m \<Longrightarrow> i < 512 \<Longrightarrow> pte m' f i = pte m f i"
  unfolding data_frame_def using growsD(3) by blast

text \<open>One page has been backed by the frame \<open>f\<close>; with \<open>z\<close> the frame is zeroed.\<close>

definition backs :: "bool \<Rightarrow> u64 \<Rightarrow> u64 \<Rightarrow> u64 \<Rightarrow> pmm \<Rightarrow> pmm \<Rightarrow> bool" where
  "backs z p4 v f m m' \<longleftrightarrow> f \<in> frame_avail m \<and> data_frame p4 f m' \<and> grows p4 m m' \<and>
     (z \<longrightarrow> (\<forall>i < 512. pte m' f i = 0)) \<and>
     virt_to_phys m' p4 = (\<lambda>u. if same_page u v then Some (f OR (u AND 0xFFF)) else virt_to_phys m p4 u)"

text \<open>A range of pages has been backed by the frames \<open>fs\<close>.\<close>

definition backed :: "bool \<Rightarrow> u64 \<Rightarrow> u64 list \<Rightarrow> u64 list \<Rightarrow> pmm \<Rightarrow> pmm \<Rightarrow> bool" where
  "backed z p4 vs fs m m' \<longleftrightarrow> length fs = length vs \<and> distinct fs \<and> set fs \<subseteq> frame_avail m \<and> grows p4 m m' \<and>
     (\<forall>f \<in> set fs. data_frame p4 f m' \<and> (z \<longrightarrow> (\<forall>i < 512. pte m' f i = 0))) \<and>
     (\<forall>i < length vs. \<forall>u. same_page u (vs ! i) \<longrightarrow> virt_to_phys m' p4 u = Some (fs ! i OR (u AND 0xFFF))) \<and>
     (\<forall>u. (\<forall>v \<in> set vs. \<not> same_page u v) \<longrightarrow> virt_to_phys m' p4 u = virt_to_phys m p4 u)"

lemma backed_Cons:
  assumes a: "backs z p4 v f m m1" and b: "backed z p4 vs fs m1 m'" and d: "\<forall>w \<in> set vs. \<not> same_page v w"
  shows "backed z p4 (v # vs) (f # fs) m m'"
proof -
  have g: "grows p4 m m1" "grows p4 m1 m'" "data_frame p4 f m1" using a b unfolding backs_def backed_def by blast+
  have nin: "f \<notin> set fs" using g(3) b unfolding data_frame_def backed_def by blast
  have fs: "set fs \<subseteq> frame_avail m" using b growsD(1) [OF g(1)] unfolding backed_def by blast
  have fz: "data_frame p4 f m'" "z \<longrightarrow> (\<forall>i < 512. pte m' f i = 0)"
    using data_frame_grows [OF g(2,3)] data_frame_same [OF g(2,3)] a unfolding backs_def by simp_all
  have tr: "virt_to_phys m' p4 u = Some ((f # fs) ! i OR (u AND 0xFFF))"
    if "i < Suc (length vs)" "same_page u ((v # vs) ! i)" for i u
  proof (cases i)
    case 0
    then have u: "same_page u v" using that(2) by simp
    have "\<forall>w \<in> set vs. \<not> same_page u w" using d u by (auto simp: same_page_iff)
    then have "virt_to_phys m' p4 u = virt_to_phys m1 p4 u" using b unfolding backed_def by blast
    then show ?thesis using a u 0 by (simp add: backs_def)
  next
    case (Suc k)
    then show ?thesis using b that unfolding backed_def by auto
  qed
  have ot: "virt_to_phys m' p4 u = virt_to_phys m p4 u" if "\<forall>w \<in> set (v # vs). \<not> same_page u w" for u
  proof -
    have "virt_to_phys m' p4 u = virt_to_phys m1 p4 u" using b that unfolding backed_def by simp
    then show ?thesis using a that by (simp add: backs_def)
  qed
  show ?thesis unfolding backed_def
  proof (intro conjI)
    show "length (f # fs) = length (v # vs)" "distinct (f # fs)" using b nin unfolding backed_def by simp_all
    show "set (f # fs) \<subseteq> frame_avail m" using a fs unfolding backs_def by simp
    show "grows p4 m m'" by (rule grows_trans [OF g(1,2)])
    show "\<forall>f \<in> set (f # fs). data_frame p4 f m' \<and> (z \<longrightarrow> (\<forall>i < 512. pte m' f i = 0))"
      using fz b unfolding backed_def by simp
    show "\<forall>i < length (v # vs). \<forall>u. same_page u ((v # vs) ! i) \<longrightarrow> virt_to_phys m' p4 u = Some ((f # fs) ! i OR (u AND 0xFFF))"
      using tr by simp
    show "\<forall>u. (\<forall>w \<in> set (v # vs). \<not> same_page u w) \<longrightarrow> virt_to_phys m' p4 u = virt_to_phys m p4 u" using ot by blast
  qed
qed

locale page_mapper =
  fixes z :: bool and p4 :: u64 and step :: "u64 \<Rightarrow> pmm \<Rightarrow> pmm run" and fits :: "u64 \<Rightarrow> bool"
  assumes step_ok: "room (Suc n) p4 m \<Longrightarrow> fits v \<Longrightarrow>
    \<exists>f m'. step v m = Done m' \<and> room n p4 m' \<and> pm_base m' = pm_base m \<and> backs z p4 v f m m'"
begin

lemma run_pages_backed:
  "room (length vs + n) p4 m \<Longrightarrow> \<forall>v \<in> set vs. fits v \<Longrightarrow> sorted_wrt (\<lambda>u v. \<not> same_page u v) vs \<Longrightarrow>
   \<exists>fs m'. run_pages step vs m = Done m' \<and> room n p4 m' \<and> pm_base m' = pm_base m \<and> backed z p4 vs fs m m'"
proof (induction vs arbitrary: m)
  case Nil
  then show ?case by (intro exI [of _ "[]"] exI [of _ m]) (simp add: backed_def grows_def)
next
  case (Cons v vs)
  have r: "room (Suc (length vs + n)) p4 m" "fits v" using Cons.prems by simp_all
  from step_ok [OF this] obtain f m1 where s: "step v m = Done m1" "room (length vs + n) p4 m1" "pm_base m1 = pm_base m"
    "backs z p4 v f m m1" by blast
  from Cons.IH [OF s(2)] Cons.prems(2,3) obtain fs m' where i: "run_pages step vs m1 = Done m'" "room n p4 m'"
    "pm_base m' = pm_base m1" "backed z p4 vs fs m1 m'" by auto
  have "backed z p4 (v # vs) (f # fs) m m'" using backed_Cons [OF s(4) i(4)] Cons.prems(3) by simp
  then show ?case using s(1,3) i(1-3) by (intro exI [of _ "f # fs"] exI [of _ m']) simp
qed

end

section \<open>The iterations of the code\<close>

text \<open>Without zeroing (the stacks of \<open>spawn_k\<close>).\<close>

definition map_page_raw :: "u64 \<Rightarrow> u64 \<Rightarrow> u64 \<Rightarrow> pmm \<Rightarrow> pmm run" where
  "map_page_raw p4 f v m = bind_run (mm_alloc m) (\<lambda>(phys, m1). bind_run (vmap p4 v phys f m1) (\<lambda>(_, m2). Done m2))"

text \<open>Zeroing before the page is mapped (\<open>mmap_anon\<close>, \<open>legacy_mem_alloc\<close>).\<close>

definition map_page_zero :: "u64 \<Rightarrow> u64 \<Rightarrow> u64 \<Rightarrow> pmm \<Rightarrow> pmm run" where
  "map_page_zero p4 f v m =
     bind_run (mm_alloc m) (\<lambda>(phys, m1). bind_run (vmap p4 v phys f (zero_page phys m1)) (\<lambda>(_, m2). Done m2))"

text \<open>Zeroing after (\<open>sys_mem_alloc\<close>).\<close>

definition map_page_then_zero :: "u64 \<Rightarrow> u64 \<Rightarrow> u64 \<Rightarrow> pmm \<Rightarrow> pmm run" where
  "map_page_then_zero p4 f v m =
     bind_run (mm_alloc m) (\<lambda>(phys, m1). bind_run (vmap p4 v phys f m1) (\<lambda>(_, m2). Done (zero_page phys m2)))"

text \<open>Mapping a frame that is out of the pool and no table of the address space.\<close>

lemma map_data_frame:
  assumes m: "vmm_ok m1 p4" "\<not> pm_lock m1" "4 * n + 3 \<le> card (frame_avail m1)" and v: "v AND 0xFFF = 0"
    and p: "data_frame p4 p m1" "p AND PTE_ADDR = p" and f: "flags_only f"
  shows "\<exists>m'. vmap p4 v p f m1 = Done (0, m') \<and> vmm_ok m' p4 \<and> \<not> pm_lock m' \<and> pm_base m' = pm_base m1 \<and>
    4 * n \<le> card (frame_avail m') \<and> grows p4 m1 m' \<and>
    virt_to_phys m' p4 = (\<lambda>u. if same_page u v then Some (p OR (u AND 0xFFF)) else virt_to_phys m1 p4 u)"
proof -
  have mk: "(0xFFF :: u64) = mask 12" by (simp add: mask_eq_exp_minus_1)
  have low: "p AND 0xFFF = 0" using p(1) unfolding data_frame_def mk by (simp only: aligned_low_bits take_bit_eq_mask)
  from vmap_result [OF m(1,2) v low f p(2)] m(3) obtain m' A where
    d: "vmap p4 v p f m1 = Done (0, m')" "vmm_ok m' p4" "mem_step A m1 m'" "finite A" "card A \<le> 3"
      "\<forall>u. virt_to_phys m' p4 u = (if same_page u v then Some (p OR (u AND 0xFFF)) else virt_to_phys m1 p4 u)"
    by (elim disjE exE conjE) simp_all
  have "card (frame_avail m1) - card A \<le> card (frame_avail m')"
    using diff_card_le_card_Diff [OF d(4), of "frame_avail m1"] d(3) by (simp add: mem_step_def)
  then have "4 * n \<le> card (frame_avail m')" using m(3) d(5) by linarith
  moreover have "grows p4 m1 m'" by (rule vmap_grows [OF m(1) d(1)])
  ultimately show ?thesis using d m(2) by (intro exI [of _ m']) (simp add: mem_step_def fun_eq_iff)
qed

lemma alloc_data_frame:
  assumes r: "room (Suc n) p4 m"
  shows "\<exists>p m1. mm_alloc m = Done (p, m1) \<and> p \<noteq> 0 \<and> p \<in> frame_avail m \<and> p AND PTE_ADDR = p \<and> vmm_ok m1 p4 \<and> \<not> pm_lock m1 \<and>
    pm_base m1 = pm_base m \<and> 4 * n + 3 \<le> card (frame_avail m1) \<and> data_frame p4 p m1 \<and> grows p4 m m1 \<and>
    (\<forall>u. virt_to_phys m1 p4 u = virt_to_phys m p4 u)"
proof -
  have m: "phys_ok m" "tables_ok m p4" "\<not> pm_lock m" "pm_base m \<noteq> 0" "4 * Suc n \<le> card (frame_avail m)"
    using r by (auto simp: room_def vmm_ok_def)
  have inv: "pmm_inv m" using m(1) by (simp add: phys_ok_def)
  have "free_set m \<noteq> {}" using m(5) by (auto simp: frame_avail_def)
  with mm_alloc_result [OF inv m(3)] obtain i m1 where a: "mm_alloc m = Done (fp m i, m1)" "frame_taken i m m1" by blast
  let ?p = "fp m i"
  have i: "i < pm_total m" using a(2) by (auto simp: frame_taken_def free_set_def managed_def)
  note al = aligned_fp [OF m(1) i]
  note av = frame_taken_avail [OF inv a(2)]
  have mem: "pte m1 t j = pte m t j" for t j using a(2) by (simp add: frame_taken_def pte_def)
  have ag: "agree m m1 p4" by (simp add: agree_def mem)
  have m1: "phys_ok m1" "\<not> pm_lock m1" "pm_base m1 = pm_base m"
    using a(2) m frame_taken_simps [OF a(2)] by (auto simp: frame_taken_def phys_ok_def)
  have ok1: "tables_ok m1 p4" using agree_tables_ok [OF m(2) ag] av(2) by auto
  have tt: "table_at m1 p4 j u = table_at m p4 j u" if "j \<le> 3" for j u using agree_table_at [OF ag, of j u] that by simp
  have "data_frame p4 ?p m1" unfolding data_frame_def using al av tt tables_okD(3) [OF m(2)] by (metis DiffE insertI1)
  moreover have "grows p4 m m1" unfolding grows_def using av(2) tt mem by auto
  moreover have "card (frame_avail m1) = card (frame_avail m) - 1" using av(1,2) frame_avail_subset(2) [of m] by simp
  ultimately show ?thesis using a(1) fp_nonzero [OF m(1,4) av(1)] av(1) al m1 ok1 m(5) virt_to_phys_agree [OF m(2) ok1 ag]
    by (intro exI [of _ ?p] exI [of _ m1]) (simp add: vmm_ok_def)
qed

text \<open>Zeroing a data frame touches nothing else.\<close>

lemma zero_data_frame:
  assumes m: "vmm_ok m p4" and d: "data_frame p4 p m"
  shows "vmm_ok (zero_page p m) p4" "data_frame p4 p (zero_page p m)" "virt_to_phys (zero_page p m) p4 u = virt_to_phys m p4 u"
    "i < 512 \<Longrightarrow> pte (zero_page p m) p i = 0"
    "j \<le> 3 \<Longrightarrow> table_at (zero_page p m) p4 j u = table_at m p4 j u"
    "aligned t \<Longrightarrow> i < 512 \<Longrightarrow> t \<noteq> p \<Longrightarrow> pte (zero_page p m) t i = pte m t i"
proof -
  have ok: "tables_ok m p4" and ph: "phys_ok m" using m by (auto simp: vmm_ok_def)
  have al: "aligned p" using d by (simp add: data_frame_def)
  have ag: "agree m (zero_page p m) p4" unfolding agree_def
  proof (intro allI impI)
    fix k v t i assume a: "k \<le> 3" "table_at m p4 k v = Some t" "i < (512 :: nat)"
    then have "t \<noteq> p" using d by (auto simp: data_frame_def)
    then show "pte (zero_page p m) t i = pte m t i" using pte_zero_page [OF tables_okD(2) [OF ok a(1,2)] al a(3)] by simp
  qed
  have ok': "tables_ok (zero_page p m) p4" using agree_tables_ok [OF ok ag] by simp
  show tt: "j \<le> 3 \<Longrightarrow> table_at (zero_page p m) p4 j u = table_at m p4 j u" for j u using agree_table_at [OF ag, of j u] by simp
  show "vmm_ok (zero_page p m) p4" using ok' ph by (simp add: vmm_ok_def phys_ok_def)
  show "data_frame p4 p (zero_page p m)" using d tt by (simp add: data_frame_def)
  show "virt_to_phys (zero_page p m) p4 u = virt_to_phys m p4 u" by (rule virt_to_phys_agree [OF ok ok' ag])
  show "i < 512 \<Longrightarrow> pte (zero_page p m) p i = 0" using pte_zero_page [OF al al] by simp
  show "aligned t \<Longrightarrow> i < 512 \<Longrightarrow> t \<noteq> p \<Longrightarrow> pte (zero_page p m) t i = pte m t i" using pte_zero_page [OF _ al] by simp
qed

lemma map_page_raw_ok:
  assumes r: "room (Suc n) p4 m" and v: "v AND 0xFFF = 0" and f: "flags_only f"
  shows "\<exists>p m'. map_page_raw p4 f v m = Done m' \<and> room n p4 m' \<and> pm_base m' = pm_base m \<and> backs False p4 v p m m'"
proof -
  from alloc_data_frame [OF r] obtain p m1 where a: "mm_alloc m = Done (p, m1)" "p \<in> frame_avail m" "p AND PTE_ADDR = p"
    "vmm_ok m1 p4" "\<not> pm_lock m1" "pm_base m1 = pm_base m" "4 * n + 3 \<le> card (frame_avail m1)" "data_frame p4 p m1"
    "grows p4 m m1" "\<forall>u. virt_to_phys m1 p4 u = virt_to_phys m p4 u" by blast
  from map_data_frame [OF a(4,5,7) v a(8,3) f] obtain m' where d: "vmap p4 v p f m1 = Done (0, m')" "vmm_ok m' p4"
    "\<not> pm_lock m'" "pm_base m' = pm_base m1" "4 * n \<le> card (frame_avail m')" "grows p4 m1 m'"
    "virt_to_phys m' p4 = (\<lambda>u. if same_page u v then Some (p OR (u AND 0xFFF)) else virt_to_phys m1 p4 u)" by blast
  have "room n p4 m'" using d r a(6) by (simp add: room_def)
  moreover have "backs False p4 v p m m'" unfolding backs_def
    using a(2) data_frame_grows [OF d(6) a(8)] grows_trans [OF a(9) d(6)] d(7) a(10) by (simp add: fun_eq_iff)
  ultimately show ?thesis using a(1,6) d(1,4) by (auto simp: map_page_raw_def)
qed

lemma map_page_zero_frame:
  assumes r: "room (Suc n) p4 m" and v: "v AND 0xFFF = 0" and f: "flags_only f"
  shows "\<exists>p m'. map_page_zero p4 f v m = Done m' \<and> room n p4 m' \<and> pm_base m' = pm_base m \<and> backs True p4 v p m m' \<and>
    (\<exists>m1. mm_alloc m = Done (p, m1))"
proof -
  from alloc_data_frame [OF r] obtain p m1 where a: "mm_alloc m = Done (p, m1)" "p \<in> frame_avail m" "p AND PTE_ADDR = p"
    "vmm_ok m1 p4" "\<not> pm_lock m1" "pm_base m1 = pm_base m" "4 * n + 3 \<le> card (frame_avail m1)" "data_frame p4 p m1"
    "grows p4 m m1" "\<forall>u. virt_to_phys m1 p4 u = virt_to_phys m p4 u" by blast
  note zd = zero_data_frame [OF a(4,8)]
  have l: "\<not> pm_lock (zero_page p m1)" "4 * n + 3 \<le> card (frame_avail (zero_page p m1))" using a(5,7) by simp_all
  from map_data_frame [OF zd(1) l v zd(2) a(3) f] obtain m' where d: "vmap p4 v p f (zero_page p m1) = Done (0, m')" "vmm_ok m' p4"
    "\<not> pm_lock m'" "pm_base m' = pm_base (zero_page p m1)" "4 * n \<le> card (frame_avail m')" "grows p4 (zero_page p m1) m'"
    "virt_to_phys m' p4 = (\<lambda>u. if same_page u v then Some (p OR (u AND 0xFFF)) else virt_to_phys (zero_page p m1) p4 u)" by blast
  have gz: "grows p4 m (zero_page p m1)" unfolding grows_def
  proof (intro conjI allI impI, goal_cases)
    case 1
    show ?case using growsD(1) [OF a(9)] by simp
  next
    case (2 j u q)
    then show ?case using growsD(2) [OF a(9)] zd(5) by simp
  next
    case (3 t i)
    then have "t \<noteq> p" using a(2) by blast
    then show ?case using zd(6) [of t i] growsD(3) [OF a(9)] 3 by simp
  qed
  have "room n p4 m'" using d r a(6) by (simp add: room_def)
  moreover have "pte m' p i = 0" if "i < 512" for i using data_frame_same [OF d(6) zd(2) that] zd(4) [OF that] by simp
  then have "backs True p4 v p m m'" unfolding backs_def
    using a(2) data_frame_grows [OF d(6) zd(2)] grows_trans [OF gz d(6)] d(7) a(10) zd(3) by (simp add: fun_eq_iff)
  ultimately show ?thesis using a(1,6) d(1,4) by (auto simp: map_page_zero_def)
qed

lemma map_page_zero_ok:
  assumes "room (Suc n) p4 m" "v AND 0xFFF = 0" "flags_only f"
  shows "\<exists>p m'. map_page_zero p4 f v m = Done m' \<and> room n p4 m' \<and> pm_base m' = pm_base m \<and> backs True p4 v p m m'"
  using map_page_zero_frame [OF assms] by blast

lemma map_page_then_zero_ok:
  assumes r: "room (Suc n) p4 m" and v: "v AND 0xFFF = 0" and f: "flags_only f"
  shows "\<exists>p m'. map_page_then_zero p4 f v m = Done m' \<and> room n p4 m' \<and> pm_base m' = pm_base m \<and> backs True p4 v p m m'"
proof -
  from alloc_data_frame [OF r] obtain p m1 where a: "mm_alloc m = Done (p, m1)" "p \<in> frame_avail m" "p AND PTE_ADDR = p"
    "vmm_ok m1 p4" "\<not> pm_lock m1" "pm_base m1 = pm_base m" "4 * n + 3 \<le> card (frame_avail m1)" "data_frame p4 p m1"
    "grows p4 m m1" "\<forall>u. virt_to_phys m1 p4 u = virt_to_phys m p4 u" by blast
  from map_data_frame [OF a(4,5,7) v a(8,3) f] obtain m2 where d: "vmap p4 v p f m1 = Done (0, m2)" "vmm_ok m2 p4"
    "\<not> pm_lock m2" "pm_base m2 = pm_base m1" "4 * n \<le> card (frame_avail m2)" "grows p4 m1 m2"
    "virt_to_phys m2 p4 = (\<lambda>u. if same_page u v then Some (p OR (u AND 0xFFF)) else virt_to_phys m1 p4 u)" by blast
  note zd = zero_data_frame [OF d(2) data_frame_grows [OF d(6) a(8)]]
  note gm = grows_trans [OF a(9) d(6)]
  have gz: "grows p4 m (zero_page p m2)" unfolding grows_def
  proof (intro conjI allI impI, goal_cases)
    case 1
    show ?case using growsD(1) [OF gm] by simp
  next
    case (2 j u q)
    then show ?case using growsD(2) [OF gm] zd(5) by simp
  next
    case (3 t i)
    then have "t \<noteq> p" using a(2) by blast
    then show ?case using zd(6) [of t i] growsD(3) [OF gm] 3 by simp
  qed
  have "room n p4 (zero_page p m2)" using d r a(6) zd(1) by (simp add: room_def)
  moreover have "backs True p4 v p m (zero_page p m2)" unfolding backs_def
    using a(2) zd gz d(7) a(10) by (simp add: fun_eq_iff)
  ultimately show ?thesis using a(1,6) d(1,4) by (auto simp: map_page_then_zero_def)
qed

interpretation stack_pages: page_mapper False p4 "map_page_raw p4 PTE_W" "\<lambda>v. v AND 0xFFF = 0" for p4
  by unfold_locales (rule map_page_raw_ok [OF _ _ table_flags(1)])

interpretation call_pages: page_mapper True p4 "map_page_then_zero p4 (PTE_W OR PTE_U)" "\<lambda>v. v AND 0xFFF = 0" for p4
  by unfold_locales (rule map_page_then_zero_ok [OF _ _ table_flags(2)])

end
