(* ===== verification/Virt_Mem.thy ===== *)
theory Virt_Mem
  imports Address_Space
begin

text \<open>
  Loads and stores of the kernel at virtual addresses. The processor translates with the tables under \<open>cr3\<close>; an
  address without a translation raises a page fault, and \<open>handle_pf\<close> (\<^verbatim>\<open>perm.rs\<close>) ends in the panic handler. The boot
  code leaves write protection for supervisor accesses off (\<open>cr0\<close> gets only \<open>PG\<close> and \<open>PE\<close>), so a kernel store needs a
  present page and nothing more. Structures in memory are sequences of bytes, little endian.
\<close>

section \<open>Bytes of physical memory\<close>

definition word_addr :: "u64 \<Rightarrow> u64" where
  "word_addr pa = pa AND NOT 7"

definition byte_shift :: "u64 \<Rightarrow> nat" where
  "byte_shift pa = 8 * unat (pa AND 7)"

definition mem_byte :: "pmm \<Rightarrow> u64 \<Rightarrow> u8" where
  "mem_byte m pa = ucast (drop_bit (byte_shift pa) (pm_mem m (word_addr pa)))"

definition set_byte :: "u64 \<Rightarrow> u8 \<Rightarrow> pmm \<Rightarrow> pmm" where
  "set_byte pa b m =
     m\<lparr>pm_mem := (pm_mem m)(word_addr pa :=
        (pm_mem m (word_addr pa) AND NOT (push_bit (byte_shift pa) (mask 8))) OR push_bit (byte_shift pa) (ucast b))\<rparr>"

lemma low3: "unat (pa AND 7 :: u64) = unat pa mod 8"
proof -
  have "pa AND 7 = take_bit 3 pa" by (simp add: take_bit_eq_mask mask_eq_exp_minus_1)
  then have "unat (pa AND 7) = take_bit 3 (unat pa)" by (simp only: unsigned_take_bit_eq)
  then show ?thesis by (simp add: take_bit_eq_mod)
qed

lemma word_addr_div: "unat (word_addr pa) = unat pa div 8 * 8"
proof -
  have m: "(7 :: u64) = mask 3" by (simp add: mask_eq_exp_minus_1)
  have "pa = word_addr pa OR (pa AND 7)" "word_addr pa AND (pa AND 7) = 0"
    unfolding word_addr_def m by (rule bit_eqI, auto simp: bit_simps)+
  then have "pa = word_addr pa + (pa AND 7)" by (metis disjunctive_add_eq_or)
  moreover have "pa AND 7 \<le> pa" by (simp add: word_and_le1 word_and_le2)
  ultimately have "unat (word_addr pa) = unat pa - unat (pa AND 7)"
    by (metis add_diff_cancel_right' unat_sub)
  then show ?thesis by (simp add: low3 minus_mod_eq_div_mult)
qed

lemma same_byte: "word_addr pa = word_addr q \<Longrightarrow> byte_shift pa = byte_shift q \<Longrightarrow> pa = q"
proof -
  assume "word_addr pa = word_addr q" "byte_shift pa = byte_shift q"
  then have "unat pa div 8 * 8 = unat q div 8 * 8" "unat pa mod 8 = unat q mod 8"
    by (metis word_addr_div, simp add: byte_shift_def low3)
  then have "unat pa = unat q" by (metis div_mult_mod_eq)
  then show ?thesis by (simp add: word_unat_eq_iff)
qed

lemma byte_shift_cases: "byte_shift pa = byte_shift q \<or> byte_shift pa + 8 \<le> byte_shift q \<or> byte_shift q + 8 \<le> byte_shift pa"
  by (simp add: byte_shift_def) arith

lemma byte_shift_le: "byte_shift pa \<le> 56"
  by (simp add: byte_shift_def low3)

lemma mem_byte_set_byte: "mem_byte (set_byte pa b m) q = (if q = pa then b else mem_byte m q)"
proof (cases "word_addr q = word_addr pa")
  case False
  then show ?thesis by (auto simp: mem_byte_def set_byte_def)
next
  case True
  note le = byte_shift_le [of pa] byte_shift_le [of q]
  have e: "bit (mem_byte (set_byte pa b m) q) n \<longleftrightarrow> bit (if q = pa then b else mem_byte m q) n" if n: "n < 8" for n
  proof (cases "q = pa")
    case True
    then show ?thesis using n le by (simp add: mem_byte_def set_byte_def bit_simps bit_mask_iff)
  next
    case False
    then have "byte_shift pa \<noteq> byte_shift q" using same_byte True by metis
    with byte_shift_cases [of pa q] consider "byte_shift pa + 8 \<le> byte_shift q" | "byte_shift q + 8 \<le> byte_shift pa" by blast
    then show ?thesis
    proof cases
      case 1
      have "\<not> bit b (byte_shift q + n - byte_shift pa)" using 1 bit_imp_le_length [of b] by fastforce
      then show ?thesis using True False n le 1 by (auto simp: mem_byte_def set_byte_def bit_simps bit_mask_iff)
    next
      case 2
      then show ?thesis using True False n le by (auto simp: mem_byte_def set_byte_def bit_simps bit_mask_iff)
    qed
  qed
  show ?thesis
  proof (rule bit_eqI)
    fix n assume "possible_bit TYPE(u8) n"
    then have "n < 8" by simp
    then show "bit (mem_byte (set_byte pa b m) q) n = bit (if q = pa then b else mem_byte m q) n" by (rule e)
  qed
qed

lemma set_byte_simps [simp]:
  "pm_lock (set_byte pa b m) = pm_lock m" "pm_base (set_byte pa b m) = pm_base m" "pm_size (set_byte pa b m) = pm_size m"
  "pm_refs (set_byte pa b m) = pm_refs m" "pm_bm (set_byte pa b m) = pm_bm m" "pm_hint (set_byte pa b m) = pm_hint m"
  "pm_free (set_byte pa b m) = pm_free m" "pmm_inv (set_byte pa b m) = pmm_inv m" "free_set (set_byte pa b m) = free_set m"
  "frame_avail (set_byte pa b m) = frame_avail m" "pm_total (set_byte pa b m) = pm_total m"
  by (simp_all add: set_byte_def frame_avail_def)

section \<open>Loads and stores at virtual addresses\<close>

definition ld8 :: "u64 \<Rightarrow> pmm \<Rightarrow> u64 \<Rightarrow> u8 run" where
  "ld8 cr3 m v = (case virt_to_phys m cr3 v of None \<Rightarrow> Panic | Some pa \<Rightarrow> Done (mem_byte m pa))"

definition st8 :: "u64 \<Rightarrow> u64 \<Rightarrow> u8 \<Rightarrow> pmm \<Rightarrow> pmm run" where
  "st8 cr3 v b m = (case virt_to_phys m cr3 v of None \<Rightarrow> Panic | Some pa \<Rightarrow> Done (set_byte pa b m))"

fun ld_seq :: "('a \<Rightarrow> u8 run) \<Rightarrow> 'a list \<Rightarrow> u8 list run" where
  "ld_seq ld [] = Done []"
| "ld_seq ld (a # as) = bind_run (ld a) (\<lambda>b. bind_run (ld_seq ld as) (\<lambda>bs. Done (b # bs)))"

fun st_seq :: "('a \<Rightarrow> u8 \<Rightarrow> 'm \<Rightarrow> 'm run) \<Rightarrow> ('a \<times> u8) list \<Rightarrow> 'm \<Rightarrow> 'm run" where
  "st_seq st [] m = Done m"
| "st_seq st ((a, b) # rest) m = bind_run (st a b m) (st_seq st rest)"

definition addrs :: "u64 \<Rightarrow> nat \<Rightarrow> u64 list" where
  "addrs v n = map (\<lambda>i. v + of_nat i) [0..<n]"

definition ld_bytes :: "u64 \<Rightarrow> pmm \<Rightarrow> u64 \<Rightarrow> nat \<Rightarrow> u8 list run" where
  "ld_bytes cr3 m v n = ld_seq (ld8 cr3 m) (addrs v n)"

definition st_bytes :: "u64 \<Rightarrow> u64 \<Rightarrow> u8 list \<Rightarrow> pmm \<Rightarrow> pmm run" where
  "st_bytes cr3 v bs m = st_seq (st8 cr3) (zip (addrs v (length bs)) bs) m"

section \<open>The contract of byte memory\<close>

text \<open>
  What a routine that copies structures relies on: stores into a set \<open>A\<close> of fit addresses succeed, keep it fit, and
  change exactly the byte stored to.
\<close>

locale byte_store =
  fixes ld :: "'m \<Rightarrow> 'a \<Rightarrow> u8 run" and st :: "'a \<Rightarrow> u8 \<Rightarrow> 'm \<Rightarrow> 'm run" and fit :: "'a set \<Rightarrow> 'm \<Rightarrow> bool"
    and rel :: "'m \<Rightarrow> 'm \<Rightarrow> bool"
  assumes st_ok: "fit A m \<Longrightarrow> a \<in> A \<Longrightarrow>
      \<exists>m'. st a b m = Done m' \<and> fit A m' \<and> rel m m' \<and> (\<forall>c \<in> A. ld m' c = (if c = a then Done b else ld m c))"
    and ld_ok: "fit A m \<Longrightarrow> a \<in> A \<Longrightarrow> \<exists>b. ld m a = Done b"
    and rel_refl: "rel m m"
    and rel_trans: "rel m m1 \<Longrightarrow> rel m1 m2 \<Longrightarrow> rel m m2"
begin

lemma ld_seq_done: "fit A m \<Longrightarrow> set as \<subseteq> A \<Longrightarrow> \<exists>bs. ld_seq (ld m) as = Done bs \<and> length bs = length as"
proof (induction as)
  case Nil
  then show ?case by simp
next
  case (Cons a as)
  then obtain bs where "ld_seq (ld m) as = Done bs" "length bs = length as" by auto
  moreover obtain b where "ld m a = Done b" using ld_ok [OF Cons.prems(1), of a] Cons.prems(2) by auto
  ultimately show ?case by simp
qed

lemma ld_seq_cong: "\<forall>a \<in> set as. ld m' a = ld m a \<Longrightarrow> ld_seq (ld m') as = ld_seq (ld m) as"
  by (induction as) simp_all

lemma st_seq_ok:
  "fit A m \<Longrightarrow> set as \<subseteq> A \<Longrightarrow> distinct as \<Longrightarrow> length bs = length as \<Longrightarrow>
   \<exists>m'. st_seq st (zip as bs) m = Done m' \<and> fit A m' \<and> rel m m' \<and> ld_seq (ld m') as = Done bs \<and>
     (\<forall>c \<in> A - set as. ld m' c = ld m c)"
proof (induction as arbitrary: bs m)
  case Nil
  then show ?case by (simp add: rel_refl)
next
  case (Cons a as)
  from Cons.prems(4) obtain b bs' where bs: "bs = b # bs'" "length bs' = length as" by (cases bs) simp_all
  have a: "a \<in> A" "a \<notin> set as" "set as \<subseteq> A" "distinct as" using Cons.prems by auto
  from st_ok [OF Cons.prems(1) a(1), of b] obtain m1 where m1: "st a b m = Done m1" "fit A m1" "rel m m1"
    "\<forall>c \<in> A. ld m1 c = (if c = a then Done b else ld m c)" by blast
  from Cons.IH [OF m1(2) a(3,4) bs(2)] obtain m' where m': "st_seq st (zip as bs') m1 = Done m'" "fit A m'" "rel m1 m'"
    "ld_seq (ld m') as = Done bs'" "\<forall>c \<in> A - set as. ld m' c = ld m1 c" by blast
  have "ld m' a = Done b" using m'(5) m1(4) a(1,2) by simp
  moreover have "\<forall>c \<in> A - set (a # as). ld m' c = ld m c" using m'(5) m1(4) by simp
  ultimately show ?case using bs(1) m1(1) m'(1,2,4) rel_trans [OF m1(3) m'(3)] by simp
qed

end

section \<open>The model provides the contract\<close>

text \<open>A user address that no page table lies under.\<close>

definition data_at :: "pmm \<Rightarrow> u64 \<Rightarrow> u64 \<Rightarrow> bool" where
  "data_at m p4 v \<longleftrightarrow> (\<exists>pa. virt_to_phys m p4 v = Some pa \<and> (\<forall>k \<le> 3. \<forall>u. table_at m p4 k u \<noteq> Some (page_of pa)))"

definition data_fit :: "u64 \<Rightarrow> u64 set \<Rightarrow> pmm \<Rightarrow> bool" where
  "data_fit p4 A m \<longleftrightarrow> tables_ok m p4 \<and> (\<forall>a \<in> A. data_at m p4 a) \<and> inj_on (virt_to_phys m p4) A"

text \<open>Only memory outside the tables has changed.\<close>

definition data_only :: "u64 \<Rightarrow> pmm \<Rightarrow> pmm \<Rightarrow> bool" where
  "data_only p4 m m' \<longleftrightarrow> m' = m\<lparr>pm_mem := pm_mem m'\<rparr> \<and> agree m m' p4"

lemma data_only_refl [simp]: "data_only p4 m m"
  by (simp add: data_only_def agree_def)

lemma data_only_trans: "data_only p4 m m1 \<Longrightarrow> data_only p4 m1 m2 \<Longrightarrow> data_only p4 m m2"
proof -
  assume a: "data_only p4 m m1" "data_only p4 m1 m2"
  have "agree m m2 p4" unfolding agree_def
  proof (intro allI impI)
    fix k v t i assume h: "k \<le> 3" "table_at m p4 k v = Some t" "i < (512 :: nat)"
    have ag: "agree m m1 p4" "agree m1 m2 p4" using a by (simp_all add: data_only_def)
    have "table_at m1 p4 k v = Some t" using agree_table_at [OF ag(1), of k v] h by simp
    then show "pte m2 t i = pte m t i" using agreeD [OF ag(1) h(2,1,3)] agreeD [OF ag(2) _ h(1,3)] by simp
  qed
  moreover have "m1 = m\<lparr>pm_mem := pm_mem m1\<rparr>" "m2 = m1\<lparr>pm_mem := pm_mem m2\<rparr>" using a by (simp_all add: data_only_def)
  then have "m2 = m\<lparr>pm_mem := pm_mem m2\<rparr>" by (cases m, cases m1, cases m2) simp
  ultimately show ?thesis by (simp add: data_only_def)
qed

lemma data_onlyD:
  assumes "data_only p4 m m'"
  shows "pm_lock m' = pm_lock m" "pm_base m' = pm_base m" "pm_size m' = pm_size m" "pm_bm m' = pm_bm m"
    "pm_refs m' = pm_refs m" "frame_avail m' = frame_avail m" "agree m m' p4"
proof -
  obtain f where f: "m' = m\<lparr>pm_mem := f\<rparr>" using assms unfolding data_only_def by blast
  show "pm_lock m' = pm_lock m" "pm_base m' = pm_base m" "pm_size m' = pm_size m" "pm_bm m' = pm_bm m"
    "pm_refs m' = pm_refs m" "frame_avail m' = frame_avail m" by (simp_all add: f frame_avail_def)
  show "agree m m' p4" using assms by (simp add: data_only_def)
qed

lemma data_only_tables:
  assumes "data_only p4 m m'" "tables_ok m p4"
  shows "tables_ok m' p4" "virt_to_phys m' p4 v = virt_to_phys m p4 v" "data_at m' p4 v = data_at m p4 v"
proof -
  note d = data_onlyD [OF assms(1)]
  show t: "tables_ok m' p4" using agree_tables_ok [OF assms(2) d(7)] d(6) by simp
  show v: "virt_to_phys m' p4 v = virt_to_phys m p4 v" by (rule virt_to_phys_agree [OF assms(2) t d(7)])
  have "table_at m' p4 k u = table_at m p4 k u" if "k \<le> 3" for k u using agree_table_at [OF d(7), of k u] that by simp
  then show "data_at m' p4 v = data_at m p4 v" by (auto simp: data_at_def v)
qed

lemma page_of_word_addr: "aligned t \<Longrightarrow> i < 512 \<Longrightarrow> word_addr pa = entry_addr t i \<Longrightarrow> page_of pa = t"
proof -
  assume t: "aligned t" and i: "i < 512" and e: "word_addr pa = entry_addr t i"
  obtain q where q: "unat t = 4096 * q" using t by (metis aligned_def mod_0_imp_dvd dvdE)
  have "unat pa div 8 * 8 = 4096 * q + i * 8" using e word_addr_div [of pa] unat_entry_addr [OF t i] q by simp
  then have "unat pa div 8 = 512 * q + i" by simp
  then have "unat pa div 8 div 512 = q" using i by simp
  then have "unat pa div 4096 = q" by (simp add: div_mult2_eq [symmetric])
  then show ?thesis by (simp add: word_unat_eq_iff page_of_div q)
qed

lemma set_byte_data:
  assumes "tables_ok m p4" "virt_to_phys m p4 v = Some pa" "data_at m p4 v"
  shows "data_only p4 m (set_byte pa b m)"
proof -
  have "agree m (set_byte pa b m) p4" unfolding agree_def
  proof (intro allI impI)
    fix k u t i assume h: "k \<le> 3" "table_at m p4 k u = Some t" "i < (512 :: nat)"
    have "word_addr pa \<noteq> entry_addr t i"
    proof
      assume "word_addr pa = entry_addr t i"
      then have "page_of pa = t" using page_of_word_addr tables_okD(2) [OF assms(1) h(1,2)] h(3) by blast
      then show False using assms(2,3) h by (auto simp: data_at_def)
    qed
    then show "pte (set_byte pa b m) t i = pte m t i" by (auto simp: pte_def set_byte_def)
  qed
  then show ?thesis by (simp add: data_only_def set_byte_def)
qed

lemma st8_ok:
  assumes "data_fit p4 A m" "a \<in> A"
  shows "\<exists>m'. st8 p4 a b m = Done m' \<and> data_fit p4 A m' \<and> data_only p4 m m' \<and>
    (\<forall>c \<in> A. ld8 p4 m' c = (if c = a then Done b else ld8 p4 m c))"
proof -
  have ok: "tables_ok m p4" and da: "data_at m p4 a" using assms by (auto simp: data_fit_def)
  then obtain pa where pa: "virt_to_phys m p4 a = Some pa" by (auto simp: data_at_def)
  have d: "data_only p4 m (set_byte pa b m)" by (rule set_byte_data [OF ok pa da])
  note t = data_only_tables [OF d ok]
  have fit: "data_fit p4 A (set_byte pa b m)" using assms(1) t by (auto simp: data_fit_def inj_on_def)
  have "ld8 p4 (set_byte pa b m) c = (if c = a then Done b else ld8 p4 m c)" if "c \<in> A" for c
  proof -
    have "data_at m p4 c" using assms(1) that by (simp add: data_fit_def)
    then obtain pc where pc: "virt_to_phys m p4 c = Some pc" by (auto simp: data_at_def)
    have "pc = pa \<longleftrightarrow> c = a" using assms that pa pc by (auto simp: data_fit_def inj_on_def)
    then show ?thesis using pa pc t(2) by (auto simp: ld8_def mem_byte_set_byte)
  qed
  then show ?thesis using pa d fit by (simp add: st8_def)
qed

interpretation user_bytes: byte_store "ld8 p4" "st8 p4" "data_fit p4" "data_only p4" for p4
proof unfold_locales
  show "\<exists>m'. st8 p4 a b m = Done m' \<and> data_fit p4 A m' \<and> data_only p4 m m' \<and>
    (\<forall>c \<in> A. ld8 p4 m' c = (if c = a then Done b else ld8 p4 m c))" if "data_fit p4 A m" "a \<in> A" for A m a b
    using st8_ok [OF that] .
  show "\<exists>b. ld8 p4 m a = Done b" if "data_fit p4 A m" "a \<in> A" for A m a
    using that by (auto simp: data_fit_def data_at_def ld8_def)
  show "data_only p4 m m2" if "data_only p4 m m1" "data_only p4 m1 m2" for m m1 m2 using data_only_trans [OF that] .
qed simp

text \<open>A buffer of \<open>n\<close> bytes, fit for copying.\<close>

definition buf_fit :: "u64 \<Rightarrow> u64 \<Rightarrow> nat \<Rightarrow> pmm \<Rightarrow> bool" where
  "buf_fit p4 v n m \<longleftrightarrow> n \<le> 2 ^ 64 \<and> data_fit p4 (set (addrs v n)) m"

lemma addrs_length [simp]: "length (addrs v n) = n"
  by (simp add: addrs_def)

lemma addrs_distinct: "n \<le> 2 ^ 64 \<Longrightarrow> distinct (addrs v n)"
proof -
  assume n: "n \<le> 2 ^ 64"
  have "inj_on (\<lambda>i. v + of_nat i :: u64) {0..<n}"
  proof (rule inj_onI)
    fix i j assume a: "i \<in> {0..<n}" "j \<in> {0..<n}" "v + of_nat i = v + (of_nat j :: u64)"
    then have "unat (of_nat i :: u64) = unat (of_nat j :: u64)" by simp
    then show "i = j" using a n by (simp add: unat_of_nat)
  qed
  then show ?thesis by (simp add: addrs_def distinct_map)
qed

lemma st_bytes_ok:
  assumes "buf_fit p4 v (length bs) m"
  shows "\<exists>m'. st_bytes p4 v bs m = Done m' \<and> ld_bytes p4 m' v (length bs) = Done bs \<and>
    buf_fit p4 v (length bs) m' \<and> data_only p4 m m'"
proof -
  have f: "data_fit p4 (set (addrs v (length bs))) m" "length bs \<le> 2 ^ 64" using assms by (simp_all add: buf_fit_def)
  from user_bytes.st_seq_ok [OF f(1) subset_refl addrs_distinct [OF f(2)], of bs]
  show ?thesis using f(2) by (auto simp: st_bytes_def ld_bytes_def buf_fit_def)
qed

lemma ld_bytes_ok: "buf_fit p4 v n m \<Longrightarrow> \<exists>bs. ld_bytes p4 m v n = Done bs \<and> length bs = n"
  using user_bytes.ld_seq_done [of p4 "set (addrs v n)" m "addrs v n"] by (simp add: buf_fit_def ld_bytes_def)

section \<open>Little endian\<close>

definition le_bytes :: "nat \<Rightarrow> u64 \<Rightarrow> u8 list" where
  "le_bytes n w = map (\<lambda>k. ucast (drop_bit (8 * k) w)) [0..<n]"

fun of_le :: "u8 list \<Rightarrow> u64" where
  "of_le [] = 0"
| "of_le (b # bs) = ucast b OR push_bit 8 (of_le bs)"

lemma le_bytes_length [simp]: "length (le_bytes n w) = n"
  by (simp add: le_bytes_def)

lemma bit_of_le: "k < 64 \<Longrightarrow> bit (of_le bs) k \<longleftrightarrow> k div 8 < length bs \<and> bit (bs ! (k div 8)) (k mod 8)"
proof (induction bs arbitrary: k)
  case Nil
  then show ?case by simp
next
  case (Cons b bs)
  show ?case
  proof (cases "k < 8")
    case True
    then show ?thesis using Cons.prems by (simp add: bit_simps)
  next
    case False
    then have k: "k div 8 = Suc ((k - 8) div 8)" "k mod 8 = (k - 8) mod 8" by (auto simp: le_div_geq le_mod_geq)
    have "\<not> bit b k" using False bit_imp_le_length [of b k] by auto
    then show ?thesis using Cons.IH [of "k - 8"] Cons.prems False by (simp add: bit_simps k)
  qed
qed

lemma of_le_bytes: "of_le (le_bytes n w) = take_bit (8 * n) w"
proof (rule bit_eqI)
  fix k assume "possible_bit TYPE(u64) k"
  then have k: "k < 64" by simp
  have "k div 8 < n \<longleftrightarrow> k < 8 * n" by (simp add: div_less_iff_less_mult mult.commute)
  moreover have "8 * (k div 8) + k mod 8 = k" by simp
  ultimately show "bit (of_le (le_bytes n w)) k = bit (take_bit (8 * n) w) k"
    by (auto simp: bit_of_le [OF k] le_bytes_def bit_take_bit_iff bit_simps)
qed

lemma le_roundtrip [simp]:
  "of_le (le_bytes 8 w) = w" "ucast (of_le (le_bytes 4 (ucast (x :: u32)))) = x"
  by (simp_all add: of_le_bytes) (rule bit_eqI, auto simp: bit_simps)+

definition ld64 :: "u64 \<Rightarrow> pmm \<Rightarrow> u64 \<Rightarrow> u64 run" where
  "ld64 cr3 m v = bind_run (ld_bytes cr3 m v 8) (\<lambda>bs. Done (of_le bs))"

definition st64 :: "u64 \<Rightarrow> u64 \<Rightarrow> u64 \<Rightarrow> pmm \<Rightarrow> pmm run" where
  "st64 cr3 v w m = st_bytes cr3 v (le_bytes 8 w) m"

text \<open>A page user code may access has a translation.\<close>

lemma chk_walk: "chk_step m t i = Inr p \<Longrightarrow> walk_step m t i v = Inr p"
  "chk_step m t i = Inl True \<Longrightarrow> \<exists>q. walk_step m t i v = Inl (Some q)"
  by (auto simp: chk_step_def walk_step_def Let_def split: if_splits)

lemma valid_user_mapped: "valid_user m p4 v \<Longrightarrow> \<exists>pa. virt_to_phys m p4 v = Some pa"
proof -
  assume v: "valid_user m p4 v"
  then have p4: "p4 \<noteq> 0" by (auto simp: valid_user_def)
  note w = chk_walk(1) [where v = v] chk_walk(2) [where v = v]
  show ?thesis
    using v p4 unfolding valid_user_def virt_to_phys_def
    by (auto simp: Let_def split: sum.splits if_splits option.splits dest!: w dest: chk_walk [where v = v])
qed

end
