(* ===== verification/Page_Words.thy ===== *)
theory Page_Words
  imports Page_Loop Virt_Mem
begin

text \<open>
  Pages as arrays of 512 words: which virtual addresses share a page, and 64-bit loads and stores in a page that is
  mapped to a frame in private use. The stack frames of new threads are built with these.
\<close>

section \<open>Page numbers\<close>

lemma pidx_div: "pidx s v = unat v div 2 ^ s mod 512"
proof -
  have "drop_bit s v AND 0x1FF = take_bit 9 (drop_bit s v)" by (simp add: take_bit_eq_mask mask_eq_exp_minus_1)
  then have "pidx s v = take_bit 9 (unat (drop_bit s v))" by (simp only: pidx_def unsigned_take_bit_eq)
  then show ?thesis by (simp add: take_bit_eq_mod unat_drop_bit_eq drop_bit_nat_def del: drop_bit_eq_div)
qed

text \<open>In the lower half of the canonical addresses, two addresses share a page when they have the same page number.\<close>

lemma digits4:
  fixes x y :: nat
  assumes "x < 68719476736" "y < 68719476736" "x mod 512 = y mod 512" "x div 512 mod 512 = y div 512 mod 512"
    "x div 512 div 512 mod 512 = y div 512 div 512 mod 512" "x div 512 div 512 div 512 = y div 512 div 512 div 512"
  shows "x = y"
proof -
  have d: "z = 512 * (z div 512) + z mod 512" for z :: nat by simp
  have "x div 512 div 512 = y div 512 div 512" using assms(5,6) d by metis
  then have "x div 512 = y div 512" using assms(4) d by metis
  then show ?thesis using assms(3) d by metis
qed

lemma same_page_number:
  assumes "unat u < 2 ^ 48" "unat v < 2 ^ 48"
  shows "same_page u v \<longleftrightarrow> unat u div 4096 = unat v div 4096"
proof -
  have b: "unat u div 4096 < 68719476736" "unat v div 4096 < 68719476736" using assms by simp_all
  have p: "pidx 12 w = unat w div 4096 mod 512" "pidx 21 w = unat w div 4096 div 512 mod 512"
    "pidx 30 w = unat w div 4096 div 512 div 512 mod 512" "pidx 39 w = unat w div 4096 div 512 div 512 div 512 mod 512" for w
    by (simp_all add: pidx_div div_mult2_eq [symmetric])
  have t: "unat w div 4096 div 512 div 512 div 512 mod 512 = unat w div 4096 div 512 div 512 div 512" if "unat w < 2 ^ 48" for w :: u64
    using that by (simp add: div_mult2_eq [symmetric])
  show ?thesis
  proof
    assume "same_page u v"
    then show "unat u div 4096 = unat v div 4096"
      using digits4 [OF b] t [OF assms(1)] t [OF assms(2)] by (simp add: same_page_iff p)
  next
    assume "unat u div 4096 = unat v div 4096"
    then show "same_page u v" by (simp add: same_page_iff p)
  qed
qed

lemma page_seq_nth:
  assumes "unat b + 4096 * n \<le> 2 ^ 48" "i < n"
  shows "page_seq b n ! i = b + of_nat i * PAGE_SIZE" "unat (page_seq b n ! i) = unat b + 4096 * i"
proof -
  show e: "page_seq b n ! i = b + of_nat i * PAGE_SIZE" using assms(2) by (simp add: page_seq_def)
  have i: "4096 * i < 2 ^ 48" "unat b + 4096 * i < 2 ^ 48" using assms by linarith+
  then have "unat (of_nat i * PAGE_SIZE :: u64) = 4096 * i"
    by (simp add: PAGE_SIZE_def unat_word_ariths unat_of_nat)
  then show "unat (page_seq b n ! i) = unat b + 4096 * i" using i(2) by (simp add: e unat_word_ariths)
qed

lemma page_seq_ok:
  assumes b: "b AND 0xFFF = 0" "unat b + 4096 * n \<le> 2 ^ 48"
  shows "\<forall>v \<in> set (page_seq b n). v AND 0xFFF = 0" "sorted_wrt (\<lambda>u v. \<not> same_page u v) (page_seq b n)"
    "length (page_seq b n) = n"
proof -
  have len: "length (page_seq b n) = n" by (simp add: page_seq_def)
  then show "length (page_seq b n) = n" .
  have m: "v AND 0xFFF = 0 \<longleftrightarrow> unat v mod 4096 = 0" for v :: u64
  proof -
    have "v AND 0xFFF = take_bit 12 v" by (simp add: take_bit_eq_mask mask_eq_exp_minus_1)
    then show ?thesis using aligned_low_bits [of v] by (simp add: aligned_def)
  qed
  note nth = page_seq_nth [OF b(2)]
  show "\<forall>v \<in> set (page_seq b n). v AND 0xFFF = 0"
    using b(1) by (auto simp: in_set_conv_nth len m nth(2))
  show "sorted_wrt (\<lambda>u v. \<not> same_page u v) (page_seq b n)" unfolding sorted_wrt_iff_nth_less len
  proof (intro allI impI)
    fix i j assume ij: "i < j" "j < n"
    let ?u = "page_seq b n ! i" and ?v = "page_seq b n ! j"
    have u: "unat ?u = unat b + 4096 * i" "unat ?v = unat b + 4096 * j" using nth(2) ij by simp_all
    have bd: "unat ?u < 2 ^ 48" "unat ?v < 2 ^ 48" using u b(2) ij by simp_all
    have "unat b mod 4096 = 0" using b(1) m by simp
    then have "unat ?u div 4096 = unat b div 4096 + i" "unat ?v div 4096 = unat b div 4096 + j" using u by auto
    then show "\<not> same_page ?u ?v" using same_page_number [OF bd] ij(1) by simp
  qed
qed

section \<open>The words of a page\<close>

definition page_addrs :: "u64 \<Rightarrow> u64 set" where
  "page_addrs b = set (addrs b 4096)"

lemma in_addrs: "a \<in> set (addrs v n) \<longleftrightarrow> (\<exists>i < n. a = v + of_nat i)"
  by (auto simp: addrs_def)

text \<open>A page mapped to a frame in private use can be read and written.\<close>

lemma in_page:
  assumes b: "b AND 0xFFF = 0" "unat b + 4096 \<le> 2 ^ 48" and i: "i < 4096"
  shows "same_page (b + of_nat i) b" "(b + of_nat i) AND 0xFFF = of_nat i" "unat (b + of_nat i) = unat b + i"
proof -
  have t: "v AND 0xFFF = take_bit 12 v" for v :: u64 by (simp add: take_bit_eq_mask mask_eq_exp_minus_1)
  have u: "unat (of_nat i :: u64) = i" using i by (simp add: unat_of_nat)
  then show s: "unat (b + of_nat i) = unat b + i" using b(2) i by (simp add: unat_word_ariths)
  have m: "unat b mod 4096 = 0" using b(1) aligned_low_bits [of b] t [of b] by (simp add: aligned_def)
  then obtain q where q: "unat b = 4096 * q" by auto
  have "unat (b + of_nat i) div 4096 = q" "unat b div 4096 = q" using q i s by simp_all
  then show "same_page (b + of_nat i) b" using same_page_number [of "b + of_nat i" b] b(2) i s by simp
  have "unat ((b + of_nat i) AND 0xFFF) = take_bit 12 (unat (b + of_nat i))" unfolding t by (rule unsigned_take_bit_eq)
  also have "\<dots> = i" using i s q by (simp add: take_bit_eq_mod)
  finally show "(b + of_nat i) AND 0xFFF = of_nat i" using u by (simp add: word_unat_eq_iff)
qed

lemma frame_or_offset:
  assumes "aligned f" "i < 4096"
  shows "page_of (f OR of_nat i) = f" "i < 4096 \<Longrightarrow> j < 4096 \<Longrightarrow> f OR of_nat i = f OR of_nat j \<Longrightarrow> i = j"
proof -
  have sm: "take_bit 12 (of_nat k :: u64) = of_nat k" if "k < 4096" for k
  proof -
    have "unat (of_nat k :: u64) = k" using that by (simp add: unat_of_nat)
    then have "unat (take_bit 12 (of_nat k :: u64)) = k" using that unsigned_take_bit_eq [of 12 "of_nat k :: u64", where ?'a = nat]
      by (simp only: take_bit_eq_mod) simp
    then show ?thesis using \<open>unat (of_nat k :: u64) = k\<close> by (simp add: word_unat_eq_iff)
  qed
  have lo: "\<not> bit f n" if "n < 12" for n using aligned_bit [OF assms(1) that] .
  have hi: "\<not> bit (of_nat k :: u64) n" if "k < 4096" "12 \<le> n" for k n
    using sm [OF that(1)] that(2) by (metis bit_take_bit_iff not_le)
  have m: "PAGE_SIZE - 1 = mask 12" by (simp add: PAGE_SIZE_def mask_eq_exp_minus_1)
  show "page_of (f OR of_nat i) = f" unfolding page_of_def m
  proof (rule bit_eqI)
    fix n assume "possible_bit TYPE(u64) n"
    then show "bit ((f OR of_nat i) AND NOT (mask 12)) n = bit f n"
      using lo hi [OF assms(2)] by (cases "n < 12") (auto simp: bit_simps)
  qed
  show "i = j" if "i < 4096" "j < 4096" "f OR of_nat i = f OR of_nat j"
  proof -
    have tf: "take_bit 12 f = 0" using assms(1) by (simp add: aligned_low_bits)
    have "take_bit 12 (f OR of_nat i) = take_bit 12 (f OR of_nat j)" using that(3) by simp
    then have "(of_nat i :: u64) = of_nat j" using sm that(1,2) tf by (simp add: take_bit_or)
    then have "unat (of_nat i :: u64) = unat (of_nat j :: u64)" by simp
    then show ?thesis using that(1,2) by (simp add: unat_of_nat)
  qed
qed

lemma page_fit:
  assumes m: "tables_ok m p4" "data_frame p4 f m" and b: "b AND 0xFFF = 0" "unat b + 4096 \<le> 2 ^ 48"
    and t: "\<forall>u. same_page u b \<longrightarrow> virt_to_phys m p4 u = Some (f OR (u AND 0xFFF))"
  shows "data_fit p4 (page_addrs b) m"
proof -
  have al: "aligned f" using m(2) by (simp add: data_frame_def)
  have v: "virt_to_phys m p4 (b + of_nat i) = Some (f OR of_nat i)" if "i < 4096" for i
    using t in_page [OF b that] by simp
  have "data_at m p4 a" if a: "a \<in> page_addrs b" for a
  proof -
    obtain i where i: "i < 4096" "a = b + of_nat i" using a by (auto simp: page_addrs_def in_addrs)
    have "page_of (f OR of_nat i) = f" by (rule frame_or_offset(1) [OF al i(1)])
    then show ?thesis using v [OF i(1)] i(2) m(2) by (simp add: data_at_def data_frame_def)
  qed
  moreover have "inj_on (virt_to_phys m p4) (page_addrs b)"
  proof (rule inj_onI)
    fix a a' assume h: "a \<in> page_addrs b" "a' \<in> page_addrs b" "virt_to_phys m p4 a = virt_to_phys m p4 a'"
    obtain i j where i: "i < 4096" "a = b + of_nat i" "j < 4096" "a' = b + of_nat j"
      using h(1,2) by (auto simp: page_addrs_def in_addrs)
    then have "f OR of_nat i = f OR of_nat j" using h(3) v by simp
    then show "a = a'" using frame_or_offset(2) [OF al i(1) i(1,3)] i by simp
  qed
  ultimately show ?thesis using m(1) by (simp add: data_fit_def)
qed

text \<open>Word \<open>j\<close> of the page at \<open>b\<close>.\<close>

definition slot :: "u64 \<Rightarrow> nat \<Rightarrow> u64" where
  "slot b j = b + of_nat (8 * j)"

lemma slot_addrs: "j < 512 \<Longrightarrow> set (addrs (slot b j) 8) \<subseteq> page_addrs b"
proof
  fix a assume j: "j < 512" and "a \<in> set (addrs (slot b j) 8)"
  then obtain k where k: "k < 8" "a = slot b j + of_nat k" by (auto simp: in_addrs)
  then have "a = b + of_nat (8 * j + k)" by (simp add: slot_def)
  moreover have "8 * j + k < 4096" using j k(1) by linarith
  ultimately show "a \<in> page_addrs b" unfolding page_addrs_def in_addrs by blast
qed

lemma slot_disjoint:
  assumes "i < 512" "j < 512" "i \<noteq> j"
  shows "set (addrs (slot b i) 8) \<inter> set (addrs (slot b j) 8) = {}"
proof (rule ccontr)
  assume "set (addrs (slot b i) 8) \<inter> set (addrs (slot b j) 8) \<noteq> {}"
  then obtain k l where kl: "k < 8" "l < 8" "slot b i + of_nat k = slot b j + of_nat l" by (auto simp: in_addrs)
  then have "(of_nat (8 * i + k) :: u64) = of_nat (8 * j + l)" by (simp add: slot_def)
  then have "unat (of_nat (8 * i + k) :: u64) = unat (of_nat (8 * j + l) :: u64)" by (rule arg_cong)
  then have "(8 * i + k) mod 2 ^ 64 = (8 * j + l) mod 2 ^ 64" by (simp only: unat_of_nat) simp
  then have "8 * i + k = 8 * j + l" using assms kl(1,2) by simp
  then show False using assms(3) kl(1,2) by linarith
qed

lemma slot_store:
  assumes "data_fit p4 (page_addrs b) m" "j < 512"
  shows "\<exists>m'. st64 p4 (slot b j) w m = Done m' \<and> data_fit p4 (page_addrs b) m' \<and> data_only p4 m m' \<and>
    (\<forall>i < 512. ld64 p4 m' (slot b i) = (if i = j then Done w else ld64 p4 m (slot b i)))"
proof -
  have d: "distinct (addrs (slot b j) 8)" by (rule addrs_distinct) simp
  have l: "length (le_bytes 8 w) = length (addrs (slot b j) 8)" by simp
  from user_bytes.st_seq_ok [OF assms(1) slot_addrs [OF assms(2)] d l] obtain m' where
    m': "st_seq (st8 p4) (zip (addrs (slot b j) 8) (le_bytes 8 w)) m = Done m'" "data_fit p4 (page_addrs b) m'"
      "data_only p4 m m'" "ld_seq (ld8 p4 m') (addrs (slot b j) 8) = Done (le_bytes 8 w)"
      "\<forall>c \<in> page_addrs b - set (addrs (slot b j) 8). ld8 p4 m' c = ld8 p4 m c" by blast
  have "ld64 p4 m' (slot b j) = Done w" using m'(4) by (simp add: ld64_def ld_bytes_def)
  moreover have "ld64 p4 m' (slot b i) = ld64 p4 m (slot b i)" if i: "i < 512" "i \<noteq> j" for i
  proof -
    have "\<forall>a \<in> set (addrs (slot b i) 8). ld8 p4 m' a = ld8 p4 m a"
      using m'(5) slot_addrs [OF i(1), of b] slot_disjoint [OF i(1) assms(2) i(2), of b] by blast
    from user_bytes.ld_seq_cong [OF this] show ?thesis by (simp add: ld64_def ld_bytes_def)
  qed
  ultimately show ?thesis using m'(1-3) by (intro exI [of _ m']) (simp add: st64_def st_bytes_def)
qed

end
