(* ===== verification/Kernel_State.thy ===== *)
theory Kernel_State
  imports Console Policy_Gate Msg_Queue Keyboard Scheduler Page_Words
begin

text \<open>
  The state of the running kernel as the system calls see it: the statics of the components side by side. Also UTF-8,
  which the kernel checks with \<open>core::str::from_utf8\<close> before it prints text of a user program.
\<close>

section \<open>State\<close>

record fb_info =
  fb_phys :: u64
  fb_width :: u32
  fb_height :: u32
  fb_pitch :: u32
  fb_bpp :: u32

record kernel =
  kn_sched :: sched
  kn_mem :: pmm
  kn_queues :: "msg_queue list"
  kn_kbd :: kbd
  kn_vga :: vga
  kn_policy :: policy_state
  kn_fb :: fb_info
  kn_serial :: "u8 list"

text \<open>The addresses fixed at link time or before the scheduler starts.\<close>

record kernel_env =
  ke_sched :: sched_env
  ke_tramp_u :: u64
  ke_tramp_k :: u64
  ke_idle :: u64

abbreviation kn_threads :: "kernel \<Rightarrow> thread list" where "kn_threads k \<equiv> sc_threads (kn_sched k)"
abbreviation kn_cur :: "kernel \<Rightarrow> nat" where "kn_cur k \<equiv> sc_cur (kn_sched k)"
abbreviation kn_cr3 :: "kernel \<Rightarrow> u64" where "kn_cr3 k \<equiv> sc_cr3 (kn_sched k)"
abbreviation K_P4 :: "kernel_env \<Rightarrow> u64" where "K_P4 E \<equiv> ev_kp4 (ke_sched E)"

abbreviation set_threads :: "thread list \<Rightarrow> kernel \<Rightarrow> kernel" where
  "set_threads ths k \<equiv> k\<lparr>kn_sched := (kn_sched k)\<lparr>sc_threads := ths\<rparr>\<rparr>"

text \<open>Arrays of the statics have their declared sizes and the locks are free between the kernel's critical sections.\<close>

definition queue_ok :: "msg_queue \<Rightarrow> bool" where
  "queue_ok q \<longleftrightarrow> mq_ok q \<and> \<not> mq_lock q \<and> (\<forall>m \<in> set (mq_contents q). length (im_data m) = 4)"

definition kernel_ok :: "kernel \<Rightarrow> bool" where
  "kernel_ok k \<longleftrightarrow> sched_ok (kn_sched k) \<and> length (kn_queues k) = MAX_THREADS \<and>
     (\<forall>q \<in> set (kn_queues k). queue_ok q) \<and> vga_ok (kn_vga k) \<and> \<not> vg_lock (kn_vga k) \<and> kb_ok (kn_kbd k)"

text \<open>An environment with a given kernel page table root, and a kernel at boot, over a given memory and page table root.\<close>

definition env_of :: "u64 \<Rightarrow> kernel_env" where
  "env_of c = \<lparr>ke_sched = \<lparr>ev_kp4 = c, ev_irq_stack = 0, ev_us_entry = 0, ev_us_stack = 0, ev_us_cr3 = 0\<rparr>,
     ke_tramp_u = 0, ke_tramp_k = 0, ke_idle = 0\<rparr>"

definition kernel_boot :: "u64 \<Rightarrow> pmm \<Rightarrow> kernel" where
  "kernel_boot cr3 m = \<lparr>kn_sched = sched_boot\<lparr>sc_cr3 := cr3\<rparr>, kn_mem = m, kn_queues = replicate MAX_THREADS msg_queue_new,
     kn_kbd = kbd_boot, kn_vga = vga_boot, kn_policy = policy_boot,
     kn_fb = \<lparr>fb_phys = 0, fb_width = 0, fb_height = 0, fb_pitch = 0, fb_bpp = 0\<rparr>, kn_serial = []\<rparr>"

lemma queue_new_ok: "queue_ok msg_queue_new"
  using mq_new by (simp add: queue_ok_def) (simp add: msg_queue_new_def spinlock_new_def)

lemma kernel_boot_ok: "kernel_ok (kernel_boot cr3 m)"
  using sched_boot_ok kb_boot_ok queue_new_ok vga_boot_ok
  by (simp add: kernel_ok_def kernel_boot_def sched_ok_def)

section \<open>UTF-8\<close>

definition cont_byte :: "u8 \<Rightarrow> bool" where
  "cont_byte b \<longleftrightarrow> 0x80 \<le> b \<and> b \<le> 0xBF"

definition low_bits :: "nat \<Rightarrow> u8 \<Rightarrow> u32" where
  "low_bits n b = ucast (take_bit n b)"

text \<open>The code points of a well-formed sequence; \<open>None\<close> for any other sequence (surrogates, overlong forms, truncation).\<close>

fun utf8 :: "u8 list \<Rightarrow> u32 list option" where
  "utf8 [] = Some []"
| "utf8 (a # r) =
     (if a \<le> 0x7F then map_option ((#) (ucast a)) (utf8 r)
      else case r of [] \<Rightarrow> None | b # r1 \<Rightarrow>
        if \<not> cont_byte b then None
        else if 0xC2 \<le> a \<and> a \<le> 0xDF
        then map_option ((#) (push_bit 6 (low_bits 5 a) OR low_bits 6 b)) (utf8 r1)
        else case r1 of [] \<Rightarrow> None | c # r2 \<Rightarrow>
          if \<not> cont_byte c then None
          else if 0xE0 \<le> a \<and> a \<le> 0xEF \<and> (a = 0xE0 \<longrightarrow> 0xA0 \<le> b) \<and> (a = 0xED \<longrightarrow> b \<le> 0x9F)
          then map_option ((#) (push_bit 12 (low_bits 4 a) OR push_bit 6 (low_bits 6 b) OR low_bits 6 c)) (utf8 r2)
          else case r2 of [] \<Rightarrow> None | d # r3 \<Rightarrow>
            if \<not> cont_byte d then None
            else if 0xF0 \<le> a \<and> a \<le> 0xF4 \<and> (a = 0xF0 \<longrightarrow> 0x90 \<le> b) \<and> (a = 0xF4 \<longrightarrow> b \<le> 0x8F)
            then map_option ((#) (push_bit 18 (low_bits 3 a) OR push_bit 12 (low_bits 6 b) OR push_bit 6 (low_bits 6 c)
                                  OR low_bits 6 d)) (utf8 r3)
            else None)"

text \<open>The characters \<open>print\<close> is given for a string, as \<open>c as u16\<close>; a string value is always well-formed.\<close>

definition str_chars :: "u8 list \<Rightarrow> u16 list" where
  "str_chars bs = (case utf8 bs of None \<Rightarrow> [] | Some cs \<Rightarrow> map ucast cs)"

text \<open>Several \<open>print\<close> calls in a row.\<close>

fun print_all :: "u16 list list \<Rightarrow> vga \<Rightarrow> vga run" where
  "print_all [] v = Done v"
| "print_all (s # ss) v = bind_run (print s v) (print_all ss)"

lemma print_done:
  assumes "vga_ok v" "\<not> vg_lock v"
  shows "\<exists>v'. print cs v = Done v' \<and> vga_ok v' \<and> \<not> vg_lock v'"
  using assms print_raw_ok [of "v\<lparr>vg_lock := True\<rparr>" cs] by (simp add: print_def vga_ok_def)

lemma print_all_done: "vga_ok v \<Longrightarrow> \<not> vg_lock v \<Longrightarrow> \<exists>v'. print_all ss v = Done v' \<and> vga_ok v' \<and> \<not> vg_lock v'"
proof (induction ss arbitrary: v)
  case Nil
  then show ?case by simp
next
  case (Cons s ss)
  from print_done [OF Cons.prems] obtain v1 where "print s v = Done v1" "vga_ok v1" "\<not> vg_lock v1" by blast
  with Cons.IH show ?case by auto
qed

end
