(* ===== verification/Spawn.thy ===== *)
theory Spawn
  imports Kernel_State
begin

text \<open>
  Creating threads and switching between them (\<^verbatim>\<open>threading.rs\<close>): the stacks of a new thread, its first stack frame, and
  the register save and restore of \<open>thread_switch\<close>. The frame is written through the page tables that are active at the
  call.
\<close>

section \<open>Stacks\<close>

definition KERNEL_STACK_SIZE :: u64 where "KERNEL_STACK_SIZE = 0x8000"
definition USTACK_SIZE :: u64 where "USTACK_SIZE = 0x00800000"

abbreviation KSTACK_PAGES :: nat where "KSTACK_PAGES \<equiv> unat (KERNEL_STACK_SIZE div PAGE_SIZE)"
abbreviation USTACK_PAGES :: nat where "USTACK_PAGES \<equiv> unat (USTACK_SIZE div PAGE_SIZE)"

definition kstack_base :: "nat \<Rightarrow> u64" where
  "kstack_base i = 0x02000000 + of_nat i * (KERNEL_STACK_SIZE + PAGE_SIZE) + PAGE_SIZE"

definition ustack_base :: "nat \<Rightarrow> u64" where
  "ustack_base i = 0x04000000 + of_nat i * (USTACK_SIZE + PAGE_SIZE) + PAGE_SIZE"

section \<open>Stack frames\<close>

text \<open>\<open>ksp -= 8; *(ksp as *mut u64) = w\<close> for each word.\<close>

fun push_words :: "u64 \<Rightarrow> u64 \<Rightarrow> u64 list \<Rightarrow> pmm \<Rightarrow> (u64 \<times> pmm) run" where
  "push_words cr3 ksp [] m = Done (ksp, m)"
| "push_words cr3 ksp (w # ws) m = bind_run (st64 cr3 (ksp - 8) w m) (push_words cr3 (ksp - 8) ws)"

definition first_frame :: "kernel_env \<Rightarrow> u64 \<Rightarrow> u64 \<Rightarrow> u64 \<Rightarrow> bool \<Rightarrow> u64 list" where
  "first_frame E ut entry arg user =
     (if user then [0x23, ut, 0x202, 0x1B, entry, ke_tramp_u E] else [ke_tramp_k E]) @ [0, 0, 0, ut, entry, arg]"

definition init_thread_stack ::
    "kernel_env \<Rightarrow> u64 \<Rightarrow> thread \<Rightarrow> u64 \<Rightarrow> u64 \<Rightarrow> u64 \<Rightarrow> u64 \<Rightarrow> bool \<Rightarrow> pmm \<Rightarrow> (thread \<times> pmm) run" where
  "init_thread_stack E cr3 t kt ut entry arg user m =
     bind_run (push_words cr3 kt (first_frame E ut entry arg user) m) (\<lambda>(ksp, m'). Done (t\<lparr>th_krsp := ksp\<rparr>, m'))"

text \<open>
  The callee-saved registers, and \<open>thread_switch\<close>: six pushes on the old stack, the old stack pointer to \<open>*old\<close>, six pops and
  the return address from the new stack. The result is the value stored to \<open>*old\<close>, the registers, the address execution
  continues at, and the new stack pointer.
\<close>

record callee_regs =
  cr_rbx :: u64
  cr_rbp :: u64
  cr_r12 :: u64
  cr_r13 :: u64
  cr_r14 :: u64
  cr_r15 :: u64

definition pop_frame :: "u64 \<Rightarrow> pmm \<Rightarrow> u64 \<Rightarrow> (callee_regs \<times> u64 \<times> u64) run" where
  "pop_frame cr3 m rsp =
     bind_run (ld64 cr3 m rsp) (\<lambda>r15. bind_run (ld64 cr3 m (rsp + 8)) (\<lambda>r14. bind_run (ld64 cr3 m (rsp + 16)) (\<lambda>r13.
     bind_run (ld64 cr3 m (rsp + 24)) (\<lambda>r12. bind_run (ld64 cr3 m (rsp + 32)) (\<lambda>rbp. bind_run (ld64 cr3 m (rsp + 40)) (\<lambda>rbx.
     bind_run (ld64 cr3 m (rsp + 48)) (\<lambda>ret.
       Done (\<lparr>cr_rbx = rbx, cr_rbp = rbp, cr_r12 = r12, cr_r13 = r13, cr_r14 = r14, cr_r15 = r15\<rparr>, ret, rsp + 56))))))))"

definition thread_switch :: "u64 \<Rightarrow> callee_regs \<Rightarrow> u64 \<Rightarrow> u64 \<Rightarrow> pmm \<Rightarrow> (u64 \<times> callee_regs \<times> u64 \<times> u64 \<times> pmm) run" where
  "thread_switch cr3 r rsp new m =
     bind_run (push_words cr3 rsp [cr_rbx r, cr_rbp r, cr_r12 r, cr_r13 r, cr_r14 r, cr_r15 r] m) (\<lambda>(old, m').
     bind_run (pop_frame cr3 m' new) (\<lambda>(r', ret, rsp'). Done (old, r', ret, rsp', m')))"

section \<open>Spawning\<close>

definition free_slot :: "thread list \<Rightarrow> nat option" where
  "free_slot ths = List.find (\<lambda>i. th_state (ths ! i) = Dead) [0..<MAX_THREADS]"

text \<open>The line both routines print.\<close>

definition spawn_line :: "nat \<Rightarrow> u8 list \<Rightarrow> vga \<Rightarrow> vga run" where
  "spawn_line i name = print_all [chars ''  [T#'', chars (num_str (of_nat i)), chars ''] '', str_chars name, [0x0A]]"

definition spawn_k :: "kernel_env \<Rightarrow> u8 list \<Rightarrow> u64 \<Rightarrow> u64 \<Rightarrow> kernel \<Rightarrow> (int \<times> kernel) run" where
  "spawn_k E name entry arg k =
     (case free_slot (kn_threads k) of None \<Rightarrow> Done (-1, k)
      | Some i \<Rightarrow>
        let ks = kstack_base i; kt = ks + KERNEL_STACK_SIZE in
        bind_run (run_pages (map_page_raw (K_P4 E) PTE_W) (page_seq ks KSTACK_PAGES) (kn_mem k)) (\<lambda>m1.
        let t = (kn_threads k ! i)\<lparr>th_id := of_nat i, th_prio := 10, th_ktop := kt, th_utop := kt, th_cr3 := K_P4 E, th_ticks := 0\<rparr> in
        bind_run (init_thread_stack E (kn_cr3 k) t kt kt entry arg False m1) (\<lambda>(t1, m2).
        bind_run (spawn_line i name (kn_vga k)) (\<lambda>v.
          Done (int i, k\<lparr>kn_mem := m2, kn_vga := v,
            kn_sched := (kn_sched k)\<lparr>sc_threads := (kn_threads k)[i := (set_name name t1)\<lparr>th_state := Ready\<rparr>],
                                      sc_nthreads := sc_nthreads (kn_sched k) + 1\<rparr>\<rparr>)))))"

definition spawn_user_on_cr3 :: "kernel_env \<Rightarrow> u8 list \<Rightarrow> u64 \<Rightarrow> u64 \<Rightarrow> u64 \<Rightarrow> kernel \<Rightarrow> (int \<times> kernel) run" where
  "spawn_user_on_cr3 E name entry arg cr3 k =
     (case free_slot (kn_threads k) of None \<Rightarrow> Done (-1, k)
      | Some i \<Rightarrow>
        let ks = kstack_base i; kt = ks + KERNEL_STACK_SIZE; us = ustack_base i; ut = us + USTACK_SIZE in
        bind_run (run_pages (map_page_raw (K_P4 E) PTE_W) (page_seq ks KSTACK_PAGES) (kn_mem k)) (\<lambda>m1.
        bind_run (run_pages (map_page_raw cr3 (PTE_W OR PTE_U)) (page_seq us USTACK_PAGES) m1) (\<lambda>m2.
        let t = (kn_threads k ! i)\<lparr>th_id := of_nat i, th_prio := 5, th_ktop := kt, th_utop := ut, th_cr3 := cr3, th_ticks := 0\<rparr> in
        bind_run (init_thread_stack E (kn_cr3 k) t kt ut entry arg True m2) (\<lambda>(t1, m3).
        bind_run (spawn_line i name (kn_vga k)) (\<lambda>v.
          Done (int i, k\<lparr>kn_mem := m3, kn_vga := v,
            kn_sched := (kn_sched k)\<lparr>sc_threads := (kn_threads k)[i := (set_name name t1)\<lparr>th_state := Ready\<rparr>],
                                      sc_nthreads := sc_nthreads (kn_sched k) + 1\<rparr>\<rparr>))))))"

definition sched_init :: "kernel_env \<Rightarrow> kernel \<Rightarrow> kernel run" where
  "sched_init E k =
     bind_run (spawn_k E (map of_char ''idle'' @ [0]) (ke_idle E) 0 k) (\<lambda>(tid, k').
       Done (k'\<lparr>kn_sched := sched_init_from tid (kn_sched k')\<rparr>))"

text \<open>The legacy dispatcher. A pointer it prints from is not checked. The end of \<open>EXIT\<close> is the scheduler's.\<close>

definition syscall_dispatch :: "kernel_env \<Rightarrow> u64 \<Rightarrow> u64 \<Rightarrow> u64 \<Rightarrow> kernel \<Rightarrow> (control \<times> kernel) run" where
  "syscall_dispatch E num arg2 arg3 k =
     (if num = 1
      then if arg2 \<noteq> 0 \<and> arg3 < 65536
           then bind_run (ld_bytes (kn_cr3 k) (kn_mem k) arg2 (unat arg3)) (\<lambda>s.
                case utf8 s of None \<Rightarrow> Done (Resume, k)
                | Some cs \<Rightarrow> bind_run (print (map ucast cs) (kn_vga k)) (\<lambda>v. Done (Resume, k\<lparr>kn_vga := v\<rparr>)))
           else Done (Resume, k)
      else if num = 0
      then bind_run (exit_current (ke_sched E) (kn_sched k)) (\<lambda>(c, s). Done (c, k\<lparr>kn_sched := s\<rparr>))
      else Done (Resume, k))"

section \<open>Frames on a page\<close>

lemma slot_pred: "0 < j \<Longrightarrow> slot b j - 8 = slot b (j - 1)"
  by (cases j) (simp_all add: slot_def)

lemma push_words_ok:
  "data_fit p4 (page_addrs b) m \<Longrightarrow> length ws \<le> j \<Longrightarrow> j \<le> 512 \<Longrightarrow>
   \<exists>m'. push_words p4 (slot b j) ws m = Done (slot b (j - length ws), m') \<and> data_fit p4 (page_addrs b) m' \<and> data_only p4 m m' \<and>
     (\<forall>i < length ws. ld64 p4 m' (slot b (j - Suc i)) = Done (ws ! i)) \<and>
     (\<forall>i < 512. i < j - length ws \<or> j \<le> i \<longrightarrow> ld64 p4 m' (slot b i) = ld64 p4 m (slot b i))"
proof (induction ws arbitrary: j m)
  case Nil
  then show ?case by simp
next
  case (Cons w ws)
  then have j: "0 < j" "j - 1 < 512" "length ws \<le> j - 1" "j - 1 \<le> 512" by auto
  from slot_store [OF Cons.prems(1) j(2), of w] obtain m1 where
    m1: "st64 p4 (slot b (j - 1)) w m = Done m1" "data_fit p4 (page_addrs b) m1" "data_only p4 m m1"
      "\<forall>i < 512. ld64 p4 m1 (slot b i) = (if i = j - 1 then Done w else ld64 p4 m (slot b i))" by blast
  from Cons.IH [OF m1(2) j(3,4)] obtain m' where
    m': "push_words p4 (slot b (j - 1)) ws m1 = Done (slot b (j - 1 - length ws), m')" "data_fit p4 (page_addrs b) m'"
      "data_only p4 m1 m'" "\<forall>i < length ws. ld64 p4 m' (slot b (j - 1 - Suc i)) = Done (ws ! i)"
      "\<forall>i < 512. i < j - 1 - length ws \<or> j - 1 \<le> i \<longrightarrow> ld64 p4 m' (slot b i) = ld64 p4 m1 (slot b i)" by blast
  have "ld64 p4 m' (slot b (j - Suc i)) = Done ((w # ws) ! i)" if "i < length (w # ws)" for i
  proof (cases i)
    case 0
    then show ?thesis using m'(5) m1(4) j by simp
  next
    case (Suc l)
    then show ?thesis using m'(4) that j by simp
  qed
  moreover have "ld64 p4 m' (slot b i) = ld64 p4 m (slot b i)" if "i < 512" "i < j - length (w # ws) \<or> j \<le> i" for i
    using m'(5) m1(4) that j by auto
  moreover have "j - 1 - length ws = j - length (w # ws)" by simp
  ultimately show ?case using m1(1,3) m'(1,2) slot_pred [OF j(1), of b] data_only_trans [OF m1(3) m'(3)] by simp
qed

lemma slot_add: "slot b j + 8 * of_nat i = slot b (j + i)"
  by (simp add: slot_def algebra_simps)

lemma pop_frame_slots:
  assumes "\<And>i. i < 7 \<Longrightarrow> ld64 p4 m (slot b (j + i)) = Done (w i)"
  shows "pop_frame p4 m (slot b j) = Done (\<lparr>cr_rbx = w 5, cr_rbp = w 4, cr_r12 = w 3, cr_r13 = w 2, cr_r14 = w 1, cr_r15 = w 0\<rparr>,
    w 6, slot b (j + 7))"
proof -
  have s: "slot b j + 8 = slot b (j + 1)" "slot b j + 16 = slot b (j + 2)" "slot b j + 24 = slot b (j + 3)" "slot b j + 32 = slot b (j + 4)"
    "slot b j + 40 = slot b (j + 5)" "slot b j + 48 = slot b (j + 6)" "slot b j + 56 = slot b (j + 7)"
    by (simp_all add: slot_def algebra_simps)
  have l: "ld64 p4 m (slot b j) = Done (w 0)" using assms [of 0] by simp
  show ?thesis unfolding pop_frame_def s
    using assms [of 1] assms [of 2] assms [of 3] assms [of 4] assms [of 5] assms [of 6] by (simp add: l)
qed

text \<open>A frame written from the top of a page is popped as it was pushed.\<close>

lemma push_pop:
  assumes "data_fit p4 (page_addrs b) m" "length ws = 7"
  shows "\<exists>m'. push_words p4 (slot b 512) ws m = Done (slot b 505, m') \<and> data_only p4 m m' \<and>
    pop_frame p4 m' (slot b 505) = Done (\<lparr>cr_rbx = ws ! 1, cr_rbp = ws ! 2, cr_r12 = ws ! 3, cr_r13 = ws ! 4, cr_r14 = ws ! 5,
      cr_r15 = ws ! 6\<rparr>, ws ! 0, slot b 512)"
proof -
  have l: "length ws \<le> 512" using assms(2) by simp
  from push_words_ok [OF assms(1) l order_refl] obtain m' where
    m': "push_words p4 (slot b 512) ws m = Done (slot b (512 - length ws), m')" "data_only p4 m m'"
      "\<forall>i < length ws. ld64 p4 m' (slot b (512 - Suc i)) = Done (ws ! i)" by blast
  have "ld64 p4 m' (slot b (505 + i)) = Done (ws ! (6 - i))" if "i < 7" for i
    using m'(3) [rule_format, of "6 - i"] that assms(2) by simp
  from pop_frame_slots [of p4 m' b 505 "\<lambda>i. ws ! (6 - i)", OF this]
  show ?thesis using m'(1,2) assms(2) by simp
qed

section \<open>The stack of a slot\<close>

lemma kstack_props:
  assumes "i < 64"
  shows "unat (kstack_base i) = 0x2001000 + 0x9000 * i" "kstack_base i AND 0xFFF = 0"
    "unat (kstack_base i) + 4096 * 8 \<le> 2 ^ 48" "KSTACK_PAGES = 8"
proof -
  have "unat (of_nat i * 0x9000 :: u64) = 0x9000 * i" using assms by (simp add: unat_word_ariths unat_of_nat)
  then show u: "unat (kstack_base i) = 0x2001000 + 0x9000 * i" using assms
    by (simp add: kstack_base_def KERNEL_STACK_SIZE_def PAGE_SIZE_def unat_word_ariths)
  have m: "v AND 0xFFF = take_bit 12 v" for v :: u64 by (simp add: take_bit_eq_mask mask_eq_exp_minus_1)
  have "unat (kstack_base i) mod 4096 = 0" unfolding u by (simp add: mod_add_eq [symmetric] mod_mult_left_eq [symmetric])
  then show "kstack_base i AND 0xFFF = 0" using aligned_low_bits [of "kstack_base i"] by (simp add: aligned_def m)
  show "unat (kstack_base i) + 4096 * 8 \<le> 2 ^ 48" using u assms by simp
  show "KSTACK_PAGES = 8" by (simp add: KERNEL_STACK_SIZE_def PAGE_SIZE_def)
qed

text \<open>The kernel stack of slot \<open>i\<close> occupies the 8 pages from its base and is backed by the frames \<open>fs\<close>.\<close>

definition kstack_backed :: "kernel_env \<Rightarrow> nat \<Rightarrow> u64 list \<Rightarrow> pmm \<Rightarrow> pmm \<Rightarrow> bool" where
  "kstack_backed E i fs m m' \<longleftrightarrow> length fs = 8 \<and> distinct fs \<and> set fs \<subseteq> frame_avail m \<and> set fs \<inter> frame_avail m' = {} \<and>
     (\<forall>p < 8. \<forall>u. same_page u (kstack_base i + of_nat p * PAGE_SIZE) \<longrightarrow>
        virt_to_phys m' (K_P4 E) u = Some (fs ! p OR (u AND 0xFFF))) \<and>
     (\<forall>u. (\<forall>p < 8. \<not> same_page u (kstack_base i + of_nat p * PAGE_SIZE)) \<longrightarrow>
        virt_to_phys m' (K_P4 E) u = virt_to_phys m (K_P4 E) u)"

lemma kstack_mapped:
  assumes r: "room 8 (K_P4 E) m" and i: "i < 64"
  shows "\<exists>fs m1. run_pages (map_page_raw (K_P4 E) PTE_W) (page_seq (kstack_base i) KSTACK_PAGES) m = Done m1 \<and>
    vmm_ok m1 (K_P4 E) \<and> \<not> pm_lock m1 \<and> kstack_backed E i fs m m1 \<and>
    data_fit (K_P4 E) (page_addrs (kstack_base i + 7 * PAGE_SIZE)) m1"
proof -
  note k = kstack_props [OF i]
  let ?b = "kstack_base i" and ?vs = "page_seq (kstack_base i) 8"
  note ps = page_seq_ok [OF k(2,3)]
  have nth: "?vs ! p = ?b + of_nat p * PAGE_SIZE" if "p < 8" for p by (rule page_seq_nth(1) [OF k(3) that])
  from stack_pages.run_pages_backed [of ?vs 0 "K_P4 E" m, OF _ ps(1,2)] r ps(3) obtain fs m1 where
    m1: "run_pages (map_page_raw (K_P4 E) PTE_W) ?vs m = Done m1" "room 0 (K_P4 E) m1" "backed False (K_P4 E) ?vs fs m m1" by auto
  have b: "length fs = 8" "distinct fs" "set fs \<subseteq> frame_avail m" "\<forall>f \<in> set fs. data_frame (K_P4 E) f m1"
    "\<forall>p < 8. \<forall>u. same_page u (?vs ! p) \<longrightarrow> virt_to_phys m1 (K_P4 E) u = Some (fs ! p OR (u AND 0xFFF))"
    "\<forall>u. (\<forall>v \<in> set ?vs. \<not> same_page u v) \<longrightarrow> virt_to_phys m1 (K_P4 E) u = virt_to_phys m (K_P4 E) u"
    using m1(3) unfolding backed_def ps(3) by blast+
  have sv: "v \<in> set ?vs \<longleftrightarrow> (\<exists>p < 8. v = ?b + of_nat p * PAGE_SIZE)" for v
    unfolding in_set_conv_nth ps(3) using nth by metis
  have out: "virt_to_phys m1 (K_P4 E) u = virt_to_phys m (K_P4 E) u" if "\<forall>p < 8. \<not> same_page u (?b + of_nat p * PAGE_SIZE)" for u
  proof -
    have "\<forall>v \<in> set ?vs. \<not> same_page u v"
    proof
      fix v assume "v \<in> set ?vs"
      then obtain p where "p < 8" "v = ?b + of_nat p * PAGE_SIZE" using sv [of v] by auto
      then show "\<not> same_page u v" using that by simp
    qed
    then show ?thesis using b(6) by simp
  qed
  have inside: "virt_to_phys m1 (K_P4 E) u = Some (fs ! p OR (u AND 0xFFF))"
    if "p < 8" "same_page u (?b + of_nat p * PAGE_SIZE)" for p u using b(5) nth that by simp
  have "set fs \<inter> frame_avail m1 = {}" using b(4) unfolding data_frame_def by blast
  then have kb: "kstack_backed E i fs m m1" unfolding kstack_backed_def using b(1-3) inside out by blast
  have ok: "vmm_ok m1 (K_P4 E)" "\<not> pm_lock m1" using m1(2) by (auto simp: room_def)
  let ?t = "?b + 7 * PAGE_SIZE"
  have t: "?vs ! 7 = ?t" using nth [of 7] by simp
  have ut: "unat ?t = unat ?b + 4096 * 7" using page_seq_nth(2) [OF k(3), of 7] t by simp
  have "?t AND 0xFFF = 0" using ps(1) t nth_mem [of 7 ?vs] ps(3) by simp
  moreover have "unat ?t + 4096 \<le> 2 ^ 48" using ut k(3) by simp
  moreover have "data_frame (K_P4 E) (fs ! 7) m1" using b(1,4) by simp
  moreover have "\<forall>u. same_page u ?t \<longrightarrow> virt_to_phys m1 (K_P4 E) u = Some (fs ! 7 OR (u AND 0xFFF))"
    using b(5) [rule_format, of 7] t by simp
  ultimately have "data_fit (K_P4 E) (page_addrs ?t) m1"
    using page_fit [of m1 "K_P4 E" "fs ! 7" ?t] ok(1) by (simp add: vmm_ok_def)
  then show ?thesis using m1(1) ok kb k(4) by auto
qed

lemma kstack_backed_data_only:
  assumes "kstack_backed E i fs m m1" "data_only (K_P4 E) m1 m2" "tables_ok m1 (K_P4 E)"
  shows "kstack_backed E i fs m m2"
  using assms(1) data_only_tables(2) [OF assms(2,3)] data_onlyD(6) [OF assms(2)] unfolding kstack_backed_def by simp

lemma set_name_simps [simp]:
  "th_state (set_name n t) = th_state t" "th_id (set_name n t) = th_id t" "th_cr3 (set_name n t) = th_cr3 t"
  "th_ktop (set_name n t) = th_ktop t" "th_utop (set_name n t) = th_utop t" "th_krsp (set_name n t) = th_krsp t"
  "th_prio (set_name n t) = th_prio t" "th_ticks (set_name n t) = th_ticks t" "th_wake_tick (set_name n t) = th_wake_tick t"
  by (simp_all add: set_name_def)

lemma free_slot_Some: "free_slot ths = Some i \<longleftrightarrow> i < 64 \<and> th_state (ths ! i) = Dead \<and> (\<forall>j < i. th_state (ths ! j) \<noteq> Dead)"
proof -
  have "List.find P [0..<n] = Some i \<longleftrightarrow> i < n \<and> P i \<and> (\<forall>j < i. \<not> P j)" for P n
    unfolding find_Some_iff by auto
  then show ?thesis by (simp add: free_slot_def del: upt_rec_numeral)
qed

lemma spawn_line_done:
  assumes "kernel_ok k"
  shows "\<exists>v. spawn_line i name (kn_vga k) = Done v \<and> vga_ok v \<and> \<not> vg_lock v"
  using assms print_all_done unfolding spawn_line_def kernel_ok_def by blast

section \<open>Properties\<close>

text \<open>
  C19: a spawned kernel thread starts at its entry. \<open>spawn_k\<close> takes the first dead slot; its kernel stack is 8 pages of the
  kernel space backed by distinct frames that were free, no other page is mapped or moved; and the first switch to the
  thread pops exactly the entry point in r14 and the argument in r15 and continues at the kernel trampoline with the stack
  empty. No other slot changes. Without a dead slot nothing changes and the result is -1.
\<close>

theorem spawned_thread_starts:
  assumes "kernel_ok k" "room 8 (K_P4 E) (kn_mem k)" "kn_cr3 k = K_P4 E"
  shows "case free_slot (kn_threads k) of None \<Rightarrow> spawn_k E name entry arg k = Done (-1, k)
    | Some i \<Rightarrow> \<exists>k' fs. spawn_k E name entry arg k = Done (int i, k') \<and> kernel_ok k' \<and>
        (let t = kn_threads k' ! i; top = kstack_base i + KERNEL_STACK_SIZE in
          th_state t = Ready \<and> th_id t = of_nat i \<and> th_cr3 t = K_P4 E \<and> th_ktop t = top \<and>
          (\<forall>j. j \<noteq> i \<longrightarrow> kn_threads k' ! j = kn_threads k ! j) \<and> kn_cur k' = kn_cur k \<and>
          kstack_backed E i fs (kn_mem k) (kn_mem k') \<and>
          pop_frame (K_P4 E) (kn_mem k') (th_krsp t) =
            Done (\<lparr>cr_rbx = 0, cr_rbp = 0, cr_r12 = 0, cr_r13 = top, cr_r14 = entry, cr_r15 = arg\<rparr>, ke_tramp_k E, top))"
proof (cases "free_slot (kn_threads k)")
  case None
  then show ?thesis by (simp add: spawn_k_def)
next
  case (Some i)
  have i: "i < 64" using Some by (simp add: free_slot_Some)
  have len: "length (kn_threads k) = 64" using assms(1) by (simp add: kernel_ok_def sched_ok_def)
  let ?top = "kstack_base i + KERNEL_STACK_SIZE" and ?b = "kstack_base i + 7 * PAGE_SIZE"
  from kstack_mapped [OF assms(2) i] obtain fs m1 where
    m1: "run_pages (map_page_raw (K_P4 E) PTE_W) (page_seq (kstack_base i) KSTACK_PAGES) (kn_mem k) = Done m1"
      "vmm_ok m1 (K_P4 E)" "kstack_backed E i fs (kn_mem k) m1" "data_fit (K_P4 E) (page_addrs ?b) m1" by blast
  have top: "slot ?b 512 = ?top" by (simp add: slot_def KERNEL_STACK_SIZE_def PAGE_SIZE_def)
  let ?ws = "first_frame E ?top entry arg False"
  have ws: "?ws = [ke_tramp_k E, 0, 0, 0, ?top, entry, arg]" by (simp add: first_frame_def)
  from push_pop [OF m1(4), of ?ws] obtain m2 where
    m2: "push_words (K_P4 E) ?top ?ws m1 = Done (slot ?b 505, m2)" "data_only (K_P4 E) m1 m2"
      "pop_frame (K_P4 E) m2 (slot ?b 505) = Done (\<lparr>cr_rbx = 0, cr_rbp = 0, cr_r12 = 0, cr_r13 = ?top, cr_r14 = entry, cr_r15 = arg\<rparr>,
        ke_tramp_k E, ?top)"
    unfolding top ws by auto
  from spawn_line_done [OF assms(1), of i name] obtain v where v: "spawn_line i name (kn_vga k) = Done v" "vga_ok v" "\<not> vg_lock v" by blast
  have kb: "kstack_backed E i fs (kn_mem k) m2"
    using kstack_backed_data_only [OF m1(3) m2(2)] m1(2) by (simp add: vmm_ok_def)
  show ?thesis using m1(1) m2(1,3) v kb assms(1,3) i len Some
    by (simp add: spawn_k_def Let_def init_thread_stack_def kernel_ok_def sched_ok_def) blast
qed

text \<open>A kernel space with plenty of room.\<close>

lemma boot_room: "\<exists>c m. zpg_locked pmm_boot = Done (c, m) \<and> room 8 c m"
proof -
  have b: "pm_base pmm_boot \<noteq> 0" "frame_avail pmm_boot \<noteq> {}" using pmm_boot_state boot_phys(3) by auto
  from empty_space [OF boot_phys(1,2) b] show ?thesis using boot_phys(3) b(1) by (auto simp: room_def)
qed

theorem spawned_thread_starts_witness:
  "\<exists>c m k'. zpg_locked pmm_boot = Done (c, m) \<and>
     spawn_k (env_of c) (map of_char ''idle'') 0x100 7 (kernel_boot c m) = Done (0, k') \<and> th_state (kn_threads k' ! 0) = Ready"
proof -
  from boot_room obtain c m where z: "zpg_locked pmm_boot = Done (c, m)" "room 8 c m" by blast
  have f: "free_slot (kn_threads (kernel_boot c m)) = Some 0"
    by (simp add: free_slot_Some kernel_boot_def sched_boot_def thread_new_def)
  have e: "K_P4 (env_of c) = c" by (simp add: env_of_def)
  have k: "room 8 (K_P4 (env_of c)) (kn_mem (kernel_boot c m))" "kn_cr3 (kernel_boot c m) = K_P4 (env_of c)"
    using z(2) e by (simp_all add: kernel_boot_def)
  from spawned_thread_starts [OF kernel_boot_ok k, of "map of_char ''idle''" "0x100" 7] f z(1) show ?thesis
    by (auto simp: Let_def simp del: list.map)
qed

text \<open>
  C18: a thread that is switched out resumes where it was. Called with the return address on top of the stack,
  \<open>thread_switch\<close> saves a stack pointer such that a later switch to it, whatever has run in between and left the seven
  words of the frame alone, restores all callee-saved registers, the return address and the stack.
\<close>

theorem context_switch_roundtrip:
  assumes "data_fit p4 (page_addrs b) m" "6 \<le> j" "j < 512" "ld64 p4 m (slot b j) = Done ret"
  shows "\<exists>m'. data_only p4 m m' \<and>
    (\<forall>new. thread_switch p4 r (slot b j) new m =
       bind_run (pop_frame p4 m' new) (\<lambda>(r', ret', rsp'). Done (slot b (j - 6), r', ret', rsp', m'))) \<and>
    (\<forall>m''. (\<forall>i. j - 6 \<le> i \<and> i \<le> j \<longrightarrow> ld64 p4 m'' (slot b i) = ld64 p4 m' (slot b i)) \<longrightarrow>
       pop_frame p4 m'' (slot b (j - 6)) = Done (r, ret, slot b (j + 1)))"
proof -
  define ws where "ws = [cr_rbx r, cr_rbp r, cr_r12 r, cr_r13 r, cr_r14 r, cr_r15 r]"
  have n: "length ws = 6" by (simp add: ws_def)
  have l: "length ws \<le> j" "j \<le> 512" using assms(2,3) n by simp_all
  from push_words_ok [OF assms(1) l] obtain m' where
    m': "push_words p4 (slot b j) ws m = Done (slot b (j - 6), m')" "data_only p4 m m'"
      "\<forall>i < 6. ld64 p4 m' (slot b (j - Suc i)) = Done (ws ! i)"
      "\<forall>i < 512. i < j - 6 \<or> j \<le> i \<longrightarrow> ld64 p4 m' (slot b i) = ld64 p4 m (slot b i)"
    unfolding n by blast
  let ?w = "\<lambda>i. (ws @ [ret]) ! (if i = 6 then 6 else 5 - i)"
  have "pop_frame p4 m'' (slot b (j - 6)) = Done (r, ret, slot b (j + 1))"
    if "\<forall>i. j - 6 \<le> i \<and> i \<le> j \<longrightarrow> ld64 p4 m'' (slot b i) = ld64 p4 m' (slot b i)" for m''
  proof -
    note same = that
    have "ld64 p4 m'' (slot b (j - 6 + i)) = Done (?w i)" if i: "i < 7" for i
    proof -
      have e: "ld64 p4 m'' (slot b (j - 6 + i)) = ld64 p4 m' (slot b (j - 6 + i))"
        
        proof (rule same [rule_format])
        show "j - 6 \<le> j - 6 + i \<and> j - 6 + i \<le> j" using i assms(2) by linarith
      qed
      show ?thesis
      proof (cases "i = 6")
        case True
        then show ?thesis using e m'(4) [rule_format, of j] assms(2,3,4) n by (simp add: nth_append)
      next
        case False
        then have "j - 6 + i = j - Suc (5 - i)" "5 - i < 6" using i assms(2) by simp_all
        then show ?thesis using e m'(3) [rule_format, of "5 - i"] False by (simp add: nth_append n)
      qed
    qed
    from pop_frame_slots [of p4 m'' b "j - 6" ?w, OF this] show ?thesis using assms(2) by (simp add: ws_def nth_append)
  qed
  then show ?thesis using m'(1,2) by (intro exI [of _ m']) (simp add: thread_switch_def ws_def)
qed

theorem context_switch_roundtrip_witness:
  "\<exists>c m b ret m'. data_fit c (page_addrs b) m \<and> pop_frame c m' (slot b 505) =
     Done (\<lparr>cr_rbx = 1, cr_rbp = 2, cr_r12 = 3, cr_r13 = 4, cr_r14 = 5, cr_r15 = 6\<rparr>, ret, slot b 512)"
proof -
  from boot_room obtain c m where z: "room 8 (K_P4 (env_of c)) m" by (auto simp: env_of_def)
  have e: "K_P4 (env_of c) = c" by (simp add: env_of_def)
  let ?b = "kstack_base 0 + 7 * PAGE_SIZE"
  from kstack_mapped [OF z, of 0] obtain m1 where f: "data_fit c (page_addrs ?b) m1" by (auto simp: e)
  have "\<forall>a \<in> set (addrs (slot ?b 511) 8). a \<in> page_addrs ?b" using slot_addrs [of 511 ?b] by auto
  then obtain bs where "ld_seq (ld8 c m1) (addrs (slot ?b 511) 8) = Done bs"
    using user_bytes.ld_seq_done [OF f, of "addrs (slot ?b 511) 8"] by blast
  then have l: "ld64 c m1 (slot ?b 511) = Done (of_le bs)" by (simp add: ld64_def ld_bytes_def)
  from context_switch_roundtrip [OF f _ _ l, of "\<lparr>cr_rbx = 1, cr_rbp = 2, cr_r12 = 3, cr_r13 = 4, cr_r14 = 5, cr_r15 = 6\<rparr>"]
  obtain m' where "pop_frame c m' (slot ?b (511 - 6)) =
    Done (\<lparr>cr_rbx = 1, cr_rbp = 2, cr_r12 = 3, cr_r13 = 4, cr_r14 = 5, cr_r15 = 6\<rparr>, of_le bs, slot ?b (511 + 1))" by auto
  then have "pop_frame c m' (slot ?b 505) =
    Done (\<lparr>cr_rbx = 1, cr_rbp = 2, cr_r12 = 3, cr_r13 = 4, cr_r14 = 5, cr_r15 = 6\<rparr>, of_le bs, slot ?b 512)" by simp
  with f show ?thesis by blast
qed

end
