(* ===== verification/Vma.thy ===== *)
theory Vma
  imports Address_Space
begin

text \<open>
  Virtual memory areas (\<^verbatim>\<open>mm/vma.rs\<close>): the sorted table of regions of a process, the search for a free range, anonymous
  mappings, the heap break and demand paging. The random numbers of the processor (\<open>rdrand\<close>) are arguments: 0 stands for
  ten failed attempts. The table is the list of its first \<open>vma_count\<close> entries.
\<close>

section \<open>Areas\<close>

type_synonym rights = u32

definition VMA_R :: rights where "VMA_R = push_bit 0 1"
definition VMA_W :: rights where "VMA_W = push_bit 1 1"
definition VMA_X :: rights where "VMA_X = push_bit 2 1"
definition VMA_USER :: rights where "VMA_USER = push_bit 3 1"
definition VMA_DEMAND :: rights where "VMA_DEMAND = push_bit 4 1"
definition VMA_GUARD :: rights where "VMA_GUARD = push_bit 5 1"
definition VMA_STACK :: rights where "VMA_STACK = push_bit 6 1"
definition VMA_HEAP :: rights where "VMA_HEAP = push_bit 7 1"
definition VMA_FIXED :: rights where "VMA_FIXED = push_bit 9 1"

lemmas vma_flags = VMA_R_def VMA_W_def VMA_X_def VMA_USER_def VMA_DEMAND_def VMA_GUARD_def VMA_STACK_def VMA_HEAP_def VMA_FIXED_def

definition PTE_NX :: u64 where "PTE_NX = bit_at 63"

definition USER_HEAP_BASE :: u64 where "USER_HEAP_BASE = 0x10000000"
definition USER_MMAP_BASE :: u64 where "USER_MMAP_BASE = 0x40000000"
definition USER_STACK_TOP :: u64 where "USER_STACK_TOP = 0x00007FFFFFFF0000"
definition USER_STACK_SIZE :: u64 where "USER_STACK_SIZE = 0x00800000"

abbreviation MAX_VMAS :: nat where "MAX_VMAS \<equiv> 128"

datatype vma_type = Unused | Anonymous | Stack | Heap | Code | Data | GuardPage

record vma =
  v_base :: u64
  v_size :: u64
  v_flags :: rights
  v_typ :: vma_type
  v_mapped :: u64

definition vma_end :: "vma \<Rightarrow> u64" where
  "vma_end v = v_base v + v_size v"

definition vma_contains :: "vma \<Rightarrow> u64 \<Rightarrow> bool" where
  "vma_contains v addr \<longleftrightarrow> addr \<ge> v_base v \<and> addr < vma_end v"

definition vma_overlaps :: "vma \<Rightarrow> u64 \<Rightarrow> u64 \<Rightarrow> bool" where
  "vma_overlaps v other_base other_size \<longleftrightarrow> v_base v < other_base + other_size \<and> other_base < vma_end v"

definition vma_pte_flags :: "vma \<Rightarrow> u64" where
  "vma_pte_flags v =
     (if v_flags v AND VMA_W \<noteq> 0 then PTE_W else 0) OR (if v_flags v AND VMA_USER \<noteq> 0 then PTE_U else 0)
     OR (if v_flags v AND VMA_X = 0 then PTE_NX else 0)"

section \<open>Address spaces\<close>

record space =
  as_p4 :: u64
  as_vmas :: "vma list"
  as_heap_start :: u64
  as_heap_end :: u64
  as_mmap_next :: u64
  as_aslr :: u64

definition space_new :: "u64 \<Rightarrow> space" where
  "space_new p4 = \<lparr>as_p4 = p4, as_vmas = [], as_heap_start = 0, as_heap_end = 0, as_mmap_next = USER_MMAP_BASE,
                   as_aslr = 0xDEADBEEFCAFE0001\<rparr>"

definition aslr_rand :: "u64 \<Rightarrow> space \<Rightarrow> u64 \<times> space" where
  "aslr_rand rdrand a =
     (if rdrand = 0
      then let s = as_aslr a;
               b = (drop_bit 63 s XOR drop_bit 62 s XOR drop_bit 60 s XOR drop_bit 59 s) AND 1;
               s' = push_bit 1 s OR b
           in (s', a\<lparr>as_aslr := s'\<rparr>)
      else (rdrand, a\<lparr>as_aslr := as_aslr a XOR rdrand\<rparr>))"

definition aslr_offset :: "nat \<Rightarrow> u64 \<Rightarrow> space \<Rightarrow> u64 \<times> space" where
  "aslr_offset bits rdrand a =
     (let (r, a') = aslr_rand rdrand a in ((r AND (bit_at bits - 1)) * PAGE_SIZE, a'))"

definition find_vma :: "space \<Rightarrow> u64 \<Rightarrow> vma option" where
  "find_vma a addr = List.find (\<lambda>v. vma_contains v addr) (as_vmas a)"

text \<open>\<open>if let Some(v) = self.find_vma_mut(addr) { f v }\<close>: the first area that contains the address is changed.\<close>

fun update_first :: "('a \<Rightarrow> bool) \<Rightarrow> ('a \<Rightarrow> 'a) \<Rightarrow> 'a list \<Rightarrow> 'a list" where
  "update_first p f [] = []"
| "update_first p f (x # xs) = (if p x then f x # xs else x # update_first p f xs)"

definition find_vma_mut :: "u64 \<Rightarrow> (vma \<Rightarrow> vma) \<Rightarrow> space \<Rightarrow> space" where
  "find_vma_mut addr f a = a\<lparr>as_vmas := update_first (\<lambda>v. vma_contains v addr) f (as_vmas a)\<rparr>"

definition has_overlap :: "space \<Rightarrow> u64 \<Rightarrow> u64 \<Rightarrow> bool" where
  "has_overlap a b n \<longleftrightarrow> (\<exists>v \<in> set (as_vmas a). v_typ v \<noteq> Unused \<and> vma_overlaps v b n)"

text \<open>The insertion loop: entry \<open>i\<close> moves down while it is below its predecessor.\<close>

fun sink :: "nat \<Rightarrow> vma list \<Rightarrow> vma list" where
  "sink 0 vs = vs"
| "sink (Suc i) vs =
     (if v_base (vs ! Suc i) < v_base (vs ! i)
      then sink i (vs[Suc i := vs ! i, i := vs ! Suc i]) else vs)"

definition add_vma :: "vma \<Rightarrow> space \<Rightarrow> bool \<times> space" where
  "add_vma v a =
     (if length (as_vmas a) \<ge> MAX_VMAS then (False, a)
      else (True, a\<lparr>as_vmas := sink (length (as_vmas a)) (as_vmas a @ [v])\<rparr>))"

fun remove_first :: "('a \<Rightarrow> bool) \<Rightarrow> 'a list \<Rightarrow> 'a list" where
  "remove_first p [] = []"
| "remove_first p (x # xs) = (if p x then xs else x # remove_first p xs)"

definition remove_vma :: "u64 \<Rightarrow> space \<Rightarrow> bool \<times> space" where
  "remove_vma b a =
     (if \<exists>v \<in> set (as_vmas a). v_base v = b
      then (True, a\<lparr>as_vmas := remove_first (\<lambda>v. v_base v = b) (as_vmas a)\<rparr>) else (False, a))"

definition page_up :: "u64 \<Rightarrow> u64" where
  "page_up x = (x + PAGE_SIZE - 1) AND NOT (PAGE_SIZE - 1)"

text \<open>The search for a free range; \<open>None\<close> outside is a search that never ends, inside the answer \<open>None\<close>.\<close>

definition range_hit :: "u64 \<Rightarrow> u64 \<Rightarrow> vma \<Rightarrow> bool" where
  "range_hit addr n v \<longleftrightarrow> v_typ v \<noteq> Unused \<and> addr < vma_end v \<and> addr + n > v_base v"

partial_function (option) find_free_range :: "space \<Rightarrow> u64 \<Rightarrow> u64 \<Rightarrow> u64 option option" where
  "find_free_range a n addr =
     (if addr + n > USER_STACK_TOP then Some None
      else case List.find (range_hit addr n) (as_vmas a) of
             Some v \<Rightarrow> find_free_range a n (page_up (vma_end v))
           | None \<Rightarrow> Some (Some addr))"

declare find_free_range.simps [code]

section \<open>Operations\<close>

definition init_aslr :: "u64 \<Rightarrow> u64 \<Rightarrow> u64 \<Rightarrow> space \<Rightarrow> space" where
  "init_aslr r1 r2 r3 a =
     (let (heap_off, a) = aslr_offset 8 r1 a; (stack_off, a) = aslr_offset 8 r2 a;
          a = a\<lparr>as_heap_start := USER_HEAP_BASE + heap_off, as_heap_end := USER_HEAP_BASE + heap_off\<rparr>;
          (mmap_off, a) = aslr_offset 16 r3 a;
          a = a\<lparr>as_mmap_next := USER_MMAP_BASE + mmap_off\<rparr>;
          stack_base = USER_STACK_TOP - USER_STACK_SIZE - stack_off;
          guard = \<lparr>v_base = stack_base, v_size = PAGE_SIZE, v_flags = VMA_GUARD OR VMA_USER, v_typ = GuardPage, v_mapped = 0\<rparr>;
          (_, a) = add_vma guard a;
          stack = \<lparr>v_base = stack_base + PAGE_SIZE, v_size = USER_STACK_SIZE - PAGE_SIZE,
                   v_flags = VMA_R OR VMA_W OR VMA_USER OR VMA_DEMAND OR VMA_STACK, v_typ = Stack, v_mapped = 0\<rparr>;
          (_, a) = add_vma stack a
      in a)"

text \<open>The eager part of \<open>mmap_anon\<close>: one zeroed frame per page; \<open>False\<close> is the early \<open>return 0\<close>.\<close>

fun map_fresh :: "u64 \<Rightarrow> u64 \<Rightarrow> u64 \<Rightarrow> nat list \<Rightarrow> pmm \<Rightarrow> (bool \<times> pmm) run" where
  "map_fresh p4 b f [] m = Done (True, m)"
| "map_fresh p4 b f (pg # pgs) m =
     bind_run (mm_alloc m) (\<lambda>(phys, m1).
       if phys = 0 then Done (False, m1)
       else bind_run (vmap p4 (b + of_nat pg * PAGE_SIZE) phys f (zero_page phys m1)) (\<lambda>(_, m2). map_fresh p4 b f pgs m2))"

text \<open>The choice of the address; \<open>rdrand\<close> is read only when the hint does not fix it.\<close>

definition mmap_base :: "u64 \<Rightarrow> u64 \<Rightarrow> u64 \<Rightarrow> rights \<Rightarrow> space \<Rightarrow> (u64 option \<times> space) option" where
  "mmap_base r hint n flags a =
     (if hint \<noteq> 0 \<and> flags AND VMA_FIXED \<noteq> 0 then Some (Some hint, a)
      else let start = (if hint \<noteq> 0 then hint else as_mmap_next a); (off, a') = aslr_offset 16 r a
           in map_option (\<lambda>b. (b, a')) (find_free_range a' n ((start + off) AND NOT (PAGE_SIZE - 1))))"

definition mmap_anon :: "u64 \<Rightarrow> u64 \<Rightarrow> u64 \<Rightarrow> rights \<Rightarrow> bool \<Rightarrow> space \<times> pmm \<Rightarrow> (u64 \<times> space \<times> pmm) run option" where
  "mmap_anon r hint size0 flags demand s =
     (case s of (a, m) \<Rightarrow>
      let n = page_up size0 in
      if n = 0 then Some (Done (0, a, m))
      else case mmap_base r hint n flags a of
        None \<Rightarrow> None
      | Some (None, a1) \<Rightarrow> Some (Done (0, a1, m))
      | Some (Some b, a1) \<Rightarrow>
          if has_overlap a1 b n then Some (Done (0, a1, m))
          else let v = \<lparr>v_base = b, v_size = n, v_flags = flags OR VMA_R OR VMA_USER OR (if demand then VMA_DEMAND else 0),
                        v_typ = Anonymous, v_mapped = 0\<rparr>
            in case add_vma v a1 of
                 (False, a2) \<Rightarrow> Some (Done (0, a2, m))
               | (True, a2) \<Rightarrow>
                   let a3 = a2\<lparr>as_mmap_next := b + n + PAGE_SIZE\<rparr> in
                   if demand then Some (Done (b, a3, m))
                   else Some (bind_run (map_fresh (as_p4 a3) b (vma_pte_flags v) [0..<unat (n div PAGE_SIZE)] m) (\<lambda>(ok, m1).
                     if ok then Done (b, find_vma_mut b (v_mapped_update (\<lambda>_. n div PAGE_SIZE)) a3, m1)
                     else Done (0, a3, m1))))"

definition unmap_pages :: "u64 \<Rightarrow> u64 \<Rightarrow> nat \<Rightarrow> pmm \<Rightarrow> pmm run" where
  "unmap_pages p4 b n m = for_each (map (\<lambda>pg. vunmap p4 (b + of_nat pg * PAGE_SIZE)) [0..<n]) m"

definition munmap :: "u64 \<Rightarrow> u64 \<Rightarrow> space \<times> pmm \<Rightarrow> (bool \<times> space \<times> pmm) run" where
  "munmap b size0 s =
     (case s of (a, m) \<Rightarrow>
      let n = page_up size0 in
      case List.find (\<lambda>v. v_base v = b \<and> v_size v = n) (as_vmas a) of
        None \<Rightarrow> Done (False, a, m)
      | Some v \<Rightarrow> bind_run (unmap_pages (as_p4 a) b (unat (v_size v div PAGE_SIZE)) m) (\<lambda>m1.
          Done (True, snd (remove_vma b a), m1)))"

text \<open>\<open>sbrk\<close>: the two loops, then the operation. The result is \<open>None\<close> when a loop does not end.\<close>

partial_function (option) grow_heap :: "space \<Rightarrow> u64 \<Rightarrow> u64 \<Rightarrow> pmm \<Rightarrow> (u64 \<times> pmm) run option" where
  "grow_heap a pg new_end m =
     (if pg < new_end
      then if has_overlap a pg PAGE_SIZE then Some (Done (pg, m))
           else case mm_alloc m of
                  Panic \<Rightarrow> Some Panic
                | Hang \<Rightarrow> Some Hang
                | Done (phys, m1) \<Rightarrow>
                    if phys = 0 then Some (Done (pg, m1))
                    else case vmap (as_p4 a) pg phys (PTE_W OR PTE_U OR PTE_NX) (zero_page phys m1) of
                           Panic \<Rightarrow> Some Panic
                         | Hang \<Rightarrow> Some Hang
                         | Done (_, m2) \<Rightarrow> grow_heap a (pg + PAGE_SIZE) new_end m2
      else Some (Done (pg, m)))"

partial_function (option) shrink_heap :: "u64 \<Rightarrow> u64 \<Rightarrow> u64 \<Rightarrow> pmm \<Rightarrow> pmm run option" where
  "shrink_heap p4 pg old_end m =
     (if pg < old_end
      then case vunmap p4 pg m of
             Panic \<Rightarrow> Some Panic
           | Hang \<Rightarrow> Some Hang
           | Done m1 \<Rightarrow> shrink_heap p4 (pg + PAGE_SIZE) old_end m1
      else Some (Done m))"

declare grow_heap.simps [code] shrink_heap.simps [code]

definition set_heap_size :: "space \<Rightarrow> space" where
  "set_heap_size a =
     (let n = as_heap_end a - as_heap_start a
      in find_vma_mut (as_heap_start a) (\<lambda>v. v\<lparr>v_size := n, v_mapped := n div PAGE_SIZE\<rparr>) a)"

definition heap_target :: "u64 \<Rightarrow> int \<Rightarrow> u64" where
  "heap_target old_end increment =
     page_up (if increment \<ge> 0 then old_end + word_of_int increment
              else let d = word_of_int (- increment) in if old_end < d then 0 else old_end - d)"

definition heap_grown :: "u64 \<Rightarrow> u64 \<Rightarrow> space \<Rightarrow> space" where
  "heap_grown old_end pg a =
     (let a1 = a\<lparr>as_heap_end := pg\<rparr>; hstart = as_heap_start a1; n = pg - hstart in
      if hstart = old_end
      then snd (add_vma \<lparr>v_base = hstart, v_size = n, v_flags = VMA_R OR VMA_W OR VMA_USER OR VMA_HEAP, v_typ = Heap,
                         v_mapped = n div PAGE_SIZE\<rparr> a1)
      else set_heap_size a1)"

definition sbrk :: "int \<Rightarrow> space \<times> pmm \<Rightarrow> (u64 \<times> space \<times> pmm) run option" where
  "sbrk increment s =
     (case s of (a, m) \<Rightarrow>
      let old_end = as_heap_end a; new_end = heap_target old_end increment in
      if new_end \<le> old_end \<and> increment \<ge> 0 then Some (Done (old_end, a, m))
      else if new_end > old_end
      then map_option (\<lambda>r. bind_run r (\<lambda>(pg, m1). Done (old_end, heap_grown old_end pg a, m1))) (grow_heap a old_end new_end m)
      else map_option (\<lambda>r. bind_run r (\<lambda>m1. Done (old_end, set_heap_size (a\<lparr>as_heap_end := new_end\<rparr>), m1)))
             (shrink_heap (as_p4 a) new_end old_end m))"

definition handle_demand_fault :: "u64 \<Rightarrow> space \<times> pmm \<Rightarrow> (bool \<times> space \<times> pmm) run" where
  "handle_demand_fault fault_addr s =
     (case s of (a, m) \<Rightarrow>
      case find_vma a fault_addr of
        None \<Rightarrow> Done (False, a, m)
      | Some v \<Rightarrow>
          if v_typ v = GuardPage then Done (False, a, m)
          else if v_flags v AND VMA_GUARD \<noteq> 0 \<or> \<not> (v_flags v AND VMA_DEMAND \<noteq> 0) then Done (False, a, m)
          else bind_run (mm_alloc m) (\<lambda>(phys, m1).
            if phys = 0 then Done (False, a, m1)
            else bind_run (vmap (as_p4 a) (page_of fault_addr) phys (vma_pte_flags v) (zero_page phys m1)) (\<lambda>(_, m2).
              Done (True, find_vma_mut fault_addr (\<lambda>v. v\<lparr>v_mapped := v_mapped v + 1\<rparr>) a, m2))))"

end
