(* ===== verification/Vma_Inv.thy ===== *)
theory Vma_Inv
  imports Vma
begin

text \<open>
  The areas of a process stay sorted and disjoint; the search for a free range is a terminating first fit; a demand
  fault backs exactly one page.
\<close>

section \<open>The invariant\<close>

definition vma_ok :: "vma \<Rightarrow> bool" where
  "vma_ok v \<longleftrightarrow> v_typ v \<noteq> Unused \<and> v_size v \<noteq> 0 \<and> unat (v_base v) + unat (v_size v) \<le> unat USER_STACK_TOP"

definition before :: "vma \<Rightarrow> vma \<Rightarrow> bool" where
  "before u v \<longleftrightarrow> unat (v_base u) + unat (v_size u) \<le> unat (v_base v)"

definition space_inv :: "space \<Rightarrow> bool" where
  "space_inv a \<longleftrightarrow> (\<forall>v \<in> set (as_vmas a). vma_ok v) \<and> sorted_wrt before (as_vmas a) \<and> length (as_vmas a) \<le> MAX_VMAS"

lemma unat_top: "unat USER_STACK_TOP = 140737488289792"
  by (simp add: USER_STACK_TOP_def)

lemma vma_end_unat: "vma_ok v \<Longrightarrow> unat (vma_end v) = unat (v_base v) + unat (v_size v)"
  by (simp add: vma_end_def vma_ok_def unat_top unat_word_ariths)

lemma vma_size_pos: "vma_ok v \<Longrightarrow> 0 < unat (v_size v)"
  by (simp add: vma_ok_def unat_gt_0)

text \<open>The insertion puts a disjoint area at its place.\<close>

lemma sink_place:
  assumes "sorted_wrt before xs" "\<forall>x \<in> set xs. vma_ok x \<and> (before x v \<or> before v x)" "vma_ok v"
  shows "\<exists>us ws. xs = us @ ws \<and> sink (length xs) (xs @ v # ys) = us @ v # ws @ ys \<and>
    (\<forall>u \<in> set us. before u v) \<and> (\<forall>w \<in> set ws. before v w)"
  using assms(1,2)
proof (induction xs arbitrary: ys rule: rev_induct)
  case Nil
  then show ?case by simp
next
  case (snoc x xs)
  have x: "vma_ok x" "before x v \<or> before v x" and xs: "sorted_wrt before xs" "\<forall>u \<in> set xs. before u x"
    using snoc.prems by (auto simp: sorted_wrt_append)
  have sw: "(xs @ x # v # ys)[Suc (length xs) := x, length xs := v] = xs @ v # x # ys"
    by (simp add: list_update_append)
  have nth: "(xs @ x # v # ys) ! Suc (length xs) = v" "(xs @ x # v # ys) ! length xs = x" by (simp_all add: nth_append)
  show ?case
  proof (cases "v_base v < v_base x")
    case True
    then have bx: "before v x" using x vma_size_pos [OF x(1)] by (auto simp: before_def word_less_nat_alt)
    from snoc.IH [OF xs(1), of "x # ys"] snoc.prems(2) obtain us ws where i: "xs = us @ ws"
      "sink (length xs) (xs @ v # x # ys) = us @ v # ws @ x # ys" "\<forall>u \<in> set us. before u v" "\<forall>w \<in> set ws. before v w"
      by auto
    have "sink (length (xs @ [x])) ((xs @ [x]) @ v # ys) = us @ v # (ws @ [x]) @ ys"
      using True i(2) by (simp add: sw nth)
    with i bx show ?thesis by (intro exI [of _ us] exI [of _ "ws @ [x]"]) auto
  next
    case False
    then have bx: "before x v" using x vma_size_pos [OF assms(3)] by (auto simp: before_def word_less_nat_alt)
    have "\<forall>u \<in> set (xs @ [x]). before u v" using bx xs(2) by (auto simp: before_def intro: le_trans)
    moreover have "sink (length (xs @ [x])) ((xs @ [x]) @ v # ys) = (xs @ [x]) @ v # [] @ ys"
      using False by (simp add: nth)
    ultimately show ?thesis by (intro exI [of _ "xs @ [x]"] exI [of _ "[]"]) simp
  qed
qed

lemma add_vma_inv:
  assumes a: "space_inv a" and v: "vma_ok v" and d: "\<forall>x \<in> set (as_vmas a). before x v \<or> before v x"
  shows "add_vma v a = (False, a) \<and> length (as_vmas a) = MAX_VMAS \<or>
    (\<exists>a'. add_vma v a = (True, a') \<and> space_inv a' \<and> set (as_vmas a') = insert v (set (as_vmas a)) \<and>
       a' = a\<lparr>as_vmas := as_vmas a'\<rparr>)"
proof (cases "length (as_vmas a) \<ge> MAX_VMAS")
  case True
  with a show ?thesis by (simp add: add_vma_def space_inv_def)
next
  case False
  have s: "sorted_wrt before (as_vmas a)" "\<forall>x \<in> set (as_vmas a). vma_ok x \<and> (before x v \<or> before v x)"
    using a d by (auto simp: space_inv_def)
  from sink_place [OF this v, of "[]"] obtain us ws where p: "as_vmas a = us @ ws"
    "sink (length (as_vmas a)) (as_vmas a @ [v]) = us @ v # ws" "\<forall>u \<in> set us. before u v" "\<forall>w \<in> set ws. before v w"
    by auto
  let ?a = "a\<lparr>as_vmas := us @ v # ws\<rparr>"
  have "add_vma v a = (True, ?a)" using False p(2) by (simp add: add_vma_def)
  moreover have "space_inv ?a" using a v p False by (auto simp: space_inv_def sorted_wrt_append)
  ultimately show ?thesis using p(1) by auto
qed

lemma overlap_iff:
  assumes "vma_ok v" "unat b + unat n < 2 ^ 64" "n \<noteq> 0"
  shows "vma_overlaps v b n \<longleftrightarrow> \<not> (unat (v_base v) + unat (v_size v) \<le> unat b \<or> unat b + unat n \<le> unat (v_base v))"
proof -
  have "unat (b + n) = unat b + unat n" using assms(2) by (simp add: unat_word_ariths)
  then show ?thesis using vma_end_unat [OF assms(1)] by (auto simp: vma_overlaps_def word_less_nat_alt)
qed

lemma has_overlap_iff:
  assumes "space_inv a" "unat b + unat n < 2 ^ 64" "n \<noteq> 0"
  shows "\<not> has_overlap a b n \<longleftrightarrow>
    (\<forall>v \<in> set (as_vmas a). unat (v_base v) + unat (v_size v) \<le> unat b \<or> unat b + unat n \<le> unat (v_base v))"
  using assms overlap_iff [OF _ assms(2,3)] by (auto simp: has_overlap_def space_inv_def vma_ok_def)

section \<open>The search for a free range\<close>

lemma page_up_props:
  assumes "unat x + 4095 < 2 ^ 64"
  shows "unat x \<le> unat (page_up x)" "aligned (page_up x)" "\<And>y. aligned y \<Longrightarrow> unat x \<le> unat y \<Longrightarrow> unat (page_up x) \<le> unat y"
proof -
  have e: "x + PAGE_SIZE - 1 = x + 0xFFF" by (simp add: PAGE_SIZE_def)
  have pu: "page_up x = page_of (x + 0xFFF)" by (simp add: page_up_def page_of_def e)
  have u: "unat (x + 0xFFF) = unat x + 4095" using assms by (simp add: unat_word_ariths)
  note p = page_of_props [of "x + 0xFFF", unfolded u]
  show "unat x \<le> unat (page_up x)" unfolding pu using p(2) by simp
  show "aligned (page_up x)" unfolding pu by (rule p)
  fix y assume y: "aligned y" "unat x \<le> unat y"
  from y(1) obtain q where q: "unat y = 4096 * q" unfolding aligned_def by (metis mod_0_imp_dvd dvdE)
  have "(unat x + 4095) div 4096 \<le> q" using y(2) q by linarith
  then show "unat (page_up x) \<le> unat y" unfolding pu page_of_div u using q by simp
qed

lemma range_hit_iff:
  assumes "vma_ok v" "unat addr + unat n < 2 ^ 64"
  shows "range_hit addr n v \<longleftrightarrow> unat addr < unat (v_base v) + unat (v_size v) \<and> unat (v_base v) < unat addr + unat n"
proof -
  have "unat (addr + n) = unat addr + unat n" using assms(2) by (simp add: unat_word_ariths)
  then show ?thesis using vma_end_unat [OF assms(1)] assms(1)
    by (auto simp: range_hit_def word_less_nat_alt vma_ok_def)
qed

definition free_at :: "space \<Rightarrow> u64 \<Rightarrow> u64 \<Rightarrow> bool" where
  "free_at a n b \<longleftrightarrow> aligned b \<and> unat b + unat n \<le> unat USER_STACK_TOP \<and>
     (\<forall>v \<in> set (as_vmas a). unat (v_base v) + unat (v_size v) \<le> unat b \<or> unat b + unat n \<le> unat (v_base v))"

lemma find_free_range_result:
  assumes "space_inv a" "unat n < 2 ^ 62" "unat addr < 2 ^ 62" "aligned addr"
  shows "\<exists>r. find_free_range a n addr = Some r \<and>
    (case r of Some b \<Rightarrow> unat addr \<le> unat b \<and> free_at a n b \<and> (\<forall>b'. free_at a n b' \<and> unat addr \<le> unat b' \<longrightarrow> unat b \<le> unat b')
             | None \<Rightarrow> \<forall>b'. free_at a n b' \<longrightarrow> \<not> unat addr \<le> unat b')"
  using assms(3,4)
proof (induction "length (filter (\<lambda>v. unat addr < unat (vma_end v)) (as_vmas a))" arbitrary: addr rule: less_induct)
  case less
  have nw: "unat addr + unat n < 2 ^ 64" using less.prems assms(2) by simp
  then have u: "unat (addr + n) = unat addr + unat n" by (simp add: unat_word_ariths)
  have ok: "\<forall>v \<in> set (as_vmas a). vma_ok v" using assms(1) by (simp add: space_inv_def)
  show ?case
  proof (cases "addr + n > USER_STACK_TOP")
    case True
    have t: "unat USER_STACK_TOP < unat addr + unat n" using True u unfolding word_less_nat_alt by simp
    have "find_free_range a n addr = Some None" using True by (subst find_free_range.simps) simp
    moreover have "\<forall>b'. free_at a n b' \<longrightarrow> \<not> unat addr \<le> unat b'" using t unfolding free_at_def by fastforce
    ultimately show ?thesis by simp
  next
    case top: False
    then have t: "unat addr + unat n \<le> unat USER_STACK_TOP" using u unfolding word_less_nat_alt by simp
    show ?thesis
    proof (cases "List.find (range_hit addr n) (as_vmas a)")
      case None
      then have "find_free_range a n addr = Some (Some addr)" using top by (subst find_free_range.simps) simp
      moreover have "free_at a n addr" unfolding free_at_def
      proof (intro conjI ballI)
        fix v assume v: "v \<in> set (as_vmas a)"
        then have "\<not> range_hit addr n v" using None by (auto simp: find_None_iff)
        then show "unat (v_base v) + unat (v_size v) \<le> unat addr \<or> unat addr + unat n \<le> unat (v_base v)"
          using range_hit_iff [OF _ nw] ok v by auto
      qed (use less.prems t in auto)
      ultimately show ?thesis by simp
    next
      case (Some v)
      then have v: "v \<in> set (as_vmas a)" "range_hit addr n v" using find_SomeD by metis+
      have vo: "vma_ok v" using ok v(1) by blast
      then have e: "unat (vma_end v) = unat (v_base v) + unat (v_size v)" "unat (vma_end v) \<le> unat USER_STACK_TOP"
        using vma_end_unat [OF vo] by (auto simp: vma_ok_def)
      have h: "unat addr < unat (vma_end v)" "unat (v_base v) < unat addr + unat n"
        using range_hit_iff [OF vo nw] v(2) e by auto
      let ?p = "page_up (vma_end v)"
      have "unat (vma_end v) + 4095 < 2 ^ 64" using e(2) unat_top by simp
      note p = page_up_props [OF this]
      have tal: "aligned USER_STACK_TOP" by (simp add: aligned_def unat_top)
      have p62: "unat ?p < 2 ^ 62" using p(3) [OF tal e(2)] unat_top by simp
      have "length (filter (\<lambda>w. unat ?p < unat (vma_end w)) (as_vmas a)) < length (filter (\<lambda>w. unat addr < unat (vma_end w)) (as_vmas a))"
      proof -
        have "filter (\<lambda>w. unat ?p < unat (vma_end w)) (as_vmas a) =
            filter (\<lambda>w. unat ?p < unat (vma_end w)) (filter (\<lambda>w. unat addr < unat (vma_end w)) (as_vmas a))"
          unfolding filter_filter by (rule filter_cong) (use p(1) h(1) in auto)
        moreover have "v \<in> set (filter (\<lambda>w. unat addr < unat (vma_end w)) (as_vmas a))" "\<not> unat ?p < unat (vma_end v)"
          using v(1) h(1) p(1) by auto
        ultimately show ?thesis using length_filter_less by metis
      qed
      from less.hyps [OF this p62 p(2)] obtain r where r: "find_free_range a n ?p = Some r"
        "case r of Some b \<Rightarrow> unat ?p \<le> unat b \<and> free_at a n b \<and> (\<forall>b'. free_at a n b' \<and> unat ?p \<le> unat b' \<longrightarrow> unat b \<le> unat b')
         | None \<Rightarrow> \<forall>b'. free_at a n b' \<longrightarrow> \<not> unat ?p \<le> unat b'" by blast
      have "find_free_range a n addr = Some r" using top Some r(1) by (subst find_free_range.simps) simp
      moreover have skip: "unat ?p \<le> unat b'" if "free_at a n b'" "unat addr \<le> unat b'" for b'
      proof -
        have "unat (v_base v) + unat (v_size v) \<le> unat b' \<or> unat b' + unat n \<le> unat (v_base v)" "aligned b'"
          using that(1) v(1) by (auto simp: free_at_def)
        then have "unat (vma_end v) \<le> unat b'" using that(2) h(2) e(1) by linarith
        then show ?thesis using p(3) \<open>aligned b'\<close> by blast
      qed
      moreover have "unat addr \<le> unat ?p" using h(1) p(1) by simp
      ultimately show ?thesis using r(2) by (cases r) (auto intro: le_trans)
    qed
  qed
qed

section \<open>The map of areas\<close>

text \<open>The area an address belongs to, as the process sees it: its base, size and type.\<close>

definition vma_key :: "vma \<Rightarrow> u64 \<times> u64 \<times> vma_type" where
  "vma_key v = (v_base v, v_size v, v_typ v)"

definition area_at :: "space \<Rightarrow> u64 \<Rightarrow> (u64 \<times> u64 \<times> vma_type) option" where
  "area_at a x = map_option vma_key (find_vma a x)"

definition in_area :: "u64 \<Rightarrow> u64 \<times> u64 \<times> vma_type \<Rightarrow> bool" where
  "in_area x k \<longleftrightarrow> (case k of (b, n, _) \<Rightarrow> unat b \<le> unat x \<and> unat x < unat b + unat n)"

lemma space_inv_keys:
  assumes "map vma_key (as_vmas a') = map vma_key (as_vmas a)"
  shows "space_inv a' \<longleftrightarrow> space_inv a"
proof -
  let ?ok = "\<lambda>k :: u64 \<times> u64 \<times> vma_type. snd (snd k) \<noteq> Unused \<and> fst (snd k) \<noteq> 0 \<and> unat (fst k) + unat (fst (snd k)) \<le> unat USER_STACK_TOP"
  let ?bf = "\<lambda>(k :: u64 \<times> u64 \<times> vma_type) (k' :: u64 \<times> u64 \<times> vma_type). unat (fst k) + unat (fst (snd k)) \<le> unat (fst k')"
  have o: "vma_ok v = ?ok (vma_key v)" for v by (simp add: vma_ok_def vma_key_def)
  have b: "before = (\<lambda>u v. ?bf (vma_key u) (vma_key v))" by (simp add: fun_eq_iff before_def vma_key_def)
  define ks where "ks vs = ((\<forall>k \<in> set vs. ?ok k) \<and> sorted_wrt ?bf vs \<and> length vs \<le> 128)" for vs
  have s: "space_inv a \<longleftrightarrow> ks (map vma_key (as_vmas a))" for a
    unfolding space_inv_def ks_def sorted_wrt_map b [symmetric] length_map list.set_map ball_simps o ..
  show ?thesis unfolding s assms ..
qed

lemma contains_iff: "vma_ok v \<Longrightarrow> vma_contains v x \<longleftrightarrow> in_area x (vma_key v)"
  using vma_end_unat [of v] by (auto simp: vma_contains_def in_area_def vma_key_def word_le_nat_alt word_less_nat_alt)

lemma sorted_areas_unique:
  "sorted_wrt before vs \<Longrightarrow> u \<in> set vs \<Longrightarrow> v \<in> set vs \<Longrightarrow> in_area x (vma_key u) \<Longrightarrow> in_area x (vma_key v) \<Longrightarrow> u = v"
  by (induction vs) (auto simp: before_def in_area_def vma_key_def)

lemma find_vma_iff:
  assumes "space_inv a"
  shows "find_vma a x = Some v \<longleftrightarrow> v \<in> set (as_vmas a) \<and> in_area x (vma_key v)"
proof
  assume "find_vma a x = Some v"
  then show "v \<in> set (as_vmas a) \<and> in_area x (vma_key v)"
    using find_SomeD [of _ "as_vmas a" v] contains_iff assms by (force simp: find_vma_def space_inv_def)
next
  assume v: "v \<in> set (as_vmas a) \<and> in_area x (vma_key v)"
  then have c: "vma_contains v x" using contains_iff assms by (auto simp: space_inv_def)
  then have "find_vma a x \<noteq> None" using v by (auto simp: find_vma_def find_None_iff)
  then obtain u where u: "find_vma a x = Some u" by blast
  then have "u \<in> set (as_vmas a)" "vma_contains u x" unfolding find_vma_def using find_SomeD by metis+
  moreover from this have "in_area x (vma_key u)" using contains_iff assms by (auto simp: space_inv_def)
  ultimately have "u = v" using sorted_areas_unique v assms unfolding space_inv_def by metis
  with u show "find_vma a x = Some v" by simp
qed

lemma area_at_iff:
  assumes "space_inv a"
  shows "area_at a x = Some k \<longleftrightarrow> k \<in> vma_key ` set (as_vmas a) \<and> in_area x k"
  using find_vma_iff [OF assms] by (auto simp: area_at_def)

lemma option_eqI: "(\<And>k. p = Some k \<longleftrightarrow> q = Some k) \<Longrightarrow> p = q"
  by (metis option.exhaust)

lemma area_at_cong:
  assumes "space_inv a" "space_inv a'" "\<And>k. in_area x k \<Longrightarrow> k \<in> vma_key ` set (as_vmas a') \<longleftrightarrow> k \<in> vma_key ` set (as_vmas a)"
  shows "area_at a' x = area_at a x"
proof -
  have e: "area_at a' x = Some k \<longleftrightarrow> area_at a x = Some k" for k
    unfolding area_at_iff [OF assms(1)] area_at_iff [OF assms(2)] using assms(3) by blast
  show ?thesis using option_eqI [OF e] .
qed

lemma update_first_keys: "(\<And>v. vma_key (f v) = vma_key v) \<Longrightarrow> map vma_key (update_first p f vs) = map vma_key vs"
  by (induction vs) auto

lemma find_vma_mut_keys:
  assumes "\<And>v. vma_key (f v) = vma_key v"
  shows "space_inv (find_vma_mut x f a) \<longleftrightarrow> space_inv a"
    "vma_key ` set (as_vmas (find_vma_mut x f a)) = vma_key ` set (as_vmas a)"
    "as_mmap_next (find_vma_mut x f a) = as_mmap_next a" "as_p4 (find_vma_mut x f a) = as_p4 a"
proof -
  have e: "map vma_key (as_vmas (find_vma_mut x f a)) = map vma_key (as_vmas a)"
    using update_first_keys [OF assms] by (simp add: find_vma_mut_def)
  from space_inv_keys [OF e] show "space_inv (find_vma_mut x f a) \<longleftrightarrow> space_inv a" .
  from arg_cong [OF e, of set] show "vma_key ` set (as_vmas (find_vma_mut x f a)) = vma_key ` set (as_vmas a)" by simp
qed (simp_all add: find_vma_mut_def)

section \<open>Anonymous mappings\<close>

definition space_ok :: "space \<Rightarrow> bool" where
  "space_ok a \<longleftrightarrow> space_inv a \<and> unat (as_mmap_next a) < 2 ^ 61"

lemma aslr_rand_frame: "aslr_rand r a = (x, a') \<Longrightarrow> as_vmas a' = as_vmas a \<and> as_mmap_next a' = as_mmap_next a \<and> as_p4 a' = as_p4 a"
  by (auto simp: aslr_rand_def Let_def split: if_splits)

lemma aslr_offset_frame:
  assumes "aslr_offset bits r a = (off, a')"
  shows "as_vmas a' = as_vmas a \<and> as_mmap_next a' = as_mmap_next a \<and> as_p4 a' = as_p4 a" "bits = 16 \<Longrightarrow> unat off < 2 ^ 28"
proof -
  obtain x where x: "aslr_rand r a = (x, a')" "off = (x AND (bit_at bits - 1)) * PAGE_SIZE"
    using assms by (auto simp: aslr_offset_def split: prod.splits)
  from aslr_rand_frame [OF x(1)] show "as_vmas a' = as_vmas a \<and> as_mmap_next a' = as_mmap_next a \<and> as_p4 a' = as_p4 a" .
  assume b: "bits = 16"
  have "bit_at 16 - 1 = (mask 16 :: u64)" by (simp add: bit_at_def mask_eq_exp_minus_1 push_bit_eq_mult)
  then have "x AND (bit_at bits - 1) = take_bit 16 x" using b by (simp add: take_bit_eq_mask)
  moreover have "unat (take_bit 16 x) < 2 ^ 16" by (simp only: unsigned_take_bit_eq take_bit_nat_less_exp)
  ultimately show "unat off < 2 ^ 28" using x(2) by (simp add: unat_word_ariths)
qed

lemma mmap_base_result:
  assumes a: "space_ok a" and h: "unat hint < 2 ^ 61" "unat n < 2 ^ 62"
    and fx: "hint = 0 \<or> flags AND VMA_FIXED = 0 \<or> unat hint + unat n \<le> unat USER_STACK_TOP"
  shows "\<exists>b a'. mmap_base r hint n flags a = Some (b, a') \<and> as_vmas a' = as_vmas a \<and> as_mmap_next a' = as_mmap_next a \<and>
    as_p4 a' = as_p4 a \<and> (\<forall>x. b = Some x \<longrightarrow> unat x + unat n \<le> unat USER_STACK_TOP)"
proof (cases "hint \<noteq> 0 \<and> flags AND VMA_FIXED \<noteq> 0")
  case True
  with fx show ?thesis by (simp add: mmap_base_def)
next
  case False
  obtain off a' where o: "aslr_offset 16 r a = (off, a')" by fastforce
  note ao = aslr_offset_frame [OF o]
  define start where "start = (if hint \<noteq> 0 then hint else as_mmap_next a)"
  have "unat start < 2 ^ 61" using a h by (simp add: start_def space_ok_def)
  then have "unat (start + off) < 2 ^ 62" using ao(2) by (simp add: unat_word_ariths)
  then have p: "unat (page_of (start + off)) < 2 ^ 62" "aligned (page_of (start + off))"
    using page_of_props(1) [of "start + off"] page_of_props(3) by auto
  have "space_inv a'" using a ao(1) by (simp add: space_ok_def space_inv_def)
  from find_free_range_result [OF this h(2) p] obtain b where
    "find_free_range a' n (page_of (start + off)) = Some b" "\<forall>x. b = Some x \<longrightarrow> free_at a' n x" by (auto split: option.splits)
  then show ?thesis using False o ao(1)
    by (auto simp: mmap_base_def start_def page_of_def free_at_def Let_def)
qed

definition new_area :: "u64 \<Rightarrow> u64 \<Rightarrow> space \<Rightarrow> space \<Rightarrow> bool" where
  "new_area b n a a' \<longleftrightarrow>
     vma_key ` set (as_vmas a') = insert (b, n, Anonymous) (vma_key ` set (as_vmas a)) \<and> n \<noteq> 0 \<and>
     unat b + unat n \<le> unat USER_STACK_TOP \<and>
     (\<forall>v \<in> set (as_vmas a). unat (v_base v) + unat (v_size v) \<le> unat b \<or> unat b + unat n \<le> unat (v_base v))"

lemma new_areaI: "b = 0 \<and> P \<or> (\<exists>b0. b \<in> {0, b0} \<and> new_area b0 n a a') \<Longrightarrow> b \<noteq> 0 \<Longrightarrow> new_area b n a a'"
  by (elim conjE disjE exE insertE emptyE) simp_all

lemma new_areaD:
  assumes "new_area b n a a'"
  shows "vma_key ` set (as_vmas a') = insert (b, n, Anonymous) (vma_key ` set (as_vmas a))"
    "\<forall>v \<in> set (as_vmas a). unat (v_base v) + unat (v_size v) \<le> unat b \<or> unat b + unat n \<le> unat (v_base v)"
  using assms [unfolded new_area_def] by - (elim conjE, assumption)+

text \<open>The table after \<open>mmap_anon\<close>: unchanged, or with one new area that was free before.\<close>

lemma mmap_anon_result:
  assumes a: "space_ok a" and h: "unat hint < 2 ^ 61" "unat (page_up size0) < 2 ^ 61"
    and fx: "hint = 0 \<or> flags AND VMA_FIXED = 0 \<or> unat hint + unat (page_up size0) \<le> unat USER_STACK_TOP"
  shows "\<exists>res. mmap_anon r hint size0 flags demand (a, m) = Some res \<and> (demand \<longrightarrow> is_done res) \<and>
    (\<forall>b a' m'. res = Done (b, a', m') \<longrightarrow> space_ok a' \<and> as_p4 a' = as_p4 a \<and> (demand \<longrightarrow> m' = m) \<and>
      (b = 0 \<and> as_vmas a' = as_vmas a \<or> (\<exists>b0. b \<in> {0, b0} \<and> new_area b0 (page_up size0) a a')))"
proof -
  define n where "n = page_up size0"
  note fx = fx [folded n_def] and h = h [folded n_def]
  have n62: "unat n < 2 ^ 62" using h(2) by simp
  from mmap_base_result [where flags = flags and r = r, OF a h(1) n62 fx] obtain b1 a1 where b: "mmap_base r hint n flags a = Some (b1, a1)"
    "as_vmas a1 = as_vmas a" "as_mmap_next a1 = as_mmap_next a" "as_p4 a1 = as_p4 a"
    "\<forall>x. b1 = Some x \<longrightarrow> unat x + unat n \<le> unat USER_STACK_TOP" by auto
  have a1: "space_ok a1" "space_inv a1" using a b(2,3) by (simp_all add: space_ok_def space_inv_def)
  show ?thesis
  proof (cases "n = 0 \<or> b1 = None \<or> (\<exists>x. b1 = Some x \<and> has_overlap a1 x n)")
    case True
    then have "\<exists>a2. mmap_anon r hint size0 flags demand (a, m) = Some (Done (0, a2, m)) \<and> (a2 = a \<or> a2 = a1)"
      using b(1) by (auto simp: mmap_anon_def Let_def n_def [symmetric])
    then show ?thesis using a a1 b(2,4) by auto
  next
    case False
    then obtain x where x: "b1 = Some x" "\<not> has_overlap a1 x n" "n \<noteq> 0" by auto
    have xn: "unat x + unat n \<le> unat USER_STACK_TOP" using b(5) x(1) by blast
    then have "unat x + unat n < 2 ^ 64" unfolding unat_top by simp
    note ho = has_overlap_iff [OF a1(2) this x(3)]
    let ?f = "flags OR VMA_R OR VMA_USER OR (if demand then VMA_DEMAND else 0)"
    let ?v = "\<lparr>v_base = x, v_size = n, v_flags = ?f, v_typ = Anonymous, v_mapped = 0\<rparr>"
    have v: "vma_ok ?v" using x xn by (simp add: vma_ok_def)
    have dis: "\<forall>v \<in> set (as_vmas a). unat (v_base v) + unat (v_size v) \<le> unat x \<or> unat x + unat n \<le> unat (v_base v)"
      using ho x(2) b(2) by simp
    then have d: "\<forall>y \<in> set (as_vmas a1). before y ?v \<or> before ?v y" using b(2) by (auto simp: before_def)
    from add_vma_inv [OF a1(2) v d] show ?thesis
    proof (elim disjE exE conjE)
      assume "add_vma ?v a1 = (False, a1)"
      then have "mmap_anon r hint size0 flags demand (a, m) = Some (Done (0, a1, m))"
        using b(1) x by (simp add: mmap_anon_def Let_def n_def [symmetric])
      then show ?thesis using a1 b(2,4) by auto
    next
      fix a2 assume a2: "add_vma ?v a1 = (True, a2)" "space_inv a2" "set (as_vmas a2) = insert ?v (set (as_vmas a1))"
        "a2 = a1\<lparr>as_vmas := as_vmas a2\<rparr>"
      have k2: "vma_key ` set (as_vmas a2) = insert (x, n, Anonymous) (vma_key ` set (as_vmas a))"
        using a2(3) b(2) by (simp add: vma_key_def)
      have p2: "as_p4 a2 = as_p4 a" using arg_cong [OF a2(4), of as_p4] b(4) by simp
      let ?a3 = "a2\<lparr>as_mmap_next := x + n + PAGE_SIZE\<rparr>"
      have "unat (x + n + PAGE_SIZE) = unat x + unat n + 4096" using xn unat_top by (simp add: unat_word_ariths)
      then have ok3: "space_ok ?a3" using a2(2) xn unat_top by (simp add: space_ok_def space_inv_def)
      have p3: "as_p4 ?a3 = as_p4 a" "as_vmas ?a3 = as_vmas a2" using p2 by simp_all
      define g where "g = map_fresh (as_p4 a2) x (vma_pte_flags ?v) [0..<unat (n div PAGE_SIZE)] m"
      let ?a4 = "find_vma_mut x (v_mapped_update (\<lambda>_. n div PAGE_SIZE)) ?a3"
      have kf: "vma_key (v_mapped_update (\<lambda>_. n div PAGE_SIZE) v) = vma_key v" for v by (simp add: vma_key_def)
      note mk = find_vma_mut_keys [OF kf, where ?x = x and ?a = ?a3]
      have ok4: "space_ok ?a4" using ok3 mk(1,3) by (simp add: space_ok_def)
      define res where "res = (if demand then Done (x, ?a3, m)
          else bind_run g (\<lambda>(ok, m1). if ok then Done (x, ?a4, m1) else Done (0, ?a3, m1)))"
      have "mmap_anon r hint size0 flags demand (a, m) = Some res"
        using b(1) x a2(1) unfolding res_def g_def by (simp add: mmap_anon_def Let_def n_def [symmetric])
      moreover have "demand \<longrightarrow> is_done res" by (simp add: res_def)
      moreover have "space_ok a' \<and> as_p4 a' = as_p4 a \<and> (demand \<longrightarrow> m' = m) \<and> b' \<in> {0, x} \<and>
          vma_key ` set (as_vmas a') = insert (x, n, Anonymous) (vma_key ` set (as_vmas a))" if "res = Done (b', a', m')" for b' a' m'
      proof -
        have "(a' = ?a3 \<or> a' = ?a4) \<and> (b' = 0 \<or> b' = x) \<and> (demand \<longrightarrow> m' = m)"
          using that unfolding res_def by (cases g) (auto split: if_splits prod.splits)
        moreover have "vma_key ` set (as_vmas ?a4) = insert (x, n, Anonymous) (vma_key ` set (as_vmas a))"
          unfolding mk(2) using k2 by simp
        moreover have "as_p4 ?a4 = as_p4 a" unfolding mk(4) using p3(1) .
        ultimately show ?thesis using ok3 ok4 p3(1) k2 by (elim conjE disjE) simp_all
      qed
      ultimately show ?thesis using x(3) xn dis unfolding n_def [symmetric] new_area_def
        by (intro exI [of _ res]) blast
    qed
  qed
qed

section \<open>Properties\<close>

text \<open>
  The search for a free range terminates and is a first fit: it returns the lowest page-aligned address at or above
  the start at which a range of the given size below the stack top meets no area, and answers \<open>None\<close> only when there is none.
\<close>

theorem free_range_first_fit:
  assumes "space_ok a" "unat n < 2 ^ 62" "unat addr < 2 ^ 62" "aligned addr"
  shows "\<exists>r. find_free_range a n addr = Some r \<and>
    (case r of Some b \<Rightarrow> unat addr \<le> unat b \<and> free_at a n b \<and> (\<forall>b'. free_at a n b' \<and> unat addr \<le> unat b' \<longrightarrow> unat b \<le> unat b')
             | None \<Rightarrow> \<forall>b'. free_at a n b' \<longrightarrow> \<not> unat addr \<le> unat b')"
  using find_free_range_result [OF _ assms(2-4)] assms(1) by (simp add: space_ok_def)

lemma space_new_ok: "space_ok (space_new p4)"
  by (simp add: space_ok_def space_inv_def space_new_def USER_MMAP_BASE_def)

theorem free_range_first_fit_witness:
  "\<exists>b. find_free_range (space_new 0) 0x2000 0x40000000 = Some (Some b) \<and> unat b = 0x40000000"
proof -
  have al: "aligned 0x40000000" by (simp add: aligned_def)
  have f: "free_at (space_new 0) 0x2000 0x40000000" using al by (simp add: free_at_def space_new_def unat_top)
  from free_range_first_fit [OF space_new_ok [of 0] _ _ al, of "0x2000"] obtain r where
    r: "find_free_range (space_new 0) 0x2000 0x40000000 = Some r"
    "case r of Some b \<Rightarrow> unat (0x40000000 :: u64) \<le> unat b \<and> free_at (space_new 0) 0x2000 b \<and>
        (\<forall>b'. free_at (space_new 0) 0x2000 b' \<and> unat (0x40000000 :: u64) \<le> unat b' \<longrightarrow> unat b \<le> unat b')
     | None \<Rightarrow> \<forall>b'. free_at (space_new 0) 0x2000 b' \<longrightarrow> \<not> unat (0x40000000 :: u64) \<le> unat b'" by auto
  then obtain b where "r = Some b" "unat (0x40000000 :: u64) \<le> unat b" "unat b \<le> unat (0x40000000 :: u64)"
    using f by (cases r) auto
  with r(1) show ?thesis by auto
qed

lemma area_at_insert:
  assumes a: "space_inv a" "space_inv a'"
    and k: "vma_key ` set (as_vmas a') = insert (b, n, t) (vma_key ` set (as_vmas a))"
    and d: "\<forall>v \<in> set (as_vmas a). unat (v_base v) + unat (v_size v) \<le> unat b \<or> unat b + unat n \<le> unat (v_base v)"
  shows "area_at a' = (\<lambda>x. if in_area x (b, n, t) then Some (b, n, t) else area_at a x)"
    and "in_area x (b, n, t) \<Longrightarrow> area_at a x = None"
proof -
  have nin: "\<not> in_area x (vma_key v)" if "v \<in> set (as_vmas a)" "in_area x (b, n, t)" for v x
    using d that by (auto simp: in_area_def vma_key_def)
  show "in_area x (b, n, t) \<Longrightarrow> area_at a x = None" for x
  proof -
    assume x: "in_area x (b, n, t)"
    have "area_at a x \<noteq> Some k" for k using nin [OF _ x] area_at_iff [OF a(1), of x k] by blast
    then show "area_at a x = None" by (cases "area_at a x") auto
  qed
  show "area_at a' = (\<lambda>x. if in_area x (b, n, t) then Some (b, n, t) else area_at a x)"
  proof
    fix x
    show "area_at a' x = (if in_area x (b, n, t) then Some (b, n, t) else area_at a x)"
    proof (cases "in_area x (b, n, t)")
      case True
      then show ?thesis using area_at_iff [OF a(2), of x "(b, n, t)"] k by simp
    next
      case False
      have "area_at a' x = area_at a x" by (rule area_at_cong [OF a]) (use k False in auto)
      with False show ?thesis by simp
    qed
  qed
qed



lemma find_eq_unique: "v \<in> set vs \<Longrightarrow> p v \<Longrightarrow> \<forall>u \<in> set vs. p u \<longrightarrow> u = v \<Longrightarrow> List.find p vs = Some v"
  by (metis find_None_iff find_SomeD not_None_eq)

lemma same_base_unique:
  assumes "space_inv a" "u \<in> set (as_vmas a)" "v \<in> set (as_vmas a)" "v_base u = v_base v"
  shows "u = v"
proof -
  have "vma_ok u" "vma_ok v" using assms by (auto simp: space_inv_def)
  then have "in_area (v_base u) (vma_key u)" "in_area (v_base u) (vma_key v)"
    using vma_size_pos assms(4) by (auto simp: in_area_def vma_key_def)
  then show ?thesis using sorted_areas_unique assms(1-3) unfolding space_inv_def by metis
qed

lemma remove_first_set:
  "sorted_wrt before vs \<Longrightarrow> \<forall>v \<in> set vs. vma_ok v \<Longrightarrow> v \<in> set vs \<Longrightarrow> v_base v = b \<Longrightarrow>
   set (remove_first (\<lambda>v. v_base v = b) vs) = set vs - {v} \<and> sorted_wrt before (remove_first (\<lambda>v. v_base v = b) vs) \<and>
   length (remove_first (\<lambda>v. v_base v = b) vs) \<le> length vs"
proof (induction vs)
  case (Cons u vs)
  show ?case
  proof (cases "v_base u = b")
    case True
    have "v = u"
    proof (rule ccontr)
      assume "v \<noteq> u"
      then have "before u v" using Cons.prems by auto
      then show False using True Cons.prems(2,4) vma_size_pos [of u] by (simp add: before_def)
    qed
    moreover have "u \<notin> set vs"
    proof
      assume "u \<in> set vs"
      then have "before u u" using Cons.prems(1) by simp
      then show False using Cons.prems(2) vma_size_pos [of u] by (simp add: before_def)
    qed
    ultimately show ?thesis using True Cons.prems by simp
  next
    case False
    then have "v \<in> set vs" "v \<noteq> u" using Cons.prems(3,4) by auto
    with Cons False show ?thesis by auto
  qed
qed simp

lemma unmap_absent:
  assumes "\<not> pm_lock m" "\<forall>pg < n. \<not> pte_present (pte m p4 (pidx 39 (b + of_nat pg * PAGE_SIZE)))"
  shows "unmap_pages p4 b n m = Done m"
proof -
  have u: "vunmap p4 (b + of_nat pg * PAGE_SIZE) m = Done m" if "pg < n" for pg
    using assms that by (simp add: vunmap_def with_lock_def Let_def)
  have "for_each (map (\<lambda>pg. vunmap p4 (b + of_nat pg * PAGE_SIZE)) ns) m = Done m" if "\<forall>pg \<in> set ns. pg < n" for ns
    using that by (induction ns) (simp_all add: u)
  then show ?thesis by (simp add: unmap_pages_def)
qed

lemma munmap_result:
  assumes a: "space_ok a" and v: "v \<in> set (as_vmas a)" "v_base v = b" "v_size v = page_up size0"
    and u: "unmap_pages (as_p4 a) b (unat (page_up size0 div PAGE_SIZE)) m = Done m1"
  shows "\<exists>a'. munmap b size0 (a, m) = Done (True, a', m1) \<and> space_ok a' \<and>
    area_at a' = (\<lambda>x. if in_area x (vma_key v) then None else area_at a x)"
proof -
  have inv: "space_inv a" using a by (simp add: space_ok_def)
  have f: "List.find (\<lambda>v. v_base v = b \<and> v_size v = page_up size0) (as_vmas a) = Some v"
    by (rule find_eq_unique) (use v same_base_unique [OF inv] in auto)
  let ?a = "a\<lparr>as_vmas := remove_first (\<lambda>v. v_base v = b) (as_vmas a)\<rparr>"
  have r: "remove_vma b a = (True, ?a)" using v(1,2) by (auto simp: remove_vma_def)
  have rs: "set (as_vmas ?a) = set (as_vmas a) - {v}" "sorted_wrt before (as_vmas ?a)" "length (as_vmas ?a) \<le> length (as_vmas a)"
    using remove_first_set [of "as_vmas a" v b] inv v(1,2) by (auto simp: space_inv_def)
  have inv': "space_inv ?a" using inv rs by (auto simp: space_inv_def)
  have "area_at ?a x = (if in_area x (vma_key v) then None else area_at a x)" for x
  proof (cases "in_area x (vma_key v)")
    case True
    have "\<not> in_area x (vma_key w)" if "w \<in> set (as_vmas ?a)" for w
      using sorted_areas_unique [of "as_vmas a" w v x] that rs(1) v(1) True inv by (auto simp: space_inv_def)
    then have "area_at ?a x \<noteq> Some k" for k using area_at_iff [OF inv', of x k] by blast
    then show ?thesis using True by (cases "area_at ?a x") auto
  next
    case False
    have "area_at ?a x = area_at a x"
    proof (rule area_at_cong [OF inv inv'])
      fix k assume "in_area x k"
      then have "k \<noteq> vma_key v" using False by auto
      then show "k \<in> vma_key ` set (as_vmas ?a) \<longleftrightarrow> k \<in> vma_key ` set (as_vmas a)" unfolding rs(1) by auto
    qed
    with False show ?thesis by simp
  qed
  then have ar: "area_at ?a = (\<lambda>x. if in_area x (vma_key v) then None else area_at a x)" by blast
  have "munmap b size0 (a, m) = Done (True, ?a, m1)" using f r u v(3) by (simp add: munmap_def Let_def)
  moreover have "space_ok ?a" using a inv' by (simp add: space_ok_def)
  ultimately show ?thesis using ar by blast
qed

text \<open>
  Unmapping a lazily mapped region that was not touched gives back the map of areas from before the mapping, and
  changes no page table.
\<close>

theorem mmap_munmap_restores:
  assumes "space_ok a" "unat hint < 2 ^ 61" "unat (page_up size0) < 2 ^ 61"
    and "hint = 0 \<or> flags AND VMA_FIXED = 0 \<or> unat hint + unat (page_up size0) \<le> unat USER_STACK_TOP"
    and r: "mmap_anon r hint size0 flags True (a, m) = Some (Done (b, a1, m1))" "b \<noteq> 0"
    and p: "\<not> pm_lock m" "\<forall>x. \<not> pte_present (pte m (as_p4 a) (pidx 39 x))"
  shows "m1 = m \<and> (\<exists>a2. munmap b size0 (a1, m1) = Done (True, a2, m) \<and> space_ok a2 \<and> area_at a2 = area_at a)"
proof -
  from mmap_anon_result [where flags = flags and r = r and demand = True and m = m, OF assms(1-4)] obtain res where
    res: "mmap_anon r hint size0 flags True (a, m) = Some res"
    "\<forall>b a' m'. res = Done (b, a', m') \<longrightarrow> space_ok a' \<and> as_p4 a' = as_p4 a \<and> (True \<longrightarrow> m' = m) \<and>
      (b = 0 \<and> as_vmas a' = as_vmas a \<or> (\<exists>b0. b \<in> {0, b0} \<and> new_area b0 (page_up size0) a a'))"
    by (elim exE conjE)
  from res(1) r(1) have "res = Done (b, a1, m1)" by simp
  note o = res(2) [rule_format, OF this]
  have "new_area b (page_up size0) a a1" using o r(2) by (elim conjE) (rule new_areaI)
  note na = new_areaD [OF this]
  note n = o [THEN conjunct1] o [THEN conjunct2, THEN conjunct1] o [THEN conjunct2, THEN conjunct2, THEN conjunct1, THEN mp, OF TrueI] na
  have "(b, page_up size0, Anonymous) \<in> vma_key ` set (as_vmas a1)" unfolding n(4) by (rule insertI1)
  then obtain v where v: "v \<in> set (as_vmas a1)" "vma_key v = (b, page_up size0, Anonymous)" by (elim imageE) (rule that, assumption, rule sym)
  from v(2) have vb: "v_base v = b" "v_size v = page_up size0" by (simp_all add: vma_key_def)
  have "unmap_pages (as_p4 a1) b (unat (page_up size0 div PAGE_SIZE)) m = Done m"
    using unmap_absent [OF p(1)] p(2) n(2) by simp
  from munmap_result [OF n(1) v(1) vb this] obtain a2 where a2: "munmap b size0 (a1, m) = Done (True, a2, m)" "space_ok a2"
    "area_at a2 = (\<lambda>x. if in_area x (vma_key v) then None else area_at a1 x)" by blast
  have inv: "space_inv a" "space_inv a1" using assms(1) n(1) by (auto simp: space_ok_def)
  note ai = area_at_insert [OF inv n(4,5)]
  have "area_at a2 x = area_at a x" for x
    using ai(1) ai(2) [of x] a2(3) v(2) by (cases "in_area x (b, page_up size0, Anonymous)") simp_all
  then show ?thesis using a2(1,2) n(3) by blast
qed

lemma boot_mem: "pm_mem pmm_boot a = 0"
proof -
  have "pm_mem (fold (\<lambda>i. f i) xs m) = pm_mem m" if "\<And>i m. pm_mem (f i m) = pm_mem m" for f :: "nat \<Rightarrow> pmm \<Rightarrow> pmm" and xs m
    using that by (induction xs arbitrary: m) auto
  then show ?thesis by (simp add: pmm_boot_def mm_init_def Let_def)
qed

theorem mmap_munmap_restores_witness:
  "\<exists>b a1 a2. mmap_anon 5 0 0x1234 VMA_W True (space_new 0x5000, pmm_boot) = Some (Done (b, a1, pmm_boot)) \<and>
     munmap b 0x1234 (a1, pmm_boot) = Done (True, a2, pmm_boot) \<and> area_at a2 = area_at (space_new 0x5000)"
proof -
  let ?a = "space_new 0x5000"
  have n: "page_up 0x1234 = 0x2000" by (simp add: page_up_def PAGE_SIZE_def)
  have b: "(0x10000 - 1 :: u64) = 0xFFFF" by simp
  obtain off a' where o: "aslr_offset 16 5 ?a = (off, a')" by fastforce
  have off: "off = 0x5000" "as_vmas a' = []"
    using o by (auto simp: aslr_offset_def aslr_rand_def bit_at_def PAGE_SIZE_def space_new_def push_bit_eq_mult)
  have "find_free_range a' 0x2000 0x40005000 = Some (Some 0x40005000)"
    using off(2) by (subst find_free_range.simps) (simp add: USER_STACK_TOP_def)
  then have "mmap_base 5 0 0x2000 VMA_W ?a = Some (Some 0x40005000, a')"
    using o off by (simp add: mmap_base_def space_new_def USER_MMAP_BASE_def PAGE_SIZE_def)
  then obtain a1 where m: "mmap_anon 5 0 0x1234 VMA_W True (?a, pmm_boot) = Some (Done (0x40005000, a1, pmm_boot))"
    using off(2) by (simp add: mmap_anon_def n has_overlap_def add_vma_def Let_def)
  have "\<not> pte_present (pte pmm_boot (as_p4 ?a) (pidx 39 x))" for x by (simp add: pte_def boot_mem)
  with mmap_munmap_restores [OF space_new_ok _ _ _ m] boot_phys(2) n show ?thesis using m by auto
qed

lemma vma_pte_flags_only: "flags_only (vma_pte_flags v)"
proof -
  have "bit (vma_pte_flags v) n \<Longrightarrow> n \<in> {1, 2, 63}" for n
    by (auto simp: vma_pte_flags_def PTE_NX_def PTE_W_def PTE_U_def bit_or_iff split: if_splits)
  then show ?thesis unfolding flags_only_def
    by (intro bit_eqI) (fastforce simp: bit_and_iff bit_PTE_ADDR)
qed

text \<open>
  C33: a fault in a lazily mapped area that is no guard maps exactly the faulting page, to a frame that was free; the map of
  areas does not change. A fault anywhere else changes nothing.
\<close>

theorem demand_fault_backs_page:
  assumes "space_ok a" "vmm_ok m (as_p4 a)" "\<not> pm_lock m" "pm_base m \<noteq> 0" "3 < card (frame_avail m)"
  shows "if \<exists>v. find_vma a x = Some v \<and> v_typ v \<noteq> GuardPage \<and> v_flags v AND VMA_GUARD = 0 \<and> v_flags v AND VMA_DEMAND \<noteq> 0
    then \<exists>f a' m'. handle_demand_fault x (a, m) = Done (True, a', m') \<and> f \<in> frame_avail m \<and> vmm_ok m' (as_p4 a) \<and>
      \<not> pm_lock m' \<and> space_ok a' \<and> area_at a' = area_at a \<and>
      virt_to_phys m' (as_p4 a) = (\<lambda>u. if same_page u x then Some (f OR (u AND 0xFFF)) else virt_to_phys m (as_p4 a) u)
    else handle_demand_fault x (a, m) = Done (False, a, m)"
proof (cases "\<exists>v. find_vma a x = Some v \<and> v_typ v \<noteq> GuardPage \<and> v_flags v AND VMA_GUARD = 0 \<and> v_flags v AND VMA_DEMAND \<noteq> 0")
  case False
  then have "handle_demand_fault x (a, m) = Done (False, a, m)"
    by (cases "find_vma a x") (auto simp: handle_demand_fault_def)
  then show ?thesis unfolding if_not_P [OF False] .
next
  case True
  then obtain v where v: "find_vma a x = Some v" "v_typ v \<noteq> GuardPage" "v_flags v AND VMA_GUARD = 0" "v_flags v AND VMA_DEMAND \<noteq> 0"
    by blast
  have ph: "phys_ok m" and ok: "tables_ok m (as_p4 a)" using assms(2) by (auto simp: vmm_ok_def)
  have ne: "frame_avail m \<noteq> {}" using assms(5) by auto
  with zpg_locked_result [OF ph assms(3)] obtain f m1 where z: "zpg_locked m = Done (f, m1)" "f \<in> frame_avail m"
    "mem_step {f} m m1" "aligned f" "f AND PTE_ADDR = f" "only_page f m m1" by blast
  from z(1) obtain m0 where al: "mm_alloc m = Done (f, m0)" "m1 = zero_page f m0"
    by (auto simp: zpg_locked_def bind_run_Done_iff split: prod.splits)
  have f0: "f \<noteq> 0" using fp_nonzero [OF ph assms(4) z(2)] .
  have av: "frame_avail m1 = frame_avail m - {f}" using z(3) by (simp add: mem_step_def)
  note ft = fresh_tables [OF ok z(6,2) av]
  have v1: "vmm_ok m1 (as_p4 a)" "\<not> pm_lock m1" using ft(1) z(3) assms(3) by (simp_all add: vmm_ok_def mem_step_def)
  have mk: "(0xFFF :: u64) = mask 12" by (simp add: mask_eq_exp_minus_1)
  have low: "page_of x AND 0xFFF = 0" "f AND 0xFFF = 0"
    using page_of_props(3) [of x] z(4) unfolding mk by (simp_all only: aligned_low_bits take_bit_eq_mask)
  have "\<not> card (frame_avail m1) < 3" using av z(2) assms(5) frame_avail_subset(2) [of m] by simp
  with vmap_refines_map [OF v1 low(1,2) vma_pte_flags_only z(5), of v] obtain m' where
    m': "vmap (as_p4 a) (page_of x) f (vma_pte_flags v) m1 = Done (0, m')" "vmm_ok m' (as_p4 a)" "\<not> pm_lock m'"
      "virt_to_phys m' (as_p4 a) = (\<lambda>u. if same_page u (page_of x) then Some (f OR (u AND 0xFFF)) else virt_to_phys m1 (as_p4 a) u)"
    by blast
  have sp: "same_page u (page_of x) = same_page u x" for u by (simp add: same_page_iff pidx_page_of)
  let ?g = "\<lambda>v. v\<lparr>v_mapped := v_mapped v + 1\<rparr>"
  have h: "handle_demand_fault x (a, m) = Done (True, find_vma_mut x ?g a, m')"
    using v al f0 m'(1) by (simp add: handle_demand_fault_def)
  have kf: "vma_key (?g v) = vma_key v" for v by (simp add: vma_key_def)
  note mk = find_vma_mut_keys [OF kf, where ?x = x and ?a = a]
  have inv: "space_inv a" "space_inv (find_vma_mut x ?g a)" using assms(1) mk(1) by (simp_all add: space_ok_def)
  have "area_at (find_vma_mut x ?g a) = area_at a" by (rule ext, rule area_at_cong [OF inv]) (simp only: mk(2))
  moreover have "space_ok (find_vma_mut x ?g a)" using assms(1) mk by (simp add: space_ok_def)
  moreover have "virt_to_phys m' (as_p4 a) = (\<lambda>u. if same_page u x then Some (f OR (u AND 0xFFF)) else virt_to_phys m (as_p4 a) u)"
    unfolding m'(4) sp ft(3) ..
  ultimately show ?thesis unfolding if_P [OF True] using h z(2) m'(2,3)
    by (intro exI [of _ f] exI [of _ "find_vma_mut x ?g a"] exI [of _ m']) simp
qed

theorem demand_fault_backs_page_witness:
  "\<exists>c m a' m' f. zpg_locked pmm_boot = Done (c, m) \<and> virt_to_phys m' c 0x1000 = Some f \<and>
     handle_demand_fault 0x1234 ((space_new c)\<lparr>as_vmas := [\<lparr>v_base = 0x1000, v_size = 0x2000, v_flags = VMA_DEMAND,
       v_typ = Anonymous, v_mapped = 0\<rparr>]\<rparr>, m) = Done (True, a', m')"
proof -
  have b: "pm_base pmm_boot \<noteq> 0" "frame_avail pmm_boot \<noteq> {}" using pmm_boot_state boot_phys(3) by auto
  from empty_space [OF boot_phys(1,2) b] obtain c m where z: "zpg_locked pmm_boot = Done (c, m)" "vmm_ok m c"
    "\<not> pm_lock m" "card (frame_avail m) = 61438" "pm_base m = pm_base pmm_boot" using boot_phys(3) by auto
  let ?v = "\<lparr>v_base = 0x1000, v_size = 0x2000, v_flags = VMA_DEMAND, v_typ = Anonymous, v_mapped = 0\<rparr>"
  let ?a = "(space_new c)\<lparr>as_vmas := [?v]\<rparr>"
  have ok: "space_ok ?a" by (simp add: space_ok_def space_inv_def vma_ok_def space_new_def unat_top USER_MMAP_BASE_def)
  have p: "as_p4 ?a = c" by (simp add: space_new_def)
  have f: "find_vma ?a 0x1234 = Some ?v" by (simp add: find_vma_def vma_contains_def vma_end_def)
  have fl: "v_flags ?v AND VMA_GUARD = 0" "v_flags ?v AND VMA_DEMAND \<noteq> 0" "v_typ ?v \<noteq> GuardPage"
    by (simp_all add: VMA_DEMAND_def VMA_GUARD_def push_bit_eq_mult)
  have same: "same_page 0x1000 0x1234" by (simp add: same_page_iff pidx_def)
  have v: "vmm_ok m (as_p4 ?a)" "3 < card (frame_avail m)" "pm_base m \<noteq> 0" using z b(1) p by simp_all
  from demand_fault_backs_page [OF ok v(1) z(3) v(3,2), of "0x1234"] f fl
  obtain g a' m' where "handle_demand_fault 0x1234 (?a, m) = Done (True, a', m')"
    "virt_to_phys m' (as_p4 ?a) = (\<lambda>u. if same_page u 0x1234 then Some (g OR (u AND 0xFFF)) else virt_to_phys m (as_p4 ?a) u)"
    by (auto split: if_splits)
  with z(1) same p show ?thesis by auto
qed

end
