(* ===== verification/Sample_Space.thy ===== *)
theory Sample_Space
  imports Page_Words
begin

text \<open>
  A small concrete address space for the examples: the tables at 0x1000, 0x2000, 0x3000 and 0x4000 map the one user page
  0x400000 to the frame at 0x5000; the frame allocator is as after \<open>mm_init\<close>.
\<close>

definition sample :: pmm where
  "sample = pmm_boot\<lparr>pm_mem := (\<lambda>_. 0)(0x1000 := 0x2007, 0x2000 := 0x3007, 0x3010 := 0x4007, 0x4000 := 0x5007)\<rparr>"

lemma entry_addr_eq:
  assumes "aligned t" "aligned t'" "i < 512" "j < 512"
  shows "entry_addr t i = t' + of_nat (8 * j) \<longleftrightarrow> t = t' \<and> i = j"
proof -
  have "t' + of_nat (8 * j) = entry_addr t' j" by (simp add: entry_addr_def mult.commute)
  then show ?thesis using entry_addr_inj [OF assms(1,2,3,4)] by simp
qed

lemma sample_aligned: "aligned 0x1000" "aligned 0x2000" "aligned 0x3000" "aligned 0x4000" "aligned 0x5000"
  by (simp_all add: aligned_def)

lemma sample_pte:
  assumes "aligned t" "i < 512"
  shows "pte sample t i = (if t = 0x1000 \<and> i = 0 then 0x2007 else if t = 0x2000 \<and> i = 0 then 0x3007
     else if t = 0x3000 \<and> i = 2 then 0x4007 else if t = 0x4000 \<and> i = 0 then 0x5007 else 0)"
proof -
  note e = entry_addr_eq [OF assms(1) _ assms(2)]
  have "entry_addr t i = 0x1000 \<longleftrightarrow> t = 0x1000 \<and> i = 0" "entry_addr t i = 0x2000 \<longleftrightarrow> t = 0x2000 \<and> i = 0"
    "entry_addr t i = 0x3010 \<longleftrightarrow> t = 0x3000 \<and> i = 2" "entry_addr t i = 0x4000 \<longleftrightarrow> t = 0x4000 \<and> i = 0"
    using e [OF sample_aligned(1), of 0] e [OF sample_aligned(2), of 0] e [OF sample_aligned(3), of 2] e [OF sample_aligned(4), of 0]
    by simp_all
  then show ?thesis by (auto simp: pte_def sample_def)
qed

lemma sample_bits: "pte_present 0x2007" "pte_present 0x3007" "pte_present 0x4007" "pte_present 0x5007" "\<not> pte_present 0"
  "\<not> pte_huge 0x2007" "\<not> pte_huge 0x3007" "\<not> pte_huge 0x4007" "\<not> pte_huge 0x5007" "\<not> pte_huge 0"
  "pte_user 0x2007" "pte_user 0x3007" "pte_user 0x4007" "pte_user 0x5007"
  "pte_addr 0x2007 = 0x2000" "pte_addr 0x3007 = 0x3000" "pte_addr 0x4007 = 0x4000" "pte_addr 0x5007 = 0x5000"
  by (simp_all add: pte_present_def pte_huge_def pte_user_def pte_addr_def has_any_def PTE_P_def PTE_PS_def PTE_U_def PTE_ADDR_def
      bit_at_def push_bit_eq_mult)

lemma sample_small: "aligned t \<Longrightarrow> i < 512 \<Longrightarrow> \<not> pte_huge (pte sample t i)"
  by (simp add: sample_pte sample_bits)

lemma sample_tables:
  "table_at sample 0x1000 0 v = Some 0x1000"
  "table_at sample 0x1000 1 v = (if pidx 39 v = 0 then Some 0x2000 else None)"
  "table_at sample 0x1000 2 v = (if pidx 39 v = 0 \<and> pidx 30 v = 0 then Some 0x3000 else None)"
  "table_at sample 0x1000 3 v = (if pidx 39 v = 0 \<and> pidx 30 v = 0 \<and> pidx 21 v = 2 then Some 0x4000 else None)"
proof -
  show a: "table_at sample 0x1000 0 v = Some 0x1000" by simp
  show b: "table_at sample 0x1000 1 v = (if pidx 39 v = 0 then Some 0x2000 else None)"
    using a by (simp add: next_table_def sample_pte [OF sample_aligned(1)] sample_bits Let_def)
  have "table_at sample 0x1000 (Suc 1) v = (if pidx 39 v = 0 \<and> pidx 30 v = 0 then Some 0x3000 else None)"
    using b by (simp add: next_table_def sample_pte [OF sample_aligned(2)] sample_bits Let_def)
  then show c: "table_at sample 0x1000 2 v = (if pidx 39 v = 0 \<and> pidx 30 v = 0 then Some 0x3000 else None)" by (simp only: Suc_1)
  have "table_at sample 0x1000 (Suc 2) v = (if pidx 39 v = 0 \<and> pidx 30 v = 0 \<and> pidx 21 v = 2 then Some 0x4000 else None)"
    unfolding table_at.simps(2) [of _ _ 2] c
    by (simp add: next_table_def sample_pte [OF sample_aligned(3)] sample_bits Let_def)
  then show "table_at sample 0x1000 3 v = (if pidx 39 v = 0 \<and> pidx 30 v = 0 \<and> pidx 21 v = 2 then Some 0x4000 else None)"
    by (simp only: eval_nat_numeral)
qed

lemma level_cases: "k \<le> (3 :: nat) \<Longrightarrow> k = 0 \<or> k = 1 \<or> k = 2 \<or> k = 3"
  by linarith

lemma sample_table_cases:
  assumes "k \<le> 3" "table_at sample 0x1000 k v = Some t"
  shows "(k = 0 \<and> t = 0x1000) \<or> (k = 1 \<and> t = 0x2000 \<and> pidx 39 v = 0) \<or> (k = 2 \<and> t = 0x3000 \<and> pidx 39 v = 0 \<and> pidx 30 v = 0) \<or>
    (k = 3 \<and> t = 0x4000 \<and> pidx 39 v = 0 \<and> pidx 30 v = 0 \<and> pidx 21 v = 2)"
  using level_cases [OF assms(1)] assms(2) sample_tables [of v] by (elim disjE) (simp_all split: if_splits)

lemma sample_avail: "frame_avail sample = frame_avail pmm_boot" "x < 0x1000000 \<Longrightarrow> x \<notin> frame_avail sample"
proof -
  show e: "frame_avail sample = frame_avail pmm_boot" by (simp add: sample_def frame_avail_def)
  show "x \<notin> frame_avail sample" if x: "x < 0x1000000"
  proof
    assume "x \<in> frame_avail sample"
    then have "x \<in> frame_avail pmm_boot" by (simp only: e)
    then obtain i where i: "i < 61440" "x = fp pmm_boot i" unfolding frame_avail_def using pmm_boot_state by auto
    then have "unat x = 0x1000000 + 4096 * i" using pmm_boot_state(3)
      by (simp add: fp_def PAGE_SIZE_def unat_word_ariths unat_of_nat)
    then show False using x by (simp add: word_less_nat_alt)
  qed
qed

lemma all_less: "(\<forall>j < (1 :: nat). P j) \<longleftrightarrow> P 0" "(\<forall>j < (2 :: nat). P j) \<longleftrightarrow> P 0 \<and> P (Suc 0)"
  "(\<forall>j < (3 :: nat). P j) \<longleftrightarrow> P 0 \<and> P (Suc 0) \<and> P 2"
  by (auto simp: less_Suc_eq numeral_eq_Suc)

lemma sample_tables_ok: "tables_ok sample 0x1000"
  unfolding tables_ok_def
proof (intro conjI allI impI)
  show "(0x1000 :: u64) \<noteq> 0" by simp
next
  fix k v t assume a: "k \<le> (3 :: nat)" "table_at sample 0x1000 k v = Some t"
  note c = sample_table_cases [OF a]
  show "aligned t" using c sample_aligned by blast
  have "t < 0x1000000" using c by (elim disjE conjE) simp_all
  then show "t \<notin> frame_avail sample" by (rule sample_avail(2))
next
  fix k k' v v' t assume a: "k \<le> (3 :: nat)" "k' \<le> (3 :: nat)" "table_at sample 0x1000 k v = Some t \<and> table_at sample 0x1000 k' v' = Some t"
  note c = sample_table_cases [OF a(1) conjunct1 [OF a(3)]] sample_table_cases [OF a(2) conjunct2 [OF a(3)]]
  have ne: "(0x1000 :: u64) \<noteq> 0x2000" "(0x1000 :: u64) \<noteq> 0x3000" "(0x1000 :: u64) \<noteq> 0x4000" "(0x2000 :: u64) \<noteq> 0x3000"
    "(0x2000 :: u64) \<noteq> 0x4000" "(0x3000 :: u64) \<noteq> 0x4000" by simp_all
  have su: "same_upto 0 v v'" "same_upto 1 v v' \<longleftrightarrow> pidx 39 v = pidx 39 v'"
    "same_upto 2 v v' \<longleftrightarrow> pidx 39 v = pidx 39 v' \<and> pidx 30 v = pidx 30 v'"
    "same_upto 3 v v' \<longleftrightarrow> pidx 39 v = pidx 39 v' \<and> pidx 30 v = pidx 30 v' \<and> pidx 21 v = pidx 21 v'"
    by (simp_all add: same_upto_def all_less)
  show "k = k'" using c ne by metis
  show "same_upto k v v'" using c ne su by metis
next
  fix k v t assume a: "k \<le> (1 :: nat)" "table_at sample 0x1000 k v = Some t"
  have "k \<le> 3" using a(1) by simp
  from sample_table_cases [OF this a(2)] have c: "t = 0x1000 \<or> t = 0x2000" using a(1) by auto
  show "\<not> (pte_present (pte sample t (lvl k v)) \<and> pte_huge (pte sample t (lvl k v)))"
    using c sample_aligned sample_small [of t "lvl k v"] by (auto simp: lvl_def)
qed

lemma sample_ok: "vmm_ok sample 0x1000" "\<not> pm_lock sample" "pm_base sample \<noteq> 0" "card (frame_avail sample) = 61439"
proof -
  have "phys_ok sample" using boot_phys(1) by (simp add: sample_def phys_ok_def)
  then show "vmm_ok sample 0x1000" using sample_tables_ok by (simp add: vmm_ok_def)
  show "\<not> pm_lock sample" using boot_phys(2) by (simp add: sample_def)
  show "pm_base sample \<noteq> 0" using pmm_boot_state(3) by (simp add: sample_def)
  show "card (frame_avail sample) = 61439" using boot_phys(3) sample_avail(1) by simp
qed

lemma sample_page: "same_page u 0x400000 \<longleftrightarrow> pidx 39 u = 0 \<and> pidx 30 u = 0 \<and> pidx 21 u = 2 \<and> pidx 12 u = 0"
  by (simp add: same_page_iff pidx_div)

lemma sample_user: "same_page u 0x400000 \<Longrightarrow> valid_user sample 0x1000 u"
  by (simp add: sample_page valid_user_def chk_step_def sample_pte sample_aligned sample_bits Let_def)

lemma sample_virt: "same_page u 0x400000 \<Longrightarrow> virt_to_phys sample 0x1000 u = Some (0x5000 OR (u AND 0xFFF))"
  by (simp add: sample_page virt_to_phys_def walk_step_def sample_pte sample_aligned sample_bits Let_def)

lemma sample_frame: "data_frame 0x1000 0x5000 sample"
  unfolding data_frame_def
proof (intro conjI allI impI)
  show "aligned 0x5000" by (rule sample_aligned)
  show "(0x5000 :: u64) \<notin> frame_avail sample" by (rule sample_avail(2)) simp
next
  fix j u assume "j \<le> (3 :: nat)"
  then show "table_at sample 0x1000 j u \<noteq> Some 0x5000" using sample_table_cases by force
qed

lemma sample_buf:
  assumes "n \<le> 4096"
  shows "buf_fit 0x1000 0x400000 n sample"
proof -
  have "data_fit 0x1000 (page_addrs 0x400000) sample"
    by (rule page_fit [OF sample_tables_ok sample_frame]) (use sample_virt in simp_all)
  moreover have "set (addrs 0x400000 n) \<subseteq> page_addrs 0x400000" using assms by (force simp: page_addrs_def in_addrs)
  ultimately show ?thesis using assms by (auto simp: buf_fit_def data_fit_def inj_on_subset)
qed

lemma sample_valid_buf: "n \<noteq> 0 \<Longrightarrow> n \<le> 4096 \<Longrightarrow> valid_buf sample 0x1000 0x400000 (of_nat n) = Some True"
proof -
  assume n: "n \<noteq> 0" "n \<le> 4096"
  have u: "unat (of_nat n :: u64) = n" using n by (simp add: unat_of_nat)
  then have l: "unat (0x400000 + of_nat n :: u64) = 0x400000 + n" "(of_nat n :: u64) \<noteq> 0"
    using n by (simp add: unat_word_ariths, auto)
  have p: "page_of 0x400000 = 0x400000" by (simp add: word_unat_eq_iff page_of_div)
  have "(0x400000 :: u64) < 0x400000 + of_nat n" using l n by (simp add: word_less_nat_alt)
  moreover have "\<not> (0x400000 + PAGE_SIZE :: u64) < 0x400000 + of_nat n" using l n by (simp add: word_less_nat_alt PAGE_SIZE_def)
  moreover have "valid_user sample 0x1000 0x400000" by (rule sample_user) (simp add: sample_page pidx_div)
  ultimately show ?thesis using l(2) unfolding valid_buf_def p
    by (subst buf_loop.simps, subst buf_loop.simps) simp
qed

end
