(* ===== verification/Page_Fill.thy ===== *)
theory Page_Fill
  imports Page_Words Sample_Space
begin

text \<open>
  Loops that map pages and fill them with bytes: copying to physical memory, the bytes of a frame, and the contract of one
  iteration, which says what the page reads as afterwards. The program loaders (\<^verbatim>\<open>mm/user.rs\<close>, \<^verbatim>\<open>userspace_loader.rs\<close>) are
  such loops.
\<close>

section \<open>Copying\<close>

text \<open>\<open>copy_nonoverlapping\<close> of bytes to physical memory. The source of a segment is a function of the offset.\<close>

fun copy_in :: "u64 \<Rightarrow> u8 list \<Rightarrow> pmm \<Rightarrow> pmm" where
  "copy_in p [] m = m"
| "copy_in p (b # bs) m = copy_in (p + 1) bs (set_byte p b m)"

section \<open>Bytes of frames\<close>

lemma frame_offset: "aligned f \<Longrightarrow> j < 4096 \<Longrightarrow> f OR of_nat j = f + of_nat j" "aligned f \<Longrightarrow> j < 4096 \<Longrightarrow> page_of (f + of_nat j) = f"
proof -
  show e: "f OR of_nat j = f + of_nat j" if a: "aligned f" "j < 4096" for f j
  proof -
    have z: "f AND of_nat j = 0"
    proof (rule bit_eqI)
      fix n assume "possible_bit TYPE(u64) n"
      have "page_of (0 OR (of_nat j :: u64)) = 0" by (rule frame_or_offset(1)) (simp_all add: aligned_def a)
      then have "(of_nat j :: u64) AND NOT (mask 12) = 0" by (simp add: page_of_def PAGE_SIZE_def mask_eq_exp_minus_1)
      then have "\<not> bit ((of_nat j :: u64) AND NOT (mask 12)) n" by simp
      then show "bit (f AND of_nat j) n = bit (0 :: u64) n" using aligned_bit [OF a(1), of n] \<open>possible_bit TYPE(u64) n\<close>
        by (cases "n < 12") (auto simp: bit_simps)
    qed
    show ?thesis using word_plus_and_or [of f "of_nat j"] z by simp
  qed
  show "aligned f \<Longrightarrow> j < 4096 \<Longrightarrow> page_of (f + of_nat j) = f" using frame_or_offset(1) [of f j] e by simp
qed

lemma word_addr_entry:
  assumes "aligned f" "j < 4096"
  shows "word_addr (f + of_nat j) = entry_addr f (j div 8)"
proof -
  obtain q where q: "unat f = 4096 * q" using assms(1) by (metis aligned_def mod_0_imp_dvd dvdE)
  have "page_of (f + of_nat j) = f" by (rule frame_offset(2) [OF assms])
  then have d: "unat (f + of_nat j) div 4096 = q" using page_of_div [of "f + of_nat j"] q by simp
  have lo: "unat (f + of_nat j) mod 4096 = j"
  proof -
    have "unat (f + of_nat j) mod 4096 = (unat f + j) mod 2 ^ 64 mod 4096" by (simp add: unat_word_ariths unat_of_nat mod_add_right_eq)
    also have "\<dots> = (unat f + j) mod 4096" using mod_mod_cancel [of 4096 "2 ^ 64 :: nat" "unat f + j"] by simp
    finally show ?thesis using q assms(2) by simp
  qed
  have u: "unat (f + of_nat j) = 4096 * q + j" using d lo by (metis div_mult_mod_eq mult.commute)
  have "(4096 * q + j) div 8 = 512 * q + j div 8" by simp
  then have "unat (word_addr (f + of_nat j)) = 4096 * q + 8 * (j div 8)" by (simp add: word_addr_div u)
  moreover have "unat (entry_addr f (j div 8)) = 4096 * q + 8 * (j div 8)" using unat_entry_addr [OF assms(1), of "j div 8"] assms(2) q by simp
  ultimately show ?thesis by (simp add: word_unat_eq_iff)
qed

text \<open>Memories that agree on a frame as a table agree on its bytes.\<close>

lemma frame_bytes_same:
  assumes "aligned f" "\<And>i. i < 512 \<Longrightarrow> pte m' f i = pte m f i" "j < 4096"
  shows "mem_byte m' (f + of_nat j) = mem_byte m (f + of_nat j)"
  using assms(2) [of "j div 8"] assms(3) by (simp add: mem_byte_def word_addr_entry [OF assms(1,3)] pte_def)

lemma zero_page_bytes:
  assumes "aligned f" "j < 4096"
  shows "mem_byte (zero_page f m) (f + of_nat j) = 0"
  using pte_zero_page [OF assms(1,1), of "j div 8" m] assms(2) by (simp add: mem_byte_def word_addr_entry [OF assms] pte_def)

lemma copy_in_simps [simp]:
  "pm_lock (copy_in p bs m) = pm_lock m" "pm_base (copy_in p bs m) = pm_base m" "pm_size (copy_in p bs m) = pm_size m"
  "pm_refs (copy_in p bs m) = pm_refs m" "pm_bm (copy_in p bs m) = pm_bm m" "pmm_inv (copy_in p bs m) = pmm_inv m"
  "free_set (copy_in p bs m) = free_set m" "frame_avail (copy_in p bs m) = frame_avail m" "pm_total (copy_in p bs m) = pm_total m"
  by (induction bs arbitrary: p m) simp_all

lemma unat_pred: "q \<noteq> (p :: u64) \<Longrightarrow> unat (q - (p + 1)) = unat (q - p) - 1"
proof -
  assume "q \<noteq> p"
  then have "q - p \<noteq> 0" by simp
  then have "1 \<le> q - p" by (simp add: word_le_nat_alt unat_gt_0 Suc_le_eq)
  then have "unat (q - p - 1) = unat (q - p) - 1" by (simp add: unat_sub)
  moreover have "q - (p + 1) = q - p - 1" by (simp only: diff_diff_eq)
  ultimately show ?thesis by (simp only:)
qed

lemma copy_in_byte:
  "length bs < 2 ^ 64 \<Longrightarrow> mem_byte (copy_in p bs m) q = (if unat (q - p) < length bs then bs ! unat (q - p) else mem_byte m q)"
proof (induction bs arbitrary: p m)
  case Nil
  then show ?case by simp
next
  case (Cons b bs)
  have IH: "mem_byte (copy_in (p + 1) bs (set_byte p b m)) q =
      (if unat (q - (p + 1)) < length bs then bs ! unat (q - (p + 1)) else mem_byte (set_byte p b m) q)"
    using Cons.IH [of "p + 1" "set_byte p b m"] Cons.prems by simp
  show ?case
  proof (cases "q = p")
    case True
    have "q - (p + 1) = - 1" using True by simp
    moreover have "unat (- 1 :: u64) = 18446744073709551615" by (simp add: unsigned_minus_1_eq_mask mask_eq_exp_minus_1)
    ultimately have "unat (q - (p + 1)) = 18446744073709551615" by (simp only:)
    then show ?thesis using IH True Cons.prems by (simp add: mem_byte_set_byte)
  next
    case False
    then have "0 < unat (q - p)" by (simp add: unat_gt_0)
    then show ?thesis using IH unat_pred [OF False] False by (cases "unat (q - p)") (simp_all add: mem_byte_set_byte)
  qed
qed

lemma copy_in_word: "(\<And>k. k < length bs \<Longrightarrow> word_addr (p + of_nat k) \<noteq> a) \<Longrightarrow> pm_mem (copy_in p bs m) a = pm_mem m a"
proof (induction bs arbitrary: p m)
  case Nil
  then show ?case by simp
next
  case (Cons b bs)
  have "word_addr (p + 1 + of_nat k) \<noteq> a" if "k < length bs" for k
    using Cons.prems [of "Suc k"] that by (simp add: algebra_simps)
  then have "pm_mem (copy_in (p + 1) bs (set_byte p b m)) a = pm_mem (set_byte p b m) a" by (rule Cons.IH)
  moreover have "word_addr p \<noteq> a" using Cons.prems [of 0] by simp
  ultimately show ?case by (simp add: set_byte_def)
qed

lemma copy_in_other_table:
  assumes "aligned f" "off + length bs \<le> 4096" "aligned t" "t \<noteq> f" "i < 512"
  shows "pte (copy_in (f + of_nat off) bs m) t i = pte m t i"
  unfolding pte_def
proof (rule copy_in_word)
  fix k assume k: "k < length bs"
  have j: "off + k < 4096" using k assms(2) by linarith
  have "f + of_nat off + of_nat k = f + of_nat (off + k)" by (simp only: add.assoc of_nat_add)
  then have "page_of (f + of_nat off + of_nat k) = f" using frame_offset(2) [OF assms(1) j] by (simp only:)
  then show "word_addr (f + of_nat off + of_nat k) \<noteq> entry_addr t i"
    using page_of_word_addr [OF assms(3,5)] assms(4) by blast
qed

section \<open>Filling a frame\<close>

text \<open>Bytes copied into a data frame, and a data frame cleared first.\<close>

lemma copied_frame:
  assumes m: "vmm_ok m p4" and d: "data_frame p4 p m" and pt: "off + length bs \<le> 4096"
  defines "m' \<equiv> copy_in (p + of_nat off) bs m"
  shows "vmm_ok m' p4" "data_frame p4 p m'" "grows p4 m0 m \<Longrightarrow> p \<in> frame_avail m0 \<Longrightarrow> grows p4 m0 m'"
    "virt_to_phys m' p4 u = virt_to_phys m p4 u"
proof -
  have ok: "tables_ok m p4" and ph: "phys_ok m" using m by (auto simp: vmm_ok_def)
  have al: "aligned p" using d by (simp add: data_frame_def)
  have other: "pte m' t i = pte m t i" if "aligned t" "t \<noteq> p" "i < 512" for t i
    using copy_in_other_table [OF al pt that] by (simp add: m'_def)
  have ag: "agree m m' p4" unfolding agree_def
  proof (intro allI impI)
    fix k v t i assume a: "k \<le> 3" "table_at m p4 k v = Some t" "i < (512 :: nat)"
    then have "t \<noteq> p" using d by (auto simp: data_frame_def)
    then show "pte m' t i = pte m t i" using other tables_okD(2) [OF ok a(1,2)] a(3) by blast
  qed
  have av: "frame_avail m' = frame_avail m" by (simp add: m'_def)
  have ok': "tables_ok m' p4" using agree_tables_ok [OF ok ag] av by simp
  have tt: "j \<le> 3 \<Longrightarrow> table_at m' p4 j u = table_at m p4 j u" for j u using agree_table_at [OF ag, of j u] by simp
  show "vmm_ok m' p4" using ok' ph by (simp add: vmm_ok_def phys_ok_def m'_def)
  show "data_frame p4 p m'" using d tt av by (simp add: data_frame_def)
  show "virt_to_phys m' p4 u = virt_to_phys m p4 u" by (rule virt_to_phys_agree [OF ok ok' ag])
  show "grows p4 m0 m'" if g: "grows p4 m0 m" "p \<in> frame_avail m0" unfolding grows_def
  proof (intro conjI allI impI, goal_cases)
    case 1
    show ?case using growsD(1) [OF g(1)] av by simp
  next
    case (2 j u q)
    then show ?case using growsD(2) [OF g(1)] tt by simp
  next
    case (3 t i)
    then have "t \<noteq> p" using g(2) by blast
    then show ?case using other [of t i] growsD(3) [OF g(1)] 3 by simp
  qed
qed

lemma grows_zero:
  assumes "vmm_ok m p4" "data_frame p4 p m" "grows p4 m0 m" "p \<in> frame_avail m0"
  shows "grows p4 m0 (zero_page p m)"
proof -
  note zd = zero_data_frame [OF assms(1,2)]
  show ?thesis unfolding grows_def
  proof (intro conjI allI impI, goal_cases)
    case 1
    show ?case using growsD(1) [OF assms(3)] by simp
  next
    case (2 j u q)
    then show ?case using growsD(2) [OF assms(3)] zd(5) by simp
  next
    case (3 t i)
    then have "t \<noteq> p" using assms(4) by blast
    then show ?case using zd(6) [of t i] growsD(3) [OF assms(3)] 3 by simp
  qed
qed

lemma filled_frame:
  assumes m: "vmm_ok m p4" and d: "data_frame p4 p m" and pt: "off + length bs \<le> 4096"
  defines "m' \<equiv> copy_in (p + of_nat off) bs (zero_page p m)"
  shows "vmm_ok m' p4" "data_frame p4 p m'" "grows p4 m0 m \<Longrightarrow> p \<in> frame_avail m0 \<Longrightarrow> grows p4 m0 m'"
    "virt_to_phys m' p4 u = virt_to_phys m p4 u" "frame_avail m' = frame_avail m" "pm_lock m' = pm_lock m" "pm_base m' = pm_base m"
  using zero_data_frame [OF m d] copied_frame [OF zero_data_frame(1,2) [OF m d] pt] grows_zero [OF m d] by (simp_all add: m'_def)

section \<open>What a page holds\<close>

definition page_holds :: "u64 \<Rightarrow> u64 \<Rightarrow> (nat \<Rightarrow> u8) \<Rightarrow> pmm \<Rightarrow> bool" where
  "page_holds p4 v c m \<longleftrightarrow> v AND 0xFFF = 0 \<and> unat v + 4096 \<le> 2 ^ 48 \<and>
     (\<exists>f. data_frame p4 f m \<and> (\<forall>u. same_page u v \<longrightarrow> virt_to_phys m p4 u = Some (f OR (u AND 0xFFF))) \<and>
        (\<forall>k < 4096. mem_byte m (f + of_nat k) = c k))"

lemma page_holds_ld8:
  assumes "page_holds p4 v c m" "k < 4096"
  shows "ld8 p4 m (v + of_nat k) = Done (c k)"
proof -
  from assms(1) obtain f where p: "v AND 0xFFF = 0" "unat v + 4096 \<le> 2 ^ 48" and f: "data_frame p4 f m"
    "\<forall>u. same_page u v \<longrightarrow> virt_to_phys m p4 u = Some (f OR (u AND 0xFFF))" "\<forall>k < 4096. mem_byte m (f + of_nat k) = c k"
    unfolding page_holds_def by blast
  have al: "aligned f" using f(1) by (simp add: data_frame_def)
  have "virt_to_phys m p4 (v + of_nat k) = Some (f OR of_nat k)" using f(2) in_page(1,2) [OF p assms(2)] by simp
  then show ?thesis using f(3) assms(2) frame_offset(1) [OF al assms(2)] by (simp add: ld8_def)
qed

lemma backs_holds:
  assumes "backs z p4 v f m m'" "v AND 0xFFF = 0" "unat v + 4096 \<le> 2 ^ 48" "\<forall>k < 4096. mem_byte m' (f + of_nat k) = c k"
  shows "page_holds p4 v c m'"
  using assms unfolding page_holds_def backs_def by auto

lemma zeroed_holds:
  assumes "backs True p4 v f m m'" "v AND 0xFFF = 0" "unat v + 4096 \<le> 2 ^ 48"
  shows "page_holds p4 v (\<lambda>_. 0) m'"
proof (rule backs_holds [OF assms])
  have f: "aligned f" "\<forall>i < 512. pte m' f i = 0" using assms(1) by (simp_all add: backs_def data_frame_def)
  have "mem_byte m' (f + of_nat k) = 0" if "k < 4096" for k
    using f(2) that word_addr_entry [OF f(1) that] by (simp add: mem_byte_def pte_def)
  then show "\<forall>k < 4096. mem_byte m' (f + of_nat k) = 0" by blast
qed

text \<open>Backing other pages keeps what a page holds.\<close>

lemma backed_holds:
  assumes h: "page_holds p4 v c m" and b: "backed z p4 vs fs m m'" and d: "\<forall>w \<in> set vs. \<not> same_page v w"
  shows "page_holds p4 v c m'"
proof -
  from h obtain f where p: "v AND 0xFFF = 0" "unat v + 4096 \<le> 2 ^ 48" and f: "data_frame p4 f m"
    "\<forall>u. same_page u v \<longrightarrow> virt_to_phys m p4 u = Some (f OR (u AND 0xFFF))" "\<forall>k < 4096. mem_byte m (f + of_nat k) = c k"
    unfolding page_holds_def by blast
  have g: "grows p4 m m'" using b unfolding backed_def by blast
  have al: "aligned f" using f(1) by (simp add: data_frame_def)
  have "mem_byte m' (f + of_nat k) = c k" if "k < 4096" for k
    using frame_bytes_same [OF al data_frame_same [OF g f(1)] that] f(3) that by simp
  moreover have "virt_to_phys m' p4 u = Some (f OR (u AND 0xFFF))" if u: "same_page u v" for u
  proof -
    have "\<forall>w \<in> set vs. \<not> same_page u w" using d u by (auto simp: same_page_iff)
    then have "virt_to_phys m' p4 u = virt_to_phys m p4 u" using b unfolding backed_def by blast
    then show ?thesis using f(2) u by simp
  qed
  ultimately show ?thesis using p data_frame_grows [OF g f(1)] unfolding page_holds_def by blast
qed

section \<open>Loops that fill the pages they map\<close>

locale page_filler = page_mapper +
  fixes content :: "u64 \<Rightarrow> nat \<Rightarrow> u8"
  assumes step_fills: "room (Suc n) p4 m \<Longrightarrow> fits v \<Longrightarrow> step v m = Done m' \<Longrightarrow> page_holds p4 v (content v) m'"
begin

lemma run_pages_filled:
  "room (length vs + n) p4 m \<Longrightarrow> \<forall>v \<in> set vs. fits v \<Longrightarrow> sorted_wrt (\<lambda>u v. \<not> same_page u v) vs \<Longrightarrow> run_pages step vs m = Done m' \<Longrightarrow>
   v \<in> set vs \<Longrightarrow> page_holds p4 v (content v) m'"
proof (induction vs arbitrary: m)
  case Nil
  then show ?case by simp
next
  case (Cons w vs)
  have r: "room (Suc (length vs + n)) p4 m" "fits w" using Cons.prems by simp_all
  from step_ok [OF r] obtain f m1 where s: "step w m = Done m1" "room (length vs + n) p4 m1" by blast
  have t: "run_pages step vs m1 = Done m'" using Cons.prems(4) s(1) by simp
  from run_pages_backed [OF s(2)] Cons.prems(2,3) t obtain fs where b: "backed z p4 vs fs m1 m'" by auto
  show ?case
  proof (cases "v \<in> set vs")
    case True
    then show ?thesis using Cons.IH [OF s(2)] Cons.prems(2,3) t by simp
  next
    case False
    then have "v = w" using Cons.prems(5) by simp
    then show ?thesis using backed_holds [OF step_fills [OF r s(1)] b] Cons.prems(3) by simp
  qed
qed

end

end
