(* ===== verification/User_Map.thy ===== *)
theory User_Map
  imports Vma_Inv Page_Fill
begin

text \<open>
  The user side of the memory manager (\<^verbatim>\<open>mm/user.rs\<close>): loading a program segment, the legacy allocation calls, the search
  for a free range in the page tables, the page fault dispatcher, guard pages and swap entries. The main result is that
  a loaded segment reads, byte for byte, as the file's data followed by zeros.
\<close>

section \<open>Constants\<close>

definition LEGACY_ALLOC_BASE :: u64 where "LEGACY_ALLOC_BASE = 0x10000000"
definition LEGACY_ALLOC_TOP :: u64 where "LEGACY_ALLOC_TOP = 0x30000000"
definition PTE_SWAP :: u64 where "PTE_SWAP = bit_at 10"
definition PTE_SWAP_SLOT_MASK :: u64 where "PTE_SWAP_SLOT_MASK = 0x000FFFFFFFFFF000"

section \<open>Program segments\<close>

text \<open>One page of a segment: a zeroed frame, the part of the file that lies on it, and the mapping.\<close>

definition elf_page :: "u64 \<Rightarrow> (nat \<Rightarrow> u8) \<Rightarrow> u64 \<Rightarrow> nat \<Rightarrow> u64 \<Rightarrow> u64 \<Rightarrow> pmm \<Rightarrow> (bool \<times> pmm) run" where
  "elf_page p4 src vaddr filesz flags va m =
     bind_run (mm_alloc m) (\<lambda>(phys, m1).
       if phys = 0 then Done (False, m1)
       else let m2 = zero_page phys m1;
                off = (if va \<ge> vaddr then unat (va - vaddr) else 0);
                m3 = (if off < filesz
                      then let dst = (if va < vaddr then unat (vaddr - va) else 0); n = min (4096 - dst) (filesz - off)
                           in copy_in (phys + of_nat dst) (map (\<lambda>k. src (off + k)) [0..<n]) m2
                      else m2)
            in bind_run (vmap p4 va phys flags m3) (\<lambda>(r, m4). Done (r = 0, m4)))"

partial_function (option) elf_loop ::
    "u64 \<Rightarrow> (nat \<Rightarrow> u8) \<Rightarrow> u64 \<Rightarrow> nat \<Rightarrow> u64 \<Rightarrow> u64 \<Rightarrow> u64 \<Rightarrow> pmm \<Rightarrow> (bool \<times> pmm) run option" where
  "elf_loop p4 src vaddr filesz flags page_end va m =
     (if va < page_end
      then case elf_page p4 src vaddr filesz flags va m of Panic \<Rightarrow> Some Panic | Hang \<Rightarrow> Some Hang
        | Done (ok, m1) \<Rightarrow> if ok then elf_loop p4 src vaddr filesz flags page_end (va + PAGE_SIZE) m1 else Some (Done (False, m1))
      else Some (Done (True, m)))"

declare elf_loop.simps [code]

definition SEG_MAX :: nat where "SEG_MAX = 64 * 1024 * 1024"

definition map_elf_segment ::
    "u64 \<Rightarrow> (nat \<Rightarrow> u8) \<Rightarrow> u64 \<Rightarrow> nat \<Rightarrow> nat \<Rightarrow> u64 \<Rightarrow> pmm \<Rightarrow> (bool \<times> pmm) run option" where
  "map_elf_segment p4 src vaddr filesz memsz flags m =
     (if memsz = 0 then Some (Done (True, m))
      else let mem = min memsz SEG_MAX;
               page_base = vaddr AND NOT (PAGE_SIZE - 1);
               page_end = (vaddr + of_nat mem + PAGE_SIZE - 1) AND NOT (PAGE_SIZE - 1)
           in elf_loop p4 src vaddr filesz flags page_end page_base m)"

section \<open>Legacy calls\<close>

definition virt_to_phys_user :: "pmm \<Rightarrow> u64 \<Rightarrow> u64 \<Rightarrow> u64 option" where
  "virt_to_phys_user m p4 v = (case virt_to_phys m p4 v of None \<Rightarrow> None | Some p \<Rightarrow> if valid_user m p4 v then Some p else None)"

text \<open>The first page of the range that is in use.\<close>

definition first_used :: "pmm \<Rightarrow> u64 \<Rightarrow> u64 \<Rightarrow> nat \<Rightarrow> u64 option" where
  "first_used m p4 addr n =
     List.find (\<lambda>va. virt_to_phys_user m p4 va \<noteq> None) (map (\<lambda>pg. addr + of_nat pg * PAGE_SIZE) [0..<n])"

partial_function (option) free_user_loop :: "pmm \<Rightarrow> u64 \<Rightarrow> u64 \<Rightarrow> u64 \<Rightarrow> u64 option option" where
  "free_user_loop m p4 sz addr =
     (if addr + sz \<le> 0x00007FFFFFFF0000
      then case first_used m p4 addr (unat (sz div PAGE_SIZE)) of
             None \<Rightarrow> Some (Some addr)
           | Some va \<Rightarrow> free_user_loop m p4 sz (va + PAGE_SIZE)
      else Some None)"

declare free_user_loop.simps [code]

definition find_free_user_range :: "pmm \<Rightarrow> u64 \<Rightarrow> u64 \<Rightarrow> u64 \<Rightarrow> u64 option option" where
  "find_free_user_range m p4 sz start =
     free_user_loop m p4 ((sz + PAGE_SIZE - 1) div PAGE_SIZE * PAGE_SIZE) ((start + PAGE_SIZE - 1) AND NOT (PAGE_SIZE - 1))"

text \<open>\<open>for j in 0..i { vunmap(..) }\<close>\<close>

fun unmap_each :: "u64 \<Rightarrow> u64 \<Rightarrow> nat list \<Rightarrow> pmm \<Rightarrow> pmm run" where
  "unmap_each p4 base [] m = Done m"
| "unmap_each p4 base (j # js) m = bind_run (vunmap p4 (base + of_nat j * PAGE_SIZE) m) (unmap_each p4 base js)"

fun legacy_loop :: "u64 \<Rightarrow> u64 \<Rightarrow> nat list \<Rightarrow> pmm \<Rightarrow> (u64 \<times> pmm) run" where
  "legacy_loop p4 base [] m = Done (base, m)"
| "legacy_loop p4 base (i # is) m =
     (let va = base + of_nat i * PAGE_SIZE in
      if va \<ge> LEGACY_ALLOC_TOP then Done (0, m)
      else bind_run (mm_alloc m) (\<lambda>(phys, m1).
        if phys = 0 then bind_run (unmap_each p4 base [0..<i] m1) (\<lambda>m2. Done (0, m2))
        else bind_run (vmap p4 va phys (PTE_W OR PTE_U OR PTE_NX) (zero_page phys m1)) (\<lambda>(r, m2).
          if r \<noteq> 0
          then bind_run (mm_free_phys phys m2) (\<lambda>m3. bind_run (unmap_each p4 base [0..<i] m3) (\<lambda>m4. Done (0, m4)))
          else legacy_loop p4 base is m2)))"

definition legacy_mem_alloc :: "u64 \<Rightarrow> nat \<Rightarrow> u64 \<Rightarrow> pmm \<Rightarrow> (u64 \<times> pmm) run option" where
  "legacy_mem_alloc p4 pages hint m =
     (if pages = 0 \<or> pages > 1024 then Some (Done (0, m))
      else if hint \<noteq> 0 then Some (legacy_loop p4 (hint AND NOT (PAGE_SIZE - 1)) [0..<pages] m)
      else case find_free_user_range m p4 (of_nat pages * PAGE_SIZE) LEGACY_ALLOC_BASE of
             None \<Rightarrow> None
           | Some None \<Rightarrow> Some (Done (0, m))
           | Some (Some base) \<Rightarrow> Some (legacy_loop p4 base [0..<pages] m))"

definition legacy_mem_free :: "u64 \<Rightarrow> u64 \<Rightarrow> nat \<Rightarrow> pmm \<Rightarrow> (int \<times> pmm) run" where
  "legacy_mem_free p4 ptr pages m =
     (if ptr = 0 \<or> pages = 0 then Done (-1, m)
      else bind_run (unmap_each p4 ptr [0..<pages] m) (\<lambda>m1. Done (0, m1)))"

section \<open>Page faults\<close>

definition raw_step :: "pmm \<Rightarrow> u64 \<Rightarrow> nat \<Rightarrow> u64 option + u64" where
  "raw_step m tab i =
     (let e = pte m tab i in if \<not> pte_present e then Inl (if e \<noteq> 0 then Some e else None) else Inr (pte_addr e))"

definition read_pte_for :: "pmm \<Rightarrow> u64 \<Rightarrow> u64 \<Rightarrow> u64 option" where
  "read_pte_for m p4 v =
     (case raw_step m p4 (pidx 39 v) of Inl r \<Rightarrow> r | Inr p3 \<Rightarrow>
      case raw_step m p3 (pidx 30 v) of Inl r \<Rightarrow> r | Inr p2 \<Rightarrow>
      case raw_step m p2 (pidx 21 v) of Inl r \<Rightarrow> r | Inr p1 \<Rightarrow> Some (pte m p1 (pidx 12 v)))"

text \<open>The answer, with the address space (if any) and the memory afterwards. Swapping in is not implemented in the code.\<close>

definition handle_page_fault ::
    "u64 \<Rightarrow> u64 \<Rightarrow> u64 \<Rightarrow> space option \<Rightarrow> pmm \<Rightarrow> (bool \<times> space option \<times> pmm) run" where
  "handle_page_fault p4 fault_addr err as m =
     (let present = err AND 1 \<noteq> 0; is_write = err AND 2 \<noteq> 0; is_user = err AND 4 \<noteq> 0 in
      if \<not> is_user \<and> fault_addr \<ge> 0xFFFF800000000000 then Done (False, as, m)
      else bind_run (if present \<and> is_write then handle_cow_fault p4 fault_addr m else Done (False, m)) (\<lambda>(cow, m1).
        if cow then Done (True, as, m1)
        else bind_run (case as of
               Some sp \<Rightarrow> if \<not> present then bind_run (handle_demand_fault fault_addr (sp, m1)) (\<lambda>(ok, sp', m2). Done (ok, Some sp', m2))
                          else Done (False, as, m1)
             | None \<Rightarrow> Done (False, as, m1)) (\<lambda>(dem, as', m2).
          if dem then Done (True, as', m2)
          else if \<not> present
          then (case read_pte_for m2 p4 fault_addr of
                  Some e \<Rightarrow> if e AND PTE_SWAP \<noteq> 0 then Done (False, as', m2) else Done (False, as', m2)
                | None \<Rightarrow> Done (False, as', m2))
          else Done (False, as', m2))))"

definition install_guard_page :: "u64 \<Rightarrow> u64 \<Rightarrow> pmm \<Rightarrow> pmm run" where
  "install_guard_page p4 addr m = vunmap p4 (addr AND NOT (PAGE_SIZE - 1)) m"

section \<open>Swap entries\<close>

definition make_swap_pte :: "u64 \<Rightarrow> u64" where
  "make_swap_pte sl = push_bit 12 sl OR PTE_SWAP"

definition swap_pte_slot :: "u64 \<Rightarrow> u64" where
  "swap_pte_slot e = drop_bit 12 (e AND PTE_SWAP_SLOT_MASK)"

lemma bit_slot_mask: "bit PTE_SWAP_SLOT_MASK n \<longleftrightarrow> 12 \<le> n \<and> n < 52"
  using bit_PTE_ADDR [of n] by (simp add: PTE_SWAP_SLOT_MASK_def PTE_ADDR_def)

lemma swap_entry:
  assumes "sl < 2 ^ 40"
  shows "swap_pte_slot (make_swap_pte sl) = sl" "\<not> pte_present (make_swap_pte sl)" "make_swap_pte sl AND PTE_SWAP \<noteq> 0"
proof -
  have "unat sl < 2 ^ 40" using assms by (simp add: word_less_nat_alt)
  then have "take_bit 40 (unat sl) = unat sl" by (simp add: take_bit_nat_eq_self_iff)
  then have "take_bit 40 sl = sl" by (metis unsigned_take_bit_eq word_unat_eq_iff)
  then have hi: "\<not> bit sl n" if "40 \<le> n" for n using that by (metis bit_take_bit_iff not_le)
  then have lo: "bit sl n \<Longrightarrow> n < 40" for n by (metis not_le)
  show "swap_pte_slot (make_swap_pte sl) = sl"
    by (rule bit_eqI) (auto simp: swap_pte_slot_def make_swap_pte_def bit_simps bit_slot_mask PTE_SWAP_def dest: lo)
  have "\<not> bit (make_swap_pte sl) 0" by (simp add: make_swap_pte_def PTE_SWAP_def bit_simps)
  then show "\<not> pte_present (make_swap_pte sl)" by (simp add: pte_present_def PTE_P_def)
  have "bit (make_swap_pte sl) 10" by (simp add: make_swap_pte_def PTE_SWAP_def bit_simps)
  then have "has_any (make_swap_pte sl) PTE_SWAP" by (simp add: PTE_SWAP_def)
  then show "make_swap_pte sl AND PTE_SWAP \<noteq> 0" by (simp add: has_any_def)
qed

section \<open>One page of a segment\<close>

text \<open>The byte the file puts at an address: its data, or zero.\<close>

definition seg_byte :: "(nat \<Rightarrow> u8) \<Rightarrow> u64 \<Rightarrow> nat \<Rightarrow> u64 \<Rightarrow> u8" where
  "seg_byte src vaddr filesz a = (if vaddr \<le> a \<and> unat (a - vaddr) < filesz then src (unat (a - vaddr)) else 0)"

text \<open>The part of the file that lies on the page at \<open>va\<close>, and its place in the page.\<close>

definition page_part :: "(nat \<Rightarrow> u8) \<Rightarrow> u64 \<Rightarrow> nat \<Rightarrow> u64 \<Rightarrow> nat \<times> u8 list" where
  "page_part src vaddr filesz va =
     (let off = (if va \<ge> vaddr then unat (va - vaddr) else 0); dst = (if va < vaddr then unat (vaddr - va) else 0) in
      if off < filesz then (dst, map (\<lambda>k. src (off + k)) [0..<min (4096 - dst) (filesz - off)]) else (0, []))"

lemma page_part_fits:
  assumes "unat vaddr < unat va + 4096"
  shows "fst (page_part src vaddr filesz va) + length (snd (page_part src vaddr filesz va)) \<le> 4096"
proof -
  have "va < vaddr \<Longrightarrow> unat (vaddr - va) < 4096" using assms unat_sub [of va vaddr] by (simp add: less_imp_le)
  then show ?thesis by (auto simp: page_part_def Let_def)
qed

lemma elf_page_part:
  "elf_page p4 src vaddr filesz flags va m =
     bind_run (mm_alloc m) (\<lambda>(phys, m1). if phys = 0 then Done (False, m1)
       else bind_run (vmap p4 va phys flags (copy_in (phys + of_nat (fst (page_part src vaddr filesz va)))
              (snd (page_part src vaddr filesz va)) (zero_page phys m1))) (\<lambda>(r, m4). Done (r = 0, m4)))"
  unfolding elf_page_def by (rule arg_cong [where f = "bind_run (mm_alloc m)"]) (auto simp: page_part_def Let_def fun_eq_iff)

lemma page_part_byte:
  assumes "aligned f" "k < 4096" "unat vaddr < unat va + 4096" "unat va + 4096 \<le> 2 ^ 48"
  shows "mem_byte (copy_in (f + of_nat (fst (page_part src vaddr filesz va))) (snd (page_part src vaddr filesz va)) (zero_page f m)) (f + of_nat k)
    = seg_byte src vaddr filesz (va + of_nat k)"
proof -
  define d bs where "d = fst (page_part src vaddr filesz va)" and "bs = snd (page_part src vaddr filesz va)"
  have l: "d + length bs \<le> 4096" using page_part_fits [OF assms(3)] by (simp add: d_def bs_def)
  have uk: "unat (of_nat k :: u64) = k" "unat (of_nat d :: u64) = d" using assms(2) l by (simp_all add: unat_of_nat)
  have diff: "f + of_nat k - (f + of_nat d) = of_nat k - (of_nat d :: u64)" by simp
  have pos: "unat (f + of_nat k - (f + of_nat d)) < length bs \<longleftrightarrow> d \<le> k \<and> k - d < length bs"
    "d \<le> k \<Longrightarrow> unat (f + of_nat k - (f + of_nat d)) = k - d"
  proof -
    show e: "unat (f + of_nat k - (f + of_nat d)) = k - d" if "d \<le> k"
      unfolding diff using that uk by (simp add: unat_sub word_le_nat_alt)
    have "\<not> unat (of_nat k - of_nat d :: u64) < length bs" if "k < d"
    proof -
      have "unat (of_nat k - of_nat d :: u64) = 2 ^ 64 + k - d" using that uk l by (simp add: unat_sub_if_size word_size word_le_nat_alt)
      then show ?thesis using l assms(2) by simp
    qed
    then show "unat (f + of_nat k - (f + of_nat d)) < length bs \<longleftrightarrow> d \<le> k \<and> k - d < length bs"
      using e unfolding diff by (cases "d \<le> k") auto
  qed
  have a: "unat (va + of_nat k) = unat va + k" using assms(2,4) uk(1) by (simp add: unat_word_ariths)
  have "mem_byte (copy_in (f + of_nat d) bs (zero_page f m)) (f + of_nat k) = (if d \<le> k \<and> k - d < length bs then bs ! (k - d) else 0)"
    using copy_in_byte [of bs "f + of_nat d" "zero_page f m" "f + of_nat k"] l pos zero_page_bytes [OF assms(1,2)] by auto
  also have "\<dots> = seg_byte src vaddr filesz (va + of_nat k)"
  proof (cases "va \<ge> vaddr")
    case True
    have ge: "unat vaddr \<le> unat va" using True by (simp add: word_le_nat_alt)
    have o: "unat (va - vaddr) = unat va - unat vaddr" using True by (simp add: unat_sub)
    have p: "d = 0" "bs = (if unat va - unat vaddr < filesz then map (\<lambda>k. src (unat va - unat vaddr + k)) [0..<min 4096 (filesz - (unat va - unat vaddr))] else [])"
      using True by (auto simp: d_def bs_def page_part_def o not_less Let_def)
    have le: "vaddr \<le> va + of_nat k" using a ge by (simp add: word_le_nat_alt)
    then have "unat (va + of_nat k - vaddr) = unat va - unat vaddr + k" using a ge by (simp add: unat_sub)
    then show ?thesis using p le assms(2) by (auto simp: seg_byte_def)
  next
    case False
    have lt: "unat va < unat vaddr" using False by (simp add: word_le_nat_alt)
    have o: "unat (vaddr - va) = unat vaddr - unat va" using False by (simp add: unat_sub)
    have p: "if 0 < filesz then d = unat vaddr - unat va \<and> bs = map src [0..<min (4096 - d) filesz] else bs = []"
      using False by (auto simp: d_def bs_def page_part_def o Let_def)
    have le: "vaddr \<le> va + of_nat k \<longleftrightarrow> unat vaddr - unat va \<le> k" using a lt by (auto simp: word_le_nat_alt)
    have df: "unat (va + of_nat k - vaddr) = k - (unat vaddr - unat va)" if "unat vaddr - unat va \<le> k"
      using a lt that le by (simp add: unat_sub)
    show ?thesis using p le df assms(2) by (auto simp: seg_byte_def split: if_splits)
  qed
  finally show ?thesis by (simp add: d_def bs_def)
qed

section \<open>The segment loop fills its pages\<close>

definition elf_step :: "u64 \<Rightarrow> (nat \<Rightarrow> u8) \<Rightarrow> u64 \<Rightarrow> nat \<Rightarrow> u64 \<Rightarrow> u64 \<Rightarrow> pmm \<Rightarrow> pmm run" where
  "elf_step p4 src vaddr filesz flags va m = bind_run (elf_page p4 src vaddr filesz flags va m) (\<lambda>(_, m'). Done m')"

definition seg_page :: "u64 \<Rightarrow> u64 \<Rightarrow> bool" where
  "seg_page vaddr v \<longleftrightarrow> v AND 0xFFF = 0 \<and> unat v + 4096 \<le> 2 ^ 48 \<and> unat vaddr < unat v + 4096"

lemma elf_page_ok:
  assumes r: "room (Suc n) p4 m" and v: "seg_page vaddr v" and f: "flags_only flags"
  shows "\<exists>p m'. elf_page p4 src vaddr filesz flags v m = Done (True, m') \<and> room n p4 m' \<and> pm_base m' = pm_base m \<and> backs False p4 v p m m' \<and>
    (\<forall>k < 4096. mem_byte m' (p + of_nat k) = seg_byte src vaddr filesz (v + of_nat k))"
proof -
  have va: "v AND 0xFFF = 0" "unat v + 4096 \<le> 2 ^ 48" "unat vaddr < unat v + 4096" using v by (auto simp: seg_page_def)
  from alloc_data_frame [OF r] obtain p m1 where a: "mm_alloc m = Done (p, m1)" "p \<noteq> 0" "p \<in> frame_avail m" "p AND PTE_ADDR = p"
    "vmm_ok m1 p4" "\<not> pm_lock m1" "pm_base m1 = pm_base m" "4 * n + 3 \<le> card (frame_avail m1)" "data_frame p4 p m1"
    "grows p4 m m1" "\<forall>u. virt_to_phys m1 p4 u = virt_to_phys m p4 u" by blast
  let ?pp = "page_part src vaddr filesz v"
  let ?m2 = "copy_in (p + of_nat (fst ?pp)) (snd ?pp) (zero_page p m1)"
  note ff = filled_frame [OF a(5,9) page_part_fits [OF va(3), of src filesz]]
  have l: "\<not> pm_lock ?m2" "4 * n + 3 \<le> card (frame_avail ?m2)" using a(6,8) ff(5,6) by simp_all
  from map_data_frame [OF ff(1) l va(1) ff(2) a(4) f] obtain m' where d: "vmap p4 v p flags ?m2 = Done (0, m')" "vmm_ok m' p4"
    "\<not> pm_lock m'" "pm_base m' = pm_base ?m2" "4 * n \<le> card (frame_avail m')" "grows p4 ?m2 m'"
    "virt_to_phys m' p4 = (\<lambda>u. if same_page u v then Some (p OR (u AND 0xFFF)) else virt_to_phys ?m2 p4 u)" by blast
  have al: "aligned p" using a(9) by (simp add: data_frame_def)
  have "elf_page p4 src vaddr filesz flags v m = Done (True, m')" using a(1,2) d(1) by (simp add: elf_page_part)
  moreover have "room n p4 m'" using d r a(7) ff(7) by (simp add: room_def)
  moreover have "backs False p4 v p m m'" unfolding backs_def
    using a(3) data_frame_grows [OF d(6) ff(2)] grows_trans [OF ff(3) [OF a(10,3)] d(6)] d(7) a(11) ff(4) by (simp add: fun_eq_iff)
  moreover have "mem_byte m' (p + of_nat k) = seg_byte src vaddr filesz (v + of_nat k)" if "k < 4096" for k
    using frame_bytes_same [OF al data_frame_same [OF d(6) ff(2)] that] page_part_byte [OF al that va(3,2)] by simp
  ultimately show ?thesis using d(4) ff(7) a(7) by (intro exI [of _ p] exI [of _ m']) simp
qed

definition seg_fits :: "u64 \<Rightarrow> u64 \<Rightarrow> u64 \<Rightarrow> bool" where
  "seg_fits vaddr flags v \<longleftrightarrow> seg_page vaddr v \<and> flags_only flags"

interpretation segment: page_filler False p4 "elf_step p4 src vaddr filesz flags" "seg_fits vaddr flags"
    "\<lambda>v k. seg_byte src vaddr filesz (v + of_nat k)" for p4 src vaddr filesz flags
proof unfold_locales
  show "\<exists>f m'. elf_step p4 src vaddr filesz flags v m = Done m' \<and> room n p4 m' \<and> pm_base m' = pm_base m \<and> backs False p4 v f m m'"
    if r: "room (Suc n) p4 m" and v: "seg_fits vaddr flags v" for n m v
    using elf_page_ok [OF r, of vaddr v flags src filesz] v by (auto simp: seg_fits_def elf_step_def)
  show "page_holds p4 v (\<lambda>k. seg_byte src vaddr filesz (v + of_nat k)) m'"
    if r: "room (Suc n) p4 m" and v: "seg_fits vaddr flags v" and s: "elf_step p4 src vaddr filesz flags v m = Done m'" for n m v m'
  proof -
    from elf_page_ok [OF r, of vaddr v flags src filesz] v s obtain p where p: "backs False p4 v p m m'"
      "\<forall>k < 4096. mem_byte m' (p + of_nat k) = seg_byte src vaddr filesz (v + of_nat k)" by (auto simp: seg_fits_def elf_step_def)
    show ?thesis using backs_holds [OF p(1) _ _ p(2)] v by (simp add: seg_fits_def seg_page_def)
  qed
qed

lemma page_seq_Suc: "page_seq b (Suc n) = b # page_seq (b + PAGE_SIZE) n"
proof -
  have "[0..<Suc n] = 0 # map Suc [0..<n]" by (simp add: upt_conv_Cons map_Suc_upt del: upt_Suc)
  then show ?thesis by (simp add: page_seq_def algebra_simps)
qed

lemma page_seq_0: "page_seq b 0 = []"
  by (simp add: page_seq_def)

text \<open>With room for every page the loop ends with \<open>true\<close> after the pages up to the end.\<close>

lemma elf_loop_run:
  "room (n + j) p4 m \<Longrightarrow> \<forall>v \<in> set (page_seq va n). seg_fits vaddr flags v \<Longrightarrow> unat page_end = unat va + 4096 * n \<Longrightarrow>
   run_pages (elf_step p4 src vaddr filesz flags) (page_seq va n) m = Done m' \<Longrightarrow>
   elf_loop p4 src vaddr filesz flags page_end va m = Some (Done (True, m'))"
proof (induction n arbitrary: va m)
  case 0
  then have "\<not> va < page_end" by (simp add: word_less_nat_alt)
  then show ?case using 0 by (simp add: elf_loop.simps page_seq_0)
next
  case (Suc n)
  have f: "seg_fits vaddr flags va" "\<forall>v \<in> set (page_seq (va + PAGE_SIZE) n). seg_fits vaddr flags v"
    using Suc.prems(2) unfolding page_seq_Suc by simp_all
  have lt: "va < page_end" using Suc.prems(3) by (simp add: word_less_nat_alt)
  have r: "room (Suc (n + j)) p4 m" using Suc.prems(1) by simp
  from elf_page_ok [OF r, of vaddr va flags src filesz] f(1) obtain p m1 where
    s: "elf_page p4 src vaddr filesz flags va m = Done (True, m1)" "room (n + j) p4 m1" by (auto simp: seg_fits_def)
  have "unat va + 4096 \<le> 2 ^ 48" using f(1) by (simp add: seg_fits_def seg_page_def)
  then have u: "unat (va + PAGE_SIZE) = unat va + 4096" by (simp add: PAGE_SIZE_def unat_word_ariths)
  have e: "unat page_end = unat (va + PAGE_SIZE) + 4096 * n" using Suc.prems(3) u by simp
  have t: "run_pages (elf_step p4 src vaddr filesz flags) (page_seq (va + PAGE_SIZE) n) m1 = Done m'"
  proof -
    have "elf_step p4 src vaddr filesz flags va m = Done m1" using s(1) by (simp add: elf_step_def)
    then show ?thesis using Suc.prems(4) unfolding page_seq_Suc by simp
  qed
  show ?case using Suc.IH [OF s(2) f(2) e t] lt s(1) by (subst elf_loop.simps) simp
qed

section \<open>Properties\<close>

text \<open>
  C15: a loaded segment is what the file says. With frames to spare, \<open>map_elf_segment\<close> terminates and succeeds, and afterwards
  reading the segment's addresses gives the bytes of the file followed by zeros, also where the segment starts in the
  middle of a page; pages the segment does not touch keep their translation.
\<close>

theorem segment_loaded:
  assumes "0 < memsz" "memsz \<le> SEG_MAX" "unat vaddr + memsz + 4096 \<le> 2 ^ 48" "flags_only flags"
    "n = (unat vaddr mod 4096 + memsz + 4095) div 4096" "room n p4 m"
  shows "\<exists>m'. map_elf_segment p4 src vaddr filesz memsz flags m = Some (Done (True, m')) \<and>
    (\<forall>i < memsz. ld8 p4 m' (vaddr + of_nat i) = Done (if i < filesz then src i else 0)) \<and>
    (\<forall>u. (\<forall>v \<in> set (page_seq (page_of vaddr) n). \<not> same_page u v) \<longrightarrow> virt_to_phys m' p4 u = virt_to_phys m p4 u)"
proof -
  let ?b = "page_of vaddr" and ?e = "page_of (vaddr + of_nat memsz + PAGE_SIZE - 1)"
  have ub: "unat ?b = 4096 * (unat vaddr div 4096)" by (rule page_of_div)
  have sz: "memsz < 2 ^ 48" using assms(3) by linarith
  have "unat (vaddr + of_nat memsz + PAGE_SIZE - 1) = unat vaddr + memsz + 4095"
  proof -
    have e: "vaddr + of_nat memsz + PAGE_SIZE - 1 = vaddr + of_nat (memsz + 4095)" by (simp add: PAGE_SIZE_def)
    have "unat (of_nat (memsz + 4095) :: u64) = memsz + 4095" using sz by (simp add: unat_of_nat del: of_nat_add)
    moreover have "unat (vaddr + w) = unat vaddr + unat w" if "unat vaddr + unat w < 2 ^ 64" for w
      using that by (simp add: unat_word_ariths)
    ultimately have "unat (vaddr + of_nat (memsz + 4095)) = unat vaddr + memsz + 4095" using assms(3) by (simp del: of_nat_add)
    then show ?thesis by (simp only: e)
  qed
  then have "unat ?e = 4096 * ((unat vaddr + memsz + 4095) div 4096)" using page_of_div by metis
  moreover have "unat vaddr + memsz + 4095 = 4096 * (unat vaddr div 4096) + (unat vaddr mod 4096 + memsz + 4095)" by simp
  then have "(unat vaddr + memsz + 4095) div 4096 = unat vaddr div 4096 + n" unfolding assms(5) by (metis div_mult_self4 zero_neq_numeral)
  ultimately have ue: "unat ?e = unat ?b + 4096 * n" using ub by simp
  have al: "?b AND 0xFFF = 0"
  proof -
    have "unat ?b mod 4096 = 0" using ub by simp
    moreover have "?b AND 0xFFF = take_bit 12 ?b" by (simp add: take_bit_eq_mask mask_eq_exp_minus_1)
    ultimately show ?thesis using aligned_low_bits [of ?b] by (simp add: aligned_def)
  qed
  have lim: "unat ?b + 4096 * n \<le> 2 ^ 48"
  proof -
    have "4096 * n \<le> unat vaddr mod 4096 + memsz + 4095" unfolding assms(5) by simp
    moreover have "unat ?b + unat vaddr mod 4096 = unat vaddr" using ub by simp
    ultimately show ?thesis using assms(3) by linarith
  qed
  note ps = page_seq_ok [OF al lim]
  have fits: "\<forall>v \<in> set (page_seq ?b n). seg_fits vaddr flags v"
  proof
    fix v assume "v \<in> set (page_seq ?b n)"
    then obtain j where j: "j < n" "v = page_seq ?b n ! j" by (auto simp: in_set_conv_nth ps(3))
    then have "unat v = unat ?b + 4096 * j" using page_seq_nth(2) [OF lim] by simp
    moreover have "unat vaddr < unat ?b + 4096" using ub by simp
    ultimately show "seg_fits vaddr flags v" using ps(1) \<open>v \<in> _\<close> j(1) lim assms(4) by (simp add: seg_fits_def seg_page_def)
  qed
  have r: "room (length (page_seq ?b n) + 0) p4 m" using assms(6) ps(3) by simp
  from segment.run_pages_backed [OF r fits ps(2), of src filesz] obtain fs m' where
    m': "run_pages (elf_step p4 src vaddr filesz flags) (page_seq ?b n) m = Done m'" "backed False p4 (page_seq ?b n) fs m m'" by blast
  have r0: "room (n + 0) p4 m" using assms(6) by simp
  have "map_elf_segment p4 src vaddr filesz memsz flags m = Some (Done (True, m'))"
    using elf_loop_run [OF r0 fits ue m'(1)] assms(1,2) by (simp add: map_elf_segment_def page_of_def Let_def)
  moreover have "ld8 p4 m' (vaddr + of_nat i) = Done (if i < filesz then src i else 0)" if i: "i < memsz" for i
  proof -
    define t where "t = unat vaddr mod 4096 + i"
    have n: "t div 4096 < n" using i unfolding t_def assms(5) by (simp add: less_mult_imp_div_less div_less_iff_less_mult)
    let ?v = "page_seq ?b n ! (t div 4096)"
    have vin: "?v \<in> set (page_seq ?b n)" using n ps(3) by simp
    have ui: "unat (vaddr + of_nat i) = unat vaddr + i" using i assms(3) by (simp add: unat_word_ariths unat_of_nat)
    have "unat (?v + of_nat (t mod 4096)) = unat ?b + 4096 * (t div 4096) + t mod 4096"
    proof -
      have "?v AND 0xFFF = 0" "unat ?v + 4096 \<le> 2 ^ 48" using fits vin unfolding seg_fits_def seg_page_def by blast+
      from in_page(3) [OF this, of "t mod 4096"] page_seq_nth(2) [OF lim n] show ?thesis by simp
    qed
    also have "\<dots> = unat vaddr + i" using ub by (simp add: t_def)
    finally have a: "?v + of_nat (t mod 4096) = vaddr + of_nat i" using ui by (simp add: word_unat_eq_iff)
    have "ld8 p4 m' (?v + of_nat (t mod 4096)) = Done (seg_byte src vaddr filesz (?v + of_nat (t mod 4096)))"
      using page_holds_ld8 [OF segment.run_pages_filled [OF r fits ps(2) m'(1) vin], of "t mod 4096"] by simp
    moreover have "vaddr \<le> vaddr + of_nat i" "unat (vaddr + of_nat i - vaddr) = i"
      using ui i assms(3) by (simp_all add: word_le_nat_alt unat_of_nat)
    ultimately show ?thesis unfolding a by (simp add: seg_byte_def)
  qed
  moreover have "\<forall>u. (\<forall>v \<in> set (page_seq ?b n). \<not> same_page u v) \<longrightarrow> virt_to_phys m' p4 u = virt_to_phys m p4 u"
    using m'(2) unfolding backed_def by blast
  ultimately show ?thesis by blast
qed

theorem segment_loaded_witness:
  "\<exists>m'. map_elf_segment 0x1000 (\<lambda>i. of_nat i) 0x800010 5 0x2000 (PTE_W OR PTE_U) sample = Some (Done (True, m')) \<and>
     ld8 0x1000 m' 0x800013 = Done 3 \<and> ld8 0x1000 m' 0x800fff = Done 0"
proof -
  have r: "room 3 0x1000 sample" using sample_ok by (simp add: room_def)
  have n: "3 = (unat (0x800010 :: u64) mod 4096 + 0x2000 + 4095) div 4096" by simp
  from segment_loaded [of "0x2000" "0x800010" "PTE_W OR PTE_U" 3 "0x1000" sample "\<lambda>i. of_nat i" 5, OF _ _ _ table_flags(2) n r]
  obtain m' where m': "map_elf_segment 0x1000 (\<lambda>i. of_nat i) 0x800010 5 0x2000 (PTE_W OR PTE_U) sample = Some (Done (True, m'))"
    "\<forall>i < 0x2000. ld8 0x1000 m' (0x800010 + of_nat i) = Done (if i < 5 then of_nat i else 0)" by (auto simp: SEG_MAX_def)
  have "ld8 0x1000 m' (0x800010 + of_nat 3) = Done 3" "ld8 0x1000 m' (0x800010 + of_nat 0xfef) = Done 0"
    using m'(2) [rule_format, of 3] m'(2) [rule_format, of "0xfef"] by simp_all
  then show ?thesis using m'(1) by simp
qed

end
