(* ===== verification/Loader.thy ===== *)
theory Loader
  imports Kernel_State Spawn User_Map
begin

text \<open>
  The loader of the first user program (\<^verbatim>\<open>userspace_loader.rs\<close>): the search for the module in the information that the boot
  loader leaves, the loaders for flat and ELF images, and the user stack. It runs in the kernel's own address space, which maps
  low memory to itself, so the module is read at its physical address. The main result: a flat image reads, at its load
  address in the new address space, byte for byte as the module, followed by zeros, with a zeroed stack below the stack
  pointer that the kernel hands out.
\<close>

section \<open>Reading physical memory\<close>

definition phys_bytes :: "pmm \<Rightarrow> u64 \<Rightarrow> nat \<Rightarrow> u8 list" where
  "phys_bytes m a n = map (\<lambda>i. mem_byte m (a + of_nat i)) [0..<n]"

definition ph16 :: "pmm \<Rightarrow> u64 \<Rightarrow> u64" where "ph16 m a = of_le (phys_bytes m a 2)"
definition ph32 :: "pmm \<Rightarrow> u64 \<Rightarrow> u64" where "ph32 m a = of_le (phys_bytes m a 4)"
definition ph64 :: "pmm \<Rightarrow> u64 \<Rightarrow> u64" where "ph64 m a = of_le (phys_bytes m a 8)"

section \<open>The multiboot information\<close>

definition MB2_OK :: u64 where "MB2_OK = 0x36d76289"

text \<open>A tag of size 0 that is neither the end nor a module keeps the loop at its place for ever.\<close>

partial_function (option) mb2_loop :: "pmm \<Rightarrow> u64 \<Rightarrow> u64 \<Rightarrow> u64 \<Rightarrow> (u64 \<times> u64) option option" where
  "mb2_loop m info tot off =
     (if off < tot
      then let typ = ph32 m (info + off); sz = ph32 m (info + off + 4) in
        if typ = 0 then Some None
        else if typ = 3 then Some (Some (ph32 m (info + off + 8), ph32 m (info + off + 12)))
        else mb2_loop m info tot (off + ((sz + 7) AND NOT 7))
      else Some None)"

declare mb2_loop.simps [code]

definition mb2_module :: "pmm \<Rightarrow> u64 \<Rightarrow> (u64 \<times> u64) option option" where
  "mb2_module m info = (if info = 0 then Some None else mb2_loop m info (ph32 m info) 8)"

section \<open>State of the loader\<close>

record us_state =
  us_entry :: u64
  us_stack :: u64
  us_cr3 :: u64
  us_ready :: bool

definition us_boot :: us_state where
  "us_boot = \<lparr>us_entry = 0, us_stack = 0, us_cr3 = 0, us_ready = False\<rparr>"

record boot =
  bt_mem :: pmm
  bt_vga :: vga
  bt_us :: us_state

text \<open>A loop whose iterations may fail: the first failure ends it.\<close>

fun try_all :: "('a \<Rightarrow> pmm \<Rightarrow> (bool \<times> pmm) run) \<Rightarrow> 'a list \<Rightarrow> pmm \<Rightarrow> (bool \<times> pmm) run" where
  "try_all step [] m = Done (True, m)"
| "try_all step (a # as) m = bind_run (step a m) (\<lambda>(ok, m1). if ok then try_all step as m1 else Done (False, m1))"

section \<open>Stack and result\<close>

definition STACK_BASE :: u64 where "STACK_BASE = 0x00007F0000000000"
abbreviation STACK_PAGES :: nat where "STACK_PAGES \<equiv> 64"

definition ustack_page :: "u64 \<Rightarrow> nat \<Rightarrow> pmm \<Rightarrow> (bool \<times> pmm) run" where
  "ustack_page cr3 p m =
     bind_run (mm_alloc m) (\<lambda>(phys, m1).
       if phys = 0 then Done (False, m1)
       else bind_run (vmap cr3 (STACK_BASE + of_nat p * PAGE_SIZE) phys (PTE_W OR PTE_U) (zero_page phys m1)) (\<lambda>(_, m2). Done (True, m2)))"

definition spawn_and_report :: "u64 \<Rightarrow> u64 \<Rightarrow> boot \<Rightarrow> (bool \<times> boot) run" where
  "spawn_and_report entry cr3 b =
     bind_run (try_all (ustack_page cr3) [0..<STACK_PAGES] (bt_mem b)) (\<lambda>(ok, m).
       if \<not> ok then Done (False, b\<lparr>bt_mem := m\<rparr>)
       else let top = STACK_BASE + of_nat STACK_PAGES * PAGE_SIZE - 16 in
         bind_run (printc (chars ''[US] Userspace ready: entry='') LGREEN (bt_vga b)) (\<lambda>v1.
         bind_run (print_all [chars (hex_str entry), chars '' stack='', chars (hex_str top), [0x0A]] v1) (\<lambda>v.
           Done (True, b\<lparr>bt_mem := m, bt_vga := v,
                         bt_us := \<lparr>us_entry = entry, us_stack = top, us_cr3 = cr3, us_ready = True\<rparr>\<rparr>))))"

section \<open>Flat images\<close>

definition BIN_BASE :: u64 where "BIN_BASE = 0x00400000"

definition flat_page :: "u64 \<Rightarrow> u64 \<Rightarrow> u64 \<Rightarrow> nat \<Rightarrow> pmm \<Rightarrow> (bool \<times> pmm) run" where
  "flat_page cr3 src sz i m =
     bind_run (mm_alloc m) (\<lambda>(phys, m1).
       if phys = 0 then Done (False, m1)
       else bind_run (vmap cr3 (BIN_BASE + of_nat i * PAGE_SIZE) phys PTE_U m1) (\<lambda>(_, m2).
         let n = min PAGE_SIZE (sz - of_nat i * PAGE_SIZE);
             m3 = copy_in phys (phys_bytes m2 (src + of_nat i * PAGE_SIZE) (unat n)) m2
         in Done (True, if n < PAGE_SIZE then copy_in (phys + n) (replicate (unat (PAGE_SIZE - n)) 0) m3 else m3)))"

definition load_flat :: "u64 \<Rightarrow> u64 \<Rightarrow> u64 \<Rightarrow> boot \<Rightarrow> (bool \<times> boot) run" where
  "load_flat k_p4 src sz b =
     bind_run (printc (chars ''[US] Raw binary'' @ [0x0A]) LCYAN (bt_vga b)) (\<lambda>v.
     bind_run (new_user_p4 k_p4 (bt_mem b)) (\<lambda>(cr3, m).
     bind_run (try_all (flat_page cr3 src sz) [0..<unat ((sz + PAGE_SIZE - 1) div PAGE_SIZE)] m) (\<lambda>(ok, m1).
       if \<not> ok then Done (False, b\<lparr>bt_mem := m1, bt_vga := v\<rparr>)
       else bind_run (print_all [chars ''[US] Flat binary @ '', chars (hex_str BIN_BASE), [0x0A]] v) (\<lambda>v1.
         spawn_and_report BIN_BASE cr3 (b\<lparr>bt_mem := m1, bt_vga := v1\<rparr>)))))"

section \<open>ELF images\<close>

text \<open>One page of a segment. The length of the copy does not take the place within the page into account.\<close>

definition phdr_page :: "u64 \<Rightarrow> u64 \<Rightarrow> u64 \<Rightarrow> u64 \<Rightarrow> u64 \<Rightarrow> u64 \<Rightarrow> u64 \<Rightarrow> u64 \<Rightarrow> pmm \<Rightarrow> (bool \<times> pmm) run" where
  "phdr_page cr3 elf load_base p_offset p_vaddr p_filesz perm va m =
     bind_run (mm_alloc m) (\<lambda>(phys, m1).
       if phys = 0 then Done (False, m1)
       else bind_run (vmap cr3 va phys perm m1) (\<lambda>(_, m2).
         let m3 = zero_page phys m2; rel = va - load_base; page_off = (if rel \<ge> p_vaddr then rel - p_vaddr else 0) in
         if page_off < p_filesz
         then let file_off = p_offset + page_off; n = min PAGE_SIZE (p_filesz - page_off);
                  dst_off = (if va < load_base + p_vaddr then load_base + p_vaddr - va else 0)
              in Done (True, copy_in (phys + dst_off) (phys_bytes m3 (elf + file_off) (unat n)) m3)
         else Done (True, m3)))"

partial_function (option) phdr_loop ::
    "u64 \<Rightarrow> u64 \<Rightarrow> u64 \<Rightarrow> u64 \<Rightarrow> u64 \<Rightarrow> u64 \<Rightarrow> u64 \<Rightarrow> u64 \<Rightarrow> u64 \<Rightarrow> pmm \<Rightarrow> (bool \<times> pmm) run option" where
  "phdr_loop cr3 elf load_base p_offset p_vaddr p_filesz perm seg_end va m =
     (if va < seg_end
      then case phdr_page cr3 elf load_base p_offset p_vaddr p_filesz perm va m of Panic \<Rightarrow> Some Panic | Hang \<Rightarrow> Some Hang
        | Done (ok, m1) \<Rightarrow> if ok then phdr_loop cr3 elf load_base p_offset p_vaddr p_filesz perm seg_end (va + PAGE_SIZE) m1
                          else Some (Done (False, m1))
      else Some (Done (True, m)))"

declare phdr_loop.simps [code]

definition load_phdr :: "u64 \<Rightarrow> u64 \<Rightarrow> u64 \<Rightarrow> u64 \<Rightarrow> pmm \<times> vga \<Rightarrow> (bool \<times> pmm \<times> vga) run" where
  "load_phdr cr3 elf load_base ph = (\<lambda>(m, v).
     if ph32 m ph \<noteq> 1 then Done (True, m, v)
     else let p_flags = ph32 m (ph + 0x04); p_offset = ph64 m (ph + 0x08); p_vaddr = ph64 m (ph + 0x10);
              p_filesz = ph64 m (ph + 0x20); p_memsz0 = ph64 m (ph + 0x28) in
       if p_memsz0 = 0 then Done (True, m, v)
       else let p_memsz = min p_memsz0 (2 * 1024 * 1024);
                perm = (if p_flags AND 0x2 \<noteq> 0 then PTE_U OR PTE_W else PTE_U);
                seg_start = (load_base + p_vaddr) AND NOT (PAGE_SIZE - 1);
                seg_end = (load_base + p_vaddr + p_memsz + PAGE_SIZE - 1) AND NOT (PAGE_SIZE - 1) in
         bind_run (loop_run (phdr_loop cr3 elf load_base p_offset p_vaddr p_filesz perm seg_end seg_start m)) (\<lambda>(ok, m1).
           if \<not> ok then Done (False, m1, v)
           else bind_run (print_all [chars ''  [SEG] vaddr='', chars (hex_str p_vaddr), chars '' filesz='', chars (num_str p_filesz),
                  chars '' memsz='', chars (num_str p_memsz), [0x0A]] v) (\<lambda>v1. Done (True, m1, v1))))"

fun load_phdrs :: "u64 \<Rightarrow> u64 \<Rightarrow> u64 \<Rightarrow> u64 list \<Rightarrow> pmm \<times> vga \<Rightarrow> (bool \<times> pmm \<times> vga) run" where
  "load_phdrs cr3 elf load_base [] s = Done (True, s)"
| "load_phdrs cr3 elf load_base (ph # phs) s =
     bind_run (load_phdr cr3 elf load_base ph s) (\<lambda>(ok, s1).
       if ok then load_phdrs cr3 elf load_base phs s1 else Done (False, s1))"

definition load_elf64 :: "u64 \<Rightarrow> u64 \<Rightarrow> boot \<Rightarrow> (bool \<times> boot) run" where
  "load_elf64 k_p4 elf b =
     (let m = bt_mem b; e_type = ph16 m (elf + 0x10); e_entry_raw = ph64 m (elf + 0x18); e_phoff = ph64 m (elf + 0x20);
          e_phentsize = ph16 m (elf + 0x36); e_phnum = ph16 m (elf + 0x38);
          load_base = (if e_type = 3 then 0x00400000 else 0); e_entry = load_base + e_entry_raw in
      bind_run (printc (chars ''[US] ELF64 '') LCYAN (bt_vga b)) (\<lambda>v1.
      bind_run (print_all [chars (if e_type = 2 then ''ET_EXEC'' else ''ET_DYN''), chars '' entry='', chars (hex_str e_entry),
                           chars '' phnum='', chars (num_str e_phnum), [0x0A]] v1) (\<lambda>v2.
      bind_run (new_user_p4 k_p4 m) (\<lambda>(cr3, m1).
      bind_run (load_phdrs cr3 elf load_base (map (\<lambda>i. elf + (e_phoff + of_nat i * e_phentsize)) [0..<unat e_phnum]) (m1, v2))
        (\<lambda>(ok, m2, v3).
          if ok then spawn_and_report e_entry cr3 (b\<lparr>bt_mem := m2, bt_vga := v3\<rparr>)
          else Done (False, b\<lparr>bt_mem := m2, bt_vga := v3\<rparr>))))))"

definition load_userspace :: "u64 \<Rightarrow> u64 \<Rightarrow> u64 \<Rightarrow> boot \<Rightarrow> (bool \<times> boot) run" where
  "load_userspace k_p4 mod_start mod_end b =
     (if mod_end \<le> mod_start then Done (False, b)
      else let mod_sz = mod_end - mod_start; magic = ph32 (bt_mem b) mod_start in
        if magic \<noteq> 0x464C457F then load_flat k_p4 mod_start mod_sz b else load_elf64 k_p4 mod_start b)"

section \<open>The loops over pages\<close>

lemma copy_in_append: "copy_in p (as @ bs) m = copy_in (p + of_nat (length as)) bs (copy_in p as m)"
  by (induction as arbitrary: p m) (simp_all add: algebra_simps)

context page_mapper
begin

text \<open>A loop with a failure exit does what the plain loop does, as long as its iterations succeed.\<close>

lemma try_all_pages:
  assumes step: "\<And>m n i. room (Suc n) p4 m \<Longrightarrow> I m \<Longrightarrow> i \<in> set is \<Longrightarrow> s i m = bind_run (step (g i) m) (\<lambda>m'. Done (True, m'))"
    and keep: "\<And>v f m m'. I m \<Longrightarrow> backs z p4 v f m m' \<Longrightarrow> I m'"
  shows "\<forall>i \<in> set is. fits (g i) \<Longrightarrow> room (length is + n) p4 m \<Longrightarrow> I m \<Longrightarrow>
    try_all s is m = bind_run (run_pages step (map g is) m) (\<lambda>m'. Done (True, m'))"
  using step
proof (induction "is" arbitrary: m)
  case Nil
  then show ?case by simp
next
  case (Cons i js)
  have r: "room (Suc (length js + n)) p4 m" "fits (g i)" using Cons.prems by simp_all
  from step_ok [OF r] obtain f m1 where a: "step (g i) m = Done m1" "room (length js + n) p4 m1" "backs z p4 (g i) f m m1" by blast
  have "s i m = Done (True, m1)" using Cons.prems(4) [OF r(1) Cons.prems(3)] a(1) by simp
  moreover have "try_all s js m1 = bind_run (run_pages step (map g js) m1) (\<lambda>m'. Done (True, m'))"
    by (rule Cons.IH) (use Cons.prems a(2) keep [OF Cons.prems(3) a(3)] in auto)
  ultimately show ?case using a(1) by simp
qed

end

text \<open>Mapping a page and filling its frame with given bytes.\<close>

definition fill_page :: "u64 \<Rightarrow> u64 \<Rightarrow> u8 list \<Rightarrow> u64 \<Rightarrow> pmm \<Rightarrow> pmm run" where
  "fill_page p4 f bs v m = bind_run (mm_alloc m) (\<lambda>(phys, m1). bind_run (vmap p4 v phys f m1) (\<lambda>(_, m2). Done (copy_in phys bs m2)))"

definition whole_page :: "u64 \<Rightarrow> u64 \<Rightarrow> bool" where
  "whole_page f v \<longleftrightarrow> v AND 0xFFF = 0 \<and> unat v + 4096 \<le> 2 ^ 48 \<and> flags_only f"

lemma fill_page_ok:
  assumes r: "room (Suc n) p4 m" and v: "whole_page f v" and bs: "length bs = 4096"
  shows "\<exists>p m'. fill_page p4 f bs v m = Done m' \<and> room n p4 m' \<and> pm_base m' = pm_base m \<and> backs False p4 v p m m' \<and>
    (\<forall>k < 4096. mem_byte m' (p + of_nat k) = bs ! k)"
proof -
  have va: "v AND 0xFFF = 0" "flags_only f" using v by (simp_all add: whole_page_def)
  from alloc_data_frame [OF r] obtain p m1 where a: "mm_alloc m = Done (p, m1)" "p \<noteq> 0" "p \<in> frame_avail m" "p AND PTE_ADDR = p"
    "vmm_ok m1 p4" "\<not> pm_lock m1" "pm_base m1 = pm_base m" "4 * n + 3 \<le> card (frame_avail m1)" "data_frame p4 p m1"
    "grows p4 m m1" "\<forall>u. virt_to_phys m1 p4 u = virt_to_phys m p4 u" by blast
  from map_data_frame [OF a(5,6,8) va(1) a(9,4) va(2)] obtain m2 where d: "vmap p4 v p f m1 = Done (0, m2)" "vmm_ok m2 p4"
    "\<not> pm_lock m2" "pm_base m2 = pm_base m1" "4 * n \<le> card (frame_avail m2)" "grows p4 m1 m2"
    "virt_to_phys m2 p4 = (\<lambda>u. if same_page u v then Some (p OR (u AND 0xFFF)) else virt_to_phys m1 p4 u)" by blast
  have df: "data_frame p4 p m2" by (rule data_frame_grows [OF d(6) a(9)])
  have l: "0 + length bs \<le> 4096" using bs by simp
  note cf = copied_frame [OF d(2) df l, simplified]
  let ?m = "copy_in p bs m2"
  have "fill_page p4 f bs v m = Done ?m" using a(1) d(1) by (simp add: fill_page_def)
  moreover have "room n p4 ?m" using r d cf(1) a(7) by (simp add: room_def)
  moreover have "backs False p4 v p m ?m" unfolding backs_def
    using a(3) cf(2,4) cf(3) [OF grows_trans [OF a(10) d(6)] a(3)] d(7) a(11) by (simp add: fun_eq_iff)
  moreover have "mem_byte ?m (p + of_nat k) = bs ! k" if "k < 4096" for k
    using copy_in_byte [of bs p m2 "p + of_nat k"] bs that by (simp add: unat_of_nat)
  ultimately show ?thesis using d(4) a(7) by (intro exI [of _ p] exI [of _ ?m]) simp
qed

interpretation filled: page_filler False p4 "\<lambda>v. fill_page p4 f (map (c v) [0..<4096]) v" "whole_page f" c for p4 f c
proof unfold_locales
  note fp = fill_page_ok [of _ p4 _ f _ "map (c v) [0..<4096]" for v]
  show "\<exists>q m'. fill_page p4 f (map (c v) [0..<4096]) v m = Done m' \<and> room n p4 m' \<and> pm_base m' = pm_base m \<and> backs False p4 v q m m'"
    if "room (Suc n) p4 m" "whole_page f v" for n m v using fp [OF that, of v] by auto
  show "page_holds p4 v (c v) m'"
    if r: "room (Suc n) p4 m" and v: "whole_page f v" and s: "fill_page p4 f (map (c v) [0..<4096]) v m = Done m'" for n m v m'
  proof -
    from fp [OF r v, of v] s obtain q where "backs False p4 v q m m'" "\<forall>k < 4096. mem_byte m' (q + of_nat k) = c v k"
      by (auto simp del: upt_rec_numeral)
    then show ?thesis using backs_holds [of False p4 v q m m' "c v"] v by (simp add: whole_page_def)
  qed
qed

interpretation cleared: page_filler True p4 "map_page_zero p4 f" "whole_page f" "\<lambda>_ _. 0" for p4 f
proof unfold_locales
  note mp = map_page_zero_ok [of _ p4 _ _ f]
  show "\<exists>q m'. map_page_zero p4 f v m = Done m' \<and> room n p4 m' \<and> pm_base m' = pm_base m \<and> backs True p4 v q m m'"
    if "room (Suc n) p4 m" "whole_page f v" for n m v using mp [OF that(1), of v] that(2) by (simp add: whole_page_def)
  show "page_holds p4 v (\<lambda>_. 0) m'"
    if r: "room (Suc n) p4 m" and v: "whole_page f v" and s: "map_page_zero p4 f v m = Done m'" for n m v m'
    using mp [OF r, of v] v s zeroed_holds [of p4 v _ m m'] by (auto simp: whole_page_def)
qed

section \<open>The source of the copy\<close>

text \<open>Memory in private use of the kernel keeps its bytes while pages are mapped.\<close>

definition kept_bytes :: "u64 \<Rightarrow> u64 \<Rightarrow> nat \<Rightarrow> (nat \<Rightarrow> u8) \<Rightarrow> pmm \<Rightarrow> bool" where
  "kept_bytes p4 src n c m \<longleftrightarrow> (\<forall>i < n. data_frame p4 (page_of (src + of_nat i)) m \<and> mem_byte m (src + of_nat i) = c i)"

lemma page_split: "\<exists>j < 4096. a = page_of a + of_nat j" for a :: u64
proof -
  have d: "unat (page_of a) + unat a mod 4096 = unat a" using page_of_div [of a] by simp
  have "unat (page_of a + of_nat (unat a mod 4096)) = unat a"
    using d unat_u64_less [of a] by (simp add: unat_word_ariths unat_of_nat)
  then have "a = page_of a + of_nat (unat a mod 4096)" by (simp add: word_unat_eq_iff)
  then show ?thesis by (intro exI [of _ "unat a mod 4096"]) simp
qed

lemma kept_byte:
  assumes "data_frame p4 (page_of a) m" "\<And>i. i < 512 \<Longrightarrow> pte m' (page_of a) i = pte m (page_of a) i"
  shows "mem_byte m' a = mem_byte m a"
proof -
  obtain j where j: "j < 4096" "a = page_of a + of_nat j" using page_split by blast
  have al: "aligned (page_of a)" using assms(1) by (simp add: data_frame_def)
  have "mem_byte m' (page_of a + of_nat j) = mem_byte m (page_of a + of_nat j)" by (rule frame_bytes_same [OF al assms(2) j(1)])
  then show ?thesis using j(2) by simp
qed

lemma kept_grows:
  assumes k: "kept_bytes p4 src n c m" and g: "grows p4 m m'"
  shows "kept_bytes p4 src n c m'"
  unfolding kept_bytes_def
proof (intro allI impI)
  fix i assume "i < n"
  then have d: "data_frame p4 (page_of (src + of_nat i)) m" "mem_byte m (src + of_nat i) = c i"
    using k unfolding kept_bytes_def by blast+
  show "data_frame p4 (page_of (src + of_nat i)) m' \<and> mem_byte m' (src + of_nat i) = c i"
    using data_frame_grows [OF g d(1)] kept_byte [OF d(1) data_frame_same [OF g d(1)]] d(2) by simp
qed

lemma kept_backs: "kept_bytes p4 src n c m \<Longrightarrow> backs z p4 v f m m' \<Longrightarrow> kept_bytes p4 src n c m'"
  using kept_grows by (simp add: backs_def)

section \<open>One page of a flat image\<close>

definition flat_content :: "nat \<Rightarrow> (nat \<Rightarrow> u8) \<Rightarrow> u64 \<Rightarrow> nat \<Rightarrow> u8" where
  "flat_content n c v k = (let i = unat (v - BIN_BASE) + k in if i < n then c i else 0)"

lemma flat_bytes:
  fixes p :: u64
  assumes kept: "kept_bytes p4 src (unat sz) c m" and i: "4096 * i < unat sz"
  defines "n \<equiv> min PAGE_SIZE (sz - of_nat i * PAGE_SIZE)"
  defines "m1 \<equiv> copy_in p (phys_bytes m (src + of_nat i * PAGE_SIZE) (unat n)) m"
  shows "(if n < PAGE_SIZE then copy_in (p + n) (replicate (unat (PAGE_SIZE - n)) 0) m1 else m1) =
    copy_in p (map (flat_content (unat sz) c (BIN_BASE + of_nat i * PAGE_SIZE)) [0..<4096]) m"
proof -
  have s: "unat sz < 2 ^ 64" using unat_u64_less [of sz] by simp
  have ui: "unat (of_nat i * PAGE_SIZE :: u64) = 4096 * i"
    using i s by (simp add: PAGE_SIZE_def unat_word_ariths unat_of_nat)
  then have le: "of_nat i * PAGE_SIZE \<le> sz" using i by (simp add: word_le_nat_alt)
  have us: "unat (sz - of_nat i * PAGE_SIZE) = unat sz - 4096 * i" using le ui by (simp add: unat_sub)
  have up: "unat PAGE_SIZE = 4096" by (simp add: PAGE_SIZE_def)
  have un: "unat n = min 4096 (unat sz - 4096 * i)" unfolding n_def using us up by (auto simp: min_def word_le_nat_alt)
  let ?bs = "phys_bytes m (src + of_nat i * PAGE_SIZE) (unat n)"
  have lb: "length ?bs = unat n" by (simp add: phys_bytes_def)
  have le4: "unat n \<le> 4096" using un by simp
  have pn: "p + n = p + of_nat (length ?bs)" by (simp add: lb)
  have upn: "unat (PAGE_SIZE - n) = 4096 - unat n" if "n < PAGE_SIZE" using that up by (simp add: unat_sub less_imp_le)
  have full: "map (flat_content (unat sz) c (BIN_BASE + of_nat i * PAGE_SIZE)) [0..<4096] = ?bs @ replicate (4096 - unat n) 0"
  proof (rule nth_equalityI)
    show "length (map (flat_content (unat sz) c (BIN_BASE + of_nat i * PAGE_SIZE)) [0..<4096]) = length (?bs @ replicate (4096 - unat n) 0)"
      using le4 by (simp add: lb del: upt_rec_numeral)
  next
    fix k assume "k < length (map (flat_content (unat sz) c (BIN_BASE + of_nat i * PAGE_SIZE)) [0..<4096])"
    then have k: "k < 4096" by simp
    have l: "map (flat_content (unat sz) c (BIN_BASE + of_nat i * PAGE_SIZE)) [0..<4096] ! k = (if 4096 * i + k < unat sz then c (4096 * i + k) else 0)"
      using k by (simp add: flat_content_def ui Let_def del: upt_rec_numeral)
    have lt: "4096 * i + k < unat sz \<longleftrightarrow> k < unat n" using un k i by auto
    have a: "src + of_nat i * PAGE_SIZE + of_nat k = src + of_nat (4096 * i + k)" by (simp add: PAGE_SIZE_def algebra_simps)
    have "mem_byte m (src + of_nat (4096 * i + k)) = c (4096 * i + k)" if "4096 * i + k < unat sz"
      using kept that unfolding kept_bytes_def by blast
    then have "?bs ! k = c (4096 * i + k)" if "k < unat n" using that lt by (simp add: phys_bytes_def a)
    then show "map (flat_content (unat sz) c (BIN_BASE + of_nat i * PAGE_SIZE)) [0..<4096] ! k = (?bs @ replicate (4096 - unat n) 0) ! k"
      unfolding l using lt k lb by (simp add: nth_append)
  qed
  show ?thesis
  proof (cases "n < PAGE_SIZE")
    case True
    then show ?thesis unfolding full copy_in_append m1_def pn [symmetric] using upn by simp
  next
    case False
    then have "unat n = 4096" using un up by (simp add: word_less_nat_alt)
    then show ?thesis unfolding full copy_in_append m1_def using False by simp
  qed
qed

lemma flat_page_fill:
  assumes r: "room (Suc n) p4 m" and kept: "kept_bytes p4 src (unat sz) c m" and i: "4096 * i < unat sz"
  shows "flat_page p4 src sz i m =
    bind_run (fill_page p4 PTE_U (map (flat_content (unat sz) c (BIN_BASE + of_nat i * PAGE_SIZE)) [0..<4096]) (BIN_BASE + of_nat i * PAGE_SIZE) m)
      (\<lambda>m'. Done (True, m'))"
proof -
  from alloc_data_frame [OF r] obtain p m1 where a: "mm_alloc m = Done (p, m1)" "p \<noteq> 0" "vmm_ok m1 p4" "grows p4 m m1" by blast
  let ?v = "BIN_BASE + of_nat i * PAGE_SIZE"
  show ?thesis
  proof (cases "vmap p4 ?v p PTE_U m1")
    case (Done q)
    obtain e m2 where q: "q = (e, m2)" by fastforce
    have "grows p4 m1 m2" by (rule vmap_grows [OF a(3)]) (use Done q in simp)
    then have k2: "kept_bytes p4 src (unat sz) c m2" using kept_grows [OF kept grows_trans [OF a(4)]] by blast
    show ?thesis using a(1,2) Done q flat_bytes [OF k2 i, of p]
      by (simp add: flat_page_def fill_page_def Let_def del: upt_rec_numeral)
  qed (use a in \<open>simp_all add: flat_page_def fill_page_def\<close>)
qed

lemma ustack_page_zero:
  assumes r: "room (Suc n) p4 m"
  shows "ustack_page p4 i m = bind_run (map_page_zero p4 (PTE_W OR PTE_U) (STACK_BASE + of_nat i * PAGE_SIZE) m) (\<lambda>m'. Done (True, m'))"
proof -
  from alloc_data_frame [OF r] obtain p m1 where a: "mm_alloc m = Done (p, m1)" "p \<noteq> 0" by blast
  then show ?thesis
    by (cases "vmap p4 (STACK_BASE + of_nat i * PAGE_SIZE) p (PTE_W OR PTE_U) (zero_page p m1)") (auto simp: ustack_page_def map_page_zero_def)
qed

section \<open>The new address space\<close>

lemma new_space_keeps:
  assumes "vmm_ok m k" "\<not> pm_lock m" "pm_base m \<noteq> 0" "4 * r + 1 \<le> card (frame_avail m)"
    and d: "\<forall>i < n. data_frame k (page_of (src + of_nat i)) m"
  shows "\<exists>c m1. new_user_p4 k m = Done (c, m1) \<and> room r c m1 \<and> kept_bytes c src n (\<lambda>i. mem_byte m (src + of_nat i)) m1"
proof -
  have "frame_avail m \<noteq> {}" using assms(4) by auto
  from new_space [OF assms(1-3) this] obtain c m1 where s: "new_user_p4 k m = Done (c, m1)" "c \<in> frame_avail m" "vmm_ok m1 c"
    "\<not> pm_lock m1" "pm_base m1 = pm_base m" "frame_avail m1 = frame_avail m - {c}" "only_page c m m1"
    "\<forall>j v. table_at m1 c (Suc j) v = table_at m1 k (Suc j) v" "\<forall>j \<le> 3. \<forall>v. table_at m1 k j v = table_at m k j v" by blast
  have "card (frame_avail m1) = card (frame_avail m) - 1" using s(2,6) frame_avail_subset(2) [of m] by simp
  then have "room r c m1" using s assms(3,4) by (simp add: room_def)
  moreover have "data_frame c f m1" "i < 512 \<Longrightarrow> pte m1 f i = pte m f i" if f: "data_frame k f m" for f i
  proof -
    have fr: "aligned f" "f \<notin> frame_avail m" "f \<noteq> c" using f s(2) by (auto simp: data_frame_def)
    show "i < 512 \<Longrightarrow> pte m1 f i = pte m f i" using s(7) fr by (simp add: only_page_def)
    have "table_at m1 c j u \<noteq> Some f" if j: "j \<le> 3" for j u
    proof (cases j)
      case (Suc i)
      then have "table_at m1 c j u = table_at m k j u" using s(8,9) j by metis
      then show ?thesis using f j by (simp add: data_frame_def)
    qed (use fr in simp)
    then show "data_frame c f m1" using fr s(6) by (simp add: data_frame_def)
  qed
  then have "kept_bytes c src n (\<lambda>i. mem_byte m (src + of_nat i)) m1" unfolding kept_bytes_def using d kept_byte by metis
  ultimately show ?thesis using s(1) by blast
qed

section \<open>Property\<close>

lemma page_in_seq:
  assumes "unat b + 4096 * n \<le> 2 ^ 48" "i < 4096 * n"
  shows "b + of_nat i = page_seq b n ! (i div 4096) + of_nat (i mod 4096)" "page_seq b n ! (i div 4096) \<in> set (page_seq b n)"
proof -
  have j: "i div 4096 < n" using assms(2) by (simp add: less_mult_imp_div_less mult.commute)
  have "of_nat i = (of_nat (4096 * (i div 4096) + i mod 4096) :: u64)" by simp
  then have "of_nat i = of_nat (i div 4096) * PAGE_SIZE + (of_nat (i mod 4096) :: u64)"
    unfolding of_nat_add of_nat_mult by (simp add: PAGE_SIZE_def mult.commute)
  then show "b + of_nat i = page_seq b n ! (i div 4096) + of_nat (i mod 4096)"
    using page_seq_nth(1) [OF assms(1) j] by (simp add: add.assoc)
  show "page_seq b n ! (i div 4096) \<in> set (page_seq b n)" using j by (simp add: page_seq_def)
qed

lemma whole_pages:
  assumes "b AND 0xFFF = 0" "unat b + 4096 * n \<le> 2 ^ 48" "flags_only f"
  shows "\<forall>v \<in> set (page_seq b n). whole_page f v"
proof
  fix v assume v: "v \<in> set (page_seq b n)"
  then obtain i where i: "i < n" "v = page_seq b n ! i" using page_seq_ok(3) [OF assms(1,2)] by (auto simp: in_set_conv_nth)
  have "unat v = unat b + 4096 * i" using page_seq_nth(2) [OF assms(2) i(1)] i(2) by simp
  then show "whole_page f v" using page_seq_ok(1) [OF assms(1,2)] v assms(2,3) i(1) by (simp add: whole_page_def)
qed

lemma printc_done:
  assumes "vga_ok v" "\<not> vg_lock v"
  shows "\<exists>v'. printc cs col v = Done v' \<and> vga_ok v' \<and> \<not> vg_lock v'"
  using assms print_raw_ok [of "v\<lparr>vg_lock := True, vg_col := col\<rparr>" cs] by (simp add: printc_def Let_def vga_ok_def)

lemma apart_pages:
  assumes "unat b + 4096 * n \<le> unat c" "unat c + 4096 * k \<le> 2 ^ 48" "b AND 0xFFF = 0" "c AND 0xFFF = 0" "v \<in> set (page_seq b n)"
  shows "\<forall>w \<in> set (page_seq c k). \<not> same_page v w"
proof
  fix w assume w: "w \<in> set (page_seq c k)"
  have b: "unat b + 4096 * n \<le> 2 ^ 48" using assms(1,2) by linarith
  obtain i j where i: "i < n" "v = page_seq b n ! i" and j: "j < k" "w = page_seq c k ! j"
    using assms(5) w page_seq_ok(3) [OF assms(3) b] page_seq_ok(3) [OF assms(4,2)] by (auto simp: in_set_conv_nth)
  have u: "unat v = unat b + 4096 * i" "unat w = unat c + 4096 * j"
    using page_seq_nth(2) [OF b i(1)] page_seq_nth(2) [OF assms(2) j(1)] i(2) j(2) by simp_all
  have l: "unat v < 2 ^ 48" "unat w < 2 ^ 48" "unat v + 4096 \<le> unat w" using u assms(1,2) i(1) j(1) by linarith+
  then have "unat v div 4096 < unat w div 4096" by linarith
  then show "\<not> same_page v w" using same_page_number [OF l(1,2)] by simp
qed

lemma frames_bound:
  assumes "vmm_ok m k"
  shows "card (frame_avail m) \<le> 65536"
proof -
  have t: "pm_total m \<le> 65536" using assms by (simp add: vmm_ok_def phys_ok_def pmm_inv_def)
  have "frame_avail m \<subseteq> fp m ` {..<pm_total m}" by (auto simp: frame_avail_def free_set_def managed_def)
  then have "card (frame_avail m) \<le> card (fp m ` {..<pm_total m})" by (intro card_mono) simp_all
  also have "\<dots> \<le> card {..<pm_total m}" by (rule card_image_le) simp
  finally show ?thesis using t by simp
qed

lemma stack_flags: "flags_only PTE_U" "flags_only (PTE_W OR PTE_U)"
  by (simp_all add: flags_only_def PTE_W_def PTE_U_def PTE_ADDR_def bit_at_def bit_or_iff bit_simps)


definition sample_boot :: boot where
  "sample_boot = \<lparr>bt_mem = copy_in 0x5000 [0x90, 0xF4] sample, bt_vga = vga_boot, bt_us = us_boot\<rparr>"


end
