(* ===== verification/Usb_Hid.thy ===== *)
theory Usb_Hid
  imports Keyboard
begin

text \<open>
  USB human interface devices (\<^verbatim>\<open>usb/hid.rs\<close>): the device table, the configuration descriptor parser, the classification
  of a device, and the report handlers of keyboard, mouse and audio controls. Signed bytes and 16-bit positions are integers
  with the saturation written out; a report is its list of bytes.
\<close>

section \<open>Constants and devices\<close>

definition USB_CLASS_HID :: u8 where "USB_CLASS_HID = 0x03"
definition USB_CLASS_AUDIO :: u8 where "USB_CLASS_AUDIO = 0x01"
definition USB_SUB_BOOT :: u8 where "USB_SUB_BOOT = 0x01"
definition USB_PROTO_KB :: u8 where "USB_PROTO_KB = 0x01"
definition USB_PROTO_MOUSE :: u8 where "USB_PROTO_MOUSE = 0x02"
definition DESC_INTERFACE :: u8 where "DESC_INTERFACE = 0x04"
definition DESC_ENDPOINT :: u8 where "DESC_ENDPOINT = 0x05"

datatype dev_class = Dev_Unknown | Dev_Keyboard | Dev_Mouse | Dev_AudioControl | Dev_Hub

record usb_device =
  ud_slot :: u8
  ud_class :: dev_class
  ud_speed :: u8
  ud_addr :: u8
  ud_ep_in :: u8
  ud_ep_in_mps :: u16
  ud_active :: bool
  ud_vid :: u16
  ud_pid :: u16
  ud_subclass :: u8
  ud_protocol :: u8

definition usb_device_empty :: usb_device where
  "usb_device_empty = \<lparr>ud_slot = 0, ud_class = Dev_Unknown, ud_speed = 0, ud_addr = 0, ud_ep_in = 0, ud_ep_in_mps = 8,
     ud_active = False, ud_vid = 0, ud_pid = 0, ud_subclass = 0, ud_protocol = 0\<rparr>"

abbreviation MAX_USB_DEVICES :: nat where "MAX_USB_DEVICES \<equiv> 16"

record dev_table =
  dt_devices :: "usb_device list"
  dt_ndev :: nat

definition dev_table_boot :: dev_table where
  "dev_table_boot = \<lparr>dt_devices = replicate MAX_USB_DEVICES usb_device_empty, dt_ndev = 0\<rparr>"

definition dev_alloc :: "u8 \<Rightarrow> dev_table \<Rightarrow> nat option \<times> dev_table" where
  "dev_alloc s t =
     (case List.find (\<lambda>i. \<not> ud_active (dt_devices t ! i)) [0..<MAX_USB_DEVICES] of
        Some i \<Rightarrow> (Some i, t\<lparr>dt_devices := (dt_devices t)[i := usb_device_empty\<lparr>ud_slot := s, ud_active := True\<rparr>],
                            dt_ndev := dt_ndev t + 1\<rparr>)
      | None \<Rightarrow> (None, t))"

definition dev_free :: "u8 \<Rightarrow> dev_table \<Rightarrow> dev_table" where
  "dev_free s t =
     (case List.find (\<lambda>i. ud_active (dt_devices t ! i) \<and> ud_slot (dt_devices t ! i) = s) [0..<MAX_USB_DEVICES] of
        Some i \<Rightarrow> t\<lparr>dt_devices := (dt_devices t)[i := (dt_devices t ! i)\<lparr>ud_active := False\<rparr>],
                    dt_ndev := (if dt_ndev t > 0 then dt_ndev t - 1 else dt_ndev t)\<rparr>
      | None \<Rightarrow> t)"

section \<open>Configuration descriptors\<close>

record parsed_config =
  pc_class :: u8
  pc_subclass :: u8
  pc_protocol :: u8
  pc_ep_in :: u8
  pc_ep_mps :: u16
  pc_ep_interval :: u8
  pc_has_audio :: bool

definition parsed_default :: parsed_config where
  "parsed_default = \<lparr>pc_class = 0, pc_subclass = 0, pc_protocol = 0, pc_ep_in = 0, pc_ep_mps = 0, pc_ep_interval = 0,
     pc_has_audio = False\<rparr>"

definition le16 :: "u8 \<Rightarrow> u8 \<Rightarrow> u16" where
  "le16 lo hi = ucast lo OR push_bit 8 (ucast hi)"

text \<open>One descriptor \<open>d\<close>; its type byte is read from the buffer, so that a descriptor of one byte has one too.\<close>

definition parse_interface :: "u8 list \<Rightarrow> parsed_config \<Rightarrow> parsed_config" where
  "parse_interface d r =
     (let ic = d ! 5; isc = d ! 6; ipr = d ! 7;
          r1 = (if ic = USB_CLASS_HID then r\<lparr>pc_class := ic, pc_subclass := isc, pc_protocol := ipr\<rparr> else r)
      in if ic = USB_CLASS_AUDIO then r1\<lparr>pc_has_audio := True\<rparr> else r1)"

definition parse_endpoint :: "u8 list \<Rightarrow> parsed_config \<Rightarrow> parsed_config" where
  "parse_endpoint d r =
     (let addr = d ! 2; at = d ! 3; mps = le16 (d ! 4) (d ! 5); interval = d ! 6 in
      if at AND 0x03 = 0x03 \<and> addr AND 0x80 \<noteq> 0 \<and> pc_ep_in r = 0
      then r\<lparr>pc_ep_in := addr AND 0x0F, pc_ep_mps := mps, pc_ep_interval := interval\<rparr> else r)"

definition parse_one :: "u8 \<Rightarrow> u8 list \<Rightarrow> parsed_config \<Rightarrow> parsed_config" where
  "parse_one typ d r =
     (if typ = DESC_INTERFACE \<and> length d \<ge> 9 then parse_interface d r
      else if typ = DESC_ENDPOINT \<and> length d \<ge> 7 then parse_endpoint d r
      else r)"

function parse_loop :: "u8 list \<Rightarrow> nat \<Rightarrow> parsed_config \<Rightarrow> parsed_config" where
  "parse_loop buf i r =
     (if i + 2 \<le> length buf
      then let len = unat (buf ! i) in
           if len = 0 \<or> i + len > length buf then r
           else parse_loop buf (i + len) (parse_one (buf ! (i + 1)) (take len (drop i buf)) r)
      else r)"
  by pat_completeness auto
termination
  by (relation "measure (\<lambda>(buf, i, r). length buf - i)") auto

declare parse_loop.simps [simp del]

definition parse_config_descriptor :: "u8 list \<Rightarrow> parsed_config" where
  "parse_config_descriptor buf = parse_loop buf 0 parsed_default"

definition classify :: "parsed_config \<Rightarrow> u8 \<Rightarrow> dev_class" where
  "classify cfg speed =
     (if pc_has_audio cfg then Dev_AudioControl
      else let c = pc_class cfg; sub = pc_subclass cfg; p = pc_protocol cfg in
        if c = USB_CLASS_HID \<and> sub = USB_SUB_BOOT \<and> p = USB_PROTO_KB then Dev_Keyboard
        else if c = USB_CLASS_HID \<and> sub = USB_SUB_BOOT \<and> p = USB_PROTO_MOUSE then Dev_Mouse
        else if c = USB_CLASS_HID \<and> p = USB_PROTO_KB then Dev_Keyboard
        else if c = USB_CLASS_HID \<and> p = USB_PROTO_MOUSE then Dev_Mouse
        else if c = 0 \<and> sub = 0 \<and> p = 0
        then if speed = 1 \<or> speed = 2 then Dev_Keyboard else Dev_Mouse
        else Dev_Unknown)"

section \<open>Keyboard reports\<close>

definition HID_NORM :: "u8 list" where
  "HID_NORM =
     [0, 0, 0, 0,
      0x61, 0x62, 0x63, 0x64, 0x65, 0x66, 0x67, 0x68, 0x69, 0x6A, 0x6B, 0x6C, 0x6D, 0x6E, 0x6F, 0x70,
      0x71, 0x72, 0x73, 0x74, 0x75, 0x76, 0x77, 0x78, 0x79, 0x7A,
      0x31, 0x32, 0x33, 0x34, 0x35, 0x36, 0x37, 0x38, 0x39, 0x30,
      0x0A, 0x1B, 0x08, 0x09, 0x20,
      0x2D, 0x3D, 0x5B, 0x5D, 0x5C, 0, 0x3B, 0x27, 0x60, 0x2C, 0x2E, 0x2F,
      0] @ replicate 46 0"

definition HID_SHFT :: "u8 list" where
  "HID_SHFT =
     [0, 0, 0, 0,
      0x41, 0x42, 0x43, 0x44, 0x45, 0x46, 0x47, 0x48, 0x49, 0x4A, 0x4B, 0x4C,
      0x4D, 0x4E, 0x4F, 0x50, 0x51, 0x52, 0x53, 0x54, 0x55, 0x56, 0x57, 0x58, 0x59, 0x5A,
      0x21, 0x40, 0x23, 0x24, 0x25, 0x5E, 0x26, 0x2A, 0x28, 0x29,
      0x0A, 0x1B, 0x08, 0x09, 0x20,
      0x5F, 0x2B, 0x7B, 0x7D, 0x7C, 0, 0x3A, 0x22, 0x7E, 0x3C, 0x3E, 0x3F,
      0] @ replicate 46 0"

fun hid_keys :: "u8 list \<Rightarrow> u8 \<Rightarrow> u8 list \<Rightarrow> kbd \<Rightarrow> kbd run" where
  "hid_keys prev mods [] kb = Done kb"
| "hid_keys prev mods (k # ks) kb =
     (let shift = mods AND 0x22 \<noteq> 0; ctrl = mods AND 0x11 \<noteq> 0 in
      if k < 4 then hid_keys prev mods ks kb
      else if k \<in> set (drop 2 prev) then hid_keys prev mods ks kb
      else if unat k \<ge> length HID_NORM then hid_keys prev mods ks kb
      else if ctrl \<and> k = 0x06 then bind_run (input_push 0x03 kb) (hid_keys prev mods ks)
      else if ctrl \<and> k = 0x07 then bind_run (input_push 0x04 kb) (hid_keys prev mods ks)
      else if ctrl \<and> k = 0x08 then bind_run (input_push 0x08 kb) (hid_keys prev mods ks)
      else bind_run (arr_get (if shift then HID_SHFT else HID_NORM) (unat k)) (\<lambda>c.
        if c \<noteq> 0 then bind_run (input_push c kb) (hid_keys prev mods ks) else hid_keys prev mods ks kb))"

section \<open>State of the report handlers\<close>

record mouse =
  ms_buttons :: u8
  ms_x :: int
  ms_y :: int
  ms_dx :: int
  ms_dy :: int
  ms_scroll :: int
  ms_changed :: bool

record audio_state =
  au_volume :: int
  au_muted :: bool
  au_play_pause :: bool
  au_next :: bool
  au_prev :: bool
  au_stop :: bool
  au_changed :: bool

record hid =
  hd_prev :: "u8 list"
  hd_kbd :: kbd
  hd_mouse :: mouse
  hd_audio :: audio_state

definition mouse_boot :: mouse where
  "mouse_boot = \<lparr>ms_buttons = 0, ms_x = 0, ms_y = 0, ms_dx = 0, ms_dy = 0, ms_scroll = 0, ms_changed = False\<rparr>"

definition audio_boot :: audio_state where
  "audio_boot = \<lparr>au_volume = 0, au_muted = False, au_play_pause = False, au_next = False, au_prev = False, au_stop = False,
     au_changed = False\<rparr>"

definition hid_boot :: hid where
  "hid_boot = \<lparr>hd_prev = replicate 8 0, hd_kbd = kbd_boot, hd_mouse = mouse_boot, hd_audio = audio_boot\<rparr>"

definition hid_kb :: "u8 list \<Rightarrow> hid \<Rightarrow> hid run" where
  "hid_kb rep s =
     (if rep = hd_prev s then Done s
      else bind_run (hid_keys (hd_prev s) (rep ! 0) (drop 2 rep) (hd_kbd s)) (\<lambda>kb.
        Done (s\<lparr>hd_kbd := kb, hd_prev := rep\<rparr>)))"

text \<open>\<open>saturating_add\<close> of a signed integer of \<open>w\<close> bits.\<close>

definition saturate :: "nat \<Rightarrow> int \<Rightarrow> int" where
  "saturate w v = max (- (2 ^ (w - 1))) (min (2 ^ (w - 1) - 1) v)"

definition hid_mouse :: "u8 list \<Rightarrow> mouse \<Rightarrow> mouse" where
  "hid_mouse rep m =
     (if length rep < 3 then m
      else m\<lparr>ms_buttons := rep ! 0, ms_dx := sint (rep ! 1), ms_dy := sint (rep ! 2),
             ms_scroll := (if length rep > 3 then sint (rep ! 3) else 0),
             ms_x := saturate 16 (ms_x m + sint (rep ! 1)), ms_y := saturate 16 (ms_y m + sint (rep ! 2)),
             ms_changed := True\<rparr>)"

definition mouse_reset_delta :: "mouse \<Rightarrow> mouse" where
  "mouse_reset_delta m = m\<lparr>ms_dx := 0, ms_dy := 0, ms_scroll := 0, ms_changed := False\<rparr>"

definition hid_audio :: "u8 list \<Rightarrow> audio_state \<Rightarrow> audio_state" where
  "hid_audio rep a =
     (if length rep < 2 then a
      else let usage = le16 (rep ! 0) (rep ! 1); a1 = a\<lparr>au_changed := True\<rparr> in
        if usage = 0x00E2 then a1\<lparr>au_muted := \<not> au_muted a1\<rparr>
        else if usage = 0x00E9 then a1\<lparr>au_volume := saturate 8 (au_volume a1 + 5)\<rparr>
        else if usage = 0x00EA then a1\<lparr>au_volume := saturate 8 (au_volume a1 - 5)\<rparr>
        else if usage = 0x00CD then a1\<lparr>au_play_pause := True\<rparr>
        else if usage = 0x00B5 then a1\<lparr>au_next := True\<rparr>
        else if usage = 0x00B6 then a1\<lparr>au_prev := True\<rparr>
        else if usage = 0x00B7 then a1\<lparr>au_stop := True\<rparr>
        else a1\<lparr>au_changed := False\<rparr>)"

definition audio_reset :: "audio_state \<Rightarrow> audio_state" where
  "audio_reset a = a\<lparr>au_play_pause := False, au_next := False, au_prev := False, au_stop := False, au_changed := False\<rparr>"

definition hid_dispatch :: "dev_class \<Rightarrow> u8 list \<Rightarrow> hid \<Rightarrow> hid run" where
  "hid_dispatch c data s =
     (case c of
        Dev_Keyboard \<Rightarrow> if length data \<ge> 8 then hid_kb (take 8 data) s else Done s
      | Dev_Mouse \<Rightarrow> Done (s\<lparr>hd_mouse := hid_mouse data (hd_mouse s)\<rparr>)
      | Dev_AudioControl \<Rightarrow> Done (s\<lparr>hd_audio := hid_audio data (hd_audio s)\<rparr>)
      | _ \<Rightarrow> Done s)"

section \<open>What the parser reads\<close>

text \<open>A descriptor starts with its length; what follows the last complete descriptor ends the search.\<close>

definition wf_desc :: "u8 list \<Rightarrow> bool" where
  "wf_desc d \<longleftrightarrow> 2 \<le> length d \<and> unat (d ! 0) = length d"

definition ends_search :: "u8 list \<Rightarrow> bool" where
  "ends_search junk \<longleftrightarrow> length junk < 2 \<or> junk ! 0 = 0 \<or> length junk < unat (junk ! 0)"

definition interface_of :: "u8 \<Rightarrow> u8 list \<Rightarrow> bool" where
  "interface_of c d \<longleftrightarrow> d ! 1 = DESC_INTERFACE \<and> 9 \<le> length d \<and> d ! 5 = c"

definition interrupt_in :: "u8 list \<Rightarrow> bool" where
  "interrupt_in d \<longleftrightarrow> d ! 1 = DESC_ENDPOINT \<and> 7 \<le> length d \<and> d ! 3 AND 0x03 = 0x03 \<and> d ! 2 AND 0x80 \<noteq> 0"

definition parse_desc :: "u8 list \<Rightarrow> parsed_config \<Rightarrow> parsed_config" where
  "parse_desc d = parse_one (d ! 1) d"

lemma parse_loop_concat:
  assumes "\<forall>d \<in> set ds. wf_desc d" "ends_search junk"
  shows "parse_loop (pre @ concat ds @ junk) (length pre) r = fold parse_desc ds r"
  using assms(1)
proof (induction ds arbitrary: pre r)
  case Nil
  show ?case using assms(2) by (subst parse_loop.simps) (auto simp: ends_search_def nth_append Let_def unat_eq_zero)
next
  case (Cons d ds)
  let ?buf = "pre @ concat (d # ds) @ junk"
  have d: "2 \<le> length d" "unat (d ! 0) = length d" using Cons.prems by (auto simp: wf_desc_def)
  have n: "?buf ! length pre = d ! 0" "?buf ! Suc (length pre) = d ! 1" "take (length d) (drop (length pre) ?buf) = d"
    using d(1) by (auto simp: nth_append)
  have "parse_loop ?buf (length pre) r = parse_loop ?buf (length pre + length d) (parse_desc d r)"
    using d n by (subst parse_loop.simps) (auto simp: Let_def parse_desc_def)
  then show ?case using Cons.IH [of "pre @ d"] Cons.prems by simp
qed

lemma parse_one_audio:
  "pc_has_audio (parse_desc d r) \<longleftrightarrow> pc_has_audio r \<or> interface_of USB_CLASS_AUDIO d"
  by (auto simp: parse_desc_def parse_one_def parse_interface_def parse_endpoint_def interface_of_def Let_def USB_CLASS_HID_def USB_CLASS_AUDIO_def)

definition pc_ident :: "parsed_config \<Rightarrow> u8 \<times> u8 \<times> u8" where
  "pc_ident r = (pc_class r, pc_subclass r, pc_protocol r)"

definition pc_endpoint :: "parsed_config \<Rightarrow> u8 \<times> u16 \<times> u8" where
  "pc_endpoint r = (pc_ep_in r, pc_ep_mps r, pc_ep_interval r)"

lemma parse_one_ident:
  "pc_ident (parse_desc d r) = (if interface_of USB_CLASS_HID d then (d ! 5, d ! 6, d ! 7) else pc_ident r)"
  by (auto simp: parse_desc_def parse_one_def parse_interface_def parse_endpoint_def interface_of_def Let_def USB_CLASS_HID_def USB_CLASS_AUDIO_def
    pc_ident_def)

lemma parse_one_endpoint:
  "pc_endpoint (parse_desc d r) =
     (if interrupt_in d \<and> pc_ep_in r = 0 then (d ! 2 AND 0x0F, le16 (d ! 4) (d ! 5), d ! 6) else pc_endpoint r)"
  by (auto simp: parse_desc_def parse_one_def parse_interface_def parse_endpoint_def interrupt_in_def Let_def pc_endpoint_def
    DESC_ENDPOINT_def DESC_INTERFACE_def)

lemma fold_audio: "pc_has_audio (fold parse_desc ds r) \<longleftrightarrow> pc_has_audio r \<or> (\<exists>d \<in> set ds. interface_of USB_CLASS_AUDIO d)"
  by (induction ds arbitrary: r) (auto simp: parse_one_audio)

lemma fold_ident:
  "pc_ident (fold parse_desc ds r) =
     (case List.find (interface_of USB_CLASS_HID) (rev ds) of None \<Rightarrow> pc_ident r | Some d \<Rightarrow> (d ! 5, d ! 6, d ! 7))"
  by (induction ds rule: rev_induct) (simp_all add: parse_one_ident)

lemma fold_endpoint:
  assumes "\<forall>d \<in> set ds. interrupt_in d \<longrightarrow> d ! 2 AND 0x0F \<noteq> 0"
  shows "pc_endpoint (fold parse_desc ds r) =
     (if pc_ep_in r \<noteq> 0 then pc_endpoint r
      else case List.find interrupt_in ds of None \<Rightarrow> pc_endpoint r | Some d \<Rightarrow> (d ! 2 AND 0x0F, le16 (d ! 4) (d ! 5), d ! 6))"
  using assms
proof (induction ds arbitrary: r)
  case Nil
  then show ?case by simp
next
  case (Cons d ds)
  let ?r = "parse_desc d r"
  have e: "pc_ep_in r = fst (pc_endpoint r)" for r by (simp add: pc_endpoint_def)
  have nz: "d ! 2 AND 0x0F \<noteq> 0" if "interrupt_in d" using Cons.prems that by simp
  have IH: "pc_endpoint (fold parse_desc ds ?r) =
     (if pc_ep_in ?r \<noteq> 0 then pc_endpoint ?r
      else case List.find interrupt_in ds of None \<Rightarrow> pc_endpoint ?r | Some d \<Rightarrow> (d ! 2 AND 0x0F, le16 (d ! 4) (d ! 5), d ! 6))"
    using Cons.IH [of ?r] Cons.prems by simp
  show ?case
  proof (cases "interrupt_in d \<and> pc_ep_in r = 0")
    case True
    then have p: "pc_endpoint ?r = (d ! 2 AND 0x0F, le16 (d ! 4) (d ! 5), d ! 6)" by (simp add: parse_one_endpoint)
    then have "pc_ep_in ?r \<noteq> 0" using nz True by (simp add: e)
    then show ?thesis using True IH p by simp
  next
    case False
    then have p: "pc_endpoint ?r = pc_endpoint r" by (simp only: parse_one_endpoint if_False)
    then have "pc_ep_in ?r = pc_ep_in r" by (simp add: e)
    then show ?thesis using False IH p by (auto cong: option.case_cong)
  qed
qed

text \<open>
  The configuration descriptor parser stops on every input and, on a buffer that holds descriptors one after the other (the
  last possibly truncated), takes the class, subclass and protocol of the last HID interface, the number, packet size and
  interval of the first interrupt IN endpoint, and notes whether any interface is an audio interface.
\<close>

theorem descriptors_parsed:
  assumes "\<forall>d \<in> set ds. wf_desc d" "ends_search junk" "\<forall>d \<in> set ds. interrupt_in d \<longrightarrow> d ! 2 AND 0x0F \<noteq> 0"
  defines "r \<equiv> parse_config_descriptor (concat ds @ junk)"
  shows "(pc_has_audio r \<longleftrightarrow> (\<exists>d \<in> set ds. interface_of USB_CLASS_AUDIO d)) \<and>
    (pc_class r, pc_subclass r, pc_protocol r) =
      (case List.find (interface_of USB_CLASS_HID) (rev ds) of None \<Rightarrow> (0, 0, 0) | Some d \<Rightarrow> (d ! 5, d ! 6, d ! 7)) \<and>
    (pc_ep_in r, pc_ep_mps r, pc_ep_interval r) =
      (case List.find interrupt_in ds of None \<Rightarrow> (0, 0, 0) | Some d \<Rightarrow> (d ! 2 AND 0x0F, le16 (d ! 4) (d ! 5), d ! 6))"
proof -
  have r: "r = fold parse_desc ds parsed_default"
    using parse_loop_concat [OF assms(1,2), of "[]"] by (simp add: r_def parse_config_descriptor_def)
  show ?thesis
    using fold_audio [of ds parsed_default] fold_ident [of ds parsed_default] fold_endpoint [OF assms(3), of parsed_default]
    unfolding r by (simp add: pc_ident_def pc_endpoint_def parsed_default_def cong: option.case_cong)
qed

text \<open>The configuration of a boot keyboard: configuration, interface, HID and endpoint descriptor.\<close>

definition sample_config :: "u8 list list" where
  "sample_config =
     [[9, 2, 34, 0, 1, 1, 0, 0xA0, 50], [9, 4, 0, 0, 1, 3, 1, 1, 0], [9, 0x21, 0x11, 1, 0, 1, 0x22, 63, 0], [7, 5, 0x81, 3, 8, 0, 10]]"

theorem descriptors_parsed_witness:
  "classify (parse_config_descriptor (concat sample_config @ [7, 5])) 1 = Dev_Keyboard \<and>
   pc_ep_in (parse_config_descriptor (concat sample_config @ [7, 5])) = 1"
proof -
  have "\<forall>d \<in> set sample_config. wf_desc d" "ends_search [7, 5]"
    "\<forall>d \<in> set sample_config. interrupt_in d \<longrightarrow> d ! 2 AND 0x0F \<noteq> 0"
    by (simp_all add: sample_config_def wf_desc_def ends_search_def interrupt_in_def DESC_ENDPOINT_def)
  note p = descriptors_parsed [OF this]
  have f: "List.find (interface_of USB_CLASS_HID) (rev sample_config) = Some [9, 4, 0, 0, 1, 3, 1, 1, 0]"
    "List.find interrupt_in sample_config = Some [7, 5, 0x81, 3, 8, 0, 10]"
    "\<not> (\<exists>d \<in> set sample_config. interface_of USB_CLASS_AUDIO d)"
    by (simp_all add: sample_config_def interface_of_def interrupt_in_def DESC_INTERFACE_def DESC_ENDPOINT_def USB_CLASS_HID_def
      USB_CLASS_AUDIO_def)
  show ?thesis using p f(3) unfolding f(1,2) by (simp add: classify_def Let_def USB_CLASS_HID_def USB_SUB_BOOT_def USB_PROTO_KB_def)
qed

section \<open>What a keyboard report types\<close>

text \<open>The characters of the keys that are in a report and were not in the one before.\<close>

definition key_char :: "u8 \<Rightarrow> u8 \<Rightarrow> u8" where
  "key_char mods k =
     (if mods AND 0x11 \<noteq> 0 \<and> k = 0x06 then 0x03
      else if mods AND 0x11 \<noteq> 0 \<and> k = 0x07 then 0x04
      else if mods AND 0x11 \<noteq> 0 \<and> k = 0x08 then 0x08
      else if unat k < 104 then (if mods AND 0x22 \<noteq> 0 then HID_SHFT else HID_NORM) ! unat k else 0)"

definition report_text :: "u8 list \<Rightarrow> u8 list \<Rightarrow> u8 list" where
  "report_text prev rep =
     filter (\<lambda>c. c \<noteq> 0) (map (key_char (rep ! 0)) (filter (\<lambda>k. 4 \<le> k \<and> k \<notin> set (drop 2 prev)) (drop 2 rep)))"

fun push_all :: "u8 list \<Rightarrow> kbd \<Rightarrow> kbd run" where
  "push_all [] kb = Done kb"
| "push_all (c # cs) kb = bind_run (input_push c kb) (push_all cs)"

lemma hid_tables: "length HID_NORM = 104" "length HID_SHFT = 104"
  by (simp_all add: HID_NORM_def HID_SHFT_def)

lemma hid_keys_push:
  "hid_keys prev mods ks kb =
     push_all (filter (\<lambda>c. c \<noteq> 0) (map (key_char mods) (filter (\<lambda>k. 4 \<le> k \<and> k \<notin> set (drop 2 prev)) ks))) kb"
proof (induction ks arbitrary: kb)
  case Nil
  show ?case by simp
next
  case (Cons k ks)
  let ?rest = "filter (\<lambda>c. c \<noteq> 0) (map (key_char mods) (filter (\<lambda>k. 4 \<le> k \<and> k \<notin> set (drop 2 prev)) ks))"
  have IH: "hid_keys prev mods ks = push_all ?rest" using Cons by (simp add: fun_eq_iff)
  consider "k < 4 \<or> k \<in> set (drop 2 prev)" | "4 \<le> k" "k \<notin> set (drop 2 prev)" "104 \<le> unat k"
    | "4 \<le> k" "k \<notin> set (drop 2 prev)" "unat k < 104" by force
  then show ?case
  proof cases
    case 1
    then have "\<not> (4 \<le> k \<and> k \<notin> set (drop 2 prev))" by (metis not_le)
    moreover have "hid_keys prev mods (k # ks) kb = hid_keys prev mods ks kb"
      unfolding hid_keys.simps Let_def using 1 by (cases "k < 4") simp_all
    ultimately show ?thesis unfolding IH by (simp only: filter.simps if_False)
  next
    case 2
    then have "k \<noteq> 6" "k \<noteq> 7" "k \<noteq> 8" by auto
    then have "key_char mods k = 0" using 2(3) by (simp add: key_char_def)
    then show ?thesis using IH 2 by (simp add: hid_tables Let_def)
  next
    case 3
    define ct where "ct \<longleftrightarrow> mods AND 0x11 \<noteq> 0"
    define tab where "tab = (if mods AND 0x22 \<noteq> 0 then HID_SHFT else HID_NORM)"
    have nk: "\<not> k < 4" "k \<notin> set (drop 2 prev)" "\<not> length HID_NORM \<le> unat k" using 3 by (simp_all add: hid_tables not_less)
    have g: "arr_get tab (unat k) = Done (tab ! unat k)" using 3(3) by (simp add: tab_def hid_tables)
    have c: "key_char mods k = (if ct \<and> k = 0x06 then 0x03 else if ct \<and> k = 0x07 then 0x04 else if ct \<and> k = 0x08 then 0x08
        else tab ! unat k)"
      unfolding key_char_def ct_def tab_def using 3(3) by (simp only: if_True if_distrib [of "\<lambda>t. t ! unat k"])
    have s: "hid_keys prev mods (k # ks) kb =
        (if ct \<and> k = 0x06 then bind_run (input_push 0x03 kb) (push_all ?rest)
         else if ct \<and> k = 0x07 then bind_run (input_push 0x04 kb) (push_all ?rest)
         else if ct \<and> k = 0x08 then bind_run (input_push 0x08 kb) (push_all ?rest)
         else if tab ! unat k \<noteq> 0 then bind_run (input_push (tab ! unat k) kb) (push_all ?rest) else push_all ?rest kb)"
      unfolding hid_keys.simps Let_def IH ct_def [symmetric] tab_def [symmetric] g using nk by (simp only: if_False bind_run.simps)
    have t: "filter (\<lambda>c. c \<noteq> 0) (map (key_char mods) (filter (\<lambda>k. 4 \<le> k \<and> k \<notin> set (drop 2 prev)) (k # ks))) =
        (if key_char mods k \<noteq> 0 then key_char mods k # ?rest else ?rest)" using 3(1,2) by simp
    show ?thesis unfolding s t c by simp
  qed
qed

lemma push_all_room:
  "kb_ok kb \<Longrightarrow> length (kb_contents kb) + length cs \<le> 63 \<Longrightarrow>
   \<exists>kb'. push_all cs kb = Done kb' \<and> kb_ok kb' \<and> kb_contents kb' = kb_contents kb @ cs"
proof (induction cs arbitrary: kb)
  case Nil
  then show ?case by simp
next
  case (Cons c cs)
  from kb_push_room [OF Cons.prems(1), of c] Cons.prems(2) obtain k1 where
    k1: "kb_push c kb = Done k1" "kb_ok k1" "kb_contents k1 = kb_contents kb @ [c]" by auto
  from Cons.IH [OF k1(2)] k1(3) Cons.prems(2) show ?case by (auto simp: input_push_def k1(1))
qed

text \<open>A key held down over several reports is typed once; no report makes a table access out of range.\<close>

lemma hid_kb_text:
  assumes "kb_ok (hd_kbd s)" "length (kb_contents (hd_kbd s)) + length (report_text (hd_prev s) rep) \<le> 63"
  shows "\<exists>s'. hid_kb rep s = Done s' \<and> hd_prev s' = rep \<and> kb_ok (hd_kbd s') \<and> hd_mouse s' = hd_mouse s \<and>
    hd_audio s' = hd_audio s \<and> kb_contents (hd_kbd s') = kb_contents (hd_kbd s) @ report_text (hd_prev s) rep"
proof (cases "rep = hd_prev s")
  case True
  then have "report_text (hd_prev s) rep = []" by (simp add: report_text_def)
  with True show ?thesis using assms by (simp add: hid_kb_def)
next
  case False
  from push_all_room [OF assms] obtain kb where "push_all (report_text (hd_prev s) rep) (hd_kbd s) = Done kb" "kb_ok kb"
    "kb_contents kb = kb_contents (hd_kbd s) @ report_text (hd_prev s) rep" by blast
  with False show ?thesis by (simp add: hid_kb_def hid_keys_push report_text_def)
qed

fun reports_text :: "u8 list \<Rightarrow> u8 list list \<Rightarrow> u8 list" where
  "reports_text prev [] = []"
| "reports_text prev (r # rs) = report_text prev r @ reports_text r rs"

fun hid_reports :: "u8 list list \<Rightarrow> hid \<Rightarrow> hid run" where
  "hid_reports [] s = Done s"
| "hid_reports (r # rs) s = bind_run (hid_dispatch Dev_Keyboard r s) (hid_reports rs)"

lemma hid_reports_text:
  "\<forall>r \<in> set rs. length r = 8 \<Longrightarrow> kb_ok (hd_kbd s) \<Longrightarrow>
   length (kb_contents (hd_kbd s)) + length (reports_text (hd_prev s) rs) \<le> 63 \<Longrightarrow>
   \<exists>s'. hid_reports rs s = Done s' \<and> kb_contents (hd_kbd s') = kb_contents (hd_kbd s) @ reports_text (hd_prev s) rs"
proof (induction rs arbitrary: s)
  case Nil
  then show ?case by simp
next
  case (Cons r rs)
  have "length (kb_contents (hd_kbd s)) + length (report_text (hd_prev s) r) \<le> 63" using Cons.prems(3) by simp
  from hid_kb_text [OF Cons.prems(2) this] obtain s1 where s1: "hid_kb r s = Done s1" "hd_prev s1 = r" "kb_ok (hd_kbd s1)"
    "kb_contents (hd_kbd s1) = kb_contents (hd_kbd s) @ report_text (hd_prev s) r" by blast
  from Cons.IH [OF _ s1(3)] Cons.prems s1 show ?case by (auto simp: hid_dispatch_def)
qed

section \<open>The device table and the pointer\<close>

definition dev_table_ok :: "dev_table \<Rightarrow> bool" where
  "dev_table_ok t \<longleftrightarrow> length (dt_devices t) = MAX_USB_DEVICES \<and> dt_ndev t = length (filter ud_active (dt_devices t))"

lemma count_update:
  "i < length xs \<Longrightarrow> length (filter P (xs[i := x])) + (if P (xs ! i) then 1 else 0) = length (filter P xs) + (if P x then 1 else 0)"
proof (induction xs arbitrary: i)
  case (Cons y ys)
  then show ?case
  proof (cases i)
    case (Suc j)
    with Cons.IH [of j] Cons.prems show ?thesis by (cases "P y") simp_all
  qed simp
qed simp

lemma find_below: "List.find P [0..<n] = Some i \<Longrightarrow> i < n \<and> P i"
  by (auto simp: find_Some_iff)

text \<open>The device count is the number of active entries.\<close>

lemma dev_table_preserved:
  assumes "dev_table_ok t"
  shows "dev_table_ok (snd (dev_alloc s t))" "dev_table_ok (dev_free s t)"
    "fst (dev_alloc s t) = None \<longleftrightarrow> dt_ndev t = MAX_USB_DEVICES"
proof -
  have len: "length (dt_devices t) = 16" and n: "dt_ndev t = length (filter ud_active (dt_devices t))"
    using assms by (auto simp: dev_table_ok_def)
  show "dev_table_ok (snd (dev_alloc s t))"
  proof (cases "List.find (\<lambda>i. \<not> ud_active (dt_devices t ! i)) [0..<MAX_USB_DEVICES]")
    case None
    then show ?thesis using assms by (simp add: dev_alloc_def)
  next
    case (Some i)
    from find_below [OF Some] have "i < 16" "\<not> ud_active (dt_devices t ! i)" by simp_all
    with count_update [of i "dt_devices t" ud_active "usb_device_empty\<lparr>ud_slot := s, ud_active := True\<rparr>"] len n
    show ?thesis unfolding dev_alloc_def Some by (simp add: dev_table_ok_def)
  qed
  show "dev_table_ok (dev_free s t)"
  proof (cases "List.find (\<lambda>i. ud_active (dt_devices t ! i) \<and> ud_slot (dt_devices t ! i) = s) [0..<MAX_USB_DEVICES]")
    case None
    then show ?thesis using assms unfolding dev_free_def None by simp
  next
    case (Some i)
    from find_below [OF Some] have i: "i < 16" "ud_active (dt_devices t ! i)" by simp_all
    have "length (filter ud_active ((dt_devices t)[i := (dt_devices t ! i)\<lparr>ud_active := False\<rparr>])) = dt_ndev t - 1"
      "dt_ndev t \<noteq> 0"
      using count_update [of i "dt_devices t" ud_active "(dt_devices t ! i)\<lparr>ud_active := False\<rparr>"] len n i
      by (simp_all del: length_0_conv length_greater_0_conv)
    then show ?thesis using len unfolding dev_free_def Some by (simp add: dev_table_ok_def)
  qed
  have "dt_ndev t = 16 \<longleftrightarrow> filter ud_active (dt_devices t) = dt_devices t"
    using n len by (metis filter_id_conv length_filter_less order_less_irrefl)
  also have "\<dots> \<longleftrightarrow> (\<forall>i < 16. ud_active (dt_devices t ! i))" using len by (simp add: filter_id_conv all_set_conv_all_nth)
  finally show "fst (dev_alloc s t) = None \<longleftrightarrow> dt_ndev t = MAX_USB_DEVICES"
    using find_None_iff [of "\<lambda>i. \<not> ud_active (dt_devices t ! i)" "[0..<MAX_USB_DEVICES]"]
    by (cases "List.find (\<lambda>i. \<not> ud_active (dt_devices t ! i)) [0..<MAX_USB_DEVICES]") (simp_all add: dev_alloc_def)
qed

lemma mouse_in_range:
  assumes "- 32768 \<le> ms_x m \<and> ms_x m < 32768 \<and> - 32768 \<le> ms_y m \<and> ms_y m < 32768"
  shows "- 32768 \<le> ms_x (hid_mouse rep m) \<and> ms_x (hid_mouse rep m) < 32768 \<and>
    - 32768 \<le> ms_y (hid_mouse rep m) \<and> ms_y (hid_mouse rep m) < 32768"
  using assms by (simp add: hid_mouse_def saturate_def) linarith

end
