(* ===== verification/Cow_Fault.thy ===== *)
theory Cow_Fault
  imports Address_Space
begin

text \<open>
  The handler of write faults on copy-on-write pages (\<open>handle_cow_fault\<close> of \<^verbatim>\<open>mm/vmm.rs\<close>): a page with a single owner
  becomes writable in place, a shared page is copied to a new frame; a shared huge page stops the machine.
\<close>

section \<open>Entries\<close>

lemma cow_clear:
  "pte_present e \<Longrightarrow> pte_present ((e AND NOT PTE_COW) OR PTE_W)" "pte_writable ((e AND NOT PTE_COW) OR PTE_W)"
  "\<not> pte_cow ((e AND NOT PTE_COW) OR PTE_W)" "pte_addr ((e AND NOT PTE_COW) OR PTE_W) = pte_addr e"
  by (simp_all add: pte_test_bits pte_bits) (rule bit_eqI, auto simp: pte_addr_def pte_bits)

lemma cow_replace:
  assumes "p AND PTE_ADDR = p"
  shows "pte_writable (pte_make p ((e AND NOT PTE_COW AND NOT PTE_ADDR) OR PTE_W))"
    "\<not> pte_cow (pte_make p ((e AND NOT PTE_COW AND NOT PTE_ADDR) OR PTE_W))"
    "pte_addr (pte_make p ((e AND NOT PTE_COW AND NOT PTE_ADDR) OR PTE_W)) = p"
    "pte_user (pte_make p ((e AND NOT PTE_COW AND NOT PTE_ADDR) OR PTE_W)) = pte_user e"
proof -
  have b: "\<not> bit p n" if "n < 12" for n using assms that bit_PTE_ADDR [of n] by (metis bit_and_iff not_le)
  show "pte_writable (pte_make p ((e AND NOT PTE_COW AND NOT PTE_ADDR) OR PTE_W))"
    "\<not> pte_cow (pte_make p ((e AND NOT PTE_COW AND NOT PTE_ADDR) OR PTE_W))"
    "pte_user (pte_make p ((e AND NOT PTE_COW AND NOT PTE_ADDR) OR PTE_W)) = pte_user e"
    using b by (simp_all add: pte_test_bits pte_make_def pte_bits)
  have "pte_addr (pte_make p ((e AND NOT PTE_COW AND NOT PTE_ADDR) OR PTE_W)) = p AND PTE_ADDR"
    by (rule bit_eqI) (auto simp: pte_addr_def pte_make_def pte_bits)
  with assms show "pte_addr (pte_make p ((e AND NOT PTE_COW AND NOT PTE_ADDR) OR PTE_W)) = p" by simp
qed

lemma handle_cow_walk:
  assumes ok: "tables_ok m p4" and l: "\<not> pm_lock m" and t: "table_at m p4 3 a = Some t"
  shows "handle_cow_fault p4 a m = with_lock (cow_small t (pidx 12 a)) m"
proof -
  let ?m = "m\<lparr>pm_lock := True\<rparr>"
  have w: "pte_present (pte m p4 (pidx 39 a))"
    "pte_present (pte m (pte_addr (pte m p4 (pidx 39 a))) (pidx 30 a))"
    "pte_present (pte m (pte_addr (pte m (pte_addr (pte m p4 (pidx 39 a))) (pidx 30 a))) (pidx 21 a))"
    "\<not> pte_huge (pte m (pte_addr (pte m (pte_addr (pte m p4 (pidx 39 a))) (pidx 30 a))) (pidx 21 a))"
    "pte_addr (pte m (pte_addr (pte m (pte_addr (pte m p4 (pidx 39 a))) (pidx 30 a))) (pidx 21 a)) = t"
    using t by (auto simp: numeral_3_eq_3 next_table_def Let_def split: option.splits if_splits)
  show ?thesis using l w by (simp add: handle_cow_fault_def with_lock_def Let_def pidx_page_of)
qed

section \<open>A page with a single owner\<close>

lemma cow_owner:
  assumes m: "vmm_ok m p4" "\<not> pm_lock m" and t: "table_at m p4 3 a = Some t"
    and e: "e = pte m t (pidx 12 a)" "pte_present e" "pte_cow e" and s: "\<not> frame_shared m (pte_addr e)"
  shows "\<exists>m'. handle_cow_fault p4 a m = Done (True, m') \<and> vmm_ok m' p4 \<and> \<not> pm_lock m' \<and>
    pte m' t (pidx 12 a) = (e AND NOT PTE_COW) OR PTE_W \<and> virt_to_phys m' p4 = virt_to_phys m p4 \<and> pm_refs m' = pm_refs m \<and>
    frame_avail m' = frame_avail m"
proof -
  have ok: "tables_ok m p4" and ph: "phys_ok m" using m(1) by (auto simp: vmm_ok_def)
  let ?e = "(e AND NOT PTE_COW) OR PTE_W" and ?m = "m\<lparr>pm_lock := True\<rparr>"
  have al: "aligned t" using tables_okD(2) [OF ok _ t] by simp
  let ?m1 = "(inst 3 a t ?e ?m)\<lparr>pm_lock := False\<rparr>"
  have okm: "tables_ok ?m p4" and tm: "table_at ?m p4 3 a = Some t" using ok t by simp_all
  note lw = leaf_write [OF okm tm, of ?e]
  have p2: "leaf_phys ?e u = leaf_phys e u" for u
    using cow_clear(4) [of e] cow_clear(1) [OF e(2)] e(2) by (simp add: leaf_phys_def)
  have tr: "virt_to_phys ?m1 p4 u = virt_to_phys m p4 u" for u
  proof (cases "same_page u a")
    case True
    have "virt_to_phys m p4 u = leaf_phys e u"
    proof -
      from True have s: "same_upto 4 u a" by (simp add: same_page_def)
      then have l: "lvl 3 u = lvl 3 a" by (simp only: same_upto_def)
      have "table_at m p4 3 u = Some t" using table_at_prefix [OF same_upto_mono [OF s, of 3]] t by simp
      then obtain p2 where p2: "table_at m p4 2 u = Some p2" "pte_present (pte m p2 (lvl 2 u))"
        "\<not> pte_huge (pte m p2 (lvl 2 u))" "pte_addr (pte m p2 (lvl 2 u)) = t"
        by (auto simp: numeral_3_eq_3 numeral_2_eq_2 next_table_def Let_def split: option.splits if_splits)
      then show ?thesis using e(1) l unfolding virt_to_phys_table [OF ok] by (simp add: leaf_phys_def Let_def)
    qed
    then show ?thesis using lw(2) [of u] True p2 by simp
  qed (use lw(2) [of u] in simp)
  have pe: "pte ?m1 t (pidx 12 a) = ?e" using inst_entry [OF al, of 3 a ?e ?m] by simp
  have st: "cow_small t (pidx 12 a) ?m = Done (True, inst 3 a t ?e ?m)"
  proof -
    have "\<not> frame_shared ?m (pte_addr e)" using s unfolding frame_shared_def frame_ref_def fi_simps by (auto split: if_splits)
    with e show ?thesis by (simp add: cow_small_def Let_def)
  qed
  then have "handle_cow_fault p4 a m = Done (True, ?m1)"
    unfolding handle_cow_walk [OF ok m(2) t] using m(2) by (simp add: with_lock_def)
  moreover have "vmm_ok ?m1 p4" using lw(1) ph by (simp add: vmm_ok_def phys_ok_def)
  ultimately show ?thesis using pe tr by (intro exI [of _ ?m1]) (simp add: fun_eq_iff)
qed

section \<open>A shared page\<close>

definition taken_copy :: "u64 \<Rightarrow> u64 \<Rightarrow> pmm \<Rightarrow> pmm \<Rightarrow> bool" where
  "taken_copy old new m m' \<longleftrightarrow>
     new \<in> frame_avail m \<and> frame_avail m' = frame_avail m - {new} \<and> phys_ok m' \<and> \<not> pm_lock m' \<and> aligned new \<and>
     new AND PTE_ADDR = new \<and> pm_mem m' = pm_mem (copy_page old new m) \<and>
     frame_ref m' old = (if frame_ref m old = 0xFFFF then 0xFFFF else frame_ref m old - 1) \<and> frame_ref m' new = 1"

lemma frame_cow_copy_result:
  assumes ph: "phys_ok m" "\<not> pm_lock m" "pm_base m \<noteq> 0" and i: "i \<in> managed m" "i \<notin> free_set m" and r: "1 < pm_refs m i"
  shows "(frame_avail m = {} \<and> frame_cow_copy (fp m i) m = Panic) \<or>
    (\<exists>new m'. frame_cow_copy (fp m i) m = Done (new, m') \<and> taken_copy (fp m i) new m m')"
proof -
  have inv: "pmm_inv m" using ph(1) by (simp add: phys_ok_def)
  have i2: "i < pm_total m" "i < 65536" using i(1) by (auto simp: managed_def)
  from mm_alloc_result [OF inv ph(2)] show ?thesis
  proof (elim disjE exE conjE)
    assume "free_set m = {}" "mm_alloc m = Panic"
    then show ?thesis by (simp add: frame_cow_copy_def frame_avail_def)
  next
    fix j m1 assume a: "mm_alloc m = Done (fp m j, m1)" and t: "frame_taken j m m1"
    have j: "j < pm_total m" "j < 65536" "j \<noteq> i" "j \<in> free_set m" using t i(2) by (auto simp: frame_taken_def free_set_def managed_def)
    note av = frame_taken_avail [OF inv t] and sm = frame_taken_simps [OF t]
    note al = aligned_fp [OF ph(1) j(1)]
    have f: "fi m (fp m j) = j" "fi m (fp m i) = i" using fi_fp_managed [OF inv] i2 j by auto
    have n0: "fp m j \<noteq> 0" by (rule fp_nonzero [OF ph(1,3) av(1)])
    let ?c = "copy_page (fp m i) (fp m j) m1"
    have c: "fi ?c = fi m" "pm_refs ?c = (pm_refs m)(j := 1)" "pm_lock ?c = pm_lock m" "pmm_inv ?c"
      "frame_avail ?c = frame_avail m1" "pm_base ?c = pm_base m" "pm_total ?c = pm_total m"
      "pm_mem ?c = pm_mem (copy_page (fp m i) (fp m j) m)"
      using t sm by (simp_all add: copy_page_def frame_taken_def frame_avail_def cong: if_cong)
    have fin: "frame_init (fp m j) ?c = ?c" using c f j by (simp add: frame_init_def)
    have r1: "pm_refs m i \<noteq> 1" using r by auto
    define m' where "m' = (if pm_refs m i = 0xFFFF then ?c else ?c\<lparr>pm_refs := (pm_refs ?c)(i := pm_refs m i - 1)\<rparr>)"
    have "frame_dec (fp m i) ?c = Done (False, m')"
      using c f i2 j r r1 by (simp add: frame_dec_def Let_def m'_def)
    then have d: "frame_cow_copy (fp m i) m = Done (fp m j, m')" using a n0 fin by (simp add: frame_cow_copy_def)
    have m': "pm_mem m' = pm_mem ?c" "fi m' = fi m" "phys_ok m'" "pm_lock m' = pm_lock m" "frame_avail m' = frame_avail m1"
      "pm_refs m' = (pm_refs m)(j := 1, i := if pm_refs m i = 0xFFFF then 0xFFFF else pm_refs m i - 1)"
      using c ph(1) j(3) by (auto simp: m'_def phys_ok_def frame_avail_def fun_eq_iff)
    have "taken_copy (fp m i) (fp m j) m m'"
      using av al m' c f i2 j ph(2) by (simp add: taken_copy_def frame_ref_def)
    with d show ?thesis by blast
  qed
qed

lemma cow_shared:
  assumes m: "vmm_ok m p4" "\<not> pm_lock m" "pm_base m \<noteq> 0" and t: "table_at m p4 3 a = Some t"
    and e: "e = pte m t (pidx 12 a)" "pte_present e" "pte_cow e" "pte_addr e = fp m i" "i \<in> managed m" "i \<notin> free_set m"
    and s: "frame_shared m (fp m i)"
  shows "(frame_avail m = {} \<and> handle_cow_fault p4 a m = Panic) \<or>
    (\<exists>new m1. handle_cow_fault p4 a m =
        Done (True, set_pte t (pidx 12 a) (pte_make new ((e AND NOT PTE_COW AND NOT PTE_ADDR) OR PTE_W)) m1) \<and>
      taken_copy (fp m i) new m m1)"
proof -
  have ok: "tables_ok m p4" and ph: "phys_ok m" using m(1) by (auto simp: vmm_ok_def)
  have i2: "i < pm_total m" "i < 65536" using e(5) by (auto simp: managed_def)
  have fi: "fi m (fp m i) = i" using fi_fp_managed [of m i] ph i2 by (simp add: phys_ok_def)
  have r: "1 < pm_refs m i" using s fi i2 by (simp add: frame_shared_def frame_ref_def)
  let ?m = "m\<lparr>pm_lock := True\<rparr>"
  have sh: "frame_shared ?m (fp m i)" using s unfolding frame_shared_def frame_ref_def fi_simps by (auto split: if_splits)
  have c: "cow_small t (pidx 12 a) ?m = bind_run (frame_cow_copy (fp m i) m) (\<lambda>(new, m1).
      bind_run (lock (pm_lock m1)) (\<lambda>l. if new = 0 then Done (False, m1\<lparr>pm_lock := l\<rparr>)
        else Done (True, set_pte t (pidx 12 a) (pte_make new ((e AND NOT PTE_COW AND NOT PTE_ADDR) OR PTE_W)) (m1\<lparr>pm_lock := l\<rparr>))))"
    using e(2-4) sh m(2) by (simp add: cow_small_def Let_def e(1) [symmetric])
  have h: "handle_cow_fault p4 a m = bind_run (cow_small t (pidx 12 a) ?m) (\<lambda>(r, m'). Done (r, m'\<lparr>pm_lock := False\<rparr>))"
    unfolding handle_cow_walk [OF ok m(2) t] using m(2) by (simp add: with_lock_def)
  from frame_cow_copy_result [OF ph m(2,3) e(5,6) r] show ?thesis
  proof (elim disjE exE conjE)
    fix new m1 assume f: "frame_cow_copy (fp m i) m = Done (new, m1)" and tc: "taken_copy (fp m i) new m m1"
    have "new \<noteq> 0" using fp_nonzero [OF ph m(3)] tc by (simp add: taken_copy_def)
    moreover have "\<not> pm_lock m1" using tc by (simp add: taken_copy_def)
    moreover have "(set_pte t j x (m1\<lparr>pm_lock := True\<rparr>))\<lparr>pm_lock := False\<rparr> = set_pte t j x m1" for j x
      using \<open>\<not> pm_lock m1\<close> by (cases m1) (simp add: set_pte_def)
    ultimately show ?thesis using h c f tc by (intro disjI2 exI [of _ new] exI [of _ m1]) simp
  qed (use h c in simp)
qed

text \<open>
  C30: a write fault on a copy-on-write page of a well-formed address space is resolved. The page becomes writable and
  private. If its frame has a single owner the translation does not change. If the frame is shared the page moves to a
  frame that was free and holds the same bytes, the old frame loses one reference (unless its count is saturated), no
  other address is affected, and the kernel panics only when no frame is free.
\<close>

theorem cow_fault_gives_private_page:
  assumes m: "vmm_ok m p4" "\<not> pm_lock m" "pm_base m \<noteq> 0" and t: "table_at m p4 3 a = Some t"
    and e: "e = pte m t (pidx 12 a)" "pte_present e" "pte_cow e" "pte_addr e = fp m i" "i \<in> managed m" "i \<notin> free_set m"
  shows "if \<not> frame_shared m (fp m i)
    then \<exists>m'. handle_cow_fault p4 a m = Done (True, m') \<and> vmm_ok m' p4 \<and> \<not> pm_lock m' \<and>
           pte_writable (pte m' t (pidx 12 a)) \<and> \<not> pte_cow (pte m' t (pidx 12 a)) \<and>
           virt_to_phys m' p4 = virt_to_phys m p4
    else (frame_avail m = {} \<and> handle_cow_fault p4 a m = Panic) \<or>
         (\<exists>new m'. handle_cow_fault p4 a m = Done (True, m') \<and> vmm_ok m' p4 \<and> \<not> pm_lock m' \<and> new \<in> frame_avail m \<and>
           pte_writable (pte m' t (pidx 12 a)) \<and> \<not> pte_cow (pte m' t (pidx 12 a)) \<and>
           virt_to_phys m' p4 = (\<lambda>u. if same_page u a then Some (new OR (u AND 0xFFF)) else virt_to_phys m p4 u) \<and>
           (\<forall>d < PAGE_SIZE. pm_mem m' (new + d) = pm_mem m (fp m i + d)) \<and>
           frame_ref m' (fp m i) = (if frame_ref m (fp m i) = 0xFFFF then 0xFFFF else frame_ref m (fp m i) - 1) \<and>
           frame_ref m' new = 1)"
proof (cases "frame_shared m (fp m i)")
  case False
  then have "\<not> frame_shared m (pte_addr e)" using e(4) by simp
  from cow_owner [OF m(1,2) t e(1-3) this] show ?thesis using False cow_clear(2,3) [of e] by fastforce
next
  case True
  have ok: "tables_ok m p4" using m(1) by (auto simp: vmm_ok_def)
  have al: "aligned t" "t \<notin> frame_avail m" using tables_okD(2,3) [OF ok _ t] by simp_all
  from cow_shared [OF m t e True] True show ?thesis
  proof (elim disjE exE conjE)
    fix new m1
    let ?e = "pte_make new ((e AND NOT PTE_COW AND NOT PTE_ADDR) OR PTE_W)"
    let ?m = "set_pte t (pidx 12 a) ?e m1"
    assume h: "handle_cow_fault p4 a m = Done (True, ?m)" and tc: "taken_copy (fp m i) new m m1"
    have new: "new \<in> frame_avail m" "frame_avail m1 = frame_avail m - {new}" "phys_ok m1" "\<not> pm_lock m1" "aligned new"
      "new AND PTE_ADDR = new" "pm_mem m1 = pm_mem (copy_page (fp m i) new m)" "frame_ref m1 new = 1"
      "frame_ref m1 (fp m i) = (if frame_ref m (fp m i) = 0xFFFF then 0xFFFF else frame_ref m (fp m i) - 1)"
      using tc by (auto simp: taken_copy_def)
    have op: "only_page new m m1"
      using new(5,7) by (auto simp: only_page_def pte_def copy_page_def entry_in_page)
    note ft = fresh_tables [OF ok op new(1,2)]
    have t1: "table_at m1 p4 3 a = Some t" using ft(2) [of 3 a] t by simp
    note lw = leaf_write [OF ft(1) t1, of ?e, unfolded lvl_simps]
    note cr = cow_replace [OF new(6), of e]
    have tn: "t \<noteq> new" using al(2) new(1) by auto
    have "pm_mem ?m (new + d) = pm_mem m (fp m i + d)" if "d < PAGE_SIZE" for d
    proof -
      have "new + d \<noteq> entry_addr t (pidx 12 a)"
        using entry_in_page [OF al(1) new(5) pidx_less, of 12 a] tn that by (metis add_diff_cancel_left')
      then show ?thesis using new(7) that by (simp add: set_pte_def copy_page_def)
    qed
    moreover have "virt_to_phys ?m p4 = (\<lambda>u. if same_page u a then Some (new OR (u AND 0xFFF)) else virt_to_phys m p4 u)"
      using lw(2) cr(3) ft(3) by (simp add: fun_eq_iff leaf_phys_def)
    moreover have "pte ?m t (pidx 12 a) = ?e" using al(1) by (simp add: pte_set_pte)
    moreover have "frame_ref ?m x = frame_ref m1 x" for x by (simp add: frame_ref_def set_pte_def fi_def)
    moreover have "vmm_ok ?m p4" using lw(1) new(3) by (simp add: vmm_ok_def phys_ok_def)
    ultimately show ?thesis using h new cr(1,2) True by auto
  qed simp
qed

lemma cow_flags: "flags_only (PTE_U OR PTE_COW)" "pte_cow (pte_make p (PTE_U OR PTE_COW))"
  by (simp_all add: flags_only_def PTE_U_def PTE_COW_def PTE_ADDR_def bit_at_def pte_test_bits pte_make_def pte_bits)

lemma frame_inc_state [simp]:
  "frame_avail (frame_inc p m) = frame_avail m" "free_set (frame_inc p m) = free_set m" "managed (frame_inc p m) = managed m"
  "pm_lock (frame_inc p m) = pm_lock m" "pm_base (frame_inc p m) = pm_base m" "fp (frame_inc p m) = fp m"
  "pm_total (frame_inc p m) = pm_total m" "pm_mem (frame_inc p m) = pm_mem m" "phys_ok (frame_inc p m) = phys_ok m"
  by (simp_all add: frame_inc_def Let_def frame_avail_def managed_def phys_ok_def)

theorem cow_fault_gives_private_page_witness:
  "\<exists>c m0 p m1 m2 m3 new. zpg_locked pmm_boot = Done (c, m0) \<and> mm_alloc m0 = Done (p, m1) \<and>
     vmap c 0x400000 p (PTE_U OR PTE_COW) m1 = Done (0, m2) \<and>
     handle_cow_fault c 0x400123 (frame_inc p m2) = Done (True, m3) \<and> virt_to_phys m3 c 0x400000 = Some new \<and> new \<noteq> p"
proof -
  have b: "pm_base pmm_boot \<noteq> 0" "frame_avail pmm_boot \<noteq> {}" using pmm_boot_state boot_phys(3) by auto
  from empty_space [OF boot_phys(1,2) b] obtain c m where z: "zpg_locked pmm_boot = Done (c, m)" "vmm_ok m c"
    "\<not> pm_lock m" "card (frame_avail m) = 61438" "pm_base m = pm_base pmm_boot" using boot_phys(3) by auto
  from alloc_and_map [OF z(2,3) _ _ cow_flags(1), of "0x400000"] z(4) obtain i m1 m2 t where
    a: "mm_alloc m = Done (fp m i, m1)" "vmap c 0x400000 (fp m i) (PTE_U OR PTE_COW) m1 = Done (0, m2)" "vmm_ok m2 c"
      "\<not> pm_lock m2" "table_at m2 c 3 0x400000 = Some t" "pte m2 t (pidx 12 0x400000) = pte_make (fp m i) (PTE_U OR PTE_COW)"
      "fp m i AND PTE_ADDR = fp m i" "i < pm_total m2" "i < 65536" "pm_refs m2 i = 1" "fp m2 = fp m" "fp m i \<notin> frame_avail m2"
      "card (frame_avail m) - 4 \<le> card (frame_avail m2)" "pm_base m2 = pm_base m" by auto
  let ?m = "frame_inc (fp m i) m2"
  have inv: "pmm_inv m2" using a(3) by (simp add: vmm_ok_def phys_ok_def)
  have fi: "fi m2 (fp m i) = i" using fi_fp_managed [OF inv a(8)] a(11) by simp
  have p: "pte ?m x j = pte m2 x j" for x j by (simp add: pte_def)
  have ag: "agree m2 ?m c" by (simp add: agree_def p)
  have ok2: "tables_ok m2 c" and ph2: "phys_ok m2" using a(3) by (auto simp: vmm_ok_def)
  have ok: "vmm_ok ?m c" using agree_tables_ok [OF ok2 ag] ph2 by (simp add: vmm_ok_def)
  have l: "\<not> pm_lock ?m" "pm_base ?m \<noteq> 0" using a(4,14) z(5) b(1) by simp_all
  have same: "same_page 0x400123 0x400000" "same_page 0x400000 0x400123" by (simp_all add: same_page_iff pidx_def)
  have tt: "table_at ?m c 3 0x400123 = Some t"
    using agree_table_at [OF ag, of 3] table_at_prefix [OF same_upto_mono [OF same(1) [unfolded same_page_def], of 3]] a(5) by simp
  have px: "pidx 12 0x400123 = pidx 12 0x400000" using same(1) by (simp add: same_page_iff)
  have e: "pte_make (fp m i) (PTE_U OR PTE_COW) = pte ?m t (pidx 12 0x400123)" unfolding p px a(6) ..
  have ea: "pte_addr (pte_make (fp m i) (PTE_U OR PTE_COW)) = fp ?m i" using pte_addr_make [OF cow_flags(1)] a(7,11) by simp
  have im: "i \<in> managed ?m" "i \<notin> free_set ?m" using a(8,9,11,12) by (auto simp: managed_def frame_avail_def)
  have sh: "frame_shared ?m (fp ?m i)"
    using fi a(9,10,11) by (simp add: frame_shared_def frame_ref_def frame_inc_def Let_def fi_def)
  have "frame_avail ?m \<noteq> {}" using a(13) z(4) by auto
  with cow_fault_gives_private_page [OF ok l tt e pte_present_make cow_flags(2) ea im] sh obtain new m3 where
    "handle_cow_fault c 0x400123 ?m = Done (True, m3)" "new \<in> frame_avail m2"
    "virt_to_phys m3 c = (\<lambda>u. if same_page u 0x400123 then Some (new OR (u AND 0xFFF)) else virt_to_phys ?m c u)" by auto
  moreover from this have "new \<noteq> fp m i" using a(12) by auto
  ultimately show ?thesis using z(1) a(1,2) same(2)
    by (intro exI [of _ c] exI [of _ m] exI [of _ "fp m i"] exI [of _ m1] exI [of _ m2] exI [of _ m3] exI [of _ new]) simp
qed

section \<open>A shared huge page\<close>

text \<open>
  A write fault on a shared copy-on-write huge page never returns: the copy is allocated while the lock of the physical
  memory manager is held.
\<close>

theorem shared_huge_fault_hangs:
  assumes "\<not> pm_lock m" "v = page_of a"
    and "pte_present (pte m p4 (pidx 39 v))" "t3 = pte_addr (pte m p4 (pidx 39 v))"
    and "pte_present (pte m t3 (pidx 30 v))" "t2 = pte_addr (pte m t3 (pidx 30 v))"
    and "e = pte m t2 (pidx 21 v)" "pte_present e" "pte_huge e" "pte_cow e" "frame_shared m (pte_addr e)"
  shows "handle_cow_fault p4 a m = Hang"
proof -
  have "frame_shared (m\<lparr>pm_lock := True\<rparr>) (pte_addr e)"
    using assms(11) unfolding frame_shared_def frame_ref_def fi_simps by (auto split: if_splits)
  moreover have "mm_alloc_huge (m\<lparr>pm_lock := True\<rparr>) = Hang" by (simp add: mm_alloc_huge_def)
  ultimately show ?thesis
    using assms by (simp add: handle_cow_fault_def with_lock_def cow_huge_def Let_def)
qed

theorem shared_huge_fault_hangs_witness:
  "handle_cow_fault 0x1000 0x123 (pmm_boot\<lparr>pm_refs := (\<lambda>_. 2), pm_mem :=
     (\<lambda>a. if a = 0x1000 then 0x2007 else if a = 0x2000 then 0x3007 else if a = 0x3000 then 0x2000285 else 0)\<rparr>) = Hang"
proof (rule shared_huge_fault_hangs [OF _ refl _ refl _ refl refl])
  let ?m = "pmm_boot\<lparr>pm_refs := (\<lambda>_. 2), pm_mem :=
     (\<lambda>a. if a = 0x1000 then 0x2007 else if a = 0x2000 then 0x3007 else if a = 0x3000 then 0x2000285 else 0)\<rparr>"
  have v: "page_of 0x123 = 0" by (simp add: page_of_def PAGE_SIZE_def)
  have i: "pidx s 0 = 0" for s by (simp add: pidx_def)
  have e4: "pte ?m 0x1000 0 = 0x2007" and e3: "pte ?m 0x2000 0 = 0x3007" and e2: "pte ?m 0x3000 0 = 0x2000285"
    by (simp_all add: pte_def entry_addr_def)
  have a: "pte_addr 0x2007 = 0x2000" "pte_addr 0x3007 = 0x3000" "pte_addr 0x2000285 = 0x2000000"
    by (simp_all add: pte_addr_def PTE_ADDR_def)
  have b: "pte_present 0x2007" "pte_present 0x3007" "pte_present 0x2000285" "pte_huge 0x2000285" "pte_cow 0x2000285"
    by (simp_all add: pte_present_def pte_huge_def pte_cow_def has_any_def PTE_P_def PTE_PS_def PTE_COW_def bit_at_def)
  note s = v i e4 e3 e2 a
  show "\<not> pm_lock ?m" using boot_phys(2) by simp
  show "pte_present (pte ?m 0x1000 (pidx 39 (page_of 0x123)))" unfolding s by (rule b)
  show "pte_present (pte ?m (pte_addr (pte ?m 0x1000 (pidx 39 (page_of 0x123)))) (pidx 30 (page_of 0x123)))"
    unfolding s by (rule b)
  show "pte_present (pte ?m (pte_addr (pte ?m (pte_addr (pte ?m 0x1000 (pidx 39 (page_of 0x123)))) (pidx 30 (page_of 0x123)))) (pidx 21 (page_of 0x123)))"
    unfolding s by (rule b)
  show "pte_huge (pte ?m (pte_addr (pte ?m (pte_addr (pte ?m 0x1000 (pidx 39 (page_of 0x123)))) (pidx 30 (page_of 0x123)))) (pidx 21 (page_of 0x123)))"
    unfolding s by (rule b)
  show "pte_cow (pte ?m (pte_addr (pte ?m (pte_addr (pte ?m 0x1000 (pidx 39 (page_of 0x123)))) (pidx 30 (page_of 0x123)))) (pidx 21 (page_of 0x123)))"
    unfolding s by (rule b)
  have "fi ?m 0x2000000 = fi pmm_boot 0x2000000" by (simp add: fi_def)
  also have "\<dots> = 4096" using pmm_boot_state(3) by (simp add: fi_def PAGE_SIZE_def)
  finally show "frame_shared ?m (pte_addr (pte ?m (pte_addr (pte ?m (pte_addr (pte ?m 0x1000 (pidx 39 (page_of 0x123)))) (pidx 30 (page_of 0x123)))) (pidx 21 (page_of 0x123))))"
    unfolding s by (simp add: frame_shared_def frame_ref_def)
qed

end
