(* ===== verification/Ipc_Calls.thy ===== *)
theory Ipc_Calls
  imports Kernel_State Sample_Space
begin

text \<open>
  The message calls of \<^verbatim>\<open>ipc.rs\<close>: sending, receiving (with or without waiting), polling, and the kernel's own
  \<open>k_send\<close>. Messages cross the border as 64 bytes in the layout of the C structure \<open>IpcMsg\<close>. A call that gives up the
  processor does not return: its result says where execution continues and what remains to be done when the thread is
  switched to again.
\<close>

section \<open>Results of a call\<close>

datatype after = Then_Ok | Then_Retry

datatype 'a sys_result = Return 'a | Leave control after

type_synonym 'a call = "('a sys_result \<times> kernel) run"

definition ret :: "err \<Rightarrow> kernel \<Rightarrow> i64 call" where
  "ret e k = Done (Return (err_code e), k)"

text \<open>\<open>valid_buf(p4, ptr, len)\<close> for the current thread; the check of a wrapping range may run for ever.\<close>

definition cur_thread :: "kernel \<Rightarrow> thread run" where
  "cur_thread k = arr_get (kn_threads k) (kn_cur k)"

definition user_buf :: "kernel \<Rightarrow> u64 \<Rightarrow> u64 \<Rightarrow> bool run" where
  "user_buf k ptr len =
     bind_run (cur_thread k) (\<lambda>t. case valid_buf (kn_mem k) (th_cr3 t) ptr len of None \<Rightarrow> Hang | Some b \<Rightarrow> Done b)"

definition rd32 :: "kernel \<Rightarrow> u64 \<Rightarrow> u32 run" where
  "rd32 k v = bind_run (ld_bytes (kn_cr3 k) (kn_mem k) v 4) (\<lambda>bs. Done (ucast (of_le bs)))"

definition rd64 :: "kernel \<Rightarrow> u64 \<Rightarrow> u64 run" where
  "rd64 k v = bind_run (ld_bytes (kn_cr3 k) (kn_mem k) v 8) (\<lambda>bs. Done (of_le bs))"

definition put_bytes :: "u64 \<Rightarrow> u8 list \<Rightarrow> kernel \<Rightarrow> kernel run" where
  "put_bytes v bs k = bind_run (st_bytes (kn_cr3 k) v bs (kn_mem k)) (\<lambda>m. Done (k\<lparr>kn_mem := m\<rparr>))"

section \<open>Message layout\<close>

abbreviation le4 :: "u32 \<Rightarrow> u8 list" where "le4 x \<equiv> le_bytes 4 (ucast x)"

definition msg_bytes :: "ipc_msg \<Rightarrow> u8 list" where
  "msg_bytes m = le4 (im_from m) @ le4 (im_to m) @ le4 (im_tag m) @ le4 (im_pad m) @ concat (map (le_bytes 8) (im_data m)) @
     le_bytes 8 (im_ptr m) @ le4 (im_len m) @ le4 (im_pad2 m)"

definition MSG_SIZE :: u64 where "MSG_SIZE = 64"

text \<open>The fields \<open>sys_ipc_send\<close> copies: the sender is not taken from the message but from the thread table.\<close>

definition rd_msg :: "kernel \<Rightarrow> u64 \<Rightarrow> u32 \<Rightarrow> ipc_msg run" where
  "rd_msg k p from =
     bind_run (rd32 k (p + 4)) (\<lambda>to. bind_run (rd32 k (p + 8)) (\<lambda>tag.
     bind_run (rd64 k (p + 16)) (\<lambda>d0. bind_run (rd64 k (p + 24)) (\<lambda>d1. bind_run (rd64 k (p + 32)) (\<lambda>d2. bind_run (rd64 k (p + 40)) (\<lambda>d3.
     bind_run (rd64 k (p + 48)) (\<lambda>q. bind_run (rd32 k (p + 56)) (\<lambda>len.
       Done (zero_msg\<lparr>im_from := from, im_to := to, im_tag := tag, im_data := [d0, d1, d2, d3], im_ptr := q, im_len := len\<rparr>)))))))))"

section \<open>Operations\<close>

text \<open>\<open>q.lock.lock(); let ok = q.push(&msg); q.lock.unlock()\<close>, and making a blocked receiver ready.\<close>

definition enqueue :: "nat \<Rightarrow> ipc_msg \<Rightarrow> kernel \<Rightarrow> (bool \<times> kernel) run" where
  "enqueue to msg k =
     bind_run (arr_get (kn_queues k) to) (\<lambda>q. bind_run (lock (mq_lock q)) (\<lambda>l.
     bind_run (mq_push msg (q\<lparr>mq_lock := l\<rparr>)) (\<lambda>(ok, q').
       Done (ok, k\<lparr>kn_queues := (kn_queues k)[to := q'\<lparr>mq_lock := unlock (mq_lock q')\<rparr>]\<rparr>))))"

definition wake_blocked :: "nat \<Rightarrow> kernel \<Rightarrow> kernel run" where
  "wake_blocked to k =
     bind_run (arr_get (kn_threads k) to) (\<lambda>t.
       Done (if th_state t = Block then set_threads ((kn_threads k)[to := t\<lparr>th_state := Ready\<rparr>]) k else k))"

definition sys_ipc_send :: "u64 \<Rightarrow> kernel \<Rightarrow> i64 call" where
  "sys_ipc_send ptr k =
     bind_run (user_buf k ptr MSG_SIZE) (\<lambda>ok. if \<not> ok then ret FAULT k else
     bind_run (rd32 k (ptr + 4)) (\<lambda>to32. let to = unat to32 in
     if to \<ge> MAX_THREADS then ret INVAL k else
     bind_run (arr_get (kn_threads k) to) (\<lambda>t. if th_state t = Dead then ret INVAL k else
     bind_run (cur_thread k) (\<lambda>me. bind_run (rd_msg k ptr (th_id me)) (\<lambda>msg.
     bind_run (enqueue to msg k) (\<lambda>(ok, k1). if \<not> ok then ret AGAIN k1 else
     bind_run (wake_blocked to k1) (\<lambda>k2. ret ERR_OK k2)))))))"

text \<open>One attempt to take a message from the queue of slot \<open>c\<close>: it is copied out under the lock.\<close>

definition dequeue :: "nat \<Rightarrow> u64 \<Rightarrow> kernel \<Rightarrow> (bool \<times> kernel) run" where
  "dequeue c ptr k =
     bind_run (arr_get (kn_queues k) c) (\<lambda>q. bind_run (lock (mq_lock q)) (\<lambda>l.
     bind_run (mq_pop (q\<lparr>mq_lock := l\<rparr>)) (\<lambda>(r, q').
       let k1 = k\<lparr>kn_queues := (kn_queues k)[c := q'\<lparr>mq_lock := unlock (mq_lock q')\<rparr>]\<rparr> in
       case r of None \<Rightarrow> Done (False, k1)
       | Some msg \<Rightarrow> bind_run (put_bytes ptr (msg_bytes msg) k1) (\<lambda>k2. Done (True, k2)))))"

definition block_cur :: "nat \<Rightarrow> kernel \<Rightarrow> kernel run" where
  "block_cur c k =
     bind_run (arr_get (kn_threads k) c) (\<lambda>t. Done (set_threads ((kn_threads k)[c := t\<lparr>th_state := Block\<rparr>]) k))"

definition yield_call :: "kernel_env \<Rightarrow> kernel \<Rightarrow> (control \<times> kernel) run" where
  "yield_call E k = bind_run (thread_yield (ke_sched E) (kn_sched k)) (\<lambda>(ctl, s). Done (ctl, k\<lparr>kn_sched := s\<rparr>))"

text \<open>The loop of \<open>sys_ipc_recv\<close>. \<open>None\<close> stands for a loop that never ends.\<close>

partial_function (option) recv_loop :: "kernel_env \<Rightarrow> u64 \<Rightarrow> bool \<Rightarrow> nat \<Rightarrow> kernel \<Rightarrow> i64 call option" where
  "recv_loop E ptr blk c k =
     (case dequeue c ptr k of Panic \<Rightarrow> Some Panic | Hang \<Rightarrow> Some Hang
      | Done (got, k1) \<Rightarrow>
        if got then Some (ret ERR_OK k1) else if \<not> blk then Some (ret AGAIN k1)
        else case bind_run (block_cur c k1) (yield_call E) of Panic \<Rightarrow> Some Panic | Hang \<Rightarrow> Some Hang
          | Done (ctl, k2) \<Rightarrow> if ctl = Resume then recv_loop E ptr blk c k2 else Some (Done (Leave ctl Then_Retry, k2)))"

declare recv_loop.simps [code]

definition sys_ipc_recv :: "kernel_env \<Rightarrow> u64 \<Rightarrow> u64 \<Rightarrow> kernel \<Rightarrow> i64 call" where
  "sys_ipc_recv E ptr rsi k =
     bind_run (user_buf k ptr MSG_SIZE) (\<lambda>ok. if \<not> ok then ret FAULT k
       else loop_run (recv_loop E ptr (rsi \<noteq> 0) (kn_cur k) k))"

definition queue_len :: "kernel \<Rightarrow> nat \<Rightarrow> nat run" where
  "queue_len k c = bind_run (arr_get (kn_queues k) c) (\<lambda>q. Done (mq_len q))"

definition sys_ipc_poll :: "u64 \<Rightarrow> kernel \<Rightarrow> i64 call" where
  "sys_ipc_poll ptr k =
     bind_run (cur_thread k) (\<lambda>_.
     bind_run (if ptr \<noteq> 0
               then bind_run (user_buf k ptr 4) (\<lambda>ok. if \<not> ok then Done (False, k) else
                    bind_run (queue_len k (kn_cur k)) (\<lambda>n. bind_run (put_bytes ptr (le4 (of_nat n)) k) (\<lambda>k1. Done (True, k1))))
               else Done (True, k)) (\<lambda>(ok, k1).
     if \<not> ok then ret FAULT k1
     else bind_run (queue_len k1 (kn_cur k1)) (\<lambda>n. Done (Return (int n), k1))))"

definition k_send :: "nat \<Rightarrow> u32 \<Rightarrow> u64 list \<Rightarrow> kernel \<Rightarrow> (bool \<times> kernel) run" where
  "k_send to tag data k =
     (if to \<ge> MAX_THREADS then Done (False, k)
      else bind_run (arr_get (kn_threads k) to) (\<lambda>t. if th_state t = Dead then Done (False, k)
      else bind_run (enqueue to (zero_msg\<lparr>im_to := of_nat to, im_tag := tag, im_data := data\<rparr>) k) (\<lambda>(ok, k1).
        if ok then bind_run (wake_blocked to k1) (\<lambda>k2. Done (ok, k2)) else Done (ok, k1))))"

definition k_has_msgs :: "nat \<Rightarrow> kernel \<Rightarrow> bool run" where
  "k_has_msgs tid k =
     (if tid \<ge> MAX_THREADS then Done False
      else bind_run (arr_get (kn_queues k) tid) (\<lambda>q. Done (\<not> mq_is_empty q)))"

section \<open>Fields of a message in memory\<close>

lemma ld_seq_append: "ld_seq ld (xs @ ys) = bind_run (ld_seq ld xs) (\<lambda>bs. bind_run (ld_seq ld ys) (\<lambda>cs. Done (bs @ cs)))"
proof (induction xs)
  case Nil
  show ?case by (cases "ld_seq ld ys") simp_all
next
  case (Cons x xs)
  show ?case by (cases "ld x"; cases "ld_seq ld xs"; cases "ld_seq ld ys") (simp_all add: Cons)
qed

lemma ld_seq_length: "ld_seq ld xs = Done bs \<Longrightarrow> length bs = length xs"
  by (induction xs arbitrary: bs) (auto simp: bind_run_Done_iff)

lemma addrs_add: "addrs v (n + k) = addrs v n @ addrs (v + of_nat n) k"
proof -
  have "[0..<n + k] = [0..<n] @ map (\<lambda>i. i + n) [0..<k]" unfolding map_add_upt
    using upt_add_eq_append [of 0 n k] by (simp only: add.commute [of k n] le0)
  then have "addrs v (n + k) = addrs v n @ map (\<lambda>i. v + of_nat (i + n)) [0..<k]" by (simp add: addrs_def o_def)
  moreover have "v + of_nat (i + n) = v + of_nat n + (of_nat i :: u64)" for i by simp
  ultimately show ?thesis by (simp add: addrs_def)
qed

lemma ld_bytes_part:
  assumes "ld_bytes cr3 m v n = Done bs" "off + l \<le> n"
  shows "ld_bytes cr3 m (v + of_nat off) l = Done (take l (drop off bs))"
proof -
  obtain r where r: "n = off + (l + r)" using assms(2) by (metis add.assoc le_Suc_ex)
  have "addrs v n = addrs v off @ addrs (v + of_nat off) l @ addrs (v + of_nat off + of_nat l) r"
    unfolding r addrs_add ..
  with assms(1) have "bind_run (ld_seq (ld8 cr3 m) (addrs v off)) (\<lambda>bs. bind_run (bind_run (ld_seq (ld8 cr3 m) (addrs (v + of_nat off) l))
      (\<lambda>bs. bind_run (ld_seq (ld8 cr3 m) (addrs (v + of_nat off + of_nat l) r)) (\<lambda>cs. Done (bs @ cs)))) (\<lambda>cs. Done (bs @ cs))) = Done bs"
    by (simp only: ld_bytes_def ld_seq_append)
  then obtain b1 b2 b3 where b: "ld_seq (ld8 cr3 m) (addrs v off) = Done b1"
    "ld_seq (ld8 cr3 m) (addrs (v + of_nat off) l) = Done b2" "bs = b1 @ b2 @ b3"
    unfolding bind_run_Done_iff by blast
  have "length b1 = off" "length b2 = l" using ld_seq_length b(1,2) by fastforce+
  then show ?thesis using b by (simp add: ld_bytes_def)
qed

text \<open>The buffer at \<open>p\<close> holds the message \<open>m\<close>.\<close>

definition msg_at :: "kernel \<Rightarrow> u64 \<Rightarrow> ipc_msg \<Rightarrow> bool" where
  "msg_at k p m \<longleftrightarrow> length (im_data m) = 4 \<and> ld_bytes (kn_cr3 k) (kn_mem k) p 64 = Done (msg_bytes m)"

lemma four_words: "length xs = 4 \<Longrightarrow> \<exists>a b c d. xs = [a, b, c, d]"
  by (auto simp: length_Suc_conv numeral_eq_Suc)

lemma msg_bytes_length [simp]:
  assumes "length (im_data m) = 4"
  shows "length (msg_bytes m) = 64"
proof -
  obtain a b c d where "im_data m = [a, b, c, d]" using four_words [OF assms] by blast
  then show ?thesis by (simp add: msg_bytes_def)
qed

lemma rd_msg_at:
  assumes "msg_at k p m"
  shows "rd32 k (p + 4) = Done (im_to m)" "rd_msg k p f = Done (copy_msg m\<lparr>im_from := f\<rparr>)"
proof -
  obtain d0 d1 d2 d3 where d: "im_data m = [d0, d1, d2, d3]" using assms four_words
    unfolding msg_at_def by blast
  have ld: "ld_bytes (kn_cr3 k) (kn_mem k) p 64 = Done (msg_bytes m)" using assms by (simp add: msg_at_def)
  have bs: "msg_bytes m = le4 (im_from m) @ le4 (im_to m) @ le4 (im_tag m) @ le4 (im_pad m) @ le_bytes 8 d0 @ le_bytes 8 d1 @
    le_bytes 8 d2 @ le_bytes 8 d3 @ le_bytes 8 (im_ptr m) @ le4 (im_len m) @ le4 (im_pad2 m)" by (simp add: msg_bytes_def d)
  note part = ld_bytes_part [OF ld]
  have r32: "rd32 k (p + of_nat off) = Done x" if "off + 4 \<le> 64" "take 4 (drop off (msg_bytes m)) = le4 x" for off x
    using part [OF that(1)] that(2) by (simp add: rd32_def)
  have r64: "rd64 k (p + of_nat off) = Done x" if "off + 8 \<le> 64" "take 8 (drop off (msg_bytes m)) = le_bytes 8 x" for off x
    using part [OF that(1)] that(2) by (simp add: rd64_def)
  show to: "rd32 k (p + 4) = Done (im_to m)" using r32 [of 4 "im_to m"] by (simp add: bs)
  have "rd32 k (p + 8) = Done (im_tag m)" "rd32 k (p + 56) = Done (im_len m)" "rd64 k (p + 16) = Done d0"
    "rd64 k (p + 24) = Done d1" "rd64 k (p + 32) = Done d2" "rd64 k (p + 40) = Done d3" "rd64 k (p + 48) = Done (im_ptr m)"
    using r32 [of 8 "im_tag m"] r32 [of 56 "im_len m"] r64 [of 16 d0] r64 [of 24 d1] r64 [of 32 d2] r64 [of 40 d3]
      r64 [of 48 "im_ptr m"] by (simp_all add: bs)
  then show "rd_msg k p f = Done (copy_msg m\<lparr>im_from := f\<rparr>)" by (simp add: rd_msg_def to copy_msg_def zero_msg_def d)
qed

section \<open>Queue operations\<close>

lemma kernel_okD:
  assumes "kernel_ok k"
  shows "length (kn_threads k) = 64" "kn_cur k < 64" "length (kn_queues k) = 64" "i < 64 \<Longrightarrow> queue_ok (kn_queues k ! i)"
    "cur_thread k = Done (kn_threads k ! kn_cur k)"
  using assms by (auto simp: kernel_ok_def sched_ok_def cur_thread_def)

lemma queue_relock [simp]: "\<not> mq_lock q \<Longrightarrow> q\<lparr>mq_lock := False\<rparr> = q"
  by (cases q) simp

lemma queue_locked: "queue_ok q \<Longrightarrow> mq_ok (q\<lparr>mq_lock := True\<rparr>) \<and> mq_contents (q\<lparr>mq_lock := True\<rparr>) = mq_contents q"
  by (simp add: queue_ok_def mq_ok_def mq_contents_def)

lemma queue_unlocked: "mq_ok q \<Longrightarrow> mq_ok (q\<lparr>mq_lock := False\<rparr>) \<and> mq_contents (q\<lparr>mq_lock := False\<rparr>) = mq_contents q"
  by (simp add: mq_ok_def mq_contents_def)

lemma enqueue_full:
  assumes "kernel_ok k" "to < 64" "15 \<le> length (mq_contents (kn_queues k ! to))"
  shows "enqueue to msg k = Done (False, k)"
proof -
  let ?q = "kn_queues k ! to"
  have q: "queue_ok ?q" "to < length (kn_queues k)" using kernel_okD(3,4) [OF assms(1)] assms(2) by simp_all
  have "mq_push msg (?q\<lparr>mq_lock := True\<rparr>) = Done (False, ?q\<lparr>mq_lock := True\<rparr>)"
    using mq.put_full queue_locked [OF q(1)] assms(3) by simp
  then show ?thesis using q by (simp add: enqueue_def queue_ok_def unlock_def)
qed

lemma enqueue_room:
  assumes "kernel_ok k" "to < 64" "length (mq_contents (kn_queues k ! to)) < 15" "length (im_data msg) = 4"
  shows "\<exists>q. enqueue to msg k = Done (True, k\<lparr>kn_queues := (kn_queues k)[to := q]\<rparr>) \<and> queue_ok q \<and>
    mq_contents q = mq_contents (kn_queues k ! to) @ [copy_msg msg]"
proof -
  let ?q = "kn_queues k ! to"
  have q: "queue_ok ?q" "to < length (kn_queues k)" using kernel_okD(3,4) [OF assms(1)] assms(2) by simp_all
  from mq.put_room [of "?q\<lparr>mq_lock := True\<rparr>" msg] queue_locked [OF q(1)] assms(3) obtain q' where
    q': "mq_push msg (?q\<lparr>mq_lock := True\<rparr>) = Done (True, q')" "mq_ok q'" "mq_contents q' = mq_contents ?q @ [copy_msg msg]" by auto
  have "queue_ok (q'\<lparr>mq_lock := False\<rparr>)" using q(1) q'(3) queue_unlocked [OF q'(2)] assms(4)
    by (auto simp: queue_ok_def copy_msg_def)
  then show ?thesis using q q' queue_unlocked [OF q'(2)]
    by (intro exI [of _ "q'\<lparr>mq_lock := False\<rparr>"]) (simp add: enqueue_def queue_ok_def unlock_def)
qed

lemma set_queue_ok: "kernel_ok k \<Longrightarrow> queue_ok q \<Longrightarrow> kernel_ok (k\<lparr>kn_queues := (kn_queues k)[i := q]\<rparr>)"
  using set_update_subset_insert [of "kn_queues k" i q] by (auto simp: kernel_ok_def)

lemma set_thread_ok: "kernel_ok k \<Longrightarrow> kernel_ok (set_threads ((kn_threads k)[i := t]) k)"
  by (simp add: kernel_ok_def sched_ok_def)

lemma set_mem_ok: "kernel_ok k \<Longrightarrow> kernel_ok (k\<lparr>kn_mem := m\<rparr>)"
  by (simp add: kernel_ok_def)

text \<open>The state of a thread after a message has arrived for it.\<close>

definition woken_up :: "thread \<Rightarrow> thread" where
  "woken_up t = (if th_state t = Block then t\<lparr>th_state := Ready\<rparr> else t)"

lemma wake_blocked_result:
  assumes "kernel_ok k" "to < 64"
  shows "wake_blocked to k = Done (set_threads ((kn_threads k)[to := woken_up (kn_threads k ! to)]) k)"
proof -
  have "(kn_threads k)[to := kn_threads k ! to] = kn_threads k" by simp
  then have "set_threads ((kn_threads k)[to := kn_threads k ! to]) k = k" by simp
  then show ?thesis using kernel_okD(1) [OF assms(1)] assms(2) by (simp add: wake_blocked_def woken_up_def)
qed

text \<open>A message that is accepted.\<close>

lemma send_accept:
  assumes k: "kernel_ok k" "user_buf k ptr MSG_SIZE = Done True" "msg_at k ptr msg" and
    t: "unat (im_to msg) < 64" "th_state (kn_threads k ! unat (im_to msg)) \<noteq> Dead"
      "length (mq_contents (kn_queues k ! unat (im_to msg))) < 15"
  shows "\<exists>q. sys_ipc_send ptr k = Done (Return 0,
      set_threads ((kn_threads k)[unat (im_to msg) := woken_up (kn_threads k ! unat (im_to msg))])
        (k\<lparr>kn_queues := (kn_queues k)[unat (im_to msg) := q]\<rparr>)) \<and> queue_ok q \<and>
    mq_contents q = mq_contents (kn_queues k ! unat (im_to msg)) @ [copy_msg msg\<lparr>im_from := th_id (kn_threads k ! kn_cur k)\<rparr>]"
proof -
  let ?to = "unat (im_to msg)" and ?m = "copy_msg msg\<lparr>im_from := th_id (kn_threads k ! kn_cur k)\<rparr>"
  note kd = kernel_okD [OF k(1)]
  have d: "length (im_data ?m) = 4" using k(3) by (simp add: msg_at_def copy_msg_def)
  have cm: "copy_msg ?m = ?m" by (simp add: copy_msg_def)
  from enqueue_room [OF k(1) t(1,3) d] obtain q where
    q: "enqueue ?to ?m k = Done (True, k\<lparr>kn_queues := (kn_queues k)[?to := q]\<rparr>)" "queue_ok q"
      "mq_contents q = mq_contents (kn_queues k ! ?to) @ [?m]" unfolding cm by blast
  have k1: "kernel_ok (k\<lparr>kn_queues := (kn_queues k)[?to := q]\<rparr>)" by (rule set_queue_ok [OF k(1) q(2)])
  have "sys_ipc_send ptr k = Done (Return 0,
      set_threads ((kn_threads k)[?to := woken_up (kn_threads k ! ?to)]) (k\<lparr>kn_queues := (kn_queues k)[?to := q]\<rparr>))"
    using rd_msg_at [OF k(3)] k(2) t(1,2) kd(1,5) q(1) wake_blocked_result [OF k1 t(1)]
    by (simp add: sys_ipc_send_def Let_def ret_def)
  then show ?thesis using q(2,3) by blast
qed

lemma dequeue_none:
  assumes "kernel_ok k" "c < 64" "mq_contents (kn_queues k ! c) = []"
  shows "dequeue c ptr k = Done (False, k)"
proof -
  let ?q = "kn_queues k ! c"
  have q: "queue_ok ?q" "c < length (kn_queues k)" using kernel_okD(3,4) [OF assms(1)] assms(2) by simp_all
  have "mq_pop (?q\<lparr>mq_lock := True\<rparr>) = Done (None, ?q\<lparr>mq_lock := True\<rparr>)"
    using mq.get_empty queue_locked [OF q(1)] assms(3) by simp
  then show ?thesis using q by (simp add: dequeue_def queue_ok_def unlock_def)
qed

lemma dequeue_some:
  assumes k: "kernel_ok k" "c < 64" "mq_contents (kn_queues k ! c) = m # ms" and b: "buf_fit (kn_cr3 k) ptr 64 (kn_mem k)"
  shows "\<exists>q mem. dequeue c ptr k = Done (True, k\<lparr>kn_queues := (kn_queues k)[c := q], kn_mem := mem\<rparr>) \<and> queue_ok q \<and>
    mq_contents q = ms \<and> ld_bytes (kn_cr3 k) mem ptr 64 = Done (msg_bytes m) \<and> data_only (kn_cr3 k) (kn_mem k) mem"
proof -
  let ?q = "kn_queues k ! c"
  have q: "queue_ok ?q" "c < length (kn_queues k)" using kernel_okD(3,4) [OF k(1)] k(2) by simp_all
  have d: "length (im_data m) = 4" using q(1) k(3) by (simp add: queue_ok_def)
  from mq.get_some [of "?q\<lparr>mq_lock := True\<rparr>" m ms] queue_locked [OF q(1)] k(3) obtain q' where
    q': "mq_pop (?q\<lparr>mq_lock := True\<rparr>) = Done (Some m, q')" "mq_ok q'" "mq_contents q' = ms" by auto
  from st_bytes_ok [of "kn_cr3 k" ptr "msg_bytes m" "kn_mem k"] b msg_bytes_length [OF d] obtain mem where
    mem: "st_bytes (kn_cr3 k) ptr (msg_bytes m) (kn_mem k) = Done mem" "ld_bytes (kn_cr3 k) mem ptr 64 = Done (msg_bytes m)"
      "data_only (kn_cr3 k) (kn_mem k) mem" by auto
  have "queue_ok (q'\<lparr>mq_lock := False\<rparr>)" using q(1) k(3) q'(3) queue_unlocked [OF q'(2)] by (auto simp: queue_ok_def)
  then show ?thesis using q q' queue_unlocked [OF q'(2)] mem
    by (intro exI [of _ "q'\<lparr>mq_lock := False\<rparr>"] exI [of _ mem]) (simp add: dequeue_def queue_ok_def unlock_def put_bytes_def)
qed

lemma recv_take:
  assumes "kernel_ok k" "user_buf k dst MSG_SIZE = Done True" "mq_contents (kn_queues k ! kn_cur k) = m # ms"
    "buf_fit (kn_cr3 k) dst 64 (kn_mem k)"
  shows "\<exists>q mem. sys_ipc_recv E dst rsi k = Done (Return 0, k\<lparr>kn_queues := (kn_queues k)[kn_cur k := q], kn_mem := mem\<rparr>) \<and>
    queue_ok q \<and> mq_contents q = ms \<and> ld_bytes (kn_cr3 k) mem dst 64 = Done (msg_bytes m) \<and> data_only (kn_cr3 k) (kn_mem k) mem"
proof -
  note kd = kernel_okD [OF assms(1)]
  from dequeue_some [OF assms(1) kd(2) assms(3,4)] obtain q mem where
    d: "dequeue (kn_cur k) dst k = Done (True, k\<lparr>kn_queues := (kn_queues k)[kn_cur k := q], kn_mem := mem\<rparr>)" "queue_ok q"
      "mq_contents q = ms" "ld_bytes (kn_cr3 k) mem dst 64 = Done (msg_bytes m)" "data_only (kn_cr3 k) (kn_mem k) mem" by blast
  then show ?thesis using assms(2)
    by (intro exI [of _ q] exI [of _ mem]) (simp add: sys_ipc_recv_def recv_loop.simps loop_run_def ret_def)
qed

text \<open>Waiting: the scheduler never answers a blocked caller with \<open>Resume\<close>, so one round of the loop is enough.\<close>

lemma recv_wait:
  assumes k: "kernel_ok k" and e: "mq_contents (kn_queues k ! kn_cur k) = []"
  shows "\<exists>ctl s. recv_loop E ptr True (kn_cur k) k = Some (Done (Leave ctl Then_Retry, k\<lparr>kn_sched := s\<rparr>)) \<and> ctl \<noteq> Resume \<and>
    sched_ok s \<and> state_of s (kn_cur k) =
      (if sc_cur s = kn_cur k then Run
       else if th_wake_tick (kn_threads k ! kn_cur k) \<noteq> 0 \<and> th_wake_tick (kn_threads k ! kn_cur k) \<le> sc_tick (kn_sched k)
       then Ready else Block)"
proof -
  note kd = kernel_okD [OF k]
  let ?c = "kn_cur k" and ?t = "kn_threads k ! kn_cur k"
  let ?s = "(kn_sched k)\<lparr>sc_threads := (kn_threads k)[?c := ?t\<lparr>th_state := Block\<rparr>]\<rparr>"
  have so: "sched_ok ?s" using k by (simp add: kernel_ok_def sched_ok_def)
  have b: "state_of ?s ?c = Block" using kd(1,2) by (simp add: state_of_def)
  from schedule_result [OF so, of "ke_sched E"] obtain ctl s where
    s: "schedule (ke_sched E) ?s = Done (ctl, s)" "sched_ok s"
      "\<forall>i < 64. state_of s i = (if i = sc_cur s then Run else if i = sc_cur ?s \<and> state_of ?s (sc_cur ?s) = Run then Ready
          else th_state (woken ?s ! i))"
      "(ctl = Resume) = (sc_cur s = sc_cur ?s \<and> state_of ?s (sc_cur ?s) = Run)" by blast
  have nr: "ctl \<noteq> Resume" using s(4) b by simp
  have w: "th_state (woken ?s ! ?c) =
     (if th_wake_tick ?t \<noteq> 0 \<and> th_wake_tick ?t \<le> sc_tick (kn_sched k) then Ready else Block)"
    using kd(1,2) by (simp add: woken_def wake_def)
  have "state_of s ?c = (if sc_cur s = ?c then Run
     else if th_wake_tick ?t \<noteq> 0 \<and> th_wake_tick ?t \<le> sc_tick (kn_sched k) then Ready else Block)"
    using s(3) [rule_format, OF kd(2)] b w by auto
  moreover have "recv_loop E ptr True ?c k = Some (Done (Leave ctl Then_Retry, k\<lparr>kn_sched := s\<rparr>))"
    using s(1) nr kd(1,2) by (subst recv_loop.simps)
      (simp add: dequeue_none [OF k kd(2) e] block_cur_def yield_call_def thread_yield_def)
  ultimately show ?thesis using nr s(2) by blast
qed

section \<open>Properties\<close>


text \<open>
  C10: a message arrives as it was sent. When a send succeeds and the receiver later finds that message at the front of its
  queue, \<open>sys_ipc_recv\<close> writes exactly the message into the receiver's buffer, its sender field naming the thread that
  sent it, removes it from the queue, and changes no page table.
\<close>

theorem message_delivered:
  assumes s: "kernel_ok k" "user_buf k ptr MSG_SIZE = Done True" "msg_at k ptr msg" "unat (im_to msg) < MAX_THREADS"
      "th_state (kn_threads k ! unat (im_to msg)) \<noteq> Dead" "length (mq_contents (kn_queues k ! unat (im_to msg))) < 15"
    and r: "kernel_ok k2" "kn_cur k2 = unat (im_to msg)" "user_buf k2 dst MSG_SIZE = Done True" "buf_fit (kn_cr3 k2) dst 64 (kn_mem k2)"
      "mq_contents (kn_queues k2 ! kn_cur k2) = last (mq_contents (kn_queues k1 ! kn_cur k2)) # later"
    and k1: "sys_ipc_send ptr k = Done (Return 0, k1)"
  shows "\<exists>k3. sys_ipc_recv E dst rsi k2 = Done (Return 0, k3) \<and> kernel_ok k3 \<and> mq_contents (kn_queues k3 ! kn_cur k3) = later \<and>
    msg_at k3 dst (copy_msg msg\<lparr>im_from := th_id (kn_threads k ! kn_cur k)\<rparr>) \<and> data_only (kn_cr3 k2) (kn_mem k2) (kn_mem k3)"
proof -
  let ?to = "unat (im_to msg)" and ?m = "copy_msg msg\<lparr>im_from := th_id (kn_threads k ! kn_cur k)\<rparr>"
  from send_accept [OF s] obtain q where q: "kn_queues k1 = (kn_queues k)[?to := q]"
    "mq_contents q = mq_contents (kn_queues k ! ?to) @ [?m]" using k1 by auto
  have "kn_queues k1 ! ?to = q" using q(1) s(4) kernel_okD(3) [OF s(1)] by simp
  then have c: "mq_contents (kn_queues k2 ! kn_cur k2) = ?m # later" using r(2,5) q(2) by simp
  from recv_take [OF r(1,3) c r(4), of E rsi] obtain q3 mem where
    q3: "sys_ipc_recv E dst rsi k2 = Done (Return 0, k2\<lparr>kn_queues := (kn_queues k2)[kn_cur k2 := q3], kn_mem := mem\<rparr>)" "queue_ok q3"
      "mq_contents q3 = later" "ld_bytes (kn_cr3 k2) mem dst 64 = Done (msg_bytes ?m)" "data_only (kn_cr3 k2) (kn_mem k2) mem" by blast
  have "length (im_data ?m) = 4" using s(3) by (simp add: msg_at_def copy_msg_def)
  then show ?thesis using q3 set_mem_ok [OF set_queue_ok [OF r(1) q3(2)]] kernel_okD(2,3) [OF r(1)]
    by (simp add: msg_at_def)
qed

text \<open>
  \<open>sys_ipc_recv\<close> never spins. With a message waiting it returns at once; with an empty queue and no wish to wait it
  returns AGAIN without any effect; otherwise it gives the processor away after one look at the queue, the caller blocked
  (unless a forgotten wake-up time has passed, or no thread is ready and the caller is kept running).
\<close>

theorem recv_never_spins:
  assumes "kernel_ok k" "user_buf k dst MSG_SIZE = Done True" "buf_fit (kn_cr3 k) dst 64 (kn_mem k)"
  shows "case mq_contents (kn_queues k ! kn_cur k) of
      m # ms \<Rightarrow> \<exists>k'. sys_ipc_recv E dst rsi k = Done (Return (err_code ERR_OK), k') \<and> mq_contents (kn_queues k' ! kn_cur k') = ms
    | [] \<Rightarrow> if rsi = 0 then sys_ipc_recv E dst rsi k = Done (Return (err_code AGAIN), k)
        else \<exists>ctl s. sys_ipc_recv E dst rsi k = Done (Leave ctl Then_Retry, k\<lparr>kn_sched := s\<rparr>) \<and> ctl \<noteq> Resume \<and> sched_ok s \<and>
          state_of s (kn_cur k) =
            (if sc_cur s = kn_cur k then Run
             else if th_wake_tick (kn_threads k ! kn_cur k) \<noteq> 0 \<and> th_wake_tick (kn_threads k ! kn_cur k) \<le> sc_tick (kn_sched k)
             then Ready else Block)"
proof (cases "mq_contents (kn_queues k ! kn_cur k)")
  case Nil
  note kd = kernel_okD [OF assms(1)]
  show ?thesis
  proof (cases "rsi = 0")
    case True
    then show ?thesis using Nil assms(2) dequeue_none [OF assms(1) kd(2) Nil, of dst]
      by (simp add: sys_ipc_recv_def recv_loop.simps loop_run_def ret_def)
  next
    case False
    have e: "sys_ipc_recv E dst rsi k = loop_run (recv_loop E dst True (kn_cur k) k)" using False assms(2)
      by (simp add: sys_ipc_recv_def)
    from recv_wait [OF assms(1) Nil, of E dst] obtain ctl s where
      "recv_loop E dst True (kn_cur k) k = Some (Done (Leave ctl Then_Retry, k\<lparr>kn_sched := s\<rparr>))" "ctl \<noteq> Resume" "sched_ok s"
      "state_of s (kn_cur k) = (if sc_cur s = kn_cur k then Run
         else if th_wake_tick (kn_threads k ! kn_cur k) \<noteq> 0 \<and> th_wake_tick (kn_threads k ! kn_cur k) \<le> sc_tick (kn_sched k)
         then Ready else Block)" by blast
    then show ?thesis unfolding Nil e using False by (simp only: loop_run_def option.simps list.simps if_False) blast
  qed
next
  case (Cons m ms)
  from recv_take [OF assms(1,2) Cons assms(3), of E rsi] Cons kernel_okD(2,3) [OF assms(1)] show ?thesis by auto
qed

section \<open>Examples\<close>

text \<open>Slot 0 runs in the sample address space; its user page holds zeros, which is a message to slot 0 itself.\<close>

definition sample_kernel :: kernel where
  "sample_kernel = set_threads ((replicate 64 thread_new)[0 := thread_new\<lparr>th_state := Run, th_cr3 := 0x1000, th_id := 7\<rparr>])
     (kernel_boot 0x1000 sample)"

lemma sample_kernel_ok: "kernel_ok sample_kernel"
  using kernel_boot_ok [of "0x1000" sample] by (simp add: sample_kernel_def kernel_ok_def sched_ok_def)

lemma sample_kernel_simps [simp]: "kn_cur sample_kernel = 0" "kn_cr3 sample_kernel = 0x1000" "kn_mem sample_kernel = sample"
  "kn_threads sample_kernel ! 0 = thread_new\<lparr>th_state := Run, th_cr3 := 0x1000, th_id := 7\<rparr>"
  "kn_queues sample_kernel = replicate 64 msg_queue_new"
  by (simp_all add: sample_kernel_def kernel_boot_def sched_boot_def)

lemma sample_cur: "cur_thread sample_kernel = Done (thread_new\<lparr>th_state := Run, th_cr3 := 0x1000, th_id := 7\<rparr>)"
  using kernel_okD(5) [OF sample_kernel_ok] by simp

lemma sample_user_buf: "n \<noteq> 0 \<Longrightarrow> n \<le> 4096 \<Longrightarrow> user_buf sample_kernel 0x400000 (of_nat n) = Done True"
  using sample_valid_buf [of n] by (simp add: user_buf_def sample_cur)

lemma sample_zero: "i < 4096 \<Longrightarrow> ld8 0x1000 sample (0x400000 + of_nat i) = Done 0"
proof -
  assume i: "i < 4096"
  have b: "(0x400000 :: u64) AND 0xFFF = 0" "unat (0x400000 :: u64) + 4096 \<le> 2 ^ 48" by simp_all
  have pg: "page_of (0x5000 OR of_nat i) = 0x5000" using frame_or_offset(1) [OF sample_aligned(5) i] .
  have "unat (page_of (0x5000 OR (of_nat i :: u64))) = 0x5000" using pg by simp
  then have "unat (0x5000 OR (of_nat i :: u64)) div 4096 = 5" unfolding page_of_div by simp
  then have "0x5000 \<le> unat (0x5000 OR (of_nat i :: u64))" using div_times_less_eq_dividend [of "unat (0x5000 OR (of_nat i :: u64))" 4096] by simp
  then have "0x5000 div 8 \<le> unat (0x5000 OR (of_nat i :: u64)) div 8" by (rule div_le_mono)
  then have ge: "unat (0x5000 OR (of_nat i :: u64)) div 8 * 8 \<ge> 0x5000" by simp
  then have "unat (word_addr (0x5000 OR of_nat i)) \<ge> 0x5000" by (simp add: word_addr_div)
  then have "pm_mem sample (word_addr (0x5000 OR of_nat i)) = 0" by (auto simp: sample_def)
  then have "mem_byte sample (0x5000 OR of_nat i) = 0" by (simp add: mem_byte_def)
  moreover have "virt_to_phys sample 0x1000 (0x400000 + of_nat i) = Some (0x5000 OR of_nat i)"
    using sample_virt [OF in_page(1) [OF b i]] in_page(2) [OF b i] by simp
  ultimately show ?thesis by (simp add: ld8_def)
qed

lemma sample_msg: "msg_at sample_kernel 0x400000 zero_msg"
proof -
  have "ld_seq (ld8 0x1000 sample) (map (\<lambda>i. 0x400000 + of_nat i) is) = Done (replicate (length is) 0)"
    if "set is \<subseteq> {..<64}" for "is" :: "nat list"
    using that by (induction "is") (simp_all add: sample_zero)
  from this [of "[0..<64]"] have "ld_bytes 0x1000 sample 0x400000 64 = Done (replicate 64 0)"
    by (simp add: ld_bytes_def addrs_def atLeast0LessThan del: upt_rec_numeral)
  moreover have "msg_bytes zero_msg = replicate 64 0"
    by (simp add: msg_bytes_def zero_msg_def le_bytes_def map_replicate_const numeral_eq_Suc)
  ultimately show ?thesis by (simp add: msg_at_def zero_msg_def)
qed

lemma MSG_SIZE_nat: "MSG_SIZE = of_nat 64"
  by (simp add: MSG_SIZE_def)


theorem recv_never_spins_witness: "sys_ipc_recv (env_of 0x1000) 0x400000 0 sample_kernel = Done (Return (-5), sample_kernel)"
proof -
  have u: "user_buf sample_kernel 0x400000 MSG_SIZE = Done True" unfolding MSG_SIZE_nat by (rule sample_user_buf) simp_all
  have b: "buf_fit (kn_cr3 sample_kernel) 0x400000 64 (kn_mem sample_kernel)" using sample_buf [of 64] by simp
  have c: "mq_contents msg_queue_new = []" using mq_new by simp
  from recv_never_spins [OF sample_kernel_ok u b, of 0 "env_of 0x1000"] show ?thesis by (simp add: c)
qed

theorem message_delivered_witness:
  "\<exists>k1 k3. sys_ipc_send 0x400000 sample_kernel = Done (Return 0, k1) \<and> sys_ipc_recv (env_of 0x1000) 0x400000 1 k1 = Done (Return 0, k3) \<and>
     msg_at k3 0x400000 (zero_msg\<lparr>im_from := 7\<rparr>)"
proof -
  have u: "user_buf sample_kernel 0x400000 MSG_SIZE = Done True" unfolding MSG_SIZE_nat by (rule sample_user_buf) simp_all
  have z: "unat (im_to zero_msg) = 0" by (simp add: zero_msg_def)
  have c: "mq_contents msg_queue_new = []" using mq_new by simp
  have cm: "copy_msg zero_msg\<lparr>im_from := 7\<rparr> = zero_msg\<lparr>im_from := 7\<rparr>" by simp
  have s: "th_state (kn_threads sample_kernel ! unat (im_to zero_msg)) \<noteq> Dead" "unat (im_to zero_msg) < 64"
    "length (mq_contents (kn_queues sample_kernel ! unat (im_to zero_msg))) < 15" unfolding z by (simp_all add: c)
  from send_accept [OF sample_kernel_ok u sample_msg s(2,1,3)] obtain q where
    q: "sys_ipc_send 0x400000 sample_kernel = Done (Return 0, set_threads ((kn_threads sample_kernel)[0 := woken_up (kn_threads sample_kernel ! 0)])
          (sample_kernel\<lparr>kn_queues := (kn_queues sample_kernel)[0 := q]\<rparr>))" "queue_ok q" "mq_contents q = [zero_msg\<lparr>im_from := 7\<rparr>]"
    unfolding z by (auto simp: c)
  let ?k1 = "set_threads ((kn_threads sample_kernel)[0 := woken_up (kn_threads sample_kernel ! 0)])
          (sample_kernel\<lparr>kn_queues := (kn_queues sample_kernel)[0 := q]\<rparr>)"
  have k1: "kernel_ok ?k1" using set_thread_ok [OF set_queue_ok [OF sample_kernel_ok q(2)]] by simp
  have "cur_thread ?k1 = Done (thread_new\<lparr>th_state := Run, th_cr3 := 0x1000, th_id := 7\<rparr>)"
    using kernel_okD(1,2,5) [OF k1] kernel_okD(1) [OF sample_kernel_ok] by (simp add: woken_up_def)
  then have u1: "user_buf ?k1 0x400000 MSG_SIZE = Done True" unfolding MSG_SIZE_nat using sample_valid_buf [of 64] by (simp add: user_buf_def)
  have b: "buf_fit (kn_cr3 ?k1) 0x400000 64 (kn_mem ?k1)" using sample_buf [of 64] by simp
  have front: "mq_contents (kn_queues ?k1 ! kn_cur ?k1) = last (mq_contents (kn_queues ?k1 ! kn_cur ?k1)) # []" using q(3) by simp
  have "kn_cur ?k1 = unat (im_to zero_msg)" unfolding z by simp
  from message_delivered [OF sample_kernel_ok u sample_msg s(2,1,3) k1 this u1 b front q(1), of "env_of 0x1000" 1] q(1) show ?thesis
    by (auto simp: cm)
qed

end
