(* ===== verification/Syscalls.thy ===== *)
theory Syscalls
  imports Ipc_Calls Spawn Syscall_Abi
begin

text \<open>
  The system calls of \<^verbatim>\<open>syscall_api.rs\<close> and the dispatcher \<open>syscall_dispatch_v2\<close> behind the policy gate. A handler reads
  its arguments from the trap frame and answers with a result and the new state of the kernel.
\<close>

section \<open>Trap frame and structures\<close>

record tf =
  tf_r15 :: u64
  tf_r14 :: u64
  tf_r13 :: u64
  tf_r12 :: u64
  tf_r11 :: u64
  tf_r10 :: u64
  tf_r9 :: u64
  tf_r8 :: u64
  tf_rdi :: u64
  tf_rsi :: u64
  tf_rdx :: u64
  tf_rcx :: u64
  tf_rbx :: u64
  tf_rbp :: u64
  tf_rax :: u64
  tf_rip :: u64
  tf_cs :: u64
  tf_rflags :: u64
  tf_rsp :: u64
  tf_ss :: u64

definition SPAWN_USER :: u32 where "SPAWN_USER = 1"

definition thread_info_bytes :: "u32 \<Rightarrow> u8 \<Rightarrow> u8 list" where
  "thread_info_bytes tid prio = le4 tid @ [prio, 0, 0, 0]"

definition time_info_bytes :: "u64 \<Rightarrow> u64 \<Rightarrow> u8 list" where
  "time_info_bytes ticks uptime = le_bytes 8 ticks @ le_bytes 8 uptime"

definition fb_info_bytes :: "u64 \<Rightarrow> fb_info \<Rightarrow> u64 \<Rightarrow> u8 list" where
  "fb_info_bytes virt f sz = le_bytes 8 virt @ le_bytes 8 (fb_phys f) @ le4 (fb_width f) @ le4 (fb_height f) @ le4 (fb_pitch f) @
     le4 (fb_bpp f) @ le_bytes 8 sz"

section \<open>Handlers\<close>

abbreviation set_mem :: "kernel \<Rightarrow> pmm \<Rightarrow> kernel" where "set_mem k m \<equiv> k\<lparr>kn_mem := m\<rparr>"

definition FB_USER_VADDR :: u64 where "FB_USER_VADDR = 0x0000600000000000"

text \<open>\<open>for i in 0..fb_pages { vmap(p4, va, pa, PTE_W | PTE_U); }\<close>, results ignored.\<close>

fun map_fb :: "u64 \<Rightarrow> u64 \<Rightarrow> nat list \<Rightarrow> pmm \<Rightarrow> pmm run" where
  "map_fb p4 phys [] m = Done m"
| "map_fb p4 phys (i # is) m =
     bind_run (vmap p4 (FB_USER_VADDR + of_nat i * PAGE_SIZE) (phys + of_nat i * PAGE_SIZE) (PTE_W OR PTE_U) m) (\<lambda>(_, m1). map_fb p4 phys is m1)"

definition sys_get_fb_info :: "tf \<Rightarrow> kernel \<Rightarrow> i64 call" where
  "sys_get_fb_info t k =
     bind_run (cur_thread k) (\<lambda>th. bind_run (user_buf k (tf_rdi t) 40) (\<lambda>ok. if \<not> ok then ret FAULT k else
     let f = kn_fb k in
     if fb_phys f = 0 \<or> fb_width f = 0 \<or> fb_height f = 0 then ret INVAL k else
     let fb_bytes = ucast (fb_pitch f) * ucast (fb_height f); pages = unat ((fb_bytes + PAGE_SIZE - 1) div PAGE_SIZE) in
     bind_run (map_fb (th_cr3 th) (fb_phys f) [0..<pages] (kn_mem k)) (\<lambda>m.
     bind_run (put_bytes (tf_rdi t) (fb_info_bytes FB_USER_VADDR f fb_bytes) (set_mem k m)) (ret ERR_OK))))"

text \<open>The end of a call that gives up the processor: a plain \<open>Resume\<close> continues in the handler.\<close>

definition after_yield :: "control \<times> kernel \<Rightarrow> i64 call" where
  "after_yield ck = (case ck of (ctl, k) \<Rightarrow> if ctl = Resume then ret ERR_OK k else Done (Leave ctl Then_Ok, k))"

definition sys_exit :: "kernel_env \<Rightarrow> kernel \<Rightarrow> i64 call" where
  "sys_exit E k =
     bind_run (exit_current (ke_sched E) (kn_sched k)) (\<lambda>(ctl, s). after_yield (ctl, k\<lparr>kn_sched := s\<rparr>))"

definition sys_write :: "tf \<Rightarrow> kernel \<Rightarrow> i64 call" where
  "sys_write t k =
     (let fd = tf_rdi t; ptr = tf_rsi t; len = tf_rdx t in
      if fd \<noteq> 1 \<and> fd \<noteq> 2 then ret INVAL k
      else if len = 0 then ret ERR_OK k
      else if len > 65536 then ret INVAL k
      else bind_run (user_buf k ptr len) (\<lambda>ok. if \<not> ok then ret FAULT k else
        bind_run (lock (vg_lock (kn_vga k))) (\<lambda>l.
        bind_run (ld_bytes (kn_cr3 k) (kn_mem k) ptr (unat len)) (\<lambda>bs.
        let v = print_raw (map ucast bs) ((kn_vga k)\<lparr>vg_lock := l\<rparr>) in
          Done (Return (int (unat len)), k\<lparr>kn_vga := v\<lparr>vg_lock := unlock (vg_lock v)\<rparr>\<rparr>)))))"

text \<open>\<open>while n < len { match kb_pop() ... }\<close>, with the number of bytes left.\<close>

fun read_loop :: "u64 \<Rightarrow> nat \<Rightarrow> nat \<Rightarrow> kernel \<Rightarrow> (nat \<times> kernel) run" where
  "read_loop ptr n 0 k = Done (n, k)"
| "read_loop ptr n (Suc left) k =
     bind_run (kb_pop (kn_kbd k)) (\<lambda>(c, kb). case c of
       None \<Rightarrow> Done (n, k\<lparr>kn_kbd := kb\<rparr>)
     | Some ch \<Rightarrow> bind_run (put_bytes (ptr + of_nat n) [ch] (k\<lparr>kn_kbd := kb\<rparr>)) (\<lambda>k1.
         if ch = 0x0A then Done (n + 1, k1) else read_loop ptr (n + 1) left k1))"

definition sys_read :: "tf \<Rightarrow> kernel \<Rightarrow> i64 call" where
  "sys_read t k =
     (let fd = tf_rdi t; ptr = tf_rsi t; len = tf_rdx t in
      if fd \<noteq> 0 then ret INVAL k
      else if len = 0 then ret ERR_OK k
      else bind_run (user_buf k ptr len) (\<lambda>ok. if \<not> ok then ret FAULT k else
        bind_run (read_loop ptr 0 (unat len) k) (\<lambda>(n, k1).
          if n = 0 then ret AGAIN k1 else Done (Return (int n), k1))))"

definition sys_yield :: "kernel_env \<Rightarrow> kernel \<Rightarrow> i64 call" where
  "sys_yield E k = bind_run (yield_call E k) after_yield"

definition trim_zeros :: "u8 list \<Rightarrow> u8 list" where
  "trim_zeros bs = rev (dropWhile (\<lambda>b. b = 0) (rev bs))"

definition sys_spawn :: "kernel_env \<Rightarrow> tf \<Rightarrow> kernel \<Rightarrow> i64 call" where
  "sys_spawn E t k =
     (let ptr = tf_rdi t in
      bind_run (user_buf k ptr 40) (\<lambda>ok. if \<not> ok then ret FAULT k else
      bind_run (ld_bytes (kn_cr3 k) (kn_mem k) (ptr + 24) 16) (\<lambda>nb.
      let name = trim_zeros (case utf8 nb of None \<Rightarrow> map of_char ''thread'' | Some _ \<Rightarrow> nb) in
      bind_run (rd32 k (ptr + 20)) (\<lambda>flags.
      if flags AND SPAWN_USER \<noteq> 0
      then bind_run (new_user_p4 (K_P4 E) (kn_mem k)) (\<lambda>(cr3, m).
           let k1 = set_mem k m in
           bind_run (rd64 k1 ptr) (\<lambda>entry. bind_run (rd64 k1 (ptr + 8)) (\<lambda>arg.
           bind_run (spawn_user_on_cr3 E name entry arg cr3 k1) (\<lambda>(tid, k2).
             if tid \<ge> 0 then Done (Return tid, k2) else ret NOSLOT k2))))
      else ret PERM k))))"

definition sys_sleep :: "kernel_env \<Rightarrow> tf \<Rightarrow> kernel \<Rightarrow> i64 call" where
  "sys_sleep E t k =
     (let ticks = tf_rdi t; c = kn_cur k in
      if ticks = 0 then ret ERR_OK k
      else bind_run (arr_get (kn_threads k) c) (\<lambda>th.
        bind_run (yield_call E (set_threads ((kn_threads k)[c := th\<lparr>th_wake_tick := sc_tick (kn_sched k) + ticks, th_state := Block\<rparr>]) k))
          after_yield))"

text \<open>The loop of \<open>sys_mem_alloc\<close>: the page at which \<open>vmap\<close> failed, if any.\<close>

fun alloc_loop :: "u64 \<Rightarrow> u64 \<Rightarrow> nat list \<Rightarrow> pmm \<Rightarrow> (nat option \<times> pmm) run" where
  "alloc_loop p4 vbase [] m = Done (None, m)"
| "alloc_loop p4 vbase (i # is) m =
     bind_run (mm_alloc m) (\<lambda>(phys, m1). bind_run (vmap p4 (vbase + of_nat i * PAGE_SIZE) phys (PTE_W OR PTE_U) m1) (\<lambda>(r, m2).
       if r \<noteq> 0 then Done (Some i, m2) else alloc_loop p4 vbase is (zero_page phys m2)))"

definition alloc_base :: "u64 \<Rightarrow> u64" where
  "alloc_base hint = ((if hint \<noteq> 0 \<and> hint \<ge> 0x1000 then hint else 0x10000000) + 0xFFF) AND NOT 0xFFF"

definition sys_mem_alloc :: "tf \<Rightarrow> kernel \<Rightarrow> i64 call" where
  "sys_mem_alloc t k =
     (let pages = tf_rdi t; vbase = alloc_base (tf_rsi t) in
      if pages = 0 \<or> pages > 512 then ret INVAL k
      else bind_run (cur_thread k) (\<lambda>th. bind_run (alloc_loop (th_cr3 th) vbase [0..<unat pages] (kn_mem k)) (\<lambda>(failed, m).
        case failed of None \<Rightarrow> Done (Return (as_i64 vbase), set_mem k m)
        | Some i \<Rightarrow> if i > 0 then Done (Return (as_i64 vbase), set_mem k m) else ret NOMEM (set_mem k m))))"

fun free_loop :: "u64 \<Rightarrow> u64 \<Rightarrow> nat list \<Rightarrow> pmm \<Rightarrow> pmm run" where
  "free_loop p4 ptr [] m = Done m"
| "free_loop p4 ptr (i # is) m =
     (let v = ptr + of_nat i * PAGE_SIZE in
      case virt_to_phys m p4 v of None \<Rightarrow> free_loop p4 ptr is m
      | Some phys \<Rightarrow> bind_run (mm_free_phys phys m) (\<lambda>m1. bind_run (vunmap p4 v m1) (free_loop p4 ptr is)))"

definition sys_mem_free :: "tf \<Rightarrow> kernel \<Rightarrow> i64 call" where
  "sys_mem_free t k =
     (let ptr = tf_rdi t; pages = tf_rsi t in
      if ptr = 0 \<or> ptr AND 0xFFF \<noteq> 0 then ret INVAL k
      else if pages = 0 \<or> pages > 512 then ret INVAL k
      else bind_run (cur_thread k) (\<lambda>th. bind_run (free_loop (th_cr3 th) ptr [0..<unat pages] (kn_mem k)) (\<lambda>m.
        ret ERR_OK (set_mem k m))))"

definition sys_thread_id :: "tf \<Rightarrow> kernel \<Rightarrow> i64 call" where
  "sys_thread_id t k =
     (let ptr = tf_rdi t in
      bind_run (cur_thread k) (\<lambda>th.
      if ptr \<noteq> 0
      then bind_run (user_buf k ptr 8) (\<lambda>ok. if \<not> ok then ret FAULT k else
           bind_run (put_bytes ptr (thread_info_bytes (th_id th) (th_prio th)) k) (\<lambda>k1. Done (Return (int (unat (th_id th))), k1)))
      else Done (Return (int (unat (th_id th))), k)))"

definition sys_time :: "tf \<Rightarrow> kernel \<Rightarrow> i64 call" where
  "sys_time t k =
     (let ptr = tf_rdi t; tick = sc_tick (kn_sched k) in
      bind_run (cur_thread k) (\<lambda>_.
      if ptr \<noteq> 0
      then bind_run (user_buf k ptr 16) (\<lambda>ok. if \<not> ok then ret FAULT k else
           bind_run (put_bytes ptr (time_info_bytes tick (tick div 100)) k) (\<lambda>k1. Done (Return (as_i64 tick), k1)))
      else Done (Return (as_i64 tick), k)))"

definition sys_debug_print :: "tf \<Rightarrow> kernel \<Rightarrow> i64 call" where
  "sys_debug_print t k =
     (let ptr = tf_rsi t; len = tf_rdx t in
      if len = 0 then ret ERR_OK k
      else if len > 4096 then ret INVAL k
      else bind_run (user_buf k ptr len) (\<lambda>ok. if \<not> ok then ret FAULT k else
        bind_run (ld_bytes (kn_cr3 k) (kn_mem k) ptr (unat len)) (\<lambda>bs.
          let k1 = (case utf8 bs of None \<Rightarrow> k | Some _ \<Rightarrow> k\<lparr>kn_serial := kn_serial k @ map of_char ''[US] '' @ bs\<rparr>) in
          Done (Return (int (unat len)), k1))))"

section \<open>Dispatch\<close>

definition handler :: "kernel_env \<Rightarrow> syscall \<Rightarrow> tf \<Rightarrow> kernel \<Rightarrow> i64 call" where
  "handler E c t k =
     (case c of EXIT \<Rightarrow> sys_exit E k | WRITE \<Rightarrow> sys_write t k | READ \<Rightarrow> sys_read t k | YIELD \<Rightarrow> sys_yield E k
      | SPAWN \<Rightarrow> sys_spawn E t k | SLEEP \<Rightarrow> sys_sleep E t k | MEM_ALLOC \<Rightarrow> sys_mem_alloc t k | MEM_FREE \<Rightarrow> sys_mem_free t k
      | IPC_SEND \<Rightarrow> sys_ipc_send (tf_rdi t) k | IPC_RECV \<Rightarrow> sys_ipc_recv E (tf_rdi t) (tf_rsi t) k
      | IPC_POLL \<Rightarrow> sys_ipc_poll (tf_rdi t) k | THREAD_ID \<Rightarrow> sys_thread_id t k | TIME \<Rightarrow> sys_time t k
      | DEBUG_PRINT \<Rightarrow> sys_debug_print t k | GET_FB_INFO \<Rightarrow> sys_get_fb_info t k)"

definition gate :: "tf \<Rightarrow> kernel \<Rightarrow> ((err + unit) \<times> kernel) run" where
  "gate t k =
     bind_run (check_syscall (sc_tick (kn_sched k)) (kn_cur k) (kn_policy k) (tf_rax t) (tf_cs t)) (\<lambda>(r, p). Done (r, k\<lparr>kn_policy := p\<rparr>))"

definition finish :: "tf \<Rightarrow> i64 sys_result \<times> kernel \<Rightarrow> tf call" where
  "finish t rk = (case rk of (Return r, k) \<Rightarrow> Done (Return (t\<lparr>tf_rax := ret_word r\<rparr>), k) | (Leave c a, k) \<Rightarrow> Done (Leave c a, k))"

definition syscall_dispatch_v2 :: "kernel_env \<Rightarrow> tf \<Rightarrow> kernel \<Rightarrow> tf call" where
  "syscall_dispatch_v2 E t k =
     bind_run (gate t k) (\<lambda>(r, k1). case r of Inl e \<Rightarrow> Done (Return (t\<lparr>tf_rax := ret_word (err_code e)\<rparr>), k1)
       | Inr _ \<Rightarrow> bind_run (case syscall_of (tf_rax t) of Some c \<Rightarrow> handler E c t k1 | None \<Rightarrow> ret NOSYS k1) (finish t))"

text \<open>What a thread that left inside a call does when it is switched to again.\<close>

definition resume_call :: "kernel_env \<Rightarrow> after \<Rightarrow> tf \<Rightarrow> kernel \<Rightarrow> tf call" where
  "resume_call E a t k =
     (case a of Then_Ok \<Rightarrow> bind_run (ret ERR_OK k) (finish t)
      | Then_Retry \<Rightarrow> bind_run (loop_run (recv_loop E (tf_rdi t) (tf_rsi t \<noteq> 0) (kn_cur k) k)) (finish t))"

end
