(* ===== verification/Syscall_Props.thy ===== *)
theory Syscall_Props
  imports Syscalls
begin

text \<open>
  The contract of the system call interface: the gate in front of every call, the results a call may have, and what the
  memory calls and reading from the keyboard do.
\<close>

section \<open>Results\<close>

fun errors_of :: "syscall \<Rightarrow> err list" where
  "errors_of WRITE = [INVAL, FAULT]"
| "errors_of READ = [INVAL, FAULT, AGAIN]"
| "errors_of SPAWN = [FAULT, PERM, NOSLOT]"
| "errors_of MEM_ALLOC = [INVAL, NOMEM]"
| "errors_of MEM_FREE = [INVAL]"
| "errors_of IPC_SEND = [FAULT, INVAL, AGAIN]"
| "errors_of IPC_RECV = [FAULT, AGAIN]"
| "errors_of IPC_POLL = [FAULT]"
| "errors_of THREAD_ID = [FAULT]"
| "errors_of TIME = [FAULT]"
| "errors_of DEBUG_PRINT = [INVAL, FAULT]"
| "errors_of GET_FB_INFO = [FAULT, INVAL]"
| "errors_of _ = []"

fun success_of :: "syscall \<Rightarrow> tf \<Rightarrow> kernel \<Rightarrow> i64 \<Rightarrow> bool" where
  "success_of WRITE t k r \<longleftrightarrow> r = int (unat (tf_rdx t)) \<and> unat (tf_rdx t) \<le> 65536"
| "success_of DEBUG_PRINT t k r \<longleftrightarrow> r = int (unat (tf_rdx t)) \<and> unat (tf_rdx t) \<le> 4096"
| "success_of READ t k r \<longleftrightarrow> 0 \<le> r \<and> nat r \<le> unat (tf_rdx t) \<and> (r = 0 \<longrightarrow> tf_rdx t = 0)"
| "success_of SPAWN t k r \<longleftrightarrow> 0 \<le> r \<and> r < 64"
| "success_of IPC_POLL t k r \<longleftrightarrow> 0 \<le> r \<and> r < 16"
| "success_of THREAD_ID t k r \<longleftrightarrow> r = int (unat (th_id (kn_threads k ! kn_cur k)))"
| "success_of TIME t k r \<longleftrightarrow> r = as_i64 (sc_tick (kn_sched k))"
| "success_of MEM_ALLOC t k r \<longleftrightarrow> r = as_i64 (alloc_base (tf_rsi t))"
| "success_of _ t k r \<longleftrightarrow> r = 0"

definition suspends :: "syscall \<Rightarrow> bool" where
  "suspends c \<longleftrightarrow> c = EXIT \<or> c = YIELD \<or> c = SLEEP \<or> c = IPC_RECV"

text \<open>A result a call may have; a call that leaves must be one of those that may.\<close>

fun allowed :: "syscall \<Rightarrow> tf \<Rightarrow> kernel \<Rightarrow> i64 sys_result \<Rightarrow> bool" where
  "allowed c t k (Return r) \<longleftrightarrow> r \<in> err_code ` set (errors_of c) \<or> success_of c t k r"
| "allowed c t k (Leave ctl a) \<longleftrightarrow> suspends c"

lemmas bind_done = bind_run_Done_iff

lemma ret_Done [simp]: "ret e k = Done (r, k') \<longleftrightarrow> r = Return (err_code e) \<and> k' = k"
  by (auto simp: ret_def)

lemma after_yield_Done: "after_yield ck = Done (r, k') \<Longrightarrow> r = Return 0 \<or> (\<exists>ctl a. r = Leave ctl a)"
  by (auto simp: after_yield_def split: prod.splits if_splits)

lemma recv_loop_result:
  "recv_loop E ptr blk c k = Some (Done (r, k')) \<Longrightarrow> r = Return 0 \<or> r = Return (-5) \<or> (\<exists>ctl a. r = Leave ctl a)"
proof -
  have "\<forall>r k'. y = Done (r, k') \<longrightarrow> r = Return 0 \<or> r = Return (-5) \<or> (\<exists>ctl a. r = Leave ctl a)"
    if "recv_loop E ptr blk c k = Some y" for y
  proof (rule recv_loop.raw_induct [where P = "\<lambda>E ptr blk c k y. \<forall>r k'. y = Done (r, k') \<longrightarrow>
      r = Return 0 \<or> r = Return (-5) \<or> (\<exists>ctl a. r = Leave ctl a)", OF _ that], goal_cases)
    case (1 f E ptr blk c k y)
    show ?case
    proof (cases "dequeue c ptr k")
      case (Done gk)
      obtain got k1 where gk: "gk = (got, k1)" by (cases gk)
      show ?thesis
      proof (cases "bind_run (block_cur c k1) (yield_call E)")
        case (Done ck)
        obtain ctl k2 where "ck = (ctl, k2)" by (cases ck)
        then show ?thesis using 1(2) \<open>dequeue c ptr k = Done gk\<close> gk Done 1(1) by (fastforce simp: ret_def split: if_splits)
      qed (use 1(2) Done gk in \<open>auto simp: ret_def split: if_splits\<close>)
    qed (use 1(2) in auto)
  qed
  then show "recv_loop E ptr blk c k = Some (Done (r, k')) \<Longrightarrow> r = Return 0 \<or> r = Return (-5) \<or> (\<exists>ctl a. r = Leave ctl a)"
    by fastforce
qed

lemma read_loop_count: "read_loop ptr n left k = Done (n', k') \<Longrightarrow> n \<le> n' \<and> n' \<le> n + left"
proof (induction left arbitrary: n k)
  case 0
  then show ?case by simp
next
  case (Suc left)
  from Suc.prems obtain c kb where c: "kb_pop (kn_kbd k) = Done (c, kb)" by (auto simp: bind_done)
  show ?case
  proof (cases c)
    case None
    then show ?thesis using Suc.prems c by auto
  next
    case (Some ch)
    from Suc.prems c Some obtain k1 where k1: "put_bytes (ptr + of_nat n) [ch] (k\<lparr>kn_kbd := kb\<rparr>) = Done k1"
      "(if ch = 0x0A then Done (n + 1, k1) else read_loop ptr (n + 1) left k1) = Done (n', k')" by (auto simp: bind_done)
    then show ?thesis using Suc.IH [of "n + 1" k1] by (auto split: if_splits)
  qed
qed

lemma free_slot_less: "free_slot ths = Some i \<Longrightarrow> i < 64"
  by (simp add: free_slot_Some)

lemma spawn_user_result: "spawn_user_on_cr3 E name entry arg cr3 k = Done (tid, k') \<Longrightarrow> tid = -1 \<or> (0 \<le> tid \<and> tid < 64)"
  by (auto simp: spawn_user_on_cr3_def bind_done Let_def dest: free_slot_less split: option.splits)

lemma mq_len_less: "mq_len q < 16"
  by (simp add: mq_len_def)

section \<open>Handlers have allowed results\<close>

lemma h_exit: "sys_exit E k = Done (r, k') \<Longrightarrow> allowed EXIT t k r"
  by (auto simp: sys_exit_def bind_done suspends_def dest: after_yield_Done)

lemma h_yield: "sys_yield E k = Done (r, k') \<Longrightarrow> allowed YIELD t k r"
  by (auto simp: sys_yield_def bind_done suspends_def dest: after_yield_Done)

lemma h_sleep: "sys_sleep E t k = Done (r, k') \<Longrightarrow> allowed SLEEP t k r"
  by (auto simp: sys_sleep_def bind_done suspends_def Let_def dest: after_yield_Done split: if_splits)

lemma h_write: "sys_write t k = Done (r, k') \<Longrightarrow> allowed WRITE t k r"
  by (auto simp: sys_write_def bind_done Let_def word_le_nat_alt word_less_nat_alt split: if_splits)

lemma h_debug: "sys_debug_print t k = Done (r, k') \<Longrightarrow> allowed DEBUG_PRINT t k r"
  by (auto simp: sys_debug_print_def bind_done Let_def word_le_nat_alt word_less_nat_alt split: if_splits)

lemma h_read: "sys_read t k = Done (r, k') \<Longrightarrow> allowed READ t k r"
  by (auto simp: sys_read_def bind_done Let_def split: if_splits dest!: read_loop_count)

lemma h_spawn: "sys_spawn E t k = Done (r, k') \<Longrightarrow> allowed SPAWN t k r"
  by (auto simp: sys_spawn_def bind_done Let_def split: if_splits dest!: spawn_user_result)

lemma h_alloc: "sys_mem_alloc t k = Done (r, k') \<Longrightarrow> allowed MEM_ALLOC t k r"
  by (auto simp: sys_mem_alloc_def bind_done Let_def split: if_splits option.splits)

lemma h_free: "sys_mem_free t k = Done (r, k') \<Longrightarrow> allowed MEM_FREE t k r"
  by (auto simp: sys_mem_free_def bind_done Let_def split: if_splits)

lemma h_send: "sys_ipc_send p k = Done (r, k') \<Longrightarrow> allowed IPC_SEND t k r"
  by (auto simp: sys_ipc_send_def bind_done Let_def split: if_splits)

lemma h_recv: "sys_ipc_recv E p b k = Done (r, k') \<Longrightarrow> allowed IPC_RECV t k r"
  by (auto simp: sys_ipc_recv_def bind_done loop_run_def suspends_def split: if_splits option.splits dest!: recv_loop_result)

lemma h_poll: "sys_ipc_poll p k = Done (r, k') \<Longrightarrow> allowed IPC_POLL t k r"
  by (auto simp: sys_ipc_poll_def bind_done queue_len_def mq_len_less split: if_splits)

lemma cur_thread_Done: "cur_thread k = Done th \<Longrightarrow> th = kn_threads k ! kn_cur k"
  by (simp add: cur_thread_def arr_get_Done)

lemma h_tid: "sys_thread_id t k = Done (r, k') \<Longrightarrow> allowed THREAD_ID t k r"
  by (auto simp: sys_thread_id_def bind_done Let_def split: if_splits dest!: cur_thread_Done)

lemma h_time: "sys_time t k = Done (r, k') \<Longrightarrow> allowed TIME t k r"
  by (auto simp: sys_time_def bind_done Let_def split: if_splits)

lemma h_fb: "sys_get_fb_info t k = Done (r, k') \<Longrightarrow> allowed GET_FB_INFO t k r"
  by (auto simp: sys_get_fb_info_def bind_done Let_def split: if_splits)

lemmas handler_results = h_exit h_yield h_sleep h_write h_debug h_read h_spawn h_alloc h_free h_send h_recv h_poll h_tid h_time h_fb

lemma handler_allowed: "handler E c t k = Done (r, k') \<Longrightarrow> allowed c t k r"
  by (cases c) (simp_all add: handler_def handler_results)

section \<open>Memory calls\<close>

lemma alloc_base_aligned: "alloc_base h AND 0xFFF = 0"
  by (simp add: alloc_base_def and.assoc)

lemma page_add_aligned: "v AND 0xFFF = 0 \<Longrightarrow> (v + of_nat i * PAGE_SIZE) AND 0xFFF = (0 :: u64)"
proof -
  assume v: "v AND 0xFFF = 0"
  have m: "x AND 0xFFF = take_bit 12 x" for x :: u64 by (simp add: take_bit_eq_mask mask_eq_exp_minus_1)
  have "of_nat i * PAGE_SIZE = push_bit 12 (of_nat i :: u64)" by (simp add: PAGE_SIZE_def push_bit_eq_mult)
  then have p: "take_bit 12 (of_nat i * PAGE_SIZE :: u64) = 0" by (simp only: take_bit_push_bit) simp
  have z: "x AND 0xFFF = 0 \<longleftrightarrow> unat x mod 4096 = 0" for x :: u64
    using aligned_low_bits [of x] by (simp add: aligned_def m)
  have "unat v mod 4096 = 0" "unat (of_nat i * PAGE_SIZE :: u64) mod 4096 = 0" using v p z m by metis+
  then have "(unat v + unat (of_nat i * PAGE_SIZE :: u64)) mod 4096 = 0" by (metis mod_add_cong add_0 mod_0)
  then have "(unat v + unat (of_nat i * PAGE_SIZE :: u64)) mod 2 ^ 64 mod 4096 = 0"
    using mod_mod_cancel [of 4096 "2 ^ 64 :: nat"] by simp
  then show ?thesis unfolding z unat_plus_simple by (simp only: unat_word_ariths) simp
qed

text \<open>With room for every page the loop does not stop early and is the loop of the contract.\<close>

lemma alloc_loop_run:
  assumes "v AND 0xFFF = 0"
  shows "room (length is + n) p4 m \<Longrightarrow>
    alloc_loop p4 v is m =
      bind_run (run_pages (map_page_then_zero p4 (PTE_W OR PTE_U)) (map (\<lambda>i. v + of_nat i * PAGE_SIZE) is) m) (\<lambda>m'. Done (None, m'))"
proof (induction "is" arbitrary: m)
  case Nil
  then show ?case by simp
next
  case (Cons i "is")
  have r: "room (Suc (length is + n)) p4 m" using Cons.prems by simp
  note al = page_add_aligned [OF assms, of i]
  from alloc_data_frame [OF r] obtain q m1 where a: "mm_alloc m = Done (q, m1)" "q AND PTE_ADDR = q" "vmm_ok m1 p4"
    "\<not> pm_lock m1" "4 * (length is + n) + 3 \<le> card (frame_avail m1)" "data_frame p4 q m1" by blast
  from map_data_frame [OF a(3,4,5) al a(6,2) table_flags(2)] obtain m2 where
    d: "vmap p4 (v + of_nat i * PAGE_SIZE) q (PTE_W OR PTE_U) m1 = Done (0, m2)" by blast
  from map_page_then_zero_ok [OF r al table_flags(2)] obtain f m' where
    s: "map_page_then_zero p4 (PTE_W OR PTE_U) (v + of_nat i * PAGE_SIZE) m = Done m'" "room (length is + n) p4 m'" by blast
  have "m' = zero_page q m2" using s(1) a(1) d by (simp add: map_page_then_zero_def)
  then show ?case using Cons.IH [OF s(2)] a(1) d s(1) by simp
qed

lemma vunmap_same_mem:
  assumes "pm_mem m' = pm_mem m"
  shows "pte m' t i = pte m t i" "table_at m' p4 k v = table_at m p4 k v" "virt_to_phys m' p4 v = virt_to_phys m p4 v"
proof -
  show e: "pte m' t i = pte m t i" for t i using assms by (simp add: pte_def)
  have n: "next_table m' = next_table m" by (intro ext) (simp add: next_table_def e)
  show "table_at m' p4 k v = table_at m p4 k v" by (induction k) (simp_all add: n cong: option.case_cong)
  have w: "walk_step m' = walk_step m" by (intro ext) (simp add: walk_step_def e)
  show "virt_to_phys m' p4 v = virt_to_phys m p4 v" unfolding virt_to_phys_def w e ..
qed

section \<open>Properties\<close>

text \<open>
  C1: nothing passes the gate by accident. A call the policy refuses returns PERM to the caller and has no effect but its
  entry in the violation log; any other call is handled with the state of the kernel unchanged by the gate.
\<close>

theorem refused_call_has_no_effect:
  assumes "policy_inv h (kn_policy k)" "kn_cur k < MAX_CAP_THREADS"
  shows "case verdict (kn_policy k) (kn_cur k) (cpl (tf_cs t)) (tf_rax t) of
      Some v \<Rightarrow> \<exists>p. syscall_dispatch_v2 E t k = Done (Return (t\<lparr>tf_rax := ret_word (err_code PERM)\<rparr>), k\<lparr>kn_policy := p\<rparr>) \<and>
        as_i64 (ret_word (err_code PERM)) = -7 \<and>
        policy_inv (h @ [\<lparr>le_tick = sc_tick (kn_sched k), le_kind = v, le_ring = cpl (tf_cs t), le_tid = of_nat (kn_cur k),
          le_detail = tf_rax t\<rparr>]) p
    | None \<Rightarrow> syscall_dispatch_v2 E t k =
        bind_run (case syscall_of (tf_rax t) of Some c \<Rightarrow> handler E c t k | None \<Rightarrow> ret NOSYS k) (finish t)"
proof (cases "verdict (kn_policy k) (kn_cur k) (cpl (tf_cs t)) (tf_rax t)")
  case None
  have "k\<lparr>kn_policy := kn_policy k\<rparr> = k" by simp
  then show ?thesis using None check_syscall_verdict [OF assms, of "sc_tick (kn_sched k)" "tf_rax t" "tf_cs t"]
    by (simp add: syscall_dispatch_v2_def gate_def)
next
  case (Some v)
  have i: "as_i64 (ret_word (err_code PERM)) = -7" by (simp add: as_i64_ret_word)
  from deny_inv [OF assms(1), of "sc_tick (kn_sched k)" "kn_cur k" v "cpl (tf_cs t)" "tf_rax t"] obtain p where
    p: "deny (sc_tick (kn_sched k)) (kn_cur k) (kn_policy k) v (cpl (tf_cs t)) (tf_rax t) = Done (Inl PERM, p)"
      "policy_inv (h @ [\<lparr>le_tick = sc_tick (kn_sched k), le_kind = v, le_ring = cpl (tf_cs t), le_tid = of_nat (kn_cur k),
          le_detail = tf_rax t\<rparr>]) p" by blast
  have "syscall_dispatch_v2 E t k = Done (Return (t\<lparr>tf_rax := ret_word (err_code PERM)\<rparr>), k\<lparr>kn_policy := p\<rparr>)"
    using Some check_syscall_verdict [OF assms, of "sc_tick (kn_sched k)" "tf_rax t" "tf_cs t"] p(1)
    by (simp add: syscall_dispatch_v2_def gate_def)
  then show ?thesis unfolding Some option.case using p(2) i by blast
qed

text \<open>A trap frame of a user program with the given call number and arguments.\<close>

definition user_tf :: "u64 \<Rightarrow> u64 \<Rightarrow> u64 \<Rightarrow> u64 \<Rightarrow> tf" where
  "user_tf num a b c = \<lparr>tf_r15 = 0, tf_r14 = 0, tf_r13 = 0, tf_r12 = 0, tf_r11 = 0, tf_r10 = 0, tf_r9 = 0, tf_r8 = 0, tf_rdi = a,
     tf_rsi = b, tf_rdx = c, tf_rcx = 0, tf_rbx = 0, tf_rbp = 0, tf_rax = num, tf_rip = 0x400000, tf_cs = 0x1B, tf_rflags = 0x202,
     tf_rsp = 0, tf_ss = 0x23\<rparr>"

theorem refused_call_has_no_effect_witness:
  "\<exists>p. syscall_dispatch_v2 (env_of 0x1000) (user_tf 14 0 0 0) (sample_kernel\<lparr>kn_policy := policy_init policy_boot\<rparr>) =
     Done (Return ((user_tf 14 0 0 0)\<lparr>tf_rax := ret_word (-7)\<rparr>), sample_kernel\<lparr>kn_policy := p\<rparr>)"
proof -
  let ?k = "sample_kernel\<lparr>kn_policy := policy_init policy_boot\<rparr>"
  have inv: "policy_inv [] (kn_policy ?k)" using policy_inv_init [OF policy_inv_boot] by simp
  have c: "cpl 0x1B = 3" by code_simp
  have "\<not> bit (ring_syscall_mask 3) (unat (nr GET_FB_INFO))" unfolding ring_masks_nr(4) by (simp add: ring3_calls_def)
  then have v: "verdict (kn_policy ?k) (kn_cur ?k) (cpl (tf_cs (user_tf 14 0 0 0))) (tf_rax (user_tf 14 0 0 0)) = Some SyscallDenied"
    by (simp add: verdict_def user_tf_def c policy_init_def)
  show ?thesis using refused_call_has_no_effect [OF inv, of "env_of 0x1000" "user_tf 14 0 0 0"] v by auto
qed



text \<open>
  C4: \<open>sys_mem_alloc\<close> with frames to spare returns the page-aligned base it was asked for, and the pages from there on are
  backed by distinct frames that were free and are filled with zeros; the translation of every other page is unchanged.
  Nothing checks what the pages were mapped to before, nor that they lie in the part of the address space user programs
  own: the frames a page had before are lost.
\<close>

theorem mem_alloc_maps_zeroed_pages:
  assumes "kernel_ok k" "p4 = th_cr3 (kn_threads k ! kn_cur k)" "n = unat (tf_rdi t)" "0 < n" "n \<le> 512"
    "room n p4 (kn_mem k)" "unat (alloc_base (tf_rsi t)) + 4096 * n \<le> 2 ^ 48"
  shows "\<exists>fs m'. sys_mem_alloc t k = Done (Return (int (unat (alloc_base (tf_rsi t)))), k\<lparr>kn_mem := m'\<rparr>) \<and>
    backed True p4 (page_seq (alloc_base (tf_rsi t)) n) fs (kn_mem k) m' \<and> room 0 p4 m'"
proof -
  let ?b = "alloc_base (tf_rsi t)"
  note ps = page_seq_ok [OF alloc_base_aligned assms(7)]
  have r: "room (length (page_seq ?b n) + 0) p4 (kn_mem k)" using assms(6) ps(3) by simp
  from call_pages.run_pages_backed [OF r ps(1,2)] obtain fs m' where
    m': "run_pages (map_page_then_zero p4 (PTE_W OR PTE_U)) (page_seq ?b n) (kn_mem k) = Done m'" "room 0 p4 m'"
      "backed True p4 (page_seq ?b n) fs (kn_mem k) m'" by blast
  have "alloc_loop p4 ?b [0..<n] (kn_mem k) = Done (None, m')"
    using alloc_loop_run [OF alloc_base_aligned, of "[0..<n]" 0 p4 "kn_mem k"] assms(6) m'(1) by (simp add: page_seq_def)
  moreover have "tf_rdi t \<noteq> 0" "\<not> tf_rdi t > 512" using assms(3-5) by (auto simp: word_less_nat_alt)
  moreover have "as_i64 ?b = int (unat ?b)"
  proof -
    have "unat ?b < 2 ^ 63" using assms(7) by simp
    then have "int (unat ?b) < 2 ^ 63" by (simp only: of_nat_less_numeral_power_cancel_iff)
    then have "as_i64 (ret_word (int (unat ?b))) = int (unat ?b)" by (intro as_i64_ret_word) linarith+
    moreover have "ret_word (int (unat ?b)) = ?b" by (simp add: ret_word_def)
    ultimately show ?thesis by simp
  qed
  ultimately show ?thesis using m' assms(2,3) kernel_okD(5) [OF assms(1)]
    by (intro exI [of _ fs] exI [of _ m']) (simp add: sys_mem_alloc_def Let_def)
qed

theorem mem_alloc_maps_zeroed_pages_witness:
  "\<exists>m'. sys_mem_alloc (user_tf 6 3 0x500000 0) sample_kernel = Done (Return 0x500000, sample_kernel\<lparr>kn_mem := m'\<rparr>)"
proof -
  let ?t = "user_tf 6 3 0x500000 0"
  have b: "alloc_base (tf_rsi ?t) = 0x500000" by (simp add: alloc_base_def user_tf_def)
  have p: "0x1000 = th_cr3 (kn_threads sample_kernel ! kn_cur sample_kernel)" by simp
  have n: "3 = unat (tf_rdi ?t)" by (simp add: user_tf_def)
  have r: "room 3 0x1000 (kn_mem sample_kernel)" using sample_ok by (simp add: room_def)
  have l: "unat (alloc_base (tf_rsi ?t)) + 4096 * 3 \<le> 2 ^ 48" unfolding b by simp
  from mem_alloc_maps_zeroed_pages [OF sample_kernel_ok p n _ _ r l] show ?thesis by (auto simp: b)
qed

text \<open>
  Memory that was allocated can not be given back. After \<open>sys_mem_alloc\<close> of one page, \<open>sys_mem_free\<close> of that page never
  returns: it frees the frame, then drops the last reference to the same frame under the lock of the memory manager, and
  waits for that lock.
\<close>

theorem mem_free_never_returns:
  assumes "kernel_ok k" "p4 = th_cr3 (kn_threads k ! kn_cur k)" "room 1 p4 (kn_mem k)" "tf_rdi t = 1"
    "tf_rdi u = alloc_base (tf_rsi t)" "tf_rsi u = 1" "alloc_base (tf_rsi t) \<noteq> 0"
  shows "\<exists>k'. sys_mem_alloc t k = Done (Return (as_i64 (tf_rdi u)), k') \<and> sys_mem_free u k' = Hang"
proof -
  let ?b = "alloc_base (tf_rsi t)" and ?f = "PTE_W OR PTE_U"
  have m: "vmm_ok (kn_mem k) p4" "\<not> pm_lock (kn_mem k)" "3 < card (frame_avail (kn_mem k))" "room (Suc 0) p4 (kn_mem k)"
    using assms(3) by (simp_all add: room_def)
  from alloc_and_map [OF m(1-3) alloc_base_aligned table_flags(2), of "tf_rsi t"] obtain i m1 m2 tb where
    a: "mm_alloc (kn_mem k) = Done (fp (kn_mem k) i, m1)" "vmap p4 ?b (fp (kn_mem k) i) ?f m1 = Done (0, m2)" "vmm_ok m2 p4"
      "\<not> pm_lock m2" "table_at m2 p4 3 ?b = Some tb" "pte m2 tb (pidx 12 ?b) = pte_make (fp (kn_mem k) i) ?f"
      "fp (kn_mem k) i AND PTE_ADDR = fp (kn_mem k) i" "i < pm_total m2" "i < 65536" "pm_refs m2 i = 1" "fp m2 = fp (kn_mem k)"
      "virt_to_phys m2 p4 ?b = Some (fp (kn_mem k) i)" by blast
  let ?p = "fp (kn_mem k) i"
  from alloc_data_frame [OF m(4)] a(1) have d1: "vmm_ok m1 p4" "\<not> pm_lock m1" "4 * 0 + 3 \<le> card (frame_avail m1)" "data_frame p4 ?p m1"
    by auto
  from map_data_frame [OF d1(1-3) alloc_base_aligned d1(4) a(7) table_flags(2), of "tf_rsi t"] a(2) have "grows p4 m1 m2" by auto
  then have df: "data_frame p4 ?p m2" using data_frame_grows d1(4) by blast
  let ?m3 = "zero_page ?p m2" let ?m4 = "mm_free_nolock ?p (zero_page ?p m2)"
  note z = zero_data_frame [OF a(3) df]
  have tb: "aligned tb" "tb \<noteq> ?p" using tables_okD(2) [of m2 p4 3 ?b tb] a(3,5) df by (auto simp: vmm_ok_def data_frame_def)
  note same = vunmap_same_mem [of ?m4 ?m3]
  have m4: "table_at ?m4 p4 3 ?b = Some tb" "pte ?m4 tb (pidx 12 ?b) = pte_make ?p ?f"
    using same(1,2) z(5,6) tb a(5,6) by simp_all
  have fp4: "fp ?m4 = fp (kn_mem k)" using a(11) by (simp add: fp_def fun_eq_iff)
  have p0: "p4 \<noteq> 0" "pmm_inv ?m4" using a(3) tables_okD(1) mm_free_nolock_inv by (auto simp: vmm_ok_def phys_ok_def)
  have "vunmap p4 ?b ?m4 = Hang"
    using vunmap_owned_hangs [OF p0(2,1) _ m4(1) _ table_flags(2), of i] m4(2) a(4,7,8,9,10) fp4 by (simp add: pm_total_def)
  moreover have "virt_to_phys ?m3 p4 ?b = Some ?p" using z(3) a(12) by simp
  moreover have "mm_free_phys ?p ?m3 = Done ?m4" using a(4) by (simp add: mm_free_phys_result)
  ultimately have "free_loop p4 ?b [0..<1] ?m3 = Hang" by simp
  moreover have "cur_thread (k\<lparr>kn_mem := ?m3\<rparr>) = Done (kn_threads k ! kn_cur k)" "cur_thread k = Done (kn_threads k ! kn_cur k)"
    using kernel_okD(5) [OF assms(1)] by (simp_all add: cur_thread_def)
  ultimately have "sys_mem_free u (k\<lparr>kn_mem := ?m3\<rparr>) = Hang" using assms(2,5,6,7) alloc_base_aligned
    by (simp add: sys_mem_free_def)
  moreover have "alloc_loop p4 ?b [0..<1] (kn_mem k) = Done (None, ?m3)" using a(1,2) by simp
  then have "sys_mem_alloc t k = Done (Return (as_i64 (tf_rdi u)), k\<lparr>kn_mem := ?m3\<rparr>)"
    using assms(2,4,5) \<open>cur_thread k = _\<close> by (simp add: sys_mem_alloc_def Let_def)
  ultimately show ?thesis by blast
qed

theorem mem_free_never_returns_witness:
  "\<exists>k'. sys_mem_alloc (user_tf 6 1 0x500000 0) sample_kernel = Done (Return 0x500000, k') \<and>
     sys_mem_free (user_tf 7 0x500000 1 0) k' = Hang"
proof -
  let ?t = "user_tf 6 1 0x500000 0" and ?u = "user_tf 7 0x500000 1 0"
  have b: "alloc_base (tf_rsi ?t) = 0x500000" by (simp add: alloc_base_def user_tf_def)
  have p: "0x1000 = th_cr3 (kn_threads sample_kernel ! kn_cur sample_kernel)" by simp
  have r: "room 1 0x1000 (kn_mem sample_kernel)" using sample_ok by (simp add: room_def)
  have i: "as_i64 0x500000 = 0x500000" using as_i64_ret_word [of "0x500000"] by (simp add: ret_word_def)
  from mem_free_never_returns [OF sample_kernel_ok p r, of ?t ?u] show ?thesis unfolding b by (simp add: user_tf_def i)
qed

end
