(* ===== verification/Buddy.thy ===== *)
theory Buddy
  imports Kernel_Prelude
begin

text \<open>
  The buddy allocator behind the kernel heap (\<^verbatim>\<open>allocator/buddy.rs\<close>): blocks of 1 to 512 pages, one doubly linked free list per
  order kept inside the free blocks themselves, and a bitmap with one bit per page. A pointer is an address, the null
  pointer is 0; the memory of the heap is a function from 8-byte aligned addresses to words. The free lists and the bitmap
  together refine a set of free pages (theory \<open>Buddy_Inv\<close>).
\<close>

section \<open>State\<close>

definition BUDDY_PAGE :: u64 where "BUDDY_PAGE = 0x1000"
abbreviation MAX_ORDER :: nat where "MAX_ORDER \<equiv> 10"
definition MAX_BLOCK :: u64 where "MAX_BLOCK = push_bit (MAX_ORDER - 1) BUDDY_PAGE"
definition BUDDY_HEAP_SIZE :: u64 where "BUDDY_HEAP_SIZE = 32 * 1024 * 1024"
abbreviation BITMAP_WORDS :: nat where "BITMAP_WORDS \<equiv> 129"

text \<open>The arrays are indexed below their sizes only, so the model has a function for each.\<close>

record buddy =
  bd_base :: u64
  bd_size :: u64
  bd_heads :: "nat \<Rightarrow> u64"
  bd_bitmap :: "nat \<Rightarrow> u64"
  bd_free :: u64
  bd_mem :: "u64 \<Rightarrow> u64"

text \<open>A free block starts with the pointers \<open>next\<close> and \<open>prev\<close>.\<close>

definition node_next :: "buddy \<Rightarrow> u64 \<Rightarrow> u64" where "node_next b a = bd_mem b a"
definition node_prev :: "buddy \<Rightarrow> u64 \<Rightarrow> u64" where "node_prev b a = bd_mem b (a + 8)"

definition set_next :: "u64 \<Rightarrow> u64 \<Rightarrow> buddy \<Rightarrow> buddy" where
  "set_next a x b = b\<lparr>bd_mem := (bd_mem b)(a := x)\<rparr>"

definition set_prev :: "u64 \<Rightarrow> u64 \<Rightarrow> buddy \<Rightarrow> buddy" where
  "set_prev a x b = b\<lparr>bd_mem := (bd_mem b)(a + 8 := x)\<rparr>"

definition set_head :: "nat \<Rightarrow> u64 \<Rightarrow> buddy \<Rightarrow> buddy" where
  "set_head ord x b = b\<lparr>bd_heads := (bd_heads b)(ord := x)\<rparr>"

section \<open>Block arithmetic\<close>

definition block_size :: "nat \<Rightarrow> u64" where
  "block_size ord = push_bit ord BUDDY_PAGE"

definition buddy_of :: "buddy \<Rightarrow> u64 \<Rightarrow> nat \<Rightarrow> u64" where
  "buddy_of b addr ord = bd_base b + ((addr - bd_base b) XOR block_size ord)"

definition bd_page_idx :: "buddy \<Rightarrow> u64 \<Rightarrow> nat" where
  "bd_page_idx b addr = unat ((addr - bd_base b) div BUDDY_PAGE)"

function order_loop :: "u64 \<Rightarrow> u64 \<Rightarrow> nat \<Rightarrow> nat" where
  "order_loop sz block ord =
     (if block < sz \<and> ord < MAX_ORDER - 1 then order_loop sz (push_bit 1 block) (ord + 1) else ord)"
  by pat_completeness auto
termination
  by (relation "measure (\<lambda>(sz, block, ord). MAX_ORDER - ord)") auto

declare order_loop.simps [simp del]

definition size_to_order :: "u64 \<Rightarrow> nat" where
  "size_to_order sz = order_loop sz BUDDY_PAGE 0"

section \<open>Bitmap\<close>

definition bitmap_set_free :: "u64 \<Rightarrow> nat \<Rightarrow> buddy \<Rightarrow> buddy" where
  "bitmap_set_free addr ord b =
     (let start = bd_page_idx b addr in
      fold (\<lambda>i b. if i div 64 < BITMAP_WORDS
                  then b\<lparr>bd_bitmap := (bd_bitmap b)(i div 64 := bd_bitmap b (i div 64) OR bit_at (i mod 64))\<rparr> else b)
        [start..<start + 2 ^ ord] b)"

definition bitmap_set_used :: "u64 \<Rightarrow> nat \<Rightarrow> buddy \<Rightarrow> buddy" where
  "bitmap_set_used addr ord b =
     (let start = bd_page_idx b addr in
      fold (\<lambda>i b. if i div 64 < BITMAP_WORDS
                  then b\<lparr>bd_bitmap := (bd_bitmap b)(i div 64 := bd_bitmap b (i div 64) AND NOT (bit_at (i mod 64)))\<rparr> else b)
        [start..<start + 2 ^ ord] b)"

definition bitmap_is_free :: "buddy \<Rightarrow> u64 \<Rightarrow> nat \<Rightarrow> bool" where
  "bitmap_is_free b addr ord \<longleftrightarrow>
     (let start = bd_page_idx b addr in
      \<forall>i \<in> set [start..<start + 2 ^ ord]. i div 64 < BITMAP_WORDS \<and> has_any (bd_bitmap b (i div 64)) (bit_at (i mod 64)))"

section \<open>Free lists\<close>

definition free_push :: "u64 \<Rightarrow> nat \<Rightarrow> buddy \<Rightarrow> buddy" where
  "free_push addr ord b =
     (let b1 = set_prev addr 0 (set_next addr 0 b);
          b2 = set_prev addr 0 (set_next addr (bd_heads b1 ord) b1);
          b3 = (if bd_heads b2 ord \<noteq> 0 then set_prev (bd_heads b2 ord) addr b2 else b2);
          b4 = bitmap_set_free addr ord (set_head ord addr b3)
      in b4\<lparr>bd_free := bd_free b4 + block_size ord\<rparr>)"

definition free_pop :: "nat \<Rightarrow> buddy \<Rightarrow> u64 \<times> buddy" where
  "free_pop ord b =
     (if bd_heads b ord = 0 then (0, b)
      else let node = bd_heads b ord; b1 = set_head ord (node_next b node) b;
               b2 = (if node_next b1 node \<noteq> 0 then set_prev (node_next b1 node) 0 b1 else b1);
               b3 = bitmap_set_used node ord b2
           in (node, b3\<lparr>bd_free := bd_free b3 - block_size ord\<rparr>))"

definition free_remove :: "u64 \<Rightarrow> nat \<Rightarrow> buddy \<Rightarrow> buddy" where
  "free_remove addr ord b =
     (let b1 = (if node_prev b addr \<noteq> 0 then set_next (node_prev b addr) (node_next b addr) b
                else set_head ord (node_next b addr) b);
          b2 = (if node_next b1 addr \<noteq> 0 then set_prev (node_next b1 addr) (node_prev b1 addr) b1 else b1);
          b3 = bitmap_set_used addr ord b2
      in b3\<lparr>bd_free := bd_free b3 - block_size ord\<rparr>)"

section \<open>Allocation\<close>

text \<open>\<open>while cur > order { cur -= 1; free_push(addr + block_size(cur), cur) }\<close>\<close>

fun split_down :: "u64 \<Rightarrow> nat \<Rightarrow> nat \<Rightarrow> buddy \<Rightarrow> buddy" where
  "split_down addr ord 0 b = b"
| "split_down addr ord (Suc c) b = (if ord < Suc c then split_down addr ord c (free_push (addr + block_size c) c b) else b)"

definition alloc_order :: "nat \<Rightarrow> buddy \<Rightarrow> u64 \<times> buddy" where
  "alloc_order ord b =
     (case List.find (\<lambda>i. bd_heads b i \<noteq> 0) [ord..<MAX_ORDER] of
        None \<Rightarrow> (0, b)
      | Some found \<Rightarrow> (case free_pop found b of (addr, b1) \<Rightarrow>
          if addr = 0 then (0, b1) else (addr, split_down addr ord found b1)))"

definition buddy_alloc :: "u64 \<Rightarrow> u64 \<Rightarrow> buddy \<Rightarrow> u64 \<times> buddy" where
  "buddy_alloc sz align b =
     (if sz = 0 then (0, b)
      else let ord = size_to_order (max sz align) in if ord \<ge> MAX_ORDER then (0, b) else alloc_order ord b)"

section \<open>Release\<close>

function free_coalesce :: "u64 \<Rightarrow> nat \<Rightarrow> buddy \<Rightarrow> buddy" where
  "free_coalesce addr ord b =
     (if ord < MAX_ORDER - 1
      then let bud = buddy_of b addr ord in
        if bud < bd_base b \<or> bud \<ge> bd_base b + bd_size b then free_push addr ord b
        else if \<not> bitmap_is_free b bud ord then free_push addr ord b
        else free_coalesce (if bud < addr then bud else addr) (ord + 1) (free_remove bud ord b)
      else free_push addr ord b)"
  by pat_completeness auto
termination
  by (relation "measure (\<lambda>(addr, ord, b). MAX_ORDER - ord)") auto

declare free_coalesce.simps [simp del]

definition buddy_free :: "u64 \<Rightarrow> u64 \<Rightarrow> buddy \<Rightarrow> buddy" where
  "buddy_free ptr sz b =
     (if ptr = 0 \<or> sz = 0 then b
      else let ord = size_to_order sz in if ord \<ge> MAX_ORDER then b else free_coalesce ptr ord b)"

section \<open>Initialisation\<close>

text \<open>The two loops; they are partial only for sizes so close to the end of the address space that the offset wraps around.\<close>

partial_function (option) init_max :: "u64 \<Rightarrow> buddy \<Rightarrow> (u64 \<times> buddy) option" where
  "init_max off b =
     (if off + MAX_BLOCK \<le> bd_size b
      then init_max (off + MAX_BLOCK) (free_push (bd_base b + off) (MAX_ORDER - 1) b) else Some (off, b))"

partial_function (option) init_rest :: "u64 \<Rightarrow> nat \<Rightarrow> buddy \<Rightarrow> buddy option" where
  "init_rest off ord b =
     (if off < bd_size b
      then if off + block_size ord \<le> bd_size b
           then init_rest (off + block_size ord) ord (free_push (bd_base b + off) ord b)
           else if ord > 0 then init_rest off (ord - 1) b else Some b
      else Some b)"

declare init_max.simps [code] init_rest.simps [code]

definition buddy_init :: "u64 \<Rightarrow> u64 \<Rightarrow> buddy \<Rightarrow> buddy option" where
  "buddy_init base sz b =
     (case init_max 0 (b\<lparr>bd_base := base, bd_size := sz, bd_heads := (\<lambda>_. 0), bd_bitmap := (\<lambda>_. 0), bd_free := 0\<rparr>) of
        None \<Rightarrow> None | Some (off, b1) \<Rightarrow> init_rest off (MAX_ORDER - 2) b1)"

definition buddy_free_kb :: "buddy \<Rightarrow> u64" where "buddy_free_kb b = bd_free b div 1024"
definition buddy_total_kb :: "buddy \<Rightarrow> u64" where "buddy_total_kb b = bd_size b div 1024"
definition buddy_used_kb :: "buddy \<Rightarrow> u64" where "buddy_used_kb b = buddy_total_kb b - buddy_free_kb b"

end
