(* ===== verification/Mem_List.thy ===== *)
theory Mem_List
  imports Kernel_Prelude
begin

text \<open>
  Linked lists inside memory: a node is an address, its first word is the pointer to the next node and its second word the
  pointer to the previous one; 0 is the null pointer. The predicates relate a memory and a head pointer to the list of
  nodes, and the lemmas say what insertion at the front and removal anywhere do to that list.
\<close>

section \<open>Segments\<close>

text \<open>From \<open>x\<close>, entered from \<open>p\<close>, through the nodes of the list to \<open>y\<close>, left from \<open>q\<close>.\<close>

fun dseg :: "(u64 \<Rightarrow> u64) \<Rightarrow> u64 \<Rightarrow> u64 \<Rightarrow> u64 list \<Rightarrow> u64 \<Rightarrow> u64 \<Rightarrow> bool" where
  "dseg m p x [] q y \<longleftrightarrow> p = q \<and> x = y"
| "dseg m p x (a # as) q y \<longleftrightarrow> x = a \<and> a \<noteq> 0 \<and> m (a + 8) = p \<and> dseg m a (m a) as q y"

definition dlist :: "(u64 \<Rightarrow> u64) \<Rightarrow> u64 \<Rightarrow> u64 list \<Rightarrow> bool" where
  "dlist m x as \<longleftrightarrow> (\<exists>q. dseg m 0 x as q 0)"

text \<open>The words of different nodes are different words.\<close>

definition apart :: "u64 set \<Rightarrow> bool" where
  "apart A \<longleftrightarrow> (\<forall>a \<in> A. \<forall>c \<in> A. a \<noteq> c + 8)"

lemma apartD: "apart A \<Longrightarrow> a \<in> A \<Longrightarrow> c \<in> A \<Longrightarrow> a \<noteq> c + 8 \<and> c + 8 \<noteq> a"
  by (auto simp: apart_def)

lemma dseg_append: "dseg m p x (as @ bs) q y \<longleftrightarrow> (\<exists>r z. dseg m p x as r z \<and> dseg m r z bs q y)"
  by (induction as arbitrary: p x) auto

lemma dseg_cong: "\<forall>a \<in> set as. m' a = m a \<and> m' (a + 8) = m (a + 8) \<Longrightarrow> dseg m' p x as q y = dseg m p x as q y"
  by (induction as arbitrary: p x) auto

lemma dseg_nodes: "dseg m p x as q y \<Longrightarrow> 0 \<notin> set as"
  by (induction as arbitrary: p x) auto

lemma dseg_exit: "dseg m p x as q y \<Longrightarrow> q = (if as = [] then p else last as)"
  by (induction as arbitrary: p x) (auto split: if_splits)

lemma dlist_cong: "\<forall>a \<in> set as. m' a = m a \<and> m' (a + 8) = m (a + 8) \<Longrightarrow> dlist m' x as = dlist m x as"
  unfolding dlist_def using dseg_cong by metis

lemma dlist_Nil [simp]: "dlist m x [] \<longleftrightarrow> x = 0"
  by (auto simp: dlist_def)

lemma dlist_zero: "dlist m x as \<Longrightarrow> x = 0 \<longleftrightarrow> as = []"
  by (cases as) (auto simp: dlist_def)

lemma dlist_head: "dlist m x (a # as) \<Longrightarrow> x = a \<and> a \<noteq> 0 \<and> m (a + 8) = 0"
  by (auto simp: dlist_def)

text \<open>Entering a segment from elsewhere: only the back pointer of its first node changes.\<close>

lemma dseg_enter:
  assumes "dseg m p x as q 0" "apart (set as)" "distinct as"
  shows "\<exists>q'. dseg (if x = 0 then m else m(x + 8 := r)) r x as q' 0"
proof (cases as)
  case Nil
  then show ?thesis using assms(1) by simp
next
  case (Cons a bs)
  have a: "x = a" "a \<noteq> 0" "dseg m a (m a) bs q 0" using assms(1) Cons by auto
  have "dseg (m(a + 8 := r)) a (m a) bs q 0 = dseg m a (m a) bs q 0"
    by (rule dseg_cong) (use assms(2,3) Cons in \<open>auto simp: apart_def\<close>)
  moreover have "(m(a + 8 := r)) a = m a" using apartD [OF assms(2), of a a] Cons by simp
  ultimately show ?thesis using a Cons by auto
qed

section \<open>Insertion and removal\<close>

lemma dlist_push:
  assumes "dlist m x as" "apart (insert a (set as))" "distinct (a # as)" "a \<noteq> 0"
    and m': "m' = (if x = 0 then m(a := x, a + 8 := 0) else m(a := x, a + 8 := 0, x + 8 := a))"
  shows "dlist m' a (a # as)"
proof -
  let ?m = "m(a := x, a + 8 := 0)"
  from assms(1) obtain q where q: "dseg m 0 x as q 0" by (auto simp: dlist_def)
  have "dseg ?m 0 x as q 0 = dseg m 0 x as q 0"
    by (rule dseg_cong) (use assms(2,3) in \<open>auto simp: apart_def\<close>)
  with q have "dseg ?m 0 x as q 0" by simp
  moreover have "apart (set as)" "distinct as" using assms(2,3) by (auto simp: apart_def)
  ultimately obtain q' where q': "dseg m' a x as q' 0" using dseg_enter [of ?m 0 x as q a] unfolding m' by blast
  have x: "x = 0 \<or> x \<in> set as" using q by (cases as) auto
  then have "m' a = x" "m' (a + 8) = 0" unfolding m' using apartD [OF assms(2), of a] assms(3) by auto
  then show ?thesis using q' assms(4) unfolding dlist_def by auto
qed

lemma dlist_remove:
  assumes l: "dlist m x (as @ a # bs)" and ap: "apart (set (as @ a # bs))" and d: "distinct (as @ a # bs)"
  defines "r \<equiv> m (a + 8)" and "z \<equiv> m a"
  defines "m1 \<equiv> (if r = 0 then m else m(r := z))"
  defines "m2 \<equiv> (if z = 0 then m1 else m1(z + 8 := r))"
  shows "dlist m2 (if r = 0 then z else x) (as @ bs)" "m1 a = z" "m1 (a + 8) = r" "r = 0 \<or> r \<in> set as" "z = 0 \<or> z \<in> set bs"
    "r = 0 \<longleftrightarrow> as = []"
proof -
  from l obtain q r' where s: "dseg m 0 x as r' a" "a \<noteq> 0" "m (a + 8) = r'" "dseg m a z bs q 0"
    unfolding dlist_def dseg_append z_def by auto
  have rr: "r = (if as = [] then 0 else last as)" using dseg_exit [OF s(1)] s(3) by (simp add: r_def)
  have nz: "0 \<notin> set as" by (rule dseg_nodes [OF s(1)])
  show r: "r = 0 \<or> r \<in> set as" "r = 0 \<longleftrightarrow> as = []" using rr nz last_in_set [of as] by metis+
  show z: "z = 0 \<or> z \<in> set bs" using s(4) by (cases bs) auto
  show m1: "m1 a = z" "m1 (a + 8) = r" using r(1) d apartD [OF ap, of r a] by (auto simp: m1_def z_def r_def)
  have "dseg m1 a z bs q 0 = dseg m a z bs q 0"
    by (rule dseg_cong) (use r(1) d ap in \<open>auto simp: m1_def apart_def\<close>)
  with s(4) have "dseg m1 a z bs q 0" by simp
  from dseg_enter [OF this, of r] ap d obtain q' where t: "dseg m2 r z bs q' 0" by (auto simp: m2_def apart_def)
  have "dseg m2 0 (if r = 0 then z else x) as r z"
  proof (cases as rule: rev_cases)
    case Nil
    then show ?thesis using rr by simp
  next
    case (snoc cs c)
    have c: "r = c" using rr snoc by simp
    have u: "dseg m 0 x cs (m (c + 8)) c" "c \<noteq> 0" using s(1) snoc by (auto simp: dseg_append)
    have "dseg m2 0 x cs (m (c + 8)) c = dseg m 0 x cs (m (c + 8)) c"
      by (rule dseg_cong) (use z d ap snoc c in \<open>auto simp: m1_def m2_def apart_def\<close>)
    moreover have "m2 c = z" "m2 (c + 8) = m (c + 8)"
      using z d ap snoc c u(2) by (auto simp: m1_def m2_def apart_def)
    ultimately show ?thesis using u snoc c by (auto simp: dseg_append)
  qed
  then show "dlist m2 (if r = 0 then z else x) (as @ bs)" using t unfolding dlist_def dseg_append by blast
qed

end
