(* ===== verification/Page_Blocks.thy ===== *)
theory Page_Blocks
  imports Kernel_Prelude
begin

text \<open>
  Aligned blocks of pages and their siblings, as sets of page numbers: two blocks are nested or disjoint, and in a set of
  disjoint blocks without two sibling blocks every aligned run of pages that the set covers lies inside one block.
\<close>

section \<open>Blocks\<close>

definition blk :: "nat \<Rightarrow> nat \<Rightarrow> nat set" where
  "blk k n = {k..<k + 2 ^ n}"

definition sib :: "nat \<Rightarrow> nat \<Rightarrow> nat" where
  "sib k n = (if even (k div 2 ^ n) then k + 2 ^ n else k - 2 ^ n)"

lemma blk_first [simp]: "k \<in> blk k n"
  by (simp add: blk_def)

lemma finite_blk [simp]: "finite (blk k n)"
  by (simp add: blk_def)

lemma card_blk [simp]: "card (blk k n) = 2 ^ n"
  by (simp add: blk_def)

lemma in_blk_div: "2 ^ n dvd k \<Longrightarrow> i \<in> blk k n \<longleftrightarrow> i div 2 ^ n = k div 2 ^ n"
proof -
  assume "2 ^ n dvd k"
  then obtain q where q: "k = 2 ^ n * q" by (elim dvdE)
  have "i \<in> blk k n \<longleftrightarrow> 2 ^ n * q \<le> i \<and> i < 2 ^ n * Suc q" unfolding blk_def q by auto
  also have "\<dots> \<longleftrightarrow> i div 2 ^ n = q"
    using div_nat_eqI [of "2 ^ n" q i] dividend_less_times_div [of "2 ^ n" i] times_div_less_eq_dividend [of "2 ^ n" i]
    by (auto simp: mult.commute)
  finally show ?thesis by (simp add: q)
qed

lemma div_pow_le: "n \<le> p \<Longrightarrow> i div 2 ^ n = j div 2 ^ n \<Longrightarrow> i div 2 ^ p = (j :: nat) div 2 ^ p"
proof -
  assume a: "n \<le> p" "i div 2 ^ n = j div 2 ^ n"
  have "i div 2 ^ p = i div 2 ^ n div 2 ^ (p - n)" for i :: nat using a(1) by (simp add: div_mult2_eq [symmetric] power_add [symmetric])
  then show ?thesis using a(2) by metis
qed

lemma blk_nested:
  assumes "2 ^ n dvd k" "2 ^ p dvd j" "n \<le> p" "i \<in> blk k n" "i \<in> blk j p"
  shows "blk k n \<subseteq> blk j p"
proof
  fix i' assume "i' \<in> blk k n"
  then have "i' div 2 ^ n = i div 2 ^ n" using assms(1,4) by (simp add: in_blk_div)
  then have "i' div 2 ^ p = i div 2 ^ p" by (rule div_pow_le [OF assms(3)])
  then show "i' \<in> blk j p" using assms(2,5) by (simp add: in_blk_div)
qed

lemma blk_inj: "2 ^ n dvd k \<Longrightarrow> 2 ^ n dvd j \<Longrightarrow> i \<in> blk k n \<Longrightarrow> i \<in> blk j n \<Longrightarrow> k = j"
  by (metis dvd_div_mult_self in_blk_div)

section \<open>Siblings\<close>

lemma sib_props:
  assumes "2 ^ n dvd k"
  shows "2 ^ n dvd sib k n" "sib (sib k n) n = k" "sib k n \<noteq> k" "blk k n \<inter> blk (sib k n) n = {}"
    "sib k n div 2 ^ Suc n = k div 2 ^ Suc n" "sib k n < k \<longleftrightarrow> odd (k div 2 ^ n)"
proof -
  obtain q where q: "k = 2 ^ n * q" using assms by (elim dvdE)
  have kd: "k div 2 ^ n = q" by (simp add: q)
  have s: "sib k n = 2 ^ n * (if even q then q + 1 else q - 1)" unfolding sib_def kd by (simp add: q algebra_simps)
  then have sd: "sib k n div 2 ^ n = (if even q then q + 1 else q - 1)" by simp
  show d: "2 ^ n dvd sib k n" unfolding s by simp
  have oq: "odd q \<Longrightarrow> 0 < q" by (cases q) auto
  have "sib (sib k n) n = (if even (if even q then q + 1 else q - 1) then 2 ^ n * (if even q then q + 1 else q - 1) + 2 ^ n
      else 2 ^ n * (if even q then q + 1 else q - 1) - 2 ^ n)" using sib_def [of "sib k n" n] unfolding sd unfolding s by simp
  also have "\<dots> = 2 ^ n * q" using oq by (cases q) (auto simp: algebra_simps)
  finally show "sib (sib k n) n = k" by (simp only: q)
  define r where "r = (if even q then q + 1 else q - 1)"
  have r: "r \<noteq> q" "r < q \<longleftrightarrow> odd q" by (cases q, simp_all add: r_def)+
  have sr: "sib k n = 2 ^ n * r" using s by (simp only: r_def)
  show ne: "sib k n \<noteq> k" unfolding sr using r(1) by (simp add: q)
  show "blk k n \<inter> blk (sib k n) n = {}"
  proof (rule ccontr)
    assume "blk k n \<inter> blk (sib k n) n \<noteq> {}"
    then obtain i where "i \<in> blk k n" "i \<in> blk (sib k n) n" by (auto simp del: disjoint_iff)
    from blk_inj [OF assms d this] ne show False by simp
  qed
  have "r div 2 = q div 2"
  proof (cases "even q")
    case True
    then show ?thesis by (simp add: r_def)
  next
    case False
    then obtain m where "q = 2 * m + 1" by (elim oddE)
    then show ?thesis by (simp add: r_def)
  qed
  then have "sib k n div 2 ^ n div 2 = k div 2 ^ n div 2" unfolding sd kd r_def .
  then show "sib k n div 2 ^ Suc n = k div 2 ^ Suc n" by (simp only: div_mult2_eq power_Suc2)
  show "sib k n < k \<longleftrightarrow> odd (k div 2 ^ n)" unfolding kd sr using r(2) by (simp add: q)
qed

lemma sib_union:
  assumes "2 ^ n dvd k"
  defines "j \<equiv> (if sib k n < k then sib k n else k)"
  shows "2 ^ Suc n dvd j" "blk j (Suc n) = blk k n \<union> blk (sib k n) n"
proof -
  note sp = sib_props [OF assms(1)]
  obtain q where q: "k = 2 ^ n * q" using assms(1) by (elim dvdE)
  have kd: "k div 2 ^ n = q" by (simp add: q)
  have j: "j = (if odd q then 2 ^ n * (q - 1) else 2 ^ n * q)"
    using sp(6) unfolding j_def kd by (simp add: sib_def kd) (simp add: q algebra_simps)
  show "2 ^ Suc n dvd j" unfolding j by (cases "odd q") (auto elim!: evenE oddE simp: algebra_simps)
  show "blk j (Suc n) = blk k n \<union> blk (sib k n) n"
  proof (cases "odd q")
    case True
    then have "0 < q" by (cases q) auto
    then have "k = j + 2 ^ n" using True unfolding j by (cases q) (simp_all add: q algebra_simps)
    moreover have "sib k n = j" using sp(6) True kd by (simp add: j_def)
    ultimately show ?thesis by (auto simp: blk_def)
  next
    case False
    then have "j = k" "sib k n = k + 2 ^ n" using kd unfolding j by (simp_all add: q sib_def)
    then show ?thesis by (auto simp: blk_def)
  qed
qed

text \<open>A larger block holds both siblings or neither.\<close>

lemma sib_inside:
  assumes "2 ^ n dvd k" "2 ^ p dvd j" "n < p" "i \<in> blk k n" "i \<in> blk j p"
  shows "blk (sib k n) n \<subseteq> blk j p"
proof -
  have "blk k n \<subseteq> blk j p" by (rule blk_nested [OF assms(1,2) _ assms(4,5)]) (use assms(3) in simp)
  then have "k \<in> blk j p" using blk_first by blast
  then have "k div 2 ^ p = j div 2 ^ p" using assms(2) by (simp add: in_blk_div)
  moreover have "sib k n div 2 ^ p = k div 2 ^ p" by (rule div_pow_le [of "Suc n"]) (use assms(3) sib_props(5) [OF assms(1)] in simp_all)
  ultimately have "sib k n \<in> blk j p" using assms(2) by (simp add: in_blk_div)
  then show ?thesis using blk_nested [OF sib_props(1) [OF assms(1)] assms(2) _ blk_first] assms(3) by simp
qed

lemma xor_pow_sib:
  assumes "2 ^ n dvd k"
  shows "k XOR 2 ^ n = sib k n"
proof -
  obtain q where q: "k = 2 ^ n * q" using assms by (elim dvdE)
  have p: "k = push_bit n q" "2 ^ n = push_bit n (1 :: nat)" by (simp_all add: q push_bit_eq_mult mult.commute)
  have "k XOR 2 ^ n = push_bit n (q XOR 1)" unfolding p by (simp add: push_bit_xor)
  also have "q XOR 1 = (if even q then q + 1 else q - 1)" by (simp add: xor_Suc_0_eq)
  finally show ?thesis by (auto simp: sib_def q push_bit_eq_mult algebra_simps)
qed

section \<open>Sets of free blocks\<close>

definition covers :: "(nat \<times> nat) set \<Rightarrow> nat set" where
  "covers F = (\<Union>(k, n) \<in> F. blk k n)"

definition blocks_ok :: "(nat \<times> nat) set \<Rightarrow> bool" where
  "blocks_ok F \<longleftrightarrow> (\<forall>k n. (k, n) \<in> F \<longrightarrow> 2 ^ n dvd k) \<and>
     (\<forall>k n j p. (k, n) \<in> F \<and> (j, p) \<in> F \<and> blk k n \<inter> blk j p \<noteq> {} \<longrightarrow> k = j \<and> n = p)"

definition coalesced :: "nat \<Rightarrow> (nat \<times> nat) set \<Rightarrow> bool" where
  "coalesced t F \<longleftrightarrow> (\<forall>k n. (k, n) \<in> F \<and> n < t \<longrightarrow> (sib k n, n) \<notin> F)"

lemma in_covers: "i \<in> covers F \<longleftrightarrow> (\<exists>k n. (k, n) \<in> F \<and> i \<in> blk k n)"
  by (auto simp: covers_def)

lemma blocks_okD:
  assumes "blocks_ok F"
  shows "(k, n) \<in> F \<Longrightarrow> 2 ^ n dvd k" "(k, n) \<in> F \<Longrightarrow> (j, p) \<in> F \<Longrightarrow> i \<in> blk k n \<Longrightarrow> i \<in> blk j p \<Longrightarrow> k = j \<and> n = p"
  using assms unfolding blocks_ok_def by blast+

text \<open>Free pages that form an aligned run belong to one free block.\<close>

lemma run_in_one_block:
  assumes F: "blocks_ok F" "coalesced t F" and B: "2 ^ p dvd j" "p \<le> t" "blk j p \<subseteq> covers F"
  shows "\<exists>k n. (k, n) \<in> F \<and> p \<le> n \<and> blk j p \<subseteq> blk k n"
proof (rule ccontr)
  assume none: "\<not> ?thesis"
  have small: "n < p" if "(k, n) \<in> F" "i \<in> blk k n" "i \<in> blk j p" for k n i
    using none that blk_nested [OF B(1) blocks_okD(1) [OF F(1) that(1)] _ that(3,2)] by (metis not_le)
  define meets where "meets n \<longleftrightarrow> (\<exists>k i. (k, n) \<in> F \<and> i \<in> blk k n \<and> i \<in> blk j p)" for n
  have "j \<in> covers F" using B(3) by auto
  then have "\<exists>n. meets n" unfolding meets_def in_covers using blk_first by blast
  then have m: "meets (LEAST n. meets n)" by (rule LeastI_ex)
  define n where "n = (LEAST n. meets n)"
  from m obtain k i where k: "(k, n) \<in> F" "i \<in> blk k n" "i \<in> blk j p" unfolding meets_def n_def by blast
  have al: "2 ^ n dvd k" by (rule blocks_okD(1) [OF F(1) k(1)])
  have np: "n < p" by (rule small [OF k])
  have sb: "blk (sib k n) n \<subseteq> blk j p" by (rule sib_inside [OF al B(1) np k(2,3)])
  then have "sib k n \<in> covers F" using B(3) blk_first by blast
  then obtain k' n' where k': "(k', n') \<in> F" "sib k n \<in> blk k' n'" unfolding in_covers by blast
  have al': "2 ^ n' dvd k'" by (rule blocks_okD(1) [OF F(1) k'(1)])
  have "meets n'" unfolding meets_def using k' sb blk_first by blast
  then have le: "n \<le> n'" unfolding n_def by (rule Least_le)
  show False
  proof (cases "n' = n")
    case True
    then have "k' = sib k n" using blk_inj [OF al' [unfolded True] sib_props(1) [OF al]] k'(2) blk_first by simp
    then show False using F(2) k(1) k'(1) True np B(2) unfolding coalesced_def by auto
  next
    case False
    then have "n < n'" using le by simp
    then have "blk (sib (sib k n) n) n \<subseteq> blk k' n'"
      by (rule sib_inside [OF sib_props(1) [OF al] al' _ blk_first k'(2)])
    then have "k \<in> blk k' n'" using sib_props(2) [OF al] blk_first by auto
    then show False using blocks_okD(2) [OF F(1) k(1) k'(1) blk_first] False by simp
  qed
qed

end
