(* ===== verification/Buddy_Inv.thy ===== *)
theory Buddy_Inv
  imports Buddy Mem_List Page_Blocks
begin

text \<open>
  Correctness of the buddy allocator: free lists and bitmap refine a set of free pages. Pages are numbered from the base of
  the heap. Allocation takes an aligned run out of the set and fails only when the set has none; release puts the run back
  and merges it with its sibling as far as possible; no operation writes outside the free pages.
\<close>

section \<open>Addresses of pages\<close>

definition bd_pages :: "buddy \<Rightarrow> nat" where
  "bd_pages b = unat (bd_size b) div 4096"

definition adr :: "buddy \<Rightarrow> nat \<Rightarrow> u64" where
  "adr b k = bd_base b + of_nat k * BUDDY_PAGE"

definition heap_geo :: "buddy \<Rightarrow> bool" where
  "heap_geo b \<longleftrightarrow> bd_base b \<noteq> 0 \<and> unat (bd_base b) mod 4096 = 0 \<and> unat (bd_base b) + unat (bd_size b) < 2 ^ 64 \<and> bd_pages b \<le> 8256"

lemma unat_page_off:
  assumes "k \<le> 8256"
  shows "unat (of_nat k * BUDDY_PAGE :: u64) = 4096 * k"
  using assms by (simp add: BUDDY_PAGE_def unat_word_ariths unat_of_nat)

lemma unat_adr:
  assumes "heap_geo b" "k \<le> bd_pages b"
  shows "unat (adr b k) = unat (bd_base b) + 4096 * k"
proof -
  have k: "k \<le> 8256" using assms by (simp add: heap_geo_def)
  have "4096 * k \<le> unat (bd_size b)" using assms(2) unfolding bd_pages_def by linarith
  then have "unat (bd_base b) + 4096 * k < 2 ^ 64" using assms(1) by (simp add: heap_geo_def)
  then show ?thesis unfolding adr_def using unat_page_off [OF k] by (simp add: unat_word_ariths)
qed

lemma adr_eq:
  assumes "heap_geo b" "k \<le> bd_pages b" "j \<le> bd_pages b"
  shows "adr b k = adr b j \<longleftrightarrow> k = j"
proof
  assume "adr b k = adr b j"
  then have "unat (bd_base b) + 4096 * k = unat (bd_base b) + 4096 * j"
    using unat_adr [OF assms(1,2)] unat_adr [OF assms(1,3)] by (simp only:)
  then show "k = j" by simp
qed simp

lemma adr_nonzero:
  assumes "heap_geo b" "k \<le> bd_pages b"
  shows "adr b k \<noteq> 0"
proof -
  have "0 < unat (bd_base b)" using assms(1) by (simp add: heap_geo_def unat_gt_0)
  then have "0 < unat (adr b k)" using unat_adr [OF assms] by simp
  then show ?thesis by auto
qed

lemma adr_not_second:
  assumes "heap_geo b" "k \<le> bd_pages b" "j \<le> bd_pages b"
  shows "adr b k \<noteq> adr b j + 8"
proof
  assume e: "adr b k = adr b j + 8"
  have m: "unat (adr b k) mod 4096 = 0" "unat (adr b j) mod 4096 = 0" using unat_adr assms by (simp_all add: heap_geo_def)
  then obtain q where q: "unat (adr b j) = 4096 * q" by auto
  have "unat (adr b j) < 2 ^ 64" using unat_u64_less [of "adr b j"] by simp
  then have "unat (adr b j) + 8 < 2 ^ 64" using q by simp
  then have "unat (adr b k) = unat (adr b j) + 8" unfolding e by (simp add: unat_word_ariths)
  then show False using m(1) q by simp
qed

lemma page_idx_adr:
  assumes "heap_geo b" "k \<le> bd_pages b"
  shows "bd_page_idx b (adr b k) = k"
proof -
  have "k \<le> 8256" using assms by (simp add: heap_geo_def)
  then show ?thesis by (simp add: bd_page_idx_def adr_def unat_div unat_page_off) (simp add: BUDDY_PAGE_def)
qed

lemma adr_block: "adr b k + block_size n = adr b (k + 2 ^ n)"
  by (simp add: adr_def block_size_def BUDDY_PAGE_def push_bit_eq_mult algebra_simps)

lemma buddy_adr:
  assumes "2 ^ n dvd k"
  shows "buddy_of b (adr b k) n = adr b (sib k n)"
proof -
  have p: "(of_nat j :: u64) * BUDDY_PAGE = push_bit 12 (of_nat j)" for j by (simp add: BUDDY_PAGE_def push_bit_eq_mult)
  have "block_size n = push_bit 12 (of_nat (2 ^ n))" by (simp add: block_size_def BUDDY_PAGE_def push_bit_eq_mult mult.commute)
  then have "(adr b k - bd_base b) XOR block_size n = push_bit 12 (of_nat k XOR of_nat (2 ^ n))"
    by (simp add: adr_def p push_bit_xor)
  also have "of_nat k XOR of_nat (2 ^ n) = (of_nat (sib k n) :: u64)"
    using xor_pow_sib [OF assms] by (metis of_nat_xor_eq)
  finally show ?thesis by (simp add: buddy_of_def adr_def p)
qed

section \<open>The bitmap\<close>

definition bd_bit :: "buddy \<Rightarrow> nat \<Rightarrow> bool" where
  "bd_bit b i \<longleftrightarrow> bit (bd_bitmap b (i div 64)) (i mod 64)"

lemma same_bit: "i div 64 = j div 64 \<Longrightarrow> i mod 64 = j mod 64 \<longleftrightarrow> i = (j :: nat)"
  by (metis div_mult_mod_eq)

lemma set_free_fold:
  "bd_bit (fold (\<lambda>i b. if i div 64 < BITMAP_WORDS
      then b\<lparr>bd_bitmap := (bd_bitmap b)(i div 64 := bd_bitmap b (i div 64) OR bit_at (i mod 64))\<rparr> else b) is b) j
    \<longleftrightarrow> bd_bit b j \<or> j \<in> set is \<and> j div 64 < BITMAP_WORDS"
  by (induction "is" arbitrary: b) (auto simp: bd_bit_def bit_simps same_bit)

lemma set_used_fold:
  "bd_bit (fold (\<lambda>i b. if i div 64 < BITMAP_WORDS
      then b\<lparr>bd_bitmap := (bd_bitmap b)(i div 64 := bd_bitmap b (i div 64) AND NOT (bit_at (i mod 64)))\<rparr> else b) is b) j
    \<longleftrightarrow> bd_bit b j \<and> \<not> (j \<in> set is \<and> j div 64 < BITMAP_WORDS)"
  by (induction "is" arbitrary: b) (auto simp: bd_bit_def bit_simps same_bit)

lemma bitmap_fold_frame:
  fixes b :: buddy
  assumes "\<And>i b. f i b = b \<or> (\<exists>g. f i b = b\<lparr>bd_bitmap := g\<rparr>)"
  shows "bd_base (fold f is b) = bd_base b \<and> bd_size (fold f is b) = bd_size b \<and> bd_heads (fold f is b) = bd_heads b \<and>
    bd_free (fold f is b) = bd_free b \<and> bd_mem (fold f is b) = bd_mem b"
proof (induction "is" arbitrary: b)
  case (Cons i js)
  then show ?case using assms [of i b] by auto
qed simp

lemma bitmap_frame [simp]:
  "bd_base (bitmap_set_free a n b) = bd_base b" "bd_size (bitmap_set_free a n b) = bd_size b"
  "bd_heads (bitmap_set_free a n b) = bd_heads b" "bd_free (bitmap_set_free a n b) = bd_free b"
  "bd_mem (bitmap_set_free a n b) = bd_mem b"
  "bd_base (bitmap_set_used a n b) = bd_base b" "bd_size (bitmap_set_used a n b) = bd_size b"
  "bd_heads (bitmap_set_used a n b) = bd_heads b" "bd_free (bitmap_set_used a n b) = bd_free b"
  "bd_mem (bitmap_set_used a n b) = bd_mem b"
proof -
  let ?f = "\<lambda>i b. if i div 64 < BITMAP_WORDS then b\<lparr>bd_bitmap := (bd_bitmap b)(i div 64 := bd_bitmap b (i div 64) OR bit_at (i mod 64))\<rparr> else b"
  let ?g = "\<lambda>i b. if i div 64 < BITMAP_WORDS then b\<lparr>bd_bitmap := (bd_bitmap b)(i div 64 := bd_bitmap b (i div 64) AND NOT (bit_at (i mod 64)))\<rparr> else b"
  have f: "?f i b = b \<or> (\<exists>g. ?f i b = b\<lparr>bd_bitmap := g\<rparr>)" "?g i b = b \<or> (\<exists>g. ?g i b = b\<lparr>bd_bitmap := g\<rparr>)" for i and b :: buddy by auto
  show "bd_base (bitmap_set_free a n b) = bd_base b" "bd_size (bitmap_set_free a n b) = bd_size b"
    "bd_heads (bitmap_set_free a n b) = bd_heads b" "bd_free (bitmap_set_free a n b) = bd_free b"
    "bd_mem (bitmap_set_free a n b) = bd_mem b"
    using bitmap_fold_frame [of ?f, OF f(1)] unfolding bitmap_set_free_def Let_def by blast+
  show "bd_base (bitmap_set_used a n b) = bd_base b" "bd_size (bitmap_set_used a n b) = bd_size b"
    "bd_heads (bitmap_set_used a n b) = bd_heads b" "bd_free (bitmap_set_used a n b) = bd_free b"
    "bd_mem (bitmap_set_used a n b) = bd_mem b"
    using bitmap_fold_frame [of ?g, OF f(2)] unfolding bitmap_set_used_def Let_def by blast+
qed

lemma bd_bit_set_free: "j < 8256 \<Longrightarrow> bd_bit (bitmap_set_free a n b) j \<longleftrightarrow> bd_bit b j \<or> j \<in> blk (bd_page_idx b a) n"
  unfolding bitmap_set_free_def Let_def set_free_fold by (auto simp: blk_def)

lemma bd_bit_set_used: "j < 8256 \<Longrightarrow> bd_bit (bitmap_set_used a n b) j \<longleftrightarrow> bd_bit b j \<and> j \<notin> blk (bd_page_idx b a) n"
  unfolding bitmap_set_used_def Let_def set_used_fold by (auto simp: blk_def)

lemma bitmap_is_free_iff: "bitmap_is_free b a n \<longleftrightarrow> (\<forall>j \<in> blk (bd_page_idx b a) n. j < 8256 \<and> bd_bit b j)"
  unfolding bitmap_is_free_def Let_def by (auto simp: blk_def bd_bit_def)

section \<open>The invariant\<close>

definition fblocks :: "(nat \<Rightarrow> nat list) \<Rightarrow> (nat \<times> nat) set" where
  "fblocks L = {(k, n). n < MAX_ORDER \<and> k \<in> set (L n)}"

definition buddy_inv :: "buddy \<Rightarrow> (nat \<Rightarrow> nat list) \<Rightarrow> bool" where
  "buddy_inv b L \<longleftrightarrow> heap_geo b \<and>
     (\<forall>n < MAX_ORDER. dlist (bd_mem b) (bd_heads b n) (map (adr b) (L n)) \<and> distinct (L n)) \<and>
     blocks_ok (fblocks L) \<and> (\<forall>k n. (k, n) \<in> fblocks L \<longrightarrow> k + 2 ^ n \<le> bd_pages b) \<and>
     (\<forall>i < 8256. bd_bit b i \<longleftrightarrow> i \<in> covers (fblocks L)) \<and> unat (bd_free b) = 4096 * card (covers (fblocks L))"

text \<open>What stays: the place of the heap, and every word that is not one of the two first words of a page in \<open>P\<close>.\<close>

definition keeps :: "nat set \<Rightarrow> buddy \<Rightarrow> buddy \<Rightarrow> bool" where
  "keeps P b b' \<longleftrightarrow> bd_base b' = bd_base b \<and> bd_size b' = bd_size b \<and>
     (\<forall>a. (\<forall>k \<in> P. a \<noteq> adr b k \<and> a \<noteq> adr b k + 8) \<longrightarrow> bd_mem b' a = bd_mem b a)"

lemma keeps_refl [simp]: "keeps P b b"
  by (simp add: keeps_def)

lemma keeps_geo: "keeps P b b' \<Longrightarrow> adr b' k = adr b k \<and> bd_pages b' = bd_pages b \<and> heap_geo b' = heap_geo b"
  by (simp add: keeps_def adr_def bd_pages_def heap_geo_def)

lemma keeps_trans: "keeps P b b' \<Longrightarrow> keeps Q b' b'' \<Longrightarrow> P \<subseteq> R \<Longrightarrow> Q \<subseteq> R \<Longrightarrow> keeps R b b''"
  unfolding keeps_def adr_def by (simp add: subset_iff)

lemma buddy_invD:
  assumes "buddy_inv b L"
  shows "heap_geo b" "n < MAX_ORDER \<Longrightarrow> dlist (bd_mem b) (bd_heads b n) (map (adr b) (L n))" "n < MAX_ORDER \<Longrightarrow> distinct (L n)"
    "blocks_ok (fblocks L)" "(k, n) \<in> fblocks L \<Longrightarrow> k + 2 ^ n \<le> bd_pages b" "i < 8256 \<Longrightarrow> bd_bit b i \<longleftrightarrow> i \<in> covers (fblocks L)"
    "unat (bd_free b) = 4096 * card (covers (fblocks L))"
  using assms unfolding buddy_inv_def by blast+

lemma in_fblocks: "(k, n) \<in> fblocks L \<longleftrightarrow> n < MAX_ORDER \<and> k \<in> set (L n)"
  by (simp add: fblocks_def)

lemma free_first: "(k, n) \<in> fblocks L \<Longrightarrow> k \<in> covers (fblocks L)"
  unfolding in_covers using blk_first by blast

lemma free_page_bound:
  assumes "buddy_inv b L" "i \<in> covers (fblocks L)"
  shows "i < bd_pages b"
proof -
  obtain k n where "(k, n) \<in> fblocks L" "i \<in> blk k n" using assms(2) unfolding in_covers by blast
  then show ?thesis using buddy_invD(5) [OF assms(1)] by (fastforce simp: blk_def)
qed

lemma covers_bound:
  assumes "buddy_inv b L"
  shows "finite (covers (fblocks L))" "card (covers (fblocks L)) \<le> bd_pages b"
proof -
  have s: "covers (fblocks L) \<subseteq> {..<bd_pages b}" using free_page_bound [OF assms] by blast
  then show "finite (covers (fblocks L))" by (rule finite_subset) simp
  show "card (covers (fblocks L)) \<le> bd_pages b" using card_mono [OF _ s] by simp
qed

lemma nodes_apart:
  assumes "heap_geo b" "\<forall>k \<in> K. k \<le> bd_pages b"
  shows "apart (adr b ` K)"
  using adr_not_second [OF assms(1)] assms(2) by (auto simp: apart_def)

lemma nodes_distinct:
  assumes "heap_geo b" "\<forall>k \<in> set ks. k \<le> bd_pages b" "distinct ks"
  shows "distinct (map (adr b) ks)"
  using assms adr_eq [OF assms(1)] by (auto simp: distinct_map inj_on_def)

lemma list_bound:
  assumes "buddy_inv b L" "n < MAX_ORDER" "k \<in> set (L n)"
  shows "k < bd_pages b" "k \<le> bd_pages b" "(k, n) \<in> fblocks L"
  using free_page_bound [OF assms(1) free_first, of k n] assms(2,3) by (simp_all add: in_fblocks)

lemma block_bytes:
  assumes "k + 2 ^ n \<le> bd_pages b" "heap_geo b"
  shows "unat (block_size n) = 4096 * 2 ^ n"
proof -
  have "(2 :: nat) ^ n \<le> 8256" using assms by (simp add: heap_geo_def)
  then have "unat (of_nat (2 ^ n) * BUDDY_PAGE :: u64) = 4096 * 2 ^ n" by (rule unat_page_off)
  moreover have "block_size n = of_nat (2 ^ n) * BUDDY_PAGE" by (simp add: block_size_def push_bit_eq_mult mult.commute)
  ultimately show ?thesis by (simp only:)
qed

section \<open>Insertion of a block\<close>

lemma fblocks_push: "n < MAX_ORDER \<Longrightarrow> fblocks (L(n := k # L n)) = insert (k, n) (fblocks L)"
  by (auto simp: fblocks_def split: if_splits)

lemma covers_insert: "covers (insert (k, n) F) = blk k n \<union> covers F"
  by (simp add: covers_def)

lemma coalesced_insert:
  assumes "coalesced t F" "(sib k n, n) \<notin> F" "2 ^ n dvd k" "blocks_ok F"
  shows "coalesced t (insert (k, n) F)"
  unfolding coalesced_def
proof (intro allI impI)
  fix j p assume a: "(j, p) \<in> insert (k, n) F \<and> p < t"
  show "(sib j p, p) \<notin> insert (k, n) F"
  proof (cases "(j, p) = (k, n)")
    case True
    then show ?thesis using assms(2) sib_props(3) [OF assms(3)] by auto
  next
    case False
    then have j: "(j, p) \<in> F" "p < t" using a by auto
    have d: "2 ^ p dvd j" by (rule blocks_okD(1) [OF assms(4) j(1)])
    have "(sib j p, p) \<noteq> (k, n)" using sib_props(2) [OF d] assms(2) j(1) by auto
    then show ?thesis using assms(1) j unfolding coalesced_def by auto
  qed
qed

lemma free_push_inv:
  assumes inv: "buddy_inv b L" and n: "n < MAX_ORDER" and k: "2 ^ n dvd k" "k + 2 ^ n \<le> bd_pages b" "blk k n \<inter> covers (fblocks L) = {}"
  shows "buddy_inv (free_push (adr b k) n b) (L(n := k # L n))" "keeps (insert k (covers (fblocks L))) b (free_push (adr b k) n b)"
proof -
  note D = buddy_invD [OF inv]
  let ?b = "free_push (adr b k) n b" and ?a = "adr b k" and ?h = "bd_heads b n" and ?m = "bd_mem b"
  have kb: "k < bd_pages b" "k \<le> bd_pages b"
  proof -
    have "0 < (2 :: nat) ^ n" by simp
    then show "k < bd_pages b" using k(2) by linarith
    then show "k \<le> bd_pages b" by simp
  qed
  have knew: "k \<notin> covers (fblocks L)" using k(3) blk_first by blast
  have ne: "?a + 8 \<noteq> ?a" by simp
  define m' where "m' = (if ?h = 0 then ?m(?a := ?h, ?a + 8 := 0) else ?m(?a := ?h, ?a + 8 := 0, ?h + 8 := ?a))"
  have mem: "bd_mem ?b = m'"
    by (simp add: free_push_def Let_def set_prev_def set_next_def set_head_def m'_def fun_upd_twist [OF ne])
  have flds: "bd_base ?b = bd_base b" "bd_size ?b = bd_size b" "bd_heads ?b = (bd_heads b)(n := ?a)" "bd_free ?b = bd_free b + block_size n"
    by (simp_all add: free_push_def Let_def set_prev_def set_next_def set_head_def)
  have bits: "bd_bit ?b i \<longleftrightarrow> bd_bit b i \<or> i \<in> blk k n" if "i < 8256" for i
  proof -
    let ?b3 = "(if bd_heads (set_prev ?a 0 (set_next ?a ?h (set_prev ?a 0 (set_next ?a 0 b)))) n \<noteq> 0
       then set_prev ?h ?a (set_prev ?a 0 (set_next ?a ?h (set_prev ?a 0 (set_next ?a 0 b)))) else set_prev ?a 0 (set_next ?a ?h (set_prev ?a 0 (set_next ?a 0 b))))"
    let ?c = "set_head n ?a ?b3"
    have c: "bd_base ?c = bd_base b" "bd_size ?c = bd_size b" "bd_bit ?c i = bd_bit b i"
      by (simp_all add: set_prev_def set_next_def set_head_def bd_bit_def)
    have "bd_bit ?b i = bd_bit (bitmap_set_free ?a n ?c) i"
      by (simp add: free_push_def Let_def set_prev_def set_next_def set_head_def bd_bit_def)
    also have "\<dots> \<longleftrightarrow> bd_bit b i \<or> i \<in> blk (bd_page_idx ?c ?a) n" using bd_bit_set_free [OF that] c(3) by simp
    also have "bd_page_idx ?c ?a = k" using page_idx_adr [OF D(1) kb(2)] c(1) by (simp add: bd_page_idx_def)
    finally show ?thesis .
  qed
  have hd: "?h = 0 \<or> (\<exists>j. ?h = adr b j \<and> j \<in> set (L n))"
    using D(2) [OF n] by (cases "L n") (auto simp: dlist_def)
  have words: "m' a = ?m a" if "a \<noteq> ?a" "a \<noteq> ?a + 8" "\<forall>j \<in> set (L n). a \<noteq> adr b j + 8" for a
    using that hd by (auto simp: m'_def)
  show kp: "keeps (insert k (covers (fblocks L))) b ?b"
    unfolding keeps_def mem using flds(1,2) words free_first [of _ n L] n by (auto simp: in_fblocks)
  have adr': "adr ?b = adr b" "bd_pages ?b = bd_pages b" "heap_geo ?b = heap_geo b" using keeps_geo [OF kp] by (auto simp: fun_eq_iff)
  have kL: "k \<notin> set (L n)" using knew free_first [of k n L] n by (auto simp: in_fblocks)
  have lists: "dlist (bd_mem ?b) (bd_heads ?b p) (map (adr ?b) ((L(n := k # L n)) p)) \<and> distinct ((L(n := k # L n)) p)" if p: "p < MAX_ORDER" for p
  proof (cases "p = n")
    case True
    have bd: "\<forall>j \<in> set (k # L n). j \<le> bd_pages b" using kb(2) list_bound(2) [OF inv n] by simp
    have "apart (adr b ` set (k # L n))" by (rule nodes_apart [OF D(1) bd])
    moreover have "distinct (map (adr b) (k # L n))" by (rule nodes_distinct [OF D(1) bd]) (use kL D(3) [OF n] in simp)
    ultimately have "dlist m' ?a (?a # map (adr b) (L n))"
      by (intro dlist_push [OF D(2) [OF n] _ _ adr_nonzero [OF D(1) kb(2)] m'_def]) simp_all
    then show ?thesis using True kL D(3) [OF n] by (simp add: mem flds(3) adr'(1))
  next
    case False
    have "dlist m' (bd_heads b p) (map (adr b) (L p)) = dlist ?m (bd_heads b p) (map (adr b) (L p))"
    proof (rule dlist_cong, intro ballI)
      fix a assume "a \<in> set (map (adr b) (L p))"
      then obtain j where j: "a = adr b j" "j \<in> set (L p)" by auto
      note jb = list_bound [OF inv p j(2)]
      have jk: "j \<noteq> k" using knew free_first [OF jb(3)] by auto
      have jn: "j \<notin> set (L n)" using blocks_okD(2) [OF D(4) jb(3), of j n j] False n by (auto simp: in_fblocks)
      have ns: "\<forall>i \<in> set (L n). a \<noteq> adr b i + 8 \<and> a + 8 \<noteq> adr b i + 8"
        using adr_not_second [OF D(1) jb(2)] adr_eq [OF D(1) jb(2)] list_bound(2) [OF inv n] jn unfolding j(1) by (metis add_right_cancel)
      have "a \<noteq> ?a" "a \<noteq> ?a + 8" "a + 8 \<noteq> ?a" "a + 8 \<noteq> ?a + 8"
        using adr_not_second [OF D(1) jb(2) kb(2)] adr_not_second [OF D(1) kb(2) jb(2)] adr_eq [OF D(1) jb(2) kb(2)] jk unfolding j(1) by auto
      then show "m' a = ?m a \<and> m' (a + 8) = ?m (a + 8)" using words ns by simp
    qed
    then show ?thesis using False D(2,3) [OF p] by (simp add: mem flds(3) adr'(1))
  qed
  have cov: "covers (fblocks (L(n := k # L n))) = blk k n \<union> covers (fblocks L)" by (simp only: fblocks_push [OF n] covers_insert)
  have bok: "blocks_ok (fblocks (L(n := k # L n)))"
    unfolding fblocks_push [OF n] blocks_ok_def
  proof (intro conjI allI impI)
    fix j p assume "(j, p) \<in> insert (k, n) (fblocks L)"
    then show "2 ^ p dvd j" using k(1) blocks_okD(1) [OF D(4)] by auto
  next
    fix i q j p assume a: "(i, q) \<in> insert (k, n) (fblocks L) \<and> (j, p) \<in> insert (k, n) (fblocks L) \<and> blk i q \<inter> blk j p \<noteq> {}"
    have out: "blk j p \<inter> blk k n = {}" if "(j, p) \<in> fblocks L" for j p
      using k(3) that unfolding covers_def by blast
    then have "(i, q) = (j, p)" using a blocks_okD(2) [OF D(4), of i q j p] by blast
    then show "i = j" "q = p" by auto
  qed
  have fin: "finite (covers (fblocks L))" by (rule covers_bound [OF inv])
  have c: "card (blk k n \<union> covers (fblocks L)) = 2 ^ n + card (covers (fblocks L))"
    using card_Un_disjoint [OF _ fin k(3)] by simp
  have "blk k n \<union> covers (fblocks L) \<subseteq> {..<bd_pages b}" using k(2) free_page_bound [OF inv] by (auto simp: blk_def)
  then have "card (blk k n \<union> covers (fblocks L)) \<le> bd_pages b" using card_mono [of "{..<bd_pages b}"] by fastforce
  then have le: "2 ^ n + card (covers (fblocks L)) \<le> 8256" using c D(1) by (simp add: heap_geo_def)
  have "unat (bd_free b + block_size n) = unat (bd_free b) + 4096 * 2 ^ n"
    using block_bytes [OF k(2) D(1)] D(7) le by (simp add: unat_word_ariths)
  then have fr: "unat (bd_free ?b) = 4096 * card (covers (fblocks (L(n := k # L n))))" unfolding flds(4) cov c by (simp add: D(7))
  show "buddy_inv ?b (L(n := k # L n))" unfolding buddy_inv_def adr'(2,3)
  proof (intro conjI allI impI)
    show "j + 2 ^ p \<le> bd_pages b" if "(j, p) \<in> fblocks (L(n := k # L n))" for j p
      using that k(2) D(5) unfolding fblocks_push [OF n] by auto
    show "bd_bit ?b i \<longleftrightarrow> i \<in> covers (fblocks (L(n := k # L n)))" if "i < 8256" for i
      unfolding bits [OF that] cov using D(6) [OF that] by blast
  qed (use D(1) lists bok fr in auto)
qed

section \<open>Removal of a block\<close>

lemma free_remove_inv:
  assumes inv: "buddy_inv b L" and n: "n < MAX_ORDER" and L: "L n = xs @ k # ys"
  shows "buddy_inv (free_remove (adr b k) n b) (L(n := xs @ ys))"
    "fblocks (L(n := xs @ ys)) = fblocks L - {(k, n)}" "covers (fblocks (L(n := xs @ ys))) = covers (fblocks L) - blk k n"
    "keeps (covers (fblocks L)) b (free_remove (adr b k) n b)"
proof -
  note D = buddy_invD [OF inv]
  let ?b = "free_remove (adr b k) n b" and ?a = "adr b k" and ?m = "bd_mem b"
  have kin: "(k, n) \<in> fblocks L" using n L by (simp add: in_fblocks)
  have kb: "k \<le> bd_pages b" using list_bound(2) [OF inv n] L by simp
  have bdn: "\<forall>j \<in> set (L n). j \<le> bd_pages b" using list_bound(2) [OF inv n] by blast
  have ap: "apart (set (map (adr b) xs @ ?a # map (adr b) ys))" using nodes_apart [OF D(1) bdn] L by (simp add: image_Un)
  have ds: "distinct (map (adr b) xs @ ?a # map (adr b) ys)" using nodes_distinct [OF D(1) bdn D(3) [OF n]] L by simp
  have dl: "dlist ?m (bd_heads b n) (map (adr b) xs @ ?a # map (adr b) ys)" using D(2) [OF n] L by simp
  let ?r = "?m (?a + 8)" and ?z = "?m ?a"
  define m1 where "m1 = (if ?r = 0 then ?m else ?m(?r := ?z))"
  define m2 where "m2 = (if ?z = 0 then m1 else m1(?z + 8 := ?r))"
  note dr = dlist_remove [OF dl ap ds, folded m1_def, folded m2_def]
  have mem: "bd_mem ?b = m2" and hds: "bd_heads ?b = (if ?r = 0 then (bd_heads b)(n := ?z) else bd_heads b)"
    and flds: "bd_base ?b = bd_base b" "bd_size ?b = bd_size b" "bd_free ?b = bd_free b - block_size n"
    using dr(2,3) by (auto simp: free_remove_def Let_def node_prev_def node_next_def set_prev_def set_next_def set_head_def m1_def m2_def)
  have bits: "bd_bit ?b i \<longleftrightarrow> bd_bit b i \<and> i \<notin> blk k n" if "i < 8256" for i
  proof -
    let ?b1 = "(if node_prev b ?a \<noteq> 0 then set_next (node_prev b ?a) (node_next b ?a) b else set_head n (node_next b ?a) b)"
    let ?c = "(if node_next ?b1 ?a \<noteq> 0 then set_prev (node_next ?b1 ?a) (node_prev ?b1 ?a) ?b1 else ?b1)"
    have c: "bd_base ?c = bd_base b" "bd_bit ?c i = bd_bit b i"
      by (simp_all add: set_prev_def set_next_def set_head_def bd_bit_def)
    have "bd_bit ?b i = bd_bit (bitmap_set_used ?a n ?c) i" by (simp add: free_remove_def Let_def bd_bit_def)
    also have "\<dots> \<longleftrightarrow> bd_bit b i \<and> i \<notin> blk (bd_page_idx ?c ?a) n" using bd_bit_set_used [OF that] c(2) by simp
    also have "bd_page_idx ?c ?a = k" using page_idx_adr [OF D(1) kb] c(1) by (simp add: bd_page_idx_def)
    finally show ?thesis .
  qed
  have words: "m2 a = ?m a" if "\<forall>j \<in> set (L n). a \<noteq> adr b j \<and> a \<noteq> adr b j + 8" for a
    using that dr(4,5) L unfolding m1_def m2_def by auto
  show kp: "keeps (covers (fblocks L)) b ?b"
    unfolding keeps_def mem using flds(1,2) words free_first [of _ n L] n by (auto simp: in_fblocks)
  have adr': "adr ?b = adr b" "bd_pages ?b = bd_pages b" "heap_geo ?b = heap_geo b" using keeps_geo [OF kp] by (auto simp: fun_eq_iff)
  have dst: "distinct (xs @ k # ys)" using D(3) [OF n] L by simp
  have lists: "dlist (bd_mem ?b) (bd_heads ?b p) (map (adr ?b) ((L(n := xs @ ys)) p)) \<and> distinct ((L(n := xs @ ys)) p)" if p: "p < MAX_ORDER" for p
  proof (cases "p = n")
    case True
    have "bd_heads ?b n = (if ?r = 0 then ?z else bd_heads b n)" by (simp add: hds)
    then show ?thesis using True dr(1) dst by (simp add: mem adr'(1))
  next
    case False
    have "dlist m2 (bd_heads b p) (map (adr b) (L p)) = dlist ?m (bd_heads b p) (map (adr b) (L p))"
    proof (rule dlist_cong, intro ballI)
      fix a assume "a \<in> set (map (adr b) (L p))"
      then obtain j where j: "a = adr b j" "j \<in> set (L p)" by auto
      note jb = list_bound [OF inv p j(2)]
      have jn: "j \<notin> set (L n)" using blocks_okD(2) [OF D(4) jb(3), of j n j] False n by (auto simp: in_fblocks)
      have "\<forall>i \<in> set (L n). a \<noteq> adr b i \<and> a \<noteq> adr b i + 8 \<and> a + 8 \<noteq> adr b i \<and> a + 8 \<noteq> adr b i + 8"
      proof
        fix i assume i: "i \<in> set (L n)"
        have "i \<le> bd_pages b" "j \<noteq> i" using bdn i jn by auto
        then show "a \<noteq> adr b i \<and> a \<noteq> adr b i + 8 \<and> a + 8 \<noteq> adr b i \<and> a + 8 \<noteq> adr b i + 8"
          using adr_not_second [OF D(1) jb(2), of i] adr_not_second [OF D(1) _ jb(2), of i] adr_eq [OF D(1) jb(2), of i] unfolding j(1) by auto
      qed
      then show "m2 a = ?m a \<and> m2 (a + 8) = ?m (a + 8)" using words by simp
    qed
    moreover have "bd_heads ?b p = bd_heads b p" using False by (simp add: hds)
    ultimately show ?thesis using False D(2,3) [OF p] by (simp add: mem adr'(1))
  qed
  show fb: "fblocks (L(n := xs @ ys)) = fblocks L - {(k, n)}" using L n dst by (auto simp: fblocks_def split: if_splits)
  show cov: "covers (fblocks (L(n := xs @ ys))) = covers (fblocks L) - blk k n"
  proof -
    have "blk j p \<inter> blk k n = {}" if "(j, p) \<in> fblocks L" "(j, p) \<noteq> (k, n)" for j p
      using blocks_okD(2) [OF D(4) that(1) kin] that(2) by auto
    then show ?thesis unfolding fb using kin unfolding covers_def by blast
  qed
  have bok: "blocks_ok (fblocks L - {(k, n)})" using D(4) unfolding blocks_ok_def by blast
  have fin: "finite (covers (fblocks L))" by (rule covers_bound [OF inv])
  have sub: "blk k n \<subseteq> covers (fblocks L)" using kin unfolding covers_def by blast
  have c: "card (covers (fblocks L) - blk k n) = card (covers (fblocks L)) - 2 ^ n" "2 ^ n \<le> card (covers (fblocks L))"
    using card_Diff_subset [OF _ sub] card_mono [OF fin sub] by simp_all
  have bs: "unat (block_size n) = 4096 * 2 ^ n" by (rule block_bytes [OF D(5) [OF kin] D(1)])
  then have "block_size n \<le> bd_free b" using D(7) c(2) by (simp add: word_le_nat_alt)
  then have "unat (bd_free b - block_size n) = unat (bd_free b) - 4096 * 2 ^ n" using bs by (simp add: unat_sub)
  then have fr: "unat (bd_free ?b) = 4096 * card (covers (fblocks (L(n := xs @ ys))))"
    unfolding flds(3) cov c(1) by (simp add: D(7) diff_mult_distrib2)
  show "buddy_inv ?b (L(n := xs @ ys))" unfolding buddy_inv_def adr'(2,3)
  proof (intro conjI allI impI)
    show "blocks_ok (fblocks (L(n := xs @ ys)))" unfolding fb by (rule bok)
    show "j + 2 ^ p \<le> bd_pages b" if "(j, p) \<in> fblocks (L(n := xs @ ys))" for j p
      using that D(5) unfolding fb by auto
    show "bd_bit ?b i \<longleftrightarrow> i \<in> covers (fblocks (L(n := xs @ ys)))" if "i < 8256" for i
      unfolding bits [OF that] cov using D(6) [OF that] by blast
  qed (use D(1) lists fr in auto)
qed

lemma coalesced_subset: "coalesced t F \<Longrightarrow> G \<subseteq> F \<Longrightarrow> coalesced t G"
  unfolding coalesced_def by blast

text \<open>Popping is removing the first block of the list.\<close>

lemma free_pop_remove:
  assumes inv: "buddy_inv b L" and n: "n < MAX_ORDER" and L: "L n = k # ys"
  shows "free_pop n b = (adr b k, free_remove (adr b k) n b)" "adr b k \<noteq> 0"
proof -
  have "dlist (bd_mem b) (bd_heads b n) (adr b k # map (adr b) ys)" using buddy_invD(2) [OF inv n] L by simp
  then have h: "bd_heads b n = adr b k" "adr b k \<noteq> 0" "bd_mem b (adr b k + 8) = 0" by (auto dest: dlist_head)
  show "adr b k \<noteq> 0" by (rule h)
  show "free_pop n b = (adr b k, free_remove (adr b k) n b)"
    using h by (simp add: free_pop_def free_remove_def node_prev_def node_next_def set_head_def set_prev_def Let_def)
qed

lemma list_empty_head:
  assumes "buddy_inv b L" "n < MAX_ORDER"
  shows "bd_heads b n = 0 \<longleftrightarrow> L n = []"
  using dlist_zero [OF buddy_invD(2) [OF assms]] by simp

end
