(* ===== verification/Buddy_Alloc.thy ===== *)
theory Buddy_Alloc
  imports Buddy_Inv
begin

text \<open>
  The operations of the buddy allocator against the set of free pages: \<open>buddy_holds b P\<close> says that the free lists, the bitmap and
  the byte counter of \<open>b\<close> all describe the set \<open>P\<close> of free page numbers, and that no two free siblings are left unmerged.
  Initialisation frees every page, allocation takes an aligned run out of the set unless it has none, release puts it back.
\<close>

section \<open>The abstract state\<close>

definition buddy_holds :: "buddy \<Rightarrow> nat set \<Rightarrow> bool" where
  "buddy_holds b P \<longleftrightarrow> (\<exists>L. buddy_inv b L \<and> coalesced 9 (fblocks L) \<and> covers (fblocks L) = P)"

text \<open>\<open>P\<close> has an aligned run of \<open>2 ^ n\<close> pages.\<close>

definition has_run :: "nat set \<Rightarrow> nat \<Rightarrow> bool" where
  "has_run P n \<longleftrightarrow> (\<exists>k. 2 ^ n dvd k \<and> blk k n \<subseteq> P)"

lemma buddy_holdsI: "buddy_inv b L \<Longrightarrow> coalesced 9 (fblocks L) \<Longrightarrow> covers (fblocks L) = P \<Longrightarrow> buddy_holds b P"
  unfolding buddy_holds_def by blast

lemma holds_geo: "buddy_holds b P \<Longrightarrow> heap_geo b"
  unfolding buddy_holds_def using buddy_invD(1) by blast

lemma holds_bound: "buddy_holds b P \<Longrightarrow> P \<subseteq> {..<bd_pages b}"
  unfolding buddy_holds_def using free_page_bound by blast

lemma holds_free: "buddy_holds b P \<Longrightarrow> unat (bd_free b) = 4096 * card P"
  unfolding buddy_holds_def using buddy_invD(7) by blast

lemma blk_bound: "blk k n \<subseteq> {..<m} \<longleftrightarrow> k + 2 ^ n \<le> m"
proof
  have "(0 :: nat) < 2 ^ n" by simp
  then have "k + 2 ^ n - 1 \<in> blk k n" unfolding blk_def atLeastLessThan_iff by linarith
  moreover assume "blk k n \<subseteq> {..<m}"
  ultimately have "k + 2 ^ n - 1 < m" by blast
  then show "k + 2 ^ n \<le> m" by simp
qed (auto simp: blk_def)

text \<open>Pushing a block whose sibling is not a free block.\<close>

lemma push_holds:
  assumes inv: "buddy_inv b L" "coalesced 9 (fblocks L)" and n: "n < MAX_ORDER"
    and k: "2 ^ n dvd k" "k + 2 ^ n \<le> bd_pages b" "blk k n \<inter> covers (fblocks L) = {}" and s: "n < 9 \<Longrightarrow> (sib k n, n) \<notin> fblocks L"
  shows "buddy_holds (free_push (adr b k) n b) (blk k n \<union> covers (fblocks L))"
    "keeps (blk k n \<union> covers (fblocks L)) b (free_push (adr b k) n b)"
proof -
  note push = free_push_inv [OF inv(1) n k]
  have c: "coalesced 9 (insert (k, n) (fblocks L))"
  proof (cases "n < 9")
    case True
    then show ?thesis by (rule coalesced_insert [OF inv(2) s k(1) buddy_invD(4) [OF inv(1)]])
  next
    case False
    then show ?thesis using inv(2) unfolding coalesced_def by blast
  qed
  show "buddy_holds (free_push (adr b k) n b) (blk k n \<union> covers (fblocks L))"
    by (rule buddy_holdsI [OF push(1)]) (simp_all only: fblocks_push [OF n] covers_insert c)
  show "keeps (blk k n \<union> covers (fblocks L)) b (free_push (adr b k) n b)"
    by (rule keeps_trans [OF keeps_refl push(2)]) (auto simp: blk_first)
qed

lemma push_upper_half:
  assumes b: "buddy_holds b P" and n: "n < MAX_ORDER" and k: "2 ^ Suc n dvd k" "k + 2 ^ Suc n \<le> bd_pages b" "blk k (Suc n) \<inter> P = {}"
  shows "buddy_holds (free_push (adr b (k + 2 ^ n)) n b) (blk (k + 2 ^ n) n \<union> P)"
    "keeps (blk (k + 2 ^ n) n \<union> P) b (free_push (adr b (k + 2 ^ n)) n b)"
proof -
  obtain L where L: "buddy_inv b L" "coalesced 9 (fblocks L)" "covers (fblocks L) = P" using b unfolding buddy_holds_def by blast
  have d: "2 ^ n dvd k" using k(1) dvd_trans [of "2 ^ n" "2 ^ Suc n"] by simp
  have "even (k div 2 ^ n)" using k(1) by (auto elim!: dvdE)
  then have "sib k n = k + 2 ^ n" by (simp add: sib_def)
  then have s: "sib (k + 2 ^ n) n = k" using sib_props(2) [OF d] by simp
  have sub: "blk (k + 2 ^ n) n \<subseteq> blk k (Suc n)" by (auto simp: blk_def)
  have "(k, n) \<notin> fblocks L" using free_first [of k n L] k(3) blk_first [of k "Suc n"] L(3) by blast
  moreover have "2 ^ n dvd k + 2 ^ n" "k + 2 ^ n + 2 ^ n \<le> bd_pages b" "blk (k + 2 ^ n) n \<inter> covers (fblocks L) = {}"
    using d k(2,3) sub L(3) by auto
  ultimately show "buddy_holds (free_push (adr b (k + 2 ^ n)) n b) (blk (k + 2 ^ n) n \<union> P)"
    "keeps (blk (k + 2 ^ n) n \<union> P) b (free_push (adr b (k + 2 ^ n)) n b)"
    using push_holds [OF L(1,2) n, of "k + 2 ^ n"] s L(3) by simp_all
qed

section \<open>Allocation\<close>

lemma blk_halves: "blk k (Suc n) = blk k n \<union> blk (k + 2 ^ n) n"
  by (auto simp: blk_def)

lemma blk_mono: "n \<le> p \<Longrightarrow> blk k n \<subseteq> blk k p"
  using power_increasing [of n p "2 :: nat"] by (auto simp: blk_def)

lemma split_down_holds:
  assumes "buddy_holds b P" "c < MAX_ORDER" "ord \<le> c" "2 ^ c dvd k" "k + 2 ^ c \<le> bd_pages b" "blk k c \<inter> P = {}"
  shows "buddy_holds (split_down (adr b k) ord c b) (P \<union> (blk k c - blk k ord)) \<and>
    keeps (P \<union> blk k c) b (split_down (adr b k) ord c b)"
  using assms
proof (induction c arbitrary: b P)
  case (Suc c)
  show ?case
  proof (cases "ord < Suc c")
    case True
    let ?b = "free_push (adr b (k + 2 ^ c)) c b"
    have c: "c < MAX_ORDER" using Suc.prems(2) by simp
    note up = push_upper_half [OF Suc.prems(1) c Suc.prems(4,5,6)]
    note geo = keeps_geo [OF up(2)]
    have d: "2 ^ c dvd k" using Suc.prems(4) dvd_trans [of "2 ^ c" "2 ^ Suc c"] by simp
    have dis: "blk k c \<inter> (blk (k + 2 ^ c) c \<union> P) = {}" using Suc.prems(6) unfolding blk_halves by (auto simp: blk_def)
    have "k + 2 ^ c \<le> bd_pages ?b" using Suc.prems(5) geo by simp
    note ih = Suc.IH [OF up(1) c _ d this dis]
    have le: "ord \<le> c" using True by simp
    have set: "blk (k + 2 ^ c) c \<union> P \<union> (blk k c - blk k ord) = P \<union> (blk k (Suc c) - blk k ord)"
      using blk_mono [OF le, of k] dis unfolding blk_halves by blast
    have "split_down (adr b k) ord (Suc c) b = split_down (adr ?b k) ord c ?b" using True geo by (simp add: adr_block)
    moreover have "keeps (P \<union> blk k (Suc c)) b (split_down (adr ?b k) ord c ?b)"
      by (rule keeps_trans [OF up(2) conjunct2 [OF ih [OF le]]]) (auto simp: blk_halves)
    ultimately show ?thesis using ih [OF le] unfolding set by simp
  next
    case False
    then have "ord = Suc c" using Suc.prems(3) by simp
    then show ?thesis using Suc.prems(1) by simp
  qed
qed simp

lemma pop_holds:
  assumes b: "buddy_holds b P" and n: "n < MAX_ORDER" "bd_heads b n \<noteq> 0"
  shows "\<exists>k. 2 ^ n dvd k \<and> blk k n \<subseteq> P \<and> adr b k \<noteq> 0 \<and> fst (free_pop n b) = adr b k \<and> buddy_holds (snd (free_pop n b)) (P - blk k n) \<and>
    keeps P b (snd (free_pop n b))"
proof -
  obtain L where L: "buddy_inv b L" "coalesced 9 (fblocks L)" "covers (fblocks L) = P" using b unfolding buddy_holds_def by blast
  obtain k ys where k: "L n = k # ys" using list_empty_head [OF L(1) n(1)] n(2) by (cases "L n") auto
  note pop = free_pop_remove [OF L(1) n(1) k]
  have k': "L n = [] @ k # ys" using k by simp
  note rem = free_remove_inv [OF L(1) n(1) k']
  have mem: "(k, n) \<in> fblocks L" using k n(1) by (simp add: in_fblocks)
  have "blk k n \<subseteq> P" using mem unfolding L(3) [symmetric] covers_def by blast
  moreover have "2 ^ n dvd k" by (rule blocks_okD(1) [OF buddy_invD(4) [OF L(1)] mem])
  moreover have "buddy_holds (free_remove (adr b k) n b) (P - blk k n)"
    by (rule buddy_holdsI [OF rem(1)]) (use L coalesced_subset [OF L(2)] rem(2,3) in auto)
  ultimately show ?thesis using pop rem(4) L(3) by auto
qed

lemma no_run:
  assumes b: "buddy_holds b P" and h: "\<And>i. n \<le> i \<Longrightarrow> i < MAX_ORDER \<Longrightarrow> bd_heads b i = 0" and n: "n < MAX_ORDER"
  shows "\<not> has_run P n"
proof
  assume "has_run P n"
  then obtain k where k: "2 ^ n dvd k" "blk k n \<subseteq> P" unfolding has_run_def by blast
  obtain L where L: "buddy_inv b L" "coalesced 9 (fblocks L)" "covers (fblocks L) = P" using b unfolding buddy_holds_def by blast
  obtain j p where j: "(j, p) \<in> fblocks L" "n \<le> p"
    using run_in_one_block [OF buddy_invD(4) [OF L(1)] L(2) k(1) _ k(2) [folded L(3)]] n by auto
  then have "bd_heads b p = 0" "p < MAX_ORDER" using h by (auto simp: in_fblocks)
  then show False using list_empty_head [OF L(1), of p] j(1) by (simp add: in_fblocks)
qed

lemma alloc_order_holds:
  assumes b: "buddy_holds b P" and n: "n < MAX_ORDER"
  shows "(\<not> has_run P n \<and> alloc_order n b = (0, b)) \<or>
    (\<exists>k. 2 ^ n dvd k \<and> blk k n \<subseteq> P \<and> adr b k \<noteq> 0 \<and> fst (alloc_order n b) = adr b k \<and>
       buddy_holds (snd (alloc_order n b)) (P - blk k n) \<and> keeps P b (snd (alloc_order n b)))"
proof (cases "List.find (\<lambda>i. bd_heads b i \<noteq> 0) [n..<MAX_ORDER]")
  case None
  then have "\<not> has_run P n" using no_run [OF b _ n] unfolding find_None_iff by auto
  then show ?thesis using None by (simp add: alloc_order_def)
next
  case (Some f)
  have f: "n \<le> f" "f < MAX_ORDER" "bd_heads b f \<noteq> 0"
    using Some unfolding find_Some_iff by auto
  obtain k where k: "2 ^ f dvd k" "blk k f \<subseteq> P" "adr b k \<noteq> 0" "fst (free_pop f b) = adr b k" "buddy_holds (snd (free_pop f b)) (P - blk k f)"
    "keeps P b (snd (free_pop f b))" using pop_holds [OF b f(2,3)] by blast
  define c where "c = snd (free_pop f b)"
  have pop: "free_pop f b = (adr b k, c)" using k(4) by (simp add: c_def prod_eq_iff)
  have geo: "adr c k = adr b k" "bd_pages c = bd_pages b" using keeps_geo [OF k(6)] by (simp_all add: c_def)
  have "k + 2 ^ f \<le> bd_pages c" using subset_trans [OF k(2) holds_bound [OF b]] unfolding blk_bound geo .
  then have sd: "buddy_holds (split_down (adr c k) n f c) (P - blk k f \<union> (blk k f - blk k n))"
    "keeps (P - blk k f \<union> blk k f) c (split_down (adr c k) n f c)"
    using split_down_holds [of c "P - blk k f" f n k] k(1,5) f c_def by auto
  have al: "alloc_order n b = (adr b k, split_down (adr c k) n f c)" using Some k(3) pop geo by (simp add: alloc_order_def)
  have sub: "blk k n \<subseteq> blk k f" by (rule blk_mono [OF f(1)])
  have set: "P - blk k f \<union> (blk k f - blk k n) = P - blk k n" "P - blk k f \<union> blk k f = P" using sub k(2) by auto
  have "2 ^ n dvd k" using k(1) le_imp_power_dvd [OF f(1), of "2 :: nat"] dvd_trans by blast
  moreover have "keeps P b (split_down (adr c k) n f c)" by (rule keeps_trans [OF k(6) [folded c_def] sd(2) [unfolded set]]) simp_all
  ultimately show ?thesis using sub k(2,3) sd(1) unfolding al set by auto
qed

section \<open>Release\<close>

lemma free_coalesce_holds:
  assumes "buddy_holds b P" "n < MAX_ORDER" "2 ^ n dvd k" "k + 2 ^ n \<le> bd_pages b" "blk k n \<inter> P = {}"
  shows "buddy_holds (free_coalesce (adr b k) n b) (blk k n \<union> P) \<and> keeps (blk k n \<union> P) b (free_coalesce (adr b k) n b)"
  using assms
proof (induction "9 - n" arbitrary: n k b P rule: less_induct)
  case less
  note geo = holds_geo [OF less.prems(1)]
  obtain L where L: "buddy_inv b L" "coalesced 9 (fblocks L)" "covers (fblocks L) = P" using less.prems(1) unfolding buddy_holds_def by blast
  let ?s = "sib k n" and ?bud = "adr b (sib k n)"
  have dis: "blk k n \<inter> covers (fblocks L) = {}" using less.prems(5) L(3) by simp
  note sp = sib_props [OF less.prems(3)]
  have sle: "?s \<le> bd_pages b" using less.prems(4) by (auto simp: sib_def)
  have kle: "k \<le> bd_pages b" using less.prems(4) by simp
  let ?stop = "?bud < bd_base b \<or> ?bud \<ge> bd_base b + bd_size b \<or> \<not> bitmap_is_free b ?bud n"
  have idx: "bd_page_idx b ?bud = ?s" by (rule page_idx_adr [OF geo sle])
  have merge: "(?s, n) \<in> fblocks L \<longleftrightarrow> \<not> ?stop" if n: "n < 9"
  proof
    assume f: "(?s, n) \<in> fblocks L"
    have "?s + 2 ^ n \<le> bd_pages b" by (rule buddy_invD(5) [OF L(1) f])
    moreover have "(0 :: nat) < 2 ^ n" by simp
    ultimately have "4096 * ?s < unat (bd_size b)" unfolding bd_pages_def by linarith
    moreover have "unat (bd_base b + bd_size b) = unat (bd_base b) + unat (bd_size b)" using geo by (simp add: heap_geo_def unat_word_ariths)
    ultimately have r: "\<not> (?bud < bd_base b \<or> ?bud \<ge> bd_base b + bd_size b)" using unat_adr [OF geo sle] by (simp add: word_less_nat_alt word_le_nat_alt)
    have "blk ?s n \<subseteq> covers (fblocks L)" using f unfolding covers_def by blast
    moreover have "bd_pages b \<le> 8256" using geo by (simp add: heap_geo_def)
    ultimately have "bitmap_is_free b ?bud n" unfolding bitmap_is_free_iff idx
      using free_page_bound [OF L(1)] buddy_invD(6) [OF L(1)] by (meson less_le_trans subsetD)
    then show "\<not> ?stop" using r by simp
  next
    assume "\<not> ?stop"
    then have run: "blk ?s n \<subseteq> covers (fblocks L)" unfolding bitmap_is_free_iff idx using buddy_invD(6) [OF L(1)] by blast
    obtain j p where j: "(j, p) \<in> fblocks L" "n \<le> p" "blk ?s n \<subseteq> blk j p"
      using run_in_one_block [OF buddy_invD(4) [OF L(1)] L(2) sp(1) _ run] n by auto
    have jd: "2 ^ p dvd j" by (rule blocks_okD(1) [OF buddy_invD(4) [OF L(1)] j(1)])
    have sj: "?s \<in> blk j p" using j(3) blk_first by blast
    have "\<not> n < p"
    proof
      assume "n < p"
      from sib_inside [OF sp(1) jd this blk_first sj] have "blk k n \<subseteq> blk j p" by (simp only: sp(2))
      then have "k \<in> covers (fblocks L)" using j(1) blk_first unfolding in_covers by blast
      then show False using dis blk_first by blast
    qed
    then have p: "p = n" using j(2) by simp
    then have "?s = j" using blk_inj [OF sp(1) jd [unfolded p] blk_first sj [unfolded p]] by simp
    then show "(?s, n) \<in> fblocks L" using j(1) p by simp
  qed
  show ?case
  proof (cases "n < 9 \<and> \<not> ?stop")
    case False
    have e: "free_coalesce (adr b k) n b = free_push (adr b k) n b"
      unfolding free_coalesce.simps [of "adr b k"] buddy_adr [OF less.prems(3)] Let_def using False by auto
    have "n < 9 \<Longrightarrow> (?s, n) \<notin> fblocks L" using merge False by blast
    then show ?thesis unfolding e using push_holds [OF L(1,2) less.prems(2,3,4) dis] L(3) by blast
  next
    case True
    then have n: "n < 9" and f: "(?s, n) \<in> fblocks L" using merge by blast+
    let ?j = "if ?s < k then ?s else k" and ?c = "free_remove ?bud n b"
    have "?bud < adr b k \<longleftrightarrow> ?s < k" using unat_adr [OF geo sle] unat_adr [OF geo kle] by (simp add: word_less_nat_alt)
    then have j: "(if ?bud < adr b k then ?bud else adr b k) = adr b ?j" by simp
    have e: "free_coalesce (adr b k) n b = free_coalesce (adr b ?j) (Suc n) ?c"
      unfolding free_coalesce.simps [of "adr b k"] buddy_adr [OF less.prems(3)] Let_def j using True by simp
    obtain xs ys where xs: "L n = xs @ ?s # ys" using f split_list [of ?s "L n"] by (auto simp: in_fblocks)
    note rem = free_remove_inv [OF L(1) less.prems(2) xs]
    have c: "buddy_holds ?c (P - blk ?s n)"
      by (rule buddy_holdsI [OF rem(1)]) (use L coalesced_subset [OF L(2)] rem(2,3) in auto)
    have sP: "blk ?s n \<subseteq> P" using f unfolding L(3) [symmetric] covers_def by blast
    note un = sib_union [OF less.prems(3)]
    have "blk ?j (Suc n) \<subseteq> {..<bd_pages b}" unfolding un(2) using less.prems(4) holds_bound [OF less.prems(1)] sP blk_bound by blast
    then have top: "?j + 2 ^ Suc n \<le> bd_pages ?c" using keeps_geo [OF rem(4)] unfolding blk_bound by simp
    have d: "blk ?j (Suc n) \<inter> (P - blk ?s n) = {}" unfolding un(2) using less.prems(5) by blast
    have set: "blk ?j (Suc n) \<union> (P - blk ?s n) = blk k n \<union> P" unfolding un(2) using sP by blast
    have "buddy_holds (free_coalesce (adr ?c ?j) (Suc n) ?c) (blk k n \<union> P) \<and> keeps (blk k n \<union> P) ?c (free_coalesce (adr ?c ?j) (Suc n) ?c)"
      using less.hyps [OF _ c _ un(1) top d] n unfolding set by simp
    moreover have "adr ?c ?j = adr b ?j" using keeps_geo [OF rem(4)] by simp
    moreover have "keeps (blk k n \<union> P) b x" if "keeps (blk k n \<union> P) ?c x" for x
      by (rule keeps_trans [OF rem(4) that]) (simp_all add: L(3))
    ultimately show ?thesis unfolding e by simp
  qed
qed


section \<open>Orders\<close>

lemma block_size_0: "block_size 0 = BUDDY_PAGE"
  by (simp add: block_size_def)

lemma block_size_Suc: "push_bit 1 (block_size n) = block_size (Suc n)"
  by (simp add: block_size_def)

text \<open>The smallest order whose blocks hold the size, or the largest order there is.\<close>

lemma order_loop_result:
  assumes "ord \<le> 9"
  shows "ord \<le> order_loop sz (block_size ord) ord \<and> order_loop sz (block_size ord) ord \<le> 9 \<and>
    (order_loop sz (block_size ord) ord = 9 \<or> sz \<le> block_size (order_loop sz (block_size ord) ord)) \<and>
    (\<forall>m. ord \<le> m \<and> m < order_loop sz (block_size ord) ord \<longrightarrow> block_size m < sz)"
  using assms
proof (induction "9 - ord" arbitrary: ord rule: less_induct)
  case less
  show ?case
  proof (cases "block_size ord < sz \<and> ord < 9")
    case True
    then have e: "order_loop sz (block_size ord) ord = order_loop sz (block_size (Suc ord)) (Suc ord)"
      unfolding order_loop.simps [of sz "block_size ord"] block_size_Suc [symmetric] by simp
    have "9 - Suc ord < 9 - ord" "Suc ord \<le> 9" using True by auto
    note ih = less.hyps [OF this]
    have "block_size m < sz" if "ord \<le> m" "m < order_loop sz (block_size (Suc ord)) (Suc ord)" for m
      using ih True that by (cases "m = ord") auto
    then show ?thesis unfolding e using ih by auto
  next
    case False
    then have "order_loop sz (block_size ord) ord = ord" unfolding order_loop.simps [of sz "block_size ord"] by auto
    then show ?thesis using False less.prems by auto
  qed
qed

lemma size_to_order_result:
  "size_to_order sz \<le> 9" "size_to_order sz = 9 \<or> sz \<le> block_size (size_to_order sz)" "m < size_to_order sz \<Longrightarrow> block_size m < sz"
  using order_loop_result [of 0 sz] unfolding size_to_order_def block_size_0 by auto

lemma size_to_order_max [simp]: "size_to_order sz < MAX_ORDER"
  using size_to_order_result(1) [of sz] by simp

lemma size_fits: "sz \<le> MAX_BLOCK \<Longrightarrow> sz \<le> block_size (size_to_order sz)"
  using size_to_order_result(2) [of sz] by (auto simp: MAX_BLOCK_def block_size_def)

section \<open>Initialisation\<close>

lemma init_max_holds:
  assumes geo: "heap_geo b" and "buddy_inv b L" "\<forall>(k, n) \<in> fblocks L. n = 9" "covers (fblocks L) = {..<512 * j}" "512 * j \<le> bd_pages b"
  shows "\<exists>j' L' b'. init_max (of_nat (512 * j) * BUDDY_PAGE) b = Some (of_nat (512 * j') * BUDDY_PAGE, b') \<and> buddy_inv b' L' \<and>
    (\<forall>(k, n) \<in> fblocks L'. n = 9) \<and> covers (fblocks L') = {..<512 * j'} \<and> 512 * j' \<le> bd_pages b \<and> bd_pages b < 512 * Suc j' \<and>
    bd_base b' = bd_base b \<and> bd_size b' = bd_size b"
  using assms
proof (induction "bd_pages b - 512 * j" arbitrary: j b L rule: less_induct)
  case less
  let ?off = "of_nat (512 * j) * BUDDY_PAGE"
  have pg: "bd_pages b \<le> 8256" using less.prems(1) by (simp add: heap_geo_def)
  then have u: "unat ?off = 4096 * (512 * j)" using less.prems(5) by (intro unat_page_off) simp
  have mb: "unat MAX_BLOCK = 4096 * 512" by (simp add: MAX_BLOCK_def BUDDY_PAGE_def push_bit_eq_mult)
  have "4096 * (512 * j) + 4096 * 512 < 2 ^ 64" using pg less.prems(5) by simp
  then have sum: "unat (?off + MAX_BLOCK) = 4096 * (512 * Suc j)" using u mb by (simp add: unat_word_ariths)
  then have cond: "?off + MAX_BLOCK \<le> bd_size b \<longleftrightarrow> 512 * Suc j \<le> bd_pages b"
    unfolding word_le_nat_alt bd_pages_def by (metis less_eq_div_iff_mult_less_eq mult.commute zero_less_numeral)
  show ?case
  proof (cases "512 * Suc j \<le> bd_pages b")
    case False
    then have "init_max ?off b = Some (?off, b)" using cond by (subst init_max.simps) auto
    then show ?thesis using less.prems False by (intro exI [of _ j] exI [of _ L] exI [of _ b]) simp
  next
    case True
    let ?k = "512 * j" and ?b = "free_push (adr b (512 * j)) 9 b"
    have blk: "blk ?k 9 = {?k..<512 * Suc j}" by (simp add: blk_def add.commute)
    have k: "2 ^ 9 dvd ?k" "?k + 2 ^ 9 \<le> bd_pages b" "blk ?k 9 \<inter> covers (fblocks L) = {}"
      using True unfolding less.prems(4) by (auto simp: blk)
    have nine: "9 < MAX_ORDER" by simp
    note push = free_push_inv [OF less.prems(2) nine k]
    have cov: "covers (fblocks (L(9 := ?k # L 9))) = {..<512 * Suc j}"
      unfolding fblocks_push [OF nine] covers_insert less.prems(4) blk by auto
    have nn: "\<forall>(i, n) \<in> fblocks (L(9 := ?k # L 9)). n = 9" unfolding fblocks_push [OF nine] using less.prems(3) by auto
    have kp: "bd_base ?b = bd_base b" "bd_size ?b = bd_size b" "bd_pages ?b = bd_pages b" "heap_geo ?b"
      using push(2) keeps_geo [OF push(2)] less.prems(1) by (simp_all add: keeps_def)
    have "?off + MAX_BLOCK = of_nat (512 * Suc j) * BUDDY_PAGE" by (simp add: MAX_BLOCK_def BUDDY_PAGE_def push_bit_eq_mult algebra_simps)
    moreover have "bd_base b + ?off = adr b ?k" by (simp add: adr_def)
    moreover have "init_max ?off b = init_max (?off + MAX_BLOCK) (free_push (bd_base b + ?off) 9 b)"
      using cond True by (subst init_max.simps) simp
    ultimately have e: "init_max ?off b = init_max (of_nat (512 * Suc j) * BUDDY_PAGE) ?b" by (simp only:)
    show ?thesis unfolding e using less.hyps [of ?b "Suc j", OF _ kp(4) push(1) nn cov] True kp by simp
  qed
qed

lemma init_rest_holds:
  assumes "buddy_holds b {..<q}" "q \<le> bd_pages b" "2 ^ ord dvd q" "bd_pages b < q + 2 ^ Suc ord" "2 ^ Suc ord dvd q \<or> bd_pages b < q + 2 ^ ord"
    "ord < 9"
  shows "\<exists>b'. init_rest (of_nat q * BUDDY_PAGE) ord b = Some b' \<and> buddy_holds b' {..<bd_pages b} \<and> bd_base b' = bd_base b \<and> bd_size b' = bd_size b"
  using assms
proof (induction "bd_pages b - q + ord" arbitrary: q ord b rule: less_induct)
  case less
  let ?off = "of_nat q * BUDDY_PAGE"
  note geo = holds_geo [OF less.prems(1)]
  have pg: "bd_pages b \<le> 8256" using geo by (simp add: heap_geo_def)
  then have u: "unat ?off = 4096 * q" using less.prems(2) by (intro unat_page_off) simp
  have p9: "(2 :: nat) ^ ord \<le> 512" using power_increasing [of ord 9 "2 :: nat"] less.prems(6) by simp
  have bs: "block_size ord = of_nat (2 ^ ord) * BUDDY_PAGE" by (simp add: block_size_def push_bit_eq_mult mult.commute)
  have ub: "unat (block_size ord) = 4096 * 2 ^ ord" unfolding bs by (rule unat_page_off) (use p9 in simp)
  have "4096 * q + 4096 * 2 ^ ord < 2 ^ 64" using pg less.prems(2) p9 by simp
  then have sum: "unat (?off + block_size ord) = 4096 * (q + 2 ^ ord)" using u ub by (simp add: unat_word_ariths)
  have more: "4096 * (q + 2 ^ ord) \<le> unat (bd_size b) \<longleftrightarrow> q + 2 ^ ord \<le> bd_pages b"
    unfolding bd_pages_def by (metis less_eq_div_iff_mult_less_eq mult.commute zero_less_numeral)
  have left: "q < bd_pages b \<Longrightarrow> 4096 * q < unat (bd_size b)" unfolding bd_pages_def by linarith
  show ?case
  proof (cases "q + 2 ^ ord \<le> bd_pages b")
    case True
    let ?b = "free_push (adr b q) ord b"
    obtain L where L: "buddy_inv b L" "coalesced 9 (fblocks L)" "covers (fblocks L) = {..<q}" using less.prems(1) unfolding buddy_holds_def by blast
    have "even (q div 2 ^ ord)" using less.prems(5) True by (auto elim!: dvdE)
    then have "sib q ord = q + 2 ^ ord" by (simp add: sib_def)
    then have s: "(sib q ord, ord) \<notin> fblocks L" using free_first [of "sib q ord" ord L] L(3) by auto
    have dis: "blk q ord \<inter> covers (fblocks L) = {}" unfolding L(3) by (auto simp: blk_def)
    have o: "ord < MAX_ORDER" using less.prems(6) by simp
    note push = push_holds [OF L(1,2) o less.prems(3) True dis s]
    have set: "blk q ord \<union> covers (fblocks L) = {..<q + 2 ^ ord}" unfolding L(3) by (auto simp: blk_def)
    have kp: "bd_base ?b = bd_base b" "bd_size ?b = bd_size b" "bd_pages ?b = bd_pages b"
      using push(2) keeps_geo [OF push(2)] by (simp_all add: keeps_def)
    have "(0 :: nat) < 2 ^ ord" by simp
    then have "q < bd_pages b" using True by linarith
    then have "init_rest ?off ord b = init_rest (?off + block_size ord) ord (free_push (bd_base b + ?off) ord b)"
      using True left more sum u by (subst init_rest.simps) (simp add: word_less_nat_alt word_le_nat_alt)
    moreover have "?off + block_size ord = of_nat (q + 2 ^ ord) * BUDDY_PAGE" unfolding bs by (simp add: algebra_simps)
    moreover have "bd_base b + ?off = adr b q" by (simp add: adr_def)
    ultimately have e: "init_rest ?off ord b = init_rest (of_nat (q + 2 ^ ord) * BUDDY_PAGE) ord ?b" by (simp only:)
    show ?thesis unfolding e using less.hyps [of ?b "q + 2 ^ ord" ord] push(1) kp less.prems True \<open>q < bd_pages b\<close> unfolding set by simp
  next
    case False
    then have f: "bd_pages b < q + 2 ^ ord" by simp
    have nb: "\<not> ?off + block_size ord \<le> bd_size b" using False more sum by (simp add: word_le_nat_alt)
    show ?thesis
    proof (cases "?off < bd_size b \<and> ord > 0")
      case True
      then obtain m where m: "ord = Suc m" by (cases ord) auto
      have e: "init_rest ?off ord b = init_rest ?off m b" using True nb m by (subst init_rest.simps) simp
      have "2 ^ m dvd q" using less.prems(3) dvd_trans [of "2 ^ m" "2 ^ Suc m" q] unfolding m by simp
      then show ?thesis unfolding e using less.hyps [of b q m] less.prems f unfolding m by simp
    next
      case False
      then have "init_rest ?off ord b = Some b" using nb by (subst init_rest.simps) auto
      moreover have "bd_pages b = q"
      proof (cases "ord = 0")
        case True
        then show ?thesis using f less.prems(2) by simp
      next
        case F: False
        then have "\<not> ?off < bd_size b" using False by simp
        then have "\<not> 4096 * q < unat (bd_size b)" using u by (simp add: word_less_nat_alt)
        then show ?thesis using left less.prems(2) by force
      qed
      ultimately show ?thesis using less.prems(1) by auto
    qed
  qed
qed

lemma buddy_init_holds:
  assumes "base \<noteq> 0" "unat base mod 4096 = 0" "unat base + unat sz < 2 ^ 64" "unat sz div 4096 \<le> 8256"
  shows "\<exists>b'. buddy_init base sz b = Some b' \<and> buddy_holds b' {..<unat sz div 4096} \<and> bd_base b' = base \<and> bd_size b' = sz"
proof -
  let ?b = "b\<lparr>bd_base := base, bd_size := sz, bd_heads := (\<lambda>_. 0), bd_bitmap := (\<lambda>_. 0), bd_free := 0\<rparr>"
  have geo: "heap_geo ?b" and pg: "bd_pages ?b = unat sz div 4096" using assms by (simp_all add: heap_geo_def bd_pages_def)
  have e: "fblocks (\<lambda>_. []) = {}" "covers {} = {}" by (simp_all add: fblocks_def covers_def)
  have "buddy_inv ?b (\<lambda>_. [])" unfolding buddy_inv_def e using geo by (simp add: blocks_ok_def bd_bit_def)
  from init_max_holds [OF geo this, of 0] obtain j L c where c: "init_max 0 ?b = Some (of_nat (512 * j) * BUDDY_PAGE, c)" "buddy_inv c L"
    "\<forall>(k, n) \<in> fblocks L. n = 9" "covers (fblocks L) = {..<512 * j}" "512 * j \<le> unat sz div 4096" "unat sz div 4096 < 512 * Suc j"
    "bd_base c = base" "bd_size c = sz" by (auto simp: e pg)
  have "coalesced 9 (fblocks L)" using c(3) unfolding coalesced_def by auto
  with c have h: "buddy_holds c {..<512 * j}" by (auto intro: buddy_holdsI)
  have pc: "bd_pages c = unat sz div 4096" by (simp add: bd_pages_def c(8))
  have d: "(2 :: nat) ^ 8 dvd 512 * j" "(2 :: nat) ^ Suc 8 dvd 512 * j"
    using le_imp_power_dvd [of 8 9 "2 :: nat"] le_imp_power_dvd [of "Suc 8" 9 "2 :: nat"] by (auto intro: dvd_mult2)
  have "\<exists>b'. init_rest (of_nat (512 * j) * BUDDY_PAGE) 8 c = Some b' \<and> buddy_holds b' {..<bd_pages c} \<and> bd_base b' = bd_base c \<and> bd_size b' = bd_size c"
    by (rule init_rest_holds [OF h]) (use c(5,6) pc d in simp_all)
  then show ?thesis using c(1,7,8) pc by (simp add: buddy_init_def)
qed


section \<open>The operations\<close>

lemma buddy_alloc_order:
  assumes "0 < sz"
  shows "buddy_alloc sz align b = alloc_order (size_to_order (max sz align)) b"
proof -
  have "sz \<noteq> 0" using assms by auto
  then show ?thesis by (simp only: buddy_alloc_def Let_def not_le [THEN iffD2, OF size_to_order_max] if_False)
qed

text \<open>The kernel heap: 32 MB from 0x10000000.\<close>

lemma kheap_pages: "\<exists>b. buddy_init 0x10000000 0x2000000 c = Some b \<and> buddy_holds b {..<8192}"
  using buddy_init_holds [of "0x10000000" "0x2000000" c] by auto

lemma whole_heap_run: "n \<le> 13 \<Longrightarrow> has_run {..<8192} n"
  unfolding has_run_def using power_increasing [of n 13 "2 :: nat"] by (intro exI [of _ 0]) (simp add: blk_bound)

text \<open>C7: allocation refines taking an aligned run of free pages out of the set. With \<open>n\<close> the smallest order that holds the size and
  the alignment, a run of \<open>2 ^ n\<close> pages is returned whenever the free pages contain one, however they are split over the free
  lists; exactly that run stops being free, no word outside the free pages is written, and the run is as large as the request
  when the request is at most 2 MB. Without such a run the answer is null and nothing changes.\<close>

theorem buddy_alloc_takes_run:
  assumes "buddy_holds b P" "0 < sz"
  shows "case buddy_alloc sz align b of (p, b') \<Rightarrow> let n = size_to_order (max sz align) in
    (if has_run P n
     then \<exists>k. 2 ^ n dvd k \<and> blk k n \<subseteq> P \<and> p = adr b k \<and> p \<noteq> 0 \<and> buddy_holds b' (P - blk k n) \<and> keeps P b b' \<and>
       (max sz align \<le> MAX_BLOCK \<longrightarrow> max sz align \<le> block_size n)
     else p = 0 \<and> b' = b)"
proof -
  let ?n = "size_to_order (max sz align)"
  note al = alloc_order_holds [OF assms(1) size_to_order_max, of "max sz align"]
  show ?thesis
  proof (cases "has_run P ?n")
    case True
    then obtain k where "2 ^ ?n dvd k" "blk k ?n \<subseteq> P" "adr b k \<noteq> 0" "fst (alloc_order ?n b) = adr b k"
      "buddy_holds (snd (alloc_order ?n b)) (P - blk k ?n)" "keeps P b (snd (alloc_order ?n b))" using al by blast
    then show ?thesis unfolding buddy_alloc_order [OF assms(2)] Let_def case_prod_beta using True size_fits [of "max sz align"] by auto
  next
    case False
    then have "\<not> (\<exists>k. 2 ^ ?n dvd k \<and> blk k ?n \<subseteq> P)" unfolding has_run_def by blast
    then have "alloc_order ?n b = (0, b)" using al by blast
    then show ?thesis unfolding buddy_alloc_order [OF assms(2)] using False by simp
  qed
qed

theorem buddy_alloc_takes_run_witness:
  "\<exists>b. buddy_init 0x10000000 0x2000000 \<lparr>bd_base = 0, bd_size = 0, bd_heads = (\<lambda>_. 0), bd_bitmap = (\<lambda>_. 0), bd_free = 0, bd_mem = (\<lambda>_. 0)\<rparr> = Some b \<and>
    fst (buddy_alloc 5000 8 b) \<noteq> 0 \<and>
    (\<exists>k. 2 ^ size_to_order 5000 dvd k \<and> buddy_holds (snd (buddy_alloc 5000 8 b)) ({..<8192} - blk k (size_to_order 5000)))"
proof -
  obtain b where b: "buddy_init 0x10000000 0x2000000 \<lparr>bd_base = 0, bd_size = 0, bd_heads = (\<lambda>_. 0), bd_bitmap = (\<lambda>_. 0), bd_free = 0, bd_mem = (\<lambda>_. 0)\<rparr> = Some b"
    "buddy_holds b {..<8192}" using kheap_pages by blast
  have "has_run {..<8192} (size_to_order 5000)" using whole_heap_run size_to_order_result(1) [of 5000] by simp
  then show ?thesis using buddy_alloc_takes_run [OF b(2), of 5000 8] b(1) by (auto simp: Let_def case_prod_beta)
qed

text \<open>C14: releasing a run of pages that are not free puts exactly those pages back: free lists, bitmap and byte counter describe the
  larger set, and siblings have been merged as far as the orders go, so a later request fails only when no aligned run is free.\<close>

theorem buddy_free_returns_run:
  assumes "buddy_holds b P" "0 < sz"
    and "2 ^ size_to_order sz dvd k" "k + 2 ^ size_to_order sz \<le> bd_pages b" "blk k (size_to_order sz) \<inter> P = {}"
  shows "buddy_holds (buddy_free (adr b k) sz b) (P \<union> blk k (size_to_order sz)) \<and>
    keeps (P \<union> blk k (size_to_order sz)) b (buddy_free (adr b k) sz b)"
proof -
  have "adr b k \<noteq> 0" using adr_nonzero [OF holds_geo [OF assms(1)]] assms(4) by simp
  then have "buddy_free (adr b k) sz b = free_coalesce (adr b k) (size_to_order sz) b"
    using assms(2) size_to_order_max [of sz] by (simp add: buddy_free_def Let_def not_le [THEN iffD2, OF size_to_order_max])
  then show ?thesis using free_coalesce_holds [OF assms(1) size_to_order_max assms(3-5)] by (simp add: Un_commute)
qed

lemma free_after_alloc:
  assumes b: "buddy_holds b P" and k: "2 ^ n dvd k" "blk k n \<subseteq> P" and c: "buddy_holds c (P - blk k n)" "keeps P b c"
    and m: "m \<le> n" "m < MAX_ORDER"
  shows "buddy_holds (free_coalesce (adr b k) m c) (P - (blk k n - blk k m))"
proof -
  have sub: "blk k m \<subseteq> blk k n" by (rule blk_mono [OF m(1)])
  have "blk k m \<subseteq> {..<bd_pages c}" using sub k(2) holds_bound [OF b] keeps_geo [OF c(2)] by auto
  then have "k + 2 ^ m \<le> bd_pages c" by (simp only: blk_bound)
  moreover have "2 ^ m dvd k" using k(1) le_imp_power_dvd [OF m(1), of "2 :: nat"] dvd_trans by blast
  moreover have "blk k m \<inter> (P - blk k n) = {}" using sub by blast
  ultimately have "buddy_holds (free_coalesce (adr c k) m c) (blk k m \<union> (P - blk k n))"
    using free_coalesce_holds [OF c(1) m(2)] by blast
  moreover have "blk k m \<union> (P - blk k n) = P - (blk k n - blk k m)" using sub k(2) by blast
  ultimately show ?thesis using keeps_geo [OF c(2)] by simp
qed

text \<open>Allocating and releasing a block gives the set of free pages back exactly when the order of the size is the order of the
  larger of size and alignment. A block allocated for a larger alignment than its size is released at the order of its size alone:
  the rest of its pages is never free again, although nobody holds it.\<close>

theorem release_loses_alignment_pages:
  assumes "buddy_holds b P" "0 < sz" "fst (buddy_alloc sz align b) \<noteq> 0"
  shows "\<exists>Q. buddy_holds (buddy_free (fst (buddy_alloc sz align b)) sz (snd (buddy_alloc sz align b))) Q \<and> Q \<subseteq> P \<and>
    card (P - Q) = 2 ^ size_to_order (max sz align) - 2 ^ size_to_order sz"
proof -
  let ?n = "size_to_order (max sz align)" and ?m = "size_to_order sz"
  have al: "buddy_alloc sz align b = alloc_order ?n b" by (rule buddy_alloc_order [OF assms(2)])
  obtain k where k: "2 ^ ?n dvd k" "blk k ?n \<subseteq> P" "adr b k \<noteq> 0" "fst (alloc_order ?n b) = adr b k"
    "buddy_holds (snd (alloc_order ?n b)) (P - blk k ?n)" "keeps P b (snd (alloc_order ?n b))"
  proof (cases "alloc_order ?n b = (0, b)")
    case True
    then show ?thesis using assms(3) unfolding al by simp
  next
    case False
    then show ?thesis using alloc_order_holds [OF assms(1) size_to_order_max, of "max sz align"] that by blast
  qed
  have m: "?m \<le> ?n"
  proof (rule ccontr)
    assume "\<not> ?thesis"
    then have "block_size ?n < sz" "?n \<noteq> 9" using size_to_order_result(1) [of sz] size_to_order_result(3) [of _ sz] by (auto simp: not_le)
    moreover have "max sz align \<le> block_size ?n" using size_to_order_result(2) [of "max sz align"] \<open>?n \<noteq> 9\<close> by blast
    ultimately show False by (meson leD max.bounded_iff)
  qed
  have f: "buddy_free (adr b k) sz c = free_coalesce (adr b k) ?m c" for c
    using k(3) assms(2) by (simp add: buddy_free_def Let_def not_le [THEN iffD2, OF size_to_order_max])
  have "P - (P - (blk k ?n - blk k ?m)) = blk k ?n - blk k ?m" using k(2) by blast
  moreover have "card (blk k ?n - blk k ?m) = 2 ^ ?n - 2 ^ ?m" using card_Diff_subset [OF finite_blk blk_mono [OF m]] by simp
  ultimately show ?thesis using free_after_alloc [OF assms(1) k(1,2,5,6) m size_to_order_max, folded f]
    unfolding al k(4) by (intro exI [of _ "P - (blk k ?n - blk k ?m)"]) auto
qed

theorem release_loses_alignment_pages_witness:
  "\<exists>b Q. buddy_holds b {..<8192} \<and> buddy_holds (buddy_free (fst (buddy_alloc 64 0x4000 b)) 64 (snd (buddy_alloc 64 0x4000 b))) Q \<and>
    card ({..<8192} - Q) = 3"
proof -
  obtain b where b: "buddy_holds b {..<8192}" using kheap_pages by blast
  have o: "size_to_order 0x4000 = 2" "size_to_order 64 = 0"
    by (simp_all add: size_to_order_def order_loop.simps BUDDY_PAGE_def)
  have "max 64 (0x4000 :: u64) = 0x4000" by (simp add: max_def)
  moreover have "fst (buddy_alloc 64 0x4000 b) \<noteq> 0"
    using alloc_order_holds [OF b, of 2] whole_heap_run [of 2] buddy_alloc_order [of 64 "0x4000" b] calculation o by auto
  ultimately show ?thesis using release_loses_alignment_pages [OF b, of 64 "0x4000"] b o by auto
qed

theorem buddy_free_returns_run_witness:
  "\<exists>b Q. buddy_holds b {..<8192} \<and> buddy_holds (snd (buddy_alloc 4096 8 b)) Q \<and> Q \<noteq> {..<8192} \<and>
    buddy_holds (buddy_free (fst (buddy_alloc 4096 8 b)) 4096 (snd (buddy_alloc 4096 8 b))) {..<8192}"
proof -
  obtain b where b: "buddy_holds b {..<8192}" using kheap_pages by blast
  have o: "size_to_order 4096 = 0" by (simp add: size_to_order_def order_loop.simps BUDDY_PAGE_def)
  have al: "buddy_alloc 4096 8 b = alloc_order 0 b" using buddy_alloc_order [of 4096 8 b] o by (simp add: max_def)
  obtain k where k: "blk k 0 \<subseteq> {..<8192}" "fst (alloc_order 0 b) = adr b k" "buddy_holds (snd (alloc_order 0 b)) ({..<8192} - blk k 0)"
    "keeps {..<8192} b (snd (alloc_order 0 b))" using alloc_order_holds [OF b, of 0] whole_heap_run [of 0] by auto
  let ?c = "snd (alloc_order 0 b)"
  have g: "adr ?c k = adr b k" "bd_pages ?c = bd_pages b" using keeps_geo [OF k(4)] by auto
  have "k + 2 ^ 0 \<le> bd_pages ?c" using subset_trans [OF k(1) holds_bound [OF b]] unfolding blk_bound g .
  then have "buddy_holds (buddy_free (adr ?c k) 4096 ?c) ({..<8192} - blk k 0 \<union> blk k 0)"
    using buddy_free_returns_run [OF k(3), of 4096 k] o by auto
  moreover have "{..<8192} - blk k 0 \<union> blk k 0 = {..<8192}" using k(1) by blast
  moreover have "{..<8192} - blk k 0 \<noteq> {..<8192}" using k(1) blk_first [of k 0] by blast
  ultimately have "buddy_holds (buddy_free (adr b k) 4096 ?c) {..<8192} \<and> {..<8192} - blk k 0 \<noteq> {..<8192}" using g(1) by (simp only: simp_thms)
  then show ?thesis using b k(2,3) by (intro exI [of _ b] exI [of _ "{..<8192} - blk k 0"]) (simp only: al simp_thms)
qed

end
