(* ===== verification/Heap_Slab.thy ===== *)
theory Heap_Slab
  imports Buddy_Alloc
begin

text \<open>
  The slab layer of the kernel heap (\<^verbatim>\<open>allocator/slab.rs\<close>): seven classes of small objects, each with a free list kept in the
  free objects, filled with pages of the buddy allocator. The memory is the one of the buddy allocator: words at addresses that
  are multiples of 8; an access of 8 bytes at another address touches two of them.
\<close>

section \<open>Words at any address\<close>

definition load8 :: "(u64 \<Rightarrow> u64) \<Rightarrow> u64 \<Rightarrow> u64" where
  "load8 m a =
     (let r = 8 * unat (a AND 7); w = a - (a AND 7)
      in if r = 0 then m w else drop_bit r (m w) OR push_bit (64 - r) (m (w + 8)))"

definition store8 :: "u64 \<Rightarrow> u64 \<Rightarrow> (u64 \<Rightarrow> u64) \<Rightarrow> u64 \<Rightarrow> u64" where
  "store8 a v m =
     (let r = 8 * unat (a AND 7); w = a - (a AND 7)
      in if r = 0 then m(w := v)
         else m(w := take_bit r (m w) OR push_bit r v,
                w + 8 := push_bit r (drop_bit r (m (w + 8))) OR drop_bit (64 - r) v))"

definition load_byte :: "(u64 \<Rightarrow> u64) \<Rightarrow> u64 \<Rightarrow> u8" where
  "load_byte m a = ucast (drop_bit (8 * unat (a AND 7)) (m (a - (a AND 7))))"

definition store_byte :: "u64 \<Rightarrow> u8 \<Rightarrow> (u64 \<Rightarrow> u64) \<Rightarrow> u64 \<Rightarrow> u64" where
  "store_byte a v m =
     (let r = 8 * unat (a AND 7); w = a - (a AND 7)
      in m(w := (m w AND NOT (push_bit r 0xFF)) OR push_bit r (ucast v)))"

definition aligned8 :: "u64 \<Rightarrow> bool" where
  "aligned8 a \<longleftrightarrow> a AND 7 = 0"

lemma load8_aligned [simp]: "aligned8 a \<Longrightarrow> load8 m a = m a"
  by (simp add: aligned8_def load8_def)

lemma store8_aligned [simp]: "aligned8 a \<Longrightarrow> store8 a v m = m(a := v)"
  by (simp add: aligned8_def store8_def)

lemma aligned8_iff: "aligned8 a \<longleftrightarrow> 8 dvd unat a"
proof -
  have "(7 :: u64) = mask 3" by (simp add: mask_eq_exp_minus_1)
  then have "aligned8 a \<longleftrightarrow> take_bit 3 a = 0" by (simp only: aligned8_def take_bit_eq_mask)
  also have "\<dots> \<longleftrightarrow> unat (take_bit 3 a) = 0" by (simp only: unat_eq_0)
  also have "\<dots> \<longleftrightarrow> 8 dvd unat a" by (simp add: unsigned_take_bit_eq take_bit_eq_mod dvd_eq_mod_eq_0 unat_mod)
  finally show ?thesis .
qed

lemma dvd_mod_pow: "8 dvd (n mod 2 ^ 64 :: nat) \<longleftrightarrow> 8 dvd n"
  by (rule dvd_mod_iff) simp

lemma aligned8_add: "aligned8 a \<Longrightarrow> aligned8 c \<Longrightarrow> aligned8 (a + c)"
  using dvd_mod_pow [of "unat a + unat c"] by (simp add: aligned8_iff unat_word_ariths)

lemma aligned8_mult: "aligned8 c \<Longrightarrow> aligned8 (a * c)"
  using dvd_mod_pow [of "unat a * unat c"] by (simp add: aligned8_iff unat_word_ariths)

section \<open>Classes\<close>

definition SLAB_CLASSES :: "u64 list" where
  "SLAB_CLASSES = [8, 16, 32, 64, 128, 256, 512]"

definition MAX_SLAB_SIZE :: u64 where "MAX_SLAB_SIZE = SLAB_CLASSES ! (length SLAB_CLASSES - 1)"

record slab_class =
  sc_obj :: u64
  sc_head :: u64
  sc_free :: u64
  sc_slabs :: u64

definition slab_class_new :: "u64 \<Rightarrow> slab_class" where
  "slab_class_new obj = \<lparr>sc_obj = obj, sc_head = 0, sc_free = 0, sc_slabs = 0\<rparr>"

text \<open>
  \<open>free_head = *(free_head as *mut *mut *mut u8).read()\<close>: the word at the head is read, and then the word it points to. The new
  head is what the second free object points to.
\<close>

definition slab_pop :: "(u64 \<Rightarrow> u64) \<Rightarrow> slab_class \<Rightarrow> u64 \<times> slab_class" where
  "slab_pop m c =
     (if sc_head c = 0 then (0, c)
      else (sc_head c, c\<lparr>sc_head := load8 m (load8 m (sc_head c)), sc_free := sc_free c - 1\<rparr>))"

definition slab_push :: "u64 \<Rightarrow> slab_class \<times> (u64 \<Rightarrow> u64) \<Rightarrow> slab_class \<times> (u64 \<Rightarrow> u64)" where
  "slab_push p st = (case st of (c, m) \<Rightarrow> (c\<lparr>sc_head := p, sc_free := sc_free c + 1\<rparr>, store8 p (sc_head c) m))"

fun populate_loop :: "u64 \<Rightarrow> nat \<Rightarrow> slab_class \<times> (u64 \<Rightarrow> u64) \<Rightarrow> slab_class \<times> (u64 \<Rightarrow> u64)" where
  "populate_loop page 0 st = st"
| "populate_loop page (Suc i) st = populate_loop page i (slab_push (page + of_nat i * sc_obj (fst st)) st)"

definition populate_from_page :: "u64 \<Rightarrow> slab_class \<times> (u64 \<Rightarrow> u64) \<Rightarrow> slab_class \<times> (u64 \<Rightarrow> u64)" where
  "populate_from_page page st =
     (let slots = unat (0x1000 div sc_obj (fst st))
      in case populate_loop page slots st of (c, m) \<Rightarrow> (c\<lparr>sc_slabs := sc_slabs c + 1\<rparr>, m))"

section \<open>The allocator\<close>

record slab_alloc_state =
  sl_classes :: "slab_class list"
  sl_page_alloc :: "(buddy \<Rightarrow> u64 \<times> buddy) option"
  sl_page_free :: "(u64 \<Rightarrow> buddy \<Rightarrow> buddy) option"

definition slab_allocator_new :: slab_alloc_state where
  "slab_allocator_new = \<lparr>sl_classes = map slab_class_new SLAB_CLASSES, sl_page_alloc = None, sl_page_free = None\<rparr>"

definition slab_init :: "(buddy \<Rightarrow> u64 \<times> buddy) \<Rightarrow> (u64 \<Rightarrow> buddy \<Rightarrow> buddy) \<Rightarrow> slab_alloc_state \<Rightarrow> slab_alloc_state" where
  "slab_init alloc free s = s\<lparr>sl_page_alloc := Some alloc, sl_page_free := Some free\<rparr>"

fun class_from :: "nat \<Rightarrow> u64 list \<Rightarrow> u64 \<Rightarrow> nat option" where
  "class_from i [] sz = None"
| "class_from i (cls # rest) sz = (if sz \<le> cls then Some i else class_from (Suc i) rest sz)"

definition slab_class_for :: "u64 \<Rightarrow> nat option" where
  "slab_class_for sz = class_from 0 SLAB_CLASSES sz"

definition slab_alloc :: "u64 \<Rightarrow> slab_alloc_state \<Rightarrow> buddy \<Rightarrow> u64 \<times> slab_alloc_state \<times> buddy" where
  "slab_alloc sz s b =
     (case slab_class_for sz of
        None \<Rightarrow> (0, s, b)
      | Some ci \<Rightarrow> let c = sl_classes s ! ci in
          if sc_head c \<noteq> 0 then (case slab_pop (bd_mem b) c of (p, c') \<Rightarrow> (p, s\<lparr>sl_classes := (sl_classes s)[ci := c']\<rparr>, b))
          else case sl_page_alloc s of
              None \<Rightarrow> (0, s, b)
            | Some page_fn \<Rightarrow> case page_fn b of (page, b1) \<Rightarrow>
                if page = 0 then (0, s, b1)
                else case populate_from_page page (c, bd_mem b1) of (c1, m) \<Rightarrow>
                  case slab_pop m c1 of (p, c2) \<Rightarrow> (p, s\<lparr>sl_classes := (sl_classes s)[ci := c2]\<rparr>, b1\<lparr>bd_mem := m\<rparr>))"

definition slab_free :: "u64 \<Rightarrow> u64 \<Rightarrow> slab_alloc_state \<Rightarrow> buddy \<Rightarrow> slab_alloc_state \<times> buddy" where
  "slab_free ptr sz s b =
     (if ptr = 0 then (s, b)
      else case slab_class_for sz of
        None \<Rightarrow> (s, b)
      | Some ci \<Rightarrow> case slab_push ptr (sl_classes s ! ci, bd_mem b) of (c, m) \<Rightarrow>
          (s\<lparr>sl_classes := (sl_classes s)[ci := c]\<rparr>, b\<lparr>bd_mem := m\<rparr>))"

definition free_slots :: "slab_alloc_state \<Rightarrow> nat \<Rightarrow> u64" where
  "free_slots s ci = (if ci \<ge> length SLAB_CLASSES then 0 else sc_free (sl_classes s ! ci))"

definition slab_pages :: "slab_alloc_state \<Rightarrow> nat \<Rightarrow> u64" where
  "slab_pages s ci = (if ci \<ge> length SLAB_CLASSES then 0 else sc_slabs (sl_classes s ! ci))"

definition total_slab_kb :: "slab_alloc_state \<Rightarrow> u64" where
  "total_slab_kb s = sum_list (map sc_slabs (sl_classes s)) * 0x1000 div 1024"

section \<open>The free list of a class\<close>

fun slist :: "(u64 \<Rightarrow> u64) \<Rightarrow> u64 \<Rightarrow> u64 list \<Rightarrow> bool" where
  "slist m x [] \<longleftrightarrow> x = 0"
| "slist m x (a # as) \<longleftrightarrow> x = a \<and> a \<noteq> 0 \<and> aligned8 a \<and> slist m (m a) as"

lemma slist_upd [simp]: "a \<notin> set as \<Longrightarrow> slist (m(a := v)) x as = slist m x as"
  by (induction as arbitrary: x) auto

lemma slab_push_list:
  assumes "slist m (sc_head c) as" "p \<noteq> 0" "aligned8 p" "p \<notin> set as"
  shows "slist (snd (slab_push p (c, m))) (sc_head (fst (slab_push p (c, m)))) (p # as)"
  using assms by (simp add: slab_push_def)

lemma slab_pop_list:
  assumes "slist m (sc_head c) (a # b # as)"
  shows "slab_pop m c = (a, c\<lparr>sc_head := m b, sc_free := sc_free c - 1\<rparr>)" "slist m (m b) as"
  using assms by (auto simp: slab_pop_def)

text \<open>The objects of a page.\<close>

definition slot_at :: "u64 \<Rightarrow> u64 \<Rightarrow> nat \<Rightarrow> u64" where
  "slot_at page obj i = page + of_nat i * obj"

lemma unat_slot:
  assumes "unat page + 4096 \<le> 2 ^ 64" "i * unat obj < 4096"
  shows "unat (slot_at page obj i) = unat page + i * unat obj"
proof -
  have "i * unat obj < 2 ^ 64" using assms(2) by simp
  moreover have "i < 2 ^ 64 \<or> unat obj = 0" using assms(2) by (cases "unat obj") auto
  ultimately have "unat (of_nat i * obj) = i * unat obj"
    by (auto simp: unat_word_ariths unat_of_nat take_bit_eq_mod unat_eq_0)
  then show ?thesis using assms by (simp add: slot_at_def unat_word_ariths)
qed

lemma populate_loop_list:
  assumes "page \<noteq> 0" "aligned8 page" "unat page + 4096 \<le> 2 ^ 64" "aligned8 (sc_obj c)" "0 < unat (sc_obj c)" "n * unat (sc_obj c) \<le> 4096" "i \<le> n"
    and "slist m (sc_head c) (map (slot_at page (sc_obj c)) [i..<n])"
  shows "\<exists>c' m'. populate_loop page i (c, m) = (c', m') \<and> slist m' (sc_head c') (map (slot_at page (sc_obj c)) [0..<n]) \<and>
    sc_obj c' = sc_obj c \<and> sc_free c' = sc_free c + of_nat i \<and> sc_slabs c' = sc_slabs c"
  using assms
proof (induction i arbitrary: c m)
  case (Suc i)
  let ?o = "sc_obj c" and ?p = "slot_at page (sc_obj c) i"
  have in_page: "j * unat ?o < 4096" if "j < n" for j
    using mult_less_mono1 [OF that Suc.prems(5)] Suc.prems(6) by (rule less_le_trans)
  have u: "unat (slot_at page ?o j) = unat page + j * unat ?o" if "j < n" for j by (rule unat_slot [OF Suc.prems(3) in_page [OF that]])
  have i: "i < n" using Suc.prems(7) by simp
  have "0 < unat page" using Suc.prems(1) by (simp add: unat_gt_0)
  then have nz: "?p \<noteq> 0" using u [OF i] by (metis add_gr_0 less_numeral_extra(3) unat_0)
  have al: "aligned8 ?p" unfolding slot_at_def by (intro aligned8_add aligned8_mult Suc.prems(2,4))
  have "?p \<notin> set (map (slot_at page ?o) [Suc i..<n])"
  proof
    assume "?p \<in> set (map (slot_at page ?o) [Suc i..<n])"
    then obtain j where j: "?p = slot_at page ?o j" "i < j" "j < n" by auto
    have "unat page + i * unat ?o = unat page + j * unat ?o" using u [OF i] u [OF j(3)] unfolding j(1) by linarith
    then show False using j(2) Suc.prems(5) by simp
  qed
  note push = slab_push_list [OF Suc.prems(8) nz al this]
  let ?c = "fst (slab_push ?p (c, m))" and ?m = "snd (slab_push ?p (c, m))"
  have flds: "sc_obj ?c = ?o" "sc_free ?c = sc_free c + 1" "sc_slabs ?c = sc_slabs c" by (simp_all add: slab_push_def)
  have "?p # map (slot_at page ?o) [Suc i..<n] = map (slot_at page (sc_obj ?c)) [i..<n]" using i flds(1) by (simp add: upt_conv_Cons)
  then have l: "slist ?m (sc_head ?c) (map (slot_at page (sc_obj ?c)) [i..<n])" using push by simp
  have "populate_loop page (Suc i) (c, m) = populate_loop page i (?c, ?m)" by (simp add: slot_at_def)
  moreover have "\<exists>c' m'. populate_loop page i (?c, ?m) = (c', m') \<and> slist m' (sc_head c') (map (slot_at page (sc_obj ?c)) [0..<n]) \<and>
    sc_obj c' = sc_obj ?c \<and> sc_free c' = sc_free ?c + of_nat i \<and> sc_slabs c' = sc_slabs ?c"
    by (rule Suc.IH [OF Suc.prems(1,2,3) _ _ _ _ l]) (use Suc.prems flds in simp_all)
  ultimately show ?case using flds by (simp add: add.assoc)
qed simp

text \<open>Repeated allocation from a class.\<close>

fun slab_pops :: "nat \<Rightarrow> (u64 \<Rightarrow> u64) \<Rightarrow> slab_class \<Rightarrow> u64 list \<times> slab_class" where
  "slab_pops 0 m c = ([], c)"
| "slab_pops (Suc k) m c = (case slab_pop m c of (p, c1) \<Rightarrow> case slab_pops k m c1 of (ps, c2) \<Rightarrow> (p # ps, c2))"

lemma slab_pops_list:
  assumes "slist m (sc_head c) (map f [s..<s + 2 * k])"
  shows "\<exists>c'. slab_pops k m c = (map (\<lambda>i. f (s + 2 * i)) [0..<k], c') \<and> sc_head c' = 0 \<and> sc_free c' = sc_free c - of_nat k"
  using assms
proof (induction k arbitrary: c s)
  case (Suc k)
  have l: "map f [s..<s + 2 * Suc k] = f s # f (Suc s) # map f [s + 2..<s + 2 + 2 * k]" by (simp add: upt_conv_Cons del: upt_Suc)
  note pop = slab_pop_list [OF Suc.prems [unfolded l]]
  let ?c = "c\<lparr>sc_head := m (f (Suc s)), sc_free := sc_free c - 1\<rparr>"
  have "slist m (sc_head ?c) (map f [s + 2..<s + 2 + 2 * k])" using pop(2) by simp
  from Suc.IH [OF this] obtain c' where c': "slab_pops k m ?c = (map (\<lambda>i. f (s + 2 + 2 * i)) [0..<k], c')" "sc_head c' = 0"
    "sc_free c' = sc_free ?c - of_nat k" by blast
  have "map (\<lambda>i. f (s + 2 * i)) [0..<Suc k] = f s # map (\<lambda>i. f (s + 2 + 2 * i)) [0..<k]"
    by (simp add: upt_conv_Cons map_Suc_upt [symmetric] o_def del: upt_Suc)
  then show ?case using pop(1) c' by simp
qed simp


section \<open>Half of every page is lost\<close>

lemma slab_slots:
  assumes "obj \<in> set SLAB_CLASSES"
  shows "unat (0x1000 div obj) = 2 * (2048 div unat obj)" "unat (0x1000 div obj) * unat obj = 4096" "0 < unat obj" "aligned8 obj"
  using assms by (auto simp: SLAB_CLASSES_def unat_div aligned8_def)

text \<open>After a class has been filled with a fresh page, allocations hand out the objects 0, 2, 4 and so on of the page: taking an
  object off the free list follows two links at once, so every second object is dropped from the list without ever being used.
  When half of the page has been handed out the class is empty, while its counter still reports the other half as free.\<close>

theorem slab_page_half_used:
  assumes "sc_obj c \<in> set SLAB_CLASSES" "sc_head c = 0" "page \<noteq> 0" "unat page mod 4096 = 0"
  shows "case populate_from_page page (c, m) of (c1, m1) \<Rightarrow> let n = unat (0x1000 div sc_obj c) in
    case slab_pops (n div 2) m1 c1 of (ps, c2) \<Rightarrow>
      ps = map (\<lambda>i. page + of_nat (2 * i) * sc_obj c) [0..<n div 2] \<and> sc_head c2 = 0 \<and> sc_free c2 = sc_free c + of_nat (n - n div 2)"
proof -
  let ?n = "unat (0x1000 div sc_obj c)" and ?h = "2048 div unat (sc_obj c)"
  note slots = slab_slots [OF assms(1)]
  obtain q where q: "unat page = 4096 * q" using assms(4) by auto
  have "unat page < 2 ^ 64" using unat_u64_less [of page] by simp
  then have pg: "unat page + 4096 \<le> 2 ^ 64" unfolding q by simp
  have al: "aligned8 page" unfolding aligned8_iff q by simp
  have le: "?n * unat (sc_obj c) \<le> 4096" by (simp only: slots(2))
  have l0: "slist m (sc_head c) (map (slot_at page (sc_obj c)) [?n..<?n])" using assms(2) by simp
  from populate_loop_list [OF assms(3) al pg slots(4,3) le order_refl l0] obtain c' m' where c':
    "populate_loop page ?n (c, m) = (c', m')" "slist m' (sc_head c') (map (slot_at page (sc_obj c)) [0..<?n])" "sc_free c' = sc_free c + of_nat ?n" by blast
  let ?c1 = "c'\<lparr>sc_slabs := sc_slabs c' + 1\<rparr>"
  have pop: "populate_from_page page (c, m) = (?c1, m')" using c'(1) by (simp add: populate_from_page_def)
  have l1: "slist m' (sc_head ?c1) (map (slot_at page (sc_obj c)) [0..<0 + 2 * ?h])" using c'(2) slots(1) by simp
  from slab_pops_list [OF l1] obtain c2 where c2: "slab_pops ?h m' ?c1 = (map (\<lambda>i. slot_at page (sc_obj c) (0 + 2 * i)) [0..<?h], c2)"
    "sc_head c2 = 0" "sc_free c2 = sc_free ?c1 - of_nat ?h" by blast
  have h: "?n div 2 = ?h" "?n - ?h = ?h" using slots(1) by simp_all
  have "sc_free c2 = sc_free c + of_nat ?h" using c2(3) c'(3) unfolding slots(1) by (simp add: algebra_simps)
  then show ?thesis unfolding pop Let_def h using c2(1,2) h by (simp add: slot_at_def)
qed

theorem slab_page_half_used_witness:
  "case populate_from_page 0x10005000 (slab_class_new 64, \<lambda>_. 0) of (c1, m1) \<Rightarrow>
    sc_head (snd (slab_pops 32 m1 c1)) = 0 \<and> sc_free (snd (slab_pops 32 m1 c1)) = 32 \<and> fst (slab_pops 32 m1 c1) ! 1 = 0x10005080"
  using slab_page_half_used [of "slab_class_new 64" "0x10005000" "\<lambda>_. 0"] by (auto simp: slab_class_new_def SLAB_CLASSES_def Let_def split: prod.splits)

end
