(* ===== verification/Heap_Guard.thy ===== *)
theory Heap_Guard
  imports Heap_Slab Debug_Fmt
begin

text \<open>
  The guards of the kernel heap, written in Ada: \<^verbatim>\<open>integrity_checks.adb\<close> (a canary in the last 8 bytes of a block, a ring of the
  last 256 released addresses against double release, a bounds check), \<^verbatim>\<open>audit_log.adb\<close> (a ring of the last 512 events and
  totals) and \<^verbatim>\<open>lifecycle.adb\<close>, with the wrappers of \<^verbatim>\<open>allocator/ada_shims.rs\<close>. Their messages go to port 0xE9; the model
  appends them to a text. The units are compiled with range checks: a size of \<open>2 ^ 63\<close> or more would end in a check, but a
  Rust layout is always smaller.
\<close>

section \<open>Integrity checks\<close>

definition CANARY_VALUE :: u64 where "CANARY_VALUE = 0xDEADBEEFCAFEBABE"
abbreviation DFREE_BUF_SIZE :: nat where "DFREE_BUF_SIZE \<equiv> 256"

definition write_canary :: "u64 \<Rightarrow> u64 \<Rightarrow> (u64 \<Rightarrow> u64) \<Rightarrow> u64 \<Rightarrow> u64" where
  "write_canary ptr sz m = (if sz < 8 then m else store8 (ptr + (sz - 8)) CANARY_VALUE m)"

text \<open>The message of a failed check goes to the debug port.\<close>

definition debug_str :: "string \<Rightarrow> string" where
  "debug_str s = s @ [CHR 0x0A]"

definition check_canary :: "u64 \<Rightarrow> u64 \<Rightarrow> (u64 \<Rightarrow> u64) \<Rightarrow> bool \<times> string" where
  "check_canary ptr sz m =
     (if sz < 8 then (True, [])
      else if load8 m (ptr + (sz - 8)) \<noteq> CANARY_VALUE then (False, debug_str ''[INTEGRITY] canary overwrite'') else (True, []))"

record free_ring =
  fr_slots :: "u64 list"
  fr_head :: nat
  fr_init :: bool

definition free_ring_boot :: free_ring where
  "free_ring_boot = \<lparr>fr_slots = replicate DFREE_BUF_SIZE 0, fr_head = 0, fr_init = False\<rparr>"

definition ensure_init :: "free_ring \<Rightarrow> free_ring" where
  "ensure_init r = (if \<not> fr_init r then r\<lparr>fr_slots := replicate DFREE_BUF_SIZE 0, fr_init := True\<rparr> else r)"

definition register_free :: "u64 \<Rightarrow> free_ring \<Rightarrow> free_ring" where
  "register_free ptr r0 =
     (let r = ensure_init r0 in r\<lparr>fr_slots := (fr_slots r)[fr_head r := ptr], fr_head := (fr_head r + 1) mod DFREE_BUF_SIZE\<rparr>)"

definition is_double_free :: "u64 \<Rightarrow> free_ring \<Rightarrow> bool \<times> string \<times> free_ring" where
  "is_double_free ptr r0 =
     (let r = ensure_init r0
      in if ptr \<in> set (fr_slots r) then (True, debug_str ''[INTEGRITY] double free'', r) else (False, [], r))"

definition check_bounds :: "u64 \<Rightarrow> u64 \<Rightarrow> u64 \<Rightarrow> u64 \<Rightarrow> bool \<Rightarrow> bool \<times> string" where
  "check_bounds ptr sz base hsz need_align =
     (let heap_end = base + hsz; block_end = ptr + sz in
      if ptr = 0 then (False, debug_str ''[INTEGRITY] null ptr'')
      else if ptr < base then (False, debug_str ''[INTEGRITY] below heap'')
      else if block_end > heap_end then (False, debug_str ''[INTEGRITY] past heap end'')
      else if sz = 0 then (False, debug_str ''[INTEGRITY] zero size'')
      else if need_align \<and> ptr mod 0x1000 \<noteq> 0 then (False, debug_str ''[INTEGRITY] not page-aligned'')
      else (True, []))"

section \<open>Audit log\<close>

abbreviation AUDIT_SIZE :: nat where "AUDIT_SIZE \<equiv> 512"

datatype entry_kind = Kind_Alloc | Kind_Free

record audit_entry =
  ae_ptr :: u64
  ae_size :: u64
  ae_slab :: bool
  ae_kind :: entry_kind

record audit_log =
  al_ring :: "audit_entry list"
  al_head :: nat
  al_allocs :: u64
  al_frees :: u64
  al_live :: u64

definition audit_boot :: audit_log where
  "audit_boot = \<lparr>al_ring = replicate AUDIT_SIZE \<lparr>ae_ptr = 0, ae_size = 0, ae_slab = False, ae_kind = Kind_Alloc\<rparr>,
     al_head = 0, al_allocs = 0, al_frees = 0, al_live = 0\<rparr>"

definition audit_push :: "audit_entry \<Rightarrow> audit_log \<Rightarrow> audit_log" where
  "audit_push e l = l\<lparr>al_ring := (al_ring l)[al_head l := e], al_head := (al_head l + 1) mod AUDIT_SIZE\<rparr>"

definition log_alloc :: "u64 \<Rightarrow> u64 \<Rightarrow> bool \<Rightarrow> audit_log \<Rightarrow> audit_log" where
  "log_alloc ptr sz slab l0 =
     (let l = audit_push \<lparr>ae_ptr = ptr, ae_size = sz, ae_slab = slab, ae_kind = Kind_Alloc\<rparr> l0
      in l\<lparr>al_allocs := al_allocs l + 1, al_live := al_live l + sz\<rparr>)"

definition log_free :: "u64 \<Rightarrow> u64 \<Rightarrow> bool \<Rightarrow> audit_log \<Rightarrow> audit_log" where
  "log_free ptr sz slab l0 =
     (let l = audit_push \<lparr>ae_ptr = ptr, ae_size = sz, ae_slab = slab, ae_kind = Kind_Free\<rparr> l0
      in l\<lparr>al_frees := al_frees l + 1, al_live := (if al_live l \<ge> sz then al_live l - sz else 0)\<rparr>)"

definition get_stats :: "audit_log \<Rightarrow> u64 \<times> u64 \<times> u64" where
  "get_stats l = (al_allocs l, al_frees l, al_live l)"

text \<open>\<open>Out_Dec\<close>: twenty characters, enough for every value, filled from the right.\<close>

definition out_dec :: "u64 \<Rightarrow> string" where
  "out_dec v =
     (if v = 0 then ''0'' else let (buf, pos) = pre_loop v (replicate 20 CHR 0x00) 20 in drop pos buf)"

definition out_hex_digit :: "nat \<Rightarrow> char" where
  "out_hex_digit d = ''0123456789abcdef'' ! d"

fun out_hex_loop :: "u64 \<Rightarrow> nat list \<Rightarrow> string \<Rightarrow> string" where
  "out_hex_loop v [] buf = buf"
| "out_hex_loop v (i # is) buf = out_hex_loop (drop_bit 4 v) is (buf[i := out_hex_digit (unat (v AND 0xF))])"

definition out_hex :: "u64 \<Rightarrow> string" where
  "out_hex v = out_hex_loop v (rev [0..<16]) (replicate 16 CHR 0x00)"

definition dump_line :: "audit_entry \<Rightarrow> string" where
  "dump_line e =
     (if ae_ptr e = 0 then []
      else (case ae_kind e of Kind_Alloc \<Rightarrow> ''  A '' | Kind_Free \<Rightarrow> ''  F '') @ (if ae_slab e then ''slab '' else ''budy '') @
        ''0x'' @ out_hex (ae_ptr e) @ '' '' @ out_dec (ae_size e) @ ''B'' @ [CHR 0x0A])"

definition dump_last :: "u32 \<Rightarrow> audit_log \<Rightarrow> string" where
  "dump_last n l =
     (let count = min (unat n) AUDIT_SIZE in
      ''--- audit dump last='' @ out_dec (of_nat count) @ '' allocs='' @ out_dec (al_allocs l) @ '' frees='' @ out_dec (al_frees l) @
      '' live='' @ out_dec (al_live l) @ ''B ---'' @ [CHR 0x0A] @
      concat (map (\<lambda>i. dump_line (al_ring l ! ((al_head l + AUDIT_SIZE - i) mod AUDIT_SIZE))) [1..<Suc count]))"

section \<open>Lifecycle\<close>

record lifecycle =
  lc_initialized :: bool
  lc_base :: u64
  lc_size :: u64
  lc_ver :: u32

definition lifecycle_boot :: lifecycle where
  "lifecycle_boot = \<lparr>lc_initialized = False, lc_base = 0, lc_size = 0, lc_ver = 0\<rparr>"

definition lc_line :: "string \<Rightarrow> lifecycle \<Rightarrow> string" where
  "lc_line what c =
     what @ ''=0x'' @ out_hex (lc_base c) @ '' size='' @ out_dec (lc_size c) @ ''B ver='' @ out_dec (ucast (lc_ver c)) @ [CHR 0x0A]"

definition lc_init :: "u64 \<Rightarrow> u64 \<Rightarrow> lifecycle \<Rightarrow> lifecycle \<times> string" where
  "lc_init base sz c0 =
     (let c = c0\<lparr>lc_base := base, lc_size := sz, lc_ver := lc_ver c0 + 1, lc_initialized := True\<rparr>
      in (c, lc_line ''[LC] init base'' c))"

definition lc_reinit :: "u64 \<Rightarrow> u64 \<Rightarrow> audit_log \<Rightarrow> lifecycle \<Rightarrow> lifecycle \<times> string" where
  "lc_reinit base sz l c0 =
     (case get_stats l of (a, f, live) \<Rightarrow>
      let c = c0\<lparr>lc_base := base, lc_size := sz, lc_ver := lc_ver c0 + 1, lc_initialized := True\<rparr>
      in (c, ''[LC] reinit old: allocs='' @ out_dec a @ '' frees='' @ out_dec f @ '' live='' @ out_dec live @ ''B'' @ [CHR 0x0A] @
            lc_line ''[LC] reinit base'' c))"

definition lc_shutdown :: "audit_log \<Rightarrow> lifecycle \<Rightarrow> lifecycle \<times> string" where
  "lc_shutdown l c =
     (case get_stats l of (a, f, live) \<Rightarrow>
      (c\<lparr>lc_initialized := False\<rparr>,
       ''[LC] shutdown ver='' @ out_dec (ucast (lc_ver c)) @ '' allocs='' @ out_dec a @ '' frees='' @ out_dec f @
       '' live='' @ out_dec live @ ''B'' @ [CHR 0x0A] @
       (if live \<noteq> 0 then ''[LC] WARNING '' @ out_dec live @ ''B leaked'' @ [CHR 0x0A] else [])))"

section \<open>The state of the guards and the wrappers\<close>

record guards =
  gd_ring :: free_ring
  gd_log :: audit_log
  gd_life :: lifecycle
  gd_out :: string

definition guards_boot :: guards where
  "guards_boot = \<lparr>gd_ring = free_ring_boot, gd_log = audit_boot, gd_life = lifecycle_boot, gd_out = []\<rparr>"

definition on_alloc :: "u64 \<Rightarrow> u64 \<Rightarrow> u64 \<Rightarrow> u64 \<Rightarrow> bool \<Rightarrow> guards \<Rightarrow> (u64 \<Rightarrow> u64) \<Rightarrow> bool \<times> guards \<times> (u64 \<Rightarrow> u64)" where
  "on_alloc ptr sz base hsz is_slab g m =
     (if ptr = 0 then (False, g, m)
      else case check_bounds ptr sz base hsz (\<not> is_slab) of (ok, msg) \<Rightarrow>
        let g1 = g\<lparr>gd_out := gd_out g @ msg\<rparr> in
        if \<not> ok then (False, g1, m)
        else (True, g1\<lparr>gd_log := log_alloc ptr sz is_slab (gd_log g1)\<rparr>, write_canary ptr sz m))"

definition on_free :: "u64 \<Rightarrow> u64 \<Rightarrow> bool \<Rightarrow> guards \<Rightarrow> (u64 \<Rightarrow> u64) \<Rightarrow> bool \<times> guards" where
  "on_free ptr sz is_slab g m =
     (if ptr = 0 then (True, g)
      else case is_double_free ptr (gd_ring g) of (dbl, msg, r) \<Rightarrow>
        let g1 = g\<lparr>gd_ring := r, gd_out := gd_out g @ msg\<rparr> in
        if dbl then (False, g1)
        else case check_canary ptr sz m of (ok, msg2) \<Rightarrow>
          let g2 = g1\<lparr>gd_out := gd_out g1 @ msg2\<rparr> in
          if \<not> ok then (False, g2)
          else (True, g2\<lparr>gd_ring := register_free ptr (gd_ring g2), gd_log := log_free ptr sz is_slab (gd_log g2)\<rparr>))"

section \<open>The ring of released addresses\<close>

definition ring_ok :: "free_ring \<Rightarrow> bool" where
  "ring_ok r \<longleftrightarrow> length (fr_slots r) = DFREE_BUF_SIZE \<and> fr_head r < DFREE_BUF_SIZE \<and> (fr_init r \<or> fr_slots r = replicate DFREE_BUF_SIZE 0 \<and> fr_head r = 0)"

lemma ring_boot_ok: "ring_ok free_ring_boot"
  by (simp add: ring_ok_def free_ring_boot_def)

lemma ensure_init_ok: "ring_ok r \<Longrightarrow> ring_ok (ensure_init r) \<and> fr_init (ensure_init r) \<and> fr_slots (ensure_init r) = fr_slots r \<and> fr_head (ensure_init r) = fr_head r"
  by (auto simp: ring_ok_def ensure_init_def)

lemma register_free_ok:
  assumes "ring_ok r"
  shows "ring_ok (register_free p r)" "fr_slots (register_free p r) = (fr_slots r)[fr_head r := p]"
    "fr_head (register_free p r) = (fr_head r + 1) mod DFREE_BUF_SIZE"
  using ensure_init_ok [OF assms] by (auto simp: register_free_def Let_def ring_ok_def)

text \<open>Where the address registered \<open>n\<close> registrations ago stands.\<close>

definition released :: "nat \<Rightarrow> u64 \<Rightarrow> free_ring \<Rightarrow> bool" where
  "released n p r \<longleftrightarrow> ring_ok r \<and> n < DFREE_BUF_SIZE \<and> (\<exists>i < DFREE_BUF_SIZE. fr_slots r ! i = p \<and> (i + n + 1) mod DFREE_BUF_SIZE = fr_head r)"

lemma ring_okD: "ring_ok r \<Longrightarrow> fr_head r < DFREE_BUF_SIZE" "ring_ok r \<Longrightarrow> length (fr_slots r) = DFREE_BUF_SIZE"
  by (simp_all add: ring_ok_def)

lemma released_now:
  assumes r: "ring_ok r"
  shows "released 0 p (register_free p r)"
  unfolding released_def register_free_ok(2,3) [OF r]
  using register_free_ok(1) [OF r] ring_okD [OF r] by (intro conjI exI [of _ "fr_head r"]) simp_all

lemma released_later:
  assumes "released n p r" "Suc n < DFREE_BUF_SIZE"
  shows "released (Suc n) p (register_free q r)"
proof -
  obtain i where r: "ring_ok r" and i: "i < DFREE_BUF_SIZE" "fr_slots r ! i = p" "(i + n + 1) mod DFREE_BUF_SIZE = fr_head r"
    using assms(1) unfolding released_def by blast
  have ne: "fr_head r \<noteq> i"
  proof
    assume "fr_head r = i"
    then have "(i + (n + 1)) mod DFREE_BUF_SIZE = (i + 0) mod DFREE_BUF_SIZE" using i(1,3) by simp
    then have "i = i + (n + 1)" using mod_inj_window [of i "i + (n + 1)" DFREE_BUF_SIZE] assms(2) by simp
    then show False by simp
  qed
  have "(i + Suc n + 1) mod DFREE_BUF_SIZE = (fr_head r + 1) mod DFREE_BUF_SIZE" using mod_Suc_eq [of "i + n + 1" DFREE_BUF_SIZE] i(3) by simp
  then show ?thesis unfolding released_def register_free_ok(2,3) [OF r]
    using register_free_ok(1) [OF r] assms(2) i(1,2) ne by (intro conjI exI [of _ i]) simp_all
qed

lemma released_found:
  assumes "released n p r"
  shows "fst (is_double_free p r)"
proof -
  obtain i where r: "ring_ok r" and i: "i < DFREE_BUF_SIZE" "fr_slots r ! i = p" using assms unfolding released_def by blast
  have "i < length (fr_slots r)" using ring_okD(2) [OF r] i(1) by simp
  then have "p \<in> set (fr_slots r)" using i(2) nth_mem by metis
  then show ?thesis using ensure_init_ok [OF r] by (simp add: is_double_free_def Let_def)
qed

end
