(* ===== verification/Kernel_Heap.thy ===== *)
theory Kernel_Heap
  imports Heap_Guard Spin_Lock
begin

text \<open>
  The kernel heap (\<^verbatim>\<open>allocator/kernel_heap.rs\<close>, the global allocator): small requests from the slab layer, the others from the
  buddy allocator, every block checked and marked by the guards, all under one spin lock. A failed check on release stops the
  processor with interrupts masked, the outcome \<open>Hang\<close>.
\<close>

section \<open>State\<close>

definition KHEAP_BASE :: u64 where "KHEAP_BASE = 0x10000000"
definition KHEAP_SIZE :: u64 where "KHEAP_SIZE = 32 * 1024 * 1024"

record layout =
  ly_size :: u64
  ly_align :: u64

record kheap =
  kh_lock :: spinlock
  kh_buddy :: buddy
  kh_slab :: slab_alloc_state
  kh_inited :: bool
  kh_guards :: guards

definition buddy_new :: "(u64 \<Rightarrow> u64) \<Rightarrow> buddy" where
  "buddy_new m = \<lparr>bd_base = 0, bd_size = 0, bd_heads = (\<lambda>_. 0), bd_bitmap = (\<lambda>_. 0), bd_free = 0, bd_mem = m\<rparr>"

text \<open>The state before initialisation, over the memory the machine starts with.\<close>

definition kheap_new :: "(u64 \<Rightarrow> u64) \<Rightarrow> kheap" where
  "kheap_new m = \<lparr>kh_lock = spinlock_new, kh_buddy = buddy_new m, kh_slab = slab_allocator_new, kh_inited = False, kh_guards = guards_boot\<rparr>"

abbreviation kh_mem :: "kheap \<Rightarrow> u64 \<Rightarrow> u64" where
  "kh_mem h \<equiv> bd_mem (kh_buddy h)"

definition set_mem :: "(u64 \<Rightarrow> u64) \<Rightarrow> kheap \<Rightarrow> kheap" where
  "set_mem m h = h\<lparr>kh_buddy := (kh_buddy h)\<lparr>bd_mem := m\<rparr>\<rparr>"

section \<open>Initialisation and shutdown\<close>

definition slab_page_alloc :: "buddy \<Rightarrow> u64 \<times> buddy" where
  "slab_page_alloc b = buddy_alloc BUDDY_PAGE BUDDY_PAGE b"

definition slab_page_free :: "u64 \<Rightarrow> buddy \<Rightarrow> buddy" where
  "slab_page_free ptr b = buddy_free ptr BUDDY_PAGE b"

definition heap_init :: "u64 \<Rightarrow> u64 \<Rightarrow> kheap \<Rightarrow> kheap run" where
  "heap_init base sz h =
     (case buddy_init base sz (kh_buddy h) of
        None \<Rightarrow> Hang
      | Some b \<Rightarrow> case lc_init base sz (gd_life (kh_guards h)) of (c, msg) \<Rightarrow>
          Done (h\<lparr>kh_buddy := b, kh_slab := slab_init slab_page_alloc slab_page_free (kh_slab h), kh_inited := True,
            kh_guards := (kh_guards h)\<lparr>gd_life := c, gd_out := gd_out (kh_guards h) @ msg\<rparr>\<rparr>))"

definition heap_init_default :: "kheap \<Rightarrow> kheap run" where
  "heap_init_default h = heap_init KHEAP_BASE KHEAP_SIZE h"

text \<open>The classes of the slab layer keep their free lists.\<close>

definition heap_reinit :: "u64 \<Rightarrow> u64 \<Rightarrow> kheap \<Rightarrow> kheap run" where
  "heap_reinit base sz h =
     (case buddy_init base sz (kh_buddy h) of
        None \<Rightarrow> Hang
      | Some b \<Rightarrow> case lc_reinit base sz (gd_log (kh_guards h)) (gd_life (kh_guards h)) of (c, msg) \<Rightarrow>
          Done (h\<lparr>kh_buddy := b, kh_inited := True,
            kh_guards := (kh_guards h)\<lparr>gd_life := c, gd_out := gd_out (kh_guards h) @ msg\<rparr>\<rparr>))"

definition alloc_shutdown :: "kheap \<Rightarrow> kheap" where
  "alloc_shutdown h =
     (case lc_shutdown (gd_log (kh_guards h)) (gd_life (kh_guards h)) of (c, msg) \<Rightarrow>
      h\<lparr>kh_guards := (kh_guards h)\<lparr>gd_life := c, gd_out := gd_out (kh_guards h) @ msg\<rparr>\<rparr>)"

definition heap_shutdown :: "kheap \<Rightarrow> kheap" where
  "heap_shutdown h = (alloc_shutdown h)\<lparr>kh_inited := False\<rparr>"

section \<open>Allocation and release\<close>

definition is_slab :: "layout \<Rightarrow> bool" where
  "is_slab ly \<longleftrightarrow> ly_size ly \<le> MAX_SLAB_SIZE \<and> ly_align ly \<le> ly_size ly"

definition take_block :: "layout \<Rightarrow> kheap \<Rightarrow> u64 \<times> kheap" where
  "take_block ly h =
     (if is_slab ly
      then case slab_alloc (ly_size ly) (kh_slab h) (kh_buddy h) of (p, s, b) \<Rightarrow>
        let h1 = h\<lparr>kh_slab := s, kh_buddy := b\<rparr> in
        if p = 0 then (case buddy_alloc (ly_size ly) (ly_align ly) b of (q, b') \<Rightarrow> (q, h1\<lparr>kh_buddy := b'\<rparr>)) else (p, h1)
      else case buddy_alloc (ly_size ly) (ly_align ly) (kh_buddy h) of (q, b') \<Rightarrow> (q, h\<lparr>kh_buddy := b'\<rparr>))"

definition give_block :: "u64 \<Rightarrow> layout \<Rightarrow> kheap \<Rightarrow> kheap" where
  "give_block ptr ly h =
     (if is_slab ly then (case slab_free ptr (ly_size ly) (kh_slab h) (kh_buddy h) of (s, b) \<Rightarrow> h\<lparr>kh_slab := s, kh_buddy := b\<rparr>)
      else h\<lparr>kh_buddy := buddy_free ptr (ly_size ly) (kh_buddy h)\<rparr>)"

definition do_alloc :: "layout \<Rightarrow> kheap \<Rightarrow> u64 \<times> kheap" where
  "do_alloc ly h =
     (if \<not> kh_inited h then (0, h)
      else if ly_size ly = 0 then (0, h)
      else case take_block ly h of (p, h1) \<Rightarrow>
        if p = 0 then (0, h1)
        else case on_alloc p (ly_size ly) (bd_base (kh_buddy h1)) (bd_size (kh_buddy h1)) (is_slab ly) (kh_guards h1) (kh_mem h1) of (ok, g, m) \<Rightarrow>
          let h2 = set_mem m (h1\<lparr>kh_guards := g\<rparr>) in
          if \<not> ok then (0, give_block p ly h2) else (p, h2))"

definition do_dealloc :: "u64 \<Rightarrow> layout \<Rightarrow> kheap \<Rightarrow> kheap run" where
  "do_dealloc ptr ly h =
     (if \<not> kh_inited h \<or> ptr = 0 then Done h
      else case on_free ptr (ly_size ly) (is_slab ly) (kh_guards h) (kh_mem h) of (ok, g) \<Rightarrow>
        let h1 = h\<lparr>kh_guards := g\<rparr> in
        if \<not> ok then (let halted = alloc_shutdown h1 in Hang) else Done (give_block ptr ly h1))"

definition heap_alloc :: "layout \<Rightarrow> kheap \<Rightarrow> (u64 \<times> kheap) run" where
  "heap_alloc ly h =
     bind_run (lock (kh_lock h)) (\<lambda>l. case do_alloc ly (h\<lparr>kh_lock := l\<rparr>) of (p, h1) \<Rightarrow>
       Done (p, h1\<lparr>kh_lock := unlock (kh_lock h1)\<rparr>))"

definition heap_dealloc :: "u64 \<Rightarrow> layout \<Rightarrow> kheap \<Rightarrow> kheap run" where
  "heap_dealloc ptr ly h =
     bind_run (lock (kh_lock h)) (\<lambda>l. bind_run (do_dealloc ptr ly (h\<lparr>kh_lock := l\<rparr>)) (\<lambda>h1.
       Done (h1\<lparr>kh_lock := unlock (kh_lock h1)\<rparr>)))"

fun copy_bytes :: "nat \<Rightarrow> u64 \<Rightarrow> u64 \<Rightarrow> (u64 \<Rightarrow> u64) \<Rightarrow> u64 \<Rightarrow> u64" where
  "copy_bytes 0 src dst m = m"
| "copy_bytes (Suc n) src dst m = copy_bytes n (src + 1) (dst + 1) (store_byte dst (load_byte m src) m)"

definition heap_realloc :: "u64 \<Rightarrow> layout \<Rightarrow> u64 \<Rightarrow> kheap \<Rightarrow> (u64 \<times> kheap) run" where
  "heap_realloc ptr ly new_size h =
     (if ptr = 0 then heap_alloc \<lparr>ly_size = new_size, ly_align = ly_align ly\<rparr> h
      else if new_size = 0 then bind_run (heap_dealloc ptr ly h) (\<lambda>h1. Done (0, h1))
      else bind_run (heap_alloc \<lparr>ly_size = new_size, ly_align = ly_align ly\<rparr> h) (\<lambda>(new_ptr, h1).
        if new_ptr = 0 then Done (0, h1)
        else bind_run (heap_dealloc ptr ly (set_mem (copy_bytes (unat (min (ly_size ly) new_size)) ptr new_ptr (kh_mem h1)) h1))
          (\<lambda>h2. Done (new_ptr, h2))))"

section \<open>Statistics\<close>

definition heap_free_kb :: "kheap \<Rightarrow> u64" where "heap_free_kb h = buddy_free_kb (kh_buddy h)"
definition heap_total_kb :: "kheap \<Rightarrow> u64" where "heap_total_kb h = buddy_total_kb (kh_buddy h)"
definition heap_used_kb :: "kheap \<Rightarrow> u64" where "heap_used_kb h = buddy_used_kb (kh_buddy h)"
definition heap_slab_kb :: "kheap \<Rightarrow> u64" where "heap_slab_kb h = total_slab_kb (kh_slab h)"
definition heap_ada_version :: "kheap \<Rightarrow> u32" where "heap_ada_version h = lc_ver (gd_life (kh_guards h))"

definition heap_dump :: "u32 \<Rightarrow> kheap \<Rightarrow> kheap" where
  "heap_dump n h = h\<lparr>kh_guards := (kh_guards h)\<lparr>gd_out := gd_out (kh_guards h) @ dump_last n (gd_log (kh_guards h))\<rparr>\<rparr>"

definition class_line :: "kheap \<Rightarrow> nat \<Rightarrow> string" where
  "class_line h i =
     ''  slab['' @ serial_usize (SLAB_CLASSES ! i) @ ''B] free='' @ serial_usize (free_slots (kh_slab h) i) @
     '' pages='' @ serial_usize (slab_pages (kh_slab h) i) @ [CHR 0x0A]"

definition print_stats :: "kheap \<Rightarrow> string" where
  "print_stats h =
     ''[HEAP] free='' @ serial_usize (heap_free_kb h) @ ''KB used='' @ serial_usize (heap_used_kb h) @
     ''KB total='' @ serial_usize (heap_total_kb h) @ ''KB slab='' @ serial_usize (heap_slab_kb h) @
     ''KB ada_ver='' @ serial_usize (ucast (heap_ada_version h)) @ [CHR 0x0A] @
     concat (map (class_line h) [0..<length SLAB_CLASSES]) @
     (case get_stats (gd_log (kh_guards h)) of (a, f, l) \<Rightarrow>
       ''[ADA] allocs='' @ serial_usize a @ '' frees='' @ serial_usize f @ '' live='' @ serial_usize l @ ''B'' @ [CHR 0x0A])"

end
