(* ===== verification/Heap_Props.thy ===== *)
theory Heap_Props
  imports Kernel_Heap
begin

text \<open>
  Properties of the kernel heap: what every operation keeps, what a page-sized allocation gives, and which releases stop the
  machine.
\<close>

section \<open>Operations in sequence\<close>

datatype heap_op = HInit u64 u64 | HReinit u64 u64 | HShutdown | HAlloc layout | HFree u64 layout | HRealloc u64 layout u64 | HDump u32

fun heap_step :: "heap_op \<Rightarrow> kheap \<Rightarrow> kheap run" where
  "heap_step (HInit base sz) h = heap_init base sz h"
| "heap_step (HReinit base sz) h = heap_reinit base sz h"
| "heap_step HShutdown h = Done (heap_shutdown h)"
| "heap_step (HAlloc ly) h = bind_run (heap_alloc ly h) (\<lambda>(p, h'). Done h')"
| "heap_step (HFree p ly) h = heap_dealloc p ly h"
| "heap_step (HRealloc p ly n) h = bind_run (heap_realloc p ly n h) (\<lambda>(q, h'). Done h')"
| "heap_step (HDump n) h = Done (heap_dump n h)"

fun heap_steps :: "heap_op list \<Rightarrow> kheap \<Rightarrow> kheap run" where
  "heap_steps [] h = Done h"
| "heap_steps (op # ops) h = bind_run (heap_step op h) (heap_steps ops)"

fun releases :: "heap_op \<Rightarrow> bool" where
  "releases (HFree p ly) = True"
| "releases (HRealloc p ly n) = True"
| "releases _ = False"

section \<open>Well-formed states\<close>

text \<open>The arrays have their sizes, the positions in the rings are inside, and the classes have their object sizes.\<close>

definition heap_wf :: "kheap \<Rightarrow> bool" where
  "heap_wf h \<longleftrightarrow> map sc_obj (sl_classes (kh_slab h)) = SLAB_CLASSES \<and> ring_ok (gd_ring (kh_guards h)) \<and>
     length (al_ring (gd_log (kh_guards h))) = AUDIT_SIZE \<and> al_head (gd_log (kh_guards h)) < AUDIT_SIZE \<and> \<not> kh_lock h"

lemma heap_new_wf: "heap_wf (kheap_new m)"
  by (simp add: heap_wf_def kheap_new_def slab_allocator_new_def slab_class_new_def o_def guards_boot_def ring_boot_ok audit_boot_def spinlock_new_def)

text \<open>The slab layer never changes an object size.\<close>

lemma slab_push_obj [simp]: "sc_obj (fst (slab_push p st)) = sc_obj (fst st)"
  by (simp add: slab_push_def split: prod.splits)

lemma populate_loop_obj [simp]: "sc_obj (fst (populate_loop page n st)) = sc_obj (fst st)"
  by (induction n arbitrary: st) auto

lemma populate_obj: "populate_from_page page (c, m) = (c', m') \<Longrightarrow> sc_obj c' = sc_obj c"
  using populate_loop_obj [of page "unat (0x1000 div sc_obj c)" "(c, m)"]
  by (cases "populate_loop page (unat (0x1000 div sc_obj c)) (c, m)") (auto simp: populate_from_page_def Let_def)

lemma slab_pop_obj: "slab_pop m c = (p, c') \<Longrightarrow> sc_obj c' = sc_obj c"
  by (auto simp: slab_pop_def split: if_splits)

lemma map_upd_same: "f x = f (xs ! i) \<Longrightarrow> map f (xs[i := x]) = map f xs"
  by (metis list_update_beyond list_update_id map_update not_le)

lemma slab_alloc_obj:
  assumes "slab_alloc sz s b = (p, s', b')"
  shows "map sc_obj (sl_classes s') = map sc_obj (sl_classes s)"
  using assms unfolding slab_alloc_def Let_def
  by (auto split: option.splits prod.splits if_splits intro!: map_upd_same dest!: populate_obj slab_pop_obj)

lemma slab_free_obj:
  assumes "slab_free p sz s b = (s', b')"
  shows "map sc_obj (sl_classes s') = map sc_obj (sl_classes s)"
  using assms unfolding slab_free_def slab_push_def by (auto split: option.splits if_splits intro!: map_upd_same)

section \<open>What the operations leave alone\<close>

lemma take_block_frame:
  assumes "take_block ly h = (p, h')"
  shows "kh_guards h' = kh_guards h" "kh_inited h' = kh_inited h" "kh_lock h' = kh_lock h"
    "map sc_obj (sl_classes (kh_slab h')) = map sc_obj (sl_classes (kh_slab h))"
  using assms slab_alloc_obj unfolding take_block_def Let_def by (auto split: if_splits prod.splits)

lemma give_block_frame [simp]:
  "kh_guards (give_block p ly h) = kh_guards h" "kh_inited (give_block p ly h) = kh_inited h" "kh_lock (give_block p ly h) = kh_lock h"
  "map sc_obj (sl_classes (kh_slab (give_block p ly h))) = map sc_obj (sl_classes (kh_slab h))"
  using slab_free_obj unfolding give_block_def by (auto split: prod.splits)

lemma set_mem_frame [simp]:
  "kh_guards (set_mem m h) = kh_guards h" "kh_inited (set_mem m h) = kh_inited h" "kh_lock (set_mem m h) = kh_lock h" "kh_slab (set_mem m h) = kh_slab h"
  by (simp_all add: set_mem_def)

definition audit_ok :: "audit_log \<Rightarrow> bool" where
  "audit_ok l \<longleftrightarrow> length (al_ring l) = AUDIT_SIZE \<and> al_head l < AUDIT_SIZE"

lemma audit_ok_step: "audit_ok l \<Longrightarrow> audit_ok (log_alloc p sz s l)" "audit_ok l \<Longrightarrow> audit_ok (log_free p sz s l)"
  by (simp_all add: audit_ok_def log_alloc_def log_free_def audit_push_def Let_def)

lemma on_alloc_frame:
  assumes "on_alloc p sz base hsz s g m = (ok, g', m')"
  shows "gd_ring g' = gd_ring g" "audit_ok (gd_log g) \<Longrightarrow> audit_ok (gd_log g')"
  using assms unfolding on_alloc_def Let_def by (auto split: if_splits prod.splits intro: audit_ok_step)

lemma ensure_init_twice [simp]: "ensure_init (ensure_init r) = ensure_init r"
  by (simp add: ensure_init_def)

lemma register_after_check [simp]: "register_free p (ensure_init r) = register_free p r"
  by (simp add: register_free_def)

lemma on_free_frame:
  assumes "on_free p sz s g m = (ok, g')" "p \<noteq> 0" "ok"
  shows "gd_ring g' = register_free p (gd_ring g)" "audit_ok (gd_log g) \<Longrightarrow> audit_ok (gd_log g')"
  using assms unfolding on_free_def is_double_free_def Let_def by (auto split: if_splits prod.splits intro: audit_ok_step)

lemma do_alloc_frame:
  assumes "do_alloc ly h = (p, h')"
  shows "gd_ring (kh_guards h') = gd_ring (kh_guards h)" "audit_ok (gd_log (kh_guards h)) \<Longrightarrow> audit_ok (gd_log (kh_guards h'))"
    "kh_inited h' = kh_inited h" "kh_lock h' = kh_lock h" "map sc_obj (sl_classes (kh_slab h')) = map sc_obj (sl_classes (kh_slab h))"
proof -
  obtain q h1 where t: "take_block ly h = (q, h1)" by (meson surj_pair)
  obtain ok g m where o: "on_alloc q (ly_size ly) (bd_base (kh_buddy h1)) (bd_size (kh_buddy h1)) (is_slab ly) (kh_guards h1) (kh_mem h1) = (ok, g, m)"
    by (metis surj_pair)
  note f = take_block_frame [OF t] on_alloc_frame [OF o]
  show "gd_ring (kh_guards h') = gd_ring (kh_guards h)" "audit_ok (gd_log (kh_guards h)) \<Longrightarrow> audit_ok (gd_log (kh_guards h'))"
    "kh_inited h' = kh_inited h" "kh_lock h' = kh_lock h" "map sc_obj (sl_classes (kh_slab h')) = map sc_obj (sl_classes (kh_slab h))"
    using assms f unfolding do_alloc_def Let_def t prod.case o by (auto split: if_splits)
qed

lemma do_dealloc_frame:
  assumes "do_dealloc p ly h = Done h'"
  shows "gd_ring (kh_guards h') = (if kh_inited h \<and> p \<noteq> 0 then register_free p (gd_ring (kh_guards h)) else gd_ring (kh_guards h))"
    "audit_ok (gd_log (kh_guards h)) \<Longrightarrow> audit_ok (gd_log (kh_guards h'))"
    "kh_inited h' = kh_inited h" "kh_lock h' = kh_lock h" "map sc_obj (sl_classes (kh_slab h')) = map sc_obj (sl_classes (kh_slab h))"
proof -
  obtain ok g where o: "on_free p (ly_size ly) (is_slab ly) (kh_guards h) (kh_mem h) = (ok, g)" by (meson surj_pair)
  note f = on_free_frame [OF o]
  show "gd_ring (kh_guards h') = (if kh_inited h \<and> p \<noteq> 0 then register_free p (gd_ring (kh_guards h)) else gd_ring (kh_guards h))"
    "audit_ok (gd_log (kh_guards h)) \<Longrightarrow> audit_ok (gd_log (kh_guards h'))"
    "kh_inited h' = kh_inited h" "kh_lock h' = kh_lock h" "map sc_obj (sl_classes (kh_slab h')) = map sc_obj (sl_classes (kh_slab h))"
    using assms f unfolding do_dealloc_def Let_def o prod.case by (auto split: if_splits)
qed

text \<open>The same for the locked operations: the ring of released addresses gains at most one address.\<close>

definition ring_step :: "bool \<Rightarrow> kheap \<Rightarrow> kheap \<Rightarrow> bool" where
  "ring_step rel h h' \<longleftrightarrow> (gd_ring (kh_guards h') = gd_ring (kh_guards h) \<or>
     rel \<and> (\<exists>q. gd_ring (kh_guards h') = register_free q (gd_ring (kh_guards h)))) \<and>
     (audit_ok (gd_log (kh_guards h)) \<longrightarrow> audit_ok (gd_log (kh_guards h'))) \<and>
     map sc_obj (sl_classes (kh_slab h')) = map sc_obj (sl_classes (kh_slab h)) \<and> (\<not> kh_lock h \<longrightarrow> \<not> kh_lock h')"

lemma heap_alloc_Done:
  "heap_alloc ly h = Done (p, h') \<longleftrightarrow>
     (\<not> kh_lock h \<and> (\<exists>h1. do_alloc ly (h\<lparr>kh_lock := True\<rparr>) = (p, h1) \<and> h' = h1\<lparr>kh_lock := False\<rparr>))"
  unfolding heap_alloc_def by (cases "kh_lock h"; cases "do_alloc ly (h\<lparr>kh_lock := True\<rparr>)") auto

lemma heap_alloc_frame: "heap_alloc ly h = Done (p, h') \<Longrightarrow> ring_step False h h' \<and> \<not> kh_lock h' \<and> kh_inited h' = kh_inited h"
  unfolding heap_alloc_Done ring_step_def by (auto dest: do_alloc_frame)

lemma heap_dealloc_Done:
  "heap_dealloc p ly h = Done h' \<longleftrightarrow>
     (\<not> kh_lock h \<and> (\<exists>h1. do_dealloc p ly (h\<lparr>kh_lock := True\<rparr>) = Done h1 \<and> h' = h1\<lparr>kh_lock := False\<rparr>))"
  unfolding heap_dealloc_def by (cases "kh_lock h"; cases "do_dealloc p ly (h\<lparr>kh_lock := True\<rparr>)") auto

lemma heap_dealloc_frame:
  assumes "heap_dealloc p ly h = Done h'"
  shows "ring_step True h h' \<and> \<not> kh_lock h'"
proof -
  obtain h1 where h1: "do_dealloc p ly (h\<lparr>kh_lock := True\<rparr>) = Done h1" "h' = h1\<lparr>kh_lock := False\<rparr>"
    using assms unfolding heap_dealloc_Done by blast
  show ?thesis using do_dealloc_frame [OF h1(1)] unfolding h1(2) ring_step_def by (auto split: if_splits)
qed

lemma heap_realloc_frame:
  assumes "heap_realloc p ly n h = Done (q, h')"
  shows "ring_step True h h'"
proof -
  have w: "ring_step True h h1" if "ring_step False h h1" for h1 using that unfolding ring_step_def by blast
  have comp: "ring_step True h h2" if "ring_step False h h1" "ring_step True (set_mem m h1) h2" for h1 h2 m
    using that unfolding ring_step_def set_mem_frame by auto
  show ?thesis using assms w comp unfolding heap_realloc_def
    by (auto simp: run_simps split: if_splits prod.splits dest!: heap_alloc_frame heap_dealloc_frame)
qed

lemma heap_step_frame:
  assumes "heap_step op h = Done h'"
  shows "ring_step (releases op) h h'"
proof (cases op)
  case (HInit base sz)
  then show ?thesis using assms by (auto simp: heap_init_def ring_step_def slab_init_def split: option.splits prod.splits)
next
  case (HReinit base sz)
  then show ?thesis using assms by (auto simp: heap_reinit_def ring_step_def split: option.splits prod.splits)
next
  case HShutdown
  then show ?thesis using assms by (auto simp: heap_shutdown_def alloc_shutdown_def ring_step_def split: prod.splits)
next
  case (HAlloc ly)
  then show ?thesis using assms heap_alloc_frame by (auto simp: run_simps)
next
  case (HFree p ly)
  then show ?thesis using assms heap_dealloc_frame by auto
next
  case (HRealloc p ly n)
  then show ?thesis using assms heap_realloc_frame by (auto simp: run_simps)
next
  case (HDump n)
  then show ?thesis using assms by (auto simp: heap_dump_def ring_step_def)
qed

lemma heap_wf_iff: "heap_wf h \<longleftrightarrow> map sc_obj (sl_classes (kh_slab h)) = SLAB_CLASSES \<and> ring_ok (gd_ring (kh_guards h)) \<and>
    audit_ok (gd_log (kh_guards h)) \<and> \<not> kh_lock h"
  by (auto simp: heap_wf_def audit_ok_def)

lemma ring_step_wf: "heap_wf h \<Longrightarrow> ring_step r h h' \<Longrightarrow> heap_wf h'"
  using register_free_ok(1) unfolding heap_wf_iff ring_step_def by auto

lemma heap_step_no_panic: "heap_step op h \<noteq> Panic"
proof -
  have l: "lock x \<noteq> Panic" for x by (cases x) simp_all
  have a: "heap_alloc ly h \<noteq> Panic" for ly h unfolding heap_alloc_def bind_run_Panic_iff using l by (auto split: prod.splits)
  have d: "do_dealloc p ly h \<noteq> Panic" for p ly h unfolding do_dealloc_def by (auto simp: Let_def split: prod.splits)
  have f: "heap_dealloc p ly h \<noteq> Panic" for p ly h unfolding heap_dealloc_def bind_run_Panic_iff using l d by auto
  have r: "heap_realloc p ly n h \<noteq> Panic" for p ly n unfolding heap_realloc_def using a f by (auto simp: bind_run_Panic_iff split: prod.splits)
  show ?thesis using a f r by (cases op) (auto simp: heap_init_def heap_reinit_def bind_run_Panic_iff split: option.splits prod.splits)
qed

lemma heap_steps_wf: "heap_wf h \<Longrightarrow> heap_steps ops h \<noteq> Panic \<and> (\<forall>h'. heap_steps ops h = Done h' \<longrightarrow> heap_wf h')"
proof (induction ops arbitrary: h)
  case (Cons op ops)
  show ?case
  proof (cases "heap_step op h")
    case (Done h1)
    then show ?thesis using Cons.IH [OF ring_step_wf [OF Cons.prems heap_step_frame [OF Done]]] by simp
  next
    case Panic
    then show ?thesis using heap_step_no_panic by blast
  next
    case Hang
    then show ?thesis by simp
  qed
qed simp


text \<open>Decided by the rings alone: the address is still among the last 256 that were released.\<close>

lemma heap_dealloc_ring:
  assumes "heap_dealloc p ly h = Done h'" "kh_inited h" "p \<noteq> 0" "ring_ok (gd_ring (kh_guards h))"
  shows "released 0 p (gd_ring (kh_guards h'))"
proof -
  obtain h1 where h1: "do_dealloc p ly (h\<lparr>kh_lock := True\<rparr>) = Done h1" "h' = h1\<lparr>kh_lock := False\<rparr>"
    using assms(1) unfolding heap_dealloc_Done by blast
  have "gd_ring (kh_guards h') = register_free p (gd_ring (kh_guards h))" using do_dealloc_frame(1) [OF h1(1)] assms(2,3) h1(2) by simp
  then show ?thesis using released_now [OF assms(4)] by simp
qed

lemma ring_steps:
  assumes "heap_steps ops h = Done h'" "released n p (gd_ring (kh_guards h))" "n + length (filter releases ops) < DFREE_BUF_SIZE"
  shows "\<exists>n'. released n' p (gd_ring (kh_guards h'))"
  using assms
proof (induction ops arbitrary: h n)
  case (Cons op ops)
  obtain h1 where h1: "heap_step op h = Done h1" "heap_steps ops h1 = Done h'" using Cons.prems(1) by (auto simp: run_simps)
  have "ring_step (releases op) h h1" by (rule heap_step_frame [OF h1(1)])
  then consider "gd_ring (kh_guards h1) = gd_ring (kh_guards h)" |
    q where "releases op" "gd_ring (kh_guards h1) = register_free q (gd_ring (kh_guards h))" unfolding ring_step_def by blast
  then show ?case
  proof cases
    case 1
    then show ?thesis using Cons.IH [OF h1(2), of n] Cons.prems(2,3) by (simp split: if_splits)
  next
    case 2
    then have "released (Suc n) p (gd_ring (kh_guards h1))" using released_later [OF Cons.prems(2), of q] Cons.prems(3) by simp
    then show ?thesis using Cons.IH [OF h1(2), of "Suc n"] Cons.prems(3) 2(1) by simp
  qed
qed auto

lemma released_halts:
  assumes "released n p (gd_ring (kh_guards h))" "kh_inited h" "p \<noteq> 0"
  shows "heap_dealloc p ly h = Hang"
proof -
  have "\<not> fst (on_free p (ly_size ly) (is_slab ly) (kh_guards h) m)" for m
    using released_found [OF assms(1)] assms(3) unfolding on_free_def by (auto simp: Let_def split: prod.splits)
  then have "do_dealloc p ly (h\<lparr>kh_lock := True\<rparr>) = Hang" using assms(2,3) unfolding do_dealloc_def
    by (auto simp: Let_def split: prod.splits) (metis fst_conv)
  then show ?thesis unfolding heap_dealloc_def by (cases "kh_lock h") simp_all
qed

text \<open>C22: an address that has been released stops the machine at its next release, unless at least 256 other releases happen in
  between, whatever else runs: the ring of released addresses is never cleared when an address is handed out again. So a block
  that is released, allocated again by its next owner and then properly released halts the processor.\<close>

theorem second_release_halts:
  assumes "heap_wf h" "kh_inited h" "p \<noteq> 0" "heap_dealloc p ly h = Done h1"
    and "heap_steps ops h1 = Done h2" "length (filter releases ops) < 256" "kh_inited h2"
  shows "heap_dealloc p ly' h2 = Hang"
proof -
  have "released 0 p (gd_ring (kh_guards h1))"
    by (rule heap_dealloc_ring [OF assms(4,2,3)]) (use assms(1) in \<open>simp add: heap_wf_iff\<close>)
  then obtain n where "released n p (gd_ring (kh_guards h2))" using ring_steps [OF assms(5), of 0] assms(6) by auto
  then show ?thesis by (rule released_halts [OF _ assms(7,3)])
qed

text \<open>A heap in which a block of 64 bytes at 0x10001000 is in use, its canary in place.\<close>

definition sample_heap :: kheap where
  "sample_heap = (kheap_new (\<lambda>a. if a = 0x10001038 then CANARY_VALUE else 0))
     \<lparr>kh_inited := True, kh_buddy := (buddy_new (\<lambda>a. if a = 0x10001038 then CANARY_VALUE else 0))\<lparr>bd_base := 0x10000000, bd_size := 0x2000000\<rparr>\<rparr>"

abbreviation (input) sample_layout :: layout where
  "sample_layout \<equiv> \<lparr>ly_size = 64, ly_align = 8\<rparr>"

lemma sample_wf: "heap_wf sample_heap" "kh_inited sample_heap"
  using heap_new_wf [of "\<lambda>_. 0"] by (simp_all add: sample_heap_def heap_wf_def kheap_new_def)

definition reused :: bool where
  "reused = (case heap_dealloc 0x10001000 sample_layout sample_heap of
     Done h1 \<Rightarrow> (case heap_alloc sample_layout h1 of Done (p, h2) \<Rightarrow> p = 0x10001000 \<and> kh_inited h2 | _ \<Rightarrow> False) | _ \<Rightarrow> False)"

lemma sample_reused: reused
  by code_simp

theorem second_release_halts_witness:
  "\<exists>h1 h2. heap_dealloc 0x10001000 sample_layout sample_heap = Done h1 \<and> heap_alloc sample_layout h1 = Done (0x10001000, h2) \<and>
    heap_dealloc 0x10001000 sample_layout h2 = Hang"
proof -
  obtain h1 h2 where h: "heap_dealloc 0x10001000 sample_layout sample_heap = Done h1" "heap_alloc sample_layout h1 = Done (0x10001000, h2)" "kh_inited h2"
    using sample_reused unfolding reused_def by (auto split: run.splits prod.splits)
  have "heap_steps [HAlloc sample_layout] h1 = Done h2" using h(2) by simp
  from second_release_halts [OF sample_wf _ h(1) this _ h(3)] h show ?thesis by auto
qed

end
