(* ===== verification/Heap_Block.thy ===== *)
theory Heap_Block
  imports Heap_Props
begin

text \<open>
  The block a request gets from the kernel heap: page-sized requests come out of the free pages, the canary lies in the last 8
  bytes of what the caller asked for, and a caller that uses these bytes cannot release the block.
\<close>

section \<open>Where an 8-byte store goes\<close>

definition low8 :: "u64 \<Rightarrow> u64" where
  "low8 a = a - (a AND 7)"

lemma and7: "unat (a AND 7 :: u64) = unat a mod 8"
proof -
  have "a AND 7 = take_bit 3 a" by (simp add: take_bit_eq_mask mask_eq_exp_minus_1)
  then show ?thesis by (simp add: unsigned_take_bit_eq take_bit_eq_mod unat_mod)
qed

lemma unat_low8: "unat (low8 a) = unat a - unat a mod 8"
  unfolding low8_def using and7 [of a] by (subst unat_sub) (simp_all add: word_le_nat_alt)

lemma store8_other: "x \<noteq> low8 a \<Longrightarrow> aligned8 a \<or> x \<noteq> low8 a + 8 \<Longrightarrow> store8 a v m x = m x"
  by (auto simp: store8_def Let_def low8_def aligned8_def unat_eq_0)

lemma load8_store8: "load8 (store8 a v m) a = v"
proof (cases "aligned8 a")
  case False
  let ?r = "8 * unat (a AND 7)"
  have "unat (a AND 7) < 8" "unat (a AND 7) \<noteq> 0" using False unfolding and7 by (simp_all add: aligned8_iff dvd_eq_mod_eq_0)
  then have r: "?r \<noteq> 0" "?r < 64" by simp_all
  let ?x = "take_bit ?r (m (low8 a)) OR push_bit ?r v"
  let ?y = "push_bit ?r (drop_bit ?r (m (low8 a + 8))) OR drop_bit (64 - ?r) v"
  have "load8 (store8 a v m) a = drop_bit ?r ?x OR push_bit (64 - ?r) ?y"
    using r(1) by (simp add: load8_def store8_def Let_def low8_def)
  also have "\<dots> = v"
  proof (rule bit_word_eqI)
    fix n assume n: "n < LENGTH(64)"
    show "bit (drop_bit ?r ?x OR push_bit (64 - ?r) ?y) n \<longleftrightarrow> bit v n"
      using n r by (cases "?r + n < 64") (auto simp: bit_simps dest: bit_imp_le_length)
  qed
  finally show ?thesis .
qed simp

section \<open>Free pages under a store\<close>

lemma holds_set_mem:
  assumes "buddy_holds b P" "\<forall>j \<in> P. m (adr b j) = bd_mem b (adr b j) \<and> m (adr b j + 8) = bd_mem b (adr b j + 8)"
  shows "buddy_holds (b\<lparr>bd_mem := m\<rparr>) P"
proof -
  obtain L where L: "buddy_inv b L" "coalesced 9 (fblocks L)" "covers (fblocks L) = P" using assms(1) unfolding buddy_holds_def by blast
  let ?b = "b\<lparr>bd_mem := m\<rparr>"
  have geo: "adr ?b = adr b" "bd_pages ?b = bd_pages b" "heap_geo ?b = heap_geo b" "\<And>i. bd_bit ?b i = bd_bit b i"
    by (simp_all add: adr_def bd_pages_def heap_geo_def bd_bit_def fun_eq_iff)
  have "dlist m (bd_heads b n) (map (adr b) (L n)) = dlist (bd_mem b) (bd_heads b n) (map (adr b) (L n))" if n: "n < MAX_ORDER" for n
  proof (rule dlist_cong, intro ballI)
    fix a assume "a \<in> set (map (adr b) (L n))"
    then obtain j where j: "a = adr b j" "j \<in> set (L n)" by auto
    have "j \<in> P" using free_first [OF list_bound(3) [OF L(1) n j(2)]] L(3) by simp
    then show "m a = bd_mem b a \<and> m (a + 8) = bd_mem b (a + 8)" using assms(2) j(1) by simp
  qed
  then have "buddy_inv ?b L" using L(1) unfolding buddy_inv_def geo by simp
  then show ?thesis using L(2,3) by (rule buddy_holdsI)
qed

text \<open>The last 8 bytes of a block of pages that are not free.\<close>

lemma canary_in_block:
  assumes geo: "heap_geo b" and k: "k + 2 ^ n \<le> bd_pages b" and sz: "8 \<le> sz" "unat sz \<le> 4096 * 2 ^ n"
    and j: "j < bd_pages b" "j \<notin> blk k n"
  defines "a \<equiv> adr b k + (sz - 8)"
  shows "store8 a v m (adr b j) = m (adr b j)" "store8 a v m (adr b j + 8) = m (adr b j + 8)"
proof -
  have ks: "k \<le> bd_pages b" "j \<le> bd_pages b" using k j by simp_all
  note uk = unat_adr [OF geo ks(1)]
  note uj = unat_adr [OF geo ks(2)]
  have "4096 * bd_pages b \<le> unat (bd_size b)" unfolding bd_pages_def by simp
  then have top: "unat (bd_base b) + 4096 * bd_pages b < 2 ^ 64" using geo unfolding heap_geo_def by linarith
  have s8: "unat (sz - 8) = unat sz - 8" "8 \<le> unat sz" using sz(1) by (simp_all add: unat_sub word_le_nat_alt)
  have kn: "4096 * k + 4096 * 2 ^ n \<le> 4096 * bd_pages b" using k by (metis add_mult_distrib2 mult_le_mono2)
  have bound: "unat (bd_base b) + 4096 * k + unat sz < 2 ^ 64" using kn sz(2) top by linarith
  have ua: "unat a = unat (bd_base b) + 4096 * k + unat sz - 8"
    unfolding a_def using uk s8 bound by (simp add: unat_word_ariths)
  have base: "unat (bd_base b) mod 4096 = 0" using geo by (simp add: heap_geo_def)
  have ul: "unat (low8 a) = unat a - unat a mod 8" by (rule unat_low8)
  have al: "unat (bd_base b) + 4096 * k \<le> unat (low8 a)"
  proof -
    obtain q where q: "unat (bd_base b) = 4096 * q" using base by auto
    have "8 * (512 * q + 512 * k) \<le> unat a" using ua q s8(2) by simp
    then have "512 * q + 512 * k \<le> unat a div 8" by simp
    then have "8 * (512 * q + 512 * k) \<le> 8 * (unat a div 8)" by (rule mult_le_mono2)
    then show ?thesis unfolding ul q by (simp add: minus_mod_eq_mult_div [symmetric])
  qed
  have le: "unat (low8 a) \<le> unat a" unfolding ul by simp
  have "4096 * j + 4096 \<le> 4096 * k \<or> 4096 * k + 4096 * 2 ^ n \<le> 4096 * j"
  proof -
    have "j < k \<or> k + 2 ^ n \<le> j" using j(2) by (auto simp: blk_def)
    then show ?thesis
    proof
      assume "k + 2 ^ n \<le> j"
      then have "4096 * (k + 2 ^ n) \<le> 4096 * j" by (rule mult_le_mono2)
      then show ?thesis by (simp add: add_mult_distrib2)
    qed simp
  qed
  then have out: "4096 * j + 4096 \<le> 4096 * k \<or> 4096 * k + unat sz \<le> 4096 * j" using sz(2) by linarith
  have j8: "unat (adr b j + 8) = unat (bd_base b) + 4096 * j + 8"
    using uj top j(1) by (simp add: unat_word_ariths)
  have w8: "unat (low8 a + 8) = unat (low8 a) + 8" using le ua bound s8(2) by (simp add: unat_word_ariths)
  have na: "unat (low8 a) + 8 \<le> unat (bd_base b) + 4096 * k + unat sz" using le ua s8(2) by linarith
  have odd8: "unat (low8 a) + 8 < unat (bd_base b) + 4096 * k + unat sz" if "\<not> aligned8 a"
  proof -
    have "0 < unat a mod 8" using that unfolding aligned8_iff dvd_eq_mod_eq_0 by simp
    then have "unat (low8 a) < unat a" unfolding ul by (metis diff_less mod_less_eq_dividend not_less_zero less_le_trans)
    then show ?thesis using ua s8(2) by linarith
  qed
  have ne: "x \<noteq> low8 a" "aligned8 a \<or> x \<noteq> low8 a + 8" if x: "unat x = unat (bd_base b) + 4096 * j \<or> unat x = unat (bd_base b) + 4096 * j + 8" for x
  proof -
    show "x \<noteq> low8 a"
    proof
      assume "x = low8 a"
      then have "unat x = unat (low8 a)" by (simp only:)
      then show False using x out al na s8(2) by linarith
    qed
    show "aligned8 a \<or> x \<noteq> low8 a + 8"
    proof (rule ccontr)
      assume "\<not> ?thesis"
      then have "unat x = unat (low8 a) + 8" "\<not> aligned8 a" using w8 by auto
      then show False using x out al odd8 by linarith
    qed
  qed
  show "store8 a v m (adr b j) = m (adr b j)" by (rule store8_other) (use ne [of "adr b j"] uj in auto)
  show "store8 a v m (adr b j + 8) = m (adr b j + 8)" by (rule store8_other) (use ne [of "adr b j + 8"] j8 in auto)
qed

section \<open>Requests the buddy allocator serves\<close>

lemma bounds_ok:
  assumes geo: "heap_geo b" and k: "k + 2 ^ n \<le> bd_pages b" and sz: "sz \<noteq> 0" "unat sz \<le> 4096 * 2 ^ n"
  shows "check_bounds (adr b k) sz (bd_base b) (bd_size b) al = (True, [])"
proof -
  have ks: "k \<le> bd_pages b" using k by simp
  note uk = unat_adr [OF geo ks]
  have ps: "4096 * bd_pages b \<le> unat (bd_size b)" unfolding bd_pages_def by simp
  have top: "unat (bd_base b) + unat (bd_size b) < 2 ^ 64" using geo by (simp add: heap_geo_def)
  have kn: "4096 * k + 4096 * 2 ^ n \<le> 4096 * bd_pages b" using k by (metis add_mult_distrib2 mult_le_mono2)
  have he: "unat (bd_base b + bd_size b) = unat (bd_base b) + unat (bd_size b)" using top by (simp add: unat_word_ariths)
  have "unat (bd_base b) + 4096 * k + unat sz < 2 ^ 64" using kn sz(2) top ps by linarith
  then have be: "unat (adr b k + sz) = unat (bd_base b) + 4096 * k + unat sz" using uk by (simp add: unat_word_ariths)
  have "adr b k \<noteq> 0" by (rule adr_nonzero [OF geo ks])
  moreover have "\<not> adr b k < bd_base b" using uk by (simp add: word_less_nat_alt)
  moreover have "\<not> adr b k + sz > bd_base b + bd_size b" using be he kn sz(2) ps by (simp add: word_less_nat_alt)
  moreover have "adr b k mod 0x1000 = 0"
  proof -
    have "unat (adr b k mod 0x1000) = 0" using uk geo by (simp add: unat_mod heap_geo_def)
    then show ?thesis by (simp only: unat_eq_0)
  qed
  ultimately show ?thesis using sz(1) by (simp add: check_bounds_def)
qed

lemma size_bytes:
  assumes "sz \<le> block_size n" "n \<le> 9"
  shows "unat sz \<le> 4096 * 2 ^ n"
proof -
  have "(2 :: nat) ^ n \<le> 2 ^ 9" using assms(2) by (rule power_increasing) simp
  then have "unat (of_nat (2 ^ n) * BUDDY_PAGE :: u64) = 4096 * 2 ^ n" by (intro unat_page_off) simp
  moreover have "block_size n = of_nat (2 ^ n) * BUDDY_PAGE" by (simp add: block_size_def push_bit_eq_mult mult.commute)
  ultimately show ?thesis using assms(1) by (simp add: word_le_nat_alt)
qed


lemma page_block_private_sample:
  "\<exists>h :: kheap. \<not> kh_lock h \<and> kh_inited h \<and> buddy_holds (kh_buddy h) {..<8192}"
proof -
  obtain b where "buddy_holds b {..<8192}" using kheap_pages by blast
  then show ?thesis by (intro exI [of _ "(kheap_new (\<lambda>_. 0))\<lparr>kh_inited := True, kh_buddy := b\<rparr>"]) (simp add: kheap_new_def spinlock_new_def)
qed


section \<open>Releasing a block that has been used\<close>

lemma bad_canary_halts:
  assumes "kh_inited h" "p \<noteq> 0" "8 \<le> ly_size ly" "load8 (kh_mem h) (p + (ly_size ly - 8)) \<noteq> CANARY_VALUE"
  shows "heap_dealloc p ly h = Hang"
proof -
  have "\<not> fst (on_free p (ly_size ly) (is_slab ly) (kh_guards h) (kh_mem h))"
    using assms unfolding on_free_def check_canary_def by (auto simp: Let_def not_less [symmetric] split: prod.splits)
  then have "do_dealloc p ly (h\<lparr>kh_lock := True\<rparr>) = Hang" using assms(1,2) unfolding do_dealloc_def
    by (auto simp: Let_def split: prod.splits)
  then show ?thesis unfolding heap_dealloc_def by (cases "kh_lock h") simp_all
qed

text \<open>Whatever serves the request, the canary of a block of 8 bytes or more lies in the last 8 of the bytes that were asked for. A
  caller that stores anything else in these bytes, which are its own, can not release the block: the release stops the machine.\<close>

theorem used_block_release_halts:
  assumes "heap_alloc ly h = Done (p, h1)" "p \<noteq> 0" "8 \<le> ly_size ly"
  shows "load8 (kh_mem h1) (p + (ly_size ly - 8)) = CANARY_VALUE \<and>
    (\<forall>v. v \<noteq> CANARY_VALUE \<longrightarrow> heap_dealloc p ly (set_mem (store8 (p + (ly_size ly - 8)) v (kh_mem h1)) h1) = Hang)"
proof -
  let ?h = "h\<lparr>kh_lock := True\<rparr>" and ?a = "p + (ly_size ly - 8)"
  obtain h2 where d: "do_alloc ly ?h = (p, h2)" "h1 = h2\<lparr>kh_lock := False\<rparr>" using assms(1) unfolding heap_alloc_Done by blast
  obtain q h3 where t: "take_block ly ?h = (q, h3)" by (meson surj_pair)
  obtain ok g m where o: "on_alloc q (ly_size ly) (bd_base (kh_buddy h3)) (bd_size (kh_buddy h3)) (is_slab ly) (kh_guards h3) (kh_mem h3) = (ok, g, m)"
    by (metis surj_pair)
  have q: "q = p" "ok" "h2 = set_mem m (h3\<lparr>kh_guards := g\<rparr>)" "kh_inited h" "ly_size ly \<noteq> 0"
    using d(1) assms(2) unfolding do_alloc_def t prod.case o by (auto simp: Let_def split: if_splits)
  then have "m = write_canary p (ly_size ly) (kh_mem h3)" using o unfolding on_alloc_def by (auto simp: Let_def split: if_splits prod.splits)
  then have m: "m = store8 ?a CANARY_VALUE (kh_mem h3)" using assms(3) by (simp add: write_canary_def not_less [symmetric])
  have mem: "kh_mem h1 = m" using d(2) q(3) by (simp add: set_mem_def)
  have "kh_inited h1" using d(2) q(3,4) take_block_frame(2) [OF t] by simp
  then have "heap_dealloc p ly (set_mem (store8 ?a v (kh_mem h1)) h1) = Hang" if "v \<noteq> CANARY_VALUE" for v
    by (intro bad_canary_halts) (use assms(2,3) that in \<open>simp_all add: set_mem_def load8_store8\<close>)
  then show ?thesis unfolding mem m by (simp add: load8_store8)
qed

theorem used_block_release_halts_witness:
  "\<exists>h p h1. heap_alloc \<lparr>ly_size = 4096, ly_align = 8\<rparr> h = Done (p, h1) \<and> p \<noteq> 0 \<and>
    heap_dealloc p \<lparr>ly_size = 4096, ly_align = 8\<rparr> (set_mem (store8 (p + 4088) 7 (kh_mem h1)) h1) = Hang"
proof -
  obtain h :: kheap where h: "\<not> kh_lock h" "kh_inited h" "buddy_holds (kh_buddy h) {..<8192}" using page_block_private_sample by blast
  let ?ly = "\<lparr>ly_size = 4096, ly_align = 8\<rparr>"
  let ?h = "h\<lparr>kh_lock := True\<rparr>"
  have o: "size_to_order 4096 = 0" by (simp add: size_to_order_def order_loop.simps BUDDY_PAGE_def)
  have ns: "\<not> is_slab ?ly" by (simp add: is_slab_def MAX_SLAB_SIZE_def SLAB_CLASSES_def)
  have al: "buddy_alloc 4096 8 (kh_buddy h) = alloc_order 0 (kh_buddy h)" using buddy_alloc_order [of 4096 8 "kh_buddy h"] o by (simp add: max_def)
  obtain k b where k: "blk k 0 \<subseteq> {..<8192}" "adr (kh_buddy h) k \<noteq> 0" "alloc_order 0 (kh_buddy h) = (adr (kh_buddy h) k, b)" "buddy_holds b ({..<8192} - blk k 0)"
    "keeps {..<8192} (kh_buddy h) b"
    using alloc_order_holds [OF h(3), of 0] whole_heap_run [of 0] by (auto simp: prod_eq_iff)
  have g: "adr b k = adr (kh_buddy h) k" "bd_pages b = bd_pages (kh_buddy h)" using keeps_geo [OF k(5)] by auto
  have kn: "k + 2 ^ 0 \<le> bd_pages b" using subset_trans [OF k(1) holds_bound [OF h(3)]] unfolding blk_bound g .
  have cb: "check_bounds (adr (kh_buddy h) k) 4096 (bd_base b) (bd_size b) True = (True, [])"
    using bounds_ok [OF holds_geo [OF k(4)] kn, of 4096 True] g by simp
  have tb: "take_block ?ly ?h = (adr (kh_buddy h) k, ?h\<lparr>kh_buddy := b\<rparr>)" using ns al k(3) by (simp add: take_block_def)
  have "fst (do_alloc ?ly ?h) = adr (kh_buddy h) k"
    unfolding do_alloc_def tb on_alloc_def using k(2) h(2) ns cb by (simp add: Let_def)
  then obtain h1 where a: "heap_alloc ?ly h = Done (adr (kh_buddy h) k, h1)" using h(1) unfolding heap_alloc_Done by (metis prod.collapse)
  from used_block_release_halts [OF a k(2)] have "heap_dealloc (adr (kh_buddy h) k) ?ly (set_mem (store8 (adr (kh_buddy h) k + 4088) 7 (kh_mem h1)) h1) = Hang"
    by (simp add: CANARY_VALUE_def)
  then show ?thesis using a k(2) by blast
qed

end
