(* ===== verification/Valloc.thy ===== *)
theory Valloc
  imports Kernel_Prelude
begin

text \<open>
  The allocator of virtual address ranges (\<^verbatim>\<open>valloc.rs\<close>): per process a bump pointer and a sorted array of at most 64 free
  regions, searched first fit, with neighbouring regions merged. Lengths and indices of the array are natural numbers, page
  counts and addresses keep their 64 bits.
\<close>

section \<open>State\<close>

definition VPAGE :: u64 where "VPAGE = 0x1000"
definition VSPACE_BASE :: u64 where "VSPACE_BASE = 0x08000000"
definition VSPACE_TOP :: u64 where "VSPACE_TOP = 0x80000000"
abbreviation MAX_FREE :: nat where "MAX_FREE \<equiv> 64"

record free_region =
  rg_base :: u64
  rg_pages :: u64

definition region_zero :: free_region where
  "region_zero = \<lparr>rg_base = 0, rg_pages = 0\<rparr>"

definition region_end :: "free_region \<Rightarrow> u64" where
  "region_end r = rg_base r + rg_pages r * VPAGE"

record vspace =
  va_bump :: u64
  va_free :: "free_region list"
  va_len :: nat

definition vspace_new :: vspace where
  "vspace_new = \<lparr>va_bump = VSPACE_BASE, va_free = replicate MAX_FREE region_zero, va_len = 0\<rparr>"

definition vspace_is_empty :: "vspace \<Rightarrow> bool" where
  "vspace_is_empty vs \<longleftrightarrow> va_bump vs = VSPACE_BASE \<and> va_len vs = 0"

definition bump_pages :: "vspace \<Rightarrow> u64" where
  "bump_pages vs = (va_bump vs - VSPACE_BASE) div VPAGE"

section \<open>Loops over the array\<close>

text \<open>\<open>for i in 0..free_len { if p(free[i]) { ... break } }\<close>: the first index.\<close>

fun find_slot :: "('a \<Rightarrow> bool) \<Rightarrow> nat list \<Rightarrow> 'a list \<Rightarrow> nat option run" where
  "find_slot p [] xs = Done None"
| "find_slot p (i # is) xs = bind_run (arr_get xs i) (\<lambda>r. if p r then Done (Some i) else find_slot p is xs)"

text \<open>\<open>free[j] = free[j + 1]\<close> upwards, \<open>free[j] = free[j - 1]\<close> downwards.\<close>

fun shift_down :: "nat list \<Rightarrow> 'a list \<Rightarrow> 'a list run" where
  "shift_down [] xs = Done xs"
| "shift_down (j # js) xs = bind_run (arr_get xs (j + 1)) (\<lambda>r. bind_run (arr_set xs j r) (shift_down js))"

fun shift_up :: "nat list \<Rightarrow> 'a list \<Rightarrow> 'a list run" where
  "shift_up [] xs = Done xs"
| "shift_up (j # js) xs = bind_run (arr_get xs (j - 1)) (\<lambda>r. bind_run (arr_set xs j r) (shift_up js))"

lemma bind_run_cong [fundef_cong]:
  "m = m' \<Longrightarrow> (\<And>x. m' = Done x \<Longrightarrow> f x = f' x) \<Longrightarrow> bind_run m f = bind_run m' f'"
  by (cases m') simp_all

text \<open>The loops run with \<open>free_len\<close> at least 1 wherever they are called, so \<open>free_len - 1\<close> does not wrap.\<close>

definition region_remove :: "nat \<Rightarrow> vspace \<Rightarrow> vspace run" where
  "region_remove i vs =
     bind_run (shift_down [i..<va_len vs - 1] (va_free vs)) (\<lambda>fr.
     bind_run (arr_set fr (va_len vs - 1) region_zero) (\<lambda>fr'.
     Done (vs\<lparr>va_free := fr', va_len := va_len vs - 1\<rparr>)))"

lemma region_remove_len: "region_remove i vs = Done vs' \<Longrightarrow> va_len vs' = va_len vs - 1"
  by (auto simp: region_remove_def run_simps)

function coalesce_from :: "nat \<Rightarrow> vspace \<Rightarrow> vspace run" where
  "coalesce_from i vs =
     (if i + 1 < va_len vs
      then bind_run (arr_get (va_free vs) i) (\<lambda>a. bind_run (arr_get (va_free vs) (i + 1)) (\<lambda>b.
        if region_end a = rg_base b
        then bind_run (arr_set (va_free vs) i (a\<lparr>rg_pages := rg_pages a + rg_pages b\<rparr>)) (\<lambda>fr.
             bind_run (region_remove (i + 1) (vs\<lparr>va_free := fr\<rparr>)) (coalesce_from i))
        else coalesce_from (i + 1) vs))
      else Done vs)"
  by pat_completeness auto

termination
  by (relation "measure (\<lambda>(i, vs). va_len vs - i)") (auto dest!: region_remove_len)

declare coalesce_from.simps [simp del]

section \<open>Operations\<close>

definition valloc_alloc :: "u64 \<Rightarrow> vspace \<Rightarrow> (u64 option \<times> vspace) run" where
  "valloc_alloc n vs =
     (if n = 0 then Done (None, vs)
      else bind_run (find_slot (\<lambda>r. rg_pages r \<ge> n) [0..<va_len vs] (va_free vs)) (\<lambda>f. case f of
          Some i \<Rightarrow> bind_run (arr_get (va_free vs) i) (\<lambda>r.
            let addr = rg_base r; leftover = rg_pages r - n in
            if leftover = 0 then bind_run (region_remove i vs) (\<lambda>vs'. Done (Some addr, vs'))
            else bind_run (arr_set (va_free vs) i (r\<lparr>rg_base := rg_base r + n * VPAGE, rg_pages := leftover\<rparr>)) (\<lambda>fr.
              Done (Some addr, vs\<lparr>va_free := fr\<rparr>)))
        | None \<Rightarrow>
            let addr = va_bump vs; end = addr + n * VPAGE in
            if end > VSPACE_TOP then Done (None, vs) else Done (Some addr, vs\<lparr>va_bump := end\<rparr>)))"

lemma find_slot_Some_in: "find_slot p is xs = Done (Some i) \<Longrightarrow> i \<in> set is"
  by (induction "is") (auto simp: run_simps split: if_splits)

text \<open>\<open>loop\<close>: the bump pointer swallows the free regions that end at it.\<close>

function retract :: "vspace \<Rightarrow> vspace run" where
  "retract vs =
     bind_run (find_slot (\<lambda>r. region_end r = va_bump vs) [0..<va_len vs] (va_free vs)) (\<lambda>f. case f of
         None \<Rightarrow> Done vs
       | Some i \<Rightarrow> bind_run (arr_get (va_free vs) i) (\<lambda>r.
           bind_run (region_remove i (vs\<lparr>va_bump := rg_base r\<rparr>)) retract))"
  by pat_completeness auto

termination
  by (relation "measure va_len") (auto dest!: region_remove_len find_slot_Some_in)

declare retract.simps [simp del]

definition valloc_free :: "u64 \<Rightarrow> u64 \<Rightarrow> vspace \<Rightarrow> vspace run" where
  "valloc_free addr n vs =
     (if n = 0 \<or> addr < VSPACE_BASE \<or> addr \<ge> VSPACE_TOP then Done vs
      else if addr AND (VPAGE - 1) \<noteq> 0 then Done vs
      else if addr + n * VPAGE = va_bump vs then retract (vs\<lparr>va_bump := addr\<rparr>)
      else if va_len vs \<ge> MAX_FREE then Done vs
      else bind_run (find_slot (\<lambda>r. rg_base r > addr) [0..<va_len vs] (va_free vs)) (\<lambda>f.
        let ins = (case f of None \<Rightarrow> va_len vs | Some i \<Rightarrow> i) in
        bind_run (shift_up (rev [Suc ins..<Suc (va_len vs)]) (va_free vs)) (\<lambda>fr.
        bind_run (arr_set fr ins \<lparr>rg_base = addr, rg_pages = n\<rparr>) (\<lambda>fr'.
        coalesce_from 0 (vs\<lparr>va_free := fr', va_len := va_len vs + 1\<rparr>)))))"

definition valloc_contains :: "u64 \<Rightarrow> u64 \<Rightarrow> vspace \<Rightarrow> bool run" where
  "valloc_contains addr pages vs =
     (if addr < VSPACE_BASE \<or> addr \<ge> VSPACE_TOP then Done False
      else let end = addr + pages * VPAGE in
        if end > va_bump vs then Done False
        else bind_run (find_slot (\<lambda>r. rg_base r < end \<and> region_end r > addr) [0..<va_len vs] (va_free vs)) (\<lambda>f. Done (f = None)))"

definition valloc_reset :: "vspace \<Rightarrow> vspace" where
  "valloc_reset vs = vs\<lparr>va_bump := VSPACE_BASE, va_len := 0, va_free := replicate MAX_FREE region_zero\<rparr>"

text \<open>\<open>saturating_sub\<close>.\<close>

definition valloc_used_pages :: "vspace \<Rightarrow> u64" where
  "valloc_used_pages vs =
     (let total = (va_bump vs - VSPACE_BASE) div VPAGE; free = sum_list (map rg_pages (take (va_len vs) (va_free vs)))
      in if free \<le> total then total - free else 0)"

section \<open>The loops as list functions\<close>

lemma find_slot_result:
  assumes "len \<le> length xs" "a \<le> len"
  shows "\<exists>f. find_slot p [a..<len] xs = Done f \<and>
    (case f of None \<Rightarrow> \<forall>i. a \<le> i \<and> i < len \<longrightarrow> \<not> p (xs ! i) | Some i \<Rightarrow> a \<le> i \<and> i < len \<and> p (xs ! i) \<and> (\<forall>j. a \<le> j \<and> j < i \<longrightarrow> \<not> p (xs ! j)))"
  using assms
proof (induction "len - a" arbitrary: a)
  case (Suc d)
  have a: "a < len" using Suc.hyps(2) by simp
  have u: "[a..<len] = a # [Suc a..<len]" by (rule upt_conv_Cons [OF a])
  have g: "arr_get xs a = Done (xs ! a)" using a Suc.prems(1) by simp
  show ?case
  proof (cases "p (xs ! a)")
    case True
    then show ?thesis using a by (intro exI [of _ "Some a"]) (auto simp: u g)
  next
    case False
    obtain f where f: "find_slot p [Suc a..<len] xs = Done f"
      "case f of None \<Rightarrow> \<forall>i. Suc a \<le> i \<and> i < len \<longrightarrow> \<not> p (xs ! i) | Some i \<Rightarrow> Suc a \<le> i \<and> i < len \<and> p (xs ! i) \<and> (\<forall>j. Suc a \<le> j \<and> j < i \<longrightarrow> \<not> p (xs ! j))"
    proof -
      have "d = len - Suc a" "Suc a \<le> len" using Suc.hyps(2) a by simp_all
      then show ?thesis using that Suc.hyps(1) [of "Suc a"] Suc.prems(1) by blast
    qed
    have "find_slot p [a..<len] xs = Done f" using False f(1) by (simp add: u g)
    moreover have split: "a \<le> i \<longleftrightarrow> i = a \<or> Suc a \<le> i" for i by auto
    ultimately show ?thesis using f(2) False a by (cases f) (auto simp: split)
  qed
qed auto

text \<open>For the first \<open>len\<close> elements of the array.\<close>

lemma find_slot_view:
  assumes "va_len vs \<le> length (va_free vs)"
  obtains "find_slot p [0..<va_len vs] (va_free vs) = Done None" "\<forall>r \<in> set (take (va_len vs) (va_free vs)). \<not> p r"
  | xs r ys where "find_slot p [0..<va_len vs] (va_free vs) = Done (Some (length xs))" "take (va_len vs) (va_free vs) = xs @ r # ys" "p r"
    "\<forall>x \<in> set xs. \<not> p x" "va_free vs ! length xs = r"
proof -
  let ?n = "va_len vs" and ?xs = "va_free vs"
  obtain f where f: "find_slot p [0..<?n] ?xs = Done f"
    "case f of None \<Rightarrow> \<forall>i. 0 \<le> i \<and> i < ?n \<longrightarrow> \<not> p (?xs ! i) | Some i \<Rightarrow> 0 \<le> i \<and> i < ?n \<and> p (?xs ! i) \<and> (\<forall>j. 0 \<le> j \<and> j < i \<longrightarrow> \<not> p (?xs ! j))"
    using find_slot_result [OF assms, of 0 p] by blast
  show ?thesis
  proof (cases f)
    case None
    then have "\<forall>r \<in> set (take ?n ?xs). \<not> p r" using f(2) assms by (auto simp: in_set_conv_nth)
    then show ?thesis using f(1) None that(1) by blast
  next
    case (Some i)
    let ?t = "take ?n ?xs"
    have i: "i < ?n" "p (?xs ! i)" "\<forall>j < i. \<not> p (?xs ! j)" using f(2) Some by auto
    have "?t = take i ?t @ ?t ! i # drop (Suc i) ?t" using i(1) assms by (intro id_take_nth_drop) simp
    then have "?t = take i ?xs @ ?xs ! i # drop (Suc i) ?t" using i(1) by (simp add: min_def)
    moreover have "length (take i ?xs) = i" using i(1) assms by simp
    moreover have "\<forall>x \<in> set (take i ?xs). \<not> p x" using i assms by (auto simp: in_set_conv_nth)
    ultimately show ?thesis using that(2) [of "take i ?xs" "?xs ! i"] f(1) Some i(2) by simp
  qed
qed

lemma shift_down_result:
  assumes "i \<le> n" "n < length xs"
  shows "shift_down [i..<n] xs = Done (take i xs @ take (n - i) (drop (Suc i) xs) @ drop n xs)"
  using assms
proof (induction "n - i" arbitrary: i xs)
  case 0
  then have "i = n" by simp
  then show ?case by simp
next
  case (Suc d)
  have i: "i < n" using Suc.hyps(2) by simp
  let ?ys = "xs[i := xs ! Suc i]"
  have "shift_down [i..<n] xs = shift_down [Suc i..<n] ?ys"
    using i Suc.prems by (simp add: upt_conv_Cons [OF i])
  also have "\<dots> = Done (take (Suc i) ?ys @ take (n - Suc i) (drop (Suc (Suc i)) ?ys) @ drop n ?ys)"
    by (rule Suc.hyps(1)) (use Suc.hyps(2) i Suc.prems in auto)
  also have "take (Suc i) ?ys = take i xs @ [xs ! Suc i]" using i Suc.prems by (simp add: take_Suc_conv_app_nth)
  also have "(take i xs @ [xs ! Suc i]) @ take (n - Suc i) (drop (Suc (Suc i)) ?ys) @ drop n ?ys = take i xs @ take (n - i) (drop (Suc i) xs) @ drop n xs"
  proof -
    have "drop (Suc i) xs = xs ! Suc i # drop (Suc (Suc i)) xs" using i Suc.prems by (simp add: Cons_nth_drop_Suc)
    moreover have "n - i = Suc (n - Suc i)" using i by simp
    ultimately show ?thesis using i by simp
  qed
  finally show ?case .
qed

lemma shift_up_result:
  assumes "i \<le> n" "n < length xs"
  shows "\<exists>z. shift_up (rev [Suc i..<Suc n]) xs = Done (take i xs @ z # take (n - i) (drop i xs) @ drop (Suc n) xs)"
  using assms
proof (induction "n - i" arbitrary: n xs)
  case 0
  then have "i = n" by simp
  then show ?case using 0 by (intro exI [of _ "xs ! n"]) (simp add: id_take_nth_drop [symmetric])
next
  case (Suc d)
  then obtain m where m: "n = Suc m" "i \<le> m" by (cases n) auto
  let ?ys = "xs[n := xs ! m]"
  have "rev [Suc i..<Suc n] = n # rev [Suc i..<Suc m]" using m by simp
  then have "shift_up (rev [Suc i..<Suc n]) xs = shift_up (rev [Suc i..<Suc m]) ?ys"
    using m Suc.prems by simp
  moreover obtain z where "shift_up (rev [Suc i..<Suc m]) ?ys = Done (take i ?ys @ z # take (m - i) (drop i ?ys) @ drop (Suc m) ?ys)"
  proof -
    have "d = m - i" "m < length ?ys" using Suc.hyps(2) m Suc.prems by simp_all
    then show ?thesis using that Suc.hyps(1) [of m ?ys] m(2) by blast
  qed
  moreover have "take i ?ys = take i xs" "take (m - i) (drop i ?ys) = take (m - i) (drop i xs)"
    using m by (simp_all add: drop_update_swap)
  moreover have "drop (Suc m) ?ys = xs ! m # drop (Suc n) xs" using m Suc.prems by (simp add: drop_update_swap Cons_nth_drop_Suc [symmetric])
  moreover have "take (n - i) (drop i xs) = take (m - i) (drop i xs) @ [xs ! m]"
    using m Suc.prems take_Suc_conv_app_nth [of "m - i" "drop i xs"] by (simp add: Suc_diff_le)
  ultimately show ?case by auto
qed

end
