(* ===== verification/Valloc_Inv.thy ===== *)
theory Valloc_Inv
  imports Valloc
begin

text \<open>
  Correctness of the address range allocator: bump pointer and free regions represent the set of pages in use. Pages of the
  window are numbered from its base; the regions are sorted, separated by used pages, and end below the bump pointer.
\<close>

section \<open>Pages\<close>

abbreviation VMAX :: nat where "VMAX \<equiv> 491520"

definition vpg :: "nat \<Rightarrow> u64" where
  "vpg k = VSPACE_BASE + of_nat k * VPAGE"

lemma unat_vpg: "k \<le> 2 * VMAX \<Longrightarrow> unat (vpg k) = 134217728 + 4096 * k"
  by (simp add: vpg_def VSPACE_BASE_def VPAGE_def unat_word_ariths unat_of_nat)

lemma vpg_add: "vpg k + of_nat n * VPAGE = vpg (k + n)"
  by (simp add: vpg_def algebra_simps)

lemma vpg_eq: "k \<le> 2 * VMAX \<Longrightarrow> j \<le> 2 * VMAX \<Longrightarrow> vpg k = vpg j \<longleftrightarrow> k = j"
  using unat_vpg [of k] unat_vpg [of j] by (metis add_left_cancel mult_cancel1 zero_neq_numeral)

lemma vpg_less: "k \<le> 2 * VMAX \<Longrightarrow> j \<le> 2 * VMAX \<Longrightarrow> vpg k < vpg j \<longleftrightarrow> k < j"
  using unat_vpg [of k] unat_vpg [of j] by (simp add: word_less_nat_alt)

lemma vpg_0: "vpg 0 = VSPACE_BASE" by (simp add: vpg_def)
lemma vpg_top: "vpg VMAX = VSPACE_TOP" by (simp add: vpg_def VSPACE_BASE_def VSPACE_TOP_def VPAGE_def)

lemma vpg_window: "k < VMAX \<Longrightarrow> \<not> vpg k < VSPACE_BASE \<and> \<not> vpg k \<ge> VSPACE_TOP"
  using vpg_less [of k 0] vpg_less [of k VMAX] unfolding vpg_0 vpg_top by (simp add: not_le)

lemma vpg_aligned: "vpg k AND (VPAGE - 1) = 0"
proof -
  have "VPAGE - 1 = mask 12" "vpg k = push_bit 12 (of_nat (32768 + k))"
    by (simp_all add: VPAGE_def mask_eq_exp_minus_1 vpg_def VSPACE_BASE_def push_bit_eq_mult algebra_simps)
  then show ?thesis by (simp add: take_bit_eq_mask [symmetric] take_bit_push_bit)
qed

section \<open>Regions\<close>

definition conc :: "nat \<times> nat \<Rightarrow> free_region" where
  "conc r = \<lparr>rg_base = vpg (fst r), rg_pages = of_nat (snd r)\<rparr>"

lemma conc_sel [simp]: "rg_base (conc (k, n)) = vpg k" "rg_pages (conc (k, n)) = of_nat n" "region_end (conc (k, n)) = vpg (k + n)"
  by (simp_all add: conc_def region_end_def vpg_add)

abbreviation before :: "nat \<times> nat \<Rightarrow> nat \<times> nat \<Rightarrow> bool" where
  "before a b \<equiv> fst a + snd a < fst b"

abbreviation upto :: "nat \<times> nat \<Rightarrow> nat \<times> nat \<Rightarrow> bool" where
  "upto a b \<equiv> fst a + snd a \<le> fst b"

definition rcov :: "(nat \<times> nat) list \<Rightarrow> nat set" where
  "rcov L = (\<Union>(k, n) \<in> set L. {k..<k + n})"

definition inside :: "nat \<Rightarrow> (nat \<times> nat) list \<Rightarrow> bool" where
  "inside B L \<longleftrightarrow> (\<forall>(k, n) \<in> set L. 0 < n \<and> k + n < B)"

definition view :: "vspace \<Rightarrow> (nat \<times> nat) list \<Rightarrow> bool" where
  "view vs L \<longleftrightarrow> length (va_free vs) = MAX_FREE \<and> va_len vs = length L \<and> length L \<le> MAX_FREE \<and> take (va_len vs) (va_free vs) = map conc L"

definition vs_inv :: "vspace \<Rightarrow> nat \<Rightarrow> (nat \<times> nat) list \<Rightarrow> bool" where
  "vs_inv vs B L \<longleftrightarrow> B \<le> VMAX \<and> va_bump vs = vpg B \<and> view vs L \<and> inside B L \<and> sorted_wrt before L"

text \<open>The set of pages in use.\<close>

definition vs_holds :: "vspace \<Rightarrow> nat set \<Rightarrow> bool" where
  "vs_holds vs U \<longleftrightarrow> (\<exists>B L. vs_inv vs B L \<and> U = {..<B} - rcov L)"

lemma viewD: "view vs L \<Longrightarrow> va_len vs \<le> length (va_free vs)" "view vs L \<Longrightarrow> take (va_len vs) (va_free vs) = map conc L"
  "view vs L \<Longrightarrow> length (va_free vs) = MAX_FREE" "view vs L \<Longrightarrow> va_len vs = length L" "view vs L \<Longrightarrow> length L \<le> MAX_FREE"
  by (auto simp: view_def)

lemma view_bump [simp]: "view (vs\<lparr>va_bump := c\<rparr>) L = view vs L"
  by (simp add: view_def)

lemma insideD: "inside B L \<Longrightarrow> (k, n) \<in> set L \<Longrightarrow> 0 < n \<and> k + n < B"
  by (auto simp: inside_def)

lemma rcov_simps [simp]: "rcov [] = {}" "rcov ((k, n) # L) = {k..<k + n} \<union> rcov L" "rcov (L @ M) = rcov L \<union> rcov M"
  by (auto simp: rcov_def)

lemma in_rcov: "i \<in> rcov L \<longleftrightarrow> (\<exists>k n. (k, n) \<in> set L \<and> k \<le> i \<and> i < k + n)"
  unfolding rcov_def by fastforce

text \<open>The page behind a region is in no region.\<close>

lemma region_gap:
  assumes "sorted_wrt before L" "(k, n) \<in> set L" "inside B L"
  shows "k + n \<notin> rcov L"
proof
  assume "k + n \<in> rcov L"
  then obtain j m where j: "(j, m) \<in> set L" "j \<le> k + n" "k + n < j + m" unfolding in_rcov by blast
  obtain xs ys where L: "L = xs @ (k, n) # ys" using assms(2) by (meson split_list)
  have "(j, m) = (k, n) \<or> (j, m) \<in> set xs \<or> (j, m) \<in> set ys" using j(1) L by auto
  moreover have "\<not> (j, m) \<in> set ys" using assms(1) j(2) unfolding L by (auto simp: sorted_wrt_append)
  moreover have "j + m < k" if "(j, m) \<in> set xs" using assms(1) that unfolding L by (auto simp: sorted_wrt_append)
  ultimately show False using j(2,3) by auto
qed

lemma sorted_disjoint: "sorted_wrt before (xs @ (k, n) # ys) \<Longrightarrow> {k..<k + n} \<inter> rcov (xs @ ys) = {}"
  by (fastforce simp: sorted_wrt_append in_rcov)

section \<open>Removal\<close>

lemma region_remove_view:
  assumes "take (va_len vs) (va_free vs) = xs @ r # ys" "va_len vs \<le> length (va_free vs)"
  shows "\<exists>fr. region_remove (length xs) vs = Done (vs\<lparr>va_free := fr, va_len := va_len vs - 1\<rparr>) \<and> length fr = length (va_free vs) \<and>
    take (va_len vs - 1) fr = xs @ ys"
proof -
  let ?n = "va_len vs - 1" and ?i = "length xs" and ?F = "va_free vs"
  have len: "va_len vs = Suc (length xs + length ys)" using assms(2) arg_cong [OF assms(1), of length] by (simp add: min_def split: if_splits)
  have n: "?i \<le> ?n" "?n < length ?F" using len assms(2) by simp_all
  define G where "G = take ?i ?F @ take (?n - ?i) (drop (Suc ?i) ?F) @ drop ?n ?F"
  have x: "take ?i ?F = xs" using arg_cong [OF assms(1), of "take ?i"] len by (simp add: min_def)
  have y: "take (?n - ?i) (drop (Suc ?i) ?F) = ys" using arg_cong [OF assms(1), of "drop (Suc ?i)"] len by (simp add: drop_take)
  have G: "G = (xs @ ys) @ drop ?n ?F" by (simp only: G_def x y append_assoc)
  have l: "length (xs @ ys) = ?n" using len by simp
  have lG: "length G = length ?F" unfolding G using l n by simp
  have "take ?n (G[?n := region_zero]) = take ?n G" by (rule take_update_cancel) simp
  also have "\<dots> = xs @ ys" unfolding G by (simp only: flip: l) simp
  finally have t: "take ?n (G[?n := region_zero]) = xs @ ys" .
  have sd: "shift_down [?i..<?n] ?F = Done G" unfolding G_def by (rule shift_down_result [OF n])
  have "region_remove ?i vs = Done (vs\<lparr>va_free := G[?n := region_zero], va_len := ?n\<rparr>)"
    using n(2) lG by (simp only: region_remove_def sd bind_run.simps arr_set_in)
  then show ?thesis using t lG by (intro exI [of _ "G[?n := region_zero]"]) simp
qed

lemma remove_view:
  assumes "view vs (xs @ r # ys)"
  shows "\<exists>vs'. region_remove (length xs) vs = Done vs' \<and> view vs' (xs @ ys) \<and> va_bump vs' = va_bump vs"
proof -
  have "take (va_len vs) (va_free vs) = map conc xs @ conc r # map conc ys" using viewD(2) [OF assms] by simp
  from region_remove_view [OF this viewD(1) [OF assms]] obtain fr where fr:
    "region_remove (length xs) vs = Done (vs\<lparr>va_free := fr, va_len := va_len vs - 1\<rparr>)" "length fr = length (va_free vs)"
    "take (va_len vs - 1) fr = map conc xs @ map conc ys" by auto
  then show ?thesis using viewD(3-5) [OF assms] by (auto simp: view_def)
qed

text \<open>The search for a region.\<close>

lemma find_region:
  assumes "view vs L"
  obtains "find_slot p [0..<va_len vs] (va_free vs) = Done None" "\<forall>r \<in> set L. \<not> p (conc r)"
  | xs r ys where "find_slot p [0..<va_len vs] (va_free vs) = Done (Some (length xs))" "L = xs @ r # ys" "p (conc r)"
    "\<forall>x \<in> set xs. \<not> p (conc x)" "va_free vs ! length xs = conc r" "length xs < length (va_free vs)"
proof (rule find_slot_view [OF viewD(1) [OF assms], of p])
  assume "find_slot p [0..<va_len vs] (va_free vs) = Done None" "\<forall>r \<in> set (take (va_len vs) (va_free vs)). \<not> p r"
  then show thesis using that(1) viewD(2) [OF assms] by simp
next
  fix xs r ys
  assume a: "find_slot p [0..<va_len vs] (va_free vs) = Done (Some (length xs))" "take (va_len vs) (va_free vs) = xs @ r # ys" "p r"
    "\<forall>x \<in> set xs. \<not> p x" "va_free vs ! length xs = r"
  have "map conc L = xs @ r # ys" using a(2) viewD(2) [OF assms] by simp
  then obtain us v ws where u: "L = us @ v # ws" "xs = map conc us" "r = conc v" "ys = map conc ws"
    unfolding map_eq_append_conv map_eq_Cons_conv by auto
  have "length us < length (va_free vs)" using viewD(1,4) [OF assms] u(1) by simp
  then show thesis using that(2) [of us v ws] a u by simp
qed

section \<open>Allocation\<close>

definition has_vrun :: "nat set \<Rightarrow> nat \<Rightarrow> bool" where
  "has_vrun U n \<longleftrightarrow> (\<exists>k. k + n \<le> VMAX \<and> {k..<k + n} \<inter> U = {})"

lemma valloc_alloc_holds:
  assumes "vs_holds vs U" "0 < n" "n \<le> VMAX"
  shows "\<exists>res vs'. valloc_alloc (of_nat n) vs = Done (res, vs') \<and>
    (if has_vrun U n then \<exists>k. k + n \<le> VMAX \<and> {k..<k + n} \<inter> U = {} \<and> res = Some (vpg k) \<and> vs_holds vs' (U \<union> {k..<k + n})
     else res = None \<and> vs' = vs)"
proof -
  obtain B L where inv: "vs_inv vs B L" and U: "U = {..<B} - rcov L" using assms(1) unfolding vs_holds_def by blast
  have B: "B \<le> VMAX" "va_bump vs = vpg B" and v: "view vs L" and ins: "inside B L" and srt: "sorted_wrt before L"
    using inv by (auto simp: vs_inv_def)
  have u: "unat (of_nat m :: u64) = m" if "m \<le> VMAX" for m using that by (simp add: unat_of_nat)
  have n0: "(of_nat n :: u64) \<noteq> 0" using u [OF assms(3)] assms(2) by (metis unat_0 less_numeral_extra(3))
  have bnd: "m \<le> VMAX" if "(k, m) \<in> set L" for k m using insideD [OF ins that] B(1) by simp
  have fits: "rg_pages (conc (k, m)) \<ge> (of_nat n :: u64) \<longleftrightarrow> n \<le> m" if "(k, m) \<in> set L" for k m
    using u [OF assms(3)] u [OF bnd [OF that]] by (simp add: word_le_nat_alt)
  show ?thesis
  proof (rule find_region [OF v, of "\<lambda>r. rg_pages r \<ge> of_nat n"])
    assume f: "find_slot (\<lambda>r. rg_pages r \<ge> of_nat n) [0..<va_len vs] (va_free vs) = Done None" and no: "\<forall>r \<in> set L. \<not> rg_pages (conc r) \<ge> of_nat n"
    have small: "m < n" if "(k, m) \<in> set L" for k m using no fits [OF that] that by fastforce
    have e: "va_bump vs + of_nat n * VPAGE = vpg (B + n)" by (simp add: B(2) vpg_add)
    have top: "vpg (B + n) > VSPACE_TOP \<longleftrightarrow> VMAX < B + n" using vpg_less [of VMAX "B + n"] B(1) assms(3) by (simp add: vpg_top)
    show ?thesis
    proof (cases "B + n \<le> VMAX")
      case True
      have "vs_inv (vs\<lparr>va_bump := vpg (B + n)\<rparr>) (B + n) L"
        using True v ins srt by (auto simp: vs_inv_def view_def inside_def)
      moreover have "{..<B + n} - rcov L = U \<union> {B..<B + n}" using insideD [OF ins] unfolding U by (fastforce simp: in_rcov)
      ultimately have "vs_holds (vs\<lparr>va_bump := vpg (B + n)\<rparr>) (U \<union> {B..<B + n})" unfolding vs_holds_def by metis
      moreover have "{B..<B + n} \<inter> U = {}" unfolding U by auto
      moreover have "valloc_alloc (of_nat n) vs = Done (Some (vpg B), vs\<lparr>va_bump := vpg (B + n)\<rparr>)"
        using n0 f e top True by (simp add: valloc_alloc_def B(2) Let_def vpg_add)
      ultimately show ?thesis using True unfolding has_vrun_def by auto
    next
      case False
      have "\<not> has_vrun U n"
      proof
        assume "has_vrun U n"
        then obtain k where k: "k + n \<le> VMAX" "{k..<k + n} \<inter> U = {}" unfolding has_vrun_def by blast
        have "k < B" using k(1) False by simp
        moreover have "k \<notin> U" using k(2) assms(2) by (auto simp: disjoint_iff)
        ultimately have "k \<in> rcov L" unfolding U by simp
        then obtain j m where j: "(j, m) \<in> set L" "j \<le> k" "k < j + m" unfolding in_rcov by blast
        have "j + m \<in> U" using region_gap [OF srt j(1) ins] insideD [OF ins j(1)] unfolding U by simp
        then have "\<not> j + m < k + n" using k(2) j(3) by (auto simp: disjoint_iff)
        then show False using small [OF j(1)] j(2) by simp
      qed
      moreover have "valloc_alloc (of_nat n) vs = Done (None, vs)"
        using n0 f e top False by (simp add: valloc_alloc_def B(2) Let_def vpg_add)
      ultimately show ?thesis by auto
    qed
  next
    fix xs r ys
    assume f: "find_slot (\<lambda>r. rg_pages r \<ge> of_nat n) [0..<va_len vs] (va_free vs) = Done (Some (length xs))" and L: "L = xs @ r # ys"
      and p: "rg_pages (conc r) \<ge> of_nat n" and at: "va_free vs ! length xs = conc r" "length xs < length (va_free vs)"
    obtain k m where r: "r = (k, m)" by (cases r)
    have km: "(k, m) \<in> set L" by (simp add: L r)
    have nm: "n \<le> m" using p fits [OF km] r by simp
    have kmB: "k + m < B" using insideD [OF ins km] by simp
    have diff: "(of_nat m :: u64) - of_nat n = of_nat (m - n)" using nm by (simp add: of_nat_diff)
    have sub: "{k..<k + n} \<subseteq> rcov L" using nm unfolding L r by auto
    then have out: "{k..<k + n} \<inter> U = {}" unfolding U by blast
    have run: "has_vrun U n" unfolding has_vrun_def using out kmB nm B(1) by (intro exI [of _ k]) simp
    have "\<exists>vs'. valloc_alloc (of_nat n) vs = Done (Some (vpg k), vs') \<and> vs_holds vs' (U \<union> {k..<k + n})"
    proof (cases "m = n")
      case True
      obtain vs' where vs': "region_remove (length xs) vs = Done vs'" "view vs' (xs @ ys)" "va_bump vs' = va_bump vs"
        using remove_view [of vs xs r ys] v L by blast
      have "vs_inv vs' B (xs @ ys)" using vs'(2,3) B ins srt unfolding L by (auto simp: vs_inv_def inside_def sorted_wrt_append)
      moreover have "{..<B} - rcov (xs @ ys) = U \<union> {k..<k + n}"
        using sorted_disjoint [of xs k m ys] srt True kmB unfolding U L r by auto
      ultimately have "vs_holds vs' (U \<union> {k..<k + n})" unfolding vs_holds_def by metis
      moreover have "valloc_alloc (of_nat n) vs = Done (Some (vpg k), vs')"
        using n0 f at vs'(1) True by (simp add: valloc_alloc_def r)
      ultimately show ?thesis by blast
    next
      case False
      let ?fr = "(va_free vs)[length xs := conc (k + n, m - n)]"
      let ?L = "xs @ (k + n, m - n) # ys"
      have "take (va_len vs) ?fr = (map conc L)[length xs := conc (k + n, m - n)]" using viewD(2) [OF v] by (simp add: take_update_swap)
      also have "\<dots> = map conc ?L" unfolding L by (simp add: list_update_append)
      finally have "view (vs\<lparr>va_free := ?fr\<rparr>) ?L" using v unfolding view_def L by simp
      then have "vs_inv (vs\<lparr>va_free := ?fr\<rparr>) B ?L"
        using B ins srt nm False unfolding L r by (auto simp: vs_inv_def inside_def sorted_wrt_append)
      moreover have "{..<B} - rcov ?L = U \<union> {k..<k + n}"
      proof -
        have "{k..<k + n} \<inter> (rcov xs \<union> rcov ys) = {}" using sorted_disjoint [of xs k m ys] srt nm unfolding L r by (fastforce simp: disjoint_iff)
        moreover have "{k..<k + m} = {k..<k + n} \<union> {k + n..<k + n + (m - n)}" "{k..<k + n} \<inter> {k + n..<k + n + (m - n)} = {}" "{k..<k + n} \<subseteq> {..<B}"
          using nm kmB by auto
        ultimately show ?thesis unfolding U L r rcov_simps by blast
      qed
      ultimately have "vs_holds (vs\<lparr>va_free := ?fr\<rparr>) (U \<union> {k..<k + n})" unfolding vs_holds_def by metis
      moreover have "(of_nat (m - n) :: u64) \<noteq> 0"
      proof
        assume "(of_nat (m - n) :: u64) = 0"
        then have "m - n = 0" using u [of "m - n"] bnd [OF km] by (metis diff_le_self le_trans unat_0)
        then show False using nm False by simp
      qed
      then have "(of_nat m :: u64) \<noteq> of_nat n" unfolding diff [symmetric] by simp
      then have "valloc_alloc (of_nat n) vs = Done (Some (vpg k), vs\<lparr>va_free := ?fr\<rparr>)"
        using n0 f at by (simp add: valloc_alloc_def r Let_def diff vpg_add conc_def)
      ultimately show ?thesis by blast
    qed
    then show ?thesis using run out kmB nm B(1) by (auto intro!: exI [of _ k])
  qed
qed

section \<open>Release\<close>

text \<open>Merging of neighbours, for regions that may touch.\<close>

lemma coalesce_view:
  assumes "view vs (P @ (k, n) # R)" "sorted_wrt before (P @ [(k, n)])" "sorted_wrt upto (P @ (k, n) # R)" "inside B (P @ (k, n) # R)" "B \<le> VMAX"
  shows "\<exists>vs' L'. coalesce_from (length P) vs = Done vs' \<and> view vs' L' \<and> sorted_wrt before L' \<and> inside B L' \<and>
    rcov L' = rcov (P @ (k, n) # R) \<and> va_bump vs' = va_bump vs"
  using assms
proof (induction R arbitrary: P k n vs)
  case Nil
  have "va_len vs = Suc (length P)" using viewD(4) [OF Nil.prems(1)] by simp
  then have "coalesce_from (length P) vs = Done vs" by (simp add: coalesce_from.simps)
  then show ?case using Nil.prems by blast
next
  case (Cons r R)
  obtain j m where r: "r = (j, m)" by (cases r)
  let ?p = "length P" and ?F = "va_free vs"
  note v = viewD [OF Cons.prems(1)]
  have t: "take (va_len vs) ?F = map conc P @ conc (k, n) # conc (j, m) # map conc R" using v(2) r by simp
  have ln: "Suc ?p < va_len vs" using v(4) by simp
  have a: "?F ! ?p = conc (k, n)" "?F ! Suc ?p = conc (j, m)"
    using arg_cong [OF t, of "\<lambda>xs. xs ! ?p"] arg_cong [OF t, of "\<lambda>xs. xs ! Suc ?p"] ln by (simp_all add: nth_append)
  have lF: "Suc ?p < length ?F" using ln v(1) by simp
  have mB: "k + n < B" "j + m < B" "0 < n" "0 < m" using insideD [OF Cons.prems(4), of k n] insideD [OF Cons.prems(4), of j m] r by auto
  have Bv: "k + n \<le> j" using Cons.prems(3) r by (auto simp: sorted_wrt_append)
  show ?case
  proof (cases "region_end (conc (k, n)) = rg_base (conc (j, m))")
    case True
    show ?thesis
    proof (cases "k + n = j")
      case touch: True
      let ?fr = "?F[?p := conc (k, n + m)]"
      have "take (va_len vs) ?fr = map conc (P @ (k, n + m) # (j, m) # R)" using t by (simp add: take_update_swap list_update_append)
      then have v1: "view (vs\<lparr>va_free := ?fr\<rparr>) ((P @ [(k, n + m)]) @ (j, m) # R)" using Cons.prems(1) r by (simp add: view_def)
      obtain vs1 where vs1: "region_remove (length (P @ [(k, n + m)])) (vs\<lparr>va_free := ?fr\<rparr>) = Done vs1" "view vs1 ((P @ [(k, n + m)]) @ R)"
        "va_bump vs1 = va_bump vs" using remove_view [OF v1] by auto
      have v2: "view vs1 (P @ (k, n + m) # R)" using vs1(2) by simp
      have s1: "sorted_wrt before (P @ [(k, n + m)])" using Cons.prems(2) by (auto simp: sorted_wrt_append)
      have s2: "sorted_wrt upto (P @ (k, n + m) # R)" using Cons.prems(3) touch unfolding r by (auto simp: sorted_wrt_append)
      have i2: "inside B (P @ (k, n + m) # R)" using Cons.prems(4) touch unfolding r by (auto simp: inside_def)
      have rc: "rcov (P @ (k, n + m) # R) = rcov (P @ (k, n) # r # R)" using touch unfolding r by auto
      have up: "conc (k, n)\<lparr>rg_pages := of_nat n + of_nat m\<rparr> = conc (k, n + m)" by (simp add: conc_def)
      have "coalesce_from ?p vs = coalesce_from ?p vs1"
        unfolding coalesce_from.simps [of ?p vs] using ln lF a True vs1(1) by (simp add: up)
      then show ?thesis using Cons.IH [OF v2 s1 s2 i2 Cons.prems(5)] vs1(3) rc by auto
    next
      case False
      then have "vpg (k + n) \<noteq> vpg j" using vpg_eq [of "k + n" j] mB Cons.prems(5) by simp
      then show ?thesis using True by simp
    qed
  next
    case False
    then have lt: "k + n < j" using Bv by (cases "k + n = j") auto
    have s1: "sorted_wrt before ((P @ [(k, n)]) @ [(j, m)])" using Cons.prems(2) lt mB(3) by (fastforce simp: sorted_wrt_append)
    have "coalesce_from ?p vs = coalesce_from (Suc ?p) vs"
      unfolding coalesce_from.simps [of ?p vs] using ln lF a False by simp
    moreover have "\<exists>vs' L'. coalesce_from (length (P @ [(k, n)])) vs = Done vs' \<and> view vs' L' \<and> sorted_wrt before L' \<and> inside B L' \<and>
      rcov L' = rcov ((P @ [(k, n)]) @ (j, m) # R) \<and> va_bump vs' = va_bump vs"
      by (rule Cons.IH [OF _ s1]) (use Cons.prems r in simp_all)
    ultimately show ?thesis using r by simp
  qed
qed

text \<open>The bump pointer swallows at most one region, the last.\<close>

lemma retract_holds:
  assumes v: "view vs L" and L: "sorted_wrt before L" "\<forall>(k, n) \<in> set L. 0 < n \<and> k + n \<le> B" and B: "B \<le> VMAX" "va_bump vs = vpg B"
  shows "\<exists>vs'. retract vs = Done vs' \<and> vs_holds vs' ({..<B} - rcov L)"
proof (rule find_region [OF v, of "\<lambda>r. region_end r = va_bump vs"])
  assume f: "find_slot (\<lambda>r. region_end r = va_bump vs) [0..<va_len vs] (va_free vs) = Done None"
    and no: "\<forall>r \<in> set L. region_end (conc r) \<noteq> va_bump vs"
  have "inside B L" unfolding inside_def using L(2) no B(2) by (fastforce simp: le_less)
  then have "vs_inv vs B L" using v L(1) B by (simp add: vs_inv_def)
  moreover have "retract vs = Done vs" using f by (simp add: retract.simps)
  ultimately show ?thesis unfolding vs_holds_def by blast
next
  fix xs r ys
  assume f: "find_slot (\<lambda>r. region_end r = va_bump vs) [0..<va_len vs] (va_free vs) = Done (Some (length xs))" and sp: "L = xs @ r # ys"
    and p: "region_end (conc r) = va_bump vs" and at: "va_free vs ! length xs = conc r" "length xs < length (va_free vs)"
  obtain k n where r: "r = (k, n)" by (cases r)
  have kn: "0 < n" "k + n \<le> B" using L(2) by (auto simp: sp r)
  then have e: "k + n = B" using p vpg_eq [of "k + n" B] B by (simp add: r)
  have "ys = []"
  proof (cases ys)
    case (Cons a zs)
    then obtain j m where a: "a = (j, m)" by (cases a)
    have "k + n < j" using L(1) unfolding sp r Cons a by (auto simp: sorted_wrt_append)
    moreover have "j + m \<le> B" using L(2) by (auto simp: sp Cons a)
    ultimately show ?thesis using e by simp
  qed
  have v1: "view (vs\<lparr>va_bump := rg_base (conc r)\<rparr>) (xs @ r # ys)" using v by (simp add: sp)
  obtain vs1 where vs1: "region_remove (length xs) (vs\<lparr>va_bump := rg_base (conc r)\<rparr>) = Done vs1" "view vs1 xs" "va_bump vs1 = vpg k"
    using remove_view [OF v1] \<open>ys = []\<close> by (auto simp: r)
  have in1: "inside k xs" unfolding inside_def using L unfolding sp r by (fastforce simp: sorted_wrt_append)
  have "vs_inv vs1 k xs" using vs1 in1 L(1) e B(1) unfolding sp vs_inv_def by (auto simp: sorted_wrt_append)
  moreover have "{..<B} - rcov L = {..<k} - rcov xs" using e \<open>ys = []\<close> unfolding sp r by auto
  ultimately have h: "vs_holds vs1 ({..<B} - rcov L)" unfolding vs_holds_def by metis
  have "retract vs1 = Done vs1"
  proof (rule find_region [OF vs1(2), of "\<lambda>r. region_end r = va_bump vs1"])
    fix us x ws
    assume "xs = us @ x # ws" "region_end (conc x) = va_bump vs1"
    moreover obtain j m where "x = (j, m)" by (cases x)
    ultimately have "j + m < k" "vpg (j + m) = vpg k" using in1 vs1(3) by (auto simp: inside_def)
    then show ?thesis using vpg_eq [of "j + m" k] e B(1) by simp
  qed (simp add: retract.simps)
  then have "retract vs = Done vs1" using f at vs1(1) by (simp add: retract.simps [of vs])
  then show ?thesis using h by blast
qed

lemma insert_view:
  assumes v: "view vs (xs @ ys)" and n: "length (xs @ ys) < MAX_FREE"
  shows "\<exists>fr. shift_up (rev [Suc (length xs)..<Suc (va_len vs)]) (va_free vs) = Done fr \<and> length xs < length fr \<and>
    view (vs\<lparr>va_free := fr[length xs := conc r], va_len := va_len vs + 1\<rparr>) (xs @ r # ys)"
proof -
  let ?F = "va_free vs" and ?i = "length xs" and ?n = "va_len vs"
  have i: "?i \<le> ?n" "?n < length ?F" "?n = length (xs @ ys)" using viewD [OF v] n by simp_all
  obtain z where z: "shift_up (rev [Suc ?i..<Suc ?n]) ?F = Done (take ?i ?F @ z # take (?n - ?i) (drop ?i ?F) @ drop (Suc ?n) ?F)"
    using shift_up_result [OF i(1,2)] by blast
  have t: "take ?n ?F = map conc (xs @ ys)" by (rule viewD(2) [OF v])
  have x: "take ?i ?F = map conc xs" using arg_cong [OF t, of "take ?i"] i(1) by (simp add: min_def split: if_splits)
  have y: "take (?n - ?i) (drop ?i ?F) = map conc ys" using arg_cong [OF t, of "drop ?i"] by (simp add: drop_take)
  let ?fr = "map conc xs @ z # map conc ys @ drop (Suc ?n) ?F"
  have u: "?fr[?i := conc r] = map conc (xs @ r # ys) @ drop (Suc ?n) ?F" using list_update_append [of "map conc xs" _ ?i] by simp
  have l: "length (map conc (xs @ r # ys)) = Suc ?n" using i(3) by simp
  have "take (Suc ?n) (?fr[?i := conc r]) = map conc (xs @ r # ys)" unfolding u by (simp only: flip: l) simp
  then have "view (vs\<lparr>va_free := ?fr[?i := conc r], va_len := ?n + 1\<rparr>) (xs @ r # ys)"
    using viewD(3) [OF v] i n by (simp add: view_def)
  then show ?thesis using z unfolding x y by (intro exI [of _ ?fr]) simp
qed

lemma valloc_free_holds:
  assumes "vs_holds vs U" "0 < n" "{k..<k + n} \<subseteq> U"
  shows "\<exists>vs'. valloc_free (vpg k) (of_nat n) vs = Done vs' \<and>
    (if va_len vs = MAX_FREE \<and> va_bump vs \<noteq> vpg (k + n) then vs' = vs else vs_holds vs' (U - {k..<k + n}))"
proof -
  obtain B L where inv: "vs_inv vs B L" and U: "U = {..<B} - rcov L" using assms(1) unfolding vs_holds_def by blast
  have B: "B \<le> VMAX" "va_bump vs = vpg B" and v: "view vs L" and ins: "inside B L" and srt: "sorted_wrt before L"
    using inv by (auto simp: vs_inv_def)
  have "k + n - 1 \<in> {k..<k + n}" using assms(2) by simp
  then have "k + n - 1 < B" using assms(3) unfolding U by blast
  then have kn: "k + n \<le> B" using assms(2) by simp
  have u: "unat (of_nat n :: u64) = n" using kn B(1) by (simp add: unat_of_nat)
  have n0: "(of_nat n :: u64) \<noteq> 0" using u assms(2) by (metis unat_0 less_numeral_extra(3))
  have win: "\<not> vpg k < VSPACE_BASE" "\<not> vpg k \<ge> VSPACE_TOP" using vpg_window [of k] kn assms(2) B(1) by auto
  have side: "j + m \<le> k \<or> k + n \<le> j" if "(j, m) \<in> set L" for j m
  proof (rule ccontr)
    assume c: "\<not> ?thesis"
    have "max j k \<in> {k..<k + n}" using c assms(2) by auto
    then have "max j k \<notin> rcov L" using assms(3) unfolding U by blast
    moreover have "j \<le> max j k" "max j k < j + m" using c insideD [OF ins that] by auto
    ultimately show False using that unfolding in_rcov by blast
  qed
  have e: "vpg k + of_nat n * VPAGE = va_bump vs \<longleftrightarrow> k + n = B" using vpg_eq [of "k + n" B] kn B by (simp add: vpg_add)
  show ?thesis
  proof (cases "k + n = B")
    case True
    have c: "valloc_free (vpg k) (of_nat n) vs = retract (vs\<lparr>va_bump := vpg k\<rparr>)"
      using n0 win e True by (simp add: valloc_free_def vpg_aligned)
    have "\<forall>(j, m) \<in> set L. 0 < m \<and> j + m \<le> k" using side insideD [OF ins] True by fastforce
    moreover have "view (vs\<lparr>va_bump := vpg k\<rparr>) L" using v by simp
    moreover have "{..<k} - rcov L = U - {k..<k + n}" using True unfolding U by auto
    ultimately show ?thesis unfolding c using retract_holds [of "vs\<lparr>va_bump := vpg k\<rparr>" L k] srt kn B True by auto
  next
    case False
    then have knB: "k + n < B" using kn by simp
    show ?thesis
    proof (cases "va_len vs \<ge> MAX_FREE")
      case True
      then have "va_len vs = MAX_FREE" using viewD(4,5) [OF v] by simp
      moreover have "valloc_free (vpg k) (of_nat n) vs = Done vs" using n0 win e False True by (simp add: valloc_free_def vpg_aligned)
      moreover have "va_bump vs \<noteq> vpg (k + n)" using e False by (simp add: vpg_add)
      ultimately show ?thesis by simp
    next
      case room: False
      have gt: "rg_base (conc (j, m)) > vpg k \<longleftrightarrow> k < j" if "(j, m) \<in> set L" for j m
        using vpg_less [of k j] insideD [OF ins that] kn B(1) by simp
      have "\<exists>f xs ys. find_slot (\<lambda>r. rg_base r > vpg k) [0..<va_len vs] (va_free vs) = Done f \<and> (case f of None \<Rightarrow> va_len vs | Some i \<Rightarrow> i) = length xs \<and>
        L = xs @ ys \<and> (\<forall>(j, m) \<in> set xs. j \<le> k) \<and> (\<forall>(j, m) \<in> set ys. k < j)"
      proof (rule find_region [OF v, of "\<lambda>r. rg_base r > vpg k"])
        assume none: "find_slot (\<lambda>r. rg_base r > vpg k) [0..<va_len vs] (va_free vs) = Done None" "\<forall>r \<in> set L. \<not> rg_base (conc r) > vpg k"
        have "j \<le> k" if "(j, m) \<in> set L" for j m using gt [OF that] none(2) that by (meson not_less)
        then have "\<forall>(j, m) \<in> set L. j \<le> k" by blast
        moreover note none(1)
        ultimately show ?thesis using viewD(4) [OF v] by (intro exI [of _ None] exI [of _ L] exI [of _ "[]"]) simp
      next
        fix xs r ys
        assume a: "find_slot (\<lambda>r. rg_base r > vpg k) [0..<va_len vs] (va_free vs) = Done (Some (length xs))" "L = xs @ r # ys"
          "rg_base (conc r) > vpg k" "\<forall>x \<in> set xs. \<not> rg_base (conc x) > vpg k"
        obtain j m where r: "r = (j, m)" by (cases r)
        have "k < j" using gt [of j m] a(2,3) r by simp
        moreover have "j < i" if "(i, q) \<in> set ys" for i q using srt that unfolding a(2) r by (fastforce simp: sorted_wrt_append)
        ultimately have "\<forall>(i, q) \<in> set (r # ys). k < i" using r by fastforce
        moreover have "i \<le> k" if "(i, q) \<in> set xs" for i q
        proof -
          have "(i, q) \<in> set L" "\<not> rg_base (conc (i, q)) > vpg k" using that a(4) by (auto simp: a(2))
          then show ?thesis using gt [of i q] by simp
        qed
        then have "\<forall>(i, q) \<in> set xs. i \<le> k" by blast
        ultimately show ?thesis by (intro exI [of _ "Some (length xs)"] exI [of _ xs] exI [of _ "r # ys"]) (simp add: a(1,2))
      qed
      then obtain f xs ys where f: "find_slot (\<lambda>r. rg_base r > vpg k) [0..<va_len vs] (va_free vs) = Done f"
        "(case f of None \<Rightarrow> va_len vs | Some i \<Rightarrow> i) = length xs" and L: "L = xs @ ys" and le: "\<forall>(j, m) \<in> set xs. j \<le> k" and ge: "\<forall>(j, m) \<in> set ys. k < j"
        by blast
      have le': "j + m \<le> k" if "(j, m) \<in> set xs" for j m
      proof -
        have "(j, m) \<in> set L" "j \<le> k" using that le by (auto simp: L)
        then show ?thesis using side [of j m] assms(2) by auto
      qed
      have ge': "k + n \<le> j" if "(j, m) \<in> set ys" for j m
      proof -
        have "(j, m) \<in> set L" "k < j" using that ge by (auto simp: L)
        then show ?thesis using side [of j m] by auto
      qed
      have "length (xs @ ys) < MAX_FREE" using room viewD(4) [OF v] L by simp
      from insert_view [OF v [unfolded L] this, of "(k, n)"] obtain fr where fr:
        "shift_up (rev [Suc (length xs)..<Suc (va_len vs)]) (va_free vs) = Done fr" "length xs < length fr"
        "view (vs\<lparr>va_free := fr[length xs := conc (k, n)], va_len := va_len vs + 1\<rparr>) (xs @ (k, n) # ys)" by blast
      let ?vs = "vs\<lparr>va_free := fr[length xs := conc (k, n)], va_len := va_len vs + 1\<rparr>"
      have call: "valloc_free (vpg k) (of_nat n) vs = coalesce_from 0 ?vs"
        using n0 win e False room f fr(1,2) by (simp add: valloc_free_def vpg_aligned conc_def del: upt_Suc)
      have s1: "sorted_wrt upto (xs @ (k, n) # ys)"
      proof -
        have w: "sorted_wrt before xs" "sorted_wrt before ys" "\<forall>x \<in> set xs. \<forall>y \<in> set ys. before x y" using srt unfolding L by (simp_all add: sorted_wrt_append)
        have "sorted_wrt upto xs" "sorted_wrt upto ys" using w(1,2) by (auto elim!: sorted_wrt_mono_rel [rotated])
        moreover have "\<forall>x \<in> set xs. upto x (k, n)" "\<forall>y \<in> set ys. upto (k, n) y" using le' ge' by auto
        moreover have "\<forall>x \<in> set xs. \<forall>y \<in> set ys. upto x y" using w(3) by (meson less_imp_le)
        ultimately show ?thesis by (simp add: sorted_wrt_append)
      qed
      have i1: "inside B (xs @ (k, n) # ys)" using ins knB assms(2) unfolding L by (auto simp: inside_def)
      obtain h t where ht: "xs @ (k, n) # ys = h # t" by (cases "xs @ (k, n) # ys") auto
      obtain hk hn where h: "h = (hk, hn)" by (cases h)
      have "\<exists>vs' L'. coalesce_from 0 ?vs = Done vs' \<and> view vs' L' \<and> sorted_wrt before L' \<and> inside B L' \<and>
        rcov L' = rcov (xs @ (k, n) # ys) \<and> va_bump vs' = va_bump ?vs"
        using coalesce_view [of ?vs "[]" hk hn t B] fr(3) s1 i1 B(1) unfolding ht h by simp
      then obtain vs' L' where c: "coalesce_from 0 ?vs = Done vs'" "view vs' L'" "sorted_wrt before L'" "inside B L'"
        "rcov L' = rcov (xs @ (k, n) # ys)" "va_bump vs' = vpg B" using B(2) by auto
      have "vs_inv vs' B L'" using c B(1) by (simp add: vs_inv_def)
      moreover have "{..<B} - rcov L' = U - {k..<k + n}" unfolding U L c(5) by auto
      ultimately have "vs_holds vs' (U - {k..<k + n})" unfolding vs_holds_def by metis
      then show ?thesis using call c(1) room by auto
    qed
  qed
qed

section \<open>Queries\<close>

lemma valloc_contains_holds:
  assumes "vs_holds vs U" "0 < n" "k < VMAX" "n \<le> VMAX"
  shows "valloc_contains (vpg k) (of_nat n) vs = Done ({k..<k + n} \<subseteq> U)"
proof -
  obtain B L where inv: "vs_inv vs B L" and U: "U = {..<B} - rcov L" using assms(1) unfolding vs_holds_def by blast
  have B: "B \<le> VMAX" "va_bump vs = vpg B" and v: "view vs L" and ins: "inside B L" using inv by (auto simp: vs_inv_def)
  have win: "\<not> vpg k < VSPACE_BASE" "\<not> vpg k \<ge> VSPACE_TOP" using vpg_window [OF assms(3)] by auto
  have e: "vpg k + of_nat n * VPAGE = vpg (k + n)" by (rule vpg_add)
  have past: "vpg (k + n) > va_bump vs \<longleftrightarrow> B < k + n" using vpg_less [of B "k + n"] B assms(3,4) by simp
  have meet: "rg_base (conc (j, m)) < vpg (k + n) \<and> region_end (conc (j, m)) > vpg k \<longleftrightarrow> j < k + n \<and> k < j + m" if "(j, m) \<in> set L" for j m
    using vpg_less [of j "k + n"] vpg_less [of k "j + m"] insideD [OF ins that] B(1) assms(3,4) by simp
  show ?thesis
  proof (cases "B < k + n")
    case True
    have "k + n - 1 \<in> {k..<k + n}" using assms(2) by simp
    moreover have "\<not> k + n - 1 < B" using True by simp
    then have "k + n - 1 \<notin> U" unfolding U by blast
    ultimately have "\<not> {k..<k + n} \<subseteq> U" by blast
    then show ?thesis using True past win by (simp add: valloc_contains_def Let_def e)
  next
    case False
    show ?thesis
    proof (rule find_region [OF v, of "\<lambda>r. rg_base r < vpg (k + n) \<and> region_end r > vpg k"])
      assume f: "find_slot (\<lambda>r. rg_base r < vpg (k + n) \<and> region_end r > vpg k) [0..<va_len vs] (va_free vs) = Done None"
        and no: "\<forall>r \<in> set L. \<not> (rg_base (conc r) < vpg (k + n) \<and> region_end (conc r) > vpg k)"
      have "i \<notin> rcov L" if "k \<le> i" "i < k + n" for i
      proof
        assume "i \<in> rcov L"
        then obtain j m where j: "(j, m) \<in> set L" "j \<le> i" "i < j + m" unfolding in_rcov by blast
        then have "j < k + n \<and> k < j + m" using that by simp
        then show False using no j(1) meet [OF j(1)] by blast
      qed
      then have "{k..<k + n} \<subseteq> U" using False unfolding U by auto
      then show ?thesis using f False past win by (simp add: valloc_contains_def Let_def e)
    next
      fix xs r ys
      assume f: "find_slot (\<lambda>r. rg_base r < vpg (k + n) \<and> region_end r > vpg k) [0..<va_len vs] (va_free vs) = Done (Some (length xs))"
        and L: "L = xs @ r # ys" and p: "rg_base (conc r) < vpg (k + n) \<and> region_end (conc r) > vpg k"
      obtain j m where r: "r = (j, m)" by (cases r)
      have j: "(j, m) \<in> set L" by (simp add: L r)
      have "j < k + n" "k < j + m" using p meet [OF j] unfolding r by blast+
      then have "max j k \<in> {k..<k + n}" "j \<le> max j k" "max j k < j + m" using assms(2) insideD [OF ins j] by auto
      moreover from this have "max j k \<in> rcov L" using j unfolding in_rcov by blast
      ultimately have "\<not> {k..<k + n} \<subseteq> U" unfolding U by blast
      then show ?thesis using f False past win by (simp add: valloc_contains_def Let_def e)
    qed
  qed
qed

lemma rcov_card:
  assumes "sorted_wrt before L" "inside B L"
  shows "finite (rcov L) \<and> card (rcov L) = sum_list (map snd L) \<and> rcov L \<subseteq> {..<B}"
  using assms
proof (induction L)
  case (Cons r L)
  obtain k n where r: "r = (k, n)" by (cases r)
  have "sorted_wrt before L" "inside B L" using Cons.prems by (simp_all add: inside_def)
  note ih = Cons.IH [OF this]
  have d: "{k..<k + n} \<inter> rcov L = {}" using sorted_disjoint [of "[]" k n L] Cons.prems(1) r by simp
  have "k + n < B" using insideD [OF Cons.prems(2), of k n] r by simp
  then show ?case using ih card_Un_disjoint [OF _ _ d] unfolding r by auto
qed simp

lemma valloc_used_holds:
  assumes "vs_holds vs U"
  shows "unat (valloc_used_pages vs) = card U"
proof -
  obtain B L where inv: "vs_inv vs B L" and U: "U = {..<B} - rcov L" using assms unfolding vs_holds_def by blast
  have B: "B \<le> VMAX" "va_bump vs = vpg B" and v: "view vs L" and ins: "inside B L" and srt: "sorted_wrt before L"
    using inv by (auto simp: vs_inv_def)
  note rc = rcov_card [OF srt ins]
  have s: "sum_list (map (rg_pages \<circ> conc) M) = of_nat (sum_list (map snd M))" for M by (induction M) (auto simp: conc_def)
  have le: "sum_list (map snd L) \<le> B" using rc card_mono [of "{..<B}" "rcov L"] by simp
  have c: "card U = B - sum_list (map snd L)" unfolding U using rc card_Diff_subset [of "rcov L" "{..<B}"] by simp
  have t: "(va_bump vs - VSPACE_BASE) div VPAGE = of_nat B"
  proof -
    have "va_bump vs - VSPACE_BASE = of_nat B * VPAGE" by (simp add: B(2) vpg_def)
    moreover have "unat (of_nat B * VPAGE) = 4096 * B" using B(1) by (simp add: VPAGE_def unat_word_ariths unat_of_nat)
    ultimately have "unat ((va_bump vs - VSPACE_BASE) div VPAGE) = unat (of_nat B :: u64)" using B(1) by (simp add: unat_div VPAGE_def unat_of_nat)
    then show ?thesis by (simp only: word_unat_eq_iff)
  qed
  have "(of_nat (sum_list (map snd L)) :: u64) \<le> of_nat B" using le B(1) by (simp add: word_le_nat_alt unat_of_nat)
  moreover have "(of_nat B :: u64) - of_nat (sum_list (map snd L)) = of_nat (B - sum_list (map snd L))" using le by (simp add: of_nat_diff)
  ultimately show ?thesis using c B(1) by (simp add: valloc_used_pages_def Let_def t viewD(2) [OF v] s unat_of_nat)
qed

section \<open>Properties\<close>

lemma vspace_new_holds: "vs_holds vspace_new {}"
  unfolding vs_holds_def
  by (intro exI [of _ 0] exI [of _ "[]"]) (simp add: vs_inv_def view_def vspace_new_def vpg_0 inside_def)

lemma valloc_reset_holds: "vs_holds (valloc_reset vs) {}"
  unfolding vs_holds_def
  by (intro exI [of _ 0] exI [of _ "[]"]) (simp add: vs_inv_def view_def valloc_reset_def vpg_0 inside_def)



text \<open>Releasing a run of used pages makes exactly that run unused: the region is inserted in order, merged with its neighbours, or given
  back to the bump pointer together with the region before it. The only exception is a full array of 64 regions: then a run
  that does not end at the bump pointer stays in use for ever.\<close>

theorem valloc_free_returns_run:
  assumes "vs_holds vs U" "0 < n" "{k..<k + n} \<subseteq> U"
  shows "\<exists>vs'. valloc_free (vpg k) (of_nat n) vs = Done vs' \<and>
    (if va_len vs = MAX_FREE \<and> va_bump vs \<noteq> vpg (k + n) then vs' = vs else vs_holds vs' (U - {k..<k + n}))"
  by (rule valloc_free_holds [OF assms])

theorem valloc_free_returns_run_witness:
  "\<exists>vs1 vs2 vs3. valloc_alloc 5 vspace_new = Done (Some (vpg 0), vs1) \<and> valloc_alloc 3 vs1 = Done (Some (vpg 5), vs2) \<and>
    valloc_free (vpg 1) 3 vs2 = Done vs3 \<and> vs_holds vs3 ({..<8} - {1..<4})"
proof -
  let ?vs = "\<lparr>va_bump = vpg 8, va_free = replicate MAX_FREE region_zero, va_len = 0\<rparr>"
  have a: "valloc_alloc 5 vspace_new = Done (Some (vpg 0), \<lparr>va_bump = vpg 5, va_free = replicate MAX_FREE region_zero, va_len = 0\<rparr>)"
    "valloc_alloc 3 \<lparr>va_bump = vpg 5, va_free = replicate MAX_FREE region_zero, va_len = 0\<rparr> = Done (Some (vpg 5), ?vs)"
    by (simp_all add: valloc_alloc_def vspace_new_def vpg_def VSPACE_BASE_def VSPACE_TOP_def VPAGE_def)
  have h: "vs_holds ?vs {..<8}" unfolding vs_holds_def
    by (intro exI [of _ 8] exI [of _ "[]"]) (simp add: vs_inv_def view_def inside_def)
  have "{1..<1 + 3} \<subseteq> {..<8 :: nat}" by auto
  from valloc_free_returns_run [OF h _ this] obtain vs3 where "valloc_free (vpg 1) 3 ?vs = Done vs3" "vs_holds vs3 ({..<8} - {1..<4})" by auto
  then show ?thesis using a by blast
qed

end
