(* ===== verification/Disk_Monitor.thy ===== *)
theory Disk_Monitor
  imports Kernel_Prelude
begin

text \<open>
  The change monitor of the disk (\<^verbatim>\<open>root_file_system/ada/changemonitor.adb\<close>): a journal of the last 512 disk accesses, watched
  sector ranges, a limit on the number of writes in a window of ticks, and a hard lock after ten alerts. Results are C integers.
\<close>

section \<open>State\<close>

abbreviation MAX_JOURNAL_ENTRIES :: nat where "MAX_JOURNAL_ENTRIES \<equiv> 512"
abbreviation MAX_WATCH_REGIONS :: nat where "MAX_WATCH_REGIONS \<equiv> 16"
abbreviation ALERT_THRESHOLD :: u32 where "ALERT_THRESHOLD \<equiv> 10"
abbreviation BURST_WINDOW :: u64 where "BURST_WINDOW \<equiv> 50"
abbreviation BURST_LIMIT :: u32 where "BURST_LIMIT \<equiv> 20"

datatype journal_kind = JE_NONE | JE_WRITE | JE_READ | JE_ALERT | JE_VERIFY_FAIL | JE_BURST

text \<open>The fields that every entry has alike (magic number, region, flags, caller) are left out.\<close>

record journal_entry =
  je_kind :: journal_kind
  je_ring :: u8
  je_lba :: u64
  je_count :: u32
  je_tick :: u64
  je_before :: u32
  je_after :: u32

record watch_region =
  wr_magic :: u32
  wr_start :: u64
  wr_end :: u64
  wr_hash :: u32
  wr_alerts :: u32
  wr_active :: bool
  wr_strict :: bool

record monitor =
  cm_ready :: bool
  cm_tick :: u64
  cm_head :: nat
  cm_count :: u32
  cm_writes :: u64
  cm_alerts :: u32
  cm_burst :: u32
  cm_window :: u64
  cm_locked :: bool
  cm_nwatch :: nat
  cm_journal :: "journal_entry list"
  cm_watches :: "watch_region list"

definition WATCH_MAGIC :: u32 where "WATCH_MAGIC = 0xC0515741"

definition no_watch :: watch_region where
  "no_watch = \<lparr>wr_magic = 0, wr_start = 0, wr_end = 0, wr_hash = 0, wr_alerts = 0, wr_active = False, wr_strict = False\<rparr>"

definition no_entry :: journal_entry where
  "no_entry = \<lparr>je_kind = JE_NONE, je_ring = 0, je_lba = 0, je_count = 0, je_tick = 0, je_before = 0, je_after = 0\<rparr>"

text \<open>The statics before \<open>Init\<close>: zeroed memory.\<close>

definition monitor_boot :: monitor where
  "monitor_boot = \<lparr>cm_ready = False, cm_tick = 0, cm_head = 0, cm_count = 0, cm_writes = 0, cm_alerts = 0, cm_burst = 0,
     cm_window = 0, cm_locked = False, cm_nwatch = 0, cm_journal = replicate MAX_JOURNAL_ENTRIES no_entry,
     cm_watches = replicate MAX_WATCH_REGIONS no_watch\<rparr>"

definition change_monitor_init :: monitor where
  "change_monitor_init = monitor_boot\<lparr>cm_ready := True\<rparr>"

section \<open>Operations\<close>

definition change_monitor_tick :: "monitor \<Rightarrow> monitor" where
  "change_monitor_tick c =
     (if cm_ready c
      then let c1 = c\<lparr>cm_tick := cm_tick c + 1\<rparr> in
        if cm_tick c1 - cm_window c1 > BURST_WINDOW then c1\<lparr>cm_burst := 0, cm_window := cm_tick c1\<rparr> else c1
      else c)"

definition append_journal :: "journal_kind \<Rightarrow> u8 \<Rightarrow> u64 \<Rightarrow> u32 \<Rightarrow> u32 \<Rightarrow> u32 \<Rightarrow> monitor \<Rightarrow> monitor" where
  "append_journal kind ring lba cnt before after c =
     c\<lparr>cm_journal := (cm_journal c)[cm_head c := \<lparr>je_kind = kind, je_ring = ring, je_lba = lba, je_count = cnt,
         je_tick = cm_tick c, je_before = before, je_after = after\<rparr>],
       cm_head := (if cm_head c < MAX_JOURNAL_ENTRIES - 1 then cm_head c + 1 else 0),
       cm_count := (if cm_count c < 0xFFFFFFFF then cm_count c + 1 else cm_count c)\<rparr>"

definition check_burst :: "monitor \<Rightarrow> bool \<times> monitor" where
  "check_burst c =
     (let c1 = c\<lparr>cm_burst := cm_burst c + 1\<rparr> in
      if cm_tick c1 - cm_window c1 > BURST_WINDOW then (False, c1\<lparr>cm_burst := 1, cm_window := cm_tick c1\<rparr>)
      else (cm_burst c1 > BURST_LIMIT, c1))"

definition watch_hit :: "u64 \<Rightarrow> watch_region \<Rightarrow> bool" where
  "watch_hit lba w \<longleftrightarrow> wr_active w \<and> wr_magic w = WATCH_MAGIC \<and> lba \<ge> wr_start w \<and> lba < wr_end w"

definition raise_alert :: "monitor \<Rightarrow> monitor" where
  "raise_alert c =
     (let c1 = c\<lparr>cm_alerts := cm_alerts c + 1\<rparr> in if cm_alerts c1 \<ge> ALERT_THRESHOLD then c1\<lparr>cm_locked := True\<rparr> else c1)"

text \<open>The loop over the watched ranges ends with the first alert; \<open>None\<close> when none is raised.\<close>

fun watch_loop :: "u8 \<Rightarrow> u64 \<Rightarrow> u32 \<Rightarrow> u32 \<Rightarrow> u32 \<Rightarrow> nat list \<Rightarrow> monitor \<Rightarrow> int option \<times> monitor" where
  "watch_loop ring lba cnt before after [] c = (None, c)"
| "watch_loop ring lba cnt before after (i # is) c =
     (let w = cm_watches c ! i in
      if watch_hit lba w
      then let c1 = c\<lparr>cm_watches := (cm_watches c)[i := w\<lparr>wr_alerts := wr_alerts w + 1\<rparr>]\<rparr> in
        if wr_strict w then (Some (-1), raise_alert (append_journal JE_ALERT ring lba cnt before after c1))
        else if wr_hash w \<noteq> 0 \<and> after \<noteq> wr_hash w
        then (let c2 = append_journal JE_VERIFY_FAIL ring lba cnt before after c1 in (Some (-1), c2\<lparr>cm_alerts := cm_alerts c2 + 1\<rparr>))
        else watch_loop ring lba cnt before after is c1
      else watch_loop ring lba cnt before after is c)"

definition record_write :: "u64 \<Rightarrow> u32 \<Rightarrow> u8 \<Rightarrow> u32 \<Rightarrow> u32 \<Rightarrow> monitor \<Rightarrow> int \<times> monitor" where
  "record_write lba cnt ring before after c =
     (if \<not> cm_ready c then (0, c)
      else if cm_locked c then (-1, c)
      else let (burst, c1) = check_burst c in
        if burst then (-2, raise_alert (append_journal JE_BURST ring lba cnt before after c1))
        else case watch_loop ring lba cnt before after [0..<cm_nwatch c1] c1 of
          (Some e, c2) \<Rightarrow> (e, c2)
        | (None, c2) \<Rightarrow> (let c3 = append_journal JE_WRITE ring lba cnt before after c2 in (0, c3\<lparr>cm_writes := cm_writes c3 + 1\<rparr>)))"

definition record_read :: "u64 \<Rightarrow> u32 \<Rightarrow> u8 \<Rightarrow> monitor \<Rightarrow> monitor" where
  "record_read lba cnt ring c = (if cm_ready c then append_journal JE_READ ring lba cnt 0 0 c else c)"

definition add_watch :: "u64 \<Rightarrow> u64 \<Rightarrow> u32 \<Rightarrow> bool \<Rightarrow> monitor \<Rightarrow> int \<times> monitor" where
  "add_watch lo hi hash strict c =
     (if \<not> cm_ready c then (-4, c)
      else if cm_nwatch c \<ge> MAX_WATCH_REGIONS then (-3, c)
      else case find (\<lambda>i. \<not> wr_active (cm_watches c ! i)) [0..<MAX_WATCH_REGIONS] of
          None \<Rightarrow> (-3, c)
        | Some i \<Rightarrow> (0, c\<lparr>cm_watches := (cm_watches c)[i := \<lparr>wr_magic = WATCH_MAGIC, wr_start = lo, wr_end = hi, wr_hash = hash,
                       wr_alerts = 0, wr_active = True, wr_strict = strict\<rparr>], cm_nwatch := cm_nwatch c + 1\<rparr>))"

definition remove_watch :: "u64 \<Rightarrow> monitor \<Rightarrow> int \<times> monitor" where
  "remove_watch lo c =
     (case find (\<lambda>i. wr_active (cm_watches c ! i) \<and> wr_magic (cm_watches c ! i) = WATCH_MAGIC \<and> wr_start (cm_watches c ! i) = lo)
             [0..<cm_nwatch c] of
        None \<Rightarrow> (-4, c)
      | Some i \<Rightarrow> (0, c\<lparr>cm_watches := (cm_watches c)[i := (cm_watches c ! i)\<lparr>wr_active := False, wr_magic := 0\<rparr>],
                       cm_nwatch := cm_nwatch c - 1\<rparr>))"

definition check_watch :: "u64 \<Rightarrow> monitor \<Rightarrow> bool" where
  "check_watch lba c = list_ex (\<lambda>i. watch_hit lba (cm_watches c ! i)) [0..<cm_nwatch c]"

end
