(* ===== verification/Disk_Guard.thy ===== *)
theory Disk_Guard
  imports Disk_Monitor
begin

text \<open>
  The gate in front of the disk driver: \<^verbatim>\<open>root_file_system/ada/glue.c\<close> over the Ada units \<^verbatim>\<open>disksecurity.adb\<close> (regions of
  sectors with a security level), \<^verbatim>\<open>diskauth.adb\<close> (permits) and \<^verbatim>\<open>changemonitor.adb\<close>. The units are compiled with range checks
  (no \<^verbatim>\<open>-gnatp\<close>), whose failure stops the processor: \<open>Panic\<close>. The checksums of descriptors and permits are
  computed over their bytes as the Ada compiler lays them out, so they are parameters. Sessions, keys and the encryption unit
  are left out: no routine called from the kernel reads them.
\<close>

section \<open>Regions\<close>

abbreviation MAX_REGIONS :: nat where "MAX_REGIONS \<equiv> 32"
abbreviation MAX_AUDIT_ENTRIES :: nat where "MAX_AUDIT_ENTRIES \<equiv> 1024"

definition MAGIC_REGION_VALID :: u32 where "MAGIC_REGION_VALID = 0xC0515EC0"

abbreviation OP_READ :: u8 where "OP_READ \<equiv> 0x01"
abbreviation OP_WRITE :: u8 where "OP_WRITE \<equiv> 0x02"
abbreviation OP_LOCK :: u8 where "OP_LOCK \<equiv> 0x04"
abbreviation OP_AUTH :: u8 where "OP_AUTH \<equiv> 0x06"
abbreviation OP_VIOLATION :: u8 where "OP_VIOLATION \<equiv> 0xFF"

record region_descr =
  rd_magic :: u32
  rd_type :: u8
  rd_level :: u8
  rd_flags :: u16
  rd_start :: u64
  rd_end :: u64
  rd_count :: u32
  rd_checksum :: u32
  rd_hash :: "u8 list"
  rd_writes :: u64
  rd_writer :: u8

record disk_audit =
  da_time :: u64
  da_op :: u8
  da_ring :: u8
  da_region :: u8
  da_result :: u8
  da_lba :: u64
  da_count :: u32

record disk_sec =
  ds_ready :: bool
  ds_boots :: u32
  ds_violations :: u32
  ds_nreg :: nat
  ds_head :: nat
  ds_logged :: u32
  ds_tamper :: bool
  ds_lock_all :: bool
  ds_regions :: "region_descr list"
  ds_audit :: "disk_audit list"

definition no_region :: region_descr where
  "no_region = \<lparr>rd_magic = 0, rd_type = 0, rd_level = 0, rd_flags = 0, rd_start = 0, rd_end = 0, rd_count = 0, rd_checksum = 0,
     rd_hash = replicate 32 0, rd_writes = 0, rd_writer = 0\<rparr>"

definition disk_sec_boot :: disk_sec where
  "disk_sec_boot = \<lparr>ds_ready = False, ds_boots = 0, ds_violations = 0, ds_nreg = 0, ds_head = 0, ds_logged = 0, ds_tamper = False,
     ds_lock_all = False, ds_regions = replicate MAX_REGIONS no_region,
     ds_audit = replicate MAX_AUDIT_ENTRIES \<lparr>da_time = 0, da_op = 0, da_ring = 0, da_region = 0, da_result = 0, da_lba = 0, da_count = 0\<rparr>\<rparr>"

definition disk_log :: "u8 \<Rightarrow> u8 \<Rightarrow> u8 \<Rightarrow> u8 \<Rightarrow> u64 \<Rightarrow> u32 \<Rightarrow> disk_sec \<Rightarrow> disk_sec" where
  "disk_log op ring region result lba cnt d =
     d\<lparr>ds_audit := (ds_audit d)[ds_head d := \<lparr>da_time = ucast (ds_boots d), da_op = op, da_ring = ring, da_region = region,
         da_result = result, da_lba = lba, da_count = cnt\<rparr>],
       ds_head := (if ds_head d < MAX_AUDIT_ENTRIES - 1 then ds_head d + 1 else 0),
       ds_logged := (if ds_logged d < of_nat MAX_AUDIT_ENTRIES then ds_logged d + 1 else ds_logged d)\<rparr>"

definition find_region :: "u64 \<Rightarrow> disk_sec \<Rightarrow> nat option" where
  "find_region lba d =
     find (\<lambda>i. let r = ds_regions d ! i in rd_magic r = MAGIC_REGION_VALID \<and> lba \<ge> rd_start r \<and> lba < rd_end r) [0..<ds_nreg d]"

definition verify_descriptor :: "(region_descr \<Rightarrow> u32) \<Rightarrow> region_descr \<Rightarrow> bool" where
  "verify_descriptor crc r \<longleftrightarrow>
     rd_magic r = MAGIC_REGION_VALID \<and> rd_start r < rd_end r \<and> rd_level r \<le> 3 \<and> crc r = rd_checksum r"

text \<open>A conversion to \<open>Unsigned_32\<close> fails its range check when the value does not fit.\<close>

definition to_u32 :: "u64 \<Rightarrow> u32 run" where
  "to_u32 v = (if v \<le> 0xFFFFFFFF then Done (ucast v) else Panic)"

definition seal :: "(region_descr \<Rightarrow> u32) \<Rightarrow> region_descr \<Rightarrow> region_descr" where
  "seal crc r = r\<lparr>rd_checksum := crc r\<rparr>"

definition register_region :: "(region_descr \<Rightarrow> u32) \<Rightarrow> u64 \<Rightarrow> u64 \<Rightarrow> u8 \<Rightarrow> u8 \<Rightarrow> disk_sec \<Rightarrow> (int \<times> disk_sec) run" where
  "register_region crc lo hi typ level d =
     (if \<not> ds_ready d then Done (-1, d)
      else if ds_nreg d \<ge> MAX_REGIONS then Done (-6, d)
      else if list_ex (\<lambda>i. let r = ds_regions d ! i in rd_magic r = MAGIC_REGION_VALID \<and> lo < rd_end r \<and> hi > rd_start r) [0..<ds_nreg d]
      then Done (-6, d)
      else bind_run (to_u32 (hi - lo)) (\<lambda>cnt.
        let r = \<lparr>rd_magic = MAGIC_REGION_VALID, rd_type = typ, rd_level = level, rd_flags = 0, rd_start = lo, rd_end = hi,
                 rd_count = cnt, rd_checksum = rd_checksum (ds_regions d ! ds_nreg d), rd_hash = replicate 32 0, rd_writes = 0, rd_writer = 0\<rparr>
        in Done (0, d\<lparr>ds_regions := (ds_regions d)[ds_nreg d := seal crc r], ds_nreg := ds_nreg d + 1\<rparr>)))"

definition disk_security_init :: "(region_descr \<Rightarrow> u32) \<Rightarrow> disk_sec run" where
  "disk_security_init crc =
     (let d0 = disk_sec_boot\<lparr>ds_ready := True, ds_regions := replicate MAX_REGIONS (no_region\<lparr>rd_level := 3\<rparr>)\<rparr> in
      bind_run (register_region crc 2048 16383 0 2 d0) (\<lambda>(_, d1).
      bind_run (register_region crc 16384 32767 1 2 d1) (\<lambda>(_, d2).
      bind_run (register_region crc 32768 49151 2 1 d2) (\<lambda>(_, d3).
      bind_run (register_region crc 49152 131071 3 1 d3) (\<lambda>(_, d4).
      bind_run (register_region crc 131072 (0xFFFFFFFFFFFFFFFF div 2) 4 0 d4) (\<lambda>(_, d5).
        Done (disk_log OP_AUTH 0 0 0 0 0 d5)))))))"

definition violation :: "u8 \<Rightarrow> u8 \<Rightarrow> u64 \<Rightarrow> u32 \<Rightarrow> disk_sec \<Rightarrow> disk_sec" where
  "violation ring region lba cnt d =
     (let d1 = disk_log OP_VIOLATION ring region 0xFF lba cnt d in d1\<lparr>ds_violations := ds_violations d1 + 1\<rparr>)"

text \<open>What a security level from 0 to 3 answers to an access; 0 lets it through.\<close>

definition level_verdict :: "u8 \<Rightarrow> u8 \<Rightarrow> u8 \<Rightarrow> int" where
  "level_verdict level op ring =
     (if level = 3 then if op = OP_WRITE then -5 else 0
      else if level = 1 then if ring > 0 \<and> op = OP_WRITE then -1 else 0
      else if level = 2 then if ring > 0 \<and> op = OP_WRITE then -4 else 0
      else 0)"

definition check_access :: "(region_descr \<Rightarrow> u32) \<Rightarrow> u64 \<Rightarrow> u32 \<Rightarrow> u8 \<Rightarrow> u8 \<Rightarrow> disk_sec \<Rightarrow> int \<times> disk_sec" where
  "check_access crc lba cnt op ring d =
     (if \<not> ds_ready d then (-1, d)
      else if ds_lock_all d then (-5, violation ring 255 lba cnt d)
      else if ucast cnt > 0xFFFFFFFFFFFFFFFF - lba then (-6, d)
      else case find_region lba d of
          None \<Rightarrow> if op = OP_WRITE \<and> ring > 0 then (-1, violation ring 255 lba cnt d) else (0, disk_log op ring 255 0 lba cnt d)
        | Some i \<Rightarrow> let r = ds_regions d ! i; id = of_nat i in
            if \<not> verify_descriptor crc r then (-8, violation ring id lba cnt (d\<lparr>ds_tamper := True\<rparr>))
            else if lba + ucast cnt > rd_end r then (-6, violation ring id lba cnt d)
            else if rd_flags r AND 1 \<noteq> 0 \<and> op = OP_WRITE then (-5, violation ring id lba cnt d)
            else if rd_level r > 3 then (-1, d)
            else if level_verdict (rd_level r) op ring \<noteq> 0 then (level_verdict (rd_level r) op ring, violation ring id lba cnt d)
            else let d1 = (if op = OP_WRITE
                           then d\<lparr>ds_regions := (ds_regions d)[i := seal crc (r\<lparr>rd_writes := rd_writes r + 1, rd_writer := ring\<rparr>)]\<rparr>
                           else d)
              in (0, disk_log op ring id 0 lba cnt d1))"

definition emergency_lock_all :: "(region_descr \<Rightarrow> u32) \<Rightarrow> disk_sec \<Rightarrow> disk_sec" where
  "emergency_lock_all crc d =
     (let d1 = fold (\<lambda>i e. e\<lparr>ds_regions := (ds_regions e)[i := seal crc ((ds_regions e ! i)\<lparr>rd_flags := rd_flags (ds_regions e ! i) OR 1\<rparr>)]\<rparr>)
                 [0..<ds_nreg d] (d\<lparr>ds_lock_all := True\<rparr>)
      in disk_log OP_LOCK 0 255 0 0 0 d1)"

section \<open>Permits\<close>

abbreviation MAX_PERMITS :: nat where "MAX_PERMITS \<equiv> 64"
abbreviation PERMIT_ADMIN :: u16 where "PERMIT_ADMIN \<equiv> 0x0100"
abbreviation PERMIT_WRITE :: u16 where "PERMIT_WRITE \<equiv> 0x0002"

definition PERMIT_MAGIC :: u32 where "PERMIT_MAGIC = 0xC0515057"

record permit =
  pr_magic :: u32
  pr_session :: u32
  pr_start :: u64
  pr_end :: u64
  pr_flags :: u16
  pr_ring :: u8
  pr_used :: bool
  pr_issued :: u64
  pr_expiry :: u64
  pr_token :: "u8 list"
  pr_checksum :: u32

record disk_auth =
  au_ready :: bool
  au_tick :: u64
  au_denials :: u32
  au_total :: u32
  au_permits :: "permit list"

definition no_permit :: permit where
  "no_permit = \<lparr>pr_magic = 0, pr_session = 0, pr_start = 0, pr_end = 0, pr_flags = 0, pr_ring = 0, pr_used = False, pr_issued = 0,
     pr_expiry = 0, pr_token = replicate 32 0, pr_checksum = 0\<rparr>"

definition disk_auth_boot :: disk_auth where
  "disk_auth_boot = \<lparr>au_ready = False, au_tick = 0, au_denials = 0, au_total = 0, au_permits = replicate MAX_PERMITS no_permit\<rparr>"

definition disk_auth_init :: disk_auth where
  "disk_auth_init = disk_auth_boot\<lparr>au_ready := True\<rparr>"

definition permit_grants :: "(permit \<Rightarrow> u32) \<Rightarrow> u64 \<Rightarrow> u64 \<Rightarrow> u8 \<Rightarrow> u16 \<Rightarrow> permit \<Rightarrow> bool" where
  "permit_grants crc lo hi ring flags p \<longleftrightarrow>
     lo \<ge> pr_start p \<and> hi \<le> pr_end p \<and> pr_flags p AND flags = flags \<and> ring \<le> pr_ring p \<and> crc p = pr_checksum p"

fun permit_loop :: "(permit \<Rightarrow> u32) \<Rightarrow> u64 \<Rightarrow> u64 \<Rightarrow> u8 \<Rightarrow> u16 \<Rightarrow> nat list \<Rightarrow> disk_auth \<Rightarrow> bool \<times> disk_auth" where
  "permit_loop crc lo hi ring flags [] a = (False, a)"
| "permit_loop crc lo hi ring flags (i # is) a =
     (let p = au_permits a ! i in
      if pr_magic p = PERMIT_MAGIC \<and> \<not> pr_used p
      then if au_tick a > pr_expiry p
        then permit_loop crc lo hi ring flags is (a\<lparr>au_permits := (au_permits a)[i := p\<lparr>pr_used := True\<rparr>]\<rparr>)
        else if permit_grants crc lo hi ring flags p then (True, a)
        else permit_loop crc lo hi ring flags is a
      else permit_loop crc lo hi ring flags is a)"

definition check_permit :: "(permit \<Rightarrow> u32) \<Rightarrow> u64 \<Rightarrow> u32 \<Rightarrow> u8 \<Rightarrow> u16 \<Rightarrow> disk_auth \<Rightarrow> int \<times> disk_auth" where
  "check_permit crc lba cnt ring flags a =
     (if ring = 0 \<and> flags AND PERMIT_ADMIN \<noteq> 0 then (0, a)
      else case permit_loop crc lba (lba + ucast cnt) ring flags [0..<MAX_PERMITS] a of
          (True, a1) \<Rightarrow> (0, a1)
        | (False, a1) \<Rightarrow> (-1, a1\<lparr>au_denials := au_denials a1 + 1\<rparr>))"

definition admin_permit :: "(permit \<Rightarrow> u32) \<Rightarrow> u64 \<Rightarrow> u64 \<Rightarrow> disk_auth \<Rightarrow> int \<times> disk_auth" where
  "admin_permit crc lo hi a =
     (case find (\<lambda>i. pr_magic (au_permits a ! i) \<noteq> PERMIT_MAGIC \<or> pr_used (au_permits a ! i)) [0..<MAX_PERMITS] of
        None \<Rightarrow> (-6, a)
      | Some i \<Rightarrow> let p = \<lparr>pr_magic = PERMIT_MAGIC, pr_session = 0, pr_start = lo, pr_end = hi, pr_flags = 0x0107, pr_ring = 0,
                      pr_used = False, pr_issued = au_tick a, pr_expiry = 0xFFFFFFFFFFFFFFFF, pr_token = replicate 32 0,
                      pr_checksum = pr_checksum (au_permits a ! i)\<rparr>
          in (0, a\<lparr>au_permits := (au_permits a)[i := p\<lparr>pr_checksum := crc p\<rparr>], au_total := au_total a + 1\<rparr>))"

section \<open>The gate\<close>

record disk_gate =
  dg_sec :: disk_sec
  dg_auth :: disk_auth
  dg_mon :: monitor

record disk_crcs =
  dc_region :: "region_descr \<Rightarrow> u32"
  dc_permit :: "permit \<Rightarrow> u32"

definition disk_gate_boot :: disk_gate where
  "disk_gate_boot = \<lparr>dg_sec = disk_sec_boot, dg_auth = disk_auth_boot, dg_mon = monitor_boot\<rparr>"

definition disk_security_init_all :: "disk_crcs \<Rightarrow> disk_gate run" where
  "disk_security_init_all C =
     bind_run (disk_security_init (dc_region C)) (\<lambda>d.
       let crc = dc_permit C;
           a1 = snd (admin_permit crc 2048 16383 disk_auth_init); a2 = snd (admin_permit crc 16384 32767 a1);
           a3 = snd (admin_permit crc 32768 49151 a2); a4 = snd (admin_permit crc 49152 131071 a3)
       in Done \<lparr>dg_sec = d, dg_auth = a4, dg_mon = snd (add_watch 2048 16383 0 True change_monitor_init)\<rparr>)"

text \<open>The buffer is the bytes that follow its address in memory; the null pointer has none.\<close>

definition fnv1a_32 :: "(nat \<Rightarrow> u8) \<Rightarrow> u32 \<Rightarrow> u32" where
  "fnv1a_32 buf n = fold (\<lambda>i h. (h XOR ucast (buf i)) * 0x01000193) [0..<unat n] 0x811C9DC5"

definition disk_gate_write :: "disk_crcs \<Rightarrow> u64 \<Rightarrow> u32 \<Rightarrow> u8 \<Rightarrow> (nat \<Rightarrow> u8) option \<Rightarrow> disk_gate \<Rightarrow> int \<times> disk_gate" where
  "disk_gate_write C lba cnt ring buf g =
     (if cm_locked (dg_mon g) then (-100, g)
      else let (res, d) = check_access (dc_region C) lba cnt OP_WRITE ring (dg_sec g); g1 = g\<lparr>dg_sec := d\<rparr> in
        if res \<noteq> 0 then (res, g1)
        else let (res2, a) = check_permit (dc_permit C) lba cnt ring (if ring = 0 then PERMIT_ADMIN else PERMIT_WRITE) (dg_auth g1);
                 g2 = g1\<lparr>dg_auth := a\<rparr> in
          if res2 \<noteq> 0 \<and> ring \<noteq> 0 then (res2, g2)
          else let h = (case buf of None \<Rightarrow> 0 | Some b \<Rightarrow> fnv1a_32 b (if cnt * 512 > 4096 then 4096 else cnt * 512));
                   (res3, c) = record_write lba cnt ring h h (dg_mon g2)
            in (res3, g2\<lparr>dg_mon := c\<rparr>))"

definition disk_gate_read :: "disk_crcs \<Rightarrow> u64 \<Rightarrow> u32 \<Rightarrow> u8 \<Rightarrow> disk_gate \<Rightarrow> int \<times> disk_gate" where
  "disk_gate_read C lba cnt ring g =
     (let (res, d) = check_access (dc_region C) lba cnt OP_READ ring (dg_sec g); g1 = g\<lparr>dg_sec := d\<rparr> in
      if res \<noteq> 0 then (res, g1) else (0, g1\<lparr>dg_mon := record_read lba cnt ring (dg_mon g1)\<rparr>))"

definition disk_auth_tick :: "disk_auth \<Rightarrow> disk_auth" where
  "disk_auth_tick a = (if au_ready a then a\<lparr>au_tick := au_tick a + 1\<rparr> else a)"

definition disk_gate_tick :: "disk_gate \<Rightarrow> disk_gate" where
  "disk_gate_tick g = g\<lparr>dg_auth := disk_auth_tick (dg_auth g), dg_mon := change_monitor_tick (dg_mon g)\<rparr>"

definition disk_gate_check_tamper :: "disk_crcs \<Rightarrow> disk_gate \<Rightarrow> bool \<times> disk_gate" where
  "disk_gate_check_tamper C g =
     (if ds_tamper (dg_sec g) \<or> cm_alerts (dg_mon g) > 50
      then (True, g\<lparr>dg_sec := emergency_lock_all (dc_region C) (dg_sec g)\<rparr>) else (False, g))"

end
