(* ===== verification/Ata.thy ===== *)
theory Ata
  imports Disk_Guard
begin

text \<open>
  The disk driver (\<^verbatim>\<open>root_file_system/ata.rs\<close>): programmed input and output on the primary ATA bus. The drive is a parameter: a
  function from the history of port accesses and a port to the value read there, so a theorem holds for every drive that
  answers as a function of what happened on its ports. The driver appends its accesses to the history. A routine returns an
  error or a value, with the new history; \<open>bindE\<close> is Rust's \<open>?\<close>.
\<close>

section \<open>Ports and constants\<close>

datatype io_event = In8 u16 u8 | Out8 u16 u8 | In16 u16 u16 | Out16 u16 u16

type_synonym hist = "io_event list"
type_synonym drive = "hist \<Rightarrow> u16 \<Rightarrow> u16"

datatype ata_error = Timeout | DiskError u8 | DriveFault | TooLarge | SecurityDenied int | NoDevice | LbaOutOfRange | InvalidLength

type_synonym 'a ata = "hist \<Rightarrow> (ata_error + 'a) \<times> hist"

abbreviation STATUS_ERR :: u8 where "STATUS_ERR \<equiv> 0x01"
abbreviation STATUS_DRQ :: u8 where "STATUS_DRQ \<equiv> 0x08"
abbreviation STATUS_DF :: u8 where "STATUS_DF \<equiv> 0x20"
abbreviation STATUS_BSY :: u8 where "STATUS_BSY \<equiv> 0x80"
abbreviation DRIVE_MASTER :: u8 where "DRIVE_MASTER \<equiv> 0xA0"
abbreviation DRIVE_LBA :: u8 where "DRIVE_LBA \<equiv> 0x40"
abbreviation CMD_READ_PIO :: u8 where "CMD_READ_PIO \<equiv> 0x20"
abbreviation CMD_WRITE_PIO :: u8 where "CMD_WRITE_PIO \<equiv> 0x30"
abbreviation CMD_READ_EXT :: u8 where "CMD_READ_EXT \<equiv> 0x24"
abbreviation CMD_WRITE_EXT :: u8 where "CMD_WRITE_EXT \<equiv> 0x34"
abbreviation CMD_FLUSH :: u8 where "CMD_FLUSH \<equiv> 0xE7"
abbreviation CMD_FLUSH_EXT :: u8 where "CMD_FLUSH_EXT \<equiv> 0xEA"
abbreviation CMD_IDENTIFY :: u8 where "CMD_IDENTIFY \<equiv> 0xEC"
abbreviation CTRL_NIEN :: u8 where "CTRL_NIEN \<equiv> 0x02"
abbreviation CTRL_SRST :: u8 where "CTRL_SRST \<equiv> 0x04"
abbreviation SECTOR_SIZE :: nat where "SECTOR_SIZE \<equiv> 512"
abbreviation MAX_RETRY :: nat where "MAX_RETRY \<equiv> 3"

definition TIMEOUT_CYCLES :: nat where "TIMEOUT_CYCLES = 0x100000"
definition LBA28_MAX :: u64 where "LBA28_MAX = 0x0FFFFFFF"
definition LBA48_MAX :: u64 where "LBA48_MAX = 0x0000FFFFFFFFFFFF"

record bus_ports =
  bp_data :: u16
  bp_err :: u16
  bp_sectors :: u16
  bp_lo :: u16
  bp_mid :: u16
  bp_hi :: u16
  bp_drive :: u16
  bp_status :: u16
  bp_ctrl :: u16

datatype ata_bus = Primary | Secondary

fun ports_of :: "ata_bus \<Rightarrow> bus_ports" where
  "ports_of Primary = \<lparr>bp_data = 0x1F0, bp_err = 0x1F1, bp_sectors = 0x1F2, bp_lo = 0x1F3, bp_mid = 0x1F4, bp_hi = 0x1F5,
     bp_drive = 0x1F6, bp_status = 0x1F7, bp_ctrl = 0x3F6\<rparr>"
| "ports_of Secondary = \<lparr>bp_data = 0x170, bp_err = 0x171, bp_sectors = 0x172, bp_lo = 0x173, bp_mid = 0x174, bp_hi = 0x175,
     bp_drive = 0x176, bp_status = 0x177, bp_ctrl = 0x376\<rparr>"

text \<open>\<open>ACTIVE_BUS\<close> is a static that nothing assigns.\<close>

definition ACTIVE_BUS :: ata_bus where "ACTIVE_BUS = Primary"

definition ports :: bus_ports where "ports = ports_of ACTIVE_BUS"

fun bindE :: "('e + 'a) \<times> 's \<Rightarrow> ('a \<Rightarrow> 's \<Rightarrow> ('e + 'b) \<times> 's) \<Rightarrow> ('e + 'b) \<times> 's" where
  "bindE (Inl e, s) f = (Inl e, s)"
| "bindE (Inr x, s) f = f x s"

section \<open>Port access\<close>

definition in8 :: "drive \<Rightarrow> u16 \<Rightarrow> hist \<Rightarrow> u8 \<times> hist" where
  "in8 dev port h = (let v = ucast (dev h port) in (v, h @ [In8 port v]))"

definition in16 :: "drive \<Rightarrow> u16 \<Rightarrow> hist \<Rightarrow> u16 \<times> hist" where
  "in16 dev port h = (let v = dev h port in (v, h @ [In16 port v]))"

definition out8 :: "u16 \<Rightarrow> u8 \<Rightarrow> hist \<Rightarrow> hist" where
  "out8 port v h = h @ [Out8 port v]"

definition out16 :: "u16 \<Rightarrow> u16 \<Rightarrow> hist \<Rightarrow> hist" where
  "out16 port v h = h @ [Out16 port v]"

definition ata_delay :: "drive \<Rightarrow> bus_ports \<Rightarrow> hist \<Rightarrow> hist" where
  "ata_delay dev p h = fold (\<lambda>_ h. snd (in8 dev (bp_ctrl p) h)) [0..<4] h"

section \<open>Waiting\<close>

function busy_loop :: "drive \<Rightarrow> bus_ports \<Rightarrow> nat \<Rightarrow> unit ata" where
  "busy_loop dev p n h =
     (let (st, h1) = in8 dev (bp_status p) h in
      if st AND STATUS_BSY = 0 then (Inr (), h1)
      else if n + 1 > TIMEOUT_CYCLES then (Inl Timeout, h1)
      else busy_loop dev p (n + 1) h1)"
  by pat_completeness auto
termination
  by (relation "measure (\<lambda>(dev, p, n, h). TIMEOUT_CYCLES + 1 - n)") auto

function drq_loop :: "drive \<Rightarrow> bus_ports \<Rightarrow> nat \<Rightarrow> unit ata" where
  "drq_loop dev p n h =
     (let (st, h1) = in8 dev (bp_status p) h in
      if st AND STATUS_BSY = 0 \<and> st AND STATUS_DRQ \<noteq> 0 then (Inr (), h1)
      else if st AND STATUS_ERR \<noteq> 0 then (let (e, h2) = in8 dev (bp_err p) h1 in (Inl (DiskError e), h2))
      else if st AND STATUS_DF \<noteq> 0 then (Inl DriveFault, h1)
      else if n + 1 > TIMEOUT_CYCLES then (Inl Timeout, h1)
      else drq_loop dev p (n + 1) h1)"
  by pat_completeness auto
termination
  by (relation "measure (\<lambda>(dev, p, n, h). TIMEOUT_CYCLES + 1 - n)") auto

declare busy_loop.simps [simp del] drq_loop.simps [simp del]

definition wait_not_busy :: "drive \<Rightarrow> bus_ports \<Rightarrow> unit ata" where
  "wait_not_busy dev p = busy_loop dev p 0"

definition wait_drq :: "drive \<Rightarrow> bus_ports \<Rightarrow> unit ata" where
  "wait_drq dev p = drq_loop dev p 0"

text \<open>The check of the status register that ends several routines.\<close>

definition check_err :: "drive \<Rightarrow> bus_ports \<Rightarrow> 'a \<Rightarrow> 'a ata" where
  "check_err dev p x h =
     (let (st, h1) = in8 dev (bp_status p) h in
      if st AND STATUS_ERR \<noteq> 0 then (let (e, h2) = in8 dev (bp_err p) h1 in (Inl (DiskError e), h2)) else (Inr x, h1))"

definition wait_ready :: "drive \<Rightarrow> bus_ports \<Rightarrow> unit ata" where
  "wait_ready dev p h =
     bindE (wait_not_busy dev p h) (\<lambda>_ h0.
       let (st, h1) = in8 dev (bp_status p) h0 in
       if st AND STATUS_ERR \<noteq> 0 then (let (e, h2) = in8 dev (bp_err p) h1 in (Inl (DiskError e), h2))
       else if st AND STATUS_DF \<noteq> 0 then (Inl DriveFault, h1)
       else (Inr (), h1))"

definition ata_reset :: "drive \<Rightarrow> hist \<Rightarrow> hist" where
  "ata_reset dev h =
     (let p = ports; h1 = ata_delay dev p (out8 (bp_ctrl p) (CTRL_SRST OR CTRL_NIEN) h);
          h2 = ata_delay dev p (out8 (bp_ctrl p) CTRL_NIEN h1)
      in snd (wait_not_busy dev p h2))"

definition select_master :: "drive \<Rightarrow> bus_ports \<Rightarrow> unit ata" where
  "select_master dev p h = wait_not_busy dev p (ata_delay dev p (out8 (bp_drive p) DRIVE_MASTER h))"

section \<open>Addressing\<close>

definition byte_of :: "nat \<Rightarrow> u64 \<Rightarrow> u8" where
  "byte_of k v = ucast (drop_bit (8 * k) v AND 0xFF)"

definition setup_lba28 :: "bus_ports \<Rightarrow> u64 \<Rightarrow> u8 \<Rightarrow> hist \<Rightarrow> hist" where
  "setup_lba28 p lba cnt h = fold (\<lambda>(port, v). out8 port v)
     [(bp_ctrl p, CTRL_NIEN), (bp_drive p, DRIVE_MASTER OR DRIVE_LBA OR (ucast (drop_bit 24 lba) AND 0x0F)), (bp_err p, 0),
      (bp_sectors p, cnt), (bp_lo p, byte_of 0 lba), (bp_mid p, byte_of 1 lba), (bp_hi p, byte_of 2 lba)] h"

definition setup_lba48 :: "bus_ports \<Rightarrow> u64 \<Rightarrow> u16 \<Rightarrow> hist \<Rightarrow> hist" where
  "setup_lba48 p lba cnt h = fold (\<lambda>(port, v). out8 port v)
     [(bp_ctrl p, CTRL_NIEN), (bp_drive p, DRIVE_MASTER OR DRIVE_LBA), (bp_err p, 0),
      (bp_sectors p, ucast (drop_bit 8 cnt)), (bp_lo p, byte_of 3 lba), (bp_mid p, byte_of 4 lba), (bp_hi p, byte_of 5 lba),
      (bp_sectors p, ucast (cnt AND 0xFF)), (bp_lo p, byte_of 0 lba), (bp_mid p, byte_of 1 lba), (bp_hi p, byte_of 2 lba)] h"

definition start_command :: "bus_ports \<Rightarrow> u64 \<Rightarrow> u8 \<Rightarrow> u8 \<Rightarrow> hist \<Rightarrow> hist" where
  "start_command p lba cmd28 cmd48 h =
     (if lba \<le> LBA28_MAX then out8 (bp_status p) cmd28 (setup_lba28 p lba 1 h)
      else out8 (bp_status p) cmd48 (setup_lba48 p lba 1 h))"

section \<open>One sector\<close>

fun read_words :: "drive \<Rightarrow> bus_ports \<Rightarrow> nat list \<Rightarrow> u8 list \<Rightarrow> hist \<Rightarrow> u8 list \<times> hist" where
  "read_words dev p [] buf h = (buf, h)"
| "read_words dev p (i # is) buf h =
     (let (w, h1) = in16 dev (bp_data p) h
      in read_words dev p is (buf[i * 2 := ucast (w AND 0xFF), i * 2 + 1 := ucast (drop_bit 8 w)]) h1)"

definition read_sector_raw_internal :: "drive \<Rightarrow> bus_ports \<Rightarrow> u64 \<Rightarrow> u8 list ata" where
  "read_sector_raw_internal dev p lba h =
     bindE (wait_ready dev p h) (\<lambda>_ h1.
     bindE (wait_drq dev p (ata_delay dev p (start_command p lba CMD_READ_PIO CMD_READ_EXT h1))) (\<lambda>_ h2.
       let (buf, h3) = read_words dev p [0..<256] (replicate 512 0) h2 in check_err dev p buf h3))"

definition sector_word :: "u8 list \<Rightarrow> nat \<Rightarrow> u16" where
  "sector_word buf i = ucast (buf ! (i * 2)) OR push_bit 8 (ucast (buf ! (i * 2 + 1)))"

definition write_words :: "bus_ports \<Rightarrow> u8 list \<Rightarrow> hist \<Rightarrow> hist" where
  "write_words p buf h = fold (\<lambda>i. out16 (bp_data p) (sector_word buf i)) [0..<256] h"

definition write_sector_raw_internal :: "drive \<Rightarrow> bus_ports \<Rightarrow> u64 \<Rightarrow> u8 list \<Rightarrow> unit ata" where
  "write_sector_raw_internal dev p lba buf h =
     bindE (wait_ready dev p h) (\<lambda>_ h1.
     bindE (wait_drq dev p (ata_delay dev p (start_command p lba CMD_WRITE_PIO CMD_WRITE_EXT h1))) (\<lambda>_ h2.
     bindE (wait_ready dev p (write_words p buf h2)) (\<lambda>_ h3.
     bindE (wait_ready dev p (out8 (bp_status p) (if lba \<le> LBA28_MAX then CMD_FLUSH else CMD_FLUSH_EXT) h3)) (\<lambda>_ h4.
       check_err dev p () h4))))"

text \<open>The loop over at most three attempts: a disk error resets the drive and selects it again, any other error is final.\<close>

fun attempts :: "drive \<Rightarrow> bus_ports \<Rightarrow> nat list \<Rightarrow> 'a ata \<Rightarrow> 'a ata" where
  "attempts dev p [] op h = (Inl Timeout, h)"
| "attempts dev p (a # as) op h =
     (case op h of
        (Inr x, h1) \<Rightarrow> (Inr x, h1)
      | (Inl e, h1) \<Rightarrow>
          (case e of
             DiskError _ \<Rightarrow> if a < MAX_RETRY - 1 then bindE (select_master dev p (ata_reset dev h1)) (\<lambda>_. attempts dev p as op)
                            else (Inl e, h1)
           | _ \<Rightarrow> (Inl e, h1)))"

section \<open>The interface\<close>

record disk_env =
  de_dev :: drive
  de_crcs :: disk_crcs

record disk =
  dk_hist :: hist
  dk_gate :: disk_gate

definition on_hist :: "'a ata \<Rightarrow> disk \<Rightarrow> (ata_error + 'a) \<times> disk" where
  "on_hist f s = (let (r, h) = f (dk_hist s) in (r, s\<lparr>dk_hist := h\<rparr>))"

definition read_sector :: "disk_env \<Rightarrow> u64 \<Rightarrow> disk \<Rightarrow> (ata_error + u8 list) \<times> disk" where
  "read_sector E lba s =
     (if lba > LBA48_MAX then (Inl LbaOutOfRange, s)
      else let (gate, g) = disk_gate_read (de_crcs E) lba 1 0 (dk_gate s); s1 = s\<lparr>dk_gate := g\<rparr> in
        if gate \<noteq> 0 then (Inl (SecurityDenied gate), s1)
        else on_hist (\<lambda>h. bindE (select_master (de_dev E) ports h) (\<lambda>_.
               attempts (de_dev E) ports [0..<MAX_RETRY] (read_sector_raw_internal (de_dev E) ports lba))) s1)"

definition read_sector_raw :: "disk_env \<Rightarrow> u64 \<Rightarrow> disk \<Rightarrow> (ata_error + u8 list) \<times> disk" where
  "read_sector_raw E lba s =
     (if lba > LBA48_MAX then (Inl LbaOutOfRange, s)
      else on_hist (\<lambda>h. bindE (select_master (de_dev E) ports h) (\<lambda>_. read_sector_raw_internal (de_dev E) ports lba)) s)"

definition write_attempts :: "drive \<Rightarrow> bus_ports \<Rightarrow> u64 \<Rightarrow> u8 list \<Rightarrow> unit ata" where
  "write_attempts dev p lba buf = attempts dev p [0..<MAX_RETRY] (write_sector_raw_internal dev p lba buf)"

definition write_sector_unchecked :: "disk_env \<Rightarrow> u64 \<Rightarrow> u8 list \<Rightarrow> disk \<Rightarrow> (ata_error + unit) \<times> disk" where
  "write_sector_unchecked E lba buf s =
     (if lba > LBA48_MAX then (Inl LbaOutOfRange, s)
      else on_hist (\<lambda>h. bindE (select_master (de_dev E) ports h) (\<lambda>_. write_attempts (de_dev E) ports lba buf)) s)"

definition write_sector :: "disk_env \<Rightarrow> u64 \<Rightarrow> u8 list \<Rightarrow> disk \<Rightarrow> (ata_error + unit) \<times> disk" where
  "write_sector E lba buf s =
     (if lba > LBA48_MAX then (Inl LbaOutOfRange, s)
      else let (gate, g) = disk_gate_write (de_crcs E) lba 1 0 (Some (\<lambda>i. buf ! i)) (dk_gate s); s1 = s\<lparr>dk_gate := g\<rparr> in
        if gate \<noteq> 0 then (Inl (SecurityDenied gate), s1)
        else on_hist (\<lambda>h. bindE (select_master (de_dev E) ports h) (\<lambda>_. write_attempts (de_dev E) ports lba buf)) s1)"

text \<open>A slice is the bytes of memory from its address on, and its length.\<close>

definition mem_slice :: "(u64 \<Rightarrow> u8) \<Rightarrow> u64 \<Rightarrow> nat \<Rightarrow> u8 list" where
  "mem_slice m a n = map (\<lambda>i. m (a + of_nat i)) [0..<n]"

function chunks :: "u8 list \<Rightarrow> u8 list list" where
  "chunks xs = (if xs = [] then [] else take SECTOR_SIZE xs # chunks (drop SECTOR_SIZE xs))"
  by pat_completeness auto
termination
  by (relation "measure length") auto

declare chunks.simps [simp del]

definition pad_sector :: "u8 list \<Rightarrow> u8 list" where
  "pad_sector chunk = chunk @ replicate (SECTOR_SIZE - length chunk) 0"

fun write_chunks :: "drive \<Rightarrow> bus_ports \<Rightarrow> u64 \<Rightarrow> u8 list list \<Rightarrow> unit ata" where
  "write_chunks dev p lba [] h = (Inr (), h)"
| "write_chunks dev p lba (c # cs) h = bindE (write_attempts dev p lba (pad_sector c) h) (\<lambda>_. write_chunks dev p (lba + 1) cs)"

definition sectors_needed :: "nat \<Rightarrow> nat" where
  "sectors_needed n = (n + SECTOR_SIZE - 1) div SECTOR_SIZE"

definition write_bytes_unchecked :: "disk_env \<Rightarrow> (u64 \<Rightarrow> u8) \<Rightarrow> u64 \<Rightarrow> u64 \<Rightarrow> nat \<Rightarrow> u32 \<Rightarrow> disk \<Rightarrow> (ata_error + u32) \<times> disk" where
  "write_bytes_unchecked E m lba_start ptr n max_sectors s =
     (if n = 0 then (Inr 0, s)
      else if sectors_needed n > unat max_sectors then (Inl TooLarge, s)
      else on_hist (\<lambda>h. bindE (select_master (de_dev E) ports h) (\<lambda>_ h1.
             bindE (write_chunks (de_dev E) ports lba_start (chunks (mem_slice m ptr n)) h1) (\<lambda>_ h2. (Inr (of_nat (sectors_needed n)), h2)))) s)"

definition write_bytes :: "disk_env \<Rightarrow> (u64 \<Rightarrow> u8) \<Rightarrow> u64 \<Rightarrow> u64 \<Rightarrow> nat \<Rightarrow> u32 \<Rightarrow> disk \<Rightarrow> (ata_error + u32) \<times> disk" where
  "write_bytes E m lba_start ptr n max_sectors s =
     (if n = 0 then (Inr 0, s)
      else if sectors_needed n > unat max_sectors then (Inl TooLarge, s)
      else if lba_start + of_nat (sectors_needed n) > LBA48_MAX then (Inl LbaOutOfRange, s)
      else let (gate, g) = disk_gate_write (de_crcs E) lba_start (of_nat (sectors_needed n)) 0
                             (Some (\<lambda>i. m (ptr + of_nat i))) (dk_gate s); s1 = s\<lparr>dk_gate := g\<rparr> in
        if gate \<noteq> 0 then (Inl (SecurityDenied gate), s1)
        else on_hist (\<lambda>h. bindE (select_master (de_dev E) ports h) (\<lambda>_ h1.
               bindE (write_chunks (de_dev E) ports lba_start (chunks (mem_slice m ptr n)) h1) (\<lambda>_ h2. (Inr (of_nat (sectors_needed n)), h2)))) s1)"

section \<open>Identification\<close>

definition identify :: "drive \<Rightarrow> u8 list ata" where
  "identify dev h =
     (let p = ports in
      bindE (select_master dev p h) (\<lambda>_ h1. bindE (wait_ready dev p h1) (\<lambda>_ h2.
        let h3 = fold (\<lambda>(port, v). out8 port v) [(bp_drive p, DRIVE_MASTER), (bp_sectors p, 0), (bp_lo p, 0), (bp_mid p, 0), (bp_hi p, 0),
                   (bp_status p, CMD_IDENTIFY)] h2;
            (st, h4) = in8 dev (bp_status p) (ata_delay dev p h3)
        in if st = 0 then (Inl NoDevice, h4)
           else let (mid, h5) = in8 dev (bp_mid p) h4; (hi, h6) = in8 dev (bp_hi p) h5 in
             if mid \<noteq> 0 \<or> hi \<noteq> 0 then (Inl NoDevice, h6)
             else bindE (wait_drq dev p h6) (\<lambda>_ h7. let (buf, h8) = read_words dev p [0..<256] (replicate 512 0) h7 in (Inr buf, h8)))))"

definition identify_lba48_sectors :: "u8 list \<Rightarrow> u64" where
  "identify_lba48_sectors b =
     (let lo = ucast (b ! 200) OR push_bit 8 (ucast (b ! 201)) OR push_bit 16 (ucast (b ! 202)) OR push_bit 24 (ucast (b ! 203));
          hi = ucast (b ! 204) OR push_bit 8 (ucast (b ! 205)) OR push_bit 16 (ucast (b ! 206)) OR push_bit 24 (ucast (b ! 207))
      in lo OR push_bit 32 hi)"

definition identify_supports_lba48 :: "u8 list \<Rightarrow> bool" where
  "identify_supports_lba48 b \<longleftrightarrow> (ucast (b ! 166) OR push_bit 8 (ucast (b ! 167)) :: u16) AND push_bit 10 1 \<noteq> 0"

text \<open>The wrappers around the gate.\<close>

definition security_init :: "disk_env \<Rightarrow> disk \<Rightarrow> disk run" where
  "security_init E s = bind_run (disk_security_init_all (de_crcs E)) (\<lambda>g. Done (s\<lparr>dk_gate := g\<rparr>))"

definition security_tick :: "disk \<Rightarrow> disk" where
  "security_tick s = s\<lparr>dk_gate := disk_gate_tick (dk_gate s)\<rparr>"

definition check_tamper :: "disk_env \<Rightarrow> disk \<Rightarrow> bool \<times> disk" where
  "check_tamper E s = (let (t, g) = disk_gate_check_tamper (de_crcs E) (dk_gate s) in (t, s\<lparr>dk_gate := g\<rparr>))"

end
