(* ===== verification/Disk_Wire.thy ===== *)
theory Disk_Wire
  imports Ata
begin

text \<open>
  What the drive sees: the accesses to the ports, decoded the way the ATA command registers are documented. The address
  registers hold the last two bytes written to them, a write to the command register starts a command for the addressed sector,
  and the words that pass through the data port belong to the last command. The lemmas say which commands each routine of the
  driver sends, for every drive.
\<close>

section \<open>Decoding\<close>

type_synonym command = "u8 \<times> u64 \<times> u16 list"

record wire =
  wi_drive :: u8
  wi_lo :: "u8 \<times> u8"
  wi_mid :: "u8 \<times> u8"
  wi_hi :: "u8 \<times> u8"
  wi_log :: "command list"

definition wire_zero :: wire where
  "wire_zero = \<lparr>wi_drive = 0, wi_lo = (0, 0), wi_mid = (0, 0), wi_hi = (0, 0), wi_log = []\<rparr>"

definition shift_in :: "u8 \<Rightarrow> u8 \<times> u8 \<Rightarrow> u8 \<times> u8" where
  "shift_in v r = (snd r, v)"

definition is_ext :: "u8 \<Rightarrow> bool" where
  "is_ext c \<longleftrightarrow> c = CMD_READ_EXT \<or> c = CMD_WRITE_EXT \<or> c = CMD_FLUSH_EXT"

definition low_part :: "wire \<Rightarrow> u64" where
  "low_part w = ucast (snd (wi_lo w)) OR push_bit 8 (ucast (snd (wi_mid w))) OR push_bit 16 (ucast (snd (wi_hi w)))"

definition addressed :: "u8 \<Rightarrow> wire \<Rightarrow> u64" where
  "addressed c w =
     (if is_ext c
      then low_part w OR push_bit 24 (ucast (fst (wi_lo w)) OR push_bit 8 (ucast (fst (wi_mid w))) OR push_bit 16 (ucast (fst (wi_hi w))))
      else low_part w OR push_bit 24 (ucast (wi_drive w AND 0x0F)))"

definition add_word :: "u16 \<Rightarrow> command list \<Rightarrow> command list" where
  "add_word v cs = (if cs = [] then [] else butlast cs @ [(case last cs of (c, lba, d) \<Rightarrow> (c, lba, d @ [v]))])"

fun wire_step :: "io_event \<Rightarrow> wire \<Rightarrow> wire" where
  "wire_step (Out8 port v) w =
     (if port = bp_drive ports then w\<lparr>wi_drive := v\<rparr>
      else if port = bp_lo ports then w\<lparr>wi_lo := shift_in v (wi_lo w)\<rparr>
      else if port = bp_mid ports then w\<lparr>wi_mid := shift_in v (wi_mid w)\<rparr>
      else if port = bp_hi ports then w\<lparr>wi_hi := shift_in v (wi_hi w)\<rparr>
      else if port = bp_status ports then w\<lparr>wi_log := wi_log w @ [(v, addressed v w, [])]\<rparr>
      else w)"
| "wire_step (Out16 port v) w = (if port = bp_data ports then w\<lparr>wi_log := add_word v (wi_log w)\<rparr> else w)"
| "wire_step (In16 port v) w = (if port = bp_data ports then w\<lparr>wi_log := add_word v (wi_log w)\<rparr> else w)"
| "wire_step (In8 port v) w = w"

definition wire_of :: "hist \<Rightarrow> wire" where
  "wire_of h = fold wire_step h wire_zero"

definition commands :: "hist \<Rightarrow> command list" where
  "commands h = wi_log (wire_of h)"

lemma wire_of_snoc [simp]: "wire_of (h @ [e]) = wire_step e (wire_of h)"
  by (simp add: wire_of_def)

lemma wire_of_append: "wire_of (h @ es) = fold wire_step es (wire_of h)"
  by (simp add: wire_of_def)

lemma ports_simps [simp]:
  "bp_data ports = 0x1F0" "bp_err ports = 0x1F1" "bp_sectors ports = 0x1F2" "bp_lo ports = 0x1F3" "bp_mid ports = 0x1F4"
  "bp_hi ports = 0x1F5" "bp_drive ports = 0x1F6" "bp_status ports = 0x1F7" "bp_ctrl ports = 0x3F6"
  by (simp_all add: ports_def ACTIVE_BUS_def)

section \<open>Waiting sends nothing\<close>

lemma in8_wire [simp]: "wire_of (snd (in8 dev port h)) = wire_of h"
  by (simp add: in8_def Let_def)

lemma out8_wire [simp]: "wire_of (out8 port v h) = wire_step (Out8 port v) (wire_of h)"
  by (simp add: out8_def)

lemma out16_wire [simp]: "wire_of (out16 port v h) = wire_step (Out16 port v) (wire_of h)"
  by (simp add: out16_def)

lemma ata_delay_wire [simp]: "wire_of (ata_delay dev p h) = wire_of h"
  by (simp add: ata_delay_def numeral_eq_Suc)

lemma busy_loop_wire: "wire_of (snd (busy_loop dev p n h)) = wire_of h"
proof (induction dev p n h rule: busy_loop.induct)
  case (1 dev p n h)
  show ?case
    by (subst busy_loop.simps) (use 1 in8_wire [of dev "bp_status p" h] in \<open>auto simp: split_beta Let_def prod_eq_iff\<close>)
qed

lemma wait_not_busy_wire [simp]: "wire_of (snd (wait_not_busy dev p h)) = wire_of h"
  by (simp add: wait_not_busy_def busy_loop_wire)

lemma drq_loop_wire: "wire_of (snd (drq_loop dev p n h)) = wire_of h"
proof (induction dev p n h rule: drq_loop.induct)
  case (1 dev p n h)
  show ?case
    by (subst drq_loop.simps) (use 1 in8_wire [of dev "bp_status p" h] in8_wire in \<open>auto simp: split_beta Let_def prod_eq_iff\<close>)
qed

lemma wait_drq_wire [simp]: "wire_of (snd (wait_drq dev p h)) = wire_of h"
  by (simp add: wait_drq_def drq_loop_wire)

lemma bindE_snd: "snd (bindE r f) = (case fst r of Inl e \<Rightarrow> snd r | Inr x \<Rightarrow> snd (f x (snd r)))"
  by (cases "(r, f)" rule: bindE.cases) simp_all

lemma check_err_wire [simp]: "wire_of (snd (check_err dev p x h)) = wire_of h"
  by (simp add: check_err_def Let_def split_beta)

lemma wait_ready_wire [simp]: "wire_of (snd (wait_ready dev p h)) = wire_of h"
  by (simp add: wait_ready_def bindE_snd Let_def split_beta split: sum.split)

lemma ata_reset_wire [simp]: "wire_of (ata_reset dev h) = wire_of h"
  by (simp add: ata_reset_def Let_def)

lemma select_master_wire [simp]: "wire_of (snd (select_master dev ports h)) = (wire_of h)\<lparr>wi_drive := DRIVE_MASTER\<rparr>"
  by (simp add: select_master_def)

section \<open>Addressing\<close>

lemma bit_byte_of: "bit (byte_of k v) i \<longleftrightarrow> i < 8 \<and> bit v (8 * k + i)"
proof -
  have e: "(0xFF :: u64) = mask 8" by (simp add: mask_eq_exp_minus_1)
  show ?thesis unfolding byte_of_def e by (auto simp: bit_simps)
qed

lemma bit_nibble: "bit ((DRIVE_MASTER OR DRIVE_LBA OR (ucast (drop_bit 24 (lba :: u64)) AND 0x0F)) AND 0x0F) i \<longleftrightarrow> i < 4 \<and> bit lba (24 + i)"
proof -
  have e: "(DRIVE_MASTER OR DRIVE_LBA OR (x AND 0x0F)) AND 0x0F = x AND (mask 4 :: u8)" for x :: u8
  proof -
    have "(DRIVE_MASTER OR DRIVE_LBA OR (x AND 0x0F)) AND 0x0F = ((DRIVE_MASTER OR DRIVE_LBA) AND 0x0F) OR (x AND (0x0F AND 0x0F))"
      by (simp only: bit.conj_disj_distrib2 or.assoc and.assoc)
    then show ?thesis by (simp add: mask_eq_exp_minus_1)
  qed
  show ?thesis unfolding e by (auto simp: bit_simps)
qed

lemma bits_below: "unat (v :: u64) < 2 ^ k \<Longrightarrow> bit v n \<Longrightarrow> n < k"
proof (rule ccontr)
  assume a: "unat v < 2 ^ k" "bit v n" "\<not> n < k"
  have "bit (unat v) n" using a(2) by (simp add: bit_unsigned_iff)
  then have "2 ^ n \<le> unat v" by (metis bit_nat_iff bit_take_bit_iff linorder_not_le nat_less_le take_bit_nat_eq_self)
  then show False using a(1,3) by (meson le_trans linorder_not_less one_le_numeral power_increasing)
qed

lemma bit_piece:
  "bit (push_bit m (ucast (byte_of k v)) :: u64) n \<longleftrightarrow> m \<le> n \<and> n < 64 \<and> n < m + 8 \<and> bit (v :: u64) (8 * k + n - m)"
  by (auto simp: bit_push_bit_iff bit_unsigned_iff bit_byte_of)

lemma addr28:
  assumes "lba \<le> LBA28_MAX"
  shows "ucast (byte_of 0 lba) OR push_bit 8 (ucast (byte_of 1 lba)) OR push_bit 16 (ucast (byte_of 2 lba)) OR
     push_bit 24 (ucast ((DRIVE_MASTER OR DRIVE_LBA OR (ucast (drop_bit 24 lba) AND 0x0F)) AND 0x0F)) = (lba :: u64)"
    (is "?l = _")
proof (rule bit_eqI)
  fix n assume "possible_bit TYPE(64 word) n"
  then have n: "n < 64" by simp
  have "unat lba < 2 ^ 28" using assms by (simp add: LBA28_MAX_def word_le_nat_alt)
  then have b: "bit lba n \<Longrightarrow> n < 28" by (rule bits_below)
  have t: "bit (push_bit 24 (ucast ((DRIVE_MASTER OR DRIVE_LBA OR (ucast (drop_bit 24 lba) AND 0x0F)) AND 0x0F)) :: u64) n
      \<longleftrightarrow> 24 \<le> n \<and> n < 28 \<and> bit lba n"
    using n by (auto simp: bit_push_bit_iff bit_unsigned_iff bit_nibble)
  show "bit ?l n \<longleftrightarrow> bit lba n"
    using b n bit_piece [of 0 0 lba n] bit_piece [of 8 1 lba n] bit_piece [of 16 2 lba n] unfolding bit_or_iff t by auto
qed

lemma addr48:
  assumes "lba \<le> LBA48_MAX"
  shows "ucast (byte_of 0 lba) OR push_bit 8 (ucast (byte_of 1 lba)) OR push_bit 16 (ucast (byte_of 2 lba)) OR
     push_bit 24 (ucast (byte_of 3 lba) OR push_bit 8 (ucast (byte_of 4 lba)) OR push_bit 16 (ucast (byte_of 5 lba))) = (lba :: u64)"
    (is "?l = _")
proof (rule bit_eqI)
  fix n assume "possible_bit TYPE(64 word) n"
  then have n: "n < 64" by simp
  have "unat lba < 2 ^ 48" using assms by (simp add: LBA48_MAX_def word_le_nat_alt)
  then have b: "bit lba n \<longrightarrow> n < 48" using bits_below by blast
  have l: "?l = ucast (byte_of 0 lba) OR push_bit 8 (ucast (byte_of 1 lba)) OR push_bit 16 (ucast (byte_of 2 lba)) OR
     push_bit 24 (ucast (byte_of 3 lba)) OR push_bit 32 (ucast (byte_of 4 lba)) OR push_bit 40 (ucast (byte_of 5 lba))"
    by (simp add: push_bit_or)
  note pieces = bit_piece [of 0 0 lba n] bit_piece [of 8 1 lba n] bit_piece [of 16 2 lba n] bit_piece [of 24 3 lba n]
      bit_piece [of 32 4 lba n] bit_piece [of 40 5 lba n]
  consider "n < 8" | "8 \<le> n" "n < 16" | "16 \<le> n" "n < 24" | "24 \<le> n" "n < 32" | "32 \<le> n" "n < 40" | "40 \<le> n" "n < 48" | "48 \<le> n"
    by linarith
  then show "bit ?l n \<longleftrightarrow> bit lba n"
    unfolding l bit_or_iff using n b pieces by cases simp_all
qed
lemma start_command_log:
  assumes "lba \<le> LBA48_MAX" "\<not> is_ext c28" "is_ext c48"
  shows "commands (start_command ports lba c28 c48 h) = commands h @ [(if lba \<le> LBA28_MAX then c28 else c48, lba, [])]"
  using assms addr28 [of lba] addr48 [of lba]
  by (simp add: commands_def start_command_def setup_lba28_def setup_lba48_def addressed_def low_part_def shift_in_def or.assoc)

section \<open>Sectors written\<close>

definition is_write :: "command \<Rightarrow> bool" where
  "is_write cmd \<longleftrightarrow> fst cmd = CMD_WRITE_PIO \<or> fst cmd = CMD_WRITE_EXT"

text \<open>The write commands of a history: the addressed sector and the words that were sent for it.\<close>

definition sector_writes :: "hist \<Rightarrow> (u64 \<times> u16 list) list" where
  "sector_writes h = map snd (filter is_write (commands h))"

definition sector_words :: "u8 list \<Rightarrow> u16 list" where
  "sector_words buf = map (sector_word buf) [0..<256]"

lemma length_sector_words [simp]: "length (sector_words buf) = 256"
  by (simp add: sector_words_def)

lemma write_words_log:
  "commands h = cs @ [(c, lba, d)] \<Longrightarrow> commands (write_words ports buf h) = cs @ [(c, lba, d @ sector_words buf)]"
proof -
  have "commands h = cs @ [(c, lba, d)] \<Longrightarrow>
      commands (fold (\<lambda>i. out16 (bp_data ports) (sector_word buf i)) is h) = cs @ [(c, lba, d @ map (sector_word buf) is)]" for "is"
  proof (induction "is" arbitrary: h d)
    case Nil
    then show ?case by simp
  next
    case (Cons i js)
    have "commands (out16 (bp_data ports) (sector_word buf i) h) = cs @ [(c, lba, d @ [sector_word buf i])]"
      using Cons.prems by (simp add: commands_def add_word_def)
    from Cons.IH [OF this] show ?case by simp
  qed
  then show "commands h = cs @ [(c, lba, d)] \<Longrightarrow> ?thesis" by (simp add: write_words_def sector_words_def)
qed

lemma commands_wire: "wire_of h' = wire_of h \<Longrightarrow> commands h' = commands h"
  by (simp add: commands_def)

lemma bindE_cases:
  assumes "bindE r f = (x, s)"
  obtains (err) e where "r = (Inl e, s)" "x = Inl e" | (val) y s1 where "r = (Inr y, s1)" "f y s1 = (x, s)"
  using assms by (cases "(r, f)" rule: bindE.cases) auto

lemma wait_ready_log: "wait_ready dev p h = (r, h') \<Longrightarrow> commands h' = commands h"
  using wait_ready_wire [of dev p h] by (simp add: commands_def)

lemma wait_drq_log: "wait_drq dev p h = (r, h') \<Longrightarrow> commands h' = commands h"
  using wait_drq_wire [of dev p h] by (simp add: commands_def)

lemma check_err_log: "check_err dev p x h = (r, h') \<Longrightarrow> commands h' = commands h"
  using check_err_wire [of dev p x h] by (simp add: commands_def)

lemma select_master_log: "select_master dev ports h = (r, h') \<Longrightarrow> commands h' = commands h"
  using select_master_wire [of dev h] by (simp add: commands_def)

lemma write_flags [simp]:
  "is_write (if b then CMD_WRITE_PIO else CMD_WRITE_EXT, x)" "\<not> is_write (if b then CMD_FLUSH else CMD_FLUSH_EXT, x)"
  "\<not> is_ext CMD_WRITE_PIO" "is_ext CMD_WRITE_EXT" "\<not> is_ext CMD_READ_PIO" "is_ext CMD_READ_EXT"
  by (simp_all add: is_write_def is_ext_def)

text \<open>One attempt sends at most one write command, for the given sector, with no data or with the whole of it.\<close>

lemma write_internal_log:
  assumes "lba \<le> LBA48_MAX" "write_sector_raw_internal dev ports lba buf h = (r, h')"
  shows "\<exists>ks. sector_writes h' = sector_writes h @ ks \<and> (ks = [] \<or> ks = [(lba, [])] \<or> ks = [(lba, sector_words buf)]) \<and>
    (\<forall>x. r = Inr x \<longrightarrow> ks = [(lba, sector_words buf)])"
proof -
  from assms(2) show ?thesis
    unfolding write_sector_raw_internal_def
  proof (cases rule: bindE_cases)
    case (err e)
    with wait_ready_log show ?thesis by (fastforce simp: sector_writes_def)
  next
    case (val y h1)
    define h2 where "h2 = ata_delay dev ports (start_command ports lba CMD_WRITE_PIO CMD_WRITE_EXT h1)"
    have c1: "commands h1 = commands h" using wait_ready_log [OF val(1)] .
    have c2: "commands h2 = commands h @ [(if lba \<le> LBA28_MAX then CMD_WRITE_PIO else CMD_WRITE_EXT, lba, [])]"
      using start_command_log [OF assms(1), of CMD_WRITE_PIO CMD_WRITE_EXT h1] c1 by (simp add: h2_def commands_def)
    from val(2) show ?thesis
      unfolding h2_def [symmetric]
    proof (cases rule: bindE_cases)
      case (err e)
      with wait_drq_log [OF err(1)] c2 show ?thesis by (simp add: sector_writes_def)
    next
      case (val z h3)
      have c4: "commands (write_words ports buf h3) =
          commands h @ [(if lba \<le> LBA28_MAX then CMD_WRITE_PIO else CMD_WRITE_EXT, lba, sector_words buf)]"
        using write_words_log [of h3] wait_drq_log [OF val(1)] c2 by simp
      from val(2) show ?thesis
      proof (cases rule: bindE_cases)
        case (err e)
        with wait_ready_log [OF err(1)] c4 show ?thesis by (simp add: sector_writes_def)
      next
        case (val z' h5)
        define h6 where "h6 = out8 (bp_status ports) (if lba \<le> LBA28_MAX then CMD_FLUSH else CMD_FLUSH_EXT) h5"
        have "sector_writes h6 = sector_writes h @ [(lba, sector_words buf)]"
          using wait_ready_log [OF val(1)] c4 by (simp add: h6_def sector_writes_def commands_def)
        moreover have "commands h' = commands h6"
          using val(2) unfolding h6_def [symmetric]
          by (cases rule: bindE_cases) (use wait_ready_log check_err_log in \<open>fastforce\<close>)+
        ultimately show ?thesis by (simp add: sector_writes_def)
      qed
    qed
  qed
qed

end
