(* ===== verification/Disk_Write.thy ===== *)
theory Disk_Write
  imports Disk_Wire
begin

text \<open>
  Which sectors a write touches. A sector may be sent more than once, because an attempt that fails after the data transfer is
  repeated; leaving out commands without data and repetitions, the writes are the sectors of the image in order, all of them
  when the routine succeeds and a prefix when it fails.
\<close>

section \<open>Attempts\<close>

definition effective :: "(u64 \<times> u16 list) list \<Rightarrow> (u64 \<times> u16 list) list" where
  "effective ks = remdups_adj (filter (\<lambda>k. snd k \<noteq> []) ks)"

text \<open>A routine writes a sector: it sends write commands for this sector only, and the sector's words if it succeeds.\<close>

definition only_sector :: "u64 \<Rightarrow> u16 list \<Rightarrow> hist \<Rightarrow> hist \<Rightarrow> bool \<Rightarrow> bool" where
  "only_sector lba ws h h' ok \<longleftrightarrow>
     (\<exists>ks. sector_writes h' = sector_writes h @ ks \<and> set ks \<subseteq> {(lba, []), (lba, ws)} \<and> (ok \<longrightarrow> (lba, ws) \<in> set ks))"

lemma only_sector_same: "sector_writes h' = sector_writes h \<Longrightarrow> only_sector lba ws h h' False"
  by (simp add: only_sector_def)

lemma only_sector_trans: "only_sector lba ws h h1 ok1 \<Longrightarrow> only_sector lba ws h1 h2 ok \<Longrightarrow> only_sector lba ws h h2 ok"
  unfolding only_sector_def by fastforce

lemma ata_reset_log [simp]: "commands (ata_reset dev h) = commands h"
  by (rule commands_wire) simp

lemma attempts_log:
  assumes "\<And>h r h'. op h = (r, h') \<Longrightarrow> only_sector lba ws h h' (\<exists>x. r = Inr x)" "attempts dev ports as op h = (r, h')"
  shows "only_sector lba ws h h' (\<exists>x. r = Inr x)"
  using assms(2)
proof (induction "as" arbitrary: h)
  case Nil
  then show ?case by (auto simp: only_sector_same)
next
  case (Cons a as)
  obtain r1 h1 where op: "op h = (r1, h1)" by fastforce
  note o = assms(1) [OF op]
  show ?case
  proof (cases "\<exists>e. r1 = Inl (DiskError e) \<and> a < MAX_RETRY - 1")
    case False
    then have "(r, h') = (r1, h1)" using Cons.prems op by (cases r1) (auto split: ata_error.splits if_splits)
    with o show ?thesis by simp
  next
    case True
    then have "bindE (select_master dev ports (ata_reset dev h1)) (\<lambda>_. attempts dev ports as op) = (r, h')" and
      f: "only_sector lba ws h h1 False"
      using Cons.prems op o by auto
    then show ?thesis
    proof (cases rule: bindE_cases)
      case (err e)
      then have "sector_writes h' = sector_writes h1" using select_master_log [OF err(1)] by (simp add: sector_writes_def)
      from only_sector_trans [OF f only_sector_same [OF this]] err(2) show ?thesis by simp
    next
      case (val y h2)
      then have "sector_writes h2 = sector_writes h1" using select_master_log [OF val(1)] by (simp add: sector_writes_def)
      from only_sector_trans [OF only_sector_trans [OF f only_sector_same [OF this]] Cons.IH [OF val(2)]] show ?thesis .
    qed
  qed
qed

lemma write_attempts_log:
  assumes "lba \<le> LBA48_MAX" "write_attempts dev ports lba buf h = (r, h')"
  shows "only_sector lba (sector_words buf) h h' (\<exists>x. r = Inr x)"
proof -
  have "only_sector lba (sector_words buf) h1 h2 (\<exists>x. r' = Inr x)"
    if "write_sector_raw_internal dev ports lba buf h1 = (r', h2)" for h1 r' h2
    using write_internal_log [OF assms(1) that] unfolding only_sector_def by fastforce
  from attempts_log [OF this] assms(2) show ?thesis by (simp add: write_attempts_def)
qed

section \<open>Several sectors\<close>

text \<open>The image: the sector numbers with the words that belong there.\<close>

fun disk_image :: "u64 \<Rightarrow> u8 list list \<Rightarrow> (u64 \<times> u16 list) list" where
  "disk_image lba [] = []"
| "disk_image lba (c # cs) = (lba, sector_words (pad_sector c)) # disk_image (lba + 1) cs"

lemma length_disk_image [simp]: "length (disk_image lba cs) = length cs"
  by (induction cs arbitrary: lba) simp_all

lemma sector_words_nonempty: "sector_words buf \<noteq> []"
  by (metis length_sector_words list.size(3) zero_neq_numeral)

lemma effective_one:
  assumes "set ks \<subseteq> {(lba, []), (lba, ws)}" "ws \<noteq> []"
  shows "effective ks = (if (lba, ws) \<in> set ks then [(lba, ws)] else [])"
  using assms(1)
proof (induction ks)
  case Nil
  then show ?case by (simp add: effective_def)
next
  case (Cons k ks)
  then have ih: "remdups_adj (filter (\<lambda>k. snd k \<noteq> []) ks) = (if (lba, ws) \<in> set ks then [(lba, ws)] else [])"
    by (simp add: effective_def)
  then have "hd (filter (\<lambda>k. snd k \<noteq> []) ks) = (lba, ws)" if "(lba, ws) \<in> set ks"
    using that by (metis hd_remdups_adj list.sel(1))
  with Cons.prems ih assms(2) show ?case
    by (auto simp: effective_def remdups_adj_Cons split: list.splits)
qed

lemma effective_append:
  assumes "effective ks = [(lba, ws)]" "\<forall>k \<in> set (effective ls). fst k \<noteq> lba"
  shows "effective (ks @ ls) = (lba, ws) # effective ls"
proof -
  let ?f = "filter (\<lambda>k. snd k \<noteq> [])"
  have s: "set (?f ks) = {(lba, ws)}" using arg_cong [OF assms(1), of set] unfolding effective_def remdups_adj_set by simp
  then have n: "?f ks \<noteq> []" by force
  then have l: "last (?f ks) = (lba, ws)" using last_in_set [OF n] unfolding s by simp
  have "fst (hd (?f ls)) \<noteq> lba" if "?f ls \<noteq> []"
    using assms(2) that unfolding effective_def by (metis hd_in_set hd_remdups_adj remdups_adj_Nil_iff)
  with n l have "remdups_adj (?f ks @ ?f ls) = remdups_adj (?f ks) @ remdups_adj (?f ls)"
    by (intro remdups_adj_append') (metis fst_conv)
  with assms(1) show ?thesis by (simp add: effective_def)
qed

lemma next_sector: "unat lba + 1 < 2 ^ 64 \<Longrightarrow> unat (lba + 1 :: u64) = unat lba + 1"
  by (simp add: unat_word_ariths)

lemma image_sectors:
  assumes "unat lba + length cs \<le> unat LBA48_MAX + 1" "k \<in> set (disk_image lba cs)"
  shows "unat lba \<le> unat (fst k)"
  using assms
proof (induction cs arbitrary: lba)
  case Nil
  then show ?case by simp
next
  case (Cons c cs)
  have u: "unat (lba + 1) = unat lba + 1" using Cons.prems(1) by (intro next_sector) (simp add: LBA48_MAX_def)
  have b: "unat (lba + 1) + length cs \<le> unat LBA48_MAX + 1" using Cons.prems(1) unfolding u by simp
  from Cons.prems(2) consider "k = (lba, sector_words (pad_sector c))" | "k \<in> set (disk_image (lba + 1) cs)" by auto
  then show ?case
  proof cases
    case 1
    then show ?thesis by simp
  next
    case 2
    from Cons.IH [OF b this] u show ?thesis by simp
  qed
qed

lemma write_chunks_log:
  assumes "unat lba + length cs \<le> unat LBA48_MAX + 1" "write_chunks dev ports lba cs h = (r, h')"
  shows "\<exists>ks j. sector_writes h' = sector_writes h @ ks \<and> fst ` set ks \<subseteq> fst ` set (disk_image lba cs) \<and>
    effective ks = take j (disk_image lba cs) \<and> (r = Inr () \<longrightarrow> j = length cs)"
  using assms
proof (induction cs arbitrary: lba h)
  case Nil
  then show ?case by (intro exI [of _ "[]"]) (simp add: effective_def)
next
  case (Cons c cs)
  have u1: "unat (lba + 1) = unat lba + 1" using Cons.prems(1) by (intro next_sector) (simp add: LBA48_MAX_def)
  have lba: "lba \<le> LBA48_MAX" using Cons.prems(1) by (simp add: word_le_nat_alt)
  let ?ws = "sector_words (pad_sector c)"
  from Cons.prems(2) show ?case unfolding write_chunks.simps
  proof (cases rule: bindE_cases)
    case (err e)
    from write_attempts_log [OF lba err(1)] obtain ks where
      ks: "sector_writes h' = sector_writes h @ ks" "set ks \<subseteq> {(lba, []), (lba, ?ws)}" by (auto simp: only_sector_def)
    have "effective ks = take (if (lba, ?ws) \<in> set ks then 1 else 0) (disk_image lba (c # cs))"
      using effective_one [OF ks(2) sector_words_nonempty] by simp
    moreover have "fst ` set ks \<subseteq> fst ` set (disk_image lba (c # cs))" using ks(2) by auto
    ultimately show ?thesis using ks(1) err(2) by blast
  next
    case (val y h1)
    from write_attempts_log [OF lba val(1)] obtain ks where
      ks: "sector_writes h1 = sector_writes h @ ks" "set ks \<subseteq> {(lba, []), (lba, ?ws)}" "(lba, ?ws) \<in> set ks"
      by (auto simp: only_sector_def)
    have e1: "effective ks = [(lba, ?ws)]" using effective_one [OF ks(2) sector_words_nonempty] ks(3) by simp
    have b: "unat (lba + 1) + length cs \<le> unat LBA48_MAX + 1" using Cons.prems(1) unfolding u1 by simp
    from Cons.IH [OF b val(2)] obtain ls j where
      ls: "sector_writes h' = sector_writes h1 @ ls" "fst ` set ls \<subseteq> fst ` set (disk_image (lba + 1) cs)"
        "effective ls = take j (disk_image (lba + 1) cs)" "r = Inr () \<longrightarrow> j = length cs" by blast
    have "lba \<notin> fst ` set (disk_image (lba + 1) cs)" using image_sectors [OF b] u1 by fastforce
    then have "\<forall>k \<in> set (effective ls). fst k \<noteq> lba" unfolding ls(3) by (metis image_eqI in_set_takeD)
    from effective_append [OF e1 this] have "effective (ks @ ls) = take (Suc j) (disk_image lba (c # cs))" by (simp add: ls(3))
    moreover have "fst ` set (ks @ ls) \<subseteq> fst ` set (disk_image lba (c # cs))" using ks(2) ls(2) by auto
    ultimately show ?thesis using ks(1) ls(1,4) by (intro exI [of _ "ks @ ls"] exI [of _ "Suc j"]) simp
  qed
qed

section \<open>Whole images\<close>

lemma length_chunks: "length (chunks xs) = sectors_needed (length xs)"
proof (induction xs rule: chunks.induct)
  case (1 xs)
  show ?case
  proof (cases "xs = []")
    case True
    then show ?thesis by (simp add: chunks.simps sectors_needed_def)
  next
    case False
    then have "length xs \<noteq> 0" by simp
    then have "sectors_needed (length xs) = Suc (sectors_needed (length xs - 512))"
      by (cases "512 \<le> length xs") (auto simp: sectors_needed_def le_div_geq not_le Suc_leI)
    with False 1 show ?thesis by (subst chunks.simps) simp
  qed
qed

lemma length_mem_slice [simp]: "length (mem_slice m a n) = n"
  by (simp add: mem_slice_def)

definition sent_image :: "u64 \<Rightarrow> u8 list list \<Rightarrow> hist \<Rightarrow> hist \<Rightarrow> nat \<Rightarrow> bool" where
  "sent_image lba cs h h' j \<longleftrightarrow>
     (\<exists>ks. sector_writes h' = sector_writes h @ ks \<and> fst ` set ks \<subseteq> fst ` set (disk_image lba cs) \<and> effective ks = take j (disk_image lba cs))"

lemma sent_nothing: "sector_writes h' = sector_writes h \<Longrightarrow> sent_image lba cs h h' 0"
  by (simp add: sent_image_def effective_def)

definition send_chunks :: "disk_env \<Rightarrow> u64 \<Rightarrow> u8 list list \<Rightarrow> 'a \<Rightarrow> 'a ata" where
  "send_chunks E lba cs k h = bindE (select_master (de_dev E) ports h) (\<lambda>_ h1. bindE (write_chunks (de_dev E) ports lba cs h1) (\<lambda>_ h2. (Inr k, h2)))"

lemma image_sent:
  assumes b: "unat lba + length cs \<le> unat LBA48_MAX + 1" and sw: "send_chunks E lba cs k h = (r, h')"
  shows "\<exists>j. sent_image lba cs h h' j \<and> (case r of Inr x \<Rightarrow> x = k \<and> j = length cs | Inl _ \<Rightarrow> True)"
  using sw unfolding send_chunks_def
proof (cases rule: bindE_cases)
  case (err e)
  then have "sector_writes h' = sector_writes h" using select_master_log [OF err(1)] by (simp add: sector_writes_def)
  from sent_nothing [OF this] err(2) show ?thesis by auto
next
  case (val y h1)
  have s1: "sector_writes h1 = sector_writes h" using select_master_log [OF val(1)] by (simp add: sector_writes_def)
  from val(2) show ?thesis
  proof (cases rule: bindE_cases)
    case (err e)
    from write_chunks_log [OF b err(1)] s1 err(2) show ?thesis unfolding sent_image_def by auto
  next
    case (val z h2)
    from write_chunks_log [OF b val(1)] s1 val(2) show ?thesis unfolding sent_image_def by auto
  qed
qed

text \<open>C6: write_bytes, on any drive and whatever fails, sends write commands only for the sectors from \<open>lba\<close> on that its
data needs, in order, each with the bytes of its part of the data padded with zeros; when it succeeds the whole image has been
sent, and its result is the number of sectors, at most \<open>max_sectors\<close>.\<close>

theorem write_bytes_sends_image:
  assumes "lba \<le> LBA48_MAX"
  shows "case write_bytes E m lba ptr n mx s of (r, s') \<Rightarrow>
    \<exists>j. sent_image lba (chunks (mem_slice m ptr n)) (dk_hist s) (dk_hist s') j \<and>
      (case r of Inr k \<Rightarrow> unat k = sectors_needed n \<and> k \<le> mx \<and> j = sectors_needed n | Inl _ \<Rightarrow> True)"
proof (cases "n = 0 \<or> sectors_needed n > unat mx \<or> lba + of_nat (sectors_needed n) > LBA48_MAX")
  case True
  moreover have "sent_image lba (chunks (mem_slice m ptr n)) (dk_hist s) (dk_hist s) 0" by (rule sent_nothing) simp
  ultimately show ?thesis by (auto simp: write_bytes_def sectors_needed_def)
next
  case False
  let ?cs = "chunks (mem_slice m ptr n)"
  let ?k = "of_nat (sectors_needed n) :: u32"
  obtain gate g where g: "disk_gate_write (de_crcs E) lba ?k 0 (Some (\<lambda>i. m (ptr + of_nat i))) (dk_gate s) = (gate, g)" by fastforce
  have w: "write_bytes E m lba ptr n mx s =
      (if gate \<noteq> 0 then (Inl (SecurityDenied gate), s\<lparr>dk_gate := g\<rparr>) else on_hist (send_chunks E lba ?cs ?k) (s\<lparr>dk_gate := g\<rparr>))"
    using False g by (simp add: write_bytes_def send_chunks_def [abs_def] del: of_nat_eq_iff)
  have fit: "sectors_needed n \<le> unat mx" using False by simp
  note small = le_less_trans [OF fit unat_u32_less]
  then have k: "unat ?k = sectors_needed n" using small by (simp add: unat_of_nat)
  have "unat lba \<le> unat LBA48_MAX" using assms by (simp add: word_le_nat_alt)
  then have "unat (lba + of_nat (sectors_needed n)) = unat lba + sectors_needed n"
    using small by (simp add: unat_word_ariths unat_of_nat LBA48_MAX_def)
  then have b: "unat lba + length ?cs \<le> unat LBA48_MAX + 1" using False by (simp add: length_chunks word_less_nat_alt not_less)
  obtain r h' where sw: "send_chunks E lba ?cs ?k (dk_hist s) = (r, h')" by fastforce
  show ?thesis
  proof (cases "gate = 0")
    case False
    then show ?thesis unfolding w using sent_nothing [of "dk_hist s" "dk_hist s"] by auto
  next
    case True
    obtain j where j: "sent_image lba ?cs (dk_hist s) h' j" "case r of Inr x \<Rightarrow> x = ?k \<and> j = length ?cs | Inl _ \<Rightarrow> True"
      using image_sent [OF b sw] by blast
    have "case r of Inr x \<Rightarrow> unat x = sectors_needed n \<and> x \<le> mx \<and> j = sectors_needed n | Inl _ \<Rightarrow> True"
      using j(2) k fit by (auto simp: length_chunks word_le_nat_alt split: sum.splits)
    with j(1) show ?thesis unfolding w by (auto simp: True on_hist_def sw)
  qed
qed

end
