(* ===== verification/Disk_Read.thy ===== *)
theory Disk_Read
  imports Disk_Write
begin

text \<open>
  Reading back from a healthy drive: one that is never busy or in error, asks for data while a transfer is under way, and
  answers a read with the last words that were stored in the sector. What the driver writes, it reads.
\<close>

section \<open>Healthy drives\<close>

definition is_read :: "command \<Rightarrow> bool" where
  "is_read cmd \<longleftrightarrow> fst cmd = CMD_READ_PIO \<or> fst cmd = CMD_READ_EXT"

definition stored :: "hist \<Rightarrow> u64 \<Rightarrow> u16 list option" where
  "stored h lba = map_option snd (find (\<lambda>(l, d). l = lba \<and> length d = 256) (rev (sector_writes h)))"

definition in_transfer :: "hist \<Rightarrow> bool" where
  "in_transfer h \<longleftrightarrow> commands h \<noteq> [] \<and>
     (case last (commands h) of (c, lba, d) \<Rightarrow> (is_read (c, lba, d) \<or> is_write (c, lba, d)) \<and> length d < 256)"

definition healthy_drive :: "drive \<Rightarrow> bool" where
  "healthy_drive dev \<longleftrightarrow>
     (\<forall>h. ucast (dev h 0x1F7) AND STATUS_BSY = 0 \<and> ucast (dev h 0x1F7) AND STATUS_ERR = 0 \<and> ucast (dev h 0x1F7) AND STATUS_DF = 0 \<and>
        (in_transfer h \<longrightarrow> ucast (dev h 0x1F7) AND STATUS_DRQ \<noteq> 0)) \<and>
     (\<forall>h cs c lba d ws. commands h = cs @ [(c, lba, d)] \<and> is_read (c, lba, d) \<and> stored h lba = Some ws \<and> length d < 256
        \<longrightarrow> dev h 0x1F0 = ws ! length d)"

lemma read_write: "is_read c \<Longrightarrow> \<not> is_write c"
  by (auto simp: is_read_def is_write_def)

lemma in8_eq: "in8 dev port h = (ucast (dev h port), h @ [In8 port (ucast (dev h port))])"
  by (simp add: in8_def Let_def)

lemma status:
  assumes "healthy_drive dev"
  shows "ucast (dev h 0x1F7) AND STATUS_BSY = 0" "ucast (dev h 0x1F7) AND STATUS_ERR = 0" "ucast (dev h 0x1F7) AND STATUS_DF = 0"
    "in_transfer h \<Longrightarrow> ucast (dev h 0x1F7) AND STATUS_DRQ \<noteq> 0"
  using assms unfolding healthy_drive_def by blast+

lemma healthy_answer:
  "healthy_drive dev \<Longrightarrow> commands h = cs @ [(c, lba, d)] \<Longrightarrow> is_read (c, lba, d) \<Longrightarrow> stored h lba = Some ws \<Longrightarrow> length d < 256 \<Longrightarrow>
    dev h 0x1F0 = ws ! length d"
  unfolding healthy_drive_def by blast

lemma wait_not_busy_healthy: "healthy_drive dev \<Longrightarrow> wait_not_busy dev ports h = (Inr (), snd (in8 dev 0x1F7 h))"
  by (simp add: wait_not_busy_def busy_loop.simps [of dev ports 0 h] in8_eq status)

lemma wait_ready_healthy:
  assumes "healthy_drive dev"
  shows "\<exists>h'. wait_ready dev ports h = (Inr (), h') \<and> wire_of h' = wire_of h"
proof -
  have "\<exists>h'. wait_ready dev ports h = (Inr (), h')"
    by (simp add: wait_ready_def wait_not_busy_healthy [OF assms] in8_eq status [OF assms])
  then show ?thesis using wait_ready_wire [of dev ports h] by (metis snd_conv)
qed

lemma select_master_healthy:
  assumes "healthy_drive dev"
  shows "\<exists>h'. select_master dev ports h = (Inr (), h') \<and> commands h' = commands h"
proof -
  have "\<exists>h'. select_master dev ports h = (Inr (), h')" by (simp add: select_master_def wait_not_busy_healthy [OF assms])
  then show ?thesis using select_master_log by blast
qed

lemma wait_drq_healthy:
  assumes "healthy_drive dev" "in_transfer h"
  shows "\<exists>h'. wait_drq dev ports h = (Inr (), h') \<and> wire_of h' = wire_of h"
proof -
  have "\<exists>h'. wait_drq dev ports h = (Inr (), h')"
    by (simp add: wait_drq_def drq_loop.simps [of dev ports 0 h] in8_eq status [OF assms(1)] status(4) [OF assms])
  then show ?thesis using wait_drq_wire [of dev ports h] by (metis snd_conv)
qed

lemma check_err_healthy: "healthy_drive dev \<Longrightarrow> \<exists>h'. check_err dev ports x h = (Inr x, h') \<and> wire_of h' = wire_of h"
  by (simp add: check_err_def in8_eq status)

section \<open>Words and bytes\<close>

definition word_bytes :: "u16 \<Rightarrow> u8 list" where
  "word_bytes w = [ucast (w AND 0xFF), ucast (drop_bit 8 w)]"

definition bytes_of :: "u16 list \<Rightarrow> u8 list" where
  "bytes_of ws = concat (map word_bytes ws)"

lemma length_bytes_of [simp]: "length (bytes_of ws) = 2 * length ws"
  by (induction ws) (simp_all add: bytes_of_def word_bytes_def)

lemma bytes_of_drop: "drop (2 * k) (bytes_of ws) = bytes_of (drop k ws)"
proof (induction k arbitrary: ws)
  case 0
  then show ?case by simp
next
  case (Suc k)
  then show ?case by (cases ws) (simp_all add: bytes_of_def word_bytes_def)
qed

lemma word_bytes_pair: "word_bytes (ucast a OR push_bit 8 (ucast b)) = [a, b]"
proof -
  have e: "(0xFF :: u16) = mask 8" by (simp add: mask_eq_exp_minus_1)
  have "ucast ((ucast a OR push_bit 8 (ucast b) :: u16) AND 0xFF) = a" unfolding e
    by (rule bit_eqI) (auto simp: bit_simps)
  moreover have "ucast (drop_bit 8 (ucast a OR push_bit 8 (ucast b) :: u16)) = b"
  proof (rule bit_eqI)
    fix n assume "possible_bit TYPE(8 word) n"
    then have "n < 8" by simp
    then show "bit (ucast (drop_bit 8 (ucast a OR push_bit 8 (ucast b) :: u16)) :: u8) n = bit b n"
      using bit_imp_le_length [of a "8 + n"] by (auto simp: bit_simps)
  qed
  ultimately show ?thesis by (simp add: word_bytes_def)
qed

lemma bytes_of_sector_words:
  assumes "length buf = 512"
  shows "bytes_of (sector_words buf) = buf"
proof -
  have "n \<le> 256 \<Longrightarrow> bytes_of (map (sector_word buf) [0..<n]) = take (2 * n) buf" for n
  proof (induction n)
    case 0
    then show ?case by (simp add: bytes_of_def)
  next
    case (Suc n)
    have "bytes_of (map (sector_word buf) [0..<Suc n]) = bytes_of (map (sector_word buf) [0..<n]) @ word_bytes (sector_word buf n)"
      by (simp add: bytes_of_def)
    also have "\<dots> = take (2 * n) buf @ [buf ! (n * 2), buf ! (n * 2 + 1)]"
      using Suc unfolding sector_word_def word_bytes_pair by simp
    also have "\<dots> = take (2 * Suc n) buf"
      using Suc.prems assms by (simp add: take_Suc_conv_app_nth mult.commute)
    finally show ?case .
  qed
  from this [of 256] assms show ?thesis by (simp add: sector_words_def)
qed

section \<open>Reading a sector\<close>

lemma sector_writes_read: "commands h' = commands h @ [c] \<Longrightarrow> is_read c \<Longrightarrow> sector_writes h' = sector_writes h"
  using read_write by (simp add: sector_writes_def)

lemma read_words_stored:
  assumes dev: "healthy_drive dev" and ws: "length ws = 256" "stored h0 lba = Some ws" and rd: "is_read (c, lba, [])"
  shows "k \<le> 256 \<Longrightarrow> length buf = 512 \<Longrightarrow> commands h = commands h0 @ [(c, lba, take k ws)] \<Longrightarrow>
    \<exists>h'. read_words dev ports [k..<256] buf h = (take (2 * k) buf @ drop (2 * k) (bytes_of ws), h') \<and>
      commands h' = commands h0 @ [(c, lba, ws)]"
proof (induction "256 - k" arbitrary: k buf h)
  case 0
  then show ?case using ws(1) by simp
next
  case (Suc n)
  then have k: "k < 256" by simp
  have isr: "is_read (c, lba, d)" for d using rd by (simp add: is_read_def)
  have "stored h lba = Some ws"
    using ws(2) sector_writes_read [OF Suc.prems(3) isr] by (simp add: stored_def)
  moreover have "length (take k ws) < 256" using k ws(1) by simp
  ultimately have w: "dev h 0x1F0 = ws ! k"
    using healthy_answer [OF dev Suc.prems(3) isr] k ws(1) by simp
  let ?h1 = "h @ [In16 0x1F0 (ws ! k)]"
  let ?buf = "buf[k * 2 := ucast (ws ! k AND 0xFF), k * 2 + 1 := ucast (drop_bit 8 (ws ! k))]"
  have c1: "commands ?h1 = commands h0 @ [(c, lba, take (Suc k) ws)]"
    using Suc.prems(3) k ws(1) by (simp add: commands_def add_word_def take_Suc_conv_app_nth)
  have n: "n = 256 - Suc k" using Suc.hyps(2) by simp
  have p: "Suc k \<le> 256" "length ?buf = 512" using k Suc.prems(2) by simp_all
  from Suc.hyps(1) [OF n p c1] obtain h' where
    h': "read_words dev ports [Suc k..<256] ?buf ?h1 = (take (2 * Suc k) ?buf @ drop (2 * Suc k) (bytes_of ws), h')"
      "commands h' = commands h0 @ [(c, lba, ws)]" by blast
  have "take (2 * Suc k) ?buf = take (2 * k) buf @ word_bytes (ws ! k)"
    using k Suc.prems(2) by (simp add: word_bytes_def take_Suc_conv_app_nth mult.commute nth_list_update_if)
  moreover have "drop (2 * k) (bytes_of ws) = word_bytes (ws ! k) @ drop (2 * Suc k) (bytes_of ws)"
    using bytes_of_drop [of k ws] bytes_of_drop [of "Suc k" ws] k ws(1) by (simp add: Cons_nth_drop_Suc [symmetric] bytes_of_def)
  ultimately have "take (2 * Suc k) ?buf @ drop (2 * Suc k) (bytes_of ws) = take (2 * k) buf @ drop (2 * k) (bytes_of ws)" by simp
  with h' w k show ?case by (simp add: upt_conv_Cons in16_def Let_def)
qed

lemma read_internal_stored:
  assumes dev: "healthy_drive dev" and lba: "lba \<le> LBA48_MAX" and ws: "length ws = 256" "stored h lba = Some ws"
  shows "\<exists>h'. read_sector_raw_internal dev ports lba h = (Inr (bytes_of ws), h') \<and> sector_writes h' = sector_writes h"
proof -
  obtain h1 where h1: "wait_ready dev ports h = (Inr (), h1)" "wire_of h1 = wire_of h" using wait_ready_healthy [OF dev] by blast
  let ?c = "if lba \<le> LBA28_MAX then CMD_READ_PIO else CMD_READ_EXT"
  let ?h2 = "ata_delay dev ports (start_command ports lba CMD_READ_PIO CMD_READ_EXT h1)"
  have c2: "commands ?h2 = commands h @ [(?c, lba, [])]"
    using start_command_log [OF lba, of CMD_READ_PIO CMD_READ_EXT h1] h1(2) by (simp add: commands_def)
  have rd: "is_read (?c, lba, d)" for d by (simp add: is_read_def)
  have "in_transfer ?h2" using rd [of "[]"] unfolding in_transfer_def c2 by simp
  from wait_drq_healthy [OF dev this] obtain h3 where h3: "wait_drq dev ports ?h2 = (Inr (), h3)" "wire_of h3 = wire_of ?h2" by blast
  have "commands h3 = commands h @ [(?c, lba, take 0 ws)]" using c2 h3(2) by (simp add: commands_def)
  then have "\<exists>h'. read_words dev ports [0..<256] (replicate 512 0) h3 = (take (2 * 0) (replicate 512 0) @ drop (2 * 0) (bytes_of ws), h') \<and>
      commands h' = commands h @ [(?c, lba, ws)]"
    by (intro read_words_stored [OF dev ws rd le0 length_replicate])
  then obtain h4 where h4: "read_words dev ports [0..<256] (replicate 512 0) h3 = (bytes_of ws, h4)"
      "commands h4 = commands h @ [(?c, lba, ws)]" unfolding mult_0_right take_0 drop_0 append_Nil by blast
  obtain h5 where h5: "check_err dev ports (bytes_of ws) h4 = (Inr (bytes_of ws), h5)" "wire_of h5 = wire_of h4"
    using check_err_healthy [OF dev, of "bytes_of ws" h4] by blast
  have "sector_writes h5 = sector_writes h"
    using sector_writes_read [OF h4(2) rd] h5(2) by (simp add: sector_writes_def commands_def)
  moreover have "read_sector_raw_internal dev ports lba h = (Inr (bytes_of ws), h5)"
    by (simp add: read_sector_raw_internal_def h1(1) h3(1) h4(1) h5(1))
  ultimately show ?thesis by blast
qed

lemma read_sector_raw_stored:
  assumes dev: "healthy_drive (de_dev E)" and lba: "lba \<le> LBA48_MAX" and ws: "length ws = 256" "stored (dk_hist s) lba = Some ws"
  shows "\<exists>h'. read_sector_raw E lba s = (Inr (bytes_of ws), s\<lparr>dk_hist := h'\<rparr>) \<and> sector_writes h' = sector_writes (dk_hist s)"
proof -
  obtain h1 where h1: "select_master (de_dev E) ports (dk_hist s) = (Inr (), h1)" "commands h1 = commands (dk_hist s)"
    using select_master_healthy [OF dev] by blast
  have "stored h1 lba = Some ws" using ws(2) h1(2) by (simp add: stored_def sector_writes_def)
  from read_internal_stored [OF dev lba ws(1) this] h1 lba show ?thesis
    by (auto simp: read_sector_raw_def on_hist_def sector_writes_def)
qed

section \<open>Writing a sector\<close>

lemma write_internal_healthy:
  assumes dev: "healthy_drive dev" and lba: "lba \<le> LBA48_MAX"
  shows "\<exists>h'. write_sector_raw_internal dev ports lba buf h = (Inr (), h')"
proof -
  obtain h1 where h1: "wait_ready dev ports h = (Inr (), h1)" using wait_ready_healthy [OF dev] by blast
  let ?c = "if lba \<le> LBA28_MAX then CMD_WRITE_PIO else CMD_WRITE_EXT"
  let ?h2 = "ata_delay dev ports (start_command ports lba CMD_WRITE_PIO CMD_WRITE_EXT h1)"
  have "commands ?h2 = commands h1 @ [(?c, lba, [])]"
    using start_command_log [OF lba, of CMD_WRITE_PIO CMD_WRITE_EXT h1] by (simp add: commands_def)
  then have "in_transfer ?h2" by (simp add: in_transfer_def)
  from wait_drq_healthy [OF dev this] obtain h3 where h3: "wait_drq dev ports ?h2 = (Inr (), h3)" by blast
  obtain h4 where h4: "wait_ready dev ports (write_words ports buf h3) = (Inr (), h4)" using wait_ready_healthy [OF dev] by blast
  obtain h5 where h5: "wait_ready dev ports (out8 (bp_status ports) (if lba \<le> LBA28_MAX then CMD_FLUSH else CMD_FLUSH_EXT) h4) = (Inr (), h5)"
    using wait_ready_healthy [OF dev] by blast
  obtain h6 where h6: "check_err dev ports () h5 = (Inr (), h6)" using check_err_healthy [OF dev, of "()" h5] by blast
  show ?thesis unfolding write_sector_raw_internal_def h1 bindE.simps h3 h4 h5 h6 by blast
qed

lemma stored_only:
  assumes "only_sector lba ws h h' True" "length ws = 256"
  shows "stored h' l = (if l = lba then Some ws else stored h l)"
proof -
  obtain ks where ks: "sector_writes h' = sector_writes h @ ks" "set ks \<subseteq> {(lba, []), (lba, ws)}" "(lba, ws) \<in> set ks"
    using assms(1) by (auto simp: only_sector_def)
  have "set rs \<subseteq> {(lba, []), (lba, ws)} \<Longrightarrow>
      find (\<lambda>(x, d). x = l \<and> length d = 256) (rs @ zs) =
        (if l = lba \<and> (lba, ws) \<in> set rs then Some (lba, ws) else find (\<lambda>(x, d). x = l \<and> length d = 256) zs)" for rs zs
    using assms(2) by (induction rs) auto
  from this [of "rev ks" "rev (sector_writes h)"] ks show ?thesis by (auto simp: stored_def)
qed

lemma write_attempts_healthy:
  assumes dev: "healthy_drive dev" and lba: "lba \<le> LBA48_MAX"
  shows "\<exists>h'. write_attempts dev ports lba buf h = (Inr (), h') \<and> (\<forall>l. stored h' l = (if l = lba then Some (sector_words buf) else stored h l))"
proof -
  obtain h' where "write_attempts dev ports lba buf h = (Inr (), h')"
    using write_internal_healthy [OF dev lba, of buf h] by (auto simp: write_attempts_def upt_rec)
  with stored_only [of lba "sector_words buf" h h'] write_attempts_log [OF lba this] show ?thesis by simp
qed

lemma send_sector_healthy:
  assumes dev: "healthy_drive (de_dev E)" and lba: "lba \<le> LBA48_MAX"
  shows "\<exists>h'. on_hist (\<lambda>h. bindE (select_master (de_dev E) ports h) (\<lambda>_. write_attempts (de_dev E) ports lba buf)) s =
      (Inr (), s\<lparr>dk_hist := h'\<rparr>) \<and>
    (\<forall>l. stored h' l = (if l = lba then Some (sector_words buf) else stored (dk_hist s) l))"
proof -
  obtain h1 where h1: "select_master (de_dev E) ports (dk_hist s) = (Inr (), h1)" "commands h1 = commands (dk_hist s)"
    using select_master_healthy [OF dev] by blast
  have "stored h1 l = stored (dk_hist s) l" for l using h1(2) by (simp add: stored_def sector_writes_def)
  with write_attempts_healthy [OF dev lba, of buf h1] h1(1) show ?thesis by (auto simp: on_hist_def)
qed

text \<open>C11: on a healthy drive the only reason for which write_sector fails is the gate, and when it succeeds a raw read of the
sector gives the buffer back, byte for byte, while every other sector that holds data still reads as before.\<close>

theorem sector_reads_back:
  assumes "healthy_drive (de_dev E)" "lba \<le> LBA48_MAX" "length buf = 512"
  shows "case write_sector E lba buf s of
      (Inl e, s') \<Rightarrow> e = SecurityDenied (fst (disk_gate_write (de_crcs E) lba 1 0 (Some (\<lambda>i. buf ! i)) (dk_gate s))) \<and> dk_hist s' = dk_hist s
    | (Inr _, s') \<Rightarrow> fst (read_sector_raw E lba s') = Inr buf \<and>
        (\<forall>l ws. l \<noteq> lba \<and> l \<le> LBA48_MAX \<and> length ws = 256 \<and> stored (dk_hist s) l = Some ws
           \<longrightarrow> fst (read_sector_raw E l s') = fst (read_sector_raw E l s))"
proof -
  obtain gate g where g: "disk_gate_write (de_crcs E) lba 1 0 (Some (\<lambda>i. buf ! i)) (dk_gate s) = (gate, g)" by fastforce
  show ?thesis
  proof (cases "gate = 0")
    case False
    with assms(2) g show ?thesis by (simp add: write_sector_def)
  next
    case True
    obtain h' where o: "on_hist (\<lambda>h. bindE (select_master (de_dev E) ports h) (\<lambda>_. write_attempts (de_dev E) ports lba buf))
          (s\<lparr>dk_gate := g\<rparr>) = (Inr (), (s\<lparr>dk_gate := g\<rparr>)\<lparr>dk_hist := h'\<rparr>)"
      and st: "\<forall>l. stored h' l = (if l = lba then Some (sector_words buf) else stored (dk_hist s) l)"
      using send_sector_healthy [OF assms(1,2), of buf "s\<lparr>dk_gate := g\<rparr>"] by auto
    have w: "write_sector E lba buf s = (Inr (), (s\<lparr>dk_gate := g\<rparr>)\<lparr>dk_hist := h'\<rparr>)"
      using True g assms(2) o by (simp add: write_sector_def not_less)
    have same: "fst (read_sector_raw E l ((s\<lparr>dk_gate := g\<rparr>)\<lparr>dk_hist := h'\<rparr>)) = Inr (bytes_of ws)"
      if "l \<le> LBA48_MAX" "length ws = 256" "stored h' l = Some ws" for l ws
      using read_sector_raw_stored [OF assms(1) that(1,2), of "(s\<lparr>dk_gate := g\<rparr>)\<lparr>dk_hist := h'\<rparr>"] that(3) by auto
    have old: "fst (read_sector_raw E l s) = Inr (bytes_of ws)"
      if "l \<le> LBA48_MAX" "length ws = 256" "stored (dk_hist s) l = Some ws" for l ws
      using read_sector_raw_stored [OF assms(1) that] by auto
    have "fst (read_sector_raw E lba ((s\<lparr>dk_gate := g\<rparr>)\<lparr>dk_hist := h'\<rparr>)) = Inr buf"
      using same [OF assms(2) length_sector_words] st bytes_of_sector_words [OF assms(3)] by simp
    with w same old st show ?thesis by auto
  qed
qed

end
