(* ===== verification/Rootfs.thy ===== *)
theory Rootfs
  imports Disk_Read Kernel_State Debug_Fmt
begin

text \<open>
  The installer (\<^verbatim>\<open>root_file_system/layout.rs\<close>, \<^verbatim>\<open>install.rs\<close>, \<^verbatim>\<open>mod.rs\<close>): at boot the kernel looks for its header in sector 1 and,
  without it, writes the modules that the boot loader passed to their segments of the disk and then the header. Memory is read
  at physical addresses. The text for the serial port is collected; \<open>None\<close> stands for a walk over the boot information that never ends.
\<close>

section \<open>Layout\<close>

record segment_slot =
  sg_lba :: u64
  sg_max :: u32

definition ascii :: "string \<Rightarrow> u8 list" where
  "ascii s = map of_char s"

definition MAGIC :: "u8 list" where "MAGIC = ascii ''COSINST'' @ [0]"
definition HEADER_LBA :: u64 where "HEADER_LBA = 1"
definition SEG_KERNEL :: segment_slot where "SEG_KERNEL = \<lparr>sg_lba = 2048, sg_max = 8192\<rparr>"
definition SEG_DEVSPACE :: segment_slot where "SEG_DEVSPACE = \<lparr>sg_lba = 16384, sg_max = 8192\<rparr>"
definition SEG_FSSERVER :: segment_slot where "SEG_FSSERVER = \<lparr>sg_lba = 32768, sg_max = 4096\<rparr>"
definition SEG_USERSPACE :: segment_slot where "SEG_USERSPACE = \<lparr>sg_lba = 49152, sg_max = 8192\<rparr>"

record install_header =
  ih_magic :: "u8 list"
  ih_kernel_lba :: u64
  ih_kernel_sectors :: u32
  ih_devspace_lba :: u64
  ih_devspace_sectors :: u32
  ih_fsserver_lba :: u64
  ih_fsserver_sectors :: u32
  ih_userspace_lba :: u64
  ih_userspace_sectors :: u32

definition header_zeroed :: install_header where
  "header_zeroed = \<lparr>ih_magic = replicate 8 0, ih_kernel_lba = 0, ih_kernel_sectors = 0, ih_devspace_lba = 0, ih_devspace_sectors = 0,
     ih_fsserver_lba = 0, ih_fsserver_sectors = 0, ih_userspace_lba = 0, ih_userspace_sectors = 0\<rparr>"

definition header_is_valid :: "install_header \<Rightarrow> bool" where
  "header_is_valid h \<longleftrightarrow> ih_magic h = MAGIC"

text \<open>The bytes of the packed structure, with its padding.\<close>

definition header_bytes :: "install_header \<Rightarrow> u8 list" where
  "header_bytes h = ih_magic h @ le_bytes 8 (ih_kernel_lba h) @ le_bytes 4 (ucast (ih_kernel_sectors h)) @
     le_bytes 8 (ih_devspace_lba h) @ le_bytes 4 (ucast (ih_devspace_sectors h)) @
     le_bytes 8 (ih_fsserver_lba h) @ le_bytes 4 (ucast (ih_fsserver_sectors h)) @
     le_bytes 8 (ih_userspace_lba h) @ le_bytes 4 (ucast (ih_userspace_sectors h)) @ replicate 456 0"

section \<open>Modules\<close>

definition le32 :: "(u64 \<Rightarrow> u8) \<Rightarrow> u64 \<Rightarrow> u64" where
  "le32 m a = of_le (mem_slice m a 4)"

partial_function (option) collect_loop ::
    "(u64 \<Rightarrow> u8) \<Rightarrow> u64 \<Rightarrow> u64 \<Rightarrow> u64 \<Rightarrow> nat \<Rightarrow> (u64 \<times> u64) option list \<Rightarrow> (u64 \<times> u64) option list option" where
  "collect_loop m info tot off idx out =
     (if off < tot \<and> idx < 4
      then let typ = le32 m (info + off); sz = le32 m (info + off + 4); lo = le32 m (info + off + 8); hi = le32 m (info + off + 12);
               off' = off + ((sz + 7) AND NOT 7) in
        if typ = 0 then Some out
        else if typ = 3 \<and> hi > lo then collect_loop m info tot off' (idx + 1) (out[idx := Some (lo, hi)])
        else collect_loop m info tot off' idx out
      else Some out)"

declare collect_loop.simps [code]

definition collect_modules :: "(u64 \<Rightarrow> u8) \<Rightarrow> u64 \<Rightarrow> (u64 \<times> u64) option list option" where
  "collect_modules m info =
     (if info = 0 then Some (replicate 4 None) else collect_loop m info (le32 m info) 8 0 (replicate 4 None))"

section \<open>Installation\<close>

record install_result =
  ir_kernel :: u32
  ir_devspace :: u32
  ir_fsserver :: u32
  ir_userspace :: u32

type_synonym disk_out = "disk \<times> string"

definition rootfs_line :: "string \<Rightarrow> string" where
  "rootfs_line s = ''[rootfs] '' @ s @ [CHR 0x0A]"

definition say :: "string \<Rightarrow> disk_out \<Rightarrow> disk_out" where
  "say s = (\<lambda>(d, t). (d, t @ rootfs_line s))"

definition on_disk :: "(disk \<Rightarrow> (ata_error + 'a) \<times> disk) \<Rightarrow> disk_out \<Rightarrow> (ata_error + 'a) \<times> disk_out" where
  "on_disk f = (\<lambda>(d, t). let (r, d') = f d in (r, (d', t)))"

definition install_segment ::
    "disk_env \<Rightarrow> (u64 \<Rightarrow> u8) \<Rightarrow> string \<Rightarrow> segment_slot \<Rightarrow> (u64 \<times> u64) option \<Rightarrow> disk_out \<Rightarrow> (ata_error + u32) \<times> disk_out" where
  "install_segment E m name seg md s =
     (case md of
        Some (lo, hi) \<Rightarrow> on_disk (write_bytes E m (sg_lba seg) lo (unat (hi - lo)) (sg_max seg)) (say (''Writing '' @ name @ ''...'') s)
      | None \<Rightarrow> (Inr 0, say (name @ '' not found in MB2, skipping'') s))"

definition install_header_of :: "install_result \<Rightarrow> install_header" where
  "install_header_of r = \<lparr>ih_magic = MAGIC, ih_kernel_lba = sg_lba SEG_KERNEL, ih_kernel_sectors = ir_kernel r,
     ih_devspace_lba = sg_lba SEG_DEVSPACE, ih_devspace_sectors = ir_devspace r,
     ih_fsserver_lba = sg_lba SEG_FSSERVER, ih_fsserver_sectors = ir_fsserver r,
     ih_userspace_lba = sg_lba SEG_USERSPACE, ih_userspace_sectors = ir_userspace r\<rparr>"

definition run_install :: "disk_env \<Rightarrow> (u64 \<Rightarrow> u8) \<Rightarrow> u64 \<Rightarrow> disk_out \<Rightarrow> ((ata_error + install_result) \<times> disk_out) option" where
  "run_install E m info s0 =
     map_option (\<lambda>mods.
       bindE (install_segment E m ''kernel.elf'' SEG_KERNEL (mods ! 0) (say ''Collecting MB2 modules...'' s0)) (\<lambda>k s1.
       bindE (install_segment E m ''devspace.elf'' SEG_DEVSPACE (mods ! 1) s1) (\<lambda>d s2.
       bindE (install_segment E m ''fs_server.bin'' SEG_FSSERVER (mods ! 2) s2) (\<lambda>f s3.
       bindE (install_segment E m ''userspace.bin'' SEG_USERSPACE (mods ! 3) s3) (\<lambda>u s4.
       let r = \<lparr>ir_kernel = k, ir_devspace = d, ir_fsserver = f, ir_userspace = u\<rparr> in
       bindE (on_disk (write_sector E HEADER_LBA (header_bytes (install_header_of r))) s4) (\<lambda>_ s5.
         (Inr r, say ''Install header written.'' s5)))))))
     (collect_modules m info)"

section \<open>At boot\<close>

record rootfs =
  rf_disk :: disk
  rf_vga :: vga
  rf_serial :: string

definition report_sectors :: "string \<Rightarrow> u32 \<Rightarrow> u16 list list" where
  "report_sectors name n = [chars name, chars (num_str (ucast n)), chars '' sectors'' @ [0x0A]]"

definition end_install :: "disk_out \<Rightarrow> string \<Rightarrow> string \<Rightarrow> bool \<Rightarrow> vga \<Rightarrow> rootfs run" where
  "end_install s msg label ok v =
     bind_run (log_ok (chars label) ok v) (\<lambda>v'. Done \<lparr>rf_disk = fst s, rf_vga = v', rf_serial = snd s @ rootfs_line msg\<rparr>)"

definition check_and_install :: "disk_env \<Rightarrow> (u64 \<Rightarrow> u8) \<Rightarrow> u64 \<Rightarrow> rootfs \<Rightarrow> rootfs run" where
  "check_and_install E m info b =
     (let s0 = say ''Checking installation...'' (rf_disk b, rf_serial b); v = rf_vga b in
      case on_disk (read_sector_raw E HEADER_LBA) s0 of
        (Inl _, s1) \<Rightarrow> end_install s1 ''ATA read failed, skipping install.'' ''RootFS install'' False v
      | (Inr sector, s1) \<Rightarrow>
          if take 8 sector = MAGIC then end_install s1 ''Already installed.'' ''RootFS already installed'' True v
          else bind_run (printc (chars ''=== Installing CosinusOS to disk ==='' @ [0x0A]) YELLOW v) (\<lambda>v1.
            case run_install E m info (say ''Not installed, starting...'' s1) of
              None \<Rightarrow> Hang
            | Some (Inl _, s2) \<Rightarrow> end_install s2 ''Install FAILED'' ''RootFS install'' False v1
            | Some (Inr r, s2) \<Rightarrow>
                bind_run (print_all (report_sectors ''[rootfs] kernel:    '' (ir_kernel r) @ report_sectors ''[rootfs] devspace:  '' (ir_devspace r) @
                  report_sectors ''[rootfs] fsserver:  '' (ir_fsserver r) @ report_sectors ''[rootfs] userspace: '' (ir_userspace r)) v1) (\<lambda>v2.
                bind_run (log_ok (chars ''RootFS install'') True v2) (\<lambda>v3.
                bind_run (printc (chars ''=== Installation complete ==='' @ [0x0A]) LGREEN v3) (\<lambda>v4.
                  Done \<lparr>rf_disk = fst s2, rf_vga = v4, rf_serial = snd s2\<rparr>)))))"

end
