(* ===== verification/Rootfs_Props.thy ===== *)
theory Rootfs_Props
  imports Rootfs
begin

text \<open>
  The installer: what a successful installation leaves on a healthy drive, that the next boot recognises it, and that in the
  kernel as it boots, where nothing initialises the security units behind the gate, no sector is ever written.
\<close>

section \<open>The gate at boot\<close>

text \<open>Nothing in the kernel calls \<open>security_init\<close>; its call would not return.\<close>

lemma disk_security_init_panics: "disk_security_init crc = Panic"
  by (simp add: disk_security_init_def register_region_def disk_sec_boot_def to_u32_def Let_def upt_rec MAGIC_REGION_VALID_def seal_def)

lemma gate_refuses_at_boot: "disk_gate_write C lba cnt ring buf disk_gate_boot = (-1, disk_gate_boot)"
  by (simp add: disk_gate_write_def disk_gate_boot_def monitor_boot_def disk_sec_boot_def check_access_def)

section \<open>Reads write nothing\<close>

lemma read_words_log:
  "commands h = cs @ [(c, lba, d)] \<Longrightarrow> \<exists>d'. commands (snd (read_words dev ports is buf h)) = cs @ [(c, lba, d')]"
proof (induction "is" arbitrary: buf h d)
  case Nil
  then show ?case by simp
next
  case (Cons i js)
  have "commands (snd (in16 dev (bp_data ports) h)) = cs @ [(c, lba, d @ [dev h 0x1F0])]"
    using Cons.prems by (simp add: in16_def Let_def commands_def add_word_def)
  from Cons.IH [OF this] show ?case by (simp add: split_beta)
qed

lemma read_internal_log:
  assumes "lba \<le> LBA48_MAX" "read_sector_raw_internal dev ports lba h = (r, h')"
  shows "sector_writes h' = sector_writes h"
  using assms(2) unfolding read_sector_raw_internal_def
proof (cases rule: bindE_cases)
  case (err e)
  with wait_ready_log [OF err(1)] show ?thesis by (simp add: sector_writes_def)
next
  case (val y h1)
  let ?c = "if lba \<le> LBA28_MAX then CMD_READ_PIO else CMD_READ_EXT"
  define h2 where "h2 = ata_delay dev ports (start_command ports lba CMD_READ_PIO CMD_READ_EXT h1)"
  have rd: "is_read (?c, lba, d)" for d by (simp add: is_read_def)
  have c2: "commands h2 = commands h @ [(?c, lba, [])]"
    using start_command_log [OF assms(1), of CMD_READ_PIO CMD_READ_EXT h1] wait_ready_log [OF val(1)] by (simp add: h2_def commands_def)
  from val(2) show ?thesis unfolding h2_def [symmetric]
  proof (cases rule: bindE_cases)
    case (err e)
    then have "commands h' = commands h @ [(?c, lba, [])]" using wait_drq_log [OF err(1)] c2 by simp
    then show ?thesis using sector_writes_read rd by blast
  next
    case (val z h3)
    obtain buf h4 where h4: "read_words dev ports [0..<256] (replicate 512 0) h3 = (buf, h4)" by fastforce
    have "commands h3 = commands h @ [(?c, lba, [])]" using wait_drq_log [OF val(1)] c2 by simp
    from read_words_log [OF this, of dev "[0..<256]" "replicate 512 0"] h4 obtain d where
      "commands h4 = commands h @ [(?c, lba, d)]" by auto
    moreover have "commands h' = commands h4" using val(2) h4 check_err_log by auto
    ultimately show ?thesis using sector_writes_read rd by metis
  qed
qed

lemma read_sector_raw_log:
  assumes "read_sector_raw E lba s = (r, s')"
  shows "sector_writes (dk_hist s') = sector_writes (dk_hist s) \<and> dk_gate s' = dk_gate s"
proof (cases "lba > LBA48_MAX")
  case True
  with assms show ?thesis by (simp add: read_sector_raw_def)
next
  case False
  then obtain h' where h': "bindE (select_master (de_dev E) ports (dk_hist s)) (\<lambda>_. read_sector_raw_internal (de_dev E) ports lba) = (r, h')"
    "s' = s\<lparr>dk_hist := h'\<rparr>"
    using assms by (auto simp: read_sector_raw_def on_hist_def split: prod.splits)
  from h'(1) have "sector_writes h' = sector_writes (dk_hist s)"
  proof (cases rule: bindE_cases)
    case (err e)
    with select_master_log [OF err(1)] show ?thesis by (simp add: sector_writes_def)
  next
    case (val y h1)
    with select_master_log [OF val(1)] read_internal_log [OF _ val(2)] False show ?thesis by (simp add: sector_writes_def)
  qed
  with h'(2) show ?thesis by simp
qed

lemma fst_say [simp]: "fst (say t s) = fst s"
  by (simp add: say_def split_beta)

lemma on_disk_result: "on_disk f s = (r, s') \<Longrightarrow> f (fst s) = (r, fst s')"
  by (auto simp: on_disk_def split_beta)

section \<open>Installation with the gate closed\<close>

lemma write_bytes_refused: "dk_gate s = disk_gate_boot \<Longrightarrow> \<exists>r. write_bytes E m lba ptr n mx s = (r, s)"
  by (simp add: write_bytes_def gate_refuses_at_boot Let_def)

lemma write_sector_refused: "dk_gate s = disk_gate_boot \<Longrightarrow> \<exists>e. write_sector E lba buf s = (Inl e, s)"
  by (simp add: write_sector_def gate_refuses_at_boot)

lemma install_segment_refused:
  assumes "dk_gate d = disk_gate_boot" "fst s = d"
  shows "fst (snd (install_segment E m name seg md s)) = d"
proof (cases md)
  case None
  with assms(2) show ?thesis by (simp add: install_segment_def say_def split_beta)
next
  case (Some a)
  obtain lo hi where a: "a = (lo, hi)" by fastforce
  obtain r where "write_bytes E m (sg_lba seg) lo (unat (hi - lo)) (sg_max seg) d = (r, d)" using write_bytes_refused [OF assms(1)] by blast
  with Some a assms(2) show ?thesis by (simp add: install_segment_def say_def on_disk_def split_beta)
qed

lemma refused_step:
  assumes "bindE R f = (x, s)" "fst (snd R) = d" "\<And>y s1. fst s1 = d \<Longrightarrow> f y s1 = (x, s) \<Longrightarrow> (\<exists>e. x = Inl e) \<and> fst s = d"
  shows "(\<exists>e. x = Inl e) \<and> fst s = d"
  using assms(1) by (cases rule: bindE_cases) (use assms(2,3) in auto)

lemma run_install_refused:
  assumes g: "dk_gate d = disk_gate_boot" and s0: "fst s0 = d" and r: "run_install E m info s0 = Some (r, s)"
  shows "(\<exists>e. r = Inl e) \<and> fst s = d"
proof -
  obtain mods where m: "collect_modules m info = Some mods" using r by (auto simp: run_install_def)
  have header: "(\<exists>e. x = Inl e) \<and> fst s' = d"
    if "fst s4 = d" "bindE (on_disk (write_sector E HEADER_LBA buf) s4) k = (x, s')" for s4 buf k s' and x :: "ata_error + install_result"
    using that write_sector_refused [OF g, of E HEADER_LBA buf] by (auto simp: on_disk_def split_beta)
  have "fst (say t s0) = d" for t using s0 by (simp add: say_def split_beta)
  note seg = install_segment_refused [OF g]
  from \<open>fst (say ''Collecting MB2 modules...'' s0) = d\<close> r [unfolded run_install_def m option.map option.inject Let_def]
  show ?thesis by - ((erule refused_step, erule seg)+, erule (1) header)
qed

lemma finish_done:
  assumes "vga_ok v" "\<not> vg_lock v"
  shows "\<exists>v'. end_install s msg label ok v = Done \<lparr>rf_disk = fst s, rf_vga = v', rf_serial = snd s @ rootfs_line msg\<rparr>"
proof -
  obtain v' where "log_ok (chars label) ok v = Done v'" using console_stays_on_screen [OF assms] by blast
  then show ?thesis by (simp add: end_install_def)
qed

section \<open>What a write leaves on a healthy drive\<close>

lemma image_at:
  assumes "unat lba + length cs \<le> unat LBA48_MAX + 1"
  shows "map_of (disk_image lba cs) l =
    (if unat lba \<le> unat l \<and> unat l < unat lba + length cs then Some (sector_words (pad_sector (cs ! (unat l - unat lba)))) else None)"
  using assms
proof (induction cs arbitrary: lba)
  case Nil
  then show ?case by simp
next
  case (Cons c cs)
  have u: "unat (lba + 1) = unat lba + 1" using Cons.prems by (intro next_sector) (simp add: LBA48_MAX_def)
  have b: "unat (lba + 1) + length cs \<le> unat LBA48_MAX + 1" using Cons.prems unfolding u by simp
  show ?case
  proof (cases "l = lba")
    case True
    then show ?thesis by simp
  next
    case False
    then have "unat l \<noteq> unat lba" by (simp add: word_unat_eq_iff)
    then have i: "unat l - unat lba = Suc (unat l - unat (lba + 1))" if "unat lba \<le> unat l" using that u by simp
    have r: "(unat lba \<le> unat l \<and> unat l < unat lba + length (c # cs)) = (unat (lba + 1) \<le> unat l \<and> unat l < unat (lba + 1) + length cs)"
      using \<open>unat l \<noteq> unat lba\<close> u by auto
    show ?thesis using False i Cons.IH [OF b] unfolding r by (auto simp: u)
  qed
qed

lemma write_chunks_healthy:
  assumes dev: "healthy_drive dev" and b: "unat lba + length cs \<le> unat LBA48_MAX + 1"
  shows "\<exists>h'. write_chunks dev ports lba cs h = (Inr (), h') \<and>
    (\<forall>l. stored h' l = (case map_of (disk_image lba cs) l of Some ws \<Rightarrow> Some ws | None \<Rightarrow> stored h l))"
  using b
proof (induction cs arbitrary: lba h)
  case Nil
  then show ?case by simp
next
  case (Cons c cs)
  have u: "unat (lba + 1) = unat lba + 1" using Cons.prems by (intro next_sector) (simp add: LBA48_MAX_def)
  have b: "unat (lba + 1) + length cs \<le> unat LBA48_MAX + 1" using Cons.prems unfolding u by simp
  have "lba \<le> LBA48_MAX" using Cons.prems by (simp add: word_le_nat_alt)
  from write_attempts_healthy [OF dev this, of "pad_sector c" h] obtain h1 where
    h1: "write_attempts dev ports lba (pad_sector c) h = (Inr (), h1)"
      "\<forall>l. stored h1 l = (if l = lba then Some (sector_words (pad_sector c)) else stored h l)" by blast
  from Cons.IH [OF b, of h1] obtain h2 where h2: "write_chunks dev ports (lba + 1) cs h1 = (Inr (), h2)"
    "\<forall>l. stored h2 l = (case map_of (disk_image (lba + 1) cs) l of Some ws \<Rightarrow> Some ws | None \<Rightarrow> stored h1 l)" by blast
  have "map_of (disk_image (lba + 1) cs) lba = None" using image_at [OF b] u by simp
  then have "stored h2 l = (case map_of (disk_image lba (c # cs)) l of Some ws \<Rightarrow> Some ws | None \<Rightarrow> stored h l)" for l
    using h1(2) h2(2) by (cases "l = lba") (simp_all split: option.split)
  with h1(1) h2(1) show ?case by simp
qed

definition holds_image :: "u64 \<Rightarrow> u8 list \<Rightarrow> disk \<Rightarrow> bool" where
  "holds_image lba xs d \<longleftrightarrow>
     (\<forall>j < sectors_needed (length xs). stored (dk_hist d) (lba + of_nat j) = Some (sector_words (pad_sector (chunks xs ! j))))"

lemma sector_offset: "unat (lba :: u64) + n \<le> unat LBA48_MAX + 1 \<Longrightarrow> j < n \<Longrightarrow> unat (lba + of_nat j) = unat lba + j"
  by (simp add: unat_word_ariths unat_of_nat LBA48_MAX_def)

lemma write_bytes_healthy:
  assumes dev: "healthy_drive (de_dev E)" and lba: "lba \<le> LBA48_MAX" and w: "write_bytes E m lba ptr n mx s = (Inr k, s')"
  shows "holds_image lba (mem_slice m ptr n) s' \<and> sectors_needed n \<le> unat mx \<and> unat lba + sectors_needed n \<le> unat LBA48_MAX + 1 \<and>
    (\<forall>l. \<not> (unat lba \<le> unat l \<and> unat l < unat lba + sectors_needed n) \<longrightarrow> stored (dk_hist s') l = stored (dk_hist s) l)"
proof (cases "n = 0")
  case True
  with w lba show ?thesis by (simp add: write_bytes_def holds_image_def sectors_needed_def word_le_nat_alt)
next
  case False
  with w have fit: "sectors_needed n \<le> unat mx" and r: "lba + of_nat (sectors_needed n) \<le> LBA48_MAX"
    by (auto simp: write_bytes_def not_less split: if_splits)
  note small = le_less_trans [OF fit unat_u32_less]
  have "unat lba \<le> unat LBA48_MAX" using lba by (simp add: word_le_nat_alt)
  then have "unat (lba + of_nat (sectors_needed n)) = unat lba + sectors_needed n"
    using small by (simp add: unat_word_ariths unat_of_nat LBA48_MAX_def)
  then have b: "unat lba + sectors_needed n \<le> unat LBA48_MAX + 1" using r by (simp add: word_le_nat_alt)
  let ?cs = "chunks (mem_slice m ptr n)"
  have b': "unat lba + length ?cs \<le> unat LBA48_MAX + 1" using b by (simp add: length_chunks)
  obtain h1 where h1: "select_master (de_dev E) ports (dk_hist s) = (Inr (), h1)" "commands h1 = commands (dk_hist s)"
    using select_master_healthy [OF dev] by blast
  from write_chunks_healthy [OF dev b', of h1] obtain h2 where h2: "write_chunks (de_dev E) ports lba ?cs h1 = (Inr (), h2)"
    "\<forall>l. stored h2 l = (case map_of (disk_image lba ?cs) l of Some ws \<Rightarrow> Some ws | None \<Rightarrow> stored h1 l)" by blast
  have "dk_hist s' = h2"
    using w False fit r h1(1) h2(1) by (auto simp: write_bytes_def on_hist_def not_less Let_def split: prod.splits if_splits)
  moreover have "stored h1 l = stored (dk_hist s) l" for l using h1(2) by (simp add: stored_def sector_writes_def)
  ultimately have st: "stored (dk_hist s') l = (if unat lba \<le> unat l \<and> unat l < unat lba + sectors_needed n
      then Some (sector_words (pad_sector (?cs ! (unat l - unat lba)))) else stored (dk_hist s) l)" for l
    using h2(2) image_at [OF b', of l] by (simp add: length_chunks)
  have "holds_image lba (mem_slice m ptr n) s'"
    unfolding holds_image_def using sector_offset [OF b] by (simp add: st)
  with st fit b show ?thesis by simp
qed

section \<open>A successful installation\<close>

abbreviation module_bytes :: "(u64 \<Rightarrow> u8) \<Rightarrow> u64 \<times> u64 \<Rightarrow> u8 list" where
  "module_bytes m md \<equiv> mem_slice m (fst md) (unat (snd md - fst md))"

definition seg_holds :: "(u64 \<Rightarrow> u8) \<Rightarrow> segment_slot \<Rightarrow> (u64 \<times> u64) option \<Rightarrow> disk \<Rightarrow> bool" where
  "seg_holds m seg md d \<longleftrightarrow>
     (case md of None \<Rightarrow> True
      | Some a \<Rightarrow> holds_image (sg_lba seg) (module_bytes m a) d \<and> sectors_needed (unat (snd a - fst a)) \<le> unat (sg_max seg))"

definition outside :: "segment_slot \<Rightarrow> u64 \<Rightarrow> bool" where
  "outside seg l \<longleftrightarrow> unat l < unat (sg_lba seg) \<or> unat (sg_lba seg) + unat (sg_max seg) \<le> unat l"

lemma install_segment_healthy:
  assumes dev: "healthy_drive (de_dev E)" and lba: "sg_lba seg \<le> LBA48_MAX" and i: "install_segment E m name seg md s = (Inr k, s')"
  shows "seg_holds m seg md (fst s') \<and> (\<forall>l. outside seg l \<longrightarrow> stored (dk_hist (fst s')) l = stored (dk_hist (fst s)) l)"
proof (cases md)
  case None
  with i show ?thesis by (auto simp: install_segment_def seg_holds_def)
next
  case (Some a)
  obtain lo hi where a: "a = (lo, hi)" by (cases a)
  have "write_bytes E m (sg_lba seg) lo (unat (hi - lo)) (sg_max seg) (fst s) = (Inr k, fst s')"
    using i on_disk_result [of _ "say (''Writing '' @ name @ ''...'') s"] by (simp add: install_segment_def Some a)
  from write_bytes_healthy [OF dev lba this] show ?thesis
    by (auto simp: seg_holds_def Some a outside_def)
qed

lemma seg_holds_other:
  assumes "seg_holds m seg md d" "\<forall>l. P l \<longrightarrow> stored (dk_hist d') l = stored (dk_hist d) l"
    "unat (sg_lba seg) + unat (sg_max seg) \<le> unat LBA48_MAX + 1"
    "\<And>l. unat (sg_lba seg) \<le> unat l \<Longrightarrow> unat l < unat (sg_lba seg) + unat (sg_max seg) \<Longrightarrow> P l"
  shows "seg_holds m seg md d'"
proof (cases md)
  case None
  then show ?thesis by (simp add: seg_holds_def)
next
  case (Some a)
  let ?n = "sectors_needed (unat (snd a - fst a))"
  from assms(1) Some have h: "holds_image (sg_lba seg) (module_bytes m a) d" and n: "?n \<le> unat (sg_max seg)" by (simp_all add: seg_holds_def)
  have "stored (dk_hist d') (sg_lba seg + of_nat j) = stored (dk_hist d) (sg_lba seg + of_nat j)" if "j < ?n" for j
  proof -
    have "unat (sg_lba seg + of_nat j) = unat (sg_lba seg) + j" using sector_offset [OF assms(3), of j] that n by simp
    then have "P (sg_lba seg + of_nat j)" using assms(4) that n by simp
    with assms(2) show ?thesis by blast
  qed
  with h n show ?thesis by (simp add: seg_holds_def Some holds_image_def)
qed

definition segment_in :: "segment_slot \<Rightarrow> (u64 \<Rightarrow> bool) \<Rightarrow> bool" where
  "segment_in seg P \<longleftrightarrow> unat (sg_lba seg) + unat (sg_max seg) \<le> unat LBA48_MAX + 1 \<and>
     (\<forall>l. unat (sg_lba seg) \<le> unat l \<and> unat l < unat (sg_lba seg) + unat (sg_max seg) \<longrightarrow> P l)"

lemma seg_keeps:
  "seg_holds m seg md d \<Longrightarrow> \<forall>l. P l \<longrightarrow> stored (dk_hist d') l = stored (dk_hist d) l \<Longrightarrow> segment_in seg P \<Longrightarrow> seg_holds m seg md d'"
  by (rule seg_holds_other [where P = P]) (auto simp: segment_in_def)

lemmas segs = SEG_KERNEL_def SEG_DEVSPACE_def SEG_FSSERVER_def SEG_USERSPACE_def

lemma seg_room:
  "segment_in SEG_KERNEL (outside SEG_DEVSPACE)" "segment_in SEG_KERNEL (outside SEG_FSSERVER)" "segment_in SEG_KERNEL (outside SEG_USERSPACE)"
  "segment_in SEG_DEVSPACE (outside SEG_FSSERVER)" "segment_in SEG_DEVSPACE (outside SEG_USERSPACE)" "segment_in SEG_FSSERVER (outside SEG_USERSPACE)"
  "segment_in SEG_KERNEL (\<lambda>l. l \<noteq> HEADER_LBA)" "segment_in SEG_DEVSPACE (\<lambda>l. l \<noteq> HEADER_LBA)"
  "segment_in SEG_FSSERVER (\<lambda>l. l \<noteq> HEADER_LBA)" "segment_in SEG_USERSPACE (\<lambda>l. l \<noteq> HEADER_LBA)"
  by (auto simp: segment_in_def outside_def segs LBA48_MAX_def HEADER_LBA_def)

lemma length_ascii [simp]: "length (ascii s) = length s"
  by (simp add: ascii_def)

lemma length_header_bytes: "length (ih_magic h) = 8 \<Longrightarrow> length (header_bytes h) = 512"
  by (simp add: header_bytes_def)

lemma length_MAGIC [simp]: "length MAGIC = 8"
  by (simp add: MAGIC_def)

definition installed :: "(u64 \<Rightarrow> u8) \<Rightarrow> (u64 \<times> u64) option list \<Rightarrow> install_result \<Rightarrow> disk \<Rightarrow> bool" where
  "installed m mods r d \<longleftrightarrow> seg_holds m SEG_KERNEL (mods ! 0) d \<and> seg_holds m SEG_DEVSPACE (mods ! 1) d \<and>
     seg_holds m SEG_FSSERVER (mods ! 2) d \<and> seg_holds m SEG_USERSPACE (mods ! 3) d \<and>
     stored (dk_hist d) HEADER_LBA = Some (sector_words (header_bytes (install_header_of r)))"

lemma write_header_healthy:
  assumes dev: "healthy_drive (de_dev E)" and w: "on_disk (write_sector E HEADER_LBA buf) s = (Inr x, s')"
  shows "\<forall>l. stored (dk_hist (fst s')) l = (if l = HEADER_LBA then Some (sector_words buf) else stored (dk_hist (fst s)) l)"
proof -
  have lba: "HEADER_LBA \<le> LBA48_MAX" by (simp add: HEADER_LBA_def LBA48_MAX_def)
  obtain gate g where g: "disk_gate_write (de_crcs E) HEADER_LBA 1 0 (Some (\<lambda>i. buf ! i)) (dk_gate (fst s)) = (gate, g)" by fastforce
  let ?s = "(fst s)\<lparr>dk_gate := g\<rparr>"
  have w': "write_sector E HEADER_LBA buf (fst s) = (if gate \<noteq> 0 then (Inl (SecurityDenied gate), ?s)
      else on_hist (\<lambda>h. bindE (select_master (de_dev E) ports h) (\<lambda>_. write_attempts (de_dev E) ports HEADER_LBA buf)) ?s)"
    using g leD [OF lba] by (simp add: write_sector_def)
  have r: "write_sector E HEADER_LBA buf (fst s) = (Inr x, fst s')" using on_disk_result [OF w] .
  obtain h' where h': "on_hist (\<lambda>h. bindE (select_master (de_dev E) ports h) (\<lambda>_. write_attempts (de_dev E) ports HEADER_LBA buf)) ?s =
      (Inr (), ?s\<lparr>dk_hist := h'\<rparr>)"
    "\<forall>l. stored h' l = (if l = HEADER_LBA then Some (sector_words buf) else stored (dk_hist ?s) l)"
    using send_sector_healthy [OF dev lba, of buf ?s] by blast
  have "fst s' = ?s\<lparr>dk_hist := h'\<rparr>" using r unfolding w' h'(1) by (simp split: if_splits)
  with h'(2) show ?thesis by simp
qed

lemma bindE_Inr_iff: "bindE R f = (Inr y, s) \<longleftrightarrow> (\<exists>x s1. R = (Inr x, s1) \<and> f x s1 = (Inr y, s))"
  by (cases "(R, f)" rule: bindE.cases) auto

lemma run_install_healthy:
  assumes dev: "healthy_drive (de_dev E)" and r: "run_install E m info s0 = Some (Inr res, s)"
  shows "\<exists>mods. collect_modules m info = Some mods \<and> installed m mods res (fst s)"
proof -
  obtain mods where mods: "collect_modules m info = Some mods" using r by (auto simp: run_install_def)
  from r [unfolded run_install_def mods option.map option.inject Let_def bindE_Inr_iff prod.inject sum.inject]
  obtain k s1 d s2 f s3 u s4 x s5 where
    i1: "install_segment E m ''kernel.elf'' SEG_KERNEL (mods ! 0) (say ''Collecting MB2 modules...'' s0) = (Inr k, s1)" and
    i2: "install_segment E m ''devspace.elf'' SEG_DEVSPACE (mods ! 1) s1 = (Inr d, s2)" and
    i3: "install_segment E m ''fs_server.bin'' SEG_FSSERVER (mods ! 2) s2 = (Inr f, s3)" and
    i4: "install_segment E m ''userspace.bin'' SEG_USERSPACE (mods ! 3) s3 = (Inr u, s4)" and
    i5: "on_disk (write_sector E HEADER_LBA (header_bytes (install_header_of
           \<lparr>ir_kernel = k, ir_devspace = d, ir_fsserver = f, ir_userspace = u\<rparr>))) s4 = (Inr x, s5)" and
    res: "\<lparr>ir_kernel = k, ir_devspace = d, ir_fsserver = f, ir_userspace = u\<rparr> = res" and
    e: "say ''Install header written.'' s5 = s"
    by (elim exE conjE) (rule that)
  have s: "fst s = fst s5" using fst_say [of "''Install header written.''" s5] unfolding e .
  note i5 = i5 [unfolded res]
  note h1 = install_segment_healthy [OF dev _ i1] and h2 = install_segment_healthy [OF dev _ i2]
    and h3 = install_segment_healthy [OF dev _ i3] and h4 = install_segment_healthy [OF dev _ i4] and h5 = write_header_healthy [OF dev i5]
  have ok: "sg_lba SEG_KERNEL \<le> LBA48_MAX" "sg_lba SEG_DEVSPACE \<le> LBA48_MAX" "sg_lba SEG_FSSERVER \<le> LBA48_MAX"
    "sg_lba SEG_USERSPACE \<le> LBA48_MAX" by (simp_all add: segs LBA48_MAX_def)
  note h1 = h1 [OF ok(1)] and h2 = h2 [OF ok(2)] and h3 = h3 [OF ok(3)] and h4 = h4 [OF ok(4)]
  have h: "\<forall>l. l \<noteq> HEADER_LBA \<longrightarrow> stored (dk_hist (fst s5)) l = stored (dk_hist (fst s4)) l" using h5 by simp
  have "seg_holds m SEG_KERNEL (mods ! 0) (fst s5)"
    by (rule seg_keeps [OF seg_keeps [OF seg_keeps [OF seg_keeps [OF conjunct1 [OF h1] conjunct2 [OF h2]] conjunct2 [OF h3]] conjunct2 [OF h4]] h])
      (auto simp: seg_room)
  moreover have "seg_holds m SEG_DEVSPACE (mods ! 1) (fst s5)"
    by (rule seg_keeps [OF seg_keeps [OF seg_keeps [OF conjunct1 [OF h2] conjunct2 [OF h3]] conjunct2 [OF h4]] h]) (auto simp: seg_room)
  moreover have "seg_holds m SEG_FSSERVER (mods ! 2) (fst s5)"
    by (rule seg_keeps [OF seg_keeps [OF conjunct1 [OF h3] conjunct2 [OF h4]] h]) (auto simp: seg_room)
  moreover have "seg_holds m SEG_USERSPACE (mods ! 3) (fst s5)"
    by (rule seg_keeps [OF conjunct1 [OF h4] h]) (auto simp: seg_room)
  moreover have "stored (dk_hist (fst s5)) HEADER_LBA = Some (sector_words (header_bytes (install_header_of res)))" using h5 by simp
  ultimately show ?thesis using mods s by (auto simp: installed_def)
qed

section \<open>Reading an installation back\<close>

definition read_image :: "disk_env \<Rightarrow> disk \<Rightarrow> u64 \<Rightarrow> nat \<Rightarrow> u8 list" where
  "read_image E d lba k = concat (map (\<lambda>j. case fst (read_sector_raw E (lba + of_nat j) d) of Inr b \<Rightarrow> b | Inl _ \<Rightarrow> []) [0..<k])"

text \<open>A module is on the disk: reading as many bytes as it has from its segment gives the module.\<close>

definition module_on_disk :: "disk_env \<Rightarrow> (u64 \<Rightarrow> u8) \<Rightarrow> disk \<Rightarrow> segment_slot \<Rightarrow> (u64 \<times> u64) option \<Rightarrow> bool" where
  "module_on_disk E m d seg md \<longleftrightarrow>
     (case md of None \<Rightarrow> True
      | Some a \<Rightarrow> (let xs = module_bytes m a in take (length xs) (read_image E d (sg_lba seg) (sectors_needed (length xs))) = xs))"

lemma length_chunk: "c \<in> set (chunks xs) \<Longrightarrow> length c \<le> 512"
proof (induction xs rule: chunks.induct)
  case (1 xs)
  then show ?case by (subst (asm) (2) chunks.simps) (auto split: if_splits)
qed

lemma padded_chunks: "take (length xs) (concat (map pad_sector (chunks xs))) = xs"
proof (induction xs rule: chunks.induct)
  case (1 xs)
  show ?case
  proof (cases "length xs \<le> 512")
    case True
    then show ?thesis by (cases "xs = []") (simp_all add: chunks.simps pad_sector_def)
  next
    case False
    then have ne: "xs \<noteq> []" by auto
    then have "concat (map pad_sector (chunks xs)) = take 512 xs @ concat (map pad_sector (chunks (drop 512 xs)))"
      using False by (subst chunks.simps) (simp add: pad_sector_def)
    moreover have "take (length xs - 512) (concat (map pad_sector (chunks (drop 512 xs)))) = drop 512 xs" using 1 [OF ne] by simp
    ultimately show ?thesis using False by simp
  qed
qed

lemma length_pad_sector: "length c \<le> 512 \<Longrightarrow> length (pad_sector c) = 512"
  by (simp add: pad_sector_def)

lemma holds_image_reads:
  assumes dev: "healthy_drive (de_dev E)" and b: "unat lba + sectors_needed (length xs) \<le> unat LBA48_MAX + 1" and h: "holds_image lba xs d"
  shows "take (length xs) (read_image E d lba (sectors_needed (length xs))) = xs"
proof -
  have "(case fst (read_sector_raw E (lba + of_nat j) d) of Inr b \<Rightarrow> b | Inl _ \<Rightarrow> []) = pad_sector (chunks xs ! j)"
    if j: "j < sectors_needed (length xs)" for j
  proof -
    have "lba + of_nat j \<le> LBA48_MAX" using sector_offset [OF b j] b j by (simp add: word_le_nat_alt)
    moreover have "stored (dk_hist d) (lba + of_nat j) = Some (sector_words (pad_sector (chunks xs ! j)))"
      using h j by (simp add: holds_image_def)
    ultimately have "fst (read_sector_raw E (lba + of_nat j) d) = Inr (bytes_of (sector_words (pad_sector (chunks xs ! j))))"
      using read_sector_raw_stored [OF dev _ length_sector_words] by fastforce
    moreover have "chunks xs ! j \<in> set (chunks xs)" using j by (simp add: length_chunks)
    ultimately show ?thesis by (simp add: bytes_of_sector_words length_pad_sector length_chunk)
  qed
  then have "read_image E d lba (sectors_needed (length xs)) = concat (map (\<lambda>j. pad_sector (chunks xs ! j)) [0..<sectors_needed (length xs)])"
    unfolding read_image_def by (intro arg_cong [where f = concat] map_cong) auto
  also have "map (\<lambda>j. pad_sector (chunks xs ! j)) [0..<sectors_needed (length xs)] = map pad_sector (chunks xs)"
    by (rule nth_equalityI) (simp_all add: length_chunks)
  finally show ?thesis by (simp add: padded_chunks)
qed

lemma seg_holds_reads:
  assumes dev: "healthy_drive (de_dev E)" and h: "seg_holds m seg md d" and r: "segment_in seg P"
  shows "module_on_disk E m d seg md"
proof (cases md)
  case None
  then show ?thesis by (simp add: module_on_disk_def)
next
  case (Some a)
  with h r have b: "unat (sg_lba seg) + sectors_needed (length (module_bytes m a)) \<le> unat LBA48_MAX + 1"
    and i: "holds_image (sg_lba seg) (module_bytes m a) d"
    by (simp_all add: seg_holds_def segment_in_def)
  from holds_image_reads [OF dev b i] Some show ?thesis by (simp add: module_on_disk_def)
qed

lemma header_read:
  assumes "healthy_drive (de_dev E)" "installed m mods r d"
  shows "\<exists>h'. read_sector_raw E HEADER_LBA d = (Inr (header_bytes (install_header_of r)), d\<lparr>dk_hist := h'\<rparr>) \<and>
    sector_writes h' = sector_writes (dk_hist d)"
proof -
  have lba: "HEADER_LBA \<le> LBA48_MAX" by (simp add: HEADER_LBA_def LBA48_MAX_def)
  have st: "stored (dk_hist d) HEADER_LBA = Some (sector_words (header_bytes (install_header_of r)))"
    using assms(2) by (simp add: installed_def)
  have "length (header_bytes (install_header_of r)) = 512" by (rule length_header_bytes) (simp add: install_header_of_def)
  then show ?thesis
    using read_sector_raw_stored [OF assms(1) lba length_sector_words st] by (simp add: bytes_of_sector_words)
qed

lemma next_boot:
  assumes dev: "healthy_drive (de_dev E)" and i: "installed m mods r d" and v: "vga_ok v" "\<not> vg_lock v"
  shows "case check_and_install E m' info' \<lparr>rf_disk = d, rf_vga = v, rf_serial = t\<rparr> of
      Done b \<Rightarrow> sector_writes (dk_hist (rf_disk b)) = sector_writes (dk_hist d) \<and>
        rf_serial b = t @ rootfs_line ''Checking installation...'' @ rootfs_line ''Already installed.''
    | _ \<Rightarrow> False"
proof -
  obtain h' where h': "read_sector_raw E HEADER_LBA d = (Inr (header_bytes (install_header_of r)), d\<lparr>dk_hist := h'\<rparr>)"
    "sector_writes h' = sector_writes (dk_hist d)" using header_read [OF dev i] by blast
  have "take 8 (header_bytes (install_header_of r)) = MAGIC" by (simp add: header_bytes_def install_header_of_def)
  moreover obtain v' where "end_install (d\<lparr>dk_hist := h'\<rparr>, t @ rootfs_line ''Checking installation...'') ''Already installed.'' ''RootFS already installed'' True v =
      Done \<lparr>rf_disk = d\<lparr>dk_hist := h'\<rparr>, rf_vga = v', rf_serial = (t @ rootfs_line ''Checking installation...'') @ rootfs_line ''Already installed.''\<rparr>"
    using finish_done [OF v, of "(d\<lparr>dk_hist := h'\<rparr>, t @ rootfs_line ''Checking installation...'')"] by fastforce
  ultimately show ?thesis using h' by (simp add: check_and_install_def say_def on_disk_def)
qed

text \<open>C16: on a healthy drive, when run_install succeeds, every module that the boot loader passed reads back from its segment
byte for byte, sector 1 reads back as the header with the sector counts of the result, and the next boot finds the installation
and leaves the disk alone.\<close>

theorem install_reads_back:
  assumes "healthy_drive (de_dev E)" "vga_ok v" "\<not> vg_lock v"
  shows "case run_install E m info s of
      Some (Inr r, s') \<Rightarrow> \<exists>mods. collect_modules m info = Some mods \<and>
        module_on_disk E m (fst s') SEG_KERNEL (mods ! 0) \<and> module_on_disk E m (fst s') SEG_DEVSPACE (mods ! 1) \<and>
        module_on_disk E m (fst s') SEG_FSSERVER (mods ! 2) \<and> module_on_disk E m (fst s') SEG_USERSPACE (mods ! 3) \<and>
        fst (read_sector_raw E HEADER_LBA (fst s')) = Inr (header_bytes (install_header_of r)) \<and>
        (case check_and_install E m' info' \<lparr>rf_disk = fst s', rf_vga = v, rf_serial = t\<rparr> of
           Done b \<Rightarrow> sector_writes (dk_hist (rf_disk b)) = sector_writes (dk_hist (fst s')) \<and>
             rf_serial b = t @ rootfs_line ''Checking installation...'' @ rootfs_line ''Already installed.''
         | _ \<Rightarrow> False)
    | _ \<Rightarrow> True"
proof -
  have "\<exists>mods. collect_modules m info = Some mods \<and> installed m mods r (fst s')" if "run_install E m info s = Some (Inr r, s')" for r s'
    using run_install_healthy [OF assms(1) that] .
  note ok = this
  note reads = seg_holds_reads [OF assms(1) _ seg_room(7)] seg_holds_reads [OF assms(1) _ seg_room(8)]
    seg_holds_reads [OF assms(1) _ seg_room(9)] seg_holds_reads [OF assms(1) _ seg_room(10)]
  show ?thesis
  proof (cases "run_install E m info s")
    case None
    then show ?thesis by simp
  next
    case (Some rs)
    obtain x s' where rs: "rs = (x, s')" by (cases rs)
    show ?thesis
    proof (cases x)
      case (Inl e)
      with Some rs show ?thesis by simp
    next
      case (Inr r)
      obtain mods where mods: "collect_modules m info = Some mods" "installed m mods r (fst s')"
        using ok [of r s'] Some rs Inr by blast
      have "fst (read_sector_raw E HEADER_LBA (fst s')) = Inr (header_bytes (install_header_of r))"
        using header_read [OF assms(1) mods(2)] by auto
      moreover note next_boot [OF assms(1) mods(2) assms(2,3), where m' = m' and info' = info' and t = t]
      ultimately show ?thesis
        unfolding Some rs Inr option.case prod.case sum.case
        using mods reads unfolding installed_def by blast
    qed
  qed
qed

text \<open>C26: in the kernel as it boots, where the units behind the disk gate have never been initialised, check_and_install
returns without having written a sector of the disk, whatever the drive answers and whatever modules are present (it can only
spin over boot information that never ends); and the routine that would initialise the units fails a range check and stops the
processor.\<close>

theorem nothing_installed_at_boot:
  assumes "vga_ok (rf_vga b)" "\<not> vg_lock (rf_vga b)" "dk_gate (rf_disk b) = disk_gate_boot"
  shows "(case check_and_install E m info b of
      Done b' \<Rightarrow> sector_writes (dk_hist (rf_disk b')) = sector_writes (dk_hist (rf_disk b)) \<and> dk_gate (rf_disk b') = disk_gate_boot
    | Panic \<Rightarrow> False | Hang \<Rightarrow> collect_modules m info = None) \<and> security_init E (rf_disk b) = Panic"
proof
  let ?read = "on_disk (read_sector_raw E HEADER_LBA) (say ''Checking installation...'' (rf_disk b, rf_serial b))"
  obtain r s1 where rd: "?read = (r, s1)" by (cases ?read)
  from read_sector_raw_log [OF on_disk_result [OF rd]] assms(3)
  have s1: "sector_writes (dk_hist (fst s1)) = sector_writes (dk_hist (rf_disk b))" "dk_gate (fst s1) = disk_gate_boot" by simp_all
  note fin = finish_done [OF assms(1,2)]
  show "case check_and_install E m info b of
      Done b' \<Rightarrow> sector_writes (dk_hist (rf_disk b')) = sector_writes (dk_hist (rf_disk b)) \<and> dk_gate (rf_disk b') = disk_gate_boot
    | Panic \<Rightarrow> False | Hang \<Rightarrow> collect_modules m info = None"
  proof (cases r)
    case (Inl e)
    obtain v' where "end_install s1 ''ATA read failed, skipping install.'' ''RootFS install'' False (rf_vga b) =
      Done \<lparr>rf_disk = fst s1, rf_vga = v', rf_serial = snd s1 @ rootfs_line ''ATA read failed, skipping install.''\<rparr>" using fin by blast
    with Inl rd s1 show ?thesis by (simp add: check_and_install_def)
  next
    case (Inr sector)
    show ?thesis
    proof (cases "take 8 sector = MAGIC")
      case True
      obtain v' where "end_install s1 ''Already installed.'' ''RootFS already installed'' True (rf_vga b) =
        Done \<lparr>rf_disk = fst s1, rf_vga = v', rf_serial = snd s1 @ rootfs_line ''Already installed.''\<rparr>" using fin by blast
      with Inr True rd s1 show ?thesis by (simp add: check_and_install_def)
    next
      case False
      obtain v1 where v1: "printc (chars ''=== Installing CosinusOS to disk ==='' @ [0x0A]) YELLOW (rf_vga b) = Done v1" "vga_ok v1" "\<not> vg_lock v1"
        using console_stays_on_screen [OF assms(1,2)] by blast
      show ?thesis
      proof (cases "run_install E m info (say ''Not installed, starting...'' s1)")
        case None
        then have "collect_modules m info = None" by (simp add: run_install_def)
        with None Inr False rd v1 show ?thesis by (simp add: check_and_install_def)
      next
        case (Some rs)
        obtain x s2 where x: "rs = (x, s2)" by (cases rs)
        from run_install_refused [OF s1(2) fst_say Some [unfolded x]] obtain e where e: "x = Inl e" "fst s2 = fst s1" by blast
        obtain v' where "end_install s2 ''Install FAILED'' ''RootFS install'' False v1 =
          Done \<lparr>rf_disk = fst s2, rf_vga = v', rf_serial = snd s2 @ rootfs_line ''Install FAILED''\<rparr>"
          using finish_done [OF v1(2,3)] by blast
        with Some x e Inr False rd v1 s1 show ?thesis by (simp add: check_and_install_def)
      qed
    qed
  qed
  show "security_init E (rf_disk b) = Panic"
    by (simp add: security_init_def disk_security_init_all_def disk_security_init_panics)
qed

end
