(* ===== verification/Disk_Sample.thy ===== *)
theory Disk_Sample
  imports Rootfs_Props
begin

text \<open>
  A healthy drive as a function of the history of its ports, a gate that lets writes pass, and a boot loader's information with
  one module, and the theorems on the disk applied to them.
\<close>

section \<open>A drive\<close>

definition sample_drive :: drive where
  "sample_drive h port =
     (if port = 0x1F7 then 0x48
      else if port = 0x1F0 \<and> commands h \<noteq> []
      then (case last (commands h) of (c, lba, d) \<Rightarrow> case stored h lba of Some ws \<Rightarrow> ws ! length d | None \<Rightarrow> 0)
      else 0)"

lemma sample_drive_healthy: "healthy_drive sample_drive"
  by (auto simp: healthy_drive_def sample_drive_def)

definition sample_env :: disk_env where
  "sample_env = \<lparr>de_dev = sample_drive, de_crcs = \<lparr>dc_region = \<lambda>_. 0, dc_permit = \<lambda>_. 0\<rparr>\<rparr>"

lemma sample_env_healthy: "healthy_drive (de_dev sample_env)"
  by (simp add: sample_env_def sample_drive_healthy)

section \<open>A gate that lets writes pass\<close>

definition open_gate :: "disk_gate \<Rightarrow> bool" where
  "open_gate g \<longleftrightarrow> \<not> cm_ready (dg_mon g) \<and> \<not> cm_locked (dg_mon g) \<and> ds_ready (dg_sec g) \<and> \<not> ds_lock_all (dg_sec g) \<and> ds_nreg (dg_sec g) = 0"

lemma open_gate_write:
  assumes "open_gate g" "ucast cnt \<le> (0xFFFFFFFFFFFFFFFF :: u64) - lba"
  shows "\<exists>g'. disk_gate_write C lba cnt 0 buf g = (0, g') \<and> open_gate g'"
  using assms
  by (simp add: disk_gate_write_def open_gate_def check_access_def find_region_def check_permit_def record_write_def disk_log_def not_less)

lemma unat_ucast_u32: "unat (ucast (k :: u32) :: u64) = unat k"
  using unat_u32_less [of k] by (simp add: unsigned_ucast_eq take_bit_nat_eq_self)

definition sample_disk :: disk where
  "sample_disk = \<lparr>dk_hist = [], dk_gate = disk_gate_boot\<lparr>dg_sec := disk_sec_boot\<lparr>ds_ready := True\<rparr>\<rparr>\<rparr>"

lemma sample_disk_open: "open_gate (dk_gate sample_disk)"
  by (simp add: sample_disk_def open_gate_def disk_gate_boot_def monitor_boot_def disk_sec_boot_def)

lemma write_bytes_open:
  assumes "healthy_drive (de_dev E)" "open_gate (dk_gate s)" "n \<noteq> 0" "sectors_needed n \<le> unat mx" "unat lba + sectors_needed n \<le> unat LBA48_MAX"
  shows "\<exists>s'. write_bytes E m lba ptr n mx s = (Inr (of_nat (sectors_needed n)), s') \<and> open_gate (dk_gate s')"
proof -
  let ?cs = "chunks (mem_slice m ptr n)" and ?k = "of_nat (sectors_needed n)"
  have u: "unat (lba + of_nat (sectors_needed n)) = unat lba + sectors_needed n"
    using assms(5) by (simp add: unat_word_ariths unat_of_nat LBA48_MAX_def)
  have r: "\<not> LBA48_MAX < lba + of_nat (sectors_needed n)" using u assms(5) by (simp add: word_less_nat_alt)
  have k: "unat (?k :: u32) = sectors_needed n" using le_less_trans [OF assms(4) unat_u32_less] by (simp add: unat_of_nat)
  have "ucast (?k :: u32) \<le> (0xFFFFFFFFFFFFFFFF :: u64) - lba"
    using assms(5) k unat_ucast_u32 [of ?k] by (simp add: word_le_nat_alt unat_sub_if' LBA48_MAX_def)
  from open_gate_write [OF assms(2) this] obtain g where
    g: "disk_gate_write (de_crcs E) lba ?k 0 (Some (\<lambda>i. m (ptr + of_nat i))) (dk_gate s) = (0, g)" "open_gate g" by blast
  obtain h1 where h1: "select_master (de_dev E) ports (dk_hist s) = (Inr (), h1)" using select_master_healthy [OF assms(1)] by blast
  have "unat lba + length ?cs \<le> unat LBA48_MAX + 1" using assms(5) by (simp add: length_chunks)
  from write_chunks_healthy [OF assms(1) this] obtain h2 where h2: "write_chunks (de_dev E) ports lba ?cs h1 = (Inr (), h2)" by blast
  have "write_bytes E m lba ptr n mx s = (Inr ?k, s\<lparr>dk_gate := g, dk_hist := h2\<rparr>)"
    using assms(3,4) r g(1) h1 h2 by (simp add: write_bytes_def on_hist_def)
  with g(2) show ?thesis by simp
qed

lemma write_sector_open:
  assumes "healthy_drive (de_dev E)" "open_gate (dk_gate s)" "lba \<le> LBA48_MAX"
  shows "\<exists>s'. write_sector E lba buf s = (Inr (), s')"
proof -
  have "ucast (1 :: u32) \<le> (0xFFFFFFFFFFFFFFFF :: u64) - lba"
    using assms(3) by (simp add: word_le_nat_alt unat_sub_if' LBA48_MAX_def)
  from open_gate_write [OF assms(2) this] obtain g where
    g: "disk_gate_write (de_crcs E) lba 1 0 (Some (\<lambda>i. buf ! i)) (dk_gate s) = (0, g)" by blast
  from send_sector_healthy [OF assms(1,3), of buf "s\<lparr>dk_gate := g\<rparr>"] obtain h' where
    "on_hist (\<lambda>h. bindE (select_master (de_dev E) ports h) (\<lambda>_. write_attempts (de_dev E) ports lba buf)) (s\<lparr>dk_gate := g\<rparr>) =
      (Inr (), (s\<lparr>dk_gate := g\<rparr>)\<lparr>dk_hist := h'\<rparr>)" by blast
  with g leD [OF assms(3)] show ?thesis by (simp add: write_sector_def)
qed

section \<open>Boot information with one module\<close>

text \<open>A module tag for the three bytes from 0x2000 on, then the end tag.\<close>

definition sample_bytes :: "u64 \<Rightarrow> u8" where
  "sample_bytes a =
     (if a = 0x1000 then 32 else if a = 0x1008 then 3 else if a = 0x100C then 16 else if a = 0x1011 then 0x20
      else if a = 0x1014 then 3 else if a = 0x1015 then 0x20 else if a = 0x2000 then 7 else if a = 0x2001 then 8 else if a = 0x2002 then 9 else 0)"

lemma sample_modules: "collect_modules sample_bytes 0x1000 = Some [Some (0x2000, 0x2003), None, None, None]"
proof -
  have w: "le32 sample_bytes a = of_le [sample_bytes a, sample_bytes (a + 1), sample_bytes (a + 2), sample_bytes (a + 3)]" for a
    by (simp add: le32_def mem_slice_def numeral_eq_Suc)
  have "le32 sample_bytes 0x1000 = 32" "le32 sample_bytes 0x1008 = 3" "le32 sample_bytes 0x100C = 16" "le32 sample_bytes 0x1010 = 0x2000"
    "le32 sample_bytes 0x1014 = 0x2003" "le32 sample_bytes 0x1018 = 0"
    unfolding w by (simp_all add: sample_bytes_def)
  note words = this
  have "collect_loop sample_bytes 0x1000 32 24 1 [Some (0x2000, 0x2003), None, None, None] = Some [Some (0x2000, 0x2003), None, None, None]"
    by (subst collect_loop.simps) (simp add: words)
  then have "collect_loop sample_bytes 0x1000 32 8 0 [None, None, None, None] = Some [Some (0x2000, 0x2003), None, None, None]"
    by (subst collect_loop.simps) (simp add: words)
  moreover have "replicate 4 (None :: (u64 \<times> u64) option) = [None, None, None, None]" by (simp add: numeral_eq_Suc)
  ultimately show ?thesis by (simp add: collect_modules_def words(1))
qed

section \<open>The theorems applied\<close>

lemma sample_write:
  "\<exists>d1. write_bytes sample_env sample_bytes 2048 0x2000 3 8192 sample_disk = (Inr 1, d1) \<and> open_gate (dk_gate d1)"
proof -
  have n: "sectors_needed 3 = 1" by (simp add: sectors_needed_def)
  from write_bytes_open [OF sample_env_healthy sample_disk_open, where n = 3 and mx = 8192 and lba = 2048 and m = sample_bytes and ptr = "0x2000"]
  show ?thesis unfolding n by (simp add: LBA48_MAX_def)
qed

lemma sample_install: "\<exists>r s'. run_install sample_env sample_bytes 0x1000 (sample_disk, []) = Some (Inr r, s')"
proof -
  have n: "unat (0x2003 - 0x2000 :: u64) = 3" by simp
  obtain d1 where d1: "write_bytes sample_env sample_bytes 2048 0x2000 3 8192 sample_disk = (Inr 1, d1)" "open_gate (dk_gate d1)"
    using sample_write by blast
  have "HEADER_LBA \<le> LBA48_MAX" by (simp add: HEADER_LBA_def LBA48_MAX_def)
  note h = write_sector_open [OF sample_env_healthy d1(2) this]
  have skip: "install_segment sample_env sample_bytes name seg None s = (Inr 0, say (name @ '' not found in MB2, skipping'') s)" for name seg s
    by (simp add: install_segment_def)
  have first: "\<exists>t1. install_segment sample_env sample_bytes name SEG_KERNEL (Some (0x2000, 0x2003)) (say t (sample_disk, [])) = (Inr 1, (d1, t1))" for name t
    using d1(1) by (simp add: install_segment_def n on_disk_def say_def SEG_KERNEL_def)
  have last: "\<exists>s'. on_disk (write_sector sample_env HEADER_LBA buf) s = (Inr (), s')" if "fst s = d1" for buf s
    using h [of buf] that by (auto simp: on_disk_def split_beta)
  obtain t1 where t1: "install_segment sample_env sample_bytes ''kernel.elf'' SEG_KERNEL (Some (0x2000, 0x2003))
      (say ''Collecting MB2 modules...'' (sample_disk, [])) = (Inr 1, (d1, t1))" using first by blast
  define s4 where "s4 = say (''userspace.bin'' @ '' not found in MB2, skipping'') (say (''fs_server.bin'' @ '' not found in MB2, skipping'')
      (say (''devspace.elf'' @ '' not found in MB2, skipping'') (d1, t1)))"
  have "fst s4 = d1" by (simp only: s4_def fst_say fst_conv)
  from last [OF this] obtain s5 where s5: "on_disk (write_sector sample_env HEADER_LBA (header_bytes (install_header_of
      \<lparr>ir_kernel = 1, ir_devspace = 0, ir_fsserver = 0, ir_userspace = 0\<rparr>))) s4 = (Inr (), s5)" by blast
  have sel: "[Some (0x2000, 0x2003), None, None, None] ! 0 = Some (0x2000 :: u64, 0x2003 :: u64)"
    "[Some (0x2000, 0x2003), None, None, None] ! 1 = (None :: (u64 \<times> u64) option)"
    "[Some (0x2000, 0x2003), None, None, None] ! 2 = (None :: (u64 \<times> u64) option)"
    "[Some (0x2000, 0x2003), None, None, None] ! 3 = (None :: (u64 \<times> u64) option)" by simp_all
  show ?thesis
    unfolding run_install_def sample_modules option.map sel t1 bindE.simps skip s4_def [symmetric] Let_def s5 by blast
qed

theorem write_bytes_sends_image_witness:
  "2048 \<le> LBA48_MAX \<and> fst (write_bytes sample_env sample_bytes 2048 0x2000 3 8192 sample_disk) = Inr 1 \<and>
   (case write_bytes sample_env sample_bytes 2048 0x2000 3 8192 sample_disk of (r, s') \<Rightarrow>
    \<exists>j. sent_image 2048 (chunks (mem_slice sample_bytes 0x2000 3)) (dk_hist sample_disk) (dk_hist s') j \<and>
      (case r of Inr k \<Rightarrow> unat k = sectors_needed 3 \<and> k \<le> 8192 \<and> j = sectors_needed 3 | Inl _ \<Rightarrow> True))"
proof (intro conjI)
  show le: "2048 \<le> LBA48_MAX" by (simp add: LBA48_MAX_def)
  show "fst (write_bytes sample_env sample_bytes 2048 0x2000 3 8192 sample_disk) = Inr 1" using sample_write by auto
  show "case write_bytes sample_env sample_bytes 2048 0x2000 3 8192 sample_disk of (r, s') \<Rightarrow>
    \<exists>j. sent_image 2048 (chunks (mem_slice sample_bytes 0x2000 3)) (dk_hist sample_disk) (dk_hist s') j \<and>
      (case r of Inr k \<Rightarrow> unat k = sectors_needed 3 \<and> k \<le> 8192 \<and> j = sectors_needed 3 | Inl _ \<Rightarrow> True)"
    by (rule write_bytes_sends_image [OF le])
qed

theorem sector_reads_back_witness:
  "\<exists>s'. write_sector sample_env 7 (replicate 512 0x5A) sample_disk = (Inr (), s') \<and>
     fst (read_sector_raw sample_env 7 s') = Inr (replicate 512 0x5A)"
proof -
  have le: "7 \<le> LBA48_MAX" by (simp add: LBA48_MAX_def)
  obtain s' where s': "write_sector sample_env 7 (replicate 512 0x5A) sample_disk = (Inr (), s')"
    using write_sector_open [OF sample_env_healthy sample_disk_open le] by blast
  from sector_reads_back [OF sample_env_healthy le length_replicate, where s = sample_disk and x1 = "0x5A"] s' show ?thesis by auto
qed

theorem nothing_installed_at_boot_witness:
  "security_init sample_env \<lparr>dk_hist = [], dk_gate = disk_gate_boot\<rparr> = Panic \<and>
   (case check_and_install sample_env sample_bytes 0x1000 \<lparr>rf_disk = \<lparr>dk_hist = [], dk_gate = disk_gate_boot\<rparr>, rf_vga = vga_boot, rf_serial = []\<rparr> of
      Done b' \<Rightarrow> sector_writes (dk_hist (rf_disk b')) = [] | _ \<Rightarrow> False)"
  using nothing_installed_at_boot [where b = "\<lparr>rf_disk = \<lparr>dk_hist = [], dk_gate = disk_gate_boot\<rparr>, rf_vga = vga_boot, rf_serial = []\<rparr>"
      and E = sample_env and m = sample_bytes and info = "0x1000"] vga_boot_ok sample_modules
  by (auto simp: sector_writes_def commands_def wire_of_def wire_zero_def split: run.splits)

theorem install_reads_back_witness:
  "\<exists>r s'. run_install sample_env sample_bytes 0x1000 (sample_disk, []) = Some (Inr r, s') \<and>
     module_on_disk sample_env sample_bytes (fst s') SEG_KERNEL (Some (0x2000, 0x2003)) \<and>
     fst (read_sector_raw sample_env HEADER_LBA (fst s')) = Inr (header_bytes (install_header_of r))"
proof -
  obtain r s' where run: "run_install sample_env sample_bytes 0x1000 (sample_disk, []) = Some (Inr r, s')" using sample_install by blast
  have v: "vga_ok vga_boot" "\<not> vg_lock vga_boot" using vga_boot_ok by simp_all
  from install_reads_back [OF sample_env_healthy v, where m = sample_bytes and info = "0x1000" and s = "(sample_disk, [])"] run sample_modules show ?thesis by auto
qed

end
