(* ===== verification/Raster.thy ===== *)
theory Raster
  imports Kernel_Prelude
begin

text \<open>
  Drawing into a raster of pixels, as an interface: what the framebuffer of the kernel and the one a program gets have in
  common. A drawing routine is a list of plots; the facts here say which pixels such a list changes, and to what.
\<close>

section \<open>Plots\<close>

type_synonym plot = "nat \<times> nat \<times> u32"

text \<open>The plots of a rectangle from a corner on, in the colours of \<open>g\<close>.\<close>

definition area :: "nat \<Rightarrow> nat \<Rightarrow> nat \<Rightarrow> nat \<Rightarrow> (nat \<Rightarrow> nat \<Rightarrow> u32) \<Rightarrow> plot set" where
  "area x1 x2 y1 y2 g = {(x, y, g x y) | x y. x1 \<le> x \<and> x < x2 \<and> y1 \<le> y \<and> y < y2}"

lemma in_area: "(x, y, c) \<in> area x1 x2 y1 y2 g \<longleftrightarrow> x1 \<le> x \<and> x < x2 \<and> y1 \<le> y \<and> y < y2 \<and> c = g x y"
  by (auto simp: area_def)

text \<open>Two nested loops over the offsets from a corner.\<close>

lemma loops_area:
  "(\<exists>r \<in> {0..<n}. \<exists>c \<in> {0..<k}. p = (x + c, y + r, g c r)) \<longleftrightarrow> p \<in> area x (x + k) y (y + n) (\<lambda>a b. g (a - x) (b - y))"
proof
  assume "p \<in> area x (x + k) y (y + n) (\<lambda>a b. g (a - x) (b - y))"
  then obtain a b where p: "p = (a, b, g (a - x) (b - y))" "x \<le> a" "a < x + k" "y \<le> b" "b < y + n" by (auto simp: area_def)
  then have "b - y \<in> {0..<n}" "a - x \<in> {0..<k}" "p = (x + (a - x), y + (b - y), g (a - x) (b - y))" by auto
  then show "\<exists>r \<in> {0..<n}. \<exists>c \<in> {0..<k}. p = (x + c, y + r, g c r)" by blast
qed (auto simp: area_def)

text \<open>The loops \<open>for i in 0..n\<close> whose body gives up at a limit run over a prefix of their range.\<close>

lemma takeWhile_upt:
  assumes "l \<le> k" "k \<le> n" "\<And>i. l \<le> i \<Longrightarrow> i < k \<Longrightarrow> P i" "k < n \<Longrightarrow> \<not> P k"
  shows "takeWhile P [l..<n] = [l..<k]"
proof -
  have n: "[l..<n] = [l..<k] @ [k..<n]" using upt_add_eq_append [OF assms(1), of "n - k"] assms(2) by simp
  have "takeWhile P [k..<n] = []" using assms(4) by (cases "k < n") (simp_all add: upt_conv_Cons)
  then show ?thesis unfolding n using assms(3) by (subst takeWhile_append2) auto
qed

lemma limit_nat: "takeWhile (\<lambda>i. a + i < (m :: nat)) [l..<n] = [l..<max l (min n (m - a))]"
proof (cases "l \<le> n")
  case True
  then show ?thesis by (intro takeWhile_upt) auto
qed auto

lemma limit_word:
  fixes a m :: u64
  shows "takeWhile (\<lambda>i. a + of_nat i < m) [0..<n] = [0..<min n (unat m - unat a)]"
proof -
  have u: "unat (a + of_nat i) = unat a + i" if "unat a + i \<le> unat m" for i
  proof -
    have "unat a + i < 18446744073709551616" using that unat_u64_less [of m] by linarith
    then show ?thesis by (simp add: unat_word_ariths unsigned_of_nat take_bit_eq_mod mod_simps)
  qed
  show ?thesis
  proof (intro takeWhile_upt)
    fix i assume "i < min n (unat m - unat a)"
    then have "unat a + i < unat m" by linarith
    then show "a + of_nat i < m" using u [of i] by (simp add: word_less_nat_alt)
  next
    assume "min n (unat m - unat a) < n"
    then have k: "min n (unat m - unat a) = unat m - unat a" by simp
    show "\<not> a + of_nat (min n (unat m - unat a)) < m"
    proof (cases "unat a \<le> unat m")
      case True
      then show ?thesis unfolding k using u [of "unat m - unat a"] by (simp add: word_less_nat_alt)
    next
      case False
      then show ?thesis unfolding k by (simp add: word_less_nat_alt)
    qed
  qed simp_all
qed

lemma in_loop:
  "p \<in> set (concat (map f as)) \<longleftrightarrow> (\<exists>a \<in> set as. p \<in> set (f a))"
  "p \<in> set (map g as) \<longleftrightarrow> (\<exists>a \<in> set as. p = g a)"
  by auto

section \<open>The interface\<close>

locale raster =
  fixes w h :: nat and sound :: bool and plot :: "nat \<Rightarrow> nat \<Rightarrow> u32 \<Rightarrow> 's \<Rightarrow> 's" and pixel :: "'s \<Rightarrow> nat \<Rightarrow> nat \<Rightarrow> u32"
  assumes plot_pixel: "sound \<Longrightarrow> x < w \<Longrightarrow> y < h \<Longrightarrow> x' < w \<Longrightarrow> y' < h \<Longrightarrow>
    pixel (plot x y c s) x' y' = (if x' = x \<and> y' = y then c else pixel s x' y')"
begin

definition plots :: "plot list \<Rightarrow> 's \<Rightarrow> 's" where
  "plots ps s = fold (\<lambda>(x, y, c). plot x y c) ps s"

lemma loop_plots: "fold (\<lambda>i. plot (px i) (py i) (pc i)) is = plots (map (\<lambda>i. (px i, py i, pc i)) is)"
proof
  show "fold (\<lambda>i. plot (px i) (py i) (pc i)) is s = plots (map (\<lambda>i. (px i, py i, pc i)) is) s" for s
    by (induction "is" arbitrary: s) (simp_all add: plots_def)
qed

lemma nested_plots: "fold (\<lambda>a. plots (ps a)) as = plots (concat (map ps as))"
proof
  show "fold (\<lambda>a. plots (ps a)) as s = plots (concat (map ps as)) s" for s
    by (induction as arbitrary: s) (simp_all add: plots_def)
qed

lemma plots_pixel:
  assumes sound and "x < w" "y < h"
  shows "(\<forall>(x, y, c) \<in> set ps. x < w \<and> y < h \<and> c = g x y) \<Longrightarrow>
    pixel (plots ps s) x y = (if (x, y, g x y) \<in> set ps then g x y else pixel s x y)"
proof (induction ps rule: rev_induct)
  case (snoc p ps)
  obtain a b c where p: "p = (a, b, c)" by (cases p)
  have "pixel (plot a b c (plots ps s)) x y = (if x = a \<and> y = b then c else pixel (plots ps s) x y)"
    using plot_pixel [OF assms(1), of a b x y c "plots ps s"] snoc.prems assms(2,3) p by auto
  then show ?case using snoc p by (auto simp: plots_def)
qed (simp add: plots_def)

lemma plots_area:
  assumes sound "x < w" "y < h" "set ps = area x1 x2 y1 y2 g" "x2 \<le> w" "y2 \<le> h"
  shows "pixel (plots ps s) x y = (if x1 \<le> x \<and> x < x2 \<and> y1 \<le> y \<and> y < y2 then g x y else pixel s x y)"
proof -
  have "\<forall>(x, y, c) \<in> set ps. x < w \<and> y < h \<and> c = g x y" using assms(4-6) by (auto simp: in_area)
  then show ?thesis using plots_pixel [OF assms(1-3), of ps g s] assms(4) by (simp add: in_area)
qed

end

end
