(* ===== verification/Display_Fb.thy ===== *)
theory Display_Fb
  imports Raster Console Page_Loop Kernel_State
begin

text \<open>
  The framebuffer of the kernel (\<^verbatim>\<open>display/fb.rs\<close>): its allocation, the pixel routines, and the text mode that draws
  25 rows of 80 cells of 24 by 43 pixels. The pixels are the 32-bit words from \<open>FB_VIRT\<close> on, by their index; that every
  index the code writes is one of the framebuffer is proved. \<open>fb_blit\<close> copies from a pointer, given as a function of the
  index. A character is given by its code.
\<close>

section \<open>State\<close>

abbreviation FB_W :: nat where "FB_W \<equiv> 1920"
abbreviation FB_H :: nat where "FB_H \<equiv> 1080"
abbreviation FB_BPP :: nat where "FB_BPP \<equiv> 4"

definition FB_PITCH :: nat where "FB_PITCH = FB_W * FB_BPP"
definition FB_SIZE :: nat where "FB_SIZE = FB_W * FB_H * FB_BPP"
definition FB_PAGES :: nat where "FB_PAGES = (FB_SIZE + unat PAGE_SIZE - 1) div unat PAGE_SIZE"

abbreviation COLS :: nat where "COLS \<equiv> 80"
abbreviation ROWS :: nat where "ROWS \<equiv> 25"
abbreviation CELL_W :: nat where "CELL_W \<equiv> 24"
abbreviation CELL_H :: nat where "CELL_H \<equiv> 43"

record fbs =
  fs_pix :: "nat \<Rightarrow> u32"
  fs_virt :: u64
  fs_info :: fb_info
  fs_tx :: nat
  fs_ty :: nat
  fs_fg :: u32
  fs_bg :: u32

definition fbs_boot :: fbs where
  "fbs_boot = \<lparr>fs_pix = (\<lambda>_. 0), fs_virt = 0, fs_info = \<lparr>fb_phys = 0, fb_width = 0, fb_height = 0, fb_pitch = 0, fb_bpp = 32\<rparr>,
     fs_tx = 0, fs_ty = 0, fs_fg = 0xFFFFFFFF, fs_bg = 0xFF000000\<rparr>"

section \<open>Allocation\<close>

definition FB_VBASE :: u64 where "FB_VBASE = 0x80000000"

text \<open>\<open>FB_PHYS\<close> is the frame of the first page; the others come from wherever the allocator finds them.\<close>

definition fb_alloc :: "u64 \<Rightarrow> fbs \<Rightarrow> pmm \<Rightarrow> (bool \<times> fbs \<times> pmm) run" where
  "fb_alloc p4 s m =
     bind_run (mm_alloc m) (\<lambda>(first_phys, m1).
     bind_run (vmap p4 FB_VBASE first_phys PTE_W (zero_page first_phys m1)) (\<lambda>(_, m2).
     bind_run (run_pages (map_page_zero p4 PTE_W) (map (\<lambda>i. FB_VBASE + of_nat i * PAGE_SIZE) [1..<FB_PAGES]) m2) (\<lambda>m3.
       Done (first_phys \<noteq> 0, s\<lparr>fs_virt := FB_VBASE, fs_info := (fs_info s)\<lparr>fb_phys := first_phys, fb_width := of_nat FB_W,
         fb_height := of_nat FB_H, fb_pitch := of_nat FB_PITCH\<rparr>\<rparr>, m3))))"

section \<open>Pixels\<close>

text \<open>\<open>*FB_VIRT.add(i) = c\<close>\<close>

definition set_pix :: "nat \<Rightarrow> u32 \<Rightarrow> fbs \<Rightarrow> fbs" where
  "set_pix i c s = s\<lparr>fs_pix := (fs_pix s)(i := c)\<rparr>"

definition fb_plot :: "nat \<Rightarrow> nat \<Rightarrow> u32 \<Rightarrow> fbs \<Rightarrow> fbs" where
  "fb_plot x y c s = set_pix (y * FB_W + x) c s"

definition fb_ptr :: "fbs \<Rightarrow> u64 option" where
  "fb_ptr s = (if fs_virt s = 0 then None else Some (fs_virt s))"

definition fb_pixel :: "u64 \<Rightarrow> u64 \<Rightarrow> u32 \<Rightarrow> fbs \<Rightarrow> fbs" where
  "fb_pixel x y color s = (if x < of_nat FB_W \<and> y < of_nat FB_H then fb_plot (unat x) (unat y) color s else s)"

definition fb_fill :: "u32 \<Rightarrow> fbs \<Rightarrow> fbs" where
  "fb_fill color s = (if fs_virt s = 0 then s else fold (\<lambda>i. set_pix i color) [0..<FB_W * FB_H] s)"

definition fb_rect :: "u64 \<Rightarrow> u64 \<Rightarrow> u64 \<Rightarrow> u64 \<Rightarrow> u32 \<Rightarrow> fbs \<Rightarrow> fbs" where
  "fb_rect x y w h color s =
     fold (\<lambda>row. fold (\<lambda>col. fb_plot (unat (x + of_nat col)) (unat (y + of_nat row)) color)
         (takeWhile (\<lambda>col. x + of_nat col < of_nat FB_W) [0..<unat w]))
       (takeWhile (\<lambda>row. y + of_nat row < of_nat FB_H) [0..<unat h]) s"

definition fb_blit :: "(u64 \<Rightarrow> u32) \<Rightarrow> u64 \<Rightarrow> u64 \<Rightarrow> u64 \<Rightarrow> u64 \<Rightarrow> fbs \<Rightarrow> fbs" where
  "fb_blit src sw sh dx dy s =
     (if fs_virt s = 0 then s
      else fold (\<lambda>row. fold (\<lambda>col. fb_plot (unat (dx + of_nat col)) (unat (dy + of_nat row)) (src (of_nat row * sw + of_nat col)))
             (takeWhile (\<lambda>col. dx + of_nat col < of_nat FB_W) [0..<unat sw]))
           (takeWhile (\<lambda>row. dy + of_nat row < of_nat FB_H) [0..<unat sh]) s)"

text \<open>The colour bars of \<^verbatim>\<open>display/mod.rs\<close>.\<close>

definition bar_color :: "nat \<Rightarrow> u32" where
  "bar_color x = [0x000000, 0xFF0000, 0xFF7F00, 0xFFFF00, 0x00FF00, 0x00FFFF, 0x0000FF, 0xFFFFFF] ! min (x * 8 div FB_W) 7"

definition display_test_pattern :: "fbs \<Rightarrow> fbs" where
  "display_test_pattern s = fold (\<lambda>y. fold (\<lambda>x. fb_pixel (of_nat x) (of_nat y) (bar_color x)) [0..<FB_W]) [0..<FB_H] s"

section \<open>Text\<close>

definition FONT8X16 :: "u8 list list" where
  "FONT8X16 = fold (\<lambda>(i, g) f. f[i := g])
    [(1, [0,0x18,0x18,0x18,0x18,0x18,0x18,0,0x18,0x18,0,0,0,0,0,0]),
     (3, [0,0x6c,0x6c,0xfe,0x6c,0x6c,0xfe,0x6c,0x6c,0,0,0,0,0,0,0]),
     (16, [0,0x38,0x6c,0xc6,0xc6,0xd6,0xd6,0xc6,0xc6,0x6c,0x38,0,0,0,0,0]),
     (17, [0,0x18,0x38,0x78,0x18,0x18,0x18,0x18,0x18,0x18,0x7e,0,0,0,0,0]),
     (18, [0,0x7c,0xc6,6,0xc,0x18,0x30,0x60,0xc0,0xc6,0xfe,0,0,0,0,0]),
     (19, [0,0x7c,0xc6,6,6,0x3c,6,6,6,0xc6,0x7c,0,0,0,0,0]),
     (20, [0,0xc,0x1c,0x3c,0x6c,0xcc,0xfe,0xc,0xc,0xc,0x1e,0,0,0,0,0]),
     (21, [0,0xfe,0xc0,0xc0,0xc0,0xfc,6,6,6,0xc6,0x7c,0,0,0,0,0]),
     (22, [0,0x38,0x60,0xc0,0xc0,0xfc,0xc6,0xc6,0xc6,0xc6,0x7c,0,0,0,0,0]),
     (23, [0,0xfe,0xc6,6,6,0xc,0x18,0x30,0x30,0x30,0x30,0,0,0,0,0]),
     (24, [0,0x7c,0xc6,0xc6,0xc6,0x7c,0xc6,0xc6,0xc6,0xc6,0x7c,0,0,0,0,0]),
     (25, [0,0x7c,0xc6,0xc6,0xc6,0x7e,6,6,6,0xc,0x78,0,0,0,0,0]),
     (33, [0,0x10,0x38,0x6c,0xc6,0xc6,0xfe,0xc6,0xc6,0xc6,0xc6,0,0,0,0,0]),
     (34, [0,0xfc,0x66,0x66,0x66,0x7c,0x66,0x66,0x66,0x66,0xfc,0,0,0,0,0]),
     (35, [0,0x3c,0x66,0xc2,0xc0,0xc0,0xc0,0xc0,0xc2,0x66,0x3c,0,0,0,0,0]),
     (36, [0,0xf8,0x6c,0x66,0x66,0x66,0x66,0x66,0x66,0x6c,0xf8,0,0,0,0,0]),
     (37, [0,0xfe,0x66,0x62,0x68,0x78,0x68,0x60,0x62,0x66,0xfe,0,0,0,0,0]),
     (38, [0,0xfe,0x66,0x62,0x68,0x78,0x68,0x60,0x60,0x60,0xf0,0,0,0,0,0]),
     (39, [0,0x3c,0x66,0xc2,0xc0,0xc0,0xde,0xc6,0xc6,0x66,0x3a,0,0,0,0,0]),
     (40, [0,0xc6,0xc6,0xc6,0xc6,0xfe,0xc6,0xc6,0xc6,0xc6,0xc6,0,0,0,0,0]),
     (41, [0,0x3c,0x18,0x18,0x18,0x18,0x18,0x18,0x18,0x18,0x3c,0,0,0,0,0]),
     (42, [0,0x1e,0xc,0xc,0xc,0xc,0xc,0xcc,0xcc,0xcc,0x78,0,0,0,0,0]),
     (43, [0,0xe6,0x66,0x6c,0x6c,0x78,0x78,0x6c,0x66,0x66,0xe6,0,0,0,0,0]),
     (44, [0,0xf0,0x60,0x60,0x60,0x60,0x60,0x62,0x66,0x66,0xfe,0,0,0,0,0]),
     (45, [0,0xc6,0xee,0xfe,0xfe,0xd6,0xc6,0xc6,0xc6,0xc6,0xc6,0,0,0,0,0]),
     (46, [0,0xc6,0xe6,0xf6,0xfe,0xde,0xce,0xc6,0xc6,0xc6,0xc6,0,0,0,0,0]),
     (47, [0,0x38,0x6c,0xc6,0xc6,0xc6,0xc6,0xc6,0xc6,0x6c,0x38,0,0,0,0,0]),
     (48, [0,0xfc,0x66,0x66,0x66,0x7c,0x60,0x60,0x60,0x60,0xf0,0,0,0,0,0]),
     (49, [0,0x38,0x6c,0xc6,0xc6,0xc6,0xc6,0xc6,0xc6,0x6c,0x3e,6,6,0,0,0]),
     (50, [0,0xfc,0x66,0x66,0x66,0x7c,0x6c,0x66,0x66,0x66,0xe6,0,0,0,0,0]),
     (51, [0,0x7c,0xc6,0xc6,0x60,0x38,0xc,6,0xc6,0xc6,0x7c,0,0,0,0,0]),
     (52, [0,0x7e,0x7e,0x5a,0x18,0x18,0x18,0x18,0x18,0x18,0x3c,0,0,0,0,0]),
     (53, [0,0xc6,0xc6,0xc6,0xc6,0xc6,0xc6,0xc6,0xc6,0xc6,0x7c,0,0,0,0,0]),
     (54, [0,0xc6,0xc6,0xc6,0xc6,0xc6,0xc6,0xc6,0x6c,0x38,0x10,0,0,0,0,0]),
     (55, [0,0xc6,0xc6,0xc6,0xc6,0xd6,0xd6,0xfe,0xee,0x6c,0x44,0,0,0,0,0]),
     (56, [0,0xc6,0xc6,0x6c,0x6c,0x38,0x38,0x6c,0x6c,0xc6,0xc6,0,0,0,0,0]),
     (57, [0,0x66,0x66,0x66,0x66,0x3c,0x18,0x18,0x18,0x18,0x3c,0,0,0,0,0]),
     (58, [0,0xfe,0xc6,0x86,0xc,0x18,0x30,0x60,0xc2,0xc6,0xfe,0,0,0,0,0]),
     (65, [0,0,0,0,0x78,0xc,0x7c,0xcc,0xcc,0xcc,0x76,0,0,0,0,0]),
     (66, [0,0xe0,0x60,0x60,0x7c,0x66,0x66,0x66,0x66,0x66,0xdc,0,0,0,0,0]),
     (67, [0,0,0,0,0x7c,0xc6,0xc0,0xc0,0xc0,0xc6,0x7c,0,0,0,0,0]),
     (68, [0,0x1c,0xc,0xc,0x7c,0xcc,0xcc,0xcc,0xcc,0xcc,0x76,0,0,0,0,0]),
     (69, [0,0,0,0,0x7c,0xc6,0xfe,0xc0,0xc0,0xc6,0x7c,0,0,0,0,0]),
     (70, [0,0x1c,0x36,0x30,0x30,0xfc,0x30,0x30,0x30,0x30,0x78,0,0,0,0,0]),
     (71, [0,0,0,0,0x76,0xcc,0xcc,0xcc,0xcc,0x7c,0xc,0xcc,0x78,0,0,0]),
     (72, [0,0xe0,0x60,0x60,0x6c,0x76,0x66,0x66,0x66,0x66,0xe6,0,0,0,0,0]),
     (73, [0,0x18,0x18,0,0x78,0x18,0x18,0x18,0x18,0x18,0x7e,0,0,0,0,0]),
     (74, [0,6,6,0,0x1e,6,6,6,6,6,0x66,0x66,0x3c,0,0,0]),
     (75, [0,0xe0,0x60,0x60,0x66,0x6c,0x78,0x78,0x6c,0x66,0xe6,0,0,0,0,0]),
     (76, [0,0x78,0x18,0x18,0x18,0x18,0x18,0x18,0x18,0x18,0x7e,0,0,0,0,0]),
     (77, [0,0,0,0,0xec,0xfe,0xd6,0xd6,0xd6,0xd6,0xc6,0,0,0,0,0]),
     (78, [0,0,0,0,0xdc,0x66,0x66,0x66,0x66,0x66,0x66,0,0,0,0,0]),
     (79, [0,0,0,0,0x7c,0xc6,0xc6,0xc6,0xc6,0xc6,0x7c,0,0,0,0,0]),
     (80, [0,0,0,0,0xdc,0x66,0x66,0x66,0x66,0x7c,0x60,0x60,0xf0,0,0,0]),
     (81, [0,0,0,0,0x76,0xcc,0xcc,0xcc,0xcc,0x7c,0xc,0xc,0x1e,0,0,0]),
     (82, [0,0,0,0,0xdc,0x76,0x62,0x60,0x60,0x60,0xf0,0,0,0,0,0]),
     (83, [0,0,0,0,0x7c,0xc6,0x60,0x38,0xc,0xc6,0x7c,0,0,0,0,0]),
     (84, [0,0x10,0x30,0x30,0xfc,0x30,0x30,0x30,0x30,0x36,0x1c,0,0,0,0,0]),
     (85, [0,0,0,0,0xcc,0xcc,0xcc,0xcc,0xcc,0xcc,0x76,0,0,0,0,0]),
     (86, [0,0,0,0,0xc6,0xc6,0xc6,0xc6,0xc6,0x6c,0x38,0,0,0,0,0]),
     (87, [0,0,0,0,0xc6,0xc6,0xd6,0xd6,0xfe,0xee,0x44,0,0,0,0,0]),
     (88, [0,0,0,0,0xc6,0x6c,0x38,0x38,0x38,0x6c,0xc6,0,0,0,0,0]),
     (89, [0,0,0,0,0x66,0x66,0x66,0x66,0x66,0x3c,0xc,0x18,0xf0,0,0,0]),
     (90, [0,0,0,0,0xfe,0xcc,0x18,0x30,0x60,0xc6,0xfe,0,0,0,0,0])]
    (replicate 95 (replicate 16 0))"

definition glyph_of :: "u32 \<Rightarrow> u8 list" where
  "glyph_of c = (if c \<ge> 0x20 \<and> c \<le> 0x7E then FONT8X16 ! (unat c - 0x20) else FONT8X16 ! 0)"

definition fb_draw_char :: "u32 \<Rightarrow> nat \<Rightarrow> nat \<Rightarrow> u32 \<Rightarrow> u32 \<Rightarrow> fbs \<Rightarrow> fbs" where
  "fb_draw_char c cx cy fg bg s =
     (if fs_virt s = 0 then s
      else let px = cx * CELL_W; py = cy * CELL_H; glyph = glyph_of c in
        fold (\<lambda>row. fold (\<lambda>sy. fold (\<lambda>col. fold (\<lambda>sx.
              fb_plot (px + sx) (py + sy) (if drop_bit (7 - col) (glyph ! row) AND 1 \<noteq> 0 then fg else bg))
            (takeWhile (\<lambda>sx. px + sx < FB_W) [col * CELL_W div 8..<(col + 1) * CELL_W div 8])) [0..<8])
          (takeWhile (\<lambda>sy. py + sy < FB_H) [row * CELL_H div 16..<(row + 1) * CELL_H div 16])) [0..<16] s)"

text \<open>\<open>copy\<close> allows its two ranges to overlap.\<close>

definition fb_scroll_up :: "fbs \<Rightarrow> fbs" where
  "fb_scroll_up s =
     (if fs_virt s = 0 then s
      else let row_px = CELL_H * FB_W; total = FB_W * (FB_H - CELL_H);
               s1 = s\<lparr>fs_pix := (\<lambda>i. if i < total then fs_pix s (row_px + i) else fs_pix s i)\<rparr>
        in fold (\<lambda>i. set_pix i (fs_bg s)) [FB_W * (FB_H - CELL_H)..<FB_W * FB_H] s1)"

definition fb_putc :: "u32 \<Rightarrow> fbs \<Rightarrow> fbs" where
  "fb_putc c s =
     (if fs_virt s = 0 then s
      else let s1 = (if c = 0x0A then s\<lparr>fs_tx := 0, fs_ty := fs_ty s + 1\<rparr>
                     else if c = 0x0D then s\<lparr>fs_tx := 0\<rparr>
                     else if c = 0x09 then s\<lparr>fs_tx := (fs_tx s + 8) div 8 * 8\<rparr>
                     else if c = 0x08
                     then if fs_tx s > 0 then (let t = s\<lparr>fs_tx := fs_tx s - 1\<rparr> in fb_draw_char 0x20 (fs_tx t) (fs_ty t) (fs_fg t) (fs_bg t) t)
                          else s
                     else (fb_draw_char c (fs_tx s) (fs_ty s) (fs_fg s) (fs_bg s) s)\<lparr>fs_tx := fs_tx s + 1\<rparr>);
               s2 = (if fs_tx s1 \<ge> COLS then s1\<lparr>fs_tx := 0, fs_ty := fs_ty s1 + 1\<rparr> else s1)
        in if fs_ty s2 \<ge> ROWS then (fb_scroll_up s2)\<lparr>fs_ty := ROWS - 1\<rparr> else s2)"

definition fb_set_color :: "u32 \<Rightarrow> u32 \<Rightarrow> fbs \<Rightarrow> fbs" where
  "fb_set_color fg bg s = s\<lparr>fs_fg := fg, fs_bg := bg\<rparr>"

definition fb_cls :: "fbs \<Rightarrow> fbs" where
  "fb_cls s = (fb_fill (fs_bg s) s)\<lparr>fs_tx := 0, fs_ty := 0\<rparr>"

end
