(* ===== verification/Fb_Text.thy ===== *)
theory Fb_Text
  imports Display_Fb Sample_Space
begin

text \<open>
  What the routines of the framebuffer do: they write inside it whatever their arguments are, its allocation backs it
  with frames of its own, and its text mode shows what the VGA text console (theory Console) shows.
\<close>

section \<open>The framebuffer as a raster\<close>

definition pixel_at :: "fbs \<Rightarrow> nat \<Rightarrow> nat \<Rightarrow> u32" where
  "pixel_at s x y = fs_pix s (y * 1920 + x)"

lemma row_inj: "x < (n :: nat) \<Longrightarrow> x' < n \<Longrightarrow> y * n + x = y' * n + x' \<longleftrightarrow> x = x' \<and> y = y'"
  by (metis div_mult_self3 div_less add.right_neutral mod_mult_self3 mod_less less_nat_zero_code)

interpretation kfb: raster 1920 1080 True fb_plot pixel_at
  by unfold_locales (simp add: fb_plot_def set_pix_def pixel_at_def row_inj)

lemma plots_frame [simp]:
  "fs_virt (kfb.plots ps s) = fs_virt s" "fs_info (kfb.plots ps s) = fs_info s" "fs_tx (kfb.plots ps s) = fs_tx s"
  "fs_ty (kfb.plots ps s) = fs_ty s" "fs_fg (kfb.plots ps s) = fs_fg s" "fs_bg (kfb.plots ps s) = fs_bg s"
  by (induction ps arbitrary: s) (auto simp: kfb.plots_def fb_plot_def set_pix_def)

section \<open>One character\<close>

definition font_row :: "nat \<Rightarrow> nat" where
  "font_row sy = (16 * sy + 15) div 43"

text \<open>Whether the glyph of a character has ink at a position of its cell.\<close>

definition ink :: "u32 \<Rightarrow> nat \<Rightarrow> nat \<Rightarrow> bool" where
  "ink c sx sy = bit (glyph_of c ! font_row sy) (7 - sx div 3)"

lemma font_row_iff: "r * 43 div 16 \<le> sy \<and> sy < (r + 1) * 43 div 16 \<longleftrightarrow> font_row sy = r"
proof -
  have a: "k * 43 div 16 \<le> sy \<longleftrightarrow> k \<le> font_row sy" for k
  proof -
    have "k * 43 div 16 \<le> sy \<longleftrightarrow> k * 43 div 16 < sy + 1" by linarith
    also have "\<dots> \<longleftrightarrow> k * 43 < (sy + 1) * 16" by (simp add: div_less_iff_less_mult)
    also have "\<dots> \<longleftrightarrow> k * 43 \<le> 16 * sy + 15" by arith
    also have "\<dots> \<longleftrightarrow> k \<le> font_row sy" by (simp add: font_row_def less_eq_div_iff_mult_less_eq)
    finally show ?thesis .
  qed
  show ?thesis using a [of r] a [of "r + 1"] by linarith
qed

lemma font_row_less: "sy < 43 \<Longrightarrow> font_row sy < 16"
  by (simp add: font_row_def div_less_iff_less_mult)

lemma bit_test: "drop_bit n (w :: u8) AND 1 \<noteq> 0 \<longleftrightarrow> bit w n"
  by (simp add: and_one_eq odd_iff_mod_2_eq_one [symmetric] bit_iff_odd_drop_bit)

definition char_plots :: "u32 \<Rightarrow> nat \<Rightarrow> nat \<Rightarrow> u32 \<Rightarrow> u32 \<Rightarrow> plot list" where
  "char_plots c px py fg bg = concat (map (\<lambda>r. concat (map (\<lambda>sy. concat (map (\<lambda>col. map (\<lambda>sx.
       (px + sx, py + sy, if drop_bit (7 - col) (glyph_of c ! r) AND 1 \<noteq> 0 then fg else bg))
     (takeWhile (\<lambda>sx. px + sx < 1920) [col * 24 div 8..<(col + 1) * 24 div 8])) [0..<8]))
     (takeWhile (\<lambda>sy. py + sy < 1080) [r * 43 div 16..<(r + 1) * 43 div 16]))) [0..<16])"

lemma draw_char_plots:
  "fb_draw_char c cx cy fg bg s = (if fs_virt s = 0 then s else kfb.plots (char_plots c (cx * 24) (cy * 43) fg bg) s)"
  by (simp only: fb_draw_char_def Let_def kfb.loop_plots kfb.nested_plots char_plots_def)

definition char_color :: "u32 \<Rightarrow> nat \<Rightarrow> nat \<Rightarrow> u32 \<Rightarrow> u32 \<Rightarrow> nat \<Rightarrow> nat \<Rightarrow> u32" where
  "char_color c px py fg bg x y = (if ink c (x - px) (y - py) then fg else bg)"

lemma char_plots_set:
  assumes "px + 24 \<le> 1920" "py + 43 \<le> 1080"
  shows "set (char_plots c px py fg bg) = area px (px + 24) py (py + 43) (char_color c px py fg bg)"
proof -
  have x: "set (takeWhile (\<lambda>sx. px + sx < 1920) [col * 24 div 8..<(col + 1) * 24 div 8]) = {sx. sx div 3 = col}" if "col < 8" for col
    using that assms(1) by (auto simp: limit_nat)
  have y: "set (takeWhile (\<lambda>sy. py + sy < 1080) [r * 43 div 16..<(r + 1) * 43 div 16]) = {sy. font_row sy = r}" if "r < 16" for r
  proof -
    have "(r + 1) * 43 div 16 \<le> 43" using that div_le_mono [of "(r + 1) * 43" "43 * 16" 16] by simp
    then have tw: "takeWhile (\<lambda>sy. py + sy < 1080) [r * 43 div 16..<(r + 1) * 43 div 16] = [r * 43 div 16..<(r + 1) * 43 div 16]"
      using assms(2) by (subst takeWhile_eq_all_conv) auto
    show ?thesis unfolding tw set_upt set_eq_iff atLeastLessThan_iff mem_Collect_eq font_row_iff by simp
  qed
  have le: "sy < 43" if "font_row sy < 16" for sy using that by (simp add: font_row_def div_less_iff_less_mult)
  show ?thesis
  proof (rule set_eqI)
    fix p :: plot
    have "p \<in> set (char_plots c px py fg bg) \<longleftrightarrow>
        (\<exists>r \<in> {0..<16}. \<exists>sy \<in> {sy. font_row sy = r}. \<exists>col \<in> {0..<8}. \<exists>sx \<in> {sx. sx div 3 = col}.
          p = (px + sx, py + sy, if bit (glyph_of c ! r) (7 - col) then fg else bg))"
      unfolding char_plots_def bit_test in_loop set_upt by (intro bex_cong refl x y) (simp_all only: atLeastLessThan_iff)
    also have "\<dots> \<longleftrightarrow> (\<exists>sy \<in> {0..<43}. \<exists>sx \<in> {0..<24}. p = (px + sx, py + sy, if ink c sx sy then fg else bg))"
      unfolding ink_def using le font_row_less by fastforce
    also have "\<dots> \<longleftrightarrow> p \<in> area px (px + 24) py (py + 43) (char_color c px py fg bg)"
      unfolding loops_area char_color_def ..
    finally show "p \<in> set (char_plots c px py fg bg) \<longleftrightarrow> p \<in> area px (px + 24) py (py + 43) (char_color c px py fg bg)" .
  qed
qed

lemma cell_range: "0 < (n :: nat) \<Longrightarrow> a div n = k \<longleftrightarrow> k * n \<le> a \<and> a < k * n + n"
proof
  assume "0 < n" "a div n = k"
  then have "k * n + a mod n = a" "a mod n < n" using div_mult_mod_eq [of a n] by simp_all
  then show "k * n \<le> a \<and> a < k * n + n" by linarith
next
  assume "0 < n" "k * n \<le> a \<and> a < k * n + n"
  then show "a div n = k" using div_nat_eqI [of n k a] by (simp add: mult.commute)
qed

lemma draw_char_pixel:
  assumes "fs_virt s \<noteq> 0" "cx < 80" "cy < 25" "x < 1920" "y < 1080"
  shows "pixel_at (fb_draw_char c cx cy fg bg s) x y =
    (if x div 24 = cx \<and> y div 43 = cy then if ink c (x mod 24) (y mod 43) then fg else bg else pixel_at s x y)"
proof -
  have b: "cx * 24 + 24 \<le> 1920" "cy * 43 + 43 \<le> 1080" using assms(2,3) by linarith+
  have i: "x div 24 = cx \<longleftrightarrow> cx * 24 \<le> x \<and> x < cx * 24 + 24" "y div 43 = cy \<longleftrightarrow> cy * 43 \<le> y \<and> y < cy * 43 + 43"
    using cell_range [of 24 x cx] cell_range [of 43 y cy] by simp_all
  have m: "x div 24 = cx \<Longrightarrow> x mod 24 = x - cx * 24" "y div 43 = cy \<Longrightarrow> y mod 43 = y - cy * 43"
    using minus_div_mult_eq_mod [of x 24] minus_div_mult_eq_mod [of y 43] by simp_all
  have "pixel_at (fb_draw_char c cx cy fg bg s) x y = (if x div 24 = cx \<and> y div 43 = cy
      then char_color c (cx * 24) (cy * 43) fg bg x y else pixel_at s x y)"
    using kfb.plots_area [OF TrueI assms(4,5) char_plots_set [OF b] b, of c fg bg s] assms(1)
    unfolding draw_char_plots i by (simp only: if_False conj_assoc)
  then show ?thesis using m by (simp add: char_color_def)
qed

section \<open>Scrolling and clearing\<close>

lemma set_range: "fold (\<lambda>i. set_pix i c) [a..<b] s = s\<lparr>fs_pix := (\<lambda>i. if a \<le> i \<and> i < b then c else fs_pix s i)\<rparr>"
proof (induction b)
  case (Suc b)
  show ?case
  proof (cases "a \<le> b")
    case True
    then show ?thesis using Suc by (auto simp: set_pix_def fun_eq_iff less_Suc_eq)
  next
    case False
    then have n: "\<not> (a \<le> i \<and> i < Suc b)" for i by linarith
    show ?thesis unfolding if_not_P [OF n] using False by simp
  qed
next
  case 0
  have "(\<lambda>i. if a \<le> i \<and> i < 0 then c else fs_pix s i) = fs_pix s" by auto
  then show ?case by simp
qed

lemma scroll_pixel:
  assumes "fs_virt s \<noteq> 0" "x < 1920" "y < 1080"
  shows "pixel_at (fb_scroll_up s) x y = (if y < 1037 then pixel_at s x (y + 43) else fs_bg s)"
proof -
  have i: "y * 1920 + x < 1991040 \<longleftrightarrow> y < 1037" "y * 1920 + x < 2073600" "82560 + (y * 1920 + x) = (y + 43) * 1920 + x"
    using assms(2,3) by arith+
  show ?thesis using assms(1) i(2)
    unfolding fb_scroll_up_def Let_def set_range pixel_at_def i(3) [symmetric] using i(1) by auto
qed

lemma scroll_up_frame [simp]:
  "fs_virt (fb_scroll_up s) = fs_virt s" "fs_tx (fb_scroll_up s) = fs_tx s" "fs_ty (fb_scroll_up s) = fs_ty s"
  "fs_fg (fb_scroll_up s) = fs_fg s" "fs_bg (fb_scroll_up s) = fs_bg s" "fs_info (fb_scroll_up s) = fs_info s"
  by (simp_all add: fb_scroll_up_def Let_def set_range del: upt_rec_numeral)

lemma draw_char_frame [simp]:
  "fs_virt (fb_draw_char c cx cy fg bg s) = fs_virt s" "fs_tx (fb_draw_char c cx cy fg bg s) = fs_tx s"
  "fs_ty (fb_draw_char c cx cy fg bg s) = fs_ty s" "fs_fg (fb_draw_char c cx cy fg bg s) = fs_fg s"
  "fs_bg (fb_draw_char c cx cy fg bg s) = fs_bg s" "fs_info (fb_draw_char c cx cy fg bg s) = fs_info s"
  by (simp_all add: draw_char_plots)

section \<open>The text mode shows what the VGA console shows\<close>

lemma blank_glyph: "glyph_of 0x20 = replicate 16 0"
  by code_simp

lemma blank_ink: "sy < 43 \<Longrightarrow> \<not> ink 0x20 sx sy"
  using font_row_less [of sy] by (simp add: ink_def blank_glyph)

definition cell_char :: "u16 \<Rightarrow> u32" where
  "cell_char w = ucast (w AND 0xFF)"

lemma cell_char_cell: "c < 0x100 \<Longrightarrow> cell_char (cell col c) = ucast c"
proof -
  assume "c < 0x100"
  then have "take_bit 8 c = c" using unat_mono [of c 256] by (intro word_unat_eq_iff [THEN iffD2]) (simp add: take_bit_eq_mod unat_mod)
  then have c: "c AND 0xFF = c" by (simp add: take_bit_eq_mask mask_eq_exp_minus_1)
  have "push_bit 8 (ucast col) AND (mask 8 :: u16) = 0" by (rule bit_eqI) (auto simp: bit_simps)
  then have "push_bit 8 (ucast col) AND (0xFF :: u16) = 0" by (simp add: mask_eq_exp_minus_1)
  then show ?thesis by (simp add: cell_char_def cell_def bit.conj_disj_distrib2 c)
qed

definition text_pixels :: "u32 \<Rightarrow> u32 \<Rightarrow> u16 list \<Rightarrow> fbs \<Rightarrow> bool" where
  "text_pixels fg bg cells s \<longleftrightarrow> fs_virt s \<noteq> 0 \<and> fs_fg s = fg \<and> fs_bg s = bg \<and>
     (\<forall>x < 1920. \<forall>y < 1080. pixel_at s x y =
       (if y < 1075 \<and> ink (cell_char (cells ! (y div 43 * 80 + x div 24))) (x mod 24) (y mod 43) then fg else bg))"

text \<open>Same cursor, and every cell of the text buffer is drawn with its character; the five lines below the last row are blank.\<close>

definition shows_console :: "u32 \<Rightarrow> u32 \<Rightarrow> vga \<Rightarrow> fbs \<Rightarrow> bool" where
  "shows_console fg bg v s \<longleftrightarrow> text_pixels fg bg (vg_cells v) s \<and> fs_tx s = vg_x v \<and> fs_ty s = vg_y v"

lemma text_pixels_cursor [simp]:
  "text_pixels fg bg cs (s\<lparr>fs_tx := a\<rparr>) = text_pixels fg bg cs s"
  "text_pixels fg bg cs (s\<lparr>fs_ty := b\<rparr>) = text_pixels fg bg cs s"
  by (simp_all add: text_pixels_def pixel_at_def)

lemma text_pixels_draw:
  assumes t: "text_pixels fg bg cs s" and l: "length cs = 2000" "cx < 80" "cy < 25" and c: "c < 0x100"
  shows "text_pixels fg bg (cs[cy * 80 + cx := cell col c]) (fb_draw_char (ucast c) cx cy fg bg s)"
proof -
  have "pixel_at (fb_draw_char (ucast c) cx cy fg bg s) x y =
      (if y < 1075 \<and> ink (cell_char (cs[cy * 80 + cx := cell col c] ! (y div 43 * 80 + x div 24))) (x mod 24) (y mod 43) then fg else bg)"
    if xy: "x < 1920" "y < 1080" for x y
  proof (cases "x div 24 = cx \<and> y div 43 = cy")
    case True
    then have "y < 1075" "cy * 80 + cx < length cs" using l cell_range [of 43 y cy] by linarith+
    then show ?thesis using True draw_char_pixel [of s cx cy x y "ucast c" fg bg] t l xy
      by (simp add: text_pixels_def cell_char_cell [OF c])
  next
    case False
    then have "cy * 80 + cx \<noteq> y div 43 * 80 + x div 24"
      using row_inj [of cx 80 "x div 24" cy "y div 43"] l(2) xy by (auto simp: div_less_iff_less_mult)
    then show ?thesis using False draw_char_pixel [of s cx cy x y "ucast c" fg bg] t l xy
      by (auto simp: text_pixels_def)
  qed
  then show ?thesis using t by (simp add: text_pixels_def)
qed

lemma text_pixels_scroll:
  assumes t: "text_pixels fg bg (vg_cells v) s" and l: "length (vg_cells v) = 2000"
  shows "text_pixels fg bg (vg_cells (scroll v)) (fb_scroll_up s)"
proof -
  have "pixel_at (fb_scroll_up s) x y =
      (if y < 1075 \<and> ink (cell_char (vg_cells (scroll v) ! (y div 43 * 80 + x div 24))) (x mod 24) (y mod 43) then fg else bg)"
    if xy: "x < 1920" "y < 1080" for x y
  proof (cases "y < 1032")
    case True
    have s: "(y + 43) div 43 = y div 43 + 1" "(y + 43) mod 43 = y mod 43" by simp_all
    have "y div 43 < 24" "x div 24 < 80" using True xy by (simp_all add: div_less_iff_less_mult)
    then have i: "y div 43 * 80 + x div 24 < 1920" by linarith
    have "vg_cells (scroll v) ! (y div 43 * 80 + x div 24) = vg_cells v ! ((y + 43) div 43 * 80 + x div 24)"
      using scroll_cells [OF l, of "y div 43 * 80 + x div 24"] i by (simp add: s algebra_simps)
    then show ?thesis using t True xy scroll_pixel [of s x y] by (simp add: text_pixels_def s)
  next
    case False
    have old: "pixel_at (fb_scroll_up s) x y = bg" using t False xy scroll_pixel [of s x y] by (auto simp: text_pixels_def)
    have "\<not> ink (cell_char (vg_cells (scroll v) ! (y div 43 * 80 + x div 24))) (x mod 24) (y mod 43)" if "y < 1075"
    proof -
      have "y div 43 = 24" using cell_range [of 43 y 24] False that by simp
      moreover have "x div 24 < 80" using xy by (simp add: div_less_iff_less_mult)
      ultimately have "vg_cells (scroll v) ! (y div 43 * 80 + x div 24) = cell (vg_col v) 0x20"
        using scroll_cells [OF l, of "y div 43 * 80 + x div 24"] by simp
      moreover have "cell_char (cell (vg_col v) 0x20) = 0x20" by (simp add: cell_char_cell)
      ultimately show ?thesis using blank_ink by simp
    qed
    then show ?thesis using old by auto
  qed
  then show ?thesis using t by (simp add: text_pixels_def)
qed

lemma fb_putc_shows:
  assumes s: "shows_console fg bg v s" and v: "vga_ok v" and c: "c < 0x100"
  shows "shows_console fg bg (putc c v) (fb_putc (ucast c) s)"
proof -
  have t: "text_pixels fg bg (vg_cells v) s" and xy: "fs_tx s = vg_x v" "fs_ty s = vg_y v" using s by (simp_all add: shows_console_def)
  have l: "length (vg_cells v) = 2000" "vg_x v < 80" "vg_y v < 25" using v by (simp_all add: vga_ok_def)
  have u: "(ucast c :: u32) = 0x0A \<longleftrightarrow> c = 0x0A" "(ucast c :: u32) = 0x0D \<longleftrightarrow> c = 0x0D"
    "(ucast c :: u32) = 0x09 \<longleftrightarrow> c = 0x09" "(ucast c :: u32) = 0x08 \<longleftrightarrow> c = 0x08"
    using unat_u16_less [of c] by (simp_all add: word_unat_eq_iff unsigned_ucast_eq take_bit_eq_mod)
  define fv where "fv t = (let s2 = (if vg_x t \<ge> 80 then t\<lparr>vg_x := 0, vg_y := vg_y t + 1\<rparr> else t);
      s3 = (if vg_y s2 \<ge> 25 then scroll s2 else s2) in cursor_hw s3)" for t
  define ff where "ff t = (let s2 = (if fs_tx t \<ge> 80 then t\<lparr>fs_tx := 0, fs_ty := fs_ty t + 1\<rparr> else t)
      in if fs_ty s2 \<ge> 25 then (fb_scroll_up s2)\<lparr>fs_ty := 24\<rparr> else s2)" for t
  have fin: "shows_console fg bg (fv t) (ff p)"
    if "text_pixels fg bg (vg_cells t) p" "fs_tx p = vg_x t" "fs_ty p = vg_y t" "length (vg_cells t) = 2000" for t p
    using that text_pixels_scroll [of fg bg t p] text_pixels_scroll [of fg bg "t\<lparr>vg_x := 0, vg_y := vg_y t + 1\<rparr>" "p\<lparr>fs_tx := 0, fs_ty := fs_ty p + 1\<rparr>"]
    by (simp add: fv_def ff_def Let_def shows_console_def)
  have w: "fs_virt s \<noteq> 0" "fs_fg s = fg" "fs_bg s = bg" using t by (simp_all add: text_pixels_def)
  have dr: "text_pixels fg bg (vg_cells (set_cell (cell (vg_col v) k) (v\<lparr>vg_x := x\<rparr>)))
      (fb_draw_char (ucast k) x (vg_y v) fg bg (s\<lparr>fs_tx := x\<rparr>))" if "k < 0x100" "x < 80" for k x
    using text_pixels_draw [of fg bg "vg_cells v" "s\<lparr>fs_tx := x\<rparr>" x "vg_y v" k] t l that by (simp add: set_cell_def)
  have p: "putc c v = fv (if c = 0x0A then v\<lparr>vg_x := 0, vg_y := vg_y v + 1\<rparr> else if c = 0x0D then v\<lparr>vg_x := 0\<rparr>
      else if c = 0x09 then v\<lparr>vg_x := (vg_x v + 8) div 8 * 8\<rparr>
      else if c = 0x08 then if vg_x v > 0 then set_cell (cell (vg_col v) 0x20) (v\<lparr>vg_x := vg_x v - 1\<rparr>) else v
      else (set_cell (cell (vg_col v) c) v)\<lparr>vg_x := vg_x v + 1\<rparr>)"
    unfolding putc_def fv_def Let_def ..
  have q: "fb_putc (ucast c) s = ff (if c = 0x0A then s\<lparr>fs_tx := 0, fs_ty := fs_ty s + 1\<rparr> else if c = 0x0D then s\<lparr>fs_tx := 0\<rparr>
      else if c = 0x09 then s\<lparr>fs_tx := (fs_tx s + 8) div 8 * 8\<rparr>
      else if c = 0x08 then if fs_tx s > 0 then fb_draw_char 0x20 (fs_tx s - 1) (fs_ty s) fg bg (s\<lparr>fs_tx := fs_tx s - 1\<rparr>) else s
      else (fb_draw_char (ucast c) (fs_tx s) (fs_ty s) fg bg s)\<lparr>fs_tx := fs_tx s + 1\<rparr>)"
    using w(1) unfolding fb_putc_def ff_def Let_def u by (simp add: w(2,3))
  have erase: "text_pixels fg bg (vg_cells (set_cell (cell (vg_col v) 0x20) (v\<lparr>vg_x := vg_x v - 1\<rparr>)))
      (fb_draw_char 0x20 (vg_x v - 1) (vg_y v) fg bg (s\<lparr>fs_tx := vg_x v - 1\<rparr>))" using dr [of "0x20" "vg_x v - 1"] l(2) by simp
  have put: "text_pixels fg bg (vg_cells (set_cell (cell (vg_col v) c) v)) (fb_draw_char (ucast c) (vg_x v) (vg_y v) fg bg s)"
    using text_pixels_draw [OF t l c] by (simp add: set_cell_def)
  show ?thesis unfolding p q
    by (rule fin) (use t xy l erase put in auto)
qed

section \<open>Writes stay in the framebuffer\<close>

definition inside :: "fbs \<Rightarrow> fbs \<Rightarrow> bool" where
  "inside s t \<longleftrightarrow> (\<forall>i \<ge> FB_W * FB_H. fs_pix t i = fs_pix s i)"

lemma inside_refl: "inside s s"
  by (simp add: inside_def)

lemma inside_trans: "inside s t \<Longrightarrow> inside t u \<Longrightarrow> inside s u"
  by (simp add: inside_def)

lemma inside_cong: "fs_pix t = fs_pix s' \<Longrightarrow> inside s s' \<Longrightarrow> inside s t"
  by (simp add: inside_def)

lemma inside_fold: "(\<And>a t. a \<in> set as \<Longrightarrow> inside t (f a t)) \<Longrightarrow> inside s (fold f as s)"
proof (induction as arbitrary: s)
  case (Cons a as)
  have "inside s (f a s)" "inside (f a s) (fold f as (f a s))" using Cons by simp_all
  then show ?case using inside_trans by simp
qed (simp add: inside_refl)

lemma inside_set: "i < FB_W * FB_H \<Longrightarrow> inside s (set_pix i c s)"
  by (auto simp: inside_def set_pix_def)

lemma inside_plot: "x < FB_W \<Longrightarrow> y < FB_H \<Longrightarrow> inside s (fb_plot x y c s)"
  unfolding fb_plot_def by (rule inside_set) simp

lemma word_limit: "(a :: u64) < of_nat n \<Longrightarrow> n < 65536 \<Longrightarrow> unat a < n"
  by (simp add: word_less_nat_alt unsigned_of_nat take_bit_eq_mod)

lemma inside_fill: "inside s (fb_fill c s)"
  unfolding fb_fill_def by (auto intro!: inside_fold inside_set inside_refl simp del: upt_rec_numeral)

lemma inside_draw: "inside s (fb_draw_char c cx cy fg bg s)"
  unfolding fb_draw_char_def Let_def
  by (auto intro!: inside_refl inside_fold inside_plot dest: set_takeWhileD simp del: upt_rec_numeral)

lemma inside_scroll: "inside s (fb_scroll_up s)"
proof (cases "fs_virt s = 0")
  case False
  then show ?thesis unfolding fb_scroll_up_def Let_def set_range inside_def by simp
qed (simp add: fb_scroll_up_def inside_refl)

lemma inside_test_pattern: "inside s (display_test_pattern s)"
  unfolding display_test_pattern_def
  by (intro inside_fold) (auto simp: fb_pixel_def inside_refl simp del: upt_rec_numeral intro!: inside_plot word_limit)

lemma inside_putc: "inside s (fb_putc c s)"
proof -
  define mid where "mid = (if c = 0x0A then s\<lparr>fs_tx := 0, fs_ty := fs_ty s + 1\<rparr>
      else if c = 0x0D then s\<lparr>fs_tx := 0\<rparr> else if c = 0x09 then s\<lparr>fs_tx := (fs_tx s + 8) div 8 * 8\<rparr>
      else if c = 0x08
      then if fs_tx s > 0 then (let t = s\<lparr>fs_tx := fs_tx s - 1\<rparr> in fb_draw_char 0x20 (fs_tx t) (fs_ty t) (fs_fg t) (fs_bg t) t) else s
      else (fb_draw_char c (fs_tx s) (fs_ty s) (fs_fg s) (fs_bg s) s)\<lparr>fs_tx := fs_tx s + 1\<rparr>)"
  have d: "inside s (fb_draw_char k a b fg bg (s\<lparr>fs_tx := x\<rparr>))" for k a b fg bg x
    using inside_draw [of "s\<lparr>fs_tx := x\<rparr>" k a b fg bg] by (simp add: inside_def)
  have m: "inside s mid" using d inside_draw [of s c "fs_tx s" "fs_ty s" "fs_fg s" "fs_bg s"]
    by (auto simp: mid_def Let_def inside_def)
  have "inside s t" if "fs_pix t = fs_pix mid" for t by (rule inside_cong [OF that m])
  moreover have "inside s ((fb_scroll_up t)\<lparr>fs_ty := k\<rparr>)" if "fs_pix t = fs_pix mid" for t k
    by (rule inside_cong [OF _ inside_trans [OF inside_cong [OF that m] inside_scroll [of t]]]) simp
  ultimately show ?thesis unfolding fb_putc_def mid_def [symmetric] by (simp add: Let_def inside_refl)
qed


text \<open>
  C12: the text mode of the framebuffer shows what the VGA console shows. When every cell of the VGA text buffer is drawn
  with its character and the cursors agree, they do so again after the same characters, whatever they are (line ends,
  tabs, backspaces, rows that are full, scrolling), and however the colour of the VGA console changes in between.
\<close>

theorem framebuffer_shows_console:
  assumes "shows_console fg bg v s" "vga_ok v" "\<forall>(col, c) \<in> set cs. c < 0x100"
  shows "shows_console fg bg (fold (\<lambda>(col, c) v. putc c (set_col col v)) cs v) (fold (\<lambda>(col, c). fb_putc (ucast c)) cs s)"
  using assms
proof (induction cs arbitrary: v s)
  case (Cons a cs)
  obtain col c where a: "a = (col, c)" by (cases a)
  have 1: "shows_console fg bg (set_col col v) s" "vga_ok (set_col col v)"
    using Cons.prems(1,2) by (simp_all add: shows_console_def set_col_def vga_ok_def)
  have "shows_console fg bg (putc c (set_col col v)) (fb_putc (ucast c) s)" "vga_ok (putc c (set_col col v))"
    using fb_putc_shows [OF 1] putc_ok [OF 1(2)] Cons.prems(3) a by simp_all
  then show ?case using Cons.IH Cons.prems(3) a by simp
qed simp

lemma cleared_shows:
  assumes "fs_virt s \<noteq> 0" "length (vg_cells v) = 2000"
  shows "shows_console (fs_fg s) (fs_bg s) (cls v) (fb_cls s)"
proof -
  have c: "vg_cells (cls v) ! i = cell (vg_col v) 0x20" if "i < 2000" for i
    using that assms(2) by (simp add: cls_def nth_append del: upt_rec_numeral)
  have p: "pixel_at (fb_cls s) x y = fs_bg s" if "x < 1920" "y < 1080" for x y
    using that assms(1) by (simp add: pixel_at_def fb_cls_def fb_fill_def set_range del: upt_rec_numeral)
  have "\<not> ink (cell_char (vg_cells (cls v) ! (y div 43 * 80 + x div 24))) (x mod 24) (y mod 43)" if "x < 1920" "y < 1075" for x y
  proof -
    have "y div 43 < 25" "x div 24 < 80" using that by (simp_all add: div_less_iff_less_mult)
    then have "y div 43 * 80 + x div 24 < 2000" by linarith
    then show ?thesis using blank_ink by (simp add: c cell_char_cell)
  qed
  moreover have "fs_virt (fb_cls s) = fs_virt s" "fs_fg (fb_cls s) = fs_fg s" "fs_bg (fb_cls s) = fs_bg s" "fs_tx (fb_cls s) = 0"
    "fs_ty (fb_cls s) = 0" "vg_x (cls v) = 0" "vg_y (cls v) = 0"
    using assms(1) by (simp_all add: fb_cls_def fb_fill_def set_range cls_def del: upt_rec_numeral)
  ultimately show ?thesis using p assms(1) unfolding shows_console_def text_pixels_def by auto
qed

definition fbs_ready :: fbs where
  "fbs_ready = fb_cls (fbs_boot\<lparr>fs_virt := FB_VBASE\<rparr>)"

lemma ready_shows: "shows_console 0xFFFFFFFF 0xFF000000 vga_boot fbs_ready"
  using cleared_shows [of "fbs_boot\<lparr>fs_virt := FB_VBASE\<rparr>"]
  by (simp add: vga_boot_def fbs_ready_def fbs_boot_def FB_VBASE_def del: upt_rec_numeral)

theorem framebuffer_shows_console_witness:
  "shows_console 0xFFFFFFFF 0xFF000000 (fold (\<lambda>(col, c) v. putc c (set_col col v)) [(LRED, 0x48), (WHITE, 0x0A)] vga_boot)
     (fold (\<lambda>(col, c). fb_putc (ucast c)) [(LRED, 0x48 :: u16), (WHITE, 0x0A)] fbs_ready)"
  by (rule framebuffer_shows_console [OF ready_shows vga_boot_ok(1)]) simp

section \<open>Allocation\<close>

interpretation fb_pages: page_mapper True p4 "map_page_zero p4 PTE_W" "\<lambda>v. v AND 0xFFF = 0" for p4
  by unfold_locales (rule map_page_zero_ok [OF _ _ table_flags(1)])

lemma FB_PAGES: "FB_PAGES = 2025"
  by (simp add: FB_PAGES_def FB_SIZE_def PAGE_SIZE_def)

text \<open>
  The allocation of the framebuffer succeeds when frames suffice: the 2025 pages from \<open>0x80000000\<close> on are backed by
  distinct frames that were free and are zeroed now, every other address translates as before, and the first frame is the
  physical address that is reported. The frames are not claimed to follow each other: they need not.
\<close>

theorem framebuffer_backed:
  assumes "room FB_PAGES p4 m"
  shows "\<exists>s' m' fs. fb_alloc p4 s m = Done (True, s', m') \<and> backed True p4 (page_seq FB_VBASE FB_PAGES) fs m m' \<and>
    fb_phys (fs_info s') = hd fs \<and> fs_virt s' = FB_VBASE \<and> fb_width (fs_info s') = 1920 \<and> fb_height (fs_info s') = 1080 \<and>
    fb_pitch (fs_info s') = 7680 \<and> fs_pix s' = fs_pix s"
proof -
  have al: "FB_VBASE AND 0xFFF = 0" by (simp add: FB_VBASE_def)
  have "room (Suc 2024) p4 m" using assms by (simp add: FB_PAGES)
  from map_page_zero_frame [OF this al table_flags(1)] obtain p m2 where
    1: "map_page_zero p4 PTE_W FB_VBASE m = Done m2" "room 2024 p4 m2" "backs True p4 FB_VBASE p m m2" and
    a: "\<exists>m1. mm_alloc m = Done (p, m1)" by blast
  have seq: "page_seq FB_VBASE 2025 = FB_VBASE # map (\<lambda>i. FB_VBASE + of_nat i * PAGE_SIZE) [1..<2025]"
    using upt_conv_Cons [of 0 2025] by (simp add: page_seq_def del: upt_rec_numeral)
  have ps: "\<forall>v \<in> set (page_seq FB_VBASE 2025). v AND 0xFFF = 0" "sorted_wrt (\<lambda>u v. \<not> same_page u v) (page_seq FB_VBASE 2025)"
    using page_seq_ok [of FB_VBASE 2025] by (simp_all add: FB_VBASE_def)
  have "room (length (map (\<lambda>i. FB_VBASE + of_nat i * PAGE_SIZE) [1..<2025]) + 0) p4 m2" using 1(2) by simp
  from fb_pages.run_pages_backed [OF this] ps [unfolded seq] obtain fs m' where
    2: "run_pages (map_page_zero p4 PTE_W) (map (\<lambda>i. FB_VBASE + of_nat i * PAGE_SIZE) [1..<2025]) m2 = Done m'"
      "backed True p4 (map (\<lambda>i. FB_VBASE + of_nat i * PAGE_SIZE) [1..<2025]) fs m2 m'" by auto
  have b: "backed True p4 (page_seq FB_VBASE 2025) (p # fs) m m'"
    unfolding seq using backed_Cons [OF 1(3) 2(2)] ps(2) [unfolded seq] by simp
  obtain m1 where m1: "mm_alloc m = Done (p, m1)" using a by blast
  have nz: "p \<noteq> 0" using 1(3) assms fp_nonzero [of m p] by (auto simp: backs_def room_def vmm_ok_def)
  have "bind_run (vmap p4 FB_VBASE p PTE_W (zero_page p m1)) (\<lambda>(_, m2). Done m2) = Done m2"
    using 1(1) m1 by (simp add: map_page_zero_def)
  then obtain r where "vmap p4 FB_VBASE p PTE_W (zero_page p m1) = Done (r, m2)" by (auto simp: run_simps split: prod.splits)
  then show ?thesis using m1 2(1) b nz
    by (intro exI [of _ "s\<lparr>fs_virt := FB_VBASE, fs_info := (fs_info s)\<lparr>fb_phys := p, fb_width := of_nat FB_W,
         fb_height := of_nat FB_H, fb_pitch := of_nat FB_PITCH\<rparr>\<rparr>"] exI [of _ m'] exI [of _ "p # fs"])
       (simp add: fb_alloc_def FB_PAGES FB_PITCH_def del: upt_rec_numeral)
qed

theorem framebuffer_backed_witness:
  "\<exists>s' m' fs. fb_alloc 0x1000 fbs_boot sample = Done (True, s', m') \<and>
    backed True 0x1000 (page_seq FB_VBASE FB_PAGES) fs sample m' \<and> fb_phys (fs_info s') = hd fs"
proof -
  have "room FB_PAGES 0x1000 sample" using sample_ok by (simp add: room_def FB_PAGES)
  from framebuffer_backed [OF this, of fbs_boot] show ?thesis by blast
qed

end
