(* ===== verification/Status_Screen.thy ===== *)
theory Status_Screen
  imports Raster Debug_Fmt
begin

text \<open>
  The status screen of the user program (\<^verbatim>\<open>userspace/src/main.rs\<close>): the renderer \<open>Fb\<close> over the framebuffer that
  \<open>GET_FB_INFO\<close> describes, and the screen it draws. The memory of the program is given by its 32-bit words: every access
  of the renderer is to \<open>virt_addr\<close> plus a multiple of 4. Coordinates are \<open>u32\<close> and wrap around.
\<close>

section \<open>The framebuffer\<close>

record fb_desc =
  fi_virt :: u64
  fi_phys :: u64
  fi_width :: u32
  fi_height :: u32
  fi_pitch :: u32
  fi_bpp :: u32
  fi_size :: u64

type_synonym mem_words = "u64 \<Rightarrow> u32"
type_synonym drawing = "mem_words \<Rightarrow> mem_words"

definition ui_stride :: "fb_desc \<Rightarrow> nat" where
  "ui_stride f = unat (fi_pitch f div 4)"

definition word_at :: "fb_desc \<Rightarrow> nat \<Rightarrow> nat \<Rightarrow> u64" where
  "word_at f x y = fi_virt f + 4 * of_nat (y * ui_stride f + x)"

definition ui_store :: "fb_desc \<Rightarrow> nat \<Rightarrow> nat \<Rightarrow> u32 \<Rightarrow> drawing" where
  "ui_store f x y c m = m(word_at f x y := c)"

section \<open>Colours and font\<close>

abbreviation pal_BG :: u32 where "pal_BG \<equiv> 0x000D111A"
abbreviation pal_PANEL :: u32 where "pal_PANEL \<equiv> 0x00121A2E"
abbreviation pal_BORDER :: u32 where "pal_BORDER \<equiv> 0x001E3A5F"
abbreviation pal_ACCENT :: u32 where "pal_ACCENT \<equiv> 0x0000AEFF"
abbreviation pal_ACCENT2 :: u32 where "pal_ACCENT2 \<equiv> 0x00FF6B35"
abbreviation pal_GREEN :: u32 where "pal_GREEN \<equiv> 0x0039D353"
abbreviation pal_WHITE :: u32 where "pal_WHITE \<equiv> 0x00F0F4FF"
abbreviation pal_GREY :: u32 where "pal_GREY \<equiv> 0x005A6B82"
abbreviation pal_YELLOW :: u32 where "pal_YELLOW \<equiv> 0x00FFD700"
abbreviation pal_TEAL :: u32 where "pal_TEAL \<equiv> 0x0000CCBB"

definition UI_FONT :: "u8 list list" where
  "UI_FONT =
    [[0,0,0,0,0,0,0,0,0,0,0,0,0,0,0,0],
     [0,0x10,0x10,0x10,0x10,0x10,0x10,0x10,0,0x10,0,0,0,0,0,0],
     [0,0x24,0x24,0x24,0,0,0,0,0,0,0,0,0,0,0,0],
     [0,0x24,0x24,0x7e,0x24,0x24,0x7e,0x24,0x24,0,0,0,0,0,0,0],
     [0,8,0x3e,0x49,0x48,0x3e,9,0x49,0x3e,8,0,0,0,0,0,0],
     [0,0x31,0x4a,0x34,8,0x16,0x29,0x46,0,0,0,0,0,0,0,0],
     [0,0x1c,0x22,0x22,0x1c,0x29,0x46,0x46,0x39,0,0,0,0,0,0,0],
     [0,0x18,0x18,0x10,0x20,0,0,0,0,0,0,0,0,0,0,0],
     [0,4,8,0x10,0x10,0x10,0x10,0x10,8,4,0,0,0,0,0,0],
     [0,0x20,0x10,8,8,8,8,8,0x10,0x20,0,0,0,0,0,0],
     [0,0,8,0x49,0x2a,0x1c,0x2a,0x49,8,0,0,0,0,0,0,0],
     [0,0,8,8,8,0x7f,8,8,8,0,0,0,0,0,0,0],
     [0,0,0,0,0,0,0,0x18,0x18,0x10,0x20,0,0,0,0,0],
     [0,0,0,0,0,0x7e,0,0,0,0,0,0,0,0,0,0],
     [0,0,0,0,0,0,0,0x18,0x18,0,0,0,0,0,0,0],
     [0,2,4,4,8,8,0x10,0x10,0x20,0x20,0,0,0,0,0,0],
     [0,0x1c,0x22,0x41,0x41,0x41,0x41,0x22,0x1c,0,0,0,0,0,0,0],
     [0,8,0x18,8,8,8,8,8,0x3e,0,0,0,0,0,0,0],
     [0,0x1c,0x22,2,4,8,0x10,0x20,0x3e,0,0,0,0,0,0,0],
     [0,0x3e,2,4,0xc,2,2,0x22,0x1c,0,0,0,0,0,0,0],
     [0,4,0xc,0x14,0x24,0x44,0x7e,4,4,0,0,0,0,0,0,0],
     [0,0x3e,0x20,0x20,0x3c,2,2,0x22,0x1c,0,0,0,0,0,0,0],
     [0,0xc,0x10,0x20,0x3c,0x22,0x22,0x22,0x1c,0,0,0,0,0,0,0],
     [0,0x3e,2,4,8,8,0x10,0x10,0x10,0,0,0,0,0,0,0],
     [0,0x1c,0x22,0x22,0x1c,0x22,0x22,0x22,0x1c,0,0,0,0,0,0,0],
     [0,0x1c,0x22,0x22,0x22,0x1e,2,4,0x18,0,0,0,0,0,0,0],
     [0,0,0x18,0x18,0,0,0x18,0x18,0,0,0,0,0,0,0,0],
     [0,0,0x18,0x18,0,0,0x18,0x18,0x10,0x20,0,0,0,0,0,0],
     [0,4,8,0x10,0x20,0x10,8,4,0,0,0,0,0,0,0,0],
     [0,0,0,0x7e,0,0,0x7e,0,0,0,0,0,0,0,0,0],
     [0,0x20,0x10,8,4,8,0x10,0x20,0,0,0,0,0,0,0,0],
     [0,0x1c,0x22,2,4,8,8,0,8,0,0,0,0,0,0,0],
     [0,0x3c,0x42,0x9d,0xa5,0xa5,0x9e,0x40,0x3c,0,0,0,0,0,0,0],
     [0,8,0x14,0x22,0x41,0x7f,0x41,0x41,0x41,0,0,0,0,0,0,0],
     [0,0x7c,0x22,0x22,0x3c,0x22,0x22,0x22,0x7c,0,0,0,0,0,0,0],
     [0,0x1e,0x22,0x40,0x40,0x40,0x40,0x22,0x1e,0,0,0,0,0,0,0],
     [0,0x78,0x24,0x22,0x22,0x22,0x22,0x24,0x78,0,0,0,0,0,0,0],
     [0,0x7e,0x40,0x40,0x7c,0x40,0x40,0x40,0x7e,0,0,0,0,0,0,0],
     [0,0x7e,0x40,0x40,0x7c,0x40,0x40,0x40,0x40,0,0,0,0,0,0,0],
     [0,0x1e,0x22,0x40,0x40,0x4e,0x42,0x22,0x1e,0,0,0,0,0,0,0],
     [0,0x41,0x41,0x41,0x7f,0x41,0x41,0x41,0x41,0,0,0,0,0,0,0],
     [0,0x3e,8,8,8,8,8,8,0x3e,0,0,0,0,0,0,0],
     [0,0x1f,4,4,4,4,0x44,0x44,0x38,0,0,0,0,0,0,0],
     [0,0x41,0x42,0x44,0x78,0x44,0x42,0x41,0x41,0,0,0,0,0,0,0],
     [0,0x40,0x40,0x40,0x40,0x40,0x40,0x40,0x7e,0,0,0,0,0,0,0],
     [0,0x41,0x63,0x55,0x49,0x41,0x41,0x41,0x41,0,0,0,0,0,0,0],
     [0,0x41,0x61,0x51,0x49,0x45,0x43,0x41,0x41,0,0,0,0,0,0,0],
     [0,0x1c,0x22,0x41,0x41,0x41,0x41,0x22,0x1c,0,0,0,0,0,0,0],
     [0,0x7c,0x22,0x22,0x3c,0x20,0x20,0x20,0x20,0,0,0,0,0,0,0],
     [0,0x1c,0x22,0x41,0x41,0x49,0x45,0x22,0x1d,0,0,0,0,0,0,0],
     [0,0x7c,0x22,0x22,0x3c,0x24,0x22,0x22,0x21,0,0,0,0,0,0,0],
     [0,0x1e,0x22,0x20,0x18,4,2,0x22,0x1e,0,0,0,0,0,0,0],
     [0,0x7f,8,8,8,8,8,8,8,0,0,0,0,0,0,0],
     [0,0x41,0x41,0x41,0x41,0x41,0x41,0x22,0x1c,0,0,0,0,0,0,0],
     [0,0x41,0x41,0x41,0x22,0x22,0x14,0x14,8,0,0,0,0,0,0,0],
     [0,0x41,0x41,0x41,0x49,0x49,0x55,0x63,0x41,0,0,0,0,0,0,0],
     [0,0x41,0x22,0x14,8,0x14,0x22,0x41,0x41,0,0,0,0,0,0,0],
     [0,0x41,0x22,0x14,8,8,8,8,8,0,0,0,0,0,0,0],
     [0,0x7f,2,4,8,0x10,0x20,0x40,0x7f,0,0,0,0,0,0,0],
     [0,0x1c,0x10,0x10,0x10,0x10,0x10,0x10,0x1c,0,0,0,0,0,0,0],
     [0,0x20,0x20,0x10,0x10,8,8,4,4,0,0,0,0,0,0,0],
     [0,0x1c,4,4,4,4,4,4,0x1c,0,0,0,0,0,0,0],
     [0,8,0x14,0x22,0,0,0,0,0,0,0,0,0,0,0,0],
     [0,0,0,0,0,0,0,0,0x7f,0,0,0,0,0,0,0],
     [0,0x10,8,4,0,0,0,0,0,0,0,0,0,0,0,0],
     [0,0,0,0x1c,2,0x1e,0x22,0x22,0x1d,0,0,0,0,0,0,0],
     [0,0x20,0x20,0x3c,0x22,0x22,0x22,0x22,0x3c,0,0,0,0,0,0,0],
     [0,0,0,0x1c,0x22,0x20,0x20,0x22,0x1c,0,0,0,0,0,0,0],
     [0,2,2,0x1e,0x22,0x22,0x22,0x22,0x1e,0,0,0,0,0,0,0],
     [0,0,0,0x1c,0x22,0x3e,0x20,0x22,0x1c,0,0,0,0,0,0,0],
     [0,6,8,0x3e,8,8,8,8,8,0,0,0,0,0,0,0],
     [0,0,0,0x1e,0x22,0x22,0x1e,2,0x1c,0,0,0,0,0,0,0],
     [0,0x20,0x20,0x3c,0x22,0x22,0x22,0x22,0x22,0,0,0,0,0,0,0],
     [0,8,0,0x18,8,8,8,8,0x1c,0,0,0,0,0,0,0],
     [0,4,0,0xc,4,4,4,0x24,0x18,0,0,0,0,0,0,0],
     [0,0x20,0x20,0x22,0x24,0x38,0x24,0x22,0x21,0,0,0,0,0,0,0],
     [0,0x18,8,8,8,8,8,8,0x1c,0,0,0,0,0,0,0],
     [0,0,0,0x76,0x49,0x49,0x49,0x49,0x49,0,0,0,0,0,0,0],
     [0,0,0,0x3c,0x22,0x22,0x22,0x22,0x22,0,0,0,0,0,0,0],
     [0,0,0,0x1c,0x22,0x22,0x22,0x22,0x1c,0,0,0,0,0,0,0],
     [0,0,0,0x3c,0x22,0x22,0x3c,0x20,0x20,0,0,0,0,0,0,0],
     [0,0,0,0x1e,0x22,0x22,0x1e,2,2,0,0,0,0,0,0,0],
     [0,0,0,0x2c,0x32,0x20,0x20,0x20,0x20,0,0,0,0,0,0,0],
     [0,0,0,0x1e,0x20,0x1c,2,2,0x3c,0,0,0,0,0,0,0],
     [0,8,8,0x3e,8,8,8,8,6,0,0,0,0,0,0,0],
     [0,0,0,0x22,0x22,0x22,0x22,0x22,0x1d,0,0,0,0,0,0,0],
     [0,0,0,0x41,0x41,0x22,0x22,0x14,8,0,0,0,0,0,0,0],
     [0,0,0,0x41,0x49,0x49,0x55,0x63,0x41,0,0,0,0,0,0,0],
     [0,0,0,0x22,0x14,8,0x14,0x22,0x22,0,0,0,0,0,0,0],
     [0,0,0,0x22,0x22,0x1e,2,0x22,0x1c,0,0,0,0,0,0,0],
     [0,0,0,0x3e,4,8,0x10,0x20,0x3e,0,0,0,0,0,0,0],
     [0,6,8,8,0x10,0x60,0x10,8,6,0,0,0,0,0,0,0],
     [0,8,8,8,8,8,8,8,8,0,0,0,0,0,0,0],
     [0,0x30,8,8,4,3,4,8,0x30,0,0,0,0,0,0,0],
     [0,0,0,0x31,0x49,0x46,0,0,0,0,0,0,0,0,0,0]]"

definition ui_bitmap :: "char \<Rightarrow> u8 list" where
  "ui_bitmap ch = UI_FONT ! (if 0x20 \<le> (of_char ch :: nat) \<and> (of_char ch :: nat) \<le> 0x7E then of_char ch - 0x20 else 0)"

section \<open>The renderer\<close>

definition ui_put :: "fb_desc \<Rightarrow> u32 \<Rightarrow> u32 \<Rightarrow> u32 \<Rightarrow> drawing" where
  "ui_put f x y c m = (if x \<ge> fi_width f \<or> y \<ge> fi_height f then m else ui_store f (unat x) (unat y) c m)"

definition ui_fill :: "fb_desc \<Rightarrow> u32 \<Rightarrow> u32 \<Rightarrow> u32 \<Rightarrow> u32 \<Rightarrow> u32 \<Rightarrow> drawing" where
  "ui_fill f x y w h c m =
     (let x2 = min (x + w) (fi_width f); y2 = min (y + h) (fi_height f)
      in fold (\<lambda>row. fold (\<lambda>col. ui_store f col row c) [unat x..<unat x2]) [unat y..<unat y2] m)"

definition ui_hline :: "fb_desc \<Rightarrow> u32 \<Rightarrow> u32 \<Rightarrow> u32 \<Rightarrow> u32 \<Rightarrow> drawing" where
  "ui_hline f x y w c = ui_fill f x y w 1 c"

text \<open>A drawing is a sequence of steps.\<close>

definition draws :: "drawing list \<Rightarrow> drawing" where
  "draws ds m = fold (\<lambda>d. d) ds m"

definition ui_rect :: "fb_desc \<Rightarrow> u32 \<Rightarrow> u32 \<Rightarrow> u32 \<Rightarrow> u32 \<Rightarrow> u32 \<Rightarrow> drawing" where
  "ui_rect f x y w h c = draws
     [ui_hline f x y w c, ui_hline f x (y + h - 1) w c, ui_fill f x y 1 h c, ui_fill f (x + w - 1) y 1 h c]"

definition glyph_ink :: "char \<Rightarrow> nat \<Rightarrow> nat \<Rightarrow> bool" where
  "glyph_ink ch col row = (drop_bit (7 - col) (ui_bitmap ch ! row) AND 1 \<noteq> 0)"

definition ui_glyph :: "fb_desc \<Rightarrow> u32 \<Rightarrow> u32 \<Rightarrow> char \<Rightarrow> u32 \<Rightarrow> u32 \<Rightarrow> drawing" where
  "ui_glyph f x y ch fg bg m =
     fold (\<lambda>row. fold (\<lambda>col. ui_put f (x + of_nat col) (y + of_nat row) (if glyph_ink ch col row then fg else bg)) [0..<8]) [0..<16] m"

text \<open>A text stops before the first character that does not fit; the result is the place after the last one drawn.\<close>

fun ui_text :: "fb_desc \<Rightarrow> u32 \<Rightarrow> u32 \<Rightarrow> string \<Rightarrow> u32 \<Rightarrow> u32 \<Rightarrow> mem_words \<Rightarrow> u32 \<times> mem_words" where
  "ui_text f cx y [] fg bg m = (cx, m)"
| "ui_text f cx y (b # bs) fg bg m =
     (if cx + 8 > fi_width f then (cx, m) else ui_text f (cx + 8) y bs fg bg (ui_glyph f cx y b fg bg m))"

definition put_text :: "fb_desc \<Rightarrow> u32 \<Rightarrow> u32 \<Rightarrow> string \<Rightarrow> u32 \<Rightarrow> u32 \<Rightarrow> drawing" where
  "put_text f x y s fg bg m = snd (ui_text f x y s fg bg m)"

definition ui_glyph2x :: "fb_desc \<Rightarrow> u32 \<Rightarrow> u32 \<Rightarrow> char \<Rightarrow> u32 \<Rightarrow> u32 \<Rightarrow> drawing" where
  "ui_glyph2x f cx y b fg bg m =
     fold (\<lambda>row. fold (\<lambda>col m.
        let px = cx + of_nat col * 2; py = y + of_nat row * 2; c = (if glyph_ink b col row then fg else bg)
        in draws [ui_put f px py c, ui_put f (px + 1) py c, ui_put f px (py + 1) c, ui_put f (px + 1) (py + 1) c] m) [0..<8]) [0..<16] m"

fun ui_text2x :: "fb_desc \<Rightarrow> u32 \<Rightarrow> u32 \<Rightarrow> string \<Rightarrow> u32 \<Rightarrow> u32 \<Rightarrow> drawing" where
  "ui_text2x f cx y [] fg bg m = m"
| "ui_text2x f cx y (b # bs) fg bg m =
     (let m1 = ui_glyph2x f cx y b fg bg m; cx1 = cx + 16 in if cx1 + 16 > fi_width f then m1 else ui_text2x f cx1 y bs fg bg m1)"

definition ui_num :: "fb_desc \<Rightarrow> u32 \<Rightarrow> u32 \<Rightarrow> u64 \<Rightarrow> u32 \<Rightarrow> u32 \<Rightarrow> mem_words \<Rightarrow> u32 \<times> mem_words" where
  "ui_num f x y v fg bg m = ui_text f x y (num_to_str v) fg bg m"

definition put_num :: "fb_desc \<Rightarrow> u32 \<Rightarrow> u32 \<Rightarrow> u64 \<Rightarrow> u32 \<Rightarrow> u32 \<Rightarrow> drawing" where
  "put_num f x y v fg bg m = snd (ui_num f x y v fg bg m)"

definition bar_filled :: "u32 \<Rightarrow> u32 \<Rightarrow> u32 \<Rightarrow> u32" where
  "bar_filled value mx inner_w = (if mx > 0 then ucast ((ucast value * ucast inner_w :: u64) div ucast mx) else 0)"

definition ui_bar :: "fb_desc \<Rightarrow> u32 \<Rightarrow> u32 \<Rightarrow> u32 \<Rightarrow> u32 \<Rightarrow> u32 \<Rightarrow> u32 \<Rightarrow> u32 \<Rightarrow> u32 \<Rightarrow> u32 \<Rightarrow> drawing" where
  "ui_bar f x y w h value mx fill_c empty_c border =
     (let inner_w = w - 2; filled = bar_filled value mx inner_w in draws
        [ui_rect f x y w h border,
         ui_fill f (x + 1) (y + 1) filled (h - 2) fill_c,
         ui_fill f (x + 1 + filled) (y + 1) (inner_w - filled) (h - 2) empty_c])"

text \<open>\<open>hex_to_str\<close>: no leading zeros.\<close>

function hex_fill :: "u64 \<Rightarrow> string \<Rightarrow> nat \<Rightarrow> string \<times> nat" where
  "hex_fill v buf start =
     (if v = 0 \<or> start = 0 then (buf, start)
      else hex_fill (drop_bit 4 v) (buf[start - 1 := hex_digit (unat (v AND 0xF))]) (start - 1))"
  by pat_completeness auto
termination
  by (relation "measure (\<lambda>(v, buf, start). start)") auto

declare hex_fill.simps [simp del]

definition hex_to_str :: "u64 \<Rightarrow> string" where
  "hex_to_str v = (if v = 0 then ''0'' else let (buf, start) = hex_fill v (replicate 20 CHR ''0'') 20 in drop start buf)"

section \<open>The screen\<close>

abbreviation UI_PAD :: u32 where "UI_PAD \<equiv> 32"
abbreviation UI_GAP :: u32 where "UI_GAP \<equiv> 16"
abbreviation HDR_H :: u32 where "HDR_H \<equiv> 72"
abbreviation COL_L_W :: u32 where "COL_L_W \<equiv> 560"
abbreviation COL_R_X :: u32 where "COL_R_X \<equiv> UI_PAD + COL_L_W + UI_GAP * 2"
abbreviation COL_R_W :: u32 where "COL_R_W \<equiv> 1920 - COL_R_X - UI_PAD"
abbreviation PANEL_H :: u32 where "PANEL_H \<equiv> 200"
abbreviation ROW_Y1 :: u32 where "ROW_Y1 \<equiv> HDR_H + UI_PAD"
abbreviation ROW_Y2 :: u32 where "ROW_Y2 \<equiv> ROW_Y1 + PANEL_H + UI_GAP"
abbreviation ROW_Y3 :: u32 where "ROW_Y3 \<equiv> ROW_Y2 + PANEL_H + UI_GAP"

definition scan_lines :: "fb_desc \<Rightarrow> drawing list" where
  "scan_lines f = map (\<lambda>i. let y = of_nat (2 * i) in ui_hline f 0 y (fi_width f) (0x000D111A + ((y div 8) AND 0x0F) * 1))
     [0..<(unat (fi_height f) + 1) div 2]"

definition ui_header :: "fb_desc \<Rightarrow> u32 \<Rightarrow> u64 \<Rightarrow> drawing list" where
  "ui_header f tid tick =
     (let w = fi_width f; hx = w - UI_PAD - 280; hy = (HDR_H - 16) div 2 - 8 in
      [ui_fill f 0 0 w HDR_H pal_PANEL,
       ui_hline f 0 HDR_H w pal_ACCENT,
       ui_hline f 0 (HDR_H + 1) w pal_BORDER,
       ui_text2x f UI_PAD ((HDR_H - 16 * 2) div 2) ''CosinusOS'' pal_ACCENT pal_PANEL,
       ui_text2x f (UI_PAD + 9 * 8 * 2 + 8) ((HDR_H - 16 * 2) div 2) ''v3.5'' pal_WHITE pal_PANEL,
       put_text f hx hy ''TID:'' pal_GREY pal_PANEL,
       put_num f (hx + 36) hy (ucast tid) pal_ACCENT pal_PANEL,
       put_text f hx (hy + 18) ''TICK:'' pal_GREY pal_PANEL,
       put_num f (hx + 44) (hy + 18) tick pal_GREEN pal_PANEL])"

text \<open>What the three panels of the left column begin with.\<close>

definition panel_frame :: "fb_desc \<Rightarrow> u32 \<Rightarrow> string \<Rightarrow> u32 \<Rightarrow> drawing list" where
  "panel_frame f y title color =
     [ui_fill f UI_PAD y COL_L_W PANEL_H pal_PANEL,
      ui_rect f UI_PAD y COL_L_W PANEL_H pal_BORDER,
      ui_hline f (UI_PAD + 1) (y + 20) (COL_L_W - 2) pal_BORDER,
      put_text f (UI_PAD + 8) (y + 4) title color pal_PANEL]"

definition memory_labels :: "(string \<times> string \<times> u32) list" where
  "memory_labels =
     [(''Total RAM'', ''512 MB'', pal_WHITE), (''PMM free'', ''204 KB'', pal_GREEN),
      (''Heap free'', '' 32 KB'', pal_GREEN), (''FB size'', ''  8 MB'', pal_YELLOW)]"

definition memory_panel :: "fb_desc \<Rightarrow> drawing list" where
  "memory_panel f = panel_frame f ROW_Y1 ''MEMORY'' pal_ACCENT @
     concat (map (\<lambda>(i, lbl, val, vc). let ly = ROW_Y1 + 28 + of_nat i * 36 in
        [put_text f (UI_PAD + 8) ly lbl pal_GREY pal_PANEL, put_text f (UI_PAD + 180) ly val vc pal_PANEL] @
        (if i + 1 < length memory_labels then [ui_hline f (UI_PAD + 8) (ly + 16 + 4) (COL_L_W - 16) pal_BORDER] else []))
       (enumerate 0 memory_labels))"

definition scheduler_panel :: "fb_desc \<Rightarrow> u64 \<Rightarrow> drawing list" where
  "scheduler_panel f tick = panel_frame f ROW_Y2 ''SCHEDULER'' pal_ACCENT2 @
     [put_text f (UI_PAD + 8) (ROW_Y2 + 28) ''SMP cores  : 1 (SMP disabled)'' pal_WHITE pal_PANEL,
      put_text f (UI_PAD + 8) (ROW_Y2 + 52) ''Ring-0     : kernel threads'' pal_WHITE pal_PANEL,
      put_text f (UI_PAD + 8) (ROW_Y2 + 76) ''Ring-3     : userspace active'' pal_GREEN pal_PANEL,
      put_text f (UI_PAD + 8) (ROW_Y2 + 100) ''Scheduler  : round-robin'' pal_WHITE pal_PANEL,
      put_text f (UI_PAD + 8) (ROW_Y2 + 124) ''Tick rate  : 100 Hz'' pal_WHITE pal_PANEL,
      put_text f (UI_PAD + 8) (ROW_Y2 + 152) ''Uptime bar:'' pal_GREY pal_PANEL,
      ui_bar f (UI_PAD + 8) (ROW_Y2 + 168) (COL_L_W - 16) 12 (ucast (tick mod 1000)) 1000 pal_TEAL pal_BORDER pal_GREY]"

text \<open>The width and height, one behind the other.\<close>

definition mode_line :: "fb_desc \<Rightarrow> drawing" where
  "mode_line f m =
     (let (xpos, m1) = ui_text f (UI_PAD + 56) (ROW_Y3 + 28) [] pal_WHITE pal_PANEL m;
          (xpos, m2) = ui_num f (UI_PAD + 56) (ROW_Y3 + 28) (ucast (fi_width f)) pal_WHITE pal_PANEL m1
      in draws [put_text f xpos (ROW_Y3 + 28) ''x'' pal_GREY pal_PANEL,
                put_num f (xpos + 8) (ROW_Y3 + 28) (ucast (fi_height f)) pal_WHITE pal_PANEL] m2)"

definition framebuffer_panel :: "fb_desc \<Rightarrow> drawing list" where
  "framebuffer_panel f = panel_frame f ROW_Y3 ''FRAMEBUFFER'' pal_TEAL @
     [put_text f (UI_PAD + 8) (ROW_Y3 + 28) ''Mode :'' pal_GREY pal_PANEL,
      mode_line f,
      put_text f (UI_PAD + 8) (ROW_Y3 + 52) ''Pitch:'' pal_GREY pal_PANEL,
      put_num f (UI_PAD + 56) (ROW_Y3 + 52) (ucast (fi_pitch f)) pal_WHITE pal_PANEL,
      put_text f (UI_PAD + 8) (ROW_Y3 + 76) ''BPP  :'' pal_GREY pal_PANEL,
      put_num f (UI_PAD + 56) (ROW_Y3 + 76) (ucast (fi_bpp f)) pal_WHITE pal_PANEL,
      put_text f (UI_PAD + 8) (ROW_Y3 + 100) ''Phys :'' pal_GREY pal_PANEL,
      put_text f (UI_PAD + 56) (ROW_Y3 + 100) ''0x'' pal_GREY pal_PANEL,
      put_text f (UI_PAD + 72) (ROW_Y3 + 100) (hex_to_str (fi_phys f)) pal_YELLOW pal_PANEL,
      put_text f (UI_PAD + 8) (ROW_Y3 + 124) ''Virt :'' pal_GREY pal_PANEL,
      put_text f (UI_PAD + 56) (ROW_Y3 + 124) ''0x'' pal_GREY pal_PANEL,
      put_text f (UI_PAD + 72) (ROW_Y3 + 124) (hex_to_str (fi_virt f)) pal_ACCENT pal_PANEL]"

definition grid_color :: "nat \<Rightarrow> u32" where
  "grid_color col = [pal_WHITE, pal_ACCENT, pal_GREEN, pal_ACCENT2, pal_TEAL, pal_YELLOW] ! (col mod 6)"

definition character_grid :: "fb_desc \<Rightarrow> drawing list" where
  "character_grid f =
     (let rh = ROW_Y3 + PANEL_H - ROW_Y1; cols = unat ((COL_R_W - 16) div (8 + 4)) in
      [ui_fill f COL_R_X ROW_Y1 COL_R_W rh pal_PANEL,
       ui_rect f COL_R_X ROW_Y1 COL_R_W rh pal_BORDER,
       ui_hline f (COL_R_X + 1) (ROW_Y1 + 20) (COL_R_W - 2) pal_BORDER,
       put_text f (COL_R_X + 8) (ROW_Y1 + 4) ''ASCII CHARACTER GRID  (0x20 - 0x7E)'' pal_ACCENT pal_PANEL] @
      map (\<lambda>gi. let col = gi mod cols; row = gi div cols in
         ui_glyph f (COL_R_X + 8 + of_nat col * (8 + 4)) (ROW_Y1 + 28 + of_nat row * (16 + 4)) (char_of (0x20 + gi)) (grid_color col) pal_PANEL)
       [0..<95])"

definition ui_footer :: "fb_desc \<Rightarrow> drawing list" where
  "ui_footer f =
     (let w = fi_width f; fy = fi_height f - 28 in
      [ui_fill f 0 (fy - 2) w 2 pal_BORDER,
       ui_fill f 0 fy w 28 pal_PANEL,
       put_text f UI_PAD (fy + 6) ''CosinusOS  |  GET_FB_INFO syscall demo  |  direct framebuffer render'' pal_GREY pal_PANEL,
       put_text f (w - UI_PAD - 20 * 8) (fy + 6) ''ring-3 userspace'' pal_ACCENT pal_PANEL])"

definition draw_screen :: "fb_desc \<Rightarrow> u32 \<Rightarrow> u64 \<Rightarrow> drawing" where
  "draw_screen f tid tick = draws
     ([ui_fill f 0 0 (fi_width f) (fi_height f) pal_BG] @ scan_lines f @ ui_header f tid tick @ memory_panel f @
      scheduler_panel f tick @ framebuffer_panel f @ character_grid f @ ui_footer f)"

text \<open>One turn of the loop of \<open>_start\<close>: the screen is drawn again when the tick has changed.\<close>

definition ui_turn :: "fb_desc \<Rightarrow> u32 \<Rightarrow> u64 \<Rightarrow> u64 \<times> mem_words \<Rightarrow> u64 \<times> mem_words" where
  "ui_turn f tid t s = (if t \<noteq> fst s then (t, draw_screen f tid t (snd s)) else s)"

end
