(* ===== verification/Screen_Props.thy ===== *)
theory Screen_Props
  imports Status_Screen
begin

text \<open>
  The status screen of the user program: whatever the framebuffer is and whatever is to be shown, nothing is written
  outside the visible pixels; and what a reader of the screen sees where the tick counter and its bar are.
\<close>

section \<open>The framebuffer as a raster\<close>

text \<open>A scan line holds the pixels of a row.\<close>

definition fb_fits :: "fb_desc \<Rightarrow> bool" where
  "fb_fits f \<longleftrightarrow> unat (fi_width f) \<le> ui_stride f"

definition ui_pixel :: "fb_desc \<Rightarrow> mem_words \<Rightarrow> nat \<Rightarrow> nat \<Rightarrow> u32" where
  "ui_pixel f m x y = m (word_at f x y)"

lemma stride_less: "ui_stride f < 2 ^ 30"
proof -
  have "unat (fi_pitch f) div 4 < 2 ^ 30" using unat_u32_less [of "fi_pitch f"] by (simp add: div_less_iff_less_mult)
  then show ?thesis by (simp add: ui_stride_def unat_div)
qed

lemma word_offset:
  assumes "x < ui_stride f" "y < unat (fi_height f)"
  shows "unat (word_at f x y - fi_virt f) = 4 * (y * ui_stride f + x)" "4 * (y * ui_stride f + x) + 4 \<le> 4 * (unat (fi_height f) * ui_stride f)"
proof -
  have "y * ui_stride f + x < (y + 1) * ui_stride f" using assms(1) by simp
  also have "\<dots> \<le> unat (fi_height f) * ui_stride f" using assms(2) by (intro mult_right_mono) simp_all
  finally have b: "y * ui_stride f + x < unat (fi_height f) * ui_stride f" .
  then show "4 * (y * ui_stride f + x) + 4 \<le> 4 * (unat (fi_height f) * ui_stride f)"
    using mult_le_mono2 [of "y * ui_stride f + x + 1" "unat (fi_height f) * ui_stride f" 4] by (simp add: algebra_simps)
  have "unat (fi_height f) * ui_stride f \<le> 2 ^ 32 * 2 ^ 30"
    using unat_u32_less [of "fi_height f"] stride_less [of f] by (intro mult_mono) simp_all
  with b have "4 * (y * ui_stride f + x) < 2 ^ 64" by simp
  then show "unat (word_at f x y - fi_virt f) = 4 * (y * ui_stride f + x)"
    by (simp add: word_at_def unat_word_ariths unsigned_of_nat take_bit_eq_mod mod_simps)
qed

lemma word_at_inj:
  assumes "fb_fits f" "x < unat (fi_width f)" "x' < unat (fi_width f)" "y < unat (fi_height f)" "y' < unat (fi_height f)"
  shows "word_at f x y = word_at f x' y' \<longleftrightarrow> x = x' \<and> y = y'"
proof
  assume "word_at f x y = word_at f x' y'"
  moreover have s: "x < ui_stride f" "x' < ui_stride f" using assms by (simp_all add: fb_fits_def)
  ultimately have "y * ui_stride f + x = y' * ui_stride f + x'"
    using word_offset(1) [OF s(1) assms(4)] word_offset(1) [OF s(2) assms(5)] by simp
  then have "(y * ui_stride f + x) mod ui_stride f = (y' * ui_stride f + x') mod ui_stride f"
    "(y * ui_stride f + x) div ui_stride f = (y' * ui_stride f + x') div ui_stride f" by simp_all
  then show "x = x' \<and> y = y'" using s by simp
qed simp

interpretation ui: raster "unat (fi_width f)" "unat (fi_height f)" "fb_fits f" "ui_store f" "ui_pixel f" for f
  by unfold_locales (auto simp: ui_store_def ui_pixel_def word_at_inj)

section \<open>Clipping\<close>

definition clipped :: "fb_desc \<Rightarrow> drawing \<Rightarrow> bool" where
  "clipped f d \<longleftrightarrow> (\<forall>m a. (\<forall>x < unat (fi_width f). \<forall>y < unat (fi_height f). a \<noteq> word_at f x y) \<longrightarrow> d m a = m a)"

named_theorems clip

lemma clipped_store: "x < unat (fi_width f) \<Longrightarrow> y < unat (fi_height f) \<Longrightarrow> clipped f (ui_store f x y c)"
  by (auto simp: clipped_def ui_store_def)

lemma clipped_id: "clipped f (\<lambda>m. m)"
  by (simp add: clipped_def)

lemma clipped_fold: "(\<And>a. a \<in> set as \<Longrightarrow> clipped f (d a)) \<Longrightarrow> clipped f (fold d as)"
proof (induction as)
  case (Cons a as)
  have "clipped f (d a)" "clipped f (fold d as)" using Cons by simp_all
  then show ?case by (simp add: clipped_def)
qed (simp add: clipped_def)

lemma clipped_draws [clip]: "(\<forall>d \<in> set ds. clipped f d) \<Longrightarrow> clipped f (draws ds)"
  using clipped_fold [of ds f "\<lambda>d. d"] by (simp add: draws_def [abs_def])

lemma clipped_put [clip]: "clipped f (ui_put f x y c)"
proof (cases "x \<ge> fi_width f \<or> y \<ge> fi_height f")
  case False
  then have "ui_put f x y c = ui_store f (unat x) (unat y) c" "unat x < unat (fi_width f)" "unat y < unat (fi_height f)"
    by (auto simp: ui_put_def fun_eq_iff word_le_nat_alt)
  then show ?thesis using clipped_store by simp
qed (simp add: clipped_def ui_put_def)

lemma unat_min: "unat (min a b) = min (unat a) (unat b)"
  by (simp add: min_def word_le_nat_alt)

lemma clipped_fill [clip]: "clipped f (ui_fill f x y w h c)"
  unfolding ui_fill_def [abs_def] Let_def unat_min by (intro clipped_fold clipped_store) auto

lemma clipped_hline [clip]: "clipped f (ui_hline f x y w c)"
  unfolding ui_hline_def [abs_def] by (rule clipped_fill)

lemma clipped_rect [clip]: "clipped f (ui_rect f x y w h c)"
  unfolding ui_rect_def by (simp add: clip)

lemma clipped_glyph [clip]: "clipped f (ui_glyph f x y ch fg bg)"
  unfolding ui_glyph_def [abs_def] by (intro clipped_fold clipped_put)

lemma clipped_comp: "clipped f d \<Longrightarrow> clipped f e \<Longrightarrow> clipped f (\<lambda>m. e (d m))"
  by (simp add: clipped_def)

lemma clipped_text: "clipped f (\<lambda>m. snd (ui_text f x y s fg bg m))"
proof (induction s arbitrary: x)
  case (Cons b bs)
  show ?case
  proof (cases "x + 8 > fi_width f")
    case False
    then show ?thesis using clipped_comp [OF clipped_glyph [of f x y b fg bg] Cons.IH [of "x + 8"]] by simp
  qed (simp add: clipped_id)
qed (simp add: clipped_id)

lemma clipped_put_text [clip]: "clipped f (put_text f x y s fg bg)"
  using clipped_text by (simp add: put_text_def [abs_def])

lemma clipped_put_num [clip]: "clipped f (put_num f x y v fg bg)"
  using clipped_text by (simp add: put_num_def [abs_def] ui_num_def)

lemma clipped_glyph2x [clip]: "clipped f (ui_glyph2x f x y b fg bg)"
  unfolding ui_glyph2x_def [abs_def] Let_def by (intro clipped_fold) (simp add: clip)

lemma clipped_text2x [clip]: "clipped f (ui_text2x f x y s fg bg)"
proof (induction s arbitrary: x)
  case (Cons b bs)
  then show ?case using clipped_comp [OF clipped_glyph2x [of f x y b fg bg] Cons.IH [of "x + 16"]] clipped_glyph2x [of f x y b fg bg]
    by (simp add: Let_def cong: if_cong) (simp add: clipped_def)
qed (simp add: clipped_def)

lemma clipped_bar [clip]: "clipped f (ui_bar f x y w h value mx a b c)"
  unfolding ui_bar_def [abs_def] Let_def by (simp add: clip)

lemma clipped_mode_line [clip]: "clipped f (mode_line f)"
proof -
  let ?n = "\<lambda>m. snd (ui_num f (UI_PAD + 56) (ROW_Y3 + 28) (ucast (fi_width f)) pal_WHITE pal_PANEL m)"
  have "clipped f ?n" using clipped_text by (simp add: ui_num_def)
  moreover have "clipped f (draws [put_text f a (ROW_Y3 + 28) ''x'' pal_GREY pal_PANEL,
      put_num f (a + 8) (ROW_Y3 + 28) (ucast (fi_height f)) pal_WHITE pal_PANEL])" for a by (simp add: clip)
  ultimately show ?thesis unfolding clipped_def mode_line_def Let_def by (simp add: case_prod_unfold)
qed

section \<open>Property: nothing is written outside the screen\<close>

lemma clipped_list [clip]:
  "\<forall>d \<in> set (scan_lines f). clipped f d" "\<forall>d \<in> set (ui_header f tid tick). clipped f d"
  "\<forall>d \<in> set (panel_frame f y title color). clipped f d" "\<forall>d \<in> set (character_grid f). clipped f d"
  "\<forall>d \<in> set (ui_footer f). clipped f d"
  by (auto simp: scan_lines_def ui_header_def panel_frame_def character_grid_def ui_footer_def Let_def clip simp del: upt_rec_numeral)

lemma clipped_panels [clip]:
  "\<forall>d \<in> set (memory_panel f). clipped f d" "\<forall>d \<in> set (scheduler_panel f tick). clipped f d"
  "\<forall>d \<in> set (framebuffer_panel f). clipped f d"
  using clipped_list(3) [of f] by (auto simp: memory_panel_def scheduler_panel_def framebuffer_panel_def Let_def clip split: if_splits)

text \<open>
  C25: the user program draws inside its framebuffer: whatever width, height, pitch and address the kernel reports and
  whatever is shown, drawing the screen changes no word of memory but those of the visible pixels; when a scan line holds
  a row of pixels these lie in the \<open>pitch * height\<close> bytes from \<open>virt_addr\<close> on.
\<close>

theorem screen_stays_in_framebuffer:
  "(\<forall>a. (\<forall>x < unat (fi_width f). \<forall>y < unat (fi_height f). a \<noteq> word_at f x y) \<longrightarrow> draw_screen f tid tick m a = m a) \<and>
   (fb_fits f \<longrightarrow> (\<forall>x < unat (fi_width f). \<forall>y < unat (fi_height f).
     unat (word_at f x y - fi_virt f) + 4 \<le> unat (fi_pitch f) * unat (fi_height f)))"
proof -
  have "clipped f (draw_screen f tid tick)" unfolding draw_screen_def
    by (rule clipped_draws) (use clipped_list clipped_panels in \<open>auto simp: clip\<close>)
  moreover have "unat (word_at f x y - fi_virt f) + 4 \<le> unat (fi_pitch f) * unat (fi_height f)"
    if "fb_fits f" "x < unat (fi_width f)" "y < unat (fi_height f)" for x y
  proof -
    have "unat (word_at f x y - fi_virt f) + 4 \<le> 4 * (unat (fi_height f) * ui_stride f)"
      using word_offset [of x f y] that by (simp add: fb_fits_def)
    also have "\<dots> \<le> unat (fi_pitch f) * unat (fi_height f)"
    proof -
      have "4 * ui_stride f \<le> unat (fi_pitch f)" by (simp add: ui_stride_def unat_div)
      then have "4 * ui_stride f * unat (fi_height f) \<le> unat (fi_pitch f) * unat (fi_height f)" by (rule mult_le_mono1)
      then show ?thesis by (simp add: ac_simps)
    qed
    finally show ?thesis .
  qed
  ultimately show ?thesis by (simp add: clipped_def)
qed

definition full_hd :: fb_desc where
  "full_hd = \<lparr>fi_virt = 0xC0000000, fi_phys = 0x1000000, fi_width = 1920, fi_height = 1080, fi_pitch = 7680, fi_bpp = 32,
     fi_size = 8294400\<rparr>"

lemma full_hd_fits: "fb_fits full_hd"
  by (simp add: fb_fits_def full_hd_def ui_stride_def)

theorem screen_stays_in_framebuffer_witness:
  "draw_screen full_hd 2 7 (\<lambda>_. 5) 0xC07E9000 = 5 \<and> unat (word_at full_hd 5 3 - 0xC0000000) + 4 \<le> 7680 * 1080"
proof -
  have e: "unat (fi_width full_hd) = 1920" "unat (fi_height full_hd) = 1080" "unat (fi_pitch full_hd) = 7680"
    "fi_virt full_hd = 0xC0000000" by (simp_all add: full_hd_def)
  note t = screen_stays_in_framebuffer [of full_hd 2 7 "\<lambda>_. 5", unfolded e]
  have i: "unat (word_at full_hd x y - 0xC0000000) + 4 \<le> 8294400" if "x < 1920" "y < 1080" for x y
    using t full_hd_fits that by simp
  have "0xC07E9000 \<noteq> word_at full_hd x y" if "x < 1920" "y < 1080" for x y
  proof
    assume a: "0xC07E9000 = word_at full_hd x y"
    have "unat (0xC07E9000 - 0xC0000000 :: u64) + 4 \<le> 8294400" using i [OF that] unfolding a [symmetric] .
    then show False by simp
  qed
  then show ?thesis using t i [of 5 3] by simp
qed

section \<open>What is drawn where\<close>

text \<open>A drawing that leaves a rectangle of the screen as it is.\<close>

definition keeps :: "fb_desc \<Rightarrow> nat \<Rightarrow> nat \<Rightarrow> nat \<Rightarrow> nat \<Rightarrow> drawing \<Rightarrow> bool" where
  "keeps f x1 x2 y1 y2 d \<longleftrightarrow> (\<forall>m x y. x < unat (fi_width f) \<longrightarrow> y < unat (fi_height f) \<longrightarrow>
     x1 \<le> x \<longrightarrow> x < x2 \<longrightarrow> y1 \<le> y \<longrightarrow> y < y2 \<longrightarrow> ui_pixel f (d m) x y = ui_pixel f m x y)"

lemma keeps_fold: "(\<And>a. a \<in> set as \<Longrightarrow> keeps f x1 x2 y1 y2 (d a)) \<Longrightarrow> keeps f x1 x2 y1 y2 (fold d as)"
proof (induction as)
  case (Cons a as)
  have "keeps f x1 x2 y1 y2 (d a)" "keeps f x1 x2 y1 y2 (fold d as)" using Cons by simp_all
  then show ?case by (simp add: keeps_def)
qed (simp add: keeps_def)

lemma keeps_draws: "(\<forall>d \<in> set ds. keeps f x1 x2 y1 y2 d) \<Longrightarrow> keeps f x1 x2 y1 y2 (draws ds)"
  using keeps_fold [of ds f x1 x2 y1 y2 "\<lambda>d. d"] by (simp add: draws_def [abs_def])

lemma fill_pixel:
  assumes "fb_fits f" "a < unat (fi_width f)" "b < unat (fi_height f)"
  shows "ui_pixel f (ui_fill f x y w h c m) a b =
    (if unat x \<le> a \<and> a < unat (x + w) \<and> unat y \<le> b \<and> b < unat (y + h) then c else ui_pixel f m a b)"
proof -
  let ?W = "unat (fi_width f)" and ?H = "unat (fi_height f)"
  let ?ps = "concat (map (\<lambda>row. map (\<lambda>col. (col, row, c)) [unat x..<min (unat (x + w)) ?W]) [unat y..<min (unat (y + h)) ?H])"
  have "ui_fill f x y w h c m = ui.plots f ?ps m"
    unfolding ui_fill_def Let_def unat_min by (simp only: ui.loop_plots ui.nested_plots)
  moreover have "set ?ps = area (unat x) (min (unat (x + w)) ?W) (unat y) (min (unat (y + h)) ?H) (\<lambda>_ _. c)"
    by (auto simp: area_def)
  ultimately show ?thesis using ui.plots_area [OF assms, of ?ps "unat x" "min (unat (x + w)) ?W" "unat y" "min (unat (y + h)) ?H" "\<lambda>_ _. c" m]
      assms(2,3) by simp
qed

lemma keeps_fill:
  assumes "fb_fits f" "unat (x + w) \<le> x1 \<or> x2 \<le> unat x \<or> unat (y + h) \<le> y1 \<or> y2 \<le> unat y"
  shows "keeps f x1 x2 y1 y2 (ui_fill f x y w h c)"
  using assms by (auto simp: keeps_def fill_pixel)

lemma glyph_pixel:
  assumes "fb_fits f" "a < unat (fi_width f)" "b < unat (fi_height f)" "unat x + 8 \<le> unat (fi_width f)" "unat y + 16 \<le> unat (fi_height f)"
  shows "ui_pixel f (ui_glyph f x y ch fg bg m) a b =
    (if unat x \<le> a \<and> a < unat x + 8 \<and> unat y \<le> b \<and> b < unat y + 16
     then if glyph_ink ch (a - unat x) (b - unat y) then fg else bg else ui_pixel f m a b)"
proof -
  let ?g = "\<lambda>a b. if glyph_ink ch (a - unat x) (b - unat y) then fg else bg"
  let ?ps = "concat (map (\<lambda>row. map (\<lambda>col. (unat x + col, unat y + row, if glyph_ink ch col row then fg else bg)) [0..<8]) [0..<16])"
  have put: "ui_put f (x + of_nat col) (y + of_nat row) c = ui_store f (unat x + col) (unat y + row) c"
    if "col < 8" "row < 16" for col row c
  proof -
    have "unat (x + of_nat col) = unat x + col" "unat (y + of_nat row) = unat y + row"
      using that assms(4,5) unat_u32_less [of "fi_width f"] unat_u32_less [of "fi_height f"]
      by (simp_all add: unat_word_ariths unsigned_of_nat take_bit_eq_mod mod_simps)
    then show ?thesis using that assms(4,5) by (simp add: ui_put_def fun_eq_iff word_le_nat_alt)
  qed
  have "ui_glyph f x y ch fg bg m =
      fold (\<lambda>row. fold (\<lambda>col. ui_store f (unat x + col) (unat y + row) (if glyph_ink ch col row then fg else bg)) [0..<8]) [0..<16] m"
    unfolding ui_glyph_def by (intro fold_cong refl) (auto intro!: fold_cong simp: put simp del: upt_rec_numeral)
  then have "ui_glyph f x y ch fg bg m = ui.plots f ?ps m" by (simp only: ui.loop_plots ui.nested_plots)
  moreover have "set ?ps = area (unat x) (unat x + 8) (unat y) (unat y + 16) ?g"
    unfolding set_eq_iff in_loop set_upt loops_area by blast
  ultimately show ?thesis using ui.plots_area [OF assms(1-3), of ?ps "unat x" "unat x + 8" "unat y" "unat y + 16" ?g m] assms(4,5) by simp
qed

end
