(* ===== verification/Screen_Shows.thy ===== *)
theory Screen_Shows
  imports Screen_Props
begin

text \<open>
  What the status screen shows: exact pixels of texts and bars, and that what is drawn later leaves them as they are.
\<close>

section \<open>Texts\<close>

lemma keeps_put:
  assumes "fb_fits f" "unat y < y1 \<or> y2 \<le> unat y \<or> unat x < x1 \<or> x2 \<le> unat x"
  shows "keeps f x1 x2 y1 y2 (ui_put f x y c)"
  unfolding keeps_def
proof (intro allI impI)
  fix m a b
  assume ab: "a < unat (fi_width f)" "b < unat (fi_height f)" "x1 \<le> a" "a < x2" "y1 \<le> b" "b < y2"
  show "ui_pixel f (ui_put f x y c m) a b = ui_pixel f m a b"
  proof (cases "x \<ge> fi_width f \<or> y \<ge> fi_height f")
    case False
    then have "unat x < unat (fi_width f)" "unat y < unat (fi_height f)" by (auto simp: word_le_nat_alt)
    from ui.plot_pixel [OF assms(1) this ab(1,2), of c m] assms(2) ab False show ?thesis by (auto simp: ui_put_def)
  qed (simp add: ui_put_def)
qed

lemma keeps_glyph:
  assumes "fb_fits f" "unat y + 16 \<le> y1 \<or> y2 \<le> unat y" "unat y < 65536"
  shows "keeps f x1 x2 y1 y2 (ui_glyph f x y ch fg bg)"
proof -
  have "unat (y + of_nat r) = unat y + r" if "r < 16" for r
    using that assms(3) by (simp add: unat_word_ariths unsigned_of_nat take_bit_eq_mod mod_simps)
  then show ?thesis unfolding ui_glyph_def [abs_def] using assms(1,2) by (intro keeps_fold keeps_put) auto
qed

lemma keeps_comp: "keeps f x1 x2 y1 y2 d \<Longrightarrow> keeps f x1 x2 y1 y2 e \<Longrightarrow> keeps f x1 x2 y1 y2 (\<lambda>m. e (d m))"
  by (simp add: keeps_def)

lemma keeps_ui_text:
  assumes "fb_fits f" "unat y + 16 \<le> y1 \<or> y2 \<le> unat y" "unat y < 65536"
  shows "keeps f x1 x2 y1 y2 (\<lambda>m. snd (ui_text f x y s fg bg m))"
proof (induction s arbitrary: x)
  case (Cons b bs)
  show ?case
  proof (cases "x + 8 > fi_width f")
    case False
    then show ?thesis using keeps_comp [OF keeps_glyph [OF assms, of x1 x2 x b fg bg] Cons.IH [of "x + 8"]] by simp
  qed (simp add: keeps_def)
qed (simp add: keeps_def)

lemma keeps_text:
  assumes "fb_fits f" "unat y + 16 \<le> y1 \<or> y2 \<le> unat y" "unat y < 65536"
  shows "keeps f x1 x2 y1 y2 (put_text f x y s fg bg)" "keeps f x1 x2 y1 y2 (put_num f x y v fg bg)"
  using keeps_ui_text [OF assms] by (simp_all add: put_text_def [abs_def] put_num_def [abs_def] ui_num_def)

lemma keeps_hline: "fb_fits f \<Longrightarrow> unat (x + w) \<le> x1 \<or> x2 \<le> unat x \<or> unat (y + 1) \<le> y1 \<or> y2 \<le> unat y \<Longrightarrow> keeps f x1 x2 y1 y2 (ui_hline f x y w c)"
  unfolding ui_hline_def [abs_def] by (rule keeps_fill)

lemma keeps_rect:
  assumes "fb_fits f" "x2 \<le> unat x \<and> x2 \<le> unat (x + w - 1) \<or> y2 \<le> unat y \<and> y2 \<le> unat (y + h - 1)"
  shows "keeps f x1 x2 y1 y2 (ui_rect f x y w h c)"
  unfolding ui_rect_def using assms by (intro keeps_draws) (auto intro!: keeps_fill keeps_hline)

lemma keeps_bar:
  assumes "fb_fits f" "y2 \<le> unat y" "y2 \<le> unat (y + 1)" "y2 \<le> unat (y + h - 1)"
  shows "keeps f x1 x2 y1 y2 (ui_bar f x y w h value mx a b c)"
  unfolding ui_bar_def [abs_def] Let_def using assms by (intro keeps_draws) (auto intro!: keeps_fill keeps_rect)

lemmas keeps_ops = keeps_fill keeps_text keeps_hline keeps_rect keeps_glyph keeps_bar

lemma text_pixel:
  assumes "fb_fits f" "a < unat (fi_width f)" "b < unat (fi_height f)" "unat y + 16 \<le> unat (fi_height f)"
  shows "unat x + 8 * length s \<le> unat (fi_width f) \<Longrightarrow> ui_pixel f (put_text f x y s fg bg m) a b =
    (if unat x \<le> a \<and> a < unat x + 8 * length s \<and> unat y \<le> b \<and> b < unat y + 16
     then if glyph_ink (s ! ((a - unat x) div 8)) ((a - unat x) mod 8) (b - unat y) then fg else bg else ui_pixel f m a b)"
proof (induction s arbitrary: x m)
  case (Cons ch s)
  have u: "unat (x + 8) = unat x + 8" using Cons.prems unat_u32_less [of "fi_width f"] by (simp add: unat_word_ariths)
  then have n: "\<not> x + 8 > fi_width f" using Cons.prems by (simp add: word_less_nat_alt)
  let ?m = "ui_glyph f x y ch fg bg m"
  have p: "put_text f x y (ch # s) fg bg m = put_text f (x + 8) y s fg bg ?m" using n by (simp add: put_text_def)
  have g: "ui_pixel f ?m a b = (if unat x \<le> a \<and> a < unat x + 8 \<and> unat y \<le> b \<and> b < unat y + 16
      then if glyph_ink ch (a - unat x) (b - unat y) then fg else bg else ui_pixel f m a b)"
    by (rule glyph_pixel) (use assms Cons.prems in simp_all)
  have i: "ui_pixel f (put_text f (x + 8) y s fg bg ?m) a b =
      (if unat x + 8 \<le> a \<and> a < unat x + 8 + 8 * length s \<and> unat y \<le> b \<and> b < unat y + 16
       then if glyph_ink (s ! ((a - unat x - 8) div 8)) ((a - unat x - 8) mod 8) (b - unat y) then fg else bg else ui_pixel f ?m a b)"
    using Cons.IH [of "x + 8" ?m] Cons.prems u by (simp add: diff_diff_left)
  show ?case
  proof (cases "unat x + 8 \<le> a")
    case True
    then have "a - unat x = a - unat x - 8 + 8" by simp
    then have "(a - unat x) div 8 = Suc ((a - unat x - 8) div 8)" "(a - unat x) mod 8 = (a - unat x - 8) mod 8"
      by (metis Suc_eq_plus1 div_add_self2 zero_neq_numeral, metis mod_add_self2)
    then show ?thesis using True unfolding p i g by auto
  next
    case False
    then have "a - unat x < 8 \<or> a < unat x" by linarith
    then show ?thesis using False unfolding p i g by (auto simp: div_eq_0_iff)
  qed
qed (auto simp: put_text_def)

section \<open>The tick counter and its bar\<close>

lemma draws_append: "draws (ds @ es) m = draws es (draws ds m)"
  by (simp add: draws_def)

lemma draws_Cons: "draws (d # ds) m = draws ds (d m)"
  by (simp add: draws_def)

lemma keeps_draws_pixel:
  "\<forall>d \<in> set ds. keeps f x1 x2 y1 y2 d \<Longrightarrow> x < unat (fi_width f) \<Longrightarrow> y < unat (fi_height f) \<Longrightarrow>
   x1 \<le> x \<Longrightarrow> x < x2 \<Longrightarrow> y1 \<le> y \<Longrightarrow> y < y2 \<Longrightarrow> ui_pixel f (draws ds m) x y = ui_pixel f m x y"
  using keeps_draws by (simp add: keeps_def)

lemma keeps_mode_line:
  assumes "fb_fits f" "y2 \<le> 500"
  shows "keeps f x1 x2 y1 y2 (mode_line f)"
proof -
  have k: "keeps f x1 x2 y1 y2 (\<lambda>m. snd (ui_text f x (ROW_Y3 + 28) s fg bg m))" for x s fg bg
    using keeps_ui_text [of f "ROW_Y3 + 28" y1 y2 x1 x2 x s fg bg] assms by simp
  have d: "keeps f x1 x2 y1 y2 (draws [put_text f a (ROW_Y3 + 28) ''x'' pal_GREY pal_PANEL,
      put_num f (a + 8) (ROW_Y3 + 28) (ucast (fi_height f)) pal_WHITE pal_PANEL])" for a
    using assms by (intro keeps_draws) (auto intro!: keeps_text)
  show ?thesis using k d unfolding keeps_def mode_line_def Let_def by (simp add: case_prod_unfold ui_num_def)
qed

text \<open>What is drawn after the scheduler panel leaves what is above row 500 and left of column 600 as it is, and all of it above row 100.\<close>

lemma keeps_below:
  assumes f: "fb_fits f" "fi_width f = 1920" "fi_height f = 1080" and r: "y2 \<le> 500" "160 \<le> y1 \<and> x2 \<le> 600 \<or> y2 \<le> 100"
  shows "\<forall>d \<in> set (framebuffer_panel f). keeps f x1 x2 y1 y2 d" "\<forall>d \<in> set (character_grid f). keeps f x1 x2 y1 y2 d"
    "\<forall>d \<in> set (ui_footer f). keeps f x1 x2 y1 y2 d"
proof -
  show "\<forall>d \<in> set (framebuffer_panel f). keeps f x1 x2 y1 y2 d" using r
    by (auto simp: framebuffer_panel_def panel_frame_def intro!: keeps_ops [OF f(1)] keeps_mode_line [OF f(1)])
  have g: "gi div 104 = 0" if "gi < 95" for gi :: nat using that by simp
  show "\<forall>d \<in> set (character_grid f). keeps f x1 x2 y1 y2 d" using r
    by (auto simp: character_grid_def Let_def g intro!: keeps_ops [OF f(1)] simp del: upt_rec_numeral)
  show "\<forall>d \<in> set (ui_footer f). keeps f x1 x2 y1 y2 d" using r
    by (auto simp: ui_footer_def Let_def f(2,3) intro!: keeps_ops [OF f(1)])
qed

lemma keeps_header_row:
  assumes f: "fb_fits f" and r: "y2 \<le> 100"
  shows "\<forall>d \<in> set (memory_panel f). keeps f x1 x2 y1 y2 d" "\<forall>d \<in> set (scheduler_panel f tick). keeps f x1 x2 y1 y2 d"
proof -
  show "\<forall>d \<in> set (memory_panel f). keeps f x1 x2 y1 y2 d" using r
    by (auto simp: memory_panel_def panel_frame_def memory_labels_def Let_def intro!: keeps_ops [OF f(1)])
  show "\<forall>d \<in> set (scheduler_panel f tick). keeps f x1 x2 y1 y2 d" using r
    by (auto simp: scheduler_panel_def panel_frame_def intro!: keeps_ops [OF f(1)])
qed

lemma bar_filled_unat: fixes tick :: u64
  shows "unat (bar_filled (ucast (tick mod 1000)) 1000 542) = unat tick mod 1000 * 542 div 1000"
proof -
  have t: "unat tick mod 1000 < 1000" by simp
  have v: "unat ((ucast (ucast (tick mod 1000) :: u32) :: u64) * 542) = unat tick mod 1000 * 542"
    using t by (simp add: unat_word_ariths unsigned_ucast_eq unat_mod take_bit_eq_mod)
  have "unat tick mod 1000 * 542 div 1000 < 4294967296" using t by (simp add: div_less_iff_less_mult)
  then show ?thesis using v by (simp add: bar_filled_def unsigned_ucast_eq unat_div take_bit_eq_mod)
qed

lemma bar_pixel:
  fixes tick :: u64
  assumes f: "fb_fits f" "fi_width f = 1920" "fi_height f = 1080" and k: "k < 542" "j < 10"
  shows "ui_pixel f (ui_bar f 40 488 544 12 (ucast (tick mod 1000)) 1000 a b c m) (41 + k) (489 + j) =
    (if k < unat tick mod 1000 * 542 div 1000 then a else b)"
proof -
  define n :: u32 where "n = bar_filled (ucast (tick mod 1000)) 1000 542"
  have n: "unat n = unat tick mod 1000 * 542 div 1000" by (simp add: n_def bar_filled_unat)
  have "unat tick mod 1000 < 1000" by simp
  then have "unat n < 542" unfolding n by (simp add: div_less_iff_less_mult)
  then have u: "unat (41 + n) = 41 + unat n" "unat (41 + n + (542 - n)) = 583"
    by (simp_all add: unat_word_ariths)
  have "ui_bar f 40 488 544 12 (ucast (tick mod 1000)) 1000 a b c m =
      ui_fill f (41 + n) 489 (542 - n) 10 b (ui_fill f 41 489 n 10 a (ui_rect f 40 488 544 12 c m))"
    by (simp add: ui_bar_def Let_def draws_def n_def)
  moreover have "41 + k < unat (fi_width f)" "489 + j < unat (fi_height f)" using k by (simp_all add: f(2,3))
  ultimately show ?thesis using u n k by (simp add: fill_pixel [OF f(1)])
qed

text \<open>
  On a full HD framebuffer the status screen shows its ticks: when everything is drawn, the pixels beside the label
  in the header are the glyphs of the decimal digits of the tick count, in order, and the bar of the scheduler panel is
  filled to the share of the current thousand ticks that has passed; nothing drawn later covers either.
\<close>

theorem status_screen_shows_ticks:
  assumes f: "fb_fits f" "fi_width f = 1920" "fi_height f = 1080"
  shows "parse_dec (num_to_str tick) = unat tick \<and>
    (\<forall>k < length (num_to_str tick). \<forall>col < 8. \<forall>r < 16. ui_pixel f (draw_screen f tid tick m) (1652 + 8 * k + col) (38 + r) =
      (if glyph_ink (num_to_str tick ! k) col r then pal_GREEN else pal_PANEL)) \<and>
    (\<forall>k < 542. \<forall>j < 10. ui_pixel f (draw_screen f tid tick m) (41 + k) (489 + j) =
      (if k < unat tick mod 1000 * 542 div 1000 then pal_TEAL else pal_BORDER))"
proof -
  have d: "num_to_str tick = dec_digits (unat tick)" by (rule num_to_str_digits)
  have l: "length (num_to_str tick) \<le> 20" unfolding d by (rule length_dec_digits_u64)
  have w: "unat (fi_width f) = 1920" "unat (fi_height f) = 1080" using f(2,3) by simp_all
  define pre where "pre = [ui_fill f 0 0 (fi_width f) (fi_height f) pal_BG] @ scan_lines f @ butlast (ui_header f tid tick)"
  define m1 where "m1 = draws pre m"
  have h: "ui_header f tid tick = butlast (ui_header f tid tick) @ [put_num f 1652 38 tick pal_GREEN pal_PANEL]"
    by (simp add: ui_header_def Let_def f(2))
  have tail: "ui_header f tid tick @ rest = butlast (ui_header f tid tick) @ put_num f 1652 38 tick pal_GREEN pal_PANEL # rest" for rest
    by (subst h) simp
  have sc: "draw_screen f tid tick m = draws (ui_footer f) (draws (character_grid f) (draws (framebuffer_panel f)
      (draws (scheduler_panel f tick) (draws (memory_panel f) (put_num f 1652 38 tick pal_GREEN pal_PANEL m1)))))"
    unfolding draw_screen_def tail m1_def pre_def by (simp add: draws_append draws_Cons)
  have digits: "ui_pixel f (draw_screen f tid tick m) (1652 + 8 * k + col) (38 + r) =
      (if glyph_ink (num_to_str tick ! k) col r then pal_GREEN else pal_PANEL)"
    if k: "k < length (num_to_str tick)" "col < 8" "r < 16" for k col r
  proof -
    let ?x = "1652 + 8 * k + col" and ?y = "38 + r"
    have xy: "?x < 1920" "?y < 1080" "?x < 1652 + 8 * length (num_to_str tick)" using k l by linarith+
    have kp: "ui_pixel f (draws ds t) ?x ?y = ui_pixel f t ?x ?y" if "\<forall>d \<in> set ds. keeps f 0 1920 0 100 d" for ds t
      by (rule keeps_draws_pixel [OF that]) (use xy(1,2) w k(3) in simp_all)
    have "ui_pixel f (draw_screen f tid tick m) ?x ?y = ui_pixel f (put_text f 1652 38 (num_to_str tick) pal_GREEN pal_PANEL m1) ?x ?y"
      unfolding sc using kp keeps_below [OF f, of 100 0 1920 0] keeps_header_row(1) [OF f(1), of 100 0 1920 0]
        keeps_header_row(2) [OF f(1), of 100 tick 0 1920 0]
      by (simp add: put_num_def ui_num_def put_text_def)
    also have "\<dots> = (if glyph_ink (num_to_str tick ! ((?x - 1652) div 8)) ((?x - 1652) mod 8) (?y - 38) then pal_GREEN else pal_PANEL)"
      using text_pixel [OF f(1), of ?x ?y 38 1652 "num_to_str tick" pal_GREEN pal_PANEL m1] xy w l k(3) by simp
    also have "\<dots> = (if glyph_ink (num_to_str tick ! k) col r then pal_GREEN else pal_PANEL)" using k(2) by simp
    finally show ?thesis .
  qed
  have bar: "ui_pixel f (draw_screen f tid tick m) (41 + k) (489 + j) =
      (if k < unat tick mod 1000 * 542 div 1000 then pal_TEAL else pal_BORDER)" if k: "k < 542" "j < 10" for k j
  proof -
    define m2 where "m2 = draws (memory_panel f) (put_num f 1652 38 tick pal_GREEN pal_PANEL m1)"
    have sp: "scheduler_panel f tick = butlast (scheduler_panel f tick) @
        [ui_bar f 40 488 544 12 (ucast (tick mod 1000)) 1000 pal_TEAL pal_BORDER pal_GREY]"
      by (simp add: scheduler_panel_def panel_frame_def)
    have s2: "draws (scheduler_panel f tick) m2 = ui_bar f 40 488 544 12 (ucast (tick mod 1000)) 1000 pal_TEAL pal_BORDER pal_GREY
        (draws (butlast (scheduler_panel f tick)) m2)" by (subst sp) (simp add: draws_append draws_Cons draws_def)
    have kp: "ui_pixel f (draws ds t) (41 + k) (489 + j) = ui_pixel f t (41 + k) (489 + j)"
      if "\<forall>d \<in> set ds. keeps f 41 583 489 500 d" for ds t
      by (rule keeps_draws_pixel [OF that]) (use k w in simp_all)
    show ?thesis unfolding sc m2_def [symmetric] s2
      using kp keeps_below [OF f, of 500 489 583 41] bar_pixel [OF f k] by simp
  qed
  show ?thesis using digits bar parse_dec_digits [of "unat tick"] d by simp
qed

theorem status_screen_shows_ticks_witness:
  "ui_pixel full_hd (draw_screen full_hd 1 500 (\<lambda>_. 0)) (41 + 270) 489 = pal_TEAL \<and>
   ui_pixel full_hd (draw_screen full_hd 1 500 (\<lambda>_. 0)) (41 + 271) 489 = pal_BORDER"
proof -
  have "fi_width full_hd = 1920" "fi_height full_hd = 1080" by (simp_all add: full_hd_def)
  from status_screen_shows_ticks [OF full_hd_fits this, of 500 1 "\<lambda>_. 0"]
  have b: "\<forall>k < 542. \<forall>j < 10. ui_pixel full_hd (draw_screen full_hd 1 500 (\<lambda>_. 0)) (41 + k) (489 + j) =
      (if k < 271 then pal_TEAL else pal_BORDER)" by simp
  show ?thesis using b [rule_format, of 270 0] b [rule_format, of 271 0] by simp
qed

end
