(* ===== verification/Interrupts.thy ===== *)
theory Interrupts
  imports Syscalls Sample_Space
begin

text \<open>
  Interrupts (\<^verbatim>\<open>perm.rs\<close>, and \<open>syscall_handler\<close> of \<^verbatim>\<open>threading.rs\<close>): the entry stubs, instruction by instruction over the
  registers and the stack, the descriptor tables, the interrupt controller and timer, and the fault handlers. Memory of a
  stack is given by its 8-byte words.
\<close>

section \<open>Processor\<close>

datatype gpr = RAX | RBX | RCX | RDX | RSI | RDI | RBP | R8 | R9 | R10 | R11 | R12 | R13 | R14 | R15

record cpu =
  cp_reg :: "gpr \<Rightarrow> u64"
  cp_rip :: u64
  cp_cs :: u64
  cp_rflags :: u64
  cp_rsp :: u64
  cp_ss :: u64
  cp_mem :: "u64 \<Rightarrow> u64"

datatype instr = Push gpr | Pop gpr | Xchg_top gpr | Mov_rsp gpr | Add_rsp u64

definition push_word :: "u64 \<Rightarrow> cpu \<Rightarrow> cpu" where
  "push_word v c = c\<lparr>cp_rsp := cp_rsp c - 8, cp_mem := (cp_mem c)(cp_rsp c - 8 := v)\<rparr>"

fun exec :: "instr \<Rightarrow> cpu \<Rightarrow> cpu" where
  "exec (Push r) c = push_word (cp_reg c r) c"
| "exec (Pop r) c = c\<lparr>cp_reg := (cp_reg c)(r := cp_mem c (cp_rsp c)), cp_rsp := cp_rsp c + 8\<rparr>"
| "exec (Xchg_top r) c = c\<lparr>cp_reg := (cp_reg c)(r := cp_mem c (cp_rsp c)), cp_mem := (cp_mem c)(cp_rsp c := cp_reg c r)\<rparr>"
| "exec (Mov_rsp r) c = c\<lparr>cp_reg := (cp_reg c)(r := cp_rsp c)\<rparr>"
| "exec (Add_rsp n) c = c\<lparr>cp_rsp := cp_rsp c + n\<rparr>"

fun exec_all :: "instr list \<Rightarrow> cpu \<Rightarrow> cpu" where
  "exec_all [] c = c"
| "exec_all (i # is) c = exec_all is (exec i c)"

text \<open>
  What the processor does by itself: the frame of an interrupt on the stack at \<open>stk\<close> (the stack of the task state for
  ring 3, else the interrupted one rounded down to 16 bytes), and the return from it. The flags and segments it loads for
  the handler are left out: the stubs do not read them.
\<close>

definition deliver :: "u64 \<Rightarrow> u64 option \<Rightarrow> cpu \<Rightarrow> cpu" where
  "deliver stk err c =
     (let c1 = push_word (cp_rip c) (push_word (cp_cs c) (push_word (cp_rflags c) (push_word (cp_rsp c) (push_word (cp_ss c)
         (c\<lparr>cp_rsp := stk\<rparr>))))) in case err of None \<Rightarrow> c1 | Some e \<Rightarrow> push_word e c1)"

definition iretq :: "cpu \<Rightarrow> cpu" where
  "iretq c = c\<lparr>cp_rip := cp_mem c (cp_rsp c), cp_cs := cp_mem c (cp_rsp c + 8), cp_rflags := cp_mem c (cp_rsp c + 16),
     cp_rsp := cp_mem c (cp_rsp c + 24), cp_ss := cp_mem c (cp_rsp c + 32)\<rparr>"

section \<open>Entry stubs\<close>

definition isr_enter :: "instr list" where
  "isr_enter = map Push [RAX, RBP, RBX, RCX, RDX, RSI, RDI, R8, R9, R10, R11, R12, R13, R14, R15] @ [Mov_rsp RDI]"

definition isr_leave :: "instr list" where
  "isr_leave = map Pop [R15, R14, R13, R12, R11, R10, R9, R8, RDI, RSI, RDX, RCX, RBX, RBP, RAX]"

definition isr_enter_err :: "instr list" where
  "isr_enter_err = Xchg_top RAX # map Push [RBP, RBX, RCX, RDX, RSI, RDI, R8, R9, R10, R11, R12, R13, R14, R15] @ [Mov_rsp RDI]"

definition isr_leave_err :: "instr list" where
  "isr_leave_err = map Pop [R15, R14, R13, R12, R11, R10, R9, R8, RDI, RSI, RDX, RCX, RBX, RBP] @ [Add_rsp 8]"

definition isr_df_enter :: "instr list" where
  "isr_df_enter = Add_rsp 8 # isr_enter"

text \<open>The frame a handler is given the address of.\<close>

definition tf_at :: "(u64 \<Rightarrow> u64) \<Rightarrow> u64 \<Rightarrow> tf" where
  "tf_at m a = \<lparr>tf_r15 = m a, tf_r14 = m (a + 8), tf_r13 = m (a + 16), tf_r12 = m (a + 24), tf_r11 = m (a + 32), tf_r10 = m (a + 40),
     tf_r9 = m (a + 48), tf_r8 = m (a + 56), tf_rdi = m (a + 64), tf_rsi = m (a + 72), tf_rdx = m (a + 80), tf_rcx = m (a + 88),
     tf_rbx = m (a + 96), tf_rbp = m (a + 104), tf_rax = m (a + 112), tf_rip = m (a + 120), tf_cs = m (a + 128),
     tf_rflags = m (a + 136), tf_rsp = m (a + 144), tf_ss = m (a + 152)\<rparr>"

text \<open>A stub around a handler, from the interrupt to the return from it.\<close>

definition isr_no_err :: "(cpu \<Rightarrow> cpu) \<Rightarrow> u64 \<Rightarrow> cpu \<Rightarrow> cpu" where
  "isr_no_err h stk c = iretq (exec_all isr_leave (h (exec_all isr_enter (deliver stk None c))))"

definition isr_with_err :: "(cpu \<Rightarrow> cpu) \<Rightarrow> u64 \<Rightarrow> u64 \<Rightarrow> cpu \<Rightarrow> cpu" where
  "isr_with_err h stk err c = iretq (exec_all isr_leave_err (h (exec_all isr_enter_err (deliver stk (Some err) c))))"

definition isr_sys :: "(cpu \<Rightarrow> cpu) \<Rightarrow> u64 \<Rightarrow> cpu \<Rightarrow> cpu" where
  "isr_sys h stk c = iretq (exec_all isr_leave (h (exec_all isr_enter (deliver stk None c))))"

section \<open>Descriptor tables\<close>

record tss =
  ts_rsp0 :: u64
  ts_rsp1 :: u64
  ts_rsp2 :: u64
  ts_ist1 :: u64
  ts_iomap :: u16

definition TSS_SIZE :: u64 where "TSS_SIZE = 104"

definition tss_new :: tss where
  "tss_new = \<lparr>ts_rsp0 = 0, ts_rsp1 = 0, ts_rsp2 = 0, ts_ist1 = 0, ts_iomap = ucast TSS_SIZE\<rparr>"

definition tss_rsp0 :: "u64 \<Rightarrow> tss \<Rightarrow> tss" where
  "tss_rsp0 v t = t\<lparr>ts_rsp0 := v\<rparr>"

definition tss_use_irq_stack :: "sched_env \<Rightarrow> tss \<Rightarrow> tss" where
  "tss_use_irq_stack e t = t\<lparr>ts_rsp0 := irq_stack_top e\<rparr>"

record gdt_entry =
  ge_ll :: u16
  ge_lb :: u16
  ge_mb :: u8
  ge_acc :: u8
  ge_gr :: u8
  ge_hb :: u8

definition gdt_null :: gdt_entry where
  "gdt_null = \<lparr>ge_ll = 0, ge_lb = 0, ge_mb = 0, ge_acc = 0, ge_gr = 0, ge_hb = 0\<rparr>"

definition gdt_seg :: "u64 \<Rightarrow> u64 \<Rightarrow> u8 \<Rightarrow> u8 \<Rightarrow> gdt_entry" where
  "gdt_seg base lim acc gr =
     \<lparr>ge_ll = ucast (lim AND 0xFFFF), ge_lb = ucast (base AND 0xFFFF), ge_mb = ucast (drop_bit 16 base AND 0xFF), ge_acc = acc,
      ge_gr = ucast (drop_bit 16 lim AND 0xF) OR (gr AND 0xF0), ge_hb = ucast (drop_bit 24 base AND 0xFF)\<rparr>"

record gdt_table =
  gt_e :: "gdt_entry list"
  gt_tss_hi :: u64

definition DOUBLE_FAULT_STACK_SIZE :: u64 where "DOUBLE_FAULT_STACK_SIZE = 0x4000"

text \<open>With the addresses of the task state and of the double fault stack.\<close>

definition init_gdt :: "u64 \<Rightarrow> u64 \<Rightarrow> tss \<Rightarrow> gdt_table \<times> tss" where
  "init_gdt tb df_stack t =
     (\<lparr>gt_e = [gdt_null, gdt_seg 0 0xFFFFF 0x9A 0x20, gdt_seg 0 0xFFFFF 0x92 0x00, gdt_seg 0 0xFFFFF 0xFA 0x20,
               gdt_seg 0 0xFFFFF 0xF2 0x00, gdt_seg tb (TSS_SIZE - 1) 0x89 0x00],
       gt_tss_hi = drop_bit 32 tb\<rparr>,
      t\<lparr>ts_ist1 := df_stack + DOUBLE_FAULT_STACK_SIZE\<rparr>)"

record idt_entry =
  ie_lo :: u16
  ie_sel :: u16
  ie_ist :: u8
  ie_attr :: u8
  ie_mi :: u16
  ie_hi :: u32

definition idt_null :: idt_entry where
  "idt_null = \<lparr>ie_lo = 0, ie_sel = 0, ie_ist = 0, ie_attr = 0, ie_mi = 0, ie_hi = 0\<rparr>"

definition idt_new :: "u64 \<Rightarrow> u16 \<Rightarrow> u8 \<Rightarrow> u8 \<Rightarrow> idt_entry" where
  "idt_new h sel dpl ist =
     \<lparr>ie_lo = ucast (h AND 0xFFFF), ie_sel = sel, ie_ist = ist, ie_attr = 0x8E OR push_bit 5 dpl,
      ie_mi = ucast (drop_bit 16 h AND 0xFFFF), ie_hi = ucast (drop_bit 32 h)\<rparr>"

abbreviation IDT_LEN :: nat where "IDT_LEN \<equiv> 256"

text \<open>The addresses of the stubs.\<close>

record stubs =
  sb_df :: u64
  sb_gp :: u64
  sb_pf :: u64
  sb_tmr :: u64
  sb_kb :: u64
  sb_sys :: u64

definition init_idt :: "stubs \<Rightarrow> idt_entry list" where
  "init_idt s = (replicate IDT_LEN idt_null)
     [0x08 := idt_new (sb_df s) 0x08 0 1, 0x0D := idt_new (sb_gp s) 0x08 0 0, 0x0E := idt_new (sb_pf s) 0x08 0 0,
      0x20 := idt_new (sb_tmr s) 0x08 0 0, 0x21 := idt_new (sb_kb s) 0x08 0 0, 0x80 := idt_new (sb_sys s) 0x08 3 0]"

section \<open>Interrupt controller and timer\<close>

text \<open>The ports written, in order; \<open>io_wait\<close> writes to port \<open>0x80\<close>.\<close>

definition init_pic :: "(u16 \<times> u8) list" where
  "init_pic =
     [(0x20, 0x11), (0x80, 0), (0xA0, 0x11), (0x80, 0), (0x21, 0x20), (0x80, 0), (0xA1, 0x28), (0x80, 0),
      (0x21, 0x04), (0x80, 0), (0xA1, 0x02), (0x80, 0), (0x21, 0x01), (0x80, 0), (0xA1, 0x01), (0x80, 0),
      (0x21, 0xFC), (0xA1, 0xFF)]"

definition init_pit :: "(u16 \<times> u8) list" where
  "init_pit = (let d = ucast ((1193180 :: u32) div 100) :: u16 in [(0x43, 0x36), (0x40, ucast (d AND 0xFF)), (0x40, ucast (drop_bit 8 d))])"

section \<open>Handlers\<close>

text \<open>\<open>panic_no_dyn\<close> (\<^verbatim>\<open>lib.rs\<close>) halts the processor: a routine that ends there is given by the screen it leaves.\<close>

definition panic_no_dyn :: "u16 list \<Rightarrow> vga \<Rightarrow> vga" where
  "panic_no_dyn msg v =
     (print_raw (chars ''  '' @ [0x0A]) (print_raw msg (print_raw ([0x0A] @ chars ''  *** KERNEL PANIC ***  '' @ [0x0A] @ chars ''  '')
        (set_col (attr WHITE 0x04) v))))\<lparr>vg_col := WHITE\<rparr>"

definition handle_df :: "tf \<Rightarrow> u64 \<Rightarrow> vga \<Rightarrow> vga" where
  "handle_df f cr2 v = fold print_raw
     [[0x0A] @ chars ''[#DF] DOUBLE FAULT'' @ [0x0A], chars ''  RIP='', chars (hex_str (tf_rip f)), chars ''  RSP='', chars (hex_str (tf_rsp f)),
      chars ''  CR2='', chars (hex_str cr2), chars ''   CS='', chars (hex_str (tf_cs f)), chars ''   SS='', chars (hex_str (tf_ss f)), [0x0A]] v"

definition handle_gp :: "tf \<Rightarrow> vga \<Rightarrow> vga run" where
  "handle_gp f v =
     bind_run (printc ([0x0A] @ chars ''[#GP] GENERAL PROTECTION FAULT'' @ [0x0A]) LRED v) (\<lambda>v1.
     bind_run (print_all [chars ''  err='', chars (hex_str (tf_rax f)), chars ''  rip='', chars (hex_str (tf_rip f)),
        chars ''   cs='', chars (hex_str (tf_cs f)), chars ''  rsp='', chars (hex_str (tf_rsp f)), chars ''   ss='', chars (hex_str (tf_ss f)), [0x0A]] v1)
       (\<lambda>v2. Done (panic_no_dyn (chars ''Unhandled #GP'') v2)))"

text \<open>The walk that the page fault handler reports on the serial port: name, index and entry of each level that is reached.\<close>

definition walk_line :: "string \<Rightarrow> nat \<Rightarrow> u64 \<Rightarrow> string" where
  "walk_line name i e = ''  '' @ name @ ''['' @ num_str (of_nat i) @ '']='' @ hex_str e @ [CHR 0x0A]"

definition pf_walk :: "pmm \<Rightarrow> u64 \<Rightarrow> u64 \<Rightarrow> string" where
  "pf_walk m cr3 addr =
     (let e4 = pte m cr3 (pidx 39 addr); p3 = e4 AND 0x000FFFFFFFFFF000; e3 = pte m p3 (pidx 30 addr);
          p2 = e3 AND 0x000FFFFFFFFFF000; e2 = pte m p2 (pidx 21 addr); p1 = e2 AND 0x000FFFFFFFFFF000; e1 = pte m p1 (pidx 12 addr)
      in ''[#PF] walk cr3='' @ hex_str cr3 @ '' addr='' @ hex_str addr @ [CHR 0x0A] @ walk_line ''PML4'' (pidx 39 addr) e4 @
         (if e4 AND 1 \<noteq> 0 then walk_line ''PDPT'' (pidx 30 addr) e3 @
           (if e3 AND 1 \<noteq> 0 then walk_line ''PD'' (pidx 21 addr) e2 @
             (if e2 AND 1 \<noteq> 0 then walk_line ''PT'' (pidx 12 addr) e1 else []) else []) else []))"

definition handle_pf :: "tf \<Rightarrow> u64 \<Rightarrow> u64 \<Rightarrow> pmm \<Rightarrow> vga \<Rightarrow> (vga \<times> string) run" where
  "handle_pf f addr cr3 m v =
     (let err = tf_rax f in
      bind_run (printc ([0x0A] @ chars ''[#PF] PAGE FAULT'' @ [0x0A]) YELLOW v) (\<lambda>v1.
      bind_run (print_all [chars ''  addr='', chars (hex_str addr), chars ''  err='', chars (hex_str err), chars ''  rip='', chars (hex_str (tf_rip f)),
         chars ''  cr3='', chars (hex_str cr3), chars (if err AND 4 \<noteq> 0 then '' USR'' else '' KRN''),
         chars (if err AND 2 \<noteq> 0 then '' W'' else '' R'') @ [0x0A]] v1) (\<lambda>v2.
       Done (panic_no_dyn (chars ''Unhandled page fault'') v2, pf_walk m cr3 addr))))"

text \<open>The keyboard interrupt acknowledges the controller and reads its byte from port \<open>0x60\<close>.\<close>

definition handle_kb :: "u8 \<Rightarrow> kbd \<Rightarrow> (u16 \<times> u8) list \<times> kbd run" where
  "handle_kb sc k = ([(0x20, 0x20)], kbd_irq sc k)"

definition kb_push_pub :: "u8 \<Rightarrow> kbd \<Rightarrow> kbd run" where
  "kb_push_pub c k = input_push c k"

section \<open>Frames\<close>

text \<open>The registers of the processor as a frame.\<close>

definition cpu_tf :: "cpu \<Rightarrow> tf" where
  "cpu_tf c = \<lparr>tf_r15 = cp_reg c R15, tf_r14 = cp_reg c R14, tf_r13 = cp_reg c R13, tf_r12 = cp_reg c R12, tf_r11 = cp_reg c R11,
     tf_r10 = cp_reg c R10, tf_r9 = cp_reg c R9, tf_r8 = cp_reg c R8, tf_rdi = cp_reg c RDI, tf_rsi = cp_reg c RSI,
     tf_rdx = cp_reg c RDX, tf_rcx = cp_reg c RCX, tf_rbx = cp_reg c RBX, tf_rbp = cp_reg c RBP, tf_rax = cp_reg c RAX,
     tf_rip = cp_rip c, tf_cs = cp_cs c, tf_rflags = cp_rflags c, tf_rsp = cp_rsp c, tf_ss = cp_ss c\<rparr>"

lemma enter_frame:
  "cp_rsp (exec_all isr_enter (deliver stk None c)) = stk - 160"
  "cp_reg (exec_all isr_enter (deliver stk None c)) RDI = stk - 160"
  "tf_at (cp_mem (exec_all isr_enter (deliver stk None c))) (stk - 160) = cpu_tf c"
  by (simp_all add: isr_enter_def deliver_def push_word_def Let_def tf_at_def cpu_tf_def)

lemma enter_err_frame:
  "cp_rsp (exec_all isr_enter_err (deliver stk (Some e) c)) = stk - 160"
  "cp_reg (exec_all isr_enter_err (deliver stk (Some e) c)) RDI = stk - 160"
  "tf_at (cp_mem (exec_all isr_enter_err (deliver stk (Some e) c))) (stk - 160) = cpu_tf c"
  by (simp_all add: isr_enter_err_def deliver_def push_word_def Let_def tf_at_def cpu_tf_def)

lemma leave_frame: "cpu_tf (iretq (exec_all isr_leave c)) = tf_at (cp_mem c) (cp_rsp c)"
  by (simp add: isr_leave_def iretq_def tf_at_def cpu_tf_def add.commute)

text \<open>
  C17: an interrupt or a system call passes its handler the interrupted registers and resumes with the frame the handler
  leaves. Whatever the registers and the stack are, the frame whose address is passed holds every register as it was;
  after a handler that returns with its stack pointer unchanged the processor continues with exactly the registers,
  instruction pointer, flags and stack of the frame as the handler left it.
\<close>

theorem interrupt_frame_roundtrip:
  "tf_at (cp_mem (exec_all isr_enter (deliver stk None c))) (cp_reg (exec_all isr_enter (deliver stk None c)) RDI) = cpu_tf c \<and>
   (cp_rsp (h (exec_all isr_enter (deliver stk None c))) = stk - 160 \<longrightarrow>
     cpu_tf (isr_no_err h stk c) = tf_at (cp_mem (h (exec_all isr_enter (deliver stk None c)))) (stk - 160) \<and> isr_sys h stk c = isr_no_err h stk c)"
  using enter_frame [of stk c] leave_frame [of "h (exec_all isr_enter (deliver stk None c))"] by (simp add: isr_no_err_def isr_sys_def)

definition sample_cpu :: cpu where
  "sample_cpu = \<lparr>cp_reg = (\<lambda>r. if r = RAX then 7 else 1), cp_rip = 0x400000, cp_cs = 0x1B, cp_rflags = 0x202, cp_rsp = 0x7FFFFFF0,
     cp_ss = 0x23, cp_mem = (\<lambda>_. 0)\<rparr>"

text \<open>A handler that answers like a system call: it stores a result in the frame.\<close>

theorem interrupt_frame_roundtrip_witness:
  "cpu_tf (isr_no_err (\<lambda>c. c\<lparr>cp_mem := (cp_mem c)(cp_reg c RDI + 112 := 42)\<rparr>) 0x9000 sample_cpu) = (cpu_tf sample_cpu)\<lparr>tf_rax := 42\<rparr>"
proof -
  let ?c = "exec_all isr_enter (deliver 0x9000 None sample_cpu)"
  let ?h = "\<lambda>c. c\<lparr>cp_mem := (cp_mem c)(cp_reg c RDI + 112 := 42)\<rparr>"
  have f: "cp_rsp ?c = 0x8F60" "cp_reg ?c RDI = 0x8F60" "tf_at (cp_mem ?c) 0x8F60 = cpu_tf sample_cpu"
    using enter_frame [of "0x9000" sample_cpu] by simp_all
  have "cpu_tf (isr_no_err ?h 0x9000 sample_cpu) = tf_at ((cp_mem ?c)(0x8F60 + 112 := 42)) 0x8F60"
    using interrupt_frame_roundtrip [of "0x9000" sample_cpu ?h] f by simp
  also have "\<dots> = (tf_at (cp_mem ?c) 0x8F60)\<lparr>tf_rax := 42\<rparr>" by (simp add: tf_at_def)
  finally show ?thesis unfolding f(3) .
qed

section \<open>Faults\<close>

text \<open>
  The error code of a fault is lost: the stub exchanges it with rax before it saves the registers, so that the field the
  fault handlers report as the error code is the interrupted rax and the report is the same for every error code.
\<close>

theorem fault_error_code_lost:
  "tf_rax (tf_at (cp_mem (exec_all isr_enter_err (deliver stk (Some e) c))) (cp_reg (exec_all isr_enter_err (deliver stk (Some e) c)) RDI)) =
     cp_reg c RAX \<and>
   handle_pf (tf_at (cp_mem (exec_all isr_enter_err (deliver stk (Some e) c))) (stk - 160)) addr cr3 m v = handle_pf (cpu_tf c) addr cr3 m v"
  using enter_err_frame [of stk e c] by (simp add: cpu_tf_def)

lemma report_done:
  assumes "vga_ok v" "\<not> vg_lock v"
  shows "\<exists>v'. bind_run (printc cs col v) (\<lambda>v1. bind_run (print_all ss v1) (\<lambda>v2. Done (g v2))) = Done (g v') \<and> vga_ok v'"
proof -
  obtain v1 where v1: "printc cs col v = Done v1" "vga_ok v1" "\<not> vg_lock v1" using console_stays_on_screen [OF assms] by blast
  obtain v2 where "print_all ss v1 = Done v2" "vga_ok v2" using print_all_done [OF v1(2,3)] by blast
  then show ?thesis using v1(1) by auto
qed


section \<open>Tables as the processor reads them\<close>

definition gate_present :: "idt_entry \<Rightarrow> bool" where
  "gate_present e = bit (ie_attr e) 7"

definition gate_dpl :: "idt_entry \<Rightarrow> nat" where
  "gate_dpl e = unat (drop_bit 5 (ie_attr e) AND 3)"

definition gate_handler :: "idt_entry \<Rightarrow> u64" where
  "gate_handler e = ucast (ie_lo e) OR push_bit 16 (ucast (ie_mi e)) OR push_bit 32 (ucast (ie_hi e))"

definition seg_base :: "gdt_entry \<Rightarrow> u64" where
  "seg_base e = ucast (ge_lb e) OR push_bit 16 (ucast (ge_mb e)) OR push_bit 24 (ucast (ge_hb e))"

definition seg_limit :: "gdt_entry \<Rightarrow> u64" where
  "seg_limit e = ucast (ge_ll e) OR push_bit 16 (ucast (ge_gr e AND 0xF))"

text \<open>An 8259 controller: the step of its initialisation, its first vector and its mask; written at its command or data port.\<close>

record pic_chip =
  pc_step :: nat
  pc_base :: u8
  pc_mask :: u8

definition pic_cmd :: "u8 \<Rightarrow> pic_chip \<Rightarrow> pic_chip" where
  "pic_cmd v p = (if bit v 4 then p\<lparr>pc_step := 1, pc_mask := 0\<rparr> else p)"

definition pic_data :: "u8 \<Rightarrow> pic_chip \<Rightarrow> pic_chip" where
  "pic_data v p = (if pc_step p = 0 then p\<lparr>pc_mask := v\<rparr> else if pc_step p = 1 then p\<lparr>pc_base := v, pc_step := 2\<rparr>
     else if pc_step p = 2 then p\<lparr>pc_step := 3\<rparr> else p\<lparr>pc_step := 0\<rparr>)"

fun pic_writes :: "u16 \<Rightarrow> (u16 \<times> u8) list \<Rightarrow> pic_chip \<Rightarrow> pic_chip" where
  "pic_writes port [] p = p"
| "pic_writes port ((a, v) # ws) p =
     pic_writes port ws (if a = port then pic_cmd v p else if a = port + 1 then pic_data v p else p)"

lemma bit_back: "bit w (k + (n - k)) = (if k \<le> n then bit w n else bit w k)"
  by auto

lemma gate_new:
  "gate_handler (idt_new h sel dpl ist) = h" "gate_present (idt_new h sel dpl ist)"
  "gate_dpl (idt_new h sel 0 ist) = 0" "gate_dpl (idt_new h sel 3 ist) = 3" "ie_ist (idt_new h sel dpl ist) = ist"
proof -
  have m: "(0xFFFF :: u64) = mask 16" by (simp add: mask_eq_exp_minus_1)
  show "gate_handler (idt_new h sel dpl ist) = h" unfolding gate_handler_def idt_new_def m
    by (rule bit_eqI) (auto simp: bit_simps bit_back split: if_splits)
  show "gate_present (idt_new h sel dpl ist)" by (simp add: gate_present_def idt_new_def bit_simps)
  show "gate_dpl (idt_new h sel 0 ist) = 0" "gate_dpl (idt_new h sel 3 ist) = 3" by (simp_all add: gate_dpl_def idt_new_def)
  show "ie_ist (idt_new h sel dpl ist) = ist" by (simp add: idt_new_def)
qed

lemma seg_new: "seg_base (gdt_seg base lim acc gr) = take_bit 32 base" "seg_limit (gdt_seg base lim acc gr) = take_bit 20 lim"
proof -
  have m: "(0xFFFF :: u64) = mask 16" "(0xFF :: u64) = mask 8" "(0xF :: u64) = mask 4" "(0xF :: u8) = mask 4"
    by (simp_all add: mask_eq_exp_minus_1)
  have h: "(0xF0 :: u8) AND mask 4 = 0" by (simp add: mask_eq_exp_minus_1)
  show "seg_base (gdt_seg base lim acc gr) = take_bit 32 base" unfolding seg_base_def gdt_seg_def m
    by (rule bit_eqI) (auto simp: bit_simps bit_back split: if_splits)
  have "(ucast (drop_bit 16 lim AND mask 4) OR (gr AND 0xF0)) AND mask 4 = (ucast (drop_bit 16 lim AND mask 4) :: u8)"
    unfolding bit.conj_disj_distrib2 and.assoc h by (rule bit_eqI) (auto simp: bit_simps)
  then show "seg_limit (gdt_seg base lim acc gr) = take_bit 20 lim" unfolding seg_limit_def gdt_seg_def m
    by (simp, intro bit_eqI) (auto simp: bit_simps bit_back split: if_splits)
qed

lemma idt_nth: "v < 256 \<Longrightarrow> init_idt s ! v =
  (if v = 0x80 then idt_new (sb_sys s) 0x08 3 0 else if v = 0x21 then idt_new (sb_kb s) 0x08 0 0
   else if v = 0x20 then idt_new (sb_tmr s) 0x08 0 0 else if v = 0x0E then idt_new (sb_pf s) 0x08 0 0
   else if v = 0x0D then idt_new (sb_gp s) 0x08 0 0 else if v = 0x08 then idt_new (sb_df s) 0x08 0 1 else idt_null)"
  by (simp add: init_idt_def nth_list_update)

text \<open>
  C27: the tables the processor and the interrupt controller are given: exactly the double fault, protection fault, page
  fault, timer, keyboard and system call vectors have gates, each with the address of its stub; user programs can raise
  only the system call; the two lines left unmasked arrive at the timer and keyboard gates; the double fault gets a stack of
  its own; and the task state is found at its address with its size.
\<close>

theorem interrupt_tables:
  "(\<forall>v < 256. gate_present (init_idt s ! v) \<longleftrightarrow> v \<in> {0x08, 0x0D, 0x0E, 0x20, 0x21, 0x80}) \<and>
   (\<forall>v < 256. gate_present (init_idt s ! v) \<and> gate_dpl (init_idt s ! v) = 3 \<longleftrightarrow> v = 0x80) \<and>
   map (\<lambda>v. gate_handler (init_idt s ! v)) [0x08, 0x0D, 0x0E, 0x20, 0x21, 0x80] = [sb_df s, sb_gp s, sb_pf s, sb_tmr s, sb_kb s, sb_sys s] \<and>
   map (\<lambda>v. ie_ist (init_idt s ! v)) [0x08, 0x0D, 0x0E, 0x20, 0x21, 0x80] = [1, 0, 0, 0, 0, 0] \<and>
   (pc_base (pic_writes 0x20 init_pic p) = 0x20 \<and> (\<forall>l < 8. \<not> bit (pc_mask (pic_writes 0x20 init_pic p)) l \<longleftrightarrow> l < 2)) \<and>
   (pc_base (pic_writes 0xA0 init_pic p) = 0x28 \<and> (\<forall>l < 8. bit (pc_mask (pic_writes 0xA0 init_pic p)) l)) \<and>
   (seg_base (gt_e (fst (init_gdt tb ds t)) ! 5) OR push_bit 32 (gt_tss_hi (fst (init_gdt tb ds t))) = tb \<and>
    seg_limit (gt_e (fst (init_gdt tb ds t)) ! 5) + 1 = TSS_SIZE \<and> ts_ist1 (snd (init_gdt tb ds t)) = ds + 0x4000)"
proof -
  have n: "\<not> gate_present idt_null" by (simp add: gate_present_def idt_null_def)
  have tb: "take_bit 32 tb OR push_bit 32 (drop_bit 32 tb) = tb" by (rule bit_eqI) (auto simp: bit_simps bit_back split: if_splits)
  have all8: "(\<forall>l < 8. P l) \<longleftrightarrow> P 0 \<and> P 1 \<and> P 2 \<and> P 3 \<and> P 4 \<and> P 5 \<and> P 6 \<and> P (7 :: nat)" for P
    by (simp add: numeral_eq_Suc All_less_Suc) blast
  have "pc_base (pic_writes 0x20 init_pic p) = 0x20 \<and> pc_mask (pic_writes 0x20 init_pic p) = 0xFC"
    "pc_base (pic_writes 0xA0 init_pic p) = 0x28 \<and> pc_mask (pic_writes 0xA0 init_pic p) = 0xFF"
    by (simp_all add: init_pic_def pic_cmd_def pic_data_def)
  moreover have "seg_base (gt_e (fst (init_gdt tb ds t)) ! 5) OR push_bit 32 (gt_tss_hi (fst (init_gdt tb ds t))) = tb"
    "seg_limit (gt_e (fst (init_gdt tb ds t)) ! 5) + 1 = TSS_SIZE" "ts_ist1 (snd (init_gdt tb ds t)) = ds + 0x4000"
    using tb by (simp_all add: init_gdt_def seg_new TSS_SIZE_def DOUBLE_FAULT_STACK_SIZE_def)
  moreover have "\<forall>v < 256. gate_present (init_idt s ! v) \<longleftrightarrow> v \<in> {0x08, 0x0D, 0x0E, 0x20, 0x21, 0x80}"
    by (auto simp: idt_nth gate_new n)
  moreover have "\<forall>v < 256. gate_present (init_idt s ! v) \<and> gate_dpl (init_idt s ! v) = 3 \<longleftrightarrow> v = 0x80"
    by (auto simp: idt_nth gate_new n)
  ultimately show ?thesis by (simp add: idt_nth gate_new all8)
qed

definition sample_stubs :: stubs where
  "sample_stubs = \<lparr>sb_df = 0x101000, sb_gp = 0x101100, sb_pf = 0x101200, sb_tmr = 0x101300, sb_kb = 0x101400, sb_sys = 0x101500\<rparr>"

theorem interrupt_tables_witness:
  "gate_present (init_idt sample_stubs ! 0x0E) \<and> gate_dpl (init_idt sample_stubs ! 0x0E) \<noteq> 3 \<and> \<not> gate_present (init_idt sample_stubs ! 0x00)"
proof -
  note t = interrupt_tables [of sample_stubs "\<lparr>pc_step = 0, pc_base = 0, pc_mask = 0\<rparr>" "0x200000" "0x300000" tss_new]
  note t1 = conjunct1 [OF t]
  note t2 = conjunct1 [OF conjunct2 [OF t]]
  show ?thesis
    using t1 [rule_format, of "0x0E"] t1 [rule_format, of 0] t2 [rule_format, of "0x0E"] by simp
qed


end
