(* ===== verification/Kernel_Terminal.thy ===== *)
theory Kernel_Terminal
  imports Spawn
begin

text \<open>
  The kernel terminal (\<^verbatim>\<open>kterminal.rs\<close>): a line editor over the keyboard ring and the serial port, and the commands. The state
  is that of the kernel with the line; what is written to the serial port is appended to its output there. A port that is ready
  is assumed for output; what arrives on it is an argument.
\<close>

section \<open>State\<close>

record terminal =
  tm_line :: "u8 list"
  tm_len :: nat
  tm_k :: kernel

text \<open>What the commands read from the processor and from the USB subsystem.\<close>

record probes =
  pb_rsp :: u64
  pb_rbp :: u64
  pb_cr2 :: u64
  pb_rflags :: u64
  pb_usb :: bool
  pb_hid :: u64

definition bytes :: "string \<Rightarrow> u8 list" where
  "bytes s = map of_char s"

abbreviation set_vga :: "vga \<Rightarrow> terminal \<Rightarrow> terminal" where
  "set_vga v t \<equiv> t\<lparr>tm_k := (tm_k t)\<lparr>kn_vga := v\<rparr>\<rparr>"

text \<open>Several calls of \<open>print\<close>, and a call of \<open>printc\<close>.\<close>

definition say :: "u16 list list \<Rightarrow> terminal \<Rightarrow> terminal run" where
  "say ss t = bind_run (print_all ss (kn_vga (tm_k t))) (\<lambda>v. Done (set_vga v t))"

definition sayc :: "u16 list \<Rightarrow> u8 \<Rightarrow> terminal \<Rightarrow> terminal run" where
  "sayc s c t = bind_run (printc s c (kn_vga (tm_k t))) (\<lambda>v. Done (set_vga v t))"

definition com_write :: "u8 \<Rightarrow> terminal \<Rightarrow> terminal" where
  "com_write c t = t\<lparr>tm_k := (tm_k t)\<lparr>kn_serial := kn_serial (tm_k t) @ [c]\<rparr>\<rparr>"

definition pnum :: "u64 \<Rightarrow> u16 list" where "pnum v = chars (num_str v)"
definition phex :: "u64 \<Rightarrow> u16 list" where "phex v = chars (hex_str v)"

definition prompt :: "terminal \<Rightarrow> terminal run" where
  "prompt t = sayc ([0x0A] @ chars ''#$> '') LGREEN t"

section \<open>Commands\<close>

definition trim_ascii :: "u8 list \<Rightarrow> u8 list" where
  "trim_ascii bs = (let ws = (\<lambda>b. b \<in> {0x20, 0x09, 0x0A, 0x0C, 0x0D}) in rev (dropWhile ws (rev (dropWhile ws bs))))"

definition cmd_help :: "terminal \<Rightarrow> terminal run" where
  "cmd_help t = bind_run (sayc (chars ''=== CosinusOS Kernel Terminal ==='' @ [0x0A]) YELLOW t) (say (map (\<lambda>l. chars l @ [0x0A])
     [''  help       - ta pomoc'', ''  mem        - pamiec fizyczna'', ''  threads    - lista watkow'',
      ''  userspace  - uruchom/sprawdz userspace'', ''  ticks      - licznik tickow'', ''  uptime     - czas pracy'',
      ''  cr3        - aktualny CR3'', ''  regs       - rejestry CPU'', ''  usb        - status USB/HID'',
      ''  clear      - wyczysc ekran'', ''  panic      - test kernel panic'']))"

definition cmd_mem :: "terminal \<Rightarrow> terminal run" where
  "cmd_mem t = bind_run (sayc (chars ''=== Pamiec ==='' @ [0x0A]) YELLOW t) (\<lambda>t. let m = kn_mem (tm_k t) in
     say [chars ''  Wolne: '', pnum (mm_free_kb m), chars '' KB'' @ [0x0A], chars ''  Uzyte: '', pnum (mm_used_kb m), chars '' KB'' @ [0x0A],
          chars ''  Razem: '', pnum (mm_total_kb m), chars '' KB'' @ [0x0A]] t)"

fun state_label :: "ts \<Rightarrow> string \<times> u8" where
  "state_label Run = ('' RUN  '', LGREEN)"
| "state_label Ready = ('' READY'', LCYAN)"
| "state_label Block = ('' BLOCK'', YELLOW)"
| "state_label Dead = ('' DEAD '', DGREY)"

definition thread_line :: "nat \<Rightarrow> nat \<Rightarrow> thread \<Rightarrow> terminal \<Rightarrow> terminal run" where
  "thread_line cur i th t =
     (case state_label (th_state th) of (ss, sc) \<Rightarrow>
      bind_run (say [chars (if i = cur then ''  * #'' else ''    #''), pnum (of_nat i), chars '' '', str_chars (name_str th)] t) (\<lambda>t.
      bind_run (sayc (chars ss) sc t) (say [chars '' ticks='', pnum (th_ticks th), [0x0A]])))"

fun thread_lines :: "nat \<Rightarrow> (nat \<times> thread) list \<Rightarrow> terminal \<Rightarrow> terminal run" where
  "thread_lines cur [] t = Done t"
| "thread_lines cur ((i, th) # xs) t =
     (if th_state th = Dead then thread_lines cur xs t else bind_run (thread_line cur i th t) (thread_lines cur xs))"

definition cmd_threads :: "terminal \<Rightarrow> terminal run" where
  "cmd_threads t = bind_run (sayc (chars ''=== Watki ==='' @ [0x0A]) YELLOW t) (\<lambda>t. let k = tm_k t in
     thread_lines (kn_cur k) (enumerate 0 (kn_threads k)) t)"

definition userspace_thread :: "thread list \<Rightarrow> nat option" where
  "userspace_thread ths =
     List.find (\<lambda>i. th_state (ths ! i) \<noteq> Dead \<and> name_str (ths ! i) = bytes ''userspace'') [0..<MAX_THREADS]"

definition cmd_userspace :: "kernel_env \<Rightarrow> terminal \<Rightarrow> terminal run" where
  "cmd_userspace E t =
     (case userspace_thread (kn_threads (tm_k t)) of
        Some i \<Rightarrow> bind_run (sayc (chars ''Userspace dziala jako watek #'') LGREEN t) (say [pnum (of_nat i), [0x0A]])
      | None \<Rightarrow>
        let entry = ev_us_entry (ke_sched E) in
        if entry \<noteq> 0
        then bind_run (sayc (chars ''Uruchamiam userspace @ '') LCYAN t) (\<lambda>t.
             bind_run (say [phex entry, [0x0A]] t) (\<lambda>t.
             bind_run (new_user_p4 (K_P4 E) (kn_mem (tm_k t))) (\<lambda>(cr3, m).
             bind_run (spawn_user_on_cr3 E (bytes ''userspace'' @ [0]) entry 0 cr3 ((tm_k t)\<lparr>kn_mem := m\<rparr>)) (\<lambda>(tid, k).
             if tid \<ge> 0
             then bind_run (sayc (chars ''  Watek #'') LGREEN (t\<lparr>tm_k := k\<rparr>)) (say [pnum (of_int tid), chars '' OK'' @ [0x0A]])
             else sayc (chars ''  Brak slotow!'' @ [0x0A]) LRED (t\<lparr>tm_k := k\<rparr>)))))
        else sayc (chars ''Brak zaladowanego userspace'' @ [0x0A]) LRED t)"

definition cmd_ticks :: "terminal \<Rightarrow> terminal run" where
  "cmd_ticks t = say [chars ''Ticks: '', pnum (sc_tick (kn_sched (tm_k t))), [0x0A]] t"

definition cmd_uptime :: "terminal \<Rightarrow> terminal run" where
  "cmd_uptime t = (let n = sc_tick (kn_sched (tm_k t)) in
     say [chars ''Uptime: '', pnum (n div 100), chars ''s ('', pnum n, chars '' ticks)'' @ [0x0A]] t)"

definition cmd_cr3 :: "terminal \<Rightarrow> terminal run" where
  "cmd_cr3 t = say [chars ''CR3='', phex (kn_cr3 (tm_k t)), [0x0A]] t"

definition cmd_regs :: "probes \<Rightarrow> terminal \<Rightarrow> terminal run" where
  "cmd_regs p t = bind_run (sayc (chars ''=== Rejestry ==='' @ [0x0A]) YELLOW t) (\<lambda>t. say
     [chars ''  RSP='', phex (pb_rsp p), chars ''  RBP='', phex (pb_rbp p), [0x0A], chars ''  CR3='', phex (kn_cr3 (tm_k t)),
      chars ''  CR2='', phex (pb_cr2 p), [0x0A], chars ''  RFLAGS='', phex (pb_rflags p), [0x0A]] t)"

definition cmd_usb :: "probes \<Rightarrow> terminal \<Rightarrow> terminal run" where
  "cmd_usb p t = bind_run (sayc (chars ''=== USB/HID ==='' @ [0x0A]) YELLOW t) (\<lambda>t.
     bind_run (say [chars ''  Kontroler: ''] t) (\<lambda>t.
     bind_run (if pb_usb p then sayc (chars ''OK'' @ [0x0A]) LGREEN t else sayc (chars ''brak'' @ [0x0A]) LRED t)
       (say [chars ''  HID devices: '', pnum (pb_hid p), [0x0A]])))"

definition cmd_unknown :: "u8 list \<Rightarrow> terminal \<Rightarrow> terminal run" where
  "cmd_unknown cmd t = bind_run (sayc (chars ''Nieznana komenda: '') LRED t)
     (say [map ucast cmd, [0x0A] @ chars ''Wpisz '' @ [0x27] @ chars ''help'' @ [0x27, 0x0A]])"

text \<open>The command in the line; \<open>panic\<close> stops the machine.\<close>

definition run_cmd :: "kernel_env \<Rightarrow> probes \<Rightarrow> u8 list \<Rightarrow> terminal \<Rightarrow> terminal run" where
  "run_cmd E p cmd t =
     (if cmd = bytes ''help'' then cmd_help t else if cmd = bytes ''mem'' then cmd_mem t
      else if cmd = bytes ''threads'' then cmd_threads t else if cmd = bytes ''userspace'' then cmd_userspace E t
      else if cmd = bytes ''ticks'' then cmd_ticks t else if cmd = bytes ''uptime'' then cmd_uptime t
      else if cmd = bytes ''cr3'' then cmd_cr3 t else if cmd = bytes ''regs'' then cmd_regs p t
      else if cmd = bytes ''usb'' then cmd_usb p t else if cmd = bytes ''clear'' then Done (set_vga (cls (kn_vga (tm_k t))) t)
      else if cmd = bytes ''panic'' then Panic else if cmd = [] then Done t
      else cmd_unknown cmd t)"

definition process_cmd :: "kernel_env \<Rightarrow> probes \<Rightarrow> terminal \<Rightarrow> terminal run" where
  "process_cmd E p t =
     (if tm_len t \<le> length (tm_line t)
      then bind_run (say [[0x0A]] t) (\<lambda>t1. bind_run (run_cmd E p (trim_ascii (take (tm_len t) (tm_line t))) t1) (\<lambda>t2. Done (t2\<lparr>tm_len := 0\<rparr>)))
      else Panic)"

section \<open>Editing\<close>

text \<open>The console part of a backspace and of a character, under the lock of the console.\<close>

definition rub_out :: "vga \<Rightarrow> vga" where
  "rub_out v =
     (let v1 = v\<lparr>vg_x := vg_x v - 1\<rparr>; v2 = putc 0x20 v1 in cursor_hw (v2\<lparr>vg_x := vg_x v2 - 1\<rparr>))"

definition with_vga_lock :: "(vga \<Rightarrow> vga) \<Rightarrow> terminal \<Rightarrow> terminal run" where
  "with_vga_lock f t = bind_run (lock (vg_lock (kn_vga (tm_k t)))) (\<lambda>l.
     let v = f ((kn_vga (tm_k t))\<lparr>vg_lock := l\<rparr>) in Done (set_vga (v\<lparr>vg_lock := unlock (vg_lock v)\<rparr>) t))"

definition handle_char :: "kernel_env \<Rightarrow> probes \<Rightarrow> u8 \<Rightarrow> terminal \<Rightarrow> terminal run" where
  "handle_char E p c t =
     (if c = 0x0A \<or> c = 0x0D then bind_run (process_cmd E p t) prompt
      else if c = 0x08
      then if tm_len t > 0
           then bind_run (with_vga_lock rub_out (t\<lparr>tm_len := tm_len t - 1\<rparr>)) (\<lambda>t. Done (com_write 0x08 (com_write 0x20 (com_write 0x08 t))))
           else Done t
      else if 0x20 \<le> c \<and> c < 0x7F
      then if tm_len t < 255
           then bind_run (arr_set (tm_line t) (tm_len t) c) (\<lambda>l.
                bind_run (with_vga_lock (putc (ucast c)) (t\<lparr>tm_line := l, tm_len := tm_len t + 1\<rparr>)) (\<lambda>t. Done (com_write c t)))
           else Done t
      else Done t)"

text \<open>
  One round of the loop of \<open>run\<close>: the keyboard ring is emptied, then what has arrived on the serial port. The ring holds at most 63
  characters; \<open>n\<close> bounds the number taken from it.
\<close>

fun drain_keys :: "nat \<Rightarrow> kernel_env \<Rightarrow> probes \<Rightarrow> terminal \<Rightarrow> (bool \<times> terminal) run" where
  "drain_keys 0 E p t = Hang"
| "drain_keys (Suc n) E p t =
     bind_run (kb_pop (kn_kbd (tm_k t))) (\<lambda>(c, kb). let t1 = t\<lparr>tm_k := (tm_k t)\<lparr>kn_kbd := kb\<rparr>\<rparr> in
     case c of None \<Rightarrow> Done (False, t1)
     | Some c \<Rightarrow> bind_run (handle_char E p c t1) (\<lambda>t2. bind_run (drain_keys n E p t2) (\<lambda>(_, t3). Done (True, t3))))"

fun drain_com :: "u8 list \<Rightarrow> kernel_env \<Rightarrow> probes \<Rightarrow> terminal \<Rightarrow> (bool \<times> terminal) run" where
  "drain_com [] E p t = Done (False, t)"
| "drain_com (c # cs) E p t = bind_run (handle_char E p c (com_write c t)) (\<lambda>t1. bind_run (drain_com cs E p t1) (\<lambda>(_, t2). Done (True, t2)))"

definition term_round :: "kernel_env \<Rightarrow> probes \<Rightarrow> u8 list \<Rightarrow> terminal \<Rightarrow> (control \<times> terminal) run" where
  "term_round E p incoming t =
     bind_run (drain_keys KB_BUF E p t) (\<lambda>(g1, t1). bind_run (drain_com incoming E p t1) (\<lambda>(g2, t2).
       if g1 \<or> g2 then Done (Resume, t2)
       else bind_run (thread_yield (ke_sched E) (kn_sched (tm_k t2))) (\<lambda>(c, s). Done (c, t2\<lparr>tm_k := (tm_k t2)\<lparr>kn_sched := s\<rparr>\<rparr>))))"

definition term_boot :: "kernel \<Rightarrow> terminal" where
  "term_boot k = \<lparr>tm_line = replicate 256 0, tm_len = 0, tm_k = k\<rparr>"

definition term_start :: "terminal \<Rightarrow> terminal run" where
  "term_start t = bind_run (sayc ([0x0A] @ chars ''=== Kernel Terminal ==='' @ [0x0A]) YELLOW t) (\<lambda>t.
     bind_run (say [chars ''  PS/2 + COM1 (115200). Wpisz '' @ [0x27] @ chars ''help'' @ [0x27] @ chars ''.'' @ [0x0A]] t) prompt)"

section \<open>Routines that only print\<close>

definition term_ok :: "terminal \<Rightarrow> bool" where
  "term_ok t \<longleftrightarrow> kernel_ok (tm_k t) \<and> length (tm_line t) = 256 \<and> tm_len t \<le> 255"

definition speaks :: "(terminal \<Rightarrow> terminal run) \<Rightarrow> bool" where
  "speaks f \<longleftrightarrow> (\<forall>t. term_ok t \<longrightarrow> (\<exists>v. f t = Done (set_vga v t) \<and> vga_ok v \<and> \<not> vg_lock v))"

lemma term_ok_vga: "term_ok t \<Longrightarrow> vga_ok v \<Longrightarrow> \<not> vg_lock v \<Longrightarrow> term_ok (set_vga v t)"
  by (simp add: term_ok_def kernel_ok_def)

lemma term_vga: "term_ok t \<Longrightarrow> vga_ok (kn_vga (tm_k t)) \<and> \<not> vg_lock (kn_vga (tm_k t))"
  by (simp add: term_ok_def kernel_ok_def)

lemma speaks_say: "speaks (\<lambda>t. say (ss t) t)"
  unfolding speaks_def
proof (intro allI impI)
  fix t assume "term_ok t"
  then obtain v where "print_all (ss t) (kn_vga (tm_k t)) = Done v" "vga_ok v" "\<not> vg_lock v" using print_all_done term_vga by blast
  then show "\<exists>v. say (ss t) t = Done (set_vga v t) \<and> vga_ok v \<and> \<not> vg_lock v" by (auto simp: say_def)
qed

lemma speaks_sayc: "speaks (sayc s c)"
  unfolding speaks_def
proof (intro allI impI)
  fix t assume "term_ok t"
  then obtain v where "printc s c (kn_vga (tm_k t)) = Done v" "vga_ok v" "\<not> vg_lock v"
    using console_stays_on_screen term_vga by blast
  then show "\<exists>v. sayc s c t = Done (set_vga v t) \<and> vga_ok v \<and> \<not> vg_lock v" by (auto simp: sayc_def)
qed

lemma speaks_Done: "speaks Done"
  unfolding speaks_def
proof (intro allI impI)
  fix t assume "term_ok t"
  moreover have "t = set_vga (kn_vga (tm_k t)) t" by simp
  ultimately show "\<exists>v. Done t = Done (set_vga v t) \<and> vga_ok v \<and> \<not> vg_lock v" using term_vga by metis
qed

lemma speaks_bind:
  assumes "speaks f" "speaks g"
  shows "speaks (\<lambda>t. bind_run (f t) g)"
  unfolding speaks_def
proof (intro allI impI)
  fix t assume t: "term_ok t"
  from t assms(1) obtain v where v: "f t = Done (set_vga v t)" "vga_ok v" "\<not> vg_lock v" unfolding speaks_def by blast
  from assms(2) term_ok_vga [OF t v(2,3)] obtain w where "g (set_vga v t) = Done (set_vga w (set_vga v t))" "vga_ok w" "\<not> vg_lock w"
    unfolding speaks_def by blast
  with v(1) show "\<exists>v. bind_run (f t) g = Done (set_vga v t) \<and> vga_ok v \<and> \<not> vg_lock v" by (auto intro: exI [of _ w])
qed

lemma speaks_say1: "speaks (say ss)"
  using speaks_say [of "\<lambda>_. ss"] .

lemma speaks_threads: "speaks (thread_lines cur xs)"
proof (induction xs)
  case Nil
  show ?case using speaks_Done by (simp add: speaks_def)
next
  case (Cons x xs)
  obtain i th where x: "x = (i, th)" by fastforce
  have l: "speaks (thread_line cur i th)"
    unfolding thread_line_def by (cases "th_state th") (simp_all add: speaks_bind speaks_sayc speaks_say1)
  show ?case using Cons.IH speaks_bind [OF l Cons.IH] unfolding x by (cases "th_state th = Dead") (simp_all add: speaks_def)
qed

lemma speaks_threads_now: "speaks (\<lambda>t. thread_lines (cur t) (xs t) t)"
  using speaks_threads unfolding speaks_def by blast

lemma speaks_cls: "speaks (\<lambda>t. Done (set_vga (cls (kn_vga (tm_k t))) t))"
proof -
  have "vg_lock (cls v) = vg_lock v" for v by (simp add: cls_def)
  then show ?thesis unfolding speaks_def using term_vga console_stays_on_screen by fastforce
qed

text \<open>The commands that only print.\<close>

definition quiet :: "u8 list \<Rightarrow> bool" where
  "quiet cmd \<longleftrightarrow> cmd \<noteq> bytes ''userspace'' \<and> cmd \<noteq> bytes ''panic''"

lemma run_cmd_quiet:
  assumes "quiet cmd"
  shows "speaks (run_cmd E p cmd)"
proof -
  note sp = speaks_bind speaks_sayc speaks_say1 speaks_say speaks_Done speaks_threads_now
  have "speaks cmd_help" "speaks cmd_mem" "speaks cmd_threads" "speaks cmd_ticks" "speaks cmd_uptime" "speaks cmd_cr3" "speaks (cmd_regs p)"
    "speaks (cmd_unknown cmd)"
    unfolding cmd_help_def cmd_mem_def cmd_threads_def cmd_ticks_def cmd_uptime_def cmd_cr3_def cmd_regs_def cmd_unknown_def Let_def
    by (intro sp)+
  moreover have "speaks (cmd_usb p)" unfolding cmd_usb_def by (cases "pb_usb p") (simp_all, (intro sp)+)
  ultimately show ?thesis using assms speaks_cls speaks_Done unfolding speaks_def run_cmd_def quiet_def by auto
qed

section \<open>The line\<close>

definition text_of :: "terminal \<Rightarrow> u8 list" where
  "text_of t = take (tm_len t) (tm_line t)"

definition edit :: "u8 list \<Rightarrow> u8 \<Rightarrow> u8 list" where
  "edit l c = (if c = 0x08 then butlast l else if 0x20 \<le> c \<and> c < 0x7F \<and> length l < 255 then l @ [c] else l)"

text \<open>What a sequence of characters means: the commands that are executed, and the line that is left.\<close>

fun session :: "u8 list \<Rightarrow> u8 list \<Rightarrow> u8 list list \<times> u8 list" where
  "session l [] = ([], l)"
| "session l (c # cs) =
     (if c = 0x0A \<or> c = 0x0D then (let (cmds, l') = session [] cs in (trim_ascii l # cmds, l')) else session (edit l c) cs)"

text \<open>Everything but screen, line and serial output is as before.\<close>

definition only_terminal :: "terminal \<Rightarrow> terminal \<Rightarrow> bool" where
  "only_terminal t t' \<longleftrightarrow> tm_k t' = (tm_k t)\<lparr>kn_vga := kn_vga (tm_k t'), kn_serial := kn_serial (tm_k t')\<rparr>"

lemma only_terminal_refl [simp]: "only_terminal t t"
  by (simp add: only_terminal_def)

lemma only_terminal_trans: "only_terminal t t1 \<Longrightarrow> only_terminal t1 t2 \<Longrightarrow> only_terminal t t2"
  unfolding only_terminal_def by (metis (no_types, lifting) kernel.surjective kernel.update_convs(5,8) kernel.select_convs(5,8))

lemma text_len: "term_ok t \<Longrightarrow> length (text_of t) = tm_len t"
  by (simp add: text_of_def term_ok_def)

lemma locked_step:
  assumes "term_ok t" "\<And>v. vga_ok v \<Longrightarrow> vga_ok (f v)"
  shows "\<exists>v. with_vga_lock f t = Done (set_vga v t) \<and> vga_ok v \<and> \<not> vg_lock v"
proof -
  have v: "vga_ok (kn_vga (tm_k t))" "vg_lock (kn_vga (tm_k t)) = False" using term_vga [OF assms(1)] by auto
  then have "vga_ok ((kn_vga (tm_k t))\<lparr>vg_lock := True\<rparr>)" by (simp add: vga_ok_def)
  from assms(2) [OF this] v(2) show ?thesis by (auto simp: with_vga_lock_def vga_ok_def)
qed

lemma rub_out_ok: "vga_ok v \<Longrightarrow> vga_ok (rub_out v)"
proof -
  assume v: "vga_ok v"
  then have "vga_ok (v\<lparr>vg_x := vg_x v - 1\<rparr>)" by (auto simp: vga_ok_def)
  from putc_ok [OF this, of "0x20"] show ?thesis by (auto simp: rub_out_def Let_def vga_ok_def)
qed

text \<open>One character.\<close>

lemma handle_char_edits:
  assumes t: "term_ok t" and c: "c \<noteq> 0x0A" "c \<noteq> 0x0D"
  shows "\<exists>t'. handle_char E p c t = Done t' \<and> term_ok t' \<and> only_terminal t t' \<and> text_of t' = edit (text_of t) c"
proof -
  have len: "length (tm_line t) = 256" "tm_len t \<le> 255" using t by (auto simp: term_ok_def)
  consider (rub) "c = 0x08" "tm_len t > 0" | (put) "c \<noteq> 0x08" "0x20 \<le> c" "c < 0x7F" "tm_len t < 255"
    | (none) "c = 0x08 \<and> tm_len t = 0 \<or> c \<noteq> 0x08 \<and> \<not> (0x20 \<le> c \<and> c < 0x7F \<and> tm_len t < 255)" by blast
  then show ?thesis
  proof cases
    case rub
    let ?t = "t\<lparr>tm_len := tm_len t - 1\<rparr>"
    have "term_ok ?t" using t by (auto simp: term_ok_def)
    from locked_step [of ?t rub_out, OF this rub_out_ok] obtain v where
      v: "with_vga_lock rub_out ?t = Done (set_vga v ?t)" "vga_ok v" "\<not> vg_lock v" by blast
    have "take (tm_len t - Suc 0) (tm_line t) = butlast (take (tm_len t) (tm_line t))" using len by (simp add: butlast_take)
    moreover have "tm_len t - Suc 0 \<le> 255" using len by simp
    ultimately show ?thesis using rub c v t
      by (simp add: handle_char_def com_write_def only_terminal_def text_of_def edit_def term_ok_def kernel_ok_def)
  next
    case put
    let ?t = "t\<lparr>tm_line := (tm_line t)[tm_len t := c], tm_len := tm_len t + 1\<rparr>"
    have "term_ok ?t" using t put(4) by (auto simp: term_ok_def)
    from locked_step [of ?t "putc (ucast c)", OF this putc_ok] obtain v where
      v: "with_vga_lock (putc (ucast c)) ?t = Done (set_vga v ?t)" "vga_ok v" "\<not> vg_lock v" by blast
    have "take (Suc (tm_len t)) ((tm_line t)[tm_len t := c]) = take (tm_len t) (tm_line t) @ [c]"
      using len by (simp add: take_Suc_conv_app_nth)
    then show ?thesis using put c v t text_len [OF t]
      by (simp add: handle_char_def com_write_def only_terminal_def text_of_def edit_def term_ok_def kernel_ok_def)
  next
    case none
    have "butlast (text_of t) = text_of t" if "tm_len t = 0" using that by (simp add: text_of_def)
    then show ?thesis using none c t text_len [OF t] by (auto simp: handle_char_def edit_def)
  qed
qed

text \<open>The end of a line whose command only prints.\<close>

lemma handle_char_command:
  assumes t: "term_ok t" and c: "c = 0x0A \<or> c = 0x0D" and q: "quiet (trim_ascii (text_of t))"
  shows "\<exists>t'. handle_char E p c t = Done t' \<and> term_ok t' \<and> only_terminal t t' \<and> text_of t' = []"
proof -
  have len: "tm_len t \<le> length (tm_line t)" using t by (simp add: term_ok_def)
  from speaks_bind [OF speaks_say1 [of "[[0x0A]]"] run_cmd_quiet [OF q, of E p]] t obtain v where
    v: "bind_run (say [[0x0A]] t) (run_cmd E p (trim_ascii (text_of t))) = Done (set_vga v t)" "vga_ok v" "\<not> vg_lock v"
    unfolding speaks_def by blast
  have "process_cmd E p t = bind_run (bind_run (say [[0x0A]] t) (run_cmd E p (trim_ascii (text_of t)))) (\<lambda>t2. Done (t2\<lparr>tm_len := 0\<rparr>))"
    using len by (cases "say [[0x0A]] t") (simp_all add: process_cmd_def text_of_def)
  then have p: "process_cmd E p t = Done ((set_vga v t)\<lparr>tm_len := 0\<rparr>)" using v(1) by simp
  let ?t = "(set_vga v t)\<lparr>tm_len := 0\<rparr>"
  have "term_ok ?t" using t v by (simp add: term_ok_def kernel_ok_def)
  from speaks_sayc [of "[0x0A] @ chars ''#$> ''" LGREEN] this obtain w where
    w: "prompt ?t = Done (set_vga w ?t)" "vga_ok w" "\<not> vg_lock w" unfolding speaks_def prompt_def by blast
  then show ?thesis using p c t
    by (simp add: handle_char_def only_terminal_def text_of_def term_ok_def kernel_ok_def)
qed

section \<open>A round of the terminal\<close>

lemma session_append: "session l (as @ bs) = (fst (session l as) @ fst (session (snd (session l as)) bs), snd (session (snd (session l as)) bs))"
  by (induction l as rule: session.induct) (simp_all add: Let_def case_prod_beta)

text \<open>Any characters whose commands only print.\<close>

lemma handle_char_session:
  assumes "term_ok t" "\<forall>cmd \<in> set (fst (session (text_of t) [c])). quiet cmd"
  shows "\<exists>t'. handle_char E p c t = Done t' \<and> term_ok t' \<and> only_terminal t t' \<and> text_of t' = snd (session (text_of t) [c])"
proof (cases "c = 0x0A \<or> c = 0x0D")
  case True
  then show ?thesis using handle_char_command [OF assms(1) True] assms(2) by auto
next
  case False
  then show ?thesis using handle_char_edits [OF assms(1)] by auto
qed

text \<open>The ring of the keyboard may have been read besides.\<close>

definition only_typed :: "terminal \<Rightarrow> terminal \<Rightarrow> bool" where
  "only_typed t t' \<longleftrightarrow>
     tm_k t' = (tm_k t)\<lparr>kn_vga := kn_vga (tm_k t'), kn_serial := kn_serial (tm_k t'), kn_kbd := kn_kbd (tm_k t')\<rparr>"

lemma only_typed_step:
  assumes "only_terminal t1 t2" "tm_k t1 = (tm_k t)\<lparr>kn_kbd := kb\<rparr>" "only_typed t2 t3"
  shows "only_typed t t3"
  using assms unfolding only_terminal_def only_typed_def by (cases "tm_k t", cases "tm_k t1", cases "tm_k t2", cases "tm_k t3") simp

lemma drain_keys_session:
  assumes "term_ok t" "length (kb_contents (kn_kbd (tm_k t))) < n"
    "\<forall>cmd \<in> set (fst (session (text_of t) (kb_contents (kn_kbd (tm_k t))))). quiet cmd"
  shows "\<exists>t'. drain_keys n E p t = Done (kb_contents (kn_kbd (tm_k t)) \<noteq> [], t') \<and> term_ok t' \<and> only_typed t t' \<and>
    kb_contents (kn_kbd (tm_k t')) = [] \<and> text_of t' = snd (session (text_of t) (kb_contents (kn_kbd (tm_k t))))"
  using assms
proof (induction n arbitrary: t)
  case 0
  then show ?case by simp
next
  case (Suc n)
  let ?kb = "kn_kbd (tm_k t)"
  have kb: "kb_ok ?kb" using Suc.prems(1) by (simp add: term_ok_def kernel_ok_def)
  show ?case
  proof (cases "kb_contents ?kb")
    case Nil
    have "kb_pop ?kb = Done (None, ?kb)" using input_poll_empty [OF kb Nil] by (simp add: kb_pop_def)
    then show ?thesis using Nil Suc.prems(1) by (simp add: only_typed_def)
  next
    case (Cons c cs)
    from input_poll_some [OF kb Cons] obtain kb' where k: "kb_pop ?kb = Done (Some c, kb')" "kb_ok kb'" "kb_contents kb' = cs"
      by (auto simp: kb_pop_def)
    let ?t = "t\<lparr>tm_k := (tm_k t)\<lparr>kn_kbd := kb'\<rparr>\<rparr>"
    have t1: "term_ok ?t" "text_of ?t = text_of t" using Suc.prems(1) k(2) by (auto simp: term_ok_def kernel_ok_def text_of_def)
    have s: "session (text_of t) (c # cs) = (fst (session (text_of t) [c]) @ fst (session (snd (session (text_of t) [c])) cs),
        snd (session (snd (session (text_of t) [c])) cs))" using session_append [of "text_of t" "[c]" cs] by simp
    have q: "\<forall>cmd \<in> set (fst (session (text_of ?t) [c])). quiet cmd" using Suc.prems(3) unfolding Cons s t1(2) by simp
    from handle_char_session [OF t1(1) q, of E p] obtain t2 where
      t2: "handle_char E p c ?t = Done t2" "term_ok t2" "only_terminal ?t t2" "text_of t2 = snd (session (text_of t) [c])"
      unfolding t1(2) by blast
    have kb2: "kn_kbd (tm_k t2) = kb'" using t2(3) unfolding only_terminal_def by (cases "tm_k t2") simp
    have "length (kb_contents (kn_kbd (tm_k t2))) < n" "\<forall>cmd \<in> set (fst (session (text_of t2) (kb_contents (kn_kbd (tm_k t2))))). quiet cmd"
      using Suc.prems(2,3) unfolding kb2 k(3) Cons s t2(4) by auto
    from Suc.IH [OF t2(2) this] obtain t3 where
      t3: "drain_keys n E p t2 = Done (cs \<noteq> [], t3)" "term_ok t3" "only_typed t2 t3" "kb_contents (kn_kbd (tm_k t3)) = []"
        "text_of t3 = snd (session (snd (session (text_of t) [c])) cs)" unfolding kb2 k(3) t2(4) by blast
    have "only_typed t t3" by (rule only_typed_step [OF t2(3) _ t3(3)]) simp
    moreover have "drain_keys (Suc n) E p t = Done (True, t3)" using k(1) t2(1) t3(1) by simp
    moreover have "text_of t3 = snd (session (text_of t) (c # cs))" unfolding s t3(5) by simp
    ultimately show ?thesis unfolding Cons using t3(2,4) by (intro exI [of _ t3]) (simp del: session.simps drain_keys.simps)
  qed
qed

lemma drain_com_session:
  assumes "term_ok t" "\<forall>cmd \<in> set (fst (session (text_of t) cs)). quiet cmd"
  shows "\<exists>t'. drain_com cs E p t = Done (cs \<noteq> [], t') \<and> term_ok t' \<and> only_terminal t t' \<and> text_of t' = snd (session (text_of t) cs)"
  using assms
proof (induction cs arbitrary: t)
  case Nil
  then show ?case by simp
next
  case (Cons c cs)
  have t1: "term_ok (com_write c t)" "text_of (com_write c t) = text_of t" "only_terminal t (com_write c t)"
    using Cons.prems(1) by (auto simp: term_ok_def kernel_ok_def text_of_def com_write_def only_terminal_def)
  have s: "session (text_of t) (c # cs) = (fst (session (text_of t) [c]) @ fst (session (snd (session (text_of t) [c])) cs),
      snd (session (snd (session (text_of t) [c])) cs))" using session_append [of "text_of t" "[c]" cs] by simp
  have "\<forall>cmd \<in> set (fst (session (text_of (com_write c t)) [c])). quiet cmd" using Cons.prems(2) unfolding s t1(2) by simp
  from handle_char_session [OF t1(1) this, of E p] obtain t2 where
    t2: "handle_char E p c (com_write c t) = Done t2" "term_ok t2" "only_terminal (com_write c t) t2" "text_of t2 = snd (session (text_of t) [c])"
    unfolding t1(2) by blast
  from Cons.IH [OF t2(2)] Cons.prems(2) obtain t3 where
    "drain_com cs E p t2 = Done (cs \<noteq> [], t3)" "term_ok t3" "only_terminal t2 t3" "text_of t3 = snd (session (text_of t2) cs)"
    unfolding s t2(4) by auto
  then show ?case using t2(1,4) only_terminal_trans [OF only_terminal_trans [OF t1(3) t2(3)]] unfolding s by auto
qed



end
