(* ===== verification/Ps2.thy ===== *)
theory Ps2
  imports Ata Debug_Fmt
begin

text \<open>
  Setting up the keyboard controller (\<^verbatim>\<open>input.rs\<close>, from \<open>ps2_flush\<close> on). The controller is a parameter: like a drive, it answers
  as a function of the accesses to the ports before. Every wait is bounded. What is written on the serial port is collected.
\<close>

section \<open>Waiting and flushing\<close>

record ps2 =
  p2_hist :: hist
  p2_out :: string

definition p_in :: "drive \<Rightarrow> u16 \<Rightarrow> ps2 \<Rightarrow> u8 \<times> ps2" where
  "p_in dev p s = (case in8 dev p (p2_hist s) of (v, h) \<Rightarrow> (v, s\<lparr>p2_hist := h\<rparr>))"

definition p_out :: "u16 \<Rightarrow> u8 \<Rightarrow> ps2 \<Rightarrow> ps2" where
  "p_out p v s = s\<lparr>p2_hist := out8 p v (p2_hist s)\<rparr>"

definition p_say :: "string \<Rightarrow> ps2 \<Rightarrow> ps2" where
  "p_say t s = s\<lparr>p2_out := p2_out s @ t\<rparr>"

definition p_line :: "string \<Rightarrow> u8 \<Rightarrow> ps2 \<Rightarrow> ps2" where
  "p_line label v = p_say (label @ hex_str (ucast v) @ [CHR 0x0A])"

definition PS2_TRIES :: nat where "PS2_TRIES = 100000"

fun flush_loop :: "drive \<Rightarrow> nat \<Rightarrow> ps2 \<Rightarrow> ps2" where
  "flush_loop dev 0 s = s"
| "flush_loop dev (Suc n) s =
     (let (st, s1) = p_in dev 0x64 s in
      if st AND 0x01 \<noteq> 0 then (let (b, s2) = p_in dev 0x60 s1 in flush_loop dev n (p_line ''[PS2] flush='' b s2)) else s1)"

definition ps2_flush :: "drive \<Rightarrow> ps2 \<Rightarrow> ps2" where
  "ps2_flush dev = flush_loop dev 16"

function ibuf_loop :: "drive \<Rightarrow> nat \<Rightarrow> ps2 \<Rightarrow> ps2" where
  "ibuf_loop dev t s =
     (let (st, s1) = p_in dev 0x64 s in
      if st AND 0x02 = 0 then s1
      else if t + 1 > PS2_TRIES then p_say (''[PS2] ibuf timeout'' @ [CHR 0x0A]) s1 else ibuf_loop dev (t + 1) s1)"
  by pat_completeness auto
termination
  by (relation "measure (\<lambda>(dev, t, s). PS2_TRIES + 1 - t)") auto

function obuf_loop :: "drive \<Rightarrow> nat \<Rightarrow> ps2 \<Rightarrow> bool \<times> ps2" where
  "obuf_loop dev t s =
     (let (st, s1) = p_in dev 0x64 s in
      if st AND 0x01 \<noteq> 0 then (True, s1) else if t + 1 > PS2_TRIES then (False, s1) else obuf_loop dev (t + 1) s1)"
  by pat_completeness auto
termination
  by (relation "measure (\<lambda>(dev, t, s). PS2_TRIES + 1 - t)") auto

declare ibuf_loop.simps [simp del] obuf_loop.simps [simp del]

definition ps2_wait_ibuf :: "drive \<Rightarrow> ps2 \<Rightarrow> ps2" where
  "ps2_wait_ibuf dev = ibuf_loop dev 0"

definition ps2_wait_obuf :: "drive \<Rightarrow> ps2 \<Rightarrow> bool \<times> ps2" where
  "ps2_wait_obuf dev = obuf_loop dev 0"

section \<open>Commands\<close>

fun ack_loop :: "drive \<Rightarrow> nat list \<Rightarrow> ps2 \<Rightarrow> bool \<times> ps2" where
  "ack_loop dev [] s = (False, s)"
| "ack_loop dev (i # is) s =
     (case ps2_wait_obuf dev s of (ok, s1) \<Rightarrow>
      if \<not> ok then (False, p_say (''[PS2] cmd_timeout i='' @ hex_str (of_nat i) @ [CHR 0x0A]) s1)
      else case p_in dev 0x60 s1 of (r, s2) \<Rightarrow>
        let s3 = p_line (''[PS2] cmd_resp['' @ hex_str (of_nat i) @ '']='') r s2 in
        if r = 0xFA then (True, s3) else if r = 0xFE then (False, s3) else ack_loop dev is s3)"

definition kbd_cmd :: "drive \<Rightarrow> u8 \<Rightarrow> nat \<Rightarrow> ps2 \<Rightarrow> bool \<times> ps2" where
  "kbd_cmd dev cmd n s = ack_loop dev [0..<n] (p_out 0x60 cmd (ps2_wait_ibuf dev (p_line ''[PS2] kbd_cmd='' cmd s)))"

fun reset_loop :: "drive \<Rightarrow> nat list \<Rightarrow> bool \<Rightarrow> ps2 \<Rightarrow> bool \<times> ps2" where
  "reset_loop dev [] bat s = (bat, s)"
| "reset_loop dev (i # is) bat s =
     (case ps2_wait_obuf dev s of (ok, s1) \<Rightarrow>
      if \<not> ok then (bat, s1)
      else case p_in dev 0x60 s1 of (r, s2) \<Rightarrow>
        reset_loop dev is (if r = 0xAA then True else bat) (p_line (''[PS2] reset['' @ hex_str (of_nat i) @ '']='') r s2))"

text \<open>\<open>ps2_wait_ibuf(); outb(port, v)\<close>.\<close>

definition p_send :: "drive \<Rightarrow> u16 \<Rightarrow> u8 \<Rightarrow> ps2 \<Rightarrow> ps2" where
  "p_send dev p v s = p_out p v (ps2_wait_ibuf dev s)"

definition init_ps2 :: "drive \<Rightarrow> ps2 \<Rightarrow> ps2" where
  "init_ps2 dev s0 =
     (case p_in dev 0x64 (p_say (''[PS2] === init ==='' @ [CHR 0x0A]) s0) of (st, s1) \<Rightarrow>
      let s2 = p_line ''[PS2] status='' st s1 in
      if st = 0xFF then p_say (''[PS2] brak kontrolera'' @ [CHR 0x0A]) s2
      else case p_in dev 0x21 s2 of (pic_mask, s3) \<Rightarrow>
      let s4 = p_send dev 0x64 0x20 (ps2_flush dev (p_send dev 0x64 0xA7 (p_send dev 0x64 0xAD (p_out 0x21 (pic_mask OR 0x02) s3)))) in
      case ps2_wait_obuf dev s4 of (ok, s5) \<Rightarrow>
      case if ok then p_in dev 0x60 s5 else (0, s5) of (cfg_orig, s6) \<Rightarrow>
      let cfg_new = (cfg_orig OR 0x41) AND NOT 0x02;
          s7 = p_line ''[PS2] cfg_new='' cfg_new (p_line ''[PS2] cfg_orig='' cfg_orig s6);
          s8 = p_send dev 0x60 0xFF (p_send dev 0x64 0xAE (p_send dev 0x60 cfg_new (p_send dev 0x64 0x60 s7))) in
      case reset_loop dev [0..<4] False s8 of (got_bat, s9) \<Rightarrow>
      let s10 = ps2_flush dev (p_say ((if got_bat then ''[PS2] BAT OK'' else ''[PS2] BAT missing'') @ [CHR 0x0A]) s9) in
      case kbd_cmd dev 0xF4 3 s10 of (ack, s11) \<Rightarrow>
      let s12 = ps2_flush dev (p_say ((if ack then ''[PS2] scanning ON'' else ''[PS2] scanning FAIL'') @ [CHR 0x0A]) s11) in
      case p_in dev 0x21 s12 of (irqs, s13) \<Rightarrow>
        p_say (''[PS2] === init done ==='' @ [CHR 0x0A]) (p_out 0x21 (irqs AND NOT 0x02) s13))"

section \<open>What the controllers are sent\<close>

fun outs :: "hist \<Rightarrow> (u16 \<times> u8) list" where
  "outs [] = []"
| "outs (Out8 p v # h) = (p, v) # outs h"
| "outs (_ # h) = outs h"

abbreviation sent :: "ps2 \<Rightarrow> (u16 \<times> u8) list" where "sent s \<equiv> outs (p2_hist s)"

lemma outs_append [simp]: "outs (a @ b) = outs a @ outs b"
  by (induction a rule: outs.induct) simp_all

lemma sent_simps [simp]:
  "sent (snd (p_in dev p s)) = sent s" "sent (p_out p v s) = sent s @ [(p, v)]" "sent (p_say t s) = sent s" "sent (p_line l v s) = sent s"
  by (simp_all add: p_in_def in8_def p_out_def out8_def p_say_def p_line_def Let_def)

lemma sent_in: "p_in dev p s = (v, s') \<Longrightarrow> sent s' = sent s"
  using sent_simps(1) [of dev p s] by simp

lemma sent_flush: "sent (flush_loop dev n s) = sent s"
  by (induction n arbitrary: s) (simp_all add: Let_def split: prod.split, metis sent_in)

lemma sent_ibuf: "sent (ibuf_loop dev t s) = sent s"
proof (induction dev t s rule: ibuf_loop.induct)
  case (1 dev t s)
  show ?case
    by (subst ibuf_loop.simps) (use 1 in \<open>auto simp: sent_in split: prod.split\<close>)
qed

lemma sent_obuf: "sent (snd (obuf_loop dev t s)) = sent s"
proof (induction dev t s rule: obuf_loop.induct)
  case (1 dev t s)
  show ?case
    by (subst obuf_loop.simps) (use 1 in \<open>auto simp: sent_in split: prod.split\<close>)
qed

lemma sent_wait [simp]:
  "sent (ps2_flush dev s) = sent s" "sent (ps2_wait_ibuf dev s) = sent s" "sent (snd (ps2_wait_obuf dev s)) = sent s"
  "sent (p_send dev p v s) = sent s @ [(p, v)]"
  by (simp_all add: ps2_flush_def ps2_wait_ibuf_def ps2_wait_obuf_def p_send_def sent_flush sent_ibuf sent_obuf)

lemma sent_wait_obuf: "ps2_wait_obuf dev s = (ok, s') \<Longrightarrow> sent s' = sent s"
  using sent_wait(3) [of dev s] by simp

lemma sent_ack: "ack_loop dev is s = (ok, s') \<Longrightarrow> sent s' = sent s"
  by (induction "is" arbitrary: s) (auto simp: Let_def dest!: sent_wait_obuf sent_in split: prod.splits if_splits)

lemma sent_reset: "reset_loop dev is bat s = (b, s') \<Longrightarrow> sent s' = sent s"
proof (induction "is" arbitrary: s bat)
  case Nil
  then show ?case by simp
next
  case (Cons i js)
  obtain ok s1 where w: "ps2_wait_obuf dev s = (ok, s1)" by fastforce
  obtain r s2 where r: "p_in dev 0x60 s1 = (r, s2)" by fastforce
  have e: "sent s1 = sent s" "sent s2 = sent s" using sent_wait_obuf [OF w] sent_in [OF r] by simp_all
  show ?case
  proof (cases ok)
    case True
    with Cons.prems w r have "reset_loop dev js (if r = 0xAA then True else bat) (p_line (''[PS2] reset['' @ hex_str (of_nat i) @ '']='') r s2) = (b, s')"
      by simp
    from Cons.IH [OF this] show ?thesis using e by simp
  qed (use Cons.prems w e in auto)
qed

text \<open>
  C39: whatever the controller answers, and even if it never does, the set-up ends; a controller that is there is sent the same
  commands in the same order: the keyboard line is masked meanwhile, both ports are disabled, the configuration is read and written
  back with the keyboard interrupt and the translation to the first set of scan codes on and the mouse interrupt off, the keyboard port
  is enabled, and the keyboard is reset and told to scan; the last write unmasks the keyboard line. A missing one is sent nothing.
\<close>

theorem keyboard_set_up:
  "(ucast (dev (p2_hist s) 0x64) = (0xFF :: u8) \<longrightarrow> sent (init_ps2 dev s) = sent s) \<and>
   (ucast (dev (p2_hist s) 0x64) \<noteq> (0xFF :: u8) \<longrightarrow>
     (\<exists>im cfg im'. sent (init_ps2 dev s) = sent s @
       [(0x21, im OR 0x02), (0x64, 0xAD), (0x64, 0xA7), (0x64, 0x20), (0x64, 0x60), (0x60, (cfg OR 0x41) AND NOT 0x02),
        (0x64, 0xAE), (0x60, 0xFF), (0x60, 0xF4), (0x21, im' AND NOT 0x02)]))"
proof -
  obtain st s1 where i1: "p_in dev 0x64 (p_say (''[PS2] === init ==='' @ [CHR 0x0A]) s) = (st, s1)" by fastforce
  have st: "st = ucast (dev (p2_hist s) 0x64)" using i1 by (simp add: p_in_def in8_def p_say_def Let_def)
  have e1: "sent s1 = sent s" using sent_in [OF i1] by simp
  show ?thesis
  proof (cases "st = 0xFF")
    case True
    then show ?thesis using i1 e1 st by (simp add: init_ps2_def Let_def)
  next
    case False
    obtain m s3 where i2: "p_in dev 0x21 (p_line ''[PS2] status='' st s1) = (m, s3)" by fastforce
    define s4 where "s4 = p_send dev 0x64 0x20 (ps2_flush dev (p_send dev 0x64 0xA7 (p_send dev 0x64 0xAD (p_out 0x21 (m OR 0x02) s3))))"
    have e4: "sent s4 = sent s @ [(0x21, m OR 0x02), (0x64, 0xAD), (0x64, 0xA7), (0x64, 0x20)]" using sent_in [OF i2] e1 by (simp add: s4_def)
    obtain ok s5 where i5: "ps2_wait_obuf dev s4 = (ok, s5)" by fastforce
    obtain cfg s6 where i6: "(if ok then p_in dev 0x60 s5 else (0, s5)) = (cfg, s6)" by fastforce
    have e6: "sent s6 = sent s4" using sent_wait_obuf [OF i5] i6 by (auto split: if_splits dest: sent_in)
    define s8 where "s8 = p_send dev 0x60 0xFF (p_send dev 0x64 0xAE (p_send dev 0x60 ((cfg OR 0x41) AND NOT 0x02) (p_send dev 0x64 0x60
      (p_line ''[PS2] cfg_new='' ((cfg OR 0x41) AND NOT 0x02) (p_line ''[PS2] cfg_orig='' cfg s6)))))"
    have e8: "sent s8 = sent s4 @ [(0x64, 0x60), (0x60, (cfg OR 0x41) AND NOT 0x02), (0x64, 0xAE), (0x60, 0xFF)]" by (simp add: s8_def e6)
    obtain bat s9 where i9: "reset_loop dev [0..<4] False s8 = (bat, s9)" by fastforce
    define s10 where "s10 = ps2_flush dev (p_say ((if bat then ''[PS2] BAT OK'' else ''[PS2] BAT missing'') @ [CHR 0x0A]) s9)"
    obtain ack s11 where i11: "kbd_cmd dev 0xF4 3 s10 = (ack, s11)" by fastforce
    have e11: "sent s11 = sent s8 @ [(0x60, 0xF4)]"
      using sent_ack [OF i11 [unfolded kbd_cmd_def]] sent_reset [OF i9] by (simp add: s10_def)
    define s12 where "s12 = ps2_flush dev (p_say ((if ack then ''[PS2] scanning ON'' else ''[PS2] scanning FAIL'') @ [CHR 0x0A]) s11)"
    obtain m' s13 where i13: "p_in dev 0x21 s12 = (m', s13)" by fastforce
    have "init_ps2 dev s = p_say (''[PS2] === init done ==='' @ [CHR 0x0A]) (p_out 0x21 (m' AND NOT 0x02) s13)"
      unfolding init_ps2_def i1 Let_def prod.case s4_def [symmetric] i2 i5 i6 s8_def [symmetric] i9 s10_def [symmetric] i11 s12_def [symmetric] i13
      using False by simp
    then have "sent (init_ps2 dev s) = sent s @ [(0x21, m OR 0x02), (0x64, 0xAD), (0x64, 0xA7), (0x64, 0x20), (0x64, 0x60),
        (0x60, (cfg OR 0x41) AND NOT 0x02), (0x64, 0xAE), (0x60, 0xFF), (0x60, 0xF4), (0x21, m' AND NOT 0x02)]"
      using sent_in [OF i13] e11 e8 e4 by (simp add: s12_def)
    then show ?thesis using False st by (intro conjI impI) auto
  qed
qed

theorem keyboard_set_up_witness:
  "(\<exists>im cfg im'. sent (init_ps2 (\<lambda>_ _. 0) \<lparr>p2_hist = [], p2_out = ''''\<rparr>) =
      [(0x21, im OR 0x02), (0x64, 0xAD), (0x64, 0xA7), (0x64, 0x20), (0x64, 0x60), (0x60, (cfg OR 0x41) AND NOT 0x02),
       (0x64, 0xAE), (0x60, 0xFF), (0x60, 0xF4), (0x21, im' AND NOT 0x02)]) \<and>
   sent (init_ps2 (\<lambda>_ _. 0xFF) \<lparr>p2_hist = [], p2_out = ''''\<rparr>) = []"
  using keyboard_set_up [of "\<lambda>_ _. 0" "\<lparr>p2_hist = [], p2_out = ''''\<rparr>"] keyboard_set_up [of "\<lambda>_ _. 0xFF" "\<lparr>p2_hist = [], p2_out = ''''\<rparr>"]
  by simp

end
