(* ===== verification/Pci.thy ===== *)
theory Pci
  imports Vmm
begin

text \<open>
  The search for devices on the PCI bus (\<^verbatim>\<open>usb/mod.rs\<close>; \<^verbatim>\<open>display/mod.rs\<close> has its own copy of the accessors), the choice of the
  USB controller and of the graphics chip, and the polling of USB. The bus is a parameter: it answers as a function of the 32-bit accesses
  to the ports before. The controllers' own drivers are parameters of \<open>usb_init\<close>, and \<open>usb_poll\<close> says which of their routines it calls.
\<close>

section \<open>Configuration space\<close>

datatype bus_event = In32 u16 u32 | Out32 u16 u32

type_synonym bus_hist = "bus_event list"
type_synonym pci_bus = "bus_hist \<Rightarrow> u16 \<Rightarrow> u32"

definition PCI_ADDR :: u16 where "PCI_ADDR = 0xCF8"
definition PCI_DATA :: u16 where "PCI_DATA = 0xCFC"

definition pci_addr :: "u8 \<Rightarrow> u8 \<Rightarrow> u8 \<Rightarrow> u8 \<Rightarrow> u32" where
  "pci_addr bus dev fun off =
     0x80000000 OR push_bit 16 (ucast bus) OR push_bit 11 (ucast dev) OR push_bit 8 (ucast fun) OR (ucast off AND 0xFC)"

definition pci_r32 :: "pci_bus \<Rightarrow> u8 \<Rightarrow> u8 \<Rightarrow> u8 \<Rightarrow> u8 \<Rightarrow> bus_hist \<Rightarrow> u32 \<times> bus_hist" where
  "pci_r32 io bus dev fun off h =
     (let h1 = h @ [Out32 PCI_ADDR (pci_addr bus dev fun off)]; v = io h1 PCI_DATA in (v, h1 @ [In32 PCI_DATA v]))"

definition pci_w32 :: "u8 \<Rightarrow> u8 \<Rightarrow> u8 \<Rightarrow> u8 \<Rightarrow> u32 \<Rightarrow> bus_hist \<Rightarrow> bus_hist" where
  "pci_w32 bus dev fun off v h = h @ [Out32 PCI_ADDR (pci_addr bus dev fun off), Out32 PCI_DATA v]"

definition pci_r8 :: "pci_bus \<Rightarrow> u8 \<Rightarrow> u8 \<Rightarrow> u8 \<Rightarrow> u8 \<Rightarrow> bus_hist \<Rightarrow> u8 \<times> bus_hist" where
  "pci_r8 io b d f off h = (case pci_r32 io b d f (off AND NOT 3) h of (v, h1) \<Rightarrow> (ucast (drop_bit (unat (off AND 3) * 8) v), h1))"

definition pci_r16 :: "pci_bus \<Rightarrow> u8 \<Rightarrow> u8 \<Rightarrow> u8 \<Rightarrow> u8 \<Rightarrow> bus_hist \<Rightarrow> u16 \<times> bus_hist" where
  "pci_r16 io b d f off h = (case pci_r32 io b d f (off AND NOT 3) h of (v, h1) \<Rightarrow> (ucast (drop_bit (unat (off AND 2) * 8) v), h1))"

record pci =
  px_bus :: u8
  px_dev :: u8
  px_fun :: u8
  px_vendor :: u16
  px_device :: u16
  px_class :: u8
  px_sub :: u8
  px_prog :: u8

text \<open>The device at a place, from the words at offsets 0 and 8.\<close>

definition no_device :: "u32 \<Rightarrow> bool" where
  "no_device i \<longleftrightarrow> i = 0xFFFFFFFF \<or> (ucast i :: u16) = 0xFFFF"

definition pci_of :: "u8 \<Rightarrow> u8 \<Rightarrow> u8 \<Rightarrow> u32 \<Rightarrow> u32 \<Rightarrow> pci" where
  "pci_of bus dev fun i cls = \<lparr>px_bus = bus, px_dev = dev, px_fun = fun, px_vendor = ucast i, px_device = ucast (drop_bit 16 i),
     px_class = ucast (drop_bit 24 cls), px_sub = ucast (drop_bit 16 cls), px_prog = ucast (drop_bit 8 cls)\<rparr>"

definition probe :: "pci_bus \<Rightarrow> u8 \<Rightarrow> u8 \<Rightarrow> u8 \<Rightarrow> bus_hist \<Rightarrow> pci option \<times> bus_hist" where
  "probe io bus dev fun h =
     (case pci_r32 io bus dev fun 0 h of (i, h1) \<Rightarrow>
      if no_device i then (None, h1)
      else case pci_r32 io bus dev fun 8 h1 of (cls, h2) \<Rightarrow> (Some (pci_of bus dev fun i cls), h2))"

text \<open>The address in a base register: 32 or 64 bits wide; none for a port range or an address of 0.\<close>

definition bar :: "pci_bus \<Rightarrow> pci \<Rightarrow> nat \<Rightarrow> bus_hist \<Rightarrow> u64 option \<times> bus_hist" where
  "bar io p n h =
     (let off = of_nat (0x10 + n * 4) in
      case pci_r32 io (px_bus p) (px_dev p) (px_fun p) off h of (lo, h1) \<Rightarrow>
      if lo AND 1 \<noteq> 0 then (None, h1)
      else case (if drop_bit 1 lo AND 3 = 2
                 then (case pci_r32 io (px_bus p) (px_dev p) (px_fun p) (off + 4) h1 of (hi, h2) \<Rightarrow>
                        (push_bit 32 (ucast hi) OR (ucast lo AND NOT 0xF), h2))
                 else (ucast lo AND NOT 0xF, h1)) of (a, h2) \<Rightarrow>
        (if a = 0 then None else Some a, h2))"

definition enable :: "pci_bus \<Rightarrow> pci \<Rightarrow> bus_hist \<Rightarrow> bus_hist" where
  "enable io p h = (case pci_r16 io (px_bus p) (px_dev p) (px_fun p) 4 h of (cmd, h1) \<Rightarrow>
     pci_w32 (px_bus p) (px_dev p) (px_fun p) 4 (ucast cmd OR 0x06) h1)"

section \<open>The scan\<close>

text \<open>A loop that returns at the first hit.\<close>

fun first_hit :: "('a \<Rightarrow> 's \<Rightarrow> 'b option \<times> 's) \<Rightarrow> 'a list \<Rightarrow> 's \<Rightarrow> 'b option \<times> 's" where
  "first_hit step [] s = (None, s)"
| "first_hit step (a # as) s = (case step a s of (Some b, s1) \<Rightarrow> (Some b, s1) | (None, s1) \<Rightarrow> first_hit step as s1)"

text \<open>The functions of a device that are looked at: all eight when the header type of the first has its top bit set.\<close>

definition fun_count :: "u8 \<Rightarrow> nat" where
  "fun_count ht = (if ht AND 0x80 \<noteq> 0 then 8 else 1)"

definition scan_bus :: "pci_bus \<Rightarrow> (u8 \<Rightarrow> u8 \<Rightarrow> u8 \<Rightarrow> bus_hist \<Rightarrow> 'b option \<times> bus_hist) \<Rightarrow> bus_hist \<Rightarrow> 'b option \<times> bus_hist" where
  "scan_bus io visit h =
     first_hit (\<lambda>b. first_hit (\<lambda>d h. case pci_r8 io (of_nat b) (of_nat d) 0 0x0E h of (ht, h1) \<Rightarrow>
       first_hit (\<lambda>f. visit (of_nat b) (of_nat d) (of_nat f)) [0..<fun_count ht] h1) [0..<32]) [0..<256] h"

definition class_visit :: "pci_bus \<Rightarrow> u8 \<Rightarrow> u8 \<Rightarrow> u8 \<Rightarrow> u8 \<Rightarrow> u8 \<Rightarrow> u8 \<Rightarrow> bus_hist \<Rightarrow> pci option \<times> bus_hist" where
  "class_visit io cls sub prog b d f h =
     (case probe io b d f h of
        (Some p, h1) \<Rightarrow> (if px_class p = cls \<and> px_sub p = sub \<and> px_prog p = prog then Some p else None, h1)
      | (None, h1) \<Rightarrow> (None, h1))"

definition pci_find :: "pci_bus \<Rightarrow> u8 \<Rightarrow> u8 \<Rightarrow> u8 \<Rightarrow> bus_hist \<Rightarrow> pci option \<times> bus_hist" where
  "pci_find io cls sub prog = scan_bus io (class_visit io cls sub prog)"

section \<open>Graphics chips\<close>

definition AMD_VENDOR :: u16 where "AMD_VENDOR = 0x1002"
definition INTEL_VENDOR :: u16 where "INTEL_VENDOR = 0x8086"

datatype dcn_gen = Dcn2 | Dcn3
datatype intel_gen = Gen9 | Gen11 | Gen12

definition dcn_gen_from_did :: "u16 \<Rightarrow> dcn_gen option" where
  "dcn_gen_from_did did =
     (if 0x7310 \<le> did \<and> did \<le> 0x731F \<or> 0x7340 \<le> did \<and> did \<le> 0x7347 \<or> did \<in> {0x1636, 0x1638, 0x164C, 0x163F} then Some Dcn2
      else if did \<in> {0x73BF, 0x73A5, 0x73DF, 0x73FF, 0x73E3} \<or> 0x7422 \<le> did \<and> did \<le> 0x7423 \<or>
              did \<in> {0x1681, 0x164D, 0x164E, 0x15BF, 0x15C8, 0x15D8} \<or> 0x1900 \<le> did \<and> did \<le> 0x190F then Some Dcn3
      else None)"

definition intel_gen_from_did :: "u16 \<Rightarrow> intel_gen option" where
  "intel_gen_from_did did =
     (if did \<in> {0x1902, 0x1906, 0x190A, 0x190B, 0x190E, 0x1912, 0x1916, 0x191A, 0x191B, 0x191D, 0x191E, 0x1921, 0x1923, 0x1926, 0x1927,
                0x192B, 0x192D, 0x5902, 0x5906, 0x590A, 0x5908, 0x590B, 0x590E, 0x5912, 0x5916, 0x591A, 0x591B, 0x591D, 0x591E,
                0x5921, 0x5923, 0x5926, 0x5927} \<or> 0x3E90 \<le> did \<and> did \<le> 0x3EFF \<or>
         did \<in> {0x9B21, 0x9B41, 0x9BA0, 0x9BA2, 0x9BA4, 0x9BA8, 0x9BC0, 0x9BC2, 0x9BC4, 0x9BC8, 0x9BCA} then Some Gen9
      else if 0x8A50 \<le> did \<and> did \<le> 0x8A5F then Some Gen11
      else if did \<in> {0x9A40, 0x9A49, 0x9A60, 0x9A68, 0x9A70, 0x9A78, 0x4680, 0x4682, 0x4688, 0x468A, 0x4690, 0x4692, 0x4693,
                0xA720, 0xA721, 0xA780, 0xA781, 0xA782, 0xA783, 0xA788, 0xA789} then Some Gen12
      else None)"

record gpu_pci =
  gp_bus :: u8
  gp_dev :: u8
  gp_fun :: u8
  gp_vendor :: u16
  gp_device :: u16

datatype gpu_kind = Amd gpu_pci dcn_gen | Intel gpu_pci intel_gen

definition gpu_of :: "u8 \<Rightarrow> u8 \<Rightarrow> u8 \<Rightarrow> u32 \<Rightarrow> u32 \<Rightarrow> gpu_kind option" where
  "gpu_of b d f i cls =
     (let vendor = ucast i; device = ucast (drop_bit 16 i);
          g = \<lparr>gp_bus = b, gp_dev = d, gp_fun = f, gp_vendor = vendor, gp_device = device\<rparr> in
      if ucast (drop_bit 24 cls) \<noteq> (0x03 :: u8) then None
      else if vendor = AMD_VENDOR \<and> dcn_gen_from_did device \<noteq> None then map_option (Amd g) (dcn_gen_from_did device)
      else if vendor = INTEL_VENDOR then map_option (Intel g) (intel_gen_from_did device)
      else None)"

definition gpu_visit :: "pci_bus \<Rightarrow> u8 \<Rightarrow> u8 \<Rightarrow> u8 \<Rightarrow> bus_hist \<Rightarrow> gpu_kind option \<times> bus_hist" where
  "gpu_visit io b d f h =
     (case pci_r32 io b d f 0 h of (i, h1) \<Rightarrow>
      if no_device i then (None, h1)
      else case pci_r32 io b d f 8 h1 of (cls, h2) \<Rightarrow> (gpu_of b d f i cls, h2))"

definition find_gpu :: "pci_bus \<Rightarrow> bus_hist \<Rightarrow> gpu_kind option \<times> bus_hist" where
  "find_gpu io = scan_bus io (gpu_visit io)"

section \<open>The USB subsystem\<close>

definition map_mmio :: "u64 \<Rightarrow> u64 \<Rightarrow> nat \<Rightarrow> pmm \<Rightarrow> pmm run" where
  "map_mmio k_p4 base pages m =
     fold (\<lambda>i r. bind_run r (\<lambda>m. let a = base + of_nat i * PAGE_SIZE in bind_run (vmap k_p4 a a PTE_W m) (\<lambda>(_, m1). Done m1))) [0..<pages] (Done m)"

definition zpage :: "pmm \<Rightarrow> (u64 \<times> pmm) run" where
  "zpage m = bind_run (mm_alloc m) (\<lambda>(p, m1). Done (p, zero_page p m1))"

text \<open>The register is read up to \<open>n\<close> times; \<open>rd\<close> gives the values.\<close>

fun spinwait :: "(nat \<Rightarrow> u32) \<Rightarrow> u32 \<Rightarrow> u32 \<Rightarrow> nat list \<Rightarrow> bool" where
  "spinwait rd msk want [] = False"
| "spinwait rd msk want (i # is) = (if rd i AND msk = want then True else spinwait rd msk want is)"

definition HOTPLUG_INTERVAL :: u64 where "HOTPLUG_INTERVAL = 50"

datatype usb_type = No_Usb | Xhci | Ehci

record usb =
  us_up :: bool
  us_type :: usb_type
  us_last :: u64

definition usb_new :: usb where
  "usb_new = \<lparr>us_up = False, us_type = No_Usb, us_last = 0\<rparr>"

text \<open>The routines of the drivers that are called.\<close>

datatype usb_action = Xhci_Poll | Ehci_Poll | Xhci_Hotplug | Ehci_Hotplug

fun poll_action :: "usb_type \<Rightarrow> usb_action list" where
  "poll_action No_Usb = []"
| "poll_action Xhci = [Xhci_Poll]"
| "poll_action Ehci = [Ehci_Poll]"

fun hotplug_action :: "usb_type \<Rightarrow> usb_action list" where
  "hotplug_action No_Usb = []"
| "hotplug_action Xhci = [Xhci_Hotplug]"
| "hotplug_action Ehci = [Ehci_Hotplug]"

definition hotplug_check :: "u64 \<Rightarrow> usb \<Rightarrow> usb_action list \<times> usb" where
  "hotplug_check tick u =
     (if tick - us_last u < HOTPLUG_INTERVAL then ([], u) else (hotplug_action (us_type u), u\<lparr>us_last := tick\<rparr>))"

definition usb_poll :: "u64 \<Rightarrow> usb \<Rightarrow> usb_action list \<times> usb" where
  "usb_poll tick u =
     (if \<not> us_up u then ([], u) else case hotplug_check tick u of (as, u1) \<Rightarrow> (poll_action (us_type u) @ as, u1))"

definition usb_ok :: "usb \<Rightarrow> bool" where "usb_ok u = us_up u"

text \<open>With the initialisation of the three kinds of controllers, and the lines on the serial port.\<close>

definition usb_try ::
    "pci_bus \<Rightarrow> u8 \<Rightarrow> (pci \<Rightarrow> bus_hist \<Rightarrow> bool \<times> bus_hist) \<Rightarrow> string \<Rightarrow> string \<Rightarrow> bus_hist \<times> string \<Rightarrow> bool \<times> bus_hist \<times> string" where
  "usb_try io prog start name failed s =
     (case pci_find io 0x0C 0x03 prog (fst s) of
        (None, h) \<Rightarrow> (False, h, snd s)
      | (Some p, h) \<Rightarrow> (case start p h of (ok, h1) \<Rightarrow>
          (ok, h1, snd s @ ''[USB] '' @ name @ '' znaleziony'' @ [CHR 0x0A] @ (if ok then ''[USB] '' @ name @ '' OK'' @ [CHR 0x0A] else failed))))"

definition usb_init ::
    "pci_bus \<Rightarrow> (pci \<Rightarrow> bus_hist \<Rightarrow> bool \<times> bus_hist) \<Rightarrow> (pci \<Rightarrow> bus_hist \<Rightarrow> bool \<times> bus_hist) \<Rightarrow> (pci \<Rightarrow> bus_hist \<Rightarrow> bool \<times> bus_hist) \<Rightarrow>
     usb \<Rightarrow> bus_hist \<times> string \<Rightarrow> bool \<times> usb \<times> bus_hist \<times> string" where
  "usb_init io xhci_init ehci_init ohci_init u s =
     (case usb_try io 0x30 xhci_init ''XHCI'' (''[USB] XHCI init fail, pr'' @ [CHR 0xF3] @ ''ba EHCI'' @ [CHR 0x0A]) s of (ok, s1) \<Rightarrow>
      if ok then (True, u\<lparr>us_type := Xhci, us_up := True\<rparr>, s1)
      else case usb_try io 0x20 ehci_init ''EHCI'' '''' s1 of (ok, s2) \<Rightarrow>
      if ok then (True, u\<lparr>us_type := Ehci, us_up := True\<rparr>, s2)
      else case usb_try io 0x10 ohci_init ''OHCI'' '''' s2 of (ok, s3) \<Rightarrow>
      if ok then (True, u\<lparr>us_type := Ehci, us_up := True\<rparr>, s3)
      else (False, u, fst s3, snd s3 @ ''[USB] brak kontrolera'' @ [CHR 0x0A]))"

section \<open>What a search finds\<close>

text \<open>
  A configuration space: the data port reads the register that the address port selects, as long as nothing has been written to the
  data port (the configuration mechanism of the PCI specification).
\<close>

definition reads_only :: "bus_hist \<Rightarrow> bool" where
  "reads_only h \<longleftrightarrow> (\<forall>v. Out32 PCI_DATA v \<notin> set h)"

definition config_space :: "pci_bus \<Rightarrow> (u32 \<Rightarrow> u32) \<Rightarrow> bool" where
  "config_space io cfg \<longleftrightarrow> (\<forall>h a. reads_only h \<longrightarrow> io (h @ [Out32 PCI_ADDR a]) PCI_DATA = cfg a)"

lemma pci_r32_reads:
  assumes "config_space io cfg" "reads_only h"
  shows "\<exists>h'. pci_r32 io b d f off h = (cfg (pci_addr b d f off), h') \<and> reads_only h'"
  using assms by (auto simp: pci_r32_def Let_def config_space_def reads_only_def PCI_ADDR_def PCI_DATA_def)

fun first_some :: "('a \<Rightarrow> 'b option) \<Rightarrow> 'a list \<Rightarrow> 'b option" where
  "first_some r [] = None"
| "first_some r (a # as) = (case r a of None \<Rightarrow> first_some r as | Some b \<Rightarrow> Some b)"

lemma first_some_append: "first_some r (as @ bs) = (case first_some r as of None \<Rightarrow> first_some r bs | Some b \<Rightarrow> Some b)"
  by (induction as) (auto split: option.split)

lemma first_some_concat: "first_some r (concat xss) = first_some (first_some r) xss"
  by (induction xss) (auto simp: first_some_append split: option.split)

lemma first_some_map: "first_some r (map g xs) = first_some (\<lambda>x. r (g x)) xs"
  by (induction xs) (auto split: option.split)

lemma first_some_None: "first_some r xs = None \<longleftrightarrow> (\<forall>x \<in> set xs. r x = None)"
  by (induction xs) (auto split: option.split)

lemma first_some_Some: "first_some r xs = Some y \<Longrightarrow> \<exists>k < length xs. r (xs ! k) = Some y \<and> (\<forall>j < k. r (xs ! j) = None)"
proof (induction xs)
  case Nil
  then show ?case by simp
next
  case (Cons x xs)
  show ?case
  proof (cases "r x")
    case None
    with Cons obtain k where "k < length xs" "r (xs ! k) = Some y" "\<forall>j < k. r (xs ! j) = None" by auto
    with None show ?thesis by (intro exI [of _ "Suc k"]) (auto simp: less_Suc_eq_0_disj)
  next
    case (Some b)
    with Cons.prems show ?thesis by (intro exI [of _ 0]) simp
  qed
qed

text \<open>A loop whose iterations have results that do not depend on the state.\<close>

lemma first_hit_some:
  assumes "\<And>a s. a \<in> set as \<Longrightarrow> P s \<Longrightarrow> \<exists>s'. step a s = (r a, s') \<and> P s'" "P s"
  shows "\<exists>s'. first_hit step as s = (first_some r as, s') \<and> P s'"
  using assms
proof (induction as arbitrary: s)
  case Nil
  then show ?case by simp
next
  case (Cons a as)
  from Cons.prems(1) [of a s] Cons.prems(2) obtain s1 where s1: "step a s = (r a, s1)" "P s1" by auto
  from Cons.IH [OF _ s1(2)] Cons.prems(1) obtain s2 where "first_hit step as s1 = (first_some r as, s2)" "P s2" by auto
  then show ?case using s1 by (cases "r a") auto
qed

text \<open>The places that are looked at, in order.\<close>

definition header_type :: "(u32 \<Rightarrow> u32) \<Rightarrow> nat \<Rightarrow> nat \<Rightarrow> u8" where
  "header_type cfg b d = ucast (drop_bit 16 (cfg (pci_addr (of_nat b) (of_nat d) 0 0x0C)))"

definition places :: "(u32 \<Rightarrow> u32) \<Rightarrow> (nat \<times> nat \<times> nat) list" where
  "places cfg = concat (map (\<lambda>b. concat (map (\<lambda>d. map (\<lambda>f. (b, d, f)) [0..<fun_count (header_type cfg b d)]) [0..<32])) [0..<256])"

lemma scan_bus_first:
  assumes c: "config_space io cfg" and h: "reads_only h"
    and v: "\<And>b d f h. reads_only h \<Longrightarrow> \<exists>h'. visit (of_nat b) (of_nat d) (of_nat f) h = (r (b, d, f), h') \<and> reads_only h'"
  shows "\<exists>h'. scan_bus io visit h = (first_some r (places cfg), h') \<and> reads_only h'"
proof -
  have r8: "\<exists>h'. pci_r8 io (of_nat b) (of_nat d) 0 0x0E h = (header_type cfg b d, h') \<and> reads_only h'" if "reads_only h" for b d h
    using pci_r32_reads [OF c that, of "of_nat b" "of_nat d" 0 "0x0C"] by (auto simp: pci_r8_def header_type_def)
  have dev: "\<exists>h'. (case pci_r8 io (of_nat b) (of_nat d) 0 0x0E h of (ht, h1) \<Rightarrow>
       first_hit (\<lambda>f. visit (of_nat b) (of_nat d) (of_nat f)) [0..<fun_count ht] h1) =
       (first_some (\<lambda>f. r (b, d, f)) [0..<fun_count (header_type cfg b d)], h') \<and> reads_only h'" if "reads_only h" for b d h
  proof -
    from r8 [OF that, of b d] obtain h1 where "pci_r8 io (of_nat b) (of_nat d) 0 0x0E h = (header_type cfg b d, h1)" "reads_only h1" by blast
    then show ?thesis
      using first_hit_some [where P = reads_only and step = "\<lambda>f. visit (of_nat b) (of_nat d) (of_nat f)" and r = "\<lambda>f. r (b, d, f)",
        OF v] by (simp del: upt_rec_numeral)
  qed
  have bus: "\<exists>h'. first_hit (\<lambda>d h. case pci_r8 io (of_nat b) (of_nat d) 0 0x0E h of (ht, h1) \<Rightarrow>
       first_hit (\<lambda>f. visit (of_nat b) (of_nat d) (of_nat f)) [0..<fun_count ht] h1) [0..<32] h =
     (first_some (\<lambda>d. first_some (\<lambda>f. r (b, d, f)) [0..<fun_count (header_type cfg b d)]) [0..<32], h') \<and> reads_only h'" if "reads_only h" for b h
    by (rule first_hit_some [where P = reads_only, OF dev that])
  have all: "\<exists>h'. scan_bus io visit h =
     (first_some (\<lambda>b. first_some (\<lambda>d. first_some (\<lambda>f. r (b, d, f)) [0..<fun_count (header_type cfg b d)]) [0..<32]) [0..<256], h') \<and> reads_only h'"
    unfolding scan_bus_def by (rule first_hit_some [where P = reads_only, OF bus h])
  have "first_some r (places cfg) =
     first_some (\<lambda>b. first_some (\<lambda>d. first_some (\<lambda>f. r (b, d, f)) [0..<fun_count (header_type cfg b d)]) [0..<32]) [0..<256]"
    unfolding places_def by (simp only: first_some_concat first_some_map)
  with all show ?thesis by simp
qed

text \<open>The device and the graphics chip at a place.\<close>

definition dev_at :: "(u32 \<Rightarrow> u32) \<Rightarrow> nat \<times> nat \<times> nat \<Rightarrow> pci option" where
  "dev_at cfg = (\<lambda>(b, d, f). let i = cfg (pci_addr (of_nat b) (of_nat d) (of_nat f) 0) in
     if no_device i then None else Some (pci_of (of_nat b) (of_nat d) (of_nat f) i (cfg (pci_addr (of_nat b) (of_nat d) (of_nat f) 8))))"

definition gpu_at :: "(u32 \<Rightarrow> u32) \<Rightarrow> nat \<times> nat \<times> nat \<Rightarrow> gpu_kind option" where
  "gpu_at cfg = (\<lambda>(b, d, f). let i = cfg (pci_addr (of_nat b) (of_nat d) (of_nat f) 0) in
     if no_device i then None else gpu_of (of_nat b) (of_nat d) (of_nat f) i (cfg (pci_addr (of_nat b) (of_nat d) (of_nat f) 8)))"

definition class_at :: "(u32 \<Rightarrow> u32) \<Rightarrow> u8 \<Rightarrow> u8 \<Rightarrow> u8 \<Rightarrow> nat \<times> nat \<times> nat \<Rightarrow> pci option" where
  "class_at cfg cls sub prog pl =
     (case dev_at cfg pl of Some p \<Rightarrow> if px_class p = cls \<and> px_sub p = sub \<and> px_prog p = prog then Some p else None | None \<Rightarrow> None)"

lemma class_visit_at:
  assumes "config_space io cfg" "reads_only h"
  shows "\<exists>h'. class_visit io cls sub prog (of_nat b) (of_nat d) (of_nat f) h = (class_at cfg cls sub prog (b, d, f), h') \<and> reads_only h'"
proof -
  from pci_r32_reads [OF assms, of "of_nat b" "of_nat d" "of_nat f" 0] obtain h1 where
    h1: "pci_r32 io (of_nat b) (of_nat d) (of_nat f) 0 h = (cfg (pci_addr (of_nat b) (of_nat d) (of_nat f) 0), h1)" "reads_only h1" by blast
  from pci_r32_reads [OF assms(1) h1(2), of "of_nat b" "of_nat d" "of_nat f" 8] show ?thesis
    using h1 by (auto simp: class_visit_def probe_def class_at_def dev_at_def Let_def)
qed

lemma gpu_visit_at:
  assumes "config_space io cfg" "reads_only h"
  shows "\<exists>h'. gpu_visit io (of_nat b) (of_nat d) (of_nat f) h = (gpu_at cfg (b, d, f), h') \<and> reads_only h'"
proof -
  from pci_r32_reads [OF assms, of "of_nat b" "of_nat d" "of_nat f" 0] obtain h1 where
    h1: "pci_r32 io (of_nat b) (of_nat d) (of_nat f) 0 h = (cfg (pci_addr (of_nat b) (of_nat d) (of_nat f) 0), h1)" "reads_only h1" by blast
  from pci_r32_reads [OF assms(1) h1(2), of "of_nat b" "of_nat d" "of_nat f" 8] show ?thesis
    using h1 by (auto simp: gpu_visit_def gpu_at_def Let_def)
qed


text \<open>A bus with a network card at device 3 of bus 0 and nothing else.\<close>

definition sample_config :: "u32 \<Rightarrow> u32" where
  "sample_config a = (if a = pci_addr 0 3 0 0 then 0x100E8086 else if a = pci_addr 0 3 0 8 then 0x02000003 else if a = pci_addr 0 3 0 0x0C then 0
     else 0xFFFFFFFF)"

definition sample_bus :: pci_bus where
  "sample_bus h p = (case last h of Out32 _ a \<Rightarrow> sample_config a | In32 _ v \<Rightarrow> v)"


end
