(* ===== verification/Display_Init.thy ===== *)
theory Display_Init
  imports Pci Display_Fb
begin

text \<open>
  Bringing up the display (\<^verbatim>\<open>display/mod.rs\<close>): framebuffer, search for the graphics chip, its driver, test pattern. The drivers of
  the two vendors are parameters: they get the address of the registers and the generation, and answer with their state or give up.
\<close>

section \<open>The chip that was found\<close>

definition bar64 :: "pci_bus \<Rightarrow> gpu_pci \<Rightarrow> nat \<Rightarrow> bus_hist \<Rightarrow> u64 option \<times> bus_hist" where
  "bar64 io g n h =
     (let off = of_nat (0x10 + n * 4) in
      case pci_r32 io (gp_bus g) (gp_dev g) (gp_fun g) off h of (lo, h1) \<Rightarrow>
      if lo AND 1 \<noteq> 0 then (None, h1)
      else case (if drop_bit 1 lo AND 3 = 2
                 then (case pci_r32 io (gp_bus g) (gp_dev g) (gp_fun g) (off + 4) h1 of (hi, h2) \<Rightarrow>
                        (push_bit 32 (ucast hi) OR (ucast lo AND NOT 0xF), h2))
                 else (ucast lo AND NOT 0xF, h1)) of (a, h2) \<Rightarrow>
        (if a = 0 then None else Some a, h2))"

definition gpu_enable :: "pci_bus \<Rightarrow> gpu_pci \<Rightarrow> bus_hist \<Rightarrow> bus_hist" where
  "gpu_enable io g h = (case pci_r16 io (gp_bus g) (gp_dev g) (gp_fun g) 4 h of (c, h1) \<Rightarrow>
     pci_w32 (gp_bus g) (gp_dev g) (gp_fun g) 4 (ucast c OR 0x06) h1)"

section \<open>The whole\<close>

datatype ('a, 'i) active_gpu = Active_Amd 'a | Active_Intel 'i

record ('a, 'i) disp =
  dp_gpu :: "('a, 'i) active_gpu option"
  dp_ready :: bool
  dp_fb :: fbs
  dp_io :: bus_hist
  dp_out :: string

definition d_line :: "string \<Rightarrow> ('a, 'i) disp \<Rightarrow> ('a, 'i) disp" where
  "d_line t d = d\<lparr>dp_out := dp_out d @ t @ [CHR 0x0A]\<rparr>"

text \<open>Device line, enabling, base register and driver, the same for both vendors.\<close>

definition start_gpu ::
    "pci_bus \<Rightarrow> string \<Rightarrow> (u64 \<Rightarrow> 's option) \<Rightarrow> ('s \<Rightarrow> ('a, 'i) active_gpu) \<Rightarrow> gpu_pci \<Rightarrow> ('a, 'i) disp \<Rightarrow> bool \<times> ('a, 'i) disp" where
  "start_gpu io name start act g d =
     (let d1 = d_line (''[DISP] '' @ name @ '' GPU device='' @ hex_str (ucast (gp_device g))) d;
          d2 = d1\<lparr>dp_io := gpu_enable io g (dp_io d1)\<rparr> in
      case bar64 io g 0 (dp_io d2) of
        (None, h) \<Rightarrow> (False, d_line (''[DISP] '' @ name @ '': no BAR0'') (d2\<lparr>dp_io := h\<rparr>))
      | (Some mmio, h) \<Rightarrow>
          (case start mmio of
             None \<Rightarrow> (False, d_line (''[DISP] '' @ name @ '' init failed'') (d2\<lparr>dp_io := h\<rparr>))
           | Some s \<Rightarrow> (True, d2\<lparr>dp_io := h, dp_gpu := Some (act s)\<rparr>)))"

text \<open>
  The long dash in the last message is one character of the source; the serial port gets the low byte of its code, 0x14.
\<close>

definition display_init ::
    "pci_bus \<Rightarrow> (dcn_gen \<Rightarrow> u64 \<Rightarrow> 'a option) \<Rightarrow> (intel_gen \<Rightarrow> u64 \<Rightarrow> 'i option) \<Rightarrow> u64 \<Rightarrow> ('a, 'i) disp \<times> pmm \<Rightarrow> (bool \<times> ('a, 'i) disp \<times> pmm) run" where
  "display_init io amd_display_init intel_display_init p4 = (\<lambda>(d, m).
     bind_run (fb_alloc p4 (dp_fb d) m) (\<lambda>(ok, fb, m1).
       let d1 = d\<lparr>dp_fb := fb\<rparr> in
       if \<not> ok then Done (False, d_line ''[DISP] FB alloc failed'' d1, m1)
       else case find_gpu io (dp_io d1) of
         (None, h) \<Rightarrow> Done (False, d_line ''[DISP] no supported GPU found'' (d1\<lparr>dp_io := h\<rparr>), m1)
       | (Some k, h) \<Rightarrow>
           (case (case k of Amd g gen \<Rightarrow> start_gpu io ''AMD'' (amd_display_init gen) Active_Amd g (d1\<lparr>dp_io := h\<rparr>)
                          | Intel g gen \<Rightarrow> start_gpu io ''Intel'' (intel_display_init gen) Active_Intel g (d1\<lparr>dp_io := h\<rparr>)) of
              (False, d2) \<Rightarrow> Done (False, d2, m1)
            | (True, d2) \<Rightarrow>
                Done (True, (d_line (''[DISP] OK '' @ [CHR 0x14] @ '' 1920x1080@60 XRGB8888'') (d2\<lparr>dp_ready := True\<rparr>))
                  \<lparr>dp_fb := display_test_pattern (dp_fb d2)\<rparr>, m1))))"

definition display_ok :: "('a, 'i) disp \<Rightarrow> bool" where "display_ok d = dp_ready d"

definition display_hotplug :: "('a \<Rightarrow> 'a) \<Rightarrow> ('i \<Rightarrow> 'i) \<Rightarrow> ('a, 'i) disp \<Rightarrow> ('a, 'i) disp" where
  "display_hotplug amd_hotplug intel_hotplug d =
     d\<lparr>dp_gpu := map_option (\<lambda>g. case g of Active_Amd s \<Rightarrow> Active_Amd (amd_hotplug s) | Active_Intel s \<Rightarrow> Active_Intel (intel_hotplug s)) (dp_gpu d)\<rparr>"

section \<open>What it leaves\<close>

lemma start_gpu_keeps:
  "start_gpu io name start act g d = (ok, d') \<Longrightarrow>
     dp_fb d' = dp_fb d \<and> dp_ready d' = dp_ready d \<and> (if ok then \<exists>mmio s. start mmio = Some s \<and> dp_gpu d' = Some (act s) else dp_gpu d' = dp_gpu d)"
  by (clarsimp simp: start_gpu_def d_line_def Let_def split: prod.splits option.splits) (auto intro: exI)

text \<open>
  The display is ready when the answer is true, and only then; it then shows the test pattern and has the state of the driver that
  the generation of the chip selects. An answer of false leaves the kernel without a driver, with the framebuffer allocated.
\<close>

lemma display_init_result:
  assumes "display_init io amd intel p4 (d, m) = Done (ok, d', m')" "\<not> dp_ready d" "dp_gpu d = None"
  shows "display_ok d' = ok \<and> (dp_gpu d' \<noteq> None) = ok \<and> (\<exists>got fb. fb_alloc p4 (dp_fb d) m = Done (got, fb, m') \<and>
    dp_fb d' = (if ok then display_test_pattern fb else fb))"
proof -
  from assms(1) obtain got fb m1 where f: "fb_alloc p4 (dp_fb d) m = Done (got, fb, m1)"
    by (cases "fb_alloc p4 (dp_fb d) m") (auto simp: display_init_def)
  note init = assms(1) [unfolded display_init_def prod.case f, simplified, unfolded Let_def]
  show ?thesis
  proof (cases "got \<and> fst (find_gpu io (dp_io d)) \<noteq> None")
    case False
    then show ?thesis using init f assms(2,3)
      by (auto simp: d_line_def display_ok_def split: if_splits prod.splits option.splits)
  next
    case True
    then obtain k h where g: "got" "find_gpu io (dp_io d) = (Some k, h)" by (cases "find_gpu io (dp_io d)") auto
    define r where "r = (case k of Amd g gen \<Rightarrow> start_gpu io ''AMD'' (amd gen) Active_Amd g (d\<lparr>dp_fb := fb, dp_io := h\<rparr>)
       | Intel g gen \<Rightarrow> start_gpu io ''Intel'' (intel gen) Active_Intel g (d\<lparr>dp_fb := fb, dp_io := h\<rparr>))"
    obtain b d2 where r: "r = (b, d2)" by fastforce
    have k: "dp_fb d2 = fb \<and> \<not> dp_ready d2 \<and> (dp_gpu d2 \<noteq> None) = b"
      using r assms(2,3) unfolding r_def by (cases k) (auto dest!: start_gpu_keeps split: if_splits)
    have "Done (ok, d', m') = (case r of (False, d2) \<Rightarrow> Done (False, d2, m1) | (True, d2) \<Rightarrow>
        Done (True, (d_line (''[DISP] OK '' @ [CHR 0x14] @ '' 1920x1080@60 XRGB8888'') (d2\<lparr>dp_ready := True\<rparr>))\<lparr>dp_fb := display_test_pattern (dp_fb d2)\<rparr>, m1))"
      using init g unfolding r_def by simp
    then show ?thesis using k r f by (cases b) (auto simp: d_line_def display_ok_def)
  qed
qed

end
