(* ===== verification/Spec2Isabelle.thy ===== *)
theory Spec2Isabelle
  imports Loader Usb_Hid Console Policy_Gate Msg_Queue Keyboard Scheduler Cow_Fault Vma_Inv Syscall_Props User_Map Heap_Block Valloc_Inv Disk_Sample Fb_Text Screen_Shows Interrupts Kernel_Terminal Ps2 Display_Init
begin

text \<open>
  A verification development for CosinusOS, a microkernel for x86-64 written in Rust with parts in Ada and assembly.
  Paths are relative to \<^verbatim>\<open>src/\<close> of the repository; \<open>K\<close> stands for \<^verbatim>\<open>kernel/src\<close>.

  \<^bold>\<open>The program and its parts.\<close> The boot loader hands \<^verbatim>\<open>kernel_main\<close> (\<^verbatim>\<open>K/lib.rs\<close>) the machine with identity-mapped
  memory. The kernel sets up the physical memory manager, its own page tables and its heap, looks at the disk, loads the
  descriptor and interrupt tables, starts its threads and enters the user program that came as a module of the boot loader.
  From then on it runs when it is interrupted: the timer picks the next thread, the keyboard fills the input ring, and the
  system call vector runs one of 15 calls, after a policy gate has looked at the ring and the token of the calling thread.

  \<^bold>\<open>Shared.\<close> \<open>Kernel_Prelude\<close>: the word types, the result type \<open>run\<close> of code that may panic (\<open>Panic\<close>) or never come
  back (\<open>Hang\<close>) with its bind, array access with Rust's bounds check, the collection \<open>run_simps\<close>. \<open>Fifo_Ring\<close> (locale
  of a ring that keeps a slot free, interpreted by the message queue and the keyboard ring), \<open>Raster\<close> (locale of a raster of
  pixels, interpreted by both framebuffers), \<open>Debug_Fmt\<close> (every routine that turns numbers into text), \<open>Spin_Lock\<close>
  (\<^verbatim>\<open>K/sync.rs\<close>: on the single processor a lock that is held when it is taken is never released, so taking it hangs).

  \<^bold>\<open>Policy.\<close> \<open>Policy_Log\<close>, \<open>Ring_Policy\<close>, \<open>Thread_Cap\<close>, \<open>Policy_Gate\<close>, one for each file of \<^verbatim>\<open>K/root_policy\<close>: the ring
  buffer of violations and its refinement to a history, the flags and masks of the four rings, the tokens of 32 threads,
  and the gate; the lemmas give the decision of the gate in every case and that a revoked thread is refused every call.

  \<^bold>\<open>Memory.\<close> \<open>Pmm\<close> (\<^verbatim>\<open>K/mm/pmm.rs\<close>, \<^verbatim>\<open>frame.rs\<close>): the bitmap refines the set of free frames. \<open>Page_Table\<close>, \<open>Vmm\<close>
  (\<^verbatim>\<open>K/mm/vmm.rs\<close>): entries, walks, operations. \<open>Vmm_Map\<close>, \<open>Vmm_Grow\<close>: the tables under a root as a tree without sharing, and
  mapping as an update of the translation (\<open>Page_Words\<close>, \<open>Virt_Mem\<close>: what the processor loads and stores through it);
  \<open>Address_Space\<close> and \<open>Cow_Fault\<close>: the properties. \<open>Vma\<close>, \<open>Vma_Inv\<close> (\<^verbatim>\<open>K/mm/vma.rs\<close>): areas of a process, sorted
  and disjoint. \<open>User_Map\<close> (\<^verbatim>\<open>K/mm/user.rs\<close>), \<open>Valloc\<close>, \<open>Valloc_Inv\<close> (\<^verbatim>\<open>K/valloc.rs\<close>): segments, the
  legacy calls, address ranges as a set of pages in use. \<open>Page_Loop\<close>, \<open>Page_Fill\<close>: the loops that map and fill a run of
  pages, shared by stacks, programs and framebuffer.

  \<^bold>\<open>Kernel heap\<close> (\<^verbatim>\<open>K/allocator\<close>). \<open>Buddy\<close> with the interface \<open>Page_Source\<close>, the linked lists of \<open>Mem_List\<close> and the
  refinement to a set of free pages (\<open>Page_Blocks\<close>, \<open>Buddy_Inv\<close>, \<open>Buddy_Alloc\<close>); \<open>Heap_Slab\<close>; the guards written in Ada
  (\<open>Heap_Guard\<close>); the global allocator over the three (\<open>Kernel_Heap\<close>) and its properties (\<open>Heap_Props\<close>, \<open>Heap_Block\<close>).

  \<^bold>\<open>Threads, calls, messages.\<close> \<open>Scheduler\<close> and \<open>Spawn\<close> (\<^verbatim>\<open>K/threading.rs\<close>): the table, the choice of the next thread,
  stacks and the register save and restore. \<open>Interrupts\<close> (\<^verbatim>\<open>K/perm.rs\<close>): stubs, tables, fault handlers. \<open>Msg_Queue\<close>,
  \<open>Ipc_Calls\<close> (\<^verbatim>\<open>K/ipc.rs\<close>): queues refine a FIFO of 15 places. \<open>Kernel_State\<close>, \<open>Syscall_Abi\<close>, \<open>Syscalls\<close>,
  \<open>Syscall_Props\<close> (\<^verbatim>\<open>K/syscall_api.rs\<close>): the state of the kernel, every handler, the dispatcher behind the gate. \<open>Loader\<close>
  (\<^verbatim>\<open>K/userspace_loader.rs\<close>): modules of the boot loader, flat and ELF programs.

  \<^bold>\<open>Devices.\<close> \<open>Console\<close> (\<^verbatim>\<open>K/debug.rs\<close>), \<open>Keyboard\<close> (\<^verbatim>\<open>K/input.rs\<close>), \<open>Kernel_Terminal\<close> (\<^verbatim>\<open>K/kterminal.rs\<close>, the line editor and its commands), \<open>Usb_Hid\<close> (\<^verbatim>\<open>K/usb/hid.rs\<close>), \<open>Display_Fb\<close> and
  \<open>Fb_Text\<close> (\<^verbatim>\<open>K/display/fb.rs\<close>): the text of the framebuffer is that of the console. The disk (\<^verbatim>\<open>K/root_file_system\<close>): \<open>Ata\<close>
  is the driver over a drive that answers as a function of the history of its ports, \<open>Disk_Wire\<close> what the drive sees,
  \<open>Disk_Write\<close> and \<open>Disk_Read\<close> what is written and read back; \<open>Disk_Guard\<close> and \<open>Disk_Monitor\<close> the gate in Ada and C
  in front of it; \<open>Rootfs\<close> and \<open>Rootfs_Props\<close> the installer. \<open>Sample_Space\<close> and \<open>Disk_Sample\<close> are concrete states for the examples.

  \<^bold>\<open>User program\<close> (\<^verbatim>\<open>userspace/src/main.rs\<close>). \<open>Status_Screen\<close>, \<open>Screen_Props\<close>, \<open>Screen_Shows\<close>: the renderer, that it
  stays in the framebuffer the kernel reports, and what the finished screen shows.

  \<^bold>\<open>How the model corresponds to the code.\<close> A static of the kernel is a field of the record of its component, and a function
  of the code a definition of the same name that takes the records it uses and returns them changed. Integers keep
  their width. Physical memory is the field \<open>pm_mem\<close> of \<open>pmm\<close>, by 8-byte words where the kernel keeps tables and lists in it.
  Indexing past an array, \<open>unwrap\<close> and \<open>panic!\<close> are \<open>Panic\<close>; a lock taken twice and a halted processor are \<open>Hang\<close>. A loop
  whose end depends on its input is a \<open>partial_function\<close>, whose value \<open>None\<close> is that it never ends, and the properties say that it
  ends; the others are structural over the range the code counts through (64 words, 512 entries, the tries of the driver,
  whose waiting loops end after \<open>TIMEOUT_CYCLES\<close>), so that no fuel is chosen for the model. Parameters stand for what is not in
  the sources: the drive, the answers of \<^verbatim>\<open>rdrand\<close> and of the controller ports, the checksum of the Ada run-time library,
  addresses the linker gives.

  \<^bold>\<open>What is not modelled.\<close> The translation buffer of the processor and its caches; that a page table entry may lie in memory
  the walk itself maps; the order of output on the serial port across components (each gives its own text); time, except the
  ticks the timer counts. System calls and interrupts run with interrupts disabled, so none of them is interrupted. Of the sources: the
  controllers of USB and the display chips, whose registers are the whole of what the code does; boot code and the
  linker scripts; and what is not part of the kernel image or of the user program that is built (see the components of the
  manifest). The parts in Forth, Odin and Zig are not Rust and no part of the image.
\<close>

end
